(* ===== verification/Prelude.thy ===== *)
theory Prelude
  imports Complex_Main "HOL-Library.Word" "HOL-Library.Char_ord"
begin

unbundle bit_operations_syntax

text \<open>
  Shared vocabulary of the development: the machine types of the C++ sources, the few
  operations of the C++ standard library that several components use (vector insertion, string
  search, conversion of a \<^verbatim>\<open>double\<close> to an integer), and the generic lemmas on lists and words
  that the component theories rely on.

  Conventions.  A \<^verbatim>\<open>uint8_t\<close> is an 8-bit word, an \<^verbatim>\<open>int16_t\<close> a 16-bit word read with
  \<open>sint\<close>; a \<^verbatim>\<open>std::vector\<close> is a list; a \<^verbatim>\<open>std::optional\<close> is an \<open>option\<close>;
  a \<^verbatim>\<open>double\<close> is a real number (rounding is not modelled); counters of type \<^verbatim>\<open>int\<close>
  that never come near their bound are \<open>int\<close> or \<open>nat\<close>.  Undefined behaviour of the sources
  (an index out of range, a conversion whose value does not fit) is the value \<open>None\<close> of an
  \<open>option\<close>, so that its absence is something to prove.
\<close>

section \<open>Machine types\<close>

type_synonym u8 = "8 word"
type_synonym u16 = "16 word"
type_synonym u32 = "32 word"
type_synonym bytes = "u8 list"

section \<open>Fact collections\<close>

named_theorems bool_preds "definitions of the executable predicates"
named_theorems os_simps "effects of the operating-system calls on the port"

section \<open>Operations of the C++ standard library\<close>

text \<open>\<^verbatim>\<open>v.insert(v.begin() + n, xs.begin(), xs.end())\<close>.\<close>

definition vec_insert :: "nat \<Rightarrow> 'a list \<Rightarrow> 'a list \<Rightarrow> 'a list" where
  "vec_insert n xs v = take n v @ xs @ drop n v"

text \<open>\<^verbatim>\<open>std::string::find\<close>: the position of the first occurrence.\<close>

fun find_pos :: "'a \<Rightarrow> 'a list \<Rightarrow> nat option" where
  "find_pos c [] = None"
| "find_pos c (x # xs) = (if x = c then Some 0 else map_option Suc (find_pos c xs))"

text \<open>A slice of \<open>n\<close> elements from position \<open>i\<close>; \<open>None\<close> when it runs past the end.\<close>

definition slice :: "nat \<Rightarrow> nat \<Rightarrow> 'a list \<Rightarrow> 'a list option" where
  "slice i n xs = (if i + n \<le> length xs then Some (take n (drop i xs)) else None)"

text \<open>\<^verbatim>\<open>static_cast<int>(d)\<close> truncates towards zero.\<close>

definition trunc_int :: "real \<Rightarrow> int" where
  "trunc_int d = (if 0 \<le> d then \<lfloor>d\<rfloor> else \<lceil>d\<rceil>)"

text \<open>\<^verbatim>\<open>static_cast<int16_t>(d)\<close>: undefined when the truncated value does not fit.\<close>

definition to_int16 :: "real \<Rightarrow> u16 option" where
  "to_int16 d =
     (if - 32768 \<le> trunc_int d \<and> trunc_int d \<le> 32767 then Some (word_of_int (trunc_int d))
      else None)"

text \<open>\<^verbatim>\<open>static_cast<int>(d)\<close> and \<^verbatim>\<open>std::round\<close> (halves away from zero).\<close>

definition to_int32 :: "real \<Rightarrow> int option" where
  "to_int32 d = (if - (2 ^ 31) \<le> trunc_int d \<and> trunc_int d < 2 ^ 31 then Some (trunc_int d) else None)"

definition cround :: "real \<Rightarrow> real" where
  "cround d = (if d < 0 then - of_int \<lfloor>- d + 1 / 2\<rfloor> else of_int \<lfloor>d + 1 / 2\<rfloor>)"

text \<open>A loop whose body may have undefined behaviour.\<close>

fun fold_opt :: "('a \<Rightarrow> 's \<Rightarrow> 's option) \<Rightarrow> 'a list \<Rightarrow> 's \<Rightarrow> 's option" where
  "fold_opt f [] s = Some s"
| "fold_opt f (x # xs) s = Option.bind (f x s) (fold_opt f xs)"

section \<open>Lists\<close>

lemma find_pos_None_iff [simp]: "find_pos c xs = None \<longleftrightarrow> c \<notin> set xs"
  by (induction xs) auto

lemma find_pos_SomeD:
  "find_pos c xs = Some n \<Longrightarrow> n < length xs \<and> xs ! n = c \<and> c \<notin> set (take n xs)"
  by (induction xs arbitrary: n) (auto split: if_splits)

lemma find_pos_append [simp]:
  "c \<notin> set xs \<Longrightarrow> find_pos c (xs @ c # ys) = Some (length xs)"
  by (induction xs) auto

lemma find_pos_split:
  "find_pos c xs = Some n \<Longrightarrow> xs = take n xs @ c # drop (Suc n) xs"
  using find_pos_SomeD [of c xs n] by (auto simp: id_take_nth_drop)

lemma length_vec_insert [simp]: "length (vec_insert n xs v) = length xs + length v"
  by (simp add: vec_insert_def)

lemma span_append:
  "\<forall>x \<in> set xs. P x \<Longrightarrow> rest = [] \<or> (\<exists>y ys. rest = y # ys \<and> \<not> P y) \<Longrightarrow>
     takeWhile P (xs @ rest) = xs \<and> dropWhile P (xs @ rest) = rest"
  by (induction xs) auto

lemma fold_opt_append [simp]: "fold_opt f (xs @ ys) s = Option.bind (fold_opt f xs s) (fold_opt f ys)"
  by (induction xs arbitrary: s) (auto split: bind_splits)

lemma fold_opt_invariant:
  assumes "fold_opt f xs s = Some s'" and "I s"
    and "\<And>x s s'. x \<in> set xs \<Longrightarrow> I s \<Longrightarrow> f x s = Some s' \<Longrightarrow> I s'"
  shows "I s'"
  using assms
proof (induction xs arbitrary: s)
  case (Cons a xs)
  from Cons.prems(1) obtain s1 where s1: "f a s = Some s1" "fold_opt f xs s1 = Some s'"
    by (auto simp: bind_eq_Some_conv)
  show ?case by (rule Cons.IH [OF s1(2) Cons.prems(3) [OF _ Cons.prems(2) s1(1)] Cons.prems(3)]) auto
qed simp

lemma fold_opt_defined:
  assumes "I s" and "\<And>x s. x \<in> set xs \<Longrightarrow> I s \<Longrightarrow> \<exists>s'. f x s = Some s' \<and> I s'"
  shows "\<exists>s'. fold_opt f xs s = Some s' \<and> I s'"
  using assms
proof (induction xs arbitrary: s)
  case (Cons a xs)
  from Cons.prems(2) [OF _ Cons.prems(1), of a] obtain s1 where s1: "f a s = Some s1" "I s1" by auto
  from Cons.IH [OF s1(2) Cons.prems(2)] s1 show ?case by auto
qed simp

section \<open>Truncation\<close>

lemma trunc_int_of_int [simp]: "trunc_int (of_int k) = k"
  by (simp add: trunc_int_def)

lemma trunc_int_minus: "trunc_int (- d) = - trunc_int d"
  by (auto simp: trunc_int_def ceiling_def)

lemma trunc_int_abs_le: "\<bar>d\<bar> \<le> of_int k \<Longrightarrow> \<bar>trunc_int d\<bar> \<le> k"
proof (cases "0 \<le> d")
  case True
  assume "\<bar>d\<bar> \<le> of_int k"
  with True show ?thesis by (simp add: trunc_int_def) linarith
next
  case False
  assume "\<bar>d\<bar> \<le> of_int k"
  with False show ?thesis by (simp add: trunc_int_def) linarith
qed

lemma trunc_int_mono: "a \<le> b \<Longrightarrow> trunc_int a \<le> trunc_int b"
proof (cases "0 \<le> a \<or> b < 0")
  case True
  assume "a \<le> b"
  with True show ?thesis by (auto simp: trunc_int_def floor_mono ceiling_mono)
next
  case False
  then have "a < 0" and "0 \<le> b" by auto
  then have "\<lceil>a\<rceil> \<le> \<lfloor>b\<rfloor>"
    by (meson ceiling_le_zero less_imp_le order_trans zero_le_floor)
  with False show ?thesis by (simp add: trunc_int_def)
qed

lemma sint_word_of_int16:
  "- 32768 \<le> k \<Longrightarrow> k \<le> 32767 \<Longrightarrow> sint (word_of_int k :: u16) = k"
  by (simp add: signed_of_int signed_take_bit_int_eq_self)

lemma sint_to_int16: "to_int16 d = Some w \<Longrightarrow> sint w = trunc_int d"
  by (auto simp: to_int16_def sint_word_of_int16 split: if_splits)

end
