(* ===== verification/EventFormat.thy ===== *)
theory EventFormat
  imports Prelude
begin

text \<open>
  The logfmt event lines of \<^verbatim>\<open>mg_utils/include/mg_utils/event_format.hpp\<close>: the identifier
  checks, the quoting of values, the rendering of a field and of a whole event.  The reference
  reader \<open>parse_event\<close> below is the specification the format is checked against: it recovers
  the name and every field of a formatted event.
\<close>

section \<open>The formatter\<close>

abbreviation (input) dquote :: char where "dquote \<equiv> CHR 0x22"
abbreviation (input) bslash :: char where "bslash \<equiv> CHR 0x5C"
abbreviation (input) newline :: char where "newline \<equiv> CHR 0x0A"
abbreviation (input) creturn :: char where "creturn \<equiv> CHR 0x0D"
abbreviation (input) tab :: char where "tab \<equiv> CHR 0x09"
abbreviation (input) vtab :: char where "vtab \<equiv> CHR 0x0B"
abbreviation (input) ffeed :: char where "ffeed \<equiv> CHR 0x0C"
abbreviation (input) space :: char where "space \<equiv> CHR 0x20"

definition IsLower :: "char \<Rightarrow> bool" where
  "IsLower c \<longleftrightarrow> CHR ''a'' \<le> c \<and> c \<le> CHR ''z''"

definition IsDigit :: "char \<Rightarrow> bool" where
  "IsDigit c \<longleftrightarrow> CHR ''0'' \<le> c \<and> c \<le> CHR ''9''"

definition IsIdentifier :: "string \<Rightarrow> bool" where
  "IsIdentifier text =
     (case text of
        [] \<Rightarrow> False
      | c0 # _ \<Rightarrow>
          if \<not> IsLower c0 then False
          else list_all (\<lambda>c. IsLower c \<or> IsDigit c \<or> c = CHR ''_'') text)"

definition IsEventName :: "string \<Rightarrow> bool" where
  "IsEventName name =
     (case find_pos (CHR ''.'') name of
        None \<Rightarrow> False
      | Some dot \<Rightarrow> IsIdentifier (take dot name) \<and> IsIdentifier (drop (dot + 1) name))"

text \<open>The characters that force a value into quotes.\<close>

definition needs_quote_char :: "char \<Rightarrow> bool" where
  "needs_quote_char c \<longleftrightarrow>
     c = space \<or> c = tab \<or> c = newline \<or> c = creturn \<or> c = vtab \<or> c = ffeed \<or> c = dquote \<or>
     c = CHR ''='' \<or> c = bslash"

definition escape_char :: "char \<Rightarrow> string" where
  "escape_char c =
     (if c = bslash then [bslash, bslash]
      else if c = dquote then [bslash, dquote]
      else if c = newline then [bslash, CHR ''n'']
      else if c = creturn then [bslash, CHR ''r'']
      else if c = tab then [bslash, CHR ''t'']
      else [c])"

definition QuoteIfNeeded :: "string \<Rightarrow> string" where
  "QuoteIfNeeded text =
     (let needs_quote = (text = [] \<or> list_ex needs_quote_char text)
      in if \<not> needs_quote then text
         else dquote # concat (map escape_char text) @ [dquote])"

text \<open>
  \<^verbatim>\<open>std::ostringstream << v\<close> for integers: decimal digits with a leading minus sign.
\<close>

fun show_nat :: "nat \<Rightarrow> string" where
  "show_nat n =
     (if n < 10 then [char_of (48 + n)] else show_nat (n div 10) @ [char_of (48 + n mod 10)])"

declare show_nat.simps [simp del]

definition show_int :: "int \<Rightarrow> string" where
  "show_int i = (if i < 0 then CHR ''-'' # show_nat (nat (- i)) else show_nat (nat i))"

text \<open>
  The values an \<^verbatim>\<open>EventField\<close> is built from: a string (or C string), a \<^verbatim>\<open>bool\<close>, an
  integer.  (No event of the C++ sources carries a floating-point field.)
\<close>

datatype event_value = EvString string | EvBool bool | EvInt int

fun field_value :: "event_value \<Rightarrow> string" where
  "field_value (EvString v) = QuoteIfNeeded v"
| "field_value (EvBool v) = (if v then ''true'' else ''false'')"
| "field_value (EvInt v) = show_int v"

type_synonym event_field = "string \<times> event_value"

datatype event_error = InvalidEventName string | InvalidEventKey string

fun format_fields :: "string \<Rightarrow> event_field list \<Rightarrow> event_error + string" where
  "format_fields out [] = Inr out"
| "format_fields out ((key, v) # fields) =
     (if \<not> IsIdentifier key \<or> key = ''evt'' then Inl (InvalidEventKey key)
      else format_fields (out @ [space] @ key @ ''='' @ field_value v) fields)"

definition FormatEvent :: "string \<Rightarrow> event_field list \<Rightarrow> event_error + string" where
  "FormatEvent name fields =
     (if \<not> IsEventName name then Inl (InvalidEventName name)
      else format_fields (''evt='' @ name) fields)"

section \<open>The reference reader\<close>

text \<open>The text a field stands for, before quoting.\<close>

fun value_text :: "event_value \<Rightarrow> string" where
  "value_text (EvString v) = v"
| "value_text (EvBool v) = (if v then ''true'' else ''false'')"
| "value_text (EvInt v) = show_int v"

definition unescape_code :: "char \<Rightarrow> char" where
  "unescape_code c =
     (if c = CHR ''n'' then newline else if c = CHR ''r'' then creturn
      else if c = CHR ''t'' then tab else c)"

text \<open>Read a quoted value up to its closing quote: the text and what follows it.\<close>

fun read_quoted :: "string \<Rightarrow> (string \<times> string) option" where
  "read_quoted [] = None"
| "read_quoted (c # cs) =
     (if c = dquote then Some ([], cs)
      else if c = bslash then
        (case cs of
           [] \<Rightarrow> None
         | d # ds \<Rightarrow> map_option (\<lambda>(t, r). (unescape_code d # t, r)) (read_quoted ds))
      else map_option (\<lambda>(t, r). (c # t, r)) (read_quoted cs))"

definition read_value :: "string \<Rightarrow> (string \<times> string) option" where
  "read_value s =
     (case s of
        [] \<Rightarrow> Some ([], [])
      | c # cs \<Rightarrow>
          if c = dquote then read_quoted cs
          else Some (takeWhile (\<lambda>c. c \<noteq> space) s, dropWhile (\<lambda>c. c \<noteq> space) s))"

text \<open>Read \<open>key=value\<close> pairs separated by one space; \<open>n\<close> bounds their number.\<close>

fun read_pairs :: "nat \<Rightarrow> string \<Rightarrow> (string \<times> string) list option" where
  "read_pairs 0 s = None"
| "read_pairs (Suc n) s =
     (case find_pos (CHR ''='') s of
        None \<Rightarrow> None
      | Some eq \<Rightarrow>
          (case read_value (drop (eq + 1) s) of
             None \<Rightarrow> None
           | Some (v, rest) \<Rightarrow>
               (case rest of
                  [] \<Rightarrow> Some [(take eq s, v)]
                | c # cs \<Rightarrow>
                    if c = space then map_option (\<lambda>ps. (take eq s, v) # ps) (read_pairs n cs)
                    else None)))"

definition parse_event :: "string \<Rightarrow> (string \<times> string) list option" where
  "parse_event s = read_pairs (length s) s"

section \<open>Lemmas\<close>

lemma IsIdentifier_chars:
  "IsIdentifier t \<Longrightarrow> c \<in> set t \<Longrightarrow> IsLower c \<or> IsDigit c \<or> c = CHR ''_''"
  by (auto simp: IsIdentifier_def list_all_iff split: list.splits if_splits)

lemma IsIdentifier_nonempty: "IsIdentifier t \<Longrightarrow> t \<noteq> []"
  by (auto simp: IsIdentifier_def)

lemma ident_char_plain:
  "IsLower c \<or> IsDigit c \<or> c = CHR ''_'' \<Longrightarrow> \<not> needs_quote_char c \<and> c \<noteq> CHR ''.''"
  by (auto simp: IsLower_def IsDigit_def needs_quote_char_def less_eq_char_def)

lemma IsIdentifier_plain: "IsIdentifier t \<Longrightarrow> c \<in> set t \<Longrightarrow> \<not> needs_quote_char c"
  using IsIdentifier_chars ident_char_plain by blast

lemma IsEventName_split:
  assumes "IsEventName name"
  obtains d e where "name = d @ CHR ''.'' # e" "IsIdentifier d" "IsIdentifier e"
proof -
  from assms obtain dot where dot: "find_pos (CHR ''.'') name = Some dot"
    and ids: "IsIdentifier (take dot name)" "IsIdentifier (drop (Suc dot) name)"
    by (auto simp: IsEventName_def split: option.splits)
  from find_pos_split [OF dot] ids show ?thesis by (metis that)
qed

lemma IsEventName_plain: "IsEventName name \<Longrightarrow> c \<in> set name \<Longrightarrow> \<not> needs_quote_char c"
  by (elim IsEventName_split) (auto simp: IsIdentifier_plain, simp add: needs_quote_char_def)

lemma plain_text_cases:
  "\<not> needs_quote_char c \<Longrightarrow>
     c \<noteq> space \<and> c \<noteq> newline \<and> c \<noteq> creturn \<and> c \<noteq> dquote \<and> c \<noteq> CHR ''='' \<and> c \<noteq> bslash"
  by (auto simp: needs_quote_char_def)

lemma show_nat_digits: "\<forall>c \<in> set (show_nat n). IsDigit c"
proof (induction n rule: show_nat.induct)
  case (1 n)
  have digit: "IsDigit (char_of (48 + m))" if "m < 10" for m :: nat
    using that by (auto simp: IsDigit_def less_eq_char_def)
  show ?case
    by (subst show_nat.simps) (use 1 digit in auto)
qed

lemma show_nat_nonempty: "show_nat n \<noteq> []"
  by (subst show_nat.simps) simp

lemma show_int_plain: "c \<in> set (show_int i) \<Longrightarrow> \<not> needs_quote_char c"
  using show_nat_digits [of "nat i"] show_nat_digits [of "nat (- i)"]
  by (auto simp: show_int_def split: if_splits dest!: bspec ident_char_plain [OF disjI2, OF disjI1])
    (simp add: needs_quote_char_def)

lemma show_int_nonempty: "show_int i \<noteq> []"
  by (simp add: show_int_def show_nat_nonempty)

text \<open>A quoted value is read back whatever follows it.\<close>

lemma read_quoted_escape:
  "read_quoted (concat (map escape_char t) @ dquote # rest) = Some (t, rest)"
  by (induction t) (auto simp: escape_char_def unescape_code_def)

text \<open>
  A rendered value is either plain (no character that needs quotes, not empty) or quoted; in both
  cases it is read back when the end of the line or a space follows.
\<close>

lemma field_value_cases:
  "(field_value v = value_text v \<and> value_text v \<noteq> [] \<and>
      (\<forall>c \<in> set (value_text v). \<not> needs_quote_char c)) \<or>
   field_value v = dquote # concat (map escape_char (value_text v)) @ [dquote]"
proof (cases v)
  case (EvString t)
  then show ?thesis by (auto simp: QuoteIfNeeded_def list_ex_iff)
next
  case (EvBool b)
  then show ?thesis by (auto simp: needs_quote_char_def)
next
  case (EvInt i)
  then show ?thesis by (auto simp: show_int_plain show_int_nonempty)
qed

lemma read_value_field:
  assumes "rest = [] \<or> (\<exists>cs. rest = space # cs)"
  shows "read_value (field_value v @ rest) = Some (value_text v, rest)"
proof (rule disjE [OF field_value_cases [of v]])
  assume plain: "field_value v = value_text v \<and> value_text v \<noteq> [] \<and>
    (\<forall>c \<in> set (value_text v). \<not> needs_quote_char c)"
  then have ok: "\<forall>c \<in> set (value_text v). c \<noteq> space \<and> c \<noteq> dquote"
    using plain_text_cases by blast
  then have "takeWhile (\<lambda>c. c \<noteq> space) (value_text v @ rest) = value_text v \<and>
    dropWhile (\<lambda>c. c \<noteq> space) (value_text v @ rest) = rest"
    by (intro span_append) (use assms in auto)
  with plain ok show ?thesis
    by (cases "value_text v") (auto simp: read_value_def)
next
  assume "field_value v = dquote # concat (map escape_char (value_text v)) @ [dquote]"
  then show ?thesis
    by (simp add: read_value_def read_quoted_escape)
qed

text \<open>The rendering of fields as one string, without the accumulator.\<close>

definition render_field :: "event_field \<Rightarrow> string" where
  "render_field f = [space] @ fst f @ ''='' @ field_value (snd f)"

definition valid_key :: "event_field \<Rightarrow> bool" where
  "valid_key f \<longleftrightarrow> IsIdentifier (fst f) \<and> fst f \<noteq> ''evt''"

lemma format_fields_ok:
  "list_all valid_key fields \<Longrightarrow>
     format_fields out fields = Inr (out @ concat (map render_field fields))"
  by (induction fields arbitrary: out) (auto simp: valid_key_def render_field_def)

lemma format_fields_error:
  "\<not> list_all valid_key fields \<Longrightarrow> \<exists>k. format_fields out fields = Inl (InvalidEventKey k)"
  by (induction fields arbitrary: out) (auto simp: valid_key_def)

lemma FormatEvent_ok_iff:
  "FormatEvent name fields = Inr out \<longleftrightarrow>
     IsEventName name \<and> list_all valid_key fields \<and>
     out = ''evt='' @ name @ concat (map render_field fields)"
proof (cases "list_all valid_key fields")
  case True
  then show ?thesis by (auto simp: FormatEvent_def format_fields_ok)
next
  case False
  then obtain k where "format_fields (''evt='' @ name) fields = Inl (InvalidEventKey k)"
    using format_fields_error by blast
  with False show ?thesis by (auto simp: FormatEvent_def)
qed

lemma read_pairs_step:
  assumes "CHR ''='' \<notin> set key" and "rest = [] \<or> (\<exists>cs. rest = space # cs)"
  shows "read_pairs (Suc n) (key @ CHR ''='' # field_value v @ rest) =
    (case rest of [] \<Rightarrow> Some [(key, value_text v)]
     | c # cs \<Rightarrow> map_option (\<lambda>ps. (key, value_text v) # ps) (read_pairs n cs))"
  using assms by (auto simp: read_value_field split: list.splits)

lemma read_pairs_fields:
  assumes "list_all valid_key fields" and "CHR ''='' \<notin> set key" and "length fields < n"
  shows "read_pairs n (key @ CHR ''='' # field_value v @ concat (map render_field fields)) =
    Some ((key, value_text v) # map (\<lambda>(k, u). (k, value_text u)) fields)"
  using assms
proof (induction fields arbitrary: n key v)
  case Nil
  then show ?case
    using read_pairs_step [of key "[]" "n - 1" v] by (cases n) (simp_all del: read_pairs.simps)
next
  case (Cons f fields)
  obtain m where n: "n = Suc m" using Cons.prems(3) by (cases n) auto
  have key: "CHR ''='' \<notin> set (fst f)"
    using Cons.prems(1) IsIdentifier_plain plain_text_cases by (auto simp: valid_key_def)
  have "read_pairs m (fst f @ CHR ''='' # field_value (snd f) @ concat (map render_field fields)) =
    Some ((fst f, value_text (snd f)) # map (\<lambda>(k, u). (k, value_text u)) fields)"
    using Cons.prems key n by (intro Cons.IH) auto
  then show ?case
    using Cons.prems(2) n
    by (simp add: read_pairs_step render_field_def [of f] case_prod_unfold del: read_pairs.simps)
qed

lemma length_render: "length fields \<le> length (concat (map render_field fields))"
  by (induction fields) (auto simp: render_field_def)

lemma field_value_one_line: "newline \<notin> set (field_value v) \<and> creturn \<notin> set (field_value v)"
proof (rule disjE [OF field_value_cases [of v]])
  assume "field_value v = value_text v \<and> value_text v \<noteq> [] \<and>
    (\<forall>c \<in> set (value_text v). \<not> needs_quote_char c)"
  then show ?thesis using plain_text_cases by metis
next
  assume "field_value v = dquote # concat (map escape_char (value_text v)) @ [dquote]"
  then show ?thesis by (auto simp: escape_char_def split: if_splits)
qed

lemma render_field_one_line:
  "valid_key f \<Longrightarrow> newline \<notin> set (render_field f) \<and> creturn \<notin> set (render_field f)"
  using field_value_one_line [of "snd f"] IsIdentifier_plain [of "fst f"] plain_text_cases
  by (auto simp: render_field_def valid_key_def)

section \<open>Properties\<close>



text \<open>
  A formatted event is one log line: no field value, key or name puts a line feed or a carriage
  return into the output.
\<close>

theorem event_single_line:
  assumes "FormatEvent name fields = Inr out"
  shows "newline \<notin> set out \<and> creturn \<notin> set out"
proof -
  from assms have "IsEventName name" and keys: "list_all valid_key fields"
    and out: "out = ''evt='' @ name @ concat (map render_field fields)"
    by (auto simp: FormatEvent_ok_iff)
  then have "newline \<notin> set name \<and> creturn \<notin> set name"
    using IsEventName_plain plain_text_cases by blast
  moreover have "newline \<notin> set (concat (map render_field fields)) \<and>
    creturn \<notin> set (concat (map render_field fields))"
    using keys render_field_one_line by (auto simp: list_all_iff)
  ultimately show ?thesis using out by simp
qed

theorem event_single_line_witness:
  "newline \<notin> set (''evt=a.b k='' @ [dquote, bslash] @ ''nx'' @ [dquote]) \<and>
   creturn \<notin> set (''evt=a.b k='' @ [dquote, bslash] @ ''nx'' @ [dquote])"
proof -
  have "FormatEvent ''a.b'' [(''k'', EvString [newline, CHR ''x''])] =
    Inr (''evt=a.b k='' @ [dquote, bslash] @ ''nx'' @ [dquote])"
    by code_simp
  from event_single_line [OF this] show ?thesis .
qed

end
