(* ===== verification/FloatVal.thy ===== *)
theory FloatVal
  imports Prelude
begin

text \<open>
  Floating-point values with their special cases, for the code that meets them: real numbers without
  rounding, the two infinities and NaN, with the comparisons and arithmetic of IEEE 754 on them.  It is
  used where the source filters or relies on such values (point clouds and laser ranges); elsewhere a
  \<^verbatim>\<open>double\<close> is a real number.
\<close>

section \<open>Floating-point values\<close>

datatype fval = Fin real | PInf | NInf | NaN

fun f_lt :: "fval \<Rightarrow> fval \<Rightarrow> bool" where
  "f_lt (Fin a) (Fin b) = (a < b)"
| "f_lt (Fin a) PInf = True"
| "f_lt NInf (Fin b) = True"
| "f_lt NInf PInf = True"
| "f_lt _ _ = False"

definition f_le :: "fval \<Rightarrow> fval \<Rightarrow> bool" where
  "f_le a b \<longleftrightarrow> a \<noteq> NaN \<and> b \<noteq> NaN \<and> (f_lt a b \<or> a = b)"

fun f_neg :: "fval \<Rightarrow> fval" where
  "f_neg (Fin a) = Fin (- a)"
| "f_neg PInf = NInf"
| "f_neg NInf = PInf"
| "f_neg NaN = NaN"

fun f_add :: "fval \<Rightarrow> fval \<Rightarrow> fval" where
  "f_add (Fin a) (Fin b) = Fin (a + b)"
| "f_add (Fin a) b = b"
| "f_add a (Fin b) = a"
| "f_add PInf PInf = PInf"
| "f_add NInf NInf = NInf"
| "f_add _ _ = NaN"

definition f_inf :: "bool \<Rightarrow> fval" where
  "f_inf positive = (if positive then PInf else NInf)"

fun f_mul :: "fval \<Rightarrow> fval \<Rightarrow> fval" where
  "f_mul NaN _ = NaN"
| "f_mul _ NaN = NaN"
| "f_mul (Fin a) (Fin b) = Fin (a * b)"
| "f_mul (Fin a) b = (if a = 0 then NaN else f_inf ((0 < a) = (b = PInf)))"
| "f_mul a (Fin b) = (if b = 0 then NaN else f_inf ((0 < b) = (a = PInf)))"
| "f_mul a b = f_inf (a = b)"

definition f_sub :: "fval \<Rightarrow> fval \<Rightarrow> fval" where
  "f_sub a b = f_add a (f_neg b)"

text \<open>\<^verbatim>\<open>std::min\<close> and \<^verbatim>\<open>std::max\<close>.\<close>

definition f_min :: "fval \<Rightarrow> fval \<Rightarrow> fval" where
  "f_min a b = (if f_lt b a then b else a)"

definition f_max :: "fval \<Rightarrow> fval \<Rightarrow> fval" where
  "f_max a b = (if f_lt a b then b else a)"

text \<open>The number of a finite value; the source converts only such values to integers.\<close>

fun fin_val :: "fval \<Rightarrow> real" where
  "fin_val (Fin a) = a"
| "fin_val _ = 0"

definition FLT_MAX :: real where
  "FLT_MAX = (2 - 1 / 2 ^ 23) * 2 ^ 127"

section \<open>Floating-point facts\<close>

lemma f_le_Fin [simp]: "f_le (Fin a) (Fin b) \<longleftrightarrow> a \<le> b"
  by (auto simp: f_le_def)

lemma f_le_between:
  "f_le (Fin a) x \<Longrightarrow> f_le x (Fin b) \<Longrightarrow> \<exists>r. x = Fin r \<and> a \<le> r \<and> r \<le> b"
  "f_le (Fin a) x \<Longrightarrow> f_lt x (Fin b) \<Longrightarrow> \<exists>r. x = Fin r \<and> a \<le> r \<and> r < b"
  by (cases x; auto simp: f_le_def)+

lemma f_minmax_Fin [simp]:
  "f_min (Fin a) (Fin b) = Fin (min a b)" "f_max (Fin a) (Fin b) = Fin (max a b)"
  by (auto simp: f_min_def f_max_def)

lemma f_sub_Fin [simp]: "f_sub (Fin a) (Fin b) = Fin (a - b)"
  by (simp add: f_sub_def)

lemma f_le_trans: "f_le a b \<Longrightarrow> f_le b c \<Longrightarrow> f_le a c"
  by (cases a; cases b; cases c) (auto simp: f_le_def)

end
