(* ===== verification/Geometry.thy ===== *)
theory Geometry
  imports FloatVal
begin

text \<open>
  \<^verbatim>\<open>slam_gnss_2d/core/data_types.hpp\<close> and \<^verbatim>\<open>slam_gnss_2d/core/geometry.cpp\<close>: the data passed between the
  SLAM components, and planar geometry: angles, poses, scan points and their normals.

  Pointers that may be null are \<open>option\<close> values.  Laser ranges are floating-point values, since
  drivers report missing returns as NaN or infinity; everything else is a real number.
\<close>

section \<open>Data\<close>

type_synonym vec2 = "real \<times> real"
type_synonym mat3 = "(real \<times> real \<times> real) \<times> (real \<times> real \<times> real) \<times> (real \<times> real \<times> real)"

record SubmapPatch =
  patch_width :: nat
  patch_height :: nat
  patch_resolution :: real
  patch_origin_x :: real
  patch_origin_y :: real
  hit_patch :: "int list list"
  miss_patch :: "int list list"

record ScanData =
  scan_stamp :: real
  ranges :: "fval list"
  angle_min :: real
  angle_increment :: real
  range_min :: real
  range_max :: real
  lidar_x :: real
  lidar_y :: real
  lidar_yaw :: real
  scan_duration :: real
  angles :: "real list"

record OdomData =
  o_stamp :: real
  o_x :: real
  o_y :: real
  o_yaw :: real

record GnssData =
  g_stamp :: real
  g_x :: real
  g_y :: real
  g_cov :: "vec2 \<times> vec2"
  g_fix :: int
  g_lat :: real
  g_lon :: real

record SensorFrame =
  f_scan :: "ScanData option"
  f_odom :: OdomData
  f_gnss :: "GnssData option"

record PoseNode =
  n_index :: int
  n_stamp :: real
  n_x :: real
  n_y :: real
  n_yaw :: real
  n_scan :: "ScanData option"
  n_patch :: "SubmapPatch option"
  n_normals :: "vec2 list option"

record MatchResult =
  m_dx :: real
  m_dy :: real
  m_dyaw :: real
  m_converged :: bool
  m_information :: mat3
  m_score :: real

record PoseEdge =
  e_from :: int
  e_to :: int
  e_dx :: real
  e_dy :: real
  e_dyaw :: real
  e_information :: mat3
  e_score :: real
  e_fallback :: bool

record GnssPrior =
  gp_node_index :: int
  gp_x :: real
  gp_y :: real
  gp_information :: "vec2 \<times> vec2"

definition beam_angle :: "ScanData \<Rightarrow> nat \<Rightarrow> real" where
  "beam_angle scan i =
     (if angles scan = [] then angle_min scan + real i * angle_increment scan else angles scan ! i)"

section \<open>Angles and poses\<close>

text \<open>\<^verbatim>\<open>std::atan2\<close> and \<^verbatim>\<open>std::hypot\<close>.\<close>

definition atan2 :: "real \<Rightarrow> real \<Rightarrow> real" where
  "atan2 y x =
     (if 0 < x then arctan (y / x)
      else if x < 0 then (if 0 \<le> y then arctan (y / x) + pi else arctan (y / x) - pi)
      else if 0 < y then pi / 2 else if y < 0 then - pi / 2 else 0)"

definition hypot :: "real \<Rightarrow> real \<Rightarrow> real" where
  "hypot x y = sqrt (x\<^sup>2 + y\<^sup>2)"

definition normalize_angle :: "real \<Rightarrow> real" where
  "normalize_angle angle = atan2 (sin angle) (cos angle)"

definition angle_diff :: "real \<Rightarrow> real \<Rightarrow> real" where
  "angle_diff a b = atan2 (sin (a - b)) (cos (a - b))"

definition quaternion_to_yaw :: "real \<Rightarrow> real \<Rightarrow> real \<Rightarrow> real \<Rightarrow> real" where
  "quaternion_to_yaw x y z w =
     (let siny_cosp = 2 * (w * z + x * y); cosy_cosp = 1 - 2 * (y * y + z * z)
      in atan2 siny_cosp cosy_cosp)"

definition yaw_to_quaternion :: "real \<Rightarrow> real \<times> real \<times> real \<times> real" where
  "yaw_to_quaternion yaw = (0, 0, sin (yaw * 0.5), cos (yaw * 0.5))"

type_synonym pose = "real \<times> real \<times> real"

definition compose_pose :: "pose \<Rightarrow> pose \<Rightarrow> pose" where
  "compose_pose = (\<lambda>(x1, y1, yaw1) (dx, dy, dyaw).
     let cy = cos yaw1; sy = sin yaw1
     in (x1 + cy * dx - sy * dy, y1 + sy * dx + cy * dy, normalize_angle (yaw1 + dyaw)))"

definition delta_pose :: "pose \<Rightarrow> pose \<Rightarrow> pose" where
  "delta_pose = (\<lambda>(x1, y1, yaw1) (x2, y2, yaw2).
     let dx_w = x2 - x1; dy_w = y2 - y1; cy = cos yaw1; sy = sin yaw1
     in (cy * dx_w + sy * dy_w, - sy * dx_w + cy * dy_w, normalize_angle (yaw2 - yaw1)))"

definition world_delta_to_local :: "real \<Rightarrow> real \<Rightarrow> real \<Rightarrow> vec2" where
  "world_delta_to_local dx_w dy_w reference_yaw =
     (let c = cos (- reference_yaw); s = sin (- reference_yaw)
      in (c * dx_w - s * dy_w, s * dx_w + c * dy_w))"

definition local_delta_to_world :: "real \<Rightarrow> real \<Rightarrow> real \<Rightarrow> vec2" where
  "local_delta_to_world dx_local dy_local reference_yaw =
     (let c = cos reference_yaw; s = sin reference_yaw
      in (c * dx_local - s * dy_local, s * dx_local + c * dy_local))"

definition points_local_to_world :: "vec2 list \<Rightarrow> real \<Rightarrow> real \<Rightarrow> real \<Rightarrow> vec2 list" where
  "points_local_to_world local_pts origin_x origin_y yaw =
     map (\<lambda>(x, y). (cos yaw * x - sin yaw * y + origin_x, sin yaw * x + cos yaw * y + origin_y)) local_pts"

definition points_world_to_local :: "vec2 list \<Rightarrow> real \<Rightarrow> real \<Rightarrow> real \<Rightarrow> vec2 list" where
  "points_world_to_local world_pts origin_x origin_y yaw =
     map (\<lambda>(x, y). let dx = x - origin_x; dy = y - origin_y
        in (cos yaw * dx + sin yaw * dy, - sin yaw * dx + cos yaw * dy)) world_pts"

definition normals_local_to_world :: "vec2 list \<Rightarrow> real \<Rightarrow> vec2 list" where
  "normals_local_to_world local_normals yaw =
     map (\<lambda>(x, y). (cos yaw * x - sin yaw * y, sin yaw * x + cos yaw * y)) local_normals"

definition normals_world_to_local :: "vec2 list \<Rightarrow> real \<Rightarrow> vec2 list" where
  "normals_world_to_local world_normals yaw =
     map (\<lambda>(x, y). (cos yaw * x + sin yaw * y, - sin yaw * x + cos yaw * y)) world_normals"

definition rebase_and_rotate_nodes :: "PoseNode list \<Rightarrow> real \<Rightarrow> PoseNode list" where
  "rebase_and_rotate_nodes nodes rot =
     (case nodes of
        [] \<Rightarrow> []
      | front # _ \<Rightarrow>
          let origin_x = n_x front; origin_y = n_y front; c = cos rot; s = sin rot
          in map (\<lambda>n. let dx = n_x n - origin_x; dy = n_y n - origin_y
               in n\<lparr>n_x := c * dx - s * dy, n_y := s * dx + c * dy, n_yaw := n_yaw n + rot\<rparr>) nodes)"

section \<open>Scans\<close>

definition beam_valid :: "ScanData \<Rightarrow> nat \<Rightarrow> bool" where
  "beam_valid scan i \<longleftrightarrow> f_le (Fin (range_min scan)) (ranges scan ! i) \<and> f_le (ranges scan ! i) (Fin (range_max scan))"

definition valid_beams :: "ScanData \<Rightarrow> nat list" where
  "valid_beams scan = filter (beam_valid scan) [0..<length (ranges scan)]"

definition beam_point :: "ScanData \<Rightarrow> nat \<Rightarrow> vec2" where
  "beam_point scan i =
     (let r = fin_val (ranges scan ! i); angle = beam_angle scan i
      in (r * cos angle + lidar_x scan, r * sin angle + lidar_y scan))"

definition scan_to_points :: "ScanData \<Rightarrow> vec2 list" where
  "scan_to_points scan = map (beam_point scan) (valid_beams scan)"

definition scan_ptr_to_points :: "ScanData option \<Rightarrow> vec2 list" where
  "scan_ptr_to_points scan = (case scan of None \<Rightarrow> [] | Some s \<Rightarrow> scan_to_points s)"

definition dist_sq :: "vec2 \<Rightarrow> vec2 \<Rightarrow> real" where
  "dist_sq = (\<lambda>(ax, ay) (bx, by). (ax - bx)\<^sup>2 + (ay - by)\<^sup>2)"

definition max_jump_dist_sq :: real where "max_jump_dist_sq = 0.25 * 0.25"

text \<open>The neighbour of a point among the previous (next) two points, if one is close enough.\<close>

definition prev_idx :: "vec2 list \<Rightarrow> nat list \<Rightarrow> nat \<Rightarrow> nat option" where
  "prev_idx pts beam_indices i =
     map_option (\<lambda>step. i - step)
       (find (\<lambda>step. step \<le> i \<and> beam_indices ! i - beam_indices ! (i - step) \<le> step + 1 \<and>
          dist_sq (pts ! i) (pts ! (i - step)) < max_jump_dist_sq * real step * real step) [1, 2])"

definition next_idx :: "vec2 list \<Rightarrow> nat list \<Rightarrow> nat \<Rightarrow> nat option" where
  "next_idx pts beam_indices i =
     map_option (\<lambda>step. i + step)
       (find (\<lambda>step. i + step < length pts \<and> beam_indices ! (i + step) - beam_indices ! i \<le> step + 1 \<and>
          dist_sq (pts ! (i + step)) (pts ! i) < max_jump_dist_sq * real step * real step) [1, 2])"

definition vsub :: "vec2 \<Rightarrow> vec2 \<Rightarrow> vec2" where
  "vsub = (\<lambda>(ax, ay) (bx, by). (ax - bx, ay - by))"

definition tangent_at :: "vec2 list \<Rightarrow> nat list \<Rightarrow> nat \<Rightarrow> vec2 option" where
  "tangent_at pts beam_indices i =
     (case (prev_idx pts beam_indices i, next_idx pts beam_indices i) of
        (Some p, Some n) \<Rightarrow> Some (vsub (pts ! n) (pts ! p))
      | (None, Some n) \<Rightarrow> Some (vsub (pts ! n) (pts ! i))
      | (Some p, None) \<Rightarrow> Some (vsub (pts ! i) (pts ! p))
      | (None, None) \<Rightarrow> None)"

definition view_normal :: "vec2 \<Rightarrow> vec2" where
  "view_normal = (\<lambda>(vx, vy).
     let n = hypot vx vy in if n > 1 / 10000 then (vx / n, vy / n) else (0, 1))"

definition normal_at :: "ScanData \<Rightarrow> vec2 list \<Rightarrow> nat list \<Rightarrow> nat \<Rightarrow> vec2" where
  "normal_at scan pts beam_indices i =
     (let (vx, vy) = (lidar_x scan - fst (pts ! i), lidar_y scan - snd (pts ! i))
      in case tangent_at pts beam_indices i of
           Some (tx, ty) \<Rightarrow>
             if tx\<^sup>2 + ty\<^sup>2 > 1 / 10 ^ 8 then
               let n = hypot (- ty) tx; (nx, ny) = (- ty / n, tx / n)
               in if nx * vx + ny * vy < 0 then (- nx, - ny) else (nx, ny)
             else view_normal (vx, vy)
         | None \<Rightarrow> view_normal (vx, vy))"

definition scan_to_points_and_normals :: "ScanData \<Rightarrow> vec2 list \<times> vec2 list" where
  "scan_to_points_and_normals scan =
     (let pts = scan_to_points scan
      in (pts, map (normal_at scan pts (valid_beams scan)) [0..<length pts]))"

section \<open>Lemmas on atan2\<close>

lemma hypot_pos_iff: "0 < hypot x y \<longleftrightarrow> x \<noteq> 0 \<or> y \<noteq> 0"
  by (auto simp: hypot_def sum_power2_gt_zero_iff)

lemma hypot_nonneg [simp]: "0 \<le> hypot x y"
  by (simp add: hypot_def)

lemma hypot_commute: "hypot x y = hypot y x"
  by (simp add: hypot_def add.commute)

lemma hypot_polar: "0 \<le> r \<Longrightarrow> hypot (r * cos a) (r * sin a) = r"
proof -
  assume "0 \<le> r"
  have "(r * cos a)\<^sup>2 + (r * sin a)\<^sup>2 = r\<^sup>2 * ((cos a)\<^sup>2 + (sin a)\<^sup>2)"
    by (simp only: power_mult_distrib distrib_left)
  with \<open>0 \<le> r\<close> show ?thesis by (simp add: hypot_def)
qed

lemma arctan_quotient:
  assumes "x \<noteq> 0"
  shows "cos (arctan (y / x)) = \<bar>x\<bar> / hypot x y" and "sin (arctan (y / x)) = sgn x * y / hypot x y"
proof -
  have "sqrt (1 + (y / x)\<^sup>2) = hypot x y / \<bar>x\<bar>"
  proof -
    have "1 + (y / x)\<^sup>2 = (x\<^sup>2 + y\<^sup>2) / x\<^sup>2" using assms by (simp add: field_simps)
    then show ?thesis by (simp add: hypot_def real_sqrt_divide)
  qed
  then show "cos (arctan (y / x)) = \<bar>x\<bar> / hypot x y" and "sin (arctan (y / x)) = sgn x * y / hypot x y"
    using assms by (simp_all add: cos_arctan sin_arctan sgn_if)
qed

lemma atan2_cos_sin:
  assumes "x \<noteq> 0 \<or> y \<noteq> 0"
  shows "cos (atan2 y x) = x / hypot x y" and "sin (atan2 y x) = y / hypot x y"
proof -
  have "cos (atan2 y x) = x / hypot x y \<and> sin (atan2 y x) = y / hypot x y"
  proof (cases "x = 0")
    case True
    then show ?thesis using assms by (auto simp: atan2_def hypot_def)
  next
    case False
    then show ?thesis
      using arctan_quotient [OF False, of y] by (auto simp: atan2_def cos_diff sin_diff sgn_if)
  qed
  then show "cos (atan2 y x) = x / hypot x y" and "sin (atan2 y x) = y / hypot x y" by blast+
qed

lemma atan2_polar_back:
  "hypot x y * cos (atan2 y x) = x" "hypot x y * sin (atan2 y x) = y"
  by (cases "x = 0 \<and> y = 0"; auto simp: atan2_cos_sin hypot_def)+

lemma atan2_range: "- pi < atan2 y x" "atan2 y x \<le> pi"
proof -
  have a: "- (pi / 2) < arctan (y / x)" "arctan (y / x) < pi / 2" using arctan_bounded by auto
  have "0 \<le> y \<Longrightarrow> x < 0 \<Longrightarrow> arctan (y / x) \<le> 0" by (simp add: divide_nonneg_neg)
  moreover have "y < 0 \<Longrightarrow> x < 0 \<Longrightarrow> 0 < arctan (y / x)" by (simp add: divide_neg_neg)
  ultimately show "- pi < atan2 y x" "atan2 y x \<le> pi"
    using a pi_gt_zero by (auto simp: atan2_def) 
qed

lemma principal_unique:
  assumes "- pi < a" "a \<le> pi" "- pi < b" "b \<le> pi" "sin a = sin b" "cos a = cos b"
  shows "a = b"
proof -
  obtain n :: int where n: "a = b + 2 * pi * n" using assms(5,6) sin_cos_eq_iff by blast
  have "- 1 < real_of_int n \<and> real_of_int n < 1"
  proof (rule ccontr)
    assume "\<not> ?thesis"
    then have "real_of_int n \<le> - 1 \<or> 1 \<le> real_of_int n" by linarith
    then have "2 * pi * real_of_int n \<le> 2 * pi * (- 1) \<or> 2 * pi * 1 \<le> 2 * pi * real_of_int n"
      by (elim disj_forward mult_left_mono) simp_all
    with n assms(1-4) show False by linarith
  qed
  then show ?thesis using n by simp
qed

lemma normalize_angle_trig [simp]:
  "cos (normalize_angle a) = cos a" "sin (normalize_angle a) = sin a"
proof -
  have h: "hypot (cos a) (sin a) = 1" using hypot_polar [of 1 a] by simp
  have "cos a \<noteq> 0 \<or> sin a \<noteq> 0" using sin_zero_abs_cos_one [of a] by auto
  then show "cos (normalize_angle a) = cos a" "sin (normalize_angle a) = sin a"
    using h by (simp_all add: normalize_angle_def atan2_cos_sin)
qed

lemma normalize_angle_range: "- pi < normalize_angle a" "normalize_angle a \<le> pi"
  by (simp_all add: normalize_angle_def atan2_range)

lemma normalize_angle_cong:
  "sin a = sin b \<Longrightarrow> cos a = cos b \<Longrightarrow> normalize_angle a = normalize_angle b"
  by (simp add: normalize_angle_def)

lemma normalize_angle_id: "- pi < a \<Longrightarrow> a \<le> pi \<Longrightarrow> normalize_angle a = a"
  by (rule principal_unique) (simp_all add: normalize_angle_range)

lemma angle_diff_eq: "angle_diff a b = normalize_angle (a - b)"
  by (simp add: angle_diff_def normalize_angle_def)

lemma normalize_angle_simps [simp]:
  "normalize_angle (normalize_angle a) = normalize_angle a"
  "normalize_angle (normalize_angle a + b) = normalize_angle (a + b)"
  "normalize_angle (a + normalize_angle b) = normalize_angle (a + b)"
  "normalize_angle (normalize_angle a - b) = normalize_angle (a - b)"
  "normalize_angle (a - normalize_angle b) = normalize_angle (a - b)"
  by (intro normalize_angle_cong; simp add: sin_add cos_add sin_diff cos_diff)+

lemma trig_rotate:
  fixes a x y :: real
  shows "cos a * (cos a * x - sin a * y) + sin a * (sin a * x + cos a * y) = x"
  "- sin a * (cos a * x - sin a * y) + cos a * (sin a * x + cos a * y) = y"
  "cos a * (cos a * x + sin a * y) - sin a * (- sin a * x + cos a * y) = x"
  "sin a * (cos a * x + sin a * y) + cos a * (- sin a * x + cos a * y) = y"
proof -
  have s: "cos a * cos a + sin a * sin a = 1" by simp
  have one: "z * (cos a * cos a) + z * (sin a * sin a) = z" for z
    by (simp only: distrib_left [symmetric] s mult_1_right)
  show "cos a * (cos a * x - sin a * y) + sin a * (sin a * x + cos a * y) = x"
    and "- sin a * (cos a * x - sin a * y) + cos a * (sin a * x + cos a * y) = y"
    and "cos a * (cos a * x + sin a * y) - sin a * (- sin a * x + cos a * y) = x"
    and "sin a * (cos a * x + sin a * y) + cos a * (- sin a * x + cos a * y) = y"
    by (simp_all add: algebra_simps one)
qed

lemma rotate_delta:
  fixes a r u v :: real
  shows "cos (a + r) * (cos r * u - sin r * v) + sin (a + r) * (sin r * u + cos r * v) = cos a * u + sin a * v"
    and "- sin (a + r) * (cos r * u - sin r * v) + cos (a + r) * (sin r * u + cos r * v) = - sin a * u + cos a * v"
proof -
  let ?X = "cos r * u - sin r * v" and ?Y = "sin r * u + cos r * v"
  have XY: "cos r * ?X + sin r * ?Y = u" "- sin r * ?X + cos r * ?Y = v" by (rule trig_rotate)+
  have "cos (a + r) * X + sin (a + r) * Y = cos a * (cos r * X + sin r * Y) + sin a * (- sin r * X + cos r * Y)"
    and "- sin (a + r) * X + cos (a + r) * Y = - sin a * (cos r * X + sin r * Y) + cos a * (- sin r * X + cos r * Y)"
    for X Y by (simp_all add: cos_add sin_add algebra_simps)
  from this [of ?X ?Y]
  show "cos (a + r) * ?X + sin (a + r) * ?Y = cos a * u + sin a * v"
    and "- sin (a + r) * ?X + cos (a + r) * ?Y = - sin a * u + cos a * v"
    unfolding XY by blast+
qed

section \<open>Lemmas on poses and scans\<close>

lemma delta_world_local:
  "local_delta_to_world (fst (world_delta_to_local dx dy a)) (snd (world_delta_to_local dx dy a)) a = (dx, dy)"
  "world_delta_to_local (fst (local_delta_to_world dx dy a)) (snd (local_delta_to_world dx dy a)) a = (dx, dy)"
  using trig_rotate [of a dx dy] by (simp_all add: local_delta_to_world_def world_delta_to_local_def Let_def)

lemma points_world_local:
  "points_world_to_local (points_local_to_world pts ox oy yaw) ox oy yaw = pts"
  "points_local_to_world (points_world_to_local pts ox oy yaw) ox oy yaw = pts"
  using trig_rotate [of yaw]
  by (induction pts) (auto simp: points_local_to_world_def points_world_to_local_def Let_def)

lemma normals_world_local:
  "normals_world_to_local (normals_local_to_world ns yaw) yaw = ns"
  "normals_local_to_world (normals_world_to_local ns yaw) yaw = ns"
  using trig_rotate [of yaw]
  by (induction ns) (auto simp: normals_local_to_world_def normals_world_to_local_def Let_def)

definition node_pose :: "PoseNode \<Rightarrow> pose" where
  "node_pose n = (n_x n, n_y n, n_yaw n)"

lemma rebase_length [simp]: "length (rebase_and_rotate_nodes nodes rot) = length nodes"
  by (simp add: rebase_and_rotate_nodes_def Let_def split: list.split)

lemma rebase_nth:
  assumes "i < length nodes"
  shows "rebase_and_rotate_nodes nodes rot ! i =
    (let n = nodes ! i; dx = n_x n - n_x (hd nodes); dy = n_y n - n_y (hd nodes)
     in n\<lparr>n_x := cos rot * dx - sin rot * dy, n_y := sin rot * dx + cos rot * dy, n_yaw := n_yaw n + rot\<rparr>)"
  using assms by (cases nodes) (simp_all add: rebase_and_rotate_nodes_def Let_def nth_Cons split: nat.split)

lemma scan_points_length [simp]: "length (scan_to_points scan) = length (valid_beams scan)"
  by (simp add: scan_to_points_def)

lemma fst_points_and_normals [simp]: "fst (scan_to_points_and_normals scan) = scan_to_points scan"
  by (simp add: scan_to_points_and_normals_def Let_def)

lemma unit_quotient: "0 < hypot x y \<Longrightarrow> (x / hypot x y)\<^sup>2 + (y / hypot x y)\<^sup>2 = 1"
proof -
  assume h: "0 < hypot x y"
  have "(x / hypot x y)\<^sup>2 + (y / hypot x y)\<^sup>2 = (x\<^sup>2 + y\<^sup>2) / (hypot x y)\<^sup>2"
    by (simp add: power_divide add_divide_distrib)
  also have "(hypot x y)\<^sup>2 = x\<^sup>2 + y\<^sup>2" by (simp add: hypot_def)
  finally show ?thesis using h by (auto simp: hypot_def)
qed

text \<open>
  A normal is acceptable for a view vector: it has unit length, and it faces the sensor unless the sensor is at
  the point.
\<close>

definition good_normal :: "vec2 \<Rightarrow> vec2 \<Rightarrow> bool" where
  "good_normal = (\<lambda>(vx, vy) (nx, ny).
     nx\<^sup>2 + ny\<^sup>2 = 1 \<and> (1 / 10000 < hypot vx vy \<longrightarrow> 0 \<le> nx * vx + ny * vy))"

lemma view_normal_good: "good_normal v (view_normal v)"
proof (cases v)
  case (Pair vx vy)
  have dot: "vx / n * vx + vy / n * vy = (vx\<^sup>2 + vy\<^sup>2) / n" for n
    by (simp add: power2_eq_square add_divide_distrib)
  show ?thesis
  proof (cases "1 / 10000 < hypot vx vy")
    case True
    then have "0 < hypot vx vy" by linarith
    then show ?thesis
      using True unit_quotient [of vx vy] dot [of "hypot vx vy"]
      by (simp add: Pair view_normal_def good_normal_def Let_def)
  qed (simp add: Pair view_normal_def good_normal_def Let_def)
qed

lemma normal_at_good:
  "good_normal (lidar_x scan - fst (pts ! i), lidar_y scan - snd (pts ! i)) (normal_at scan pts bs i)"
proof (cases "tangent_at pts bs i")
  case None
  then show ?thesis by (simp add: normal_at_def view_normal_good)
next
  case (Some t)
  obtain tx ty where t: "t = (tx, ty)" by (cases t)
  show ?thesis
  proof (cases "tx\<^sup>2 + ty\<^sup>2 > 1 / 10 ^ 8")
    case False
    then show ?thesis using Some t by (simp add: normal_at_def view_normal_good)
  next
    case True
    then have "tx \<noteq> 0 \<or> ty \<noteq> 0" by auto
    then have "0 < hypot (- ty) tx" by (auto simp: hypot_pos_iff)
    then have "(- ty / hypot (- ty) tx)\<^sup>2 + (tx / hypot (- ty) tx)\<^sup>2 = 1" by (rule unit_quotient)
    then show ?thesis
      using Some t True by (auto simp: normal_at_def good_normal_def Let_def)
  qed
qed

section \<open>Properties\<close>

text \<open>
  Composing poses undoes taking their difference: moving by the relative pose of two poses leads from one to
  the other, and the relative pose of a moved pose is the move, headings up to whole turns.
\<close>

theorem pose_roundtrip:
  "compose_pose (x1, y1, yaw1) (delta_pose (x1, y1, yaw1) (x2, y2, yaw2)) = (x2, y2, normalize_angle yaw2) \<and>
   delta_pose (x1, y1, yaw1) (compose_pose (x1, y1, yaw1) (dx, dy, dyaw)) = (dx, dy, normalize_angle dyaw)"
proof -
  have "x1 + cos yaw1 * a - sin yaw1 * b - x1 = cos yaw1 * a - sin yaw1 * b"
    "y1 + sin yaw1 * a + cos yaw1 * b - y1 = sin yaw1 * a + cos yaw1 * b" for a b by simp_all
  moreover have "x1 + cos yaw1 * (cos yaw1 * (x2 - x1) + sin yaw1 * (y2 - y1)) -
      sin yaw1 * (- sin yaw1 * (x2 - x1) + cos yaw1 * (y2 - y1)) = x2"
    "y1 + sin yaw1 * (cos yaw1 * (x2 - x1) + sin yaw1 * (y2 - y1)) +
      cos yaw1 * (- sin yaw1 * (x2 - x1) + cos yaw1 * (y2 - y1)) = y2"
    using trig_rotate(3,4) [of yaw1 "x2 - x1" "y2 - y1"] by linarith+
  ultimately show ?thesis
    using trig_rotate(1,2) [of yaw1 dx dy] by (simp add: compose_pose_def delta_pose_def Let_def)
qed

text \<open>
  The yaw read from the quaternion of a yaw is that yaw, reduced to the half-open interval from \<open>-pi\<close>
  (excluded) to \<open>pi\<close> (included); yaws already in it come back unchanged.
\<close>

theorem yaw_quaternion_roundtrip:
  "(case yaw_to_quaternion yaw of (x, y, z, w) \<Rightarrow> quaternion_to_yaw x y z w) = normalize_angle yaw \<and>
   - pi < normalize_angle yaw \<and> normalize_angle yaw \<le> pi \<and>
   (- pi < yaw \<and> yaw \<le> pi \<longrightarrow> normalize_angle yaw = yaw)"
proof -
  have "2 * (cos (yaw / 2) * sin (yaw / 2)) = sin yaw" using sin_double [of "yaw / 2"] by simp
  moreover have "1 - 2 * (sin (yaw / 2) * sin (yaw / 2)) = cos yaw"
    using cos_double_sin [of "yaw / 2"] by (simp add: power2_eq_square)
  ultimately show ?thesis
    by (simp add: yaw_to_quaternion_def quaternion_to_yaw_def normalize_angle_range normalize_angle_id)
      (simp add: normalize_angle_def)
qed

theorem yaw_quaternion_roundtrip_witness:
  "normalize_angle 1 = 1 \<and>
   (case yaw_to_quaternion 1 of (x, y, z, w) \<Rightarrow> quaternion_to_yaw x y z w) = 1"
  using yaw_quaternion_roundtrip [of 1] pi_ge_two by simp

text \<open>
  Aligning the nodes with the GNSS frame keeps their relative poses: after \<^verbatim>\<open>rebase_and_rotate_nodes\<close> the first
  node is at the origin, and the pose of every node relative to every other one is as before.
\<close>

theorem rebase_keeps_relative_poses:
  assumes "i < length nodes" and "j < length nodes"
  shows "let ns = rebase_and_rotate_nodes nodes rot
    in n_x (hd ns) = 0 \<and> n_y (hd ns) = 0 \<and>
       delta_pose (node_pose (ns ! i)) (node_pose (ns ! j)) = delta_pose (node_pose (nodes ! i)) (node_pose (nodes ! j))"
proof -
  let ?ns = "rebase_and_rotate_nodes nodes rot"
  have "nodes \<noteq> []" using assms by auto
  then have hd: "hd ?ns = ?ns ! 0" "hd nodes = nodes ! 0" by (metis hd_conv_nth length_0_conv rebase_length)+
  have "n_x (hd ?ns) = 0 \<and> n_y (hd ?ns) = 0"
    using \<open>nodes \<noteq> []\<close> by (simp add: hd rebase_nth Let_def)
  moreover have "delta_pose (node_pose (?ns ! i)) (node_pose (?ns ! j)) =
      delta_pose (node_pose (nodes ! i)) (node_pose (nodes ! j))"
    using assms rotate_delta [of "n_yaw (nodes ! i)" rot "n_x (nodes ! j) - n_x (nodes ! i)"
      "n_y (nodes ! j) - n_y (nodes ! i)"]
    by (simp add: node_pose_def rebase_nth Let_def delta_pose_def algebra_simps)
  ultimately show ?thesis by (simp add: Let_def)
qed

definition sample_node :: PoseNode where
  "sample_node = \<lparr>n_index = 0, n_stamp = 0, n_x = 1, n_y = 2, n_yaw = 0, n_scan = None, n_patch = None,
     n_normals = None\<rparr>"

theorem rebase_keeps_relative_poses_witness:
  "let ns = rebase_and_rotate_nodes [sample_node, sample_node\<lparr>n_index := 1, n_x := 4\<rparr>] (pi / 2)
   in n_x (hd ns) = 0 \<and> delta_pose (node_pose (ns ! 0)) (node_pose (ns ! 1)) = (3, 0, 0)"
proof -
  let ?nodes = "[sample_node, sample_node\<lparr>n_index := 1, n_x := 4\<rparr>]"
  have "delta_pose (node_pose (?nodes ! 0)) (node_pose (?nodes ! 1)) = (3, 0, 0)"
    using normalize_angle_id [of 0] by (simp add: sample_node_def node_pose_def delta_pose_def)
  with rebase_keeps_relative_poses [of 0 ?nodes 1 "pi / 2"] show ?thesis
    unfolding Let_def by (simp del: nth_Cons_0 nth_Cons_Suc)
qed

text \<open>
  Every scan point gets one normal of unit length, turned towards the sensor (unless the sensor is within
  0.1 mm of the point).
\<close>

theorem scan_normals_unit_facing:
  assumes "scan_to_points_and_normals scan = (pts, normals)" and "i < length pts"
  shows "length normals = length pts \<and>
    good_normal (lidar_x scan - fst (pts ! i), lidar_y scan - snd (pts ! i)) (normals ! i)"
  using assms by (auto simp: scan_to_points_and_normals_def Let_def normal_at_good)

definition sample_scan :: ScanData where
  "sample_scan = \<lparr>scan_stamp = 0, ranges = [Fin 1, NaN, Fin 2], angle_min = 0, angle_increment = pi / 2,
     range_min = 1 / 10, range_max = 30, lidar_x = 0, lidar_y = 0, lidar_yaw = 0, scan_duration = 0,
     angles = []\<rparr>"

lemma sample_beams: "valid_beams sample_scan = [0, 2]"
  by (simp add: valid_beams_def beam_valid_def sample_scan_def numeral_eq_Suc f_le_def)

theorem scan_normals_unit_facing_witness:
  "good_normal (lidar_x sample_scan - fst (scan_to_points sample_scan ! 1),
     lidar_y sample_scan - snd (scan_to_points sample_scan ! 1))
    (snd (scan_to_points_and_normals sample_scan) ! 1)"
  using scan_normals_unit_facing [of sample_scan "scan_to_points sample_scan"
      "snd (scan_to_points_and_normals sample_scan)" 1]
    fst_points_and_normals [of sample_scan]
  by (simp add: sample_beams prod_eq_iff)

end
