(* ===== verification/Gnss.thy ===== *)
theory Gnss
  imports Geometry
begin

text \<open>
  \<^verbatim>\<open>slam_gnss_2d/gnss\<close>: the anchor that ties the map to UTM coordinates (\<^verbatim>\<open>anchor_manager.cpp\<close>), the projection helpers
  (\<^verbatim>\<open>utm.cpp\<close>) and the quality rules of the navigation bridge (\<^verbatim>\<open>nav_bridge_core.cpp\<close>).  The projection itself is
  GeographicLib's, a parameter: forward from latitude and longitude to zone, hemisphere and coordinates, and
  reverse, which may throw.
\<close>

section \<open>The projection\<close>

record projection =
  utm_forward :: "real \<Rightarrow> real \<Rightarrow> int option \<Rightarrow> int \<times> bool \<times> real \<times> real"
  utm_reverse :: "int \<Rightarrow> bool \<Rightarrow> real \<Rightarrow> real \<Rightarrow> (real \<times> real) option"

record UtmTransformer =
  utm_zone :: int
  utm_northp :: bool

definition build_utm_transformer :: "projection \<Rightarrow> real \<Rightarrow> real \<Rightarrow> UtmTransformer" where
  "build_utm_transformer geo latitude longitude =
     (case utm_forward geo latitude longitude None of (zone, northp, _, _) \<Rightarrow> \<lparr>utm_zone = zone, utm_northp = northp\<rparr>)"

definition transform_latlon :: "projection \<Rightarrow> UtmTransformer \<Rightarrow> real \<Rightarrow> real \<Rightarrow> vec2" where
  "transform_latlon geo transformer latitude longitude =
     (case utm_forward geo latitude longitude (Some (utm_zone transformer)) of (_, _, x, y) \<Rightarrow> (x, y))"

section \<open>anchor_manager.cpp\<close>

record anchor_manager =
  anchor_x :: "real option"
  anchor_y :: "real option"
  anchor_lat :: "real option"
  anchor_lon :: "real option"
  anchor_zone :: "int option"
  anchor_northp :: "bool option"

definition GnssAnchorManager :: anchor_manager where
  "GnssAnchorManager = \<lparr>anchor_x = None, anchor_y = None, anchor_lat = None, anchor_lon = None, anchor_zone = None,
     anchor_northp = None\<rparr>"

definition anchor_is_initialized :: "anchor_manager \<Rightarrow> bool" where
  "anchor_is_initialized a \<longleftrightarrow> anchor_x a \<noteq> None \<and> anchor_y a \<noteq> None"

definition anchor_utm :: "anchor_manager \<Rightarrow> vec2 option" where
  "anchor_utm a = (if anchor_is_initialized a then Some (the (anchor_x a), the (anchor_y a)) else None)"

text \<open>\<^verbatim>\<open>anchor_latlon\<close> dereferences the latitude and the longitude: undefined (the outer \<open>None\<close>) when they are unset.\<close>

definition anchor_latlon :: "anchor_manager \<Rightarrow> vec2 option option" where
  "anchor_latlon a =
     (if \<not> anchor_is_initialized a then Some None
      else case (anchor_lat a, anchor_lon a) of (Some lat, Some lon) \<Rightarrow> Some (Some (lat, lon)) | _ \<Rightarrow> None)"

definition set_anchor :: "projection \<Rightarrow> real \<Rightarrow> real \<Rightarrow> real \<Rightarrow> real \<Rightarrow> anchor_manager \<Rightarrow> anchor_manager" where
  "set_anchor geo x y lat lon a =
     (case utm_forward geo lat lon None of (zone, northp, _, _) \<Rightarrow>
        a\<lparr>anchor_x := Some x, anchor_y := Some y, anchor_lat := Some lat, anchor_lon := Some lon,
          anchor_zone := Some zone, anchor_northp := Some northp\<rparr>)"

definition try_set_anchor :: "projection \<Rightarrow> GnssData \<Rightarrow> int \<Rightarrow> anchor_manager \<Rightarrow> bool \<times> anchor_manager" where
  "try_set_anchor geo gnss min_fix_status a =
     (if anchor_is_initialized a then (False, a)
      else if g_fix gnss < min_fix_status then (False, a)
      else
        (case utm_forward geo (g_lat gnss) (g_lon gnss) None of (zone, northp, _, _) \<Rightarrow>
           (True, a\<lparr>anchor_x := Some (g_x gnss), anchor_y := Some (g_y gnss), anchor_lat := Some (g_lat gnss),
                    anchor_lon := Some (g_lon gnss), anchor_zone := Some zone, anchor_northp := Some northp\<rparr>)))"

definition update_anchor :: "projection \<Rightarrow> real \<Rightarrow> real \<Rightarrow> anchor_manager \<Rightarrow> anchor_manager" where
  "update_anchor geo x y a =
     (let a = a\<lparr>anchor_x := Some x, anchor_y := Some y\<rparr>
      in case (anchor_zone a, anchor_northp a) of
           (Some zone, Some northp) \<Rightarrow>
             (case utm_reverse geo zone northp x y of
                Some (lat, lon) \<Rightarrow> a\<lparr>anchor_lat := Some lat, anchor_lon := Some lon\<rparr>
              | None \<Rightarrow> a)
         | _ \<Rightarrow> a)"

text \<open>\<^verbatim>\<open>to_local\<close> throws when there is no anchor.\<close>

definition to_local :: "anchor_manager \<Rightarrow> GnssData \<Rightarrow> vec2 option" where
  "to_local a gnss =
     (case (anchor_x a, anchor_y a) of
        (Some x, Some y) \<Rightarrow> Some (g_x gnss - x, g_y gnss - y)
      | _ \<Rightarrow> None)"

section \<open>nav_bridge_core.cpp\<close>

datatype CarrierSolution = kNone | kFloat | kFixed

record PositionQualityConfig =
  fix_floor_m :: real
  float_floor_m :: real
  single_floor_m :: real
  fix_scale :: real
  float_scale :: real
  single_scale :: real
  accept_single :: bool
  max_covariance_threshold :: real

definition CarrierFromFlags :: "u8 \<Rightarrow> CarrierSolution" where
  "CarrierFromFlags flags =
     (let soln = drop_bit 6 flags AND 3 in if soln = 2 then kFixed else if soln = 1 then kFloat else kNone)"

definition PositionVariance :: "PositionQualityConfig \<Rightarrow> CarrierSolution \<Rightarrow> real \<Rightarrow> real option" where
  "PositionVariance config carrier h_acc_m =
     (if carrier = kNone \<and> \<not> accept_single config then None
      else
        let (floor_m, scale) = (case carrier of
                kFixed \<Rightarrow> (fix_floor_m config, fix_scale config)
              | kFloat \<Rightarrow> (float_floor_m config, float_scale config)
              | kNone \<Rightarrow> (single_floor_m config, single_scale config));
            sigma = max h_acc_m floor_m;
            variance = sigma * sigma * scale
        in if max_covariance_threshold config < variance * 2 then None else Some variance)"

definition AntennaToBase :: "vec2 \<Rightarrow> real \<Rightarrow> real \<Rightarrow> real \<Rightarrow> vec2" where
  "AntennaToBase antenna base_yaw lever_x lever_y =
     (let c = cos base_yaw; s = sin base_yaw
      in (fst antenna - (c * lever_x - s * lever_y), snd antenna - (s * lever_x + c * lever_y)))"

definition LeverArmUncertaintyVariance :: "real \<Rightarrow> real \<Rightarrow> real" where
  "LeverArmUncertaintyVariance lever_x lever_y = lever_x * lever_x + lever_y * lever_y"

section \<open>Properties\<close>

lemma to_local_some_iff: "to_local a g = Some p \<longleftrightarrow> (\<exists>x y. anchor_x a = Some x \<and> anchor_y a = Some y \<and> p = (g_x g - x, g_y g - y))"
  by (auto simp: to_local_def split: option.splits)

lemma to_local_defined: "anchor_is_initialized a \<Longrightarrow> \<exists>p. to_local a g = Some p"
  by (auto simp: anchor_is_initialized_def to_local_def split: option.splits)

lemma LeverArm_is_worst_case: "(c\<^sup>2 + s\<^sup>2 = 1) \<Longrightarrow> (c * x - s * y)\<^sup>2 + (s * x + c * y)\<^sup>2 = LeverArmUncertaintyVariance x y"
proof -
  assume cs: "c\<^sup>2 + s\<^sup>2 = 1"
  have "(c * x - s * y)\<^sup>2 + (s * x + c * y)\<^sup>2 = (c\<^sup>2 + s\<^sup>2) * (x * x + y * y)" by algebra
  with cs show ?thesis by (simp add: LeverArmUncertaintyVariance_def)
qed

text \<open>
  The bridge's position handling is sound: a reported variance never falls below the floor configured for
  the kind of solution and never exceeds half the threshold; and the base position computed from the antenna is
  off by at most the lever arm, whose square is the extra variance used when the heading is unknown.
\<close>

theorem bridge_position_bounds:
  assumes "PositionVariance config carrier h_acc = Some v"
    and "0 \<le> (case carrier of kFixed \<Rightarrow> fix_scale config | kFloat \<Rightarrow> float_scale config | kNone \<Rightarrow> single_scale config)"
    and "fl = (case carrier of kFixed \<Rightarrow> fix_floor_m config | kFloat \<Rightarrow> float_floor_m config | kNone \<Rightarrow> single_floor_m config)"
    and "0 \<le> fl"
  shows "fl * fl * (case carrier of kFixed \<Rightarrow> fix_scale config | kFloat \<Rightarrow> float_scale config | kNone \<Rightarrow> single_scale config) \<le> v
    \<and> 2 * v \<le> max_covariance_threshold config \<and>
    (let base = AntennaToBase antenna yaw lx ly
     in (fst antenna - fst base)\<^sup>2 + (snd antenna - snd base)\<^sup>2 = LeverArmUncertaintyVariance lx ly)"
proof -
  let ?scale = "case carrier of kFixed \<Rightarrow> fix_scale config | kFloat \<Rightarrow> float_scale config | kNone \<Rightarrow> single_scale config"
  have v: "v = max h_acc fl * max h_acc fl * ?scale" "2 * v \<le> max_covariance_threshold config"
    using assms(1, 3) by (auto simp: PositionVariance_def Let_def not_less mult.commute split: CarrierSolution.splits if_splits)
  have "fl * fl \<le> max h_acc fl * max h_acc fl" using assms(4) by (intro mult_mono) auto
  then have "fl * fl * ?scale \<le> v" using assms(2) unfolding v(1) by (rule mult_right_mono)
  moreover have "(fst antenna - fst (AntennaToBase antenna yaw lx ly))\<^sup>2 + (snd antenna - snd (AntennaToBase antenna yaw lx ly))\<^sup>2 =
      LeverArmUncertaintyVariance lx ly"
    using LeverArm_is_worst_case [of "cos yaw" "sin yaw" lx ly] by (simp add: AntennaToBase_def Let_def)
  ultimately show ?thesis using v(2) by (simp add: Let_def)
qed

definition sample_quality :: PositionQualityConfig where
  "sample_quality = \<lparr>fix_floor_m = 1 / 50, float_floor_m = 1 / 50, single_floor_m = 1 / 50, fix_scale = 1, float_scale = 1,
     single_scale = 1, accept_single = True, max_covariance_threshold = 49\<rparr>"

theorem bridge_position_bounds_witness:
  "PositionVariance sample_quality kFixed 1 = Some 1 \<and> 1 / 50 * (1 / 50) * 1 \<le> (1 :: real) \<and>
   (let base = AntennaToBase (1, 2) pi 3 4 in (1 - fst base)\<^sup>2 + (2 - snd base)\<^sup>2 = LeverArmUncertaintyVariance 3 4)"
proof -
  have v: "PositionVariance sample_quality kFixed 1 = Some 1" by (simp add: PositionVariance_def sample_quality_def)
  have c: "fix_scale sample_quality = 1" "fix_floor_m sample_quality = 1 / 50" by (simp_all add: sample_quality_def)
  show ?thesis
    using v bridge_position_bounds [OF v, of "1 / 50" "(1, 2)" pi 3 4]
    unfolding CarrierSolution.case c fst_conv snd_conv by linarith
qed

text \<open>An anchor in use has a latitude and a longitude, so that reading them is defined.\<close>

definition anchor_ok :: "anchor_manager \<Rightarrow> bool" where
  "anchor_ok a \<longleftrightarrow> (anchor_is_initialized a \<longrightarrow> anchor_lat a \<noteq> None \<and> anchor_lon a \<noteq> None)"

lemma anchor_ok_latlon: "anchor_ok a \<Longrightarrow> anchor_latlon a \<noteq> None"
  by (auto simp: anchor_ok_def anchor_latlon_def split: option.splits)

lemma anchor_ok_try_set: "anchor_ok a \<Longrightarrow> anchor_ok (snd (try_set_anchor geo g s a))"
  by (auto simp: anchor_ok_def try_set_anchor_def split: prod.splits)

lemma anchor_ok_update: "anchor_ok a \<Longrightarrow> anchor_is_initialized a \<Longrightarrow> anchor_ok (update_anchor geo x y a)"
  by (auto simp: anchor_ok_def update_anchor_def Let_def split: option.splits)

end
