(* ===== verification/NavBridge.thy ===== *)
theory NavBridge
  imports Gnss
begin

text \<open>
  \<^verbatim>\<open>nodes/slam_gnss_nav_bridge_node.cpp\<close>: the node that turns GNSS fixes into positions on the map.  Every callback is a
  step on the state of the node that returns what it publishes and logs; the time, the transform of the robot and
  GeographicLib's projection are arguments.  Variances are floating-point values, since the square root of a negative
  covariance is NaN.
\<close>

unbundle bit_operations_syntax

section \<open>Configuration, messages and state\<close>

record bridge_config =
  gnss_navpvt :: bool
  heading_from_navpvt :: bool
  heading_min_dist :: real
  heading_alpha :: real
  min_pub_dist :: real
  br_quality :: PositionQualityConfig
  lever_arm_compensation :: bool
  lever_x :: real
  lever_y :: real
  yaw_max_age_sec :: real
  time_offset_sec :: real
  adoption_timeout_sec :: real

datatype DiagnosticLevel = OK | WARN | ERROR

text \<open>The contents of the transform file.\<close>

record gnss_transform =
  gt_easting :: real
  gt_northing :: real
  gt_zone :: int
  gt_hemisphere :: string
  gt_map_rotation :: "real option"

record bridge =
  last_map :: "vec2 option"
  last_heading :: "real option"
  last_pub :: "vec2 option"
  publish_enabled :: bool
  not_adopting_level :: DiagnosticLevel
  transform_loaded :: bool
  br_transform :: gnss_transform
  last_adopted :: "real option"
  last_reject_reason :: string
  adopting_state :: "bool option"

record NavPVT =
  pvt_flags :: u8
  pvt_fix_type :: nat
  pvt_h_acc :: nat
  pvt_lat :: int
  pvt_lon :: int
  pvt_heading :: int

record NavSatFix =
  nsf_stamp :: real
  nsf_frame :: string
  nsf_status :: int
  nsf_lat :: real
  nsf_lon :: real
  nsf_cov0 :: real

record gps_msg =
  om_stamp :: real
  om_in_base :: bool
  om_x :: real
  om_y :: real
  om_yaw :: real
  om_var :: fval

datatype bridge_out = PubOdom gps_msg | PubState bool | PubAnchor | LogAdoption bool string

type_synonym bridge_step = "bridge \<times> bridge_out list"

section \<open>Start\<close>

definition level_of :: "string \<Rightarrow> DiagnosticLevel option" where
  "level_of s = (if s = ''warn'' then Some WARN else if s = ''ok'' then Some OK else None)"

definition rotation_rad :: "gnss_transform \<Rightarrow> real" where
  "rotation_rad t = (case gt_map_rotation t of Some r \<Rightarrow> r | None \<Rightarrow> 0)"

definition bridge_transformer :: "gnss_transform \<Rightarrow> UtmTransformer" where
  "bridge_transformer t = \<lparr>utm_zone = gt_zone t, utm_northp = (gt_hemisphere t = ''north'')\<rparr>"

text \<open>The constructor throws on an unknown level; a file that cannot be read leaves a node that only reports it.\<close>

definition SlamGnssNavBridgeNode :: "string \<Rightarrow> gnss_transform option \<Rightarrow> bridge_step option" where
  "SlamGnssNavBridgeNode level file =
     map_option (\<lambda>l.
       let b = \<lparr>last_map = None, last_heading = None, last_pub = None, publish_enabled = True, not_adopting_level = l,
           transform_loaded = (file \<noteq> None),
           br_transform = (case file of Some t \<Rightarrow> t | None \<Rightarrow> \<lparr>gt_easting = 0, gt_northing = 0, gt_zone = 0, gt_hemisphere = [], gt_map_rotation = None\<rparr>),
           last_adopted = None, last_reject_reason = ''no GNSS data yet'', adopting_state = None\<rparr>
       in (b, if file = None then [] else [PubState True, PubAnchor]))
     (level_of level)"

section \<open>Adoption\<close>

definition is_adopting :: "bridge_config \<Rightarrow> real \<Rightarrow> bridge \<Rightarrow> bool" where
  "is_adopting cfg now b \<longleftrightarrow> (case last_adopted b of None \<Rightarrow> False | Some t \<Rightarrow> now - t < adoption_timeout_sec cfg)"

definition mark_adopted :: "real \<Rightarrow> bridge \<Rightarrow> bridge" where "mark_adopted now b = b\<lparr>last_adopted := Some now\<rparr>"

definition reject :: "string \<Rightarrow> bridge \<Rightarrow> bridge" where "reject reason b = b\<lparr>last_reject_reason := reason\<rparr>"

definition check_adoption :: "bridge_config \<Rightarrow> real \<Rightarrow> bridge \<Rightarrow> bridge_step" where
  "check_adoption cfg now b =
     (let adopting = is_adopting cfg now b;
          changed = (case adopting_state b of None \<Rightarrow> False | Some a \<Rightarrow> a \<noteq> adopting);
          b' = b\<lparr>adopting_state := Some adopting\<rparr>
      in (b', if \<not> changed then []
              else if adopting then [LogAdoption True []] else [LogAdoption False (last_reject_reason b')]))"

definition produce_adoption_diagnostics :: "bridge_config \<Rightarrow> real \<Rightarrow> bridge \<Rightarrow> DiagnosticLevel \<times> string" where
  "produce_adoption_diagnostics cfg now b =
     (if \<not> transform_loaded b then (ERROR, ''GNSS transform not loaded'')
      else if \<not> publish_enabled b then (OK, ''publishing disabled'')
      else if is_adopting cfg now b then (OK, ''adopting GNSS'')
      else (not_adopting_level b, ''not adopting GNSS: '' @ last_reject_reason b))"

definition change_publish_state :: "bool \<Rightarrow> bridge \<Rightarrow> bridge_step" where
  "change_publish_state data b = (b\<lparr>publish_enabled := data\<rparr>, [PubState data])"

section \<open>Positions and headings\<close>

definition convert_to_map :: "projection \<Rightarrow> gnss_transform \<Rightarrow> real \<Rightarrow> real \<Rightarrow> vec2" where
  "convert_to_map geo t lat lon =
     (let (utm_e, utm_n) = transform_latlon geo (bridge_transformer t) lat lon;
          local_x = utm_e - gt_easting t; local_y = utm_n - gt_northing t; cos_r = cos (rotation_rad t); sin_r = sin (rotation_rad t)
      in (cos_r * local_x - sin_r * local_y, sin_r * local_x + cos_r * local_y))"

text \<open>\<^verbatim>\<open>std::remainder\<close>: the quotient is rounded to the nearest integer, to the even one when two are as near.\<close>

definition round_half_even :: "real \<Rightarrow> int" where
  "round_half_even q =
     (let f = \<lfloor>q\<rfloor>; d = q - of_int f in if d < 1 / 2 then f else if 1 / 2 < d then f + 1 else if even f then f else f + 1)"

definition remainder :: "real \<Rightarrow> real \<Rightarrow> real" where
  "remainder x y = x - of_int (round_half_even (x / y)) * y"

definition compute_heading :: "bridge_config \<Rightarrow> vec2 \<Rightarrow> bridge \<Rightarrow> real option \<times> bridge" where
  "compute_heading cfg p b =
     (case last_map b of
        None \<Rightarrow> (None, b\<lparr>last_map := Some p\<rparr>)
      | Some q \<Rightarrow>
          let dx = fst p - fst q; dy = snd p - snd q; dist = hypot dx dy
          in if heading_min_dist cfg \<le> dist then
               let new_heading = atan2 dy dx;
                   heading = (case last_heading b of
                       None \<Rightarrow> new_heading
                     | Some h \<Rightarrow>
                         let diff = remainder (new_heading - h) (2 * pi) in remainder (h + heading_alpha cfg * diff) (2 * pi))
               in (Some heading, b\<lparr>last_heading := Some heading, last_map := Some p\<rparr>)
             else (last_heading b, b))"

definition navpvt_heading :: "gnss_transform \<Rightarrow> int \<Rightarrow> real" where
  "navpvt_heading t heading =
     (let heading_deg = of_int heading / 10 ^ 5; h = heading_deg * pi / 180 + rotation_rad t; h = - h + pi / 2 in remainder h (2 * pi))"

text \<open>The transform from map to base: its stamp and the rotation, if tf2 knows it.\<close>

type_synonym base_tf = "(real \<times> (real \<times> real \<times> real \<times> real)) option"

definition lookup_base_yaw :: "bridge_config \<Rightarrow> real \<Rightarrow> base_tf \<Rightarrow> real option" where
  "lookup_base_yaw cfg now tf =
     (case tf of
        None \<Rightarrow> None
      | Some (stamp, (x, y, z, w)) \<Rightarrow> if yaw_max_age_sec cfg < now - stamp then None else Some (quaternion_to_yaw x y z w))"

section \<open>Fixes\<close>

definition publish_odom :: "bridge_config \<Rightarrow> real \<Rightarrow> base_tf \<Rightarrow> real \<Rightarrow> vec2 \<Rightarrow> real \<Rightarrow> fval \<Rightarrow> bridge \<Rightarrow> bridge_out list" where
  "publish_odom cfg now tf stamp antenna yaw pos_var b =
     (if \<not> publish_enabled b then []
      else
        let base_yaw = (if lever_arm_compensation cfg then lookup_base_yaw cfg now tf else None);
            position = (case base_yaw of Some by \<Rightarrow> AntennaToBase antenna by (lever_x cfg) (lever_y cfg) | None \<Rightarrow> antenna);
            var = (if lever_arm_compensation cfg \<and> base_yaw = None
                   then f_add pos_var (Fin (LeverArmUncertaintyVariance (lever_x cfg) (lever_y cfg))) else pos_var)
        in [PubOdom \<lparr>om_stamp = stamp, om_in_base = (base_yaw \<noteq> None), om_x = fst position, om_y = snd position, om_yaw = yaw, om_var = var\<rparr>])"

definition too_close :: "bridge_config \<Rightarrow> vec2 \<Rightarrow> bridge \<Rightarrow> bool" where
  "too_close cfg p b \<longleftrightarrow> (case last_pub b of None \<Rightarrow> False | Some q \<Rightarrow> hypot (fst p - fst q) (snd p - snd q) < min_pub_dist cfg)"

text \<open>What both callbacks do with a position and its variance; \<open>direct\<close> is the heading of the receiver, when it is used.\<close>

definition use_position ::
  "bridge_config \<Rightarrow> real \<Rightarrow> base_tf \<Rightarrow> real \<Rightarrow> vec2 \<Rightarrow> fval \<Rightarrow> real option \<Rightarrow> bridge \<Rightarrow> bridge_step" where
  "use_position cfg now tf stamp p variance direct b =
     (if too_close cfg p b then (mark_adopted now b, [])
      else
        let (heading, b) = (case direct of Some h \<Rightarrow> (Some h, b) | None \<Rightarrow> compute_heading cfg p b)
        in case heading of
             None \<Rightarrow> (reject ''heading unavailable'' b, [])
           | Some h \<Rightarrow>
               let b = mark_adopted now b
               in (b\<lparr>last_pub := Some p\<rparr>, publish_odom cfg now tf stamp p h variance b))"

definition on_navpvt :: "bridge_config \<Rightarrow> projection \<Rightarrow> real \<Rightarrow> base_tf \<Rightarrow> NavPVT \<Rightarrow> bridge \<Rightarrow> bridge_step" where
  "on_navpvt cfg geo now tf msg b =
     (if pvt_flags msg AND 1 = 0 \<or> pvt_fix_type msg < 2 then (reject ''no fix'' b, [])
      else
        (case PositionVariance (br_quality cfg) (CarrierFromFlags (pvt_flags msg)) (real (pvt_h_acc msg) / 1000) of
           None \<Rightarrow> (reject ''low quality (not RTK or accuracy too low)'' b, [])
         | Some variance \<Rightarrow>
             use_position cfg now tf (now - time_offset_sec cfg)
               (convert_to_map geo (br_transform b) (of_int (pvt_lat msg) / 10 ^ 7) (of_int (pvt_lon msg) / 10 ^ 7)) (Fin variance)
               (if heading_from_navpvt cfg then Some (navpvt_heading (br_transform b) (pvt_heading msg)) else None) b))"

text \<open>\<^verbatim>\<open>PositionVariance\<close> of \<^verbatim>\<open>std::sqrt\<close> of a covariance: for a negative one every comparison with NaN is false.\<close>

definition variance_of_cov :: "PositionQualityConfig \<Rightarrow> CarrierSolution \<Rightarrow> real \<Rightarrow> fval option" where
  "variance_of_cov config carrier cov =
     (if 0 \<le> cov then map_option Fin (PositionVariance config carrier (sqrt cov))
      else if carrier = kNone \<and> \<not> accept_single config then None else Some NaN)"

definition STATUS_GBAS_FIX :: int where "STATUS_GBAS_FIX = 2"

definition on_navsatfix :: "bridge_config \<Rightarrow> projection \<Rightarrow> real \<Rightarrow> base_tf \<Rightarrow> NavSatFix \<Rightarrow> bridge \<Rightarrow> bridge_step" where
  "on_navsatfix cfg geo now tf msg b =
     (if nsf_status msg < 0 then (reject ''no fix'' b, [])
      else
        (case variance_of_cov (br_quality cfg) (if STATUS_GBAS_FIX \<le> nsf_status msg then kFixed else kNone) (nsf_cov0 msg) of
           None \<Rightarrow> (reject ''low quality (not RTK or accuracy too low)'' b, [])
         | Some variance \<Rightarrow>
             use_position cfg now tf (nsf_stamp msg - time_offset_sec cfg)
               (convert_to_map geo (br_transform b) (nsf_lat msg) (nsf_lon msg)) variance None b))"

section \<open>Runs\<close>

datatype bridge_event = PvtMsg base_tf NavPVT | FixMsg base_tf NavSatFix | SetPublish bool | AdoptionTimer

text \<open>Without a transform the node has its timer only; of the two subscriptions it has the configured one.\<close>

definition bridge_step :: "bridge_config \<Rightarrow> projection \<Rightarrow> real \<times> bridge_event \<Rightarrow> bridge \<Rightarrow> bridge_step" where
  "bridge_step cfg geo = (\<lambda>(now, e) b.
     case e of
       AdoptionTimer \<Rightarrow> check_adoption cfg now b
     | SetPublish data \<Rightarrow> if transform_loaded b then change_publish_state data b else (b, [])
     | PvtMsg tf msg \<Rightarrow> if transform_loaded b \<and> gnss_navpvt cfg then on_navpvt cfg geo now tf msg b else (b, [])
     | FixMsg tf msg \<Rightarrow> if transform_loaded b \<and> \<not> gnss_navpvt cfg then on_navsatfix cfg geo now tf msg b else (b, []))"

primrec bridge_run :: "bridge_config \<Rightarrow> projection \<Rightarrow> (real \<times> bridge_event) list \<Rightarrow> bridge \<Rightarrow> bridge \<times> bridge_out list" where
  "bridge_run cfg geo [] b = (b, [])"
| "bridge_run cfg geo (e # es) b =
     (let (b', out) = bridge_step cfg geo e b; (b'', outs) = bridge_run cfg geo es b' in (b'', out @ outs))"

end
