(* ===== verification/NavBridgeProps.thy ===== *)
theory NavBridgeProps
  imports NavBridge
begin

text \<open>
  The GNSS bridge over every sequence of callbacks: each published position comes from a fix that passed the quality rules,
  adoption events are the changes of the adoption state, and the heading taken from the receiver turns the wrong way on a
  rotated map.
\<close>

section \<open>Remainders\<close>

lemma round_half_even_near: "\<bar>q - of_int (round_half_even q)\<bar> \<le> 1 / 2"
  unfolding round_half_even_def Let_def by (simp; linarith)

lemma remainder_bound: "0 < y \<Longrightarrow> \<bar>remainder x y\<bar> \<le> y / 2"
proof -
  assume y: "0 < y"
  have "remainder x y = (x / y - of_int (round_half_even (x / y))) * y" using y by (simp add: remainder_def algebra_simps)
  then have "\<bar>remainder x y\<bar> = \<bar>x / y - of_int (round_half_even (x / y))\<bar> * y" using y by (simp only: abs_mult abs_of_pos)
  also have "\<dots> \<le> 1 / 2 * y" using round_half_even_near y by (intro mult_right_mono) auto
  finally show ?thesis by simp
qed

lemma remainder_direction: "cos (remainder x (2 * pi)) = cos x \<and> sin (remainder x (2 * pi)) = sin x"
proof -
  have e: "remainder x (2 * pi) = x - 2 * pi * of_int (round_half_even (x / (2 * pi)))" by (simp add: remainder_def)
  show ?thesis unfolding e cos_diff sin_diff cos_int_2pin sin_int_2pin by simp
qed

section \<open>Adoption events\<close>

text \<open>The adoption state at every tick of the timer.\<close>

primrec ticks :: "bridge_config \<Rightarrow> projection \<Rightarrow> (real \<times> bridge_event) list \<Rightarrow> bridge \<Rightarrow> bool list" where
  "ticks cfg geo [] b = []"
| "ticks cfg geo (e # es) b =
     (if snd e = AdoptionTimer then [is_adopting cfg (fst e) b] else []) @ ticks cfg geo es (fst (bridge_step cfg geo e b))"

primrec logged :: "bridge_out list \<Rightarrow> bool list" where
  "logged [] = []"
| "logged (x # xs) = (case x of LogAdoption a _ \<Rightarrow> [a] | _ \<Rightarrow> []) @ logged xs"

lemma logged_append [simp]: "logged (xs @ ys) = logged xs @ logged ys"
  by (induction xs) auto

lemma publish_odom_not_logged: "logged (publish_odom cfg now tf stamp p h v b) = []"
  by (simp add: publish_odom_def Let_def)

lemma use_position_frame:
  "logged (snd (use_position cfg now tf stamp p v d b)) = [] \<and>
   adopting_state (fst (use_position cfg now tf stamp p v d b)) = adopting_state b"
  by (auto simp: use_position_def compute_heading_def mark_adopted_def reject_def publish_odom_not_logged Let_def split: option.splits)

lemma step_frame:
  assumes "snd e \<noteq> AdoptionTimer"
  shows "logged (snd (bridge_step cfg geo e b)) = [] \<and> adopting_state (fst (bridge_step cfg geo e b)) = adopting_state b"
  using assms
  by (cases e; cases "snd e")
    (auto simp: bridge_step_def change_publish_state_def on_navpvt_def on_navsatfix_def use_position_frame reject_def split: option.splits)

lemma changes_from:
  "logged (snd (bridge_run cfg geo es b)) =
     (case adopting_state b of
        None \<Rightarrow> tl (remdups_adj (ticks cfg geo es b))
      | Some a \<Rightarrow> tl (remdups_adj (a # ticks cfg geo es b)))"
proof (induction es arbitrary: b)
  case Nil
  show ?case by (simp split: option.splits)
next
  case (Cons e es)
  obtain b' out where step: "bridge_step cfg geo e b = (b', out)" by (cases "bridge_step cfg geo e b")
  have run: "snd (bridge_run cfg geo (e # es) b) = out @ snd (bridge_run cfg geo es b')" by (simp add: step Let_def split: prod.splits)
  show ?case
  proof (cases "snd e = AdoptionTimer")
    case False
    then have "ticks cfg geo (e # es) b = ticks cfg geo es b'" by (simp add: step)
    then show ?thesis using step_frame [OF False, of cfg geo b] Cons.IH [of b'] unfolding run logged_append by (simp only: step fst_conv snd_conv append_Nil)
  next
    case True
    define a where "a = is_adopting cfg (fst e) b"
    have b': "b' = b\<lparr>adopting_state := Some a\<rparr>" and out: "logged out = (if adopting_state b = None \<or> adopting_state b = Some a then [] else [a])"
      using step True by (cases e; auto simp: bridge_step_def check_adoption_def a_def Let_def split: option.splits if_splits)+
    have ad: "adopting_state b' = Some a" by (simp add: b')
    have ticks: "ticks cfg geo (e # es) b = a # ticks cfg geo es b'" using True by (simp add: step a_def)
    show ?thesis unfolding run logged_append out Cons.IH ad ticks
      by (cases "adopting_state b") (auto simp: remdups_adj_Cons split: list.splits)
  qed
qed

text \<open>
  C32. Over every sequence of callbacks the adoption events of the bridge are exactly the changes of the
  adoption state seen by the timer: the first tick is not reported, and no event repeats the one before.
\<close>

theorem adoption_log:
  assumes "SlamGnssNavBridgeNode level file = Some (b, start)"
  shows "logged (start @ snd (bridge_run cfg geo es b)) = tl (remdups_adj (ticks cfg geo es b))"
proof -
  have "adopting_state b = None" "logged start = []"
    using assms by (auto simp: SlamGnssNavBridgeNode_def Let_def split: if_splits)
  then show ?thesis by (simp add: changes_from)
qed

theorem adoption_log_witness:
  "\<exists>b start. SlamGnssNavBridgeNode ''warn'' None = Some (b, start) \<and>
     (\<forall>cfg geo. logged (start @ snd (bridge_run cfg geo [(0, AdoptionTimer), (1, AdoptionTimer)] b)) = [])"
proof -
  obtain b start where s: "SlamGnssNavBridgeNode ''warn'' None = Some (b, start)" and none: "last_adopted b = None"
    by (auto simp: SlamGnssNavBridgeNode_def level_of_def Let_def)
  have "ticks cfg geo [(0, AdoptionTimer), (1, AdoptionTimer)] b = [False, False]" for cfg geo
    using none by (simp add: bridge_step_def check_adoption_def is_adopting_def Let_def)
  then have "logged (start @ snd (bridge_run cfg geo [(0, AdoptionTimer), (1, AdoptionTimer)] b)) = []" for cfg geo
    unfolding adoption_log [OF s] by simp
  then show ?thesis using s by blast
qed

section \<open>Messages\<close>

text \<open>What the bridge may publish for a fix of the receiver.\<close>

definition message_of ::
  "bridge_config \<Rightarrow> projection \<Rightarrow> gnss_transform \<Rightarrow> real \<times> base_tf \<times> NavPVT \<Rightarrow> gps_msg \<Rightarrow> bool" where
  "message_of cfg geo t = (\<lambda>(now, tf, msg) om.
     pvt_flags msg AND 1 \<noteq> 0 \<and> 2 \<le> pvt_fix_type msg \<and> om_stamp om = now - time_offset_sec cfg \<and> \<bar>om_yaw om\<bar> \<le> pi \<and>
     (\<exists>v. PositionVariance (br_quality cfg) (CarrierFromFlags (pvt_flags msg)) (real (pvt_h_acc msg) / 1000) = Some v \<and>
        (let p = convert_to_map geo t (of_int (pvt_lat msg) / 10 ^ 7) (of_int (pvt_lon msg) / 10 ^ 7)
         in if lever_arm_compensation cfg
            then (case lookup_base_yaw cfg now tf of
                    Some yaw \<Rightarrow> om_in_base om \<and> (om_x om, om_y om) = AntennaToBase p yaw (lever_x cfg) (lever_y cfg) \<and> om_var om = Fin v
                  | None \<Rightarrow> \<not> om_in_base om \<and> (om_x om, om_y om) = p \<and>
                      om_var om = Fin (v + LeverArmUncertaintyVariance (lever_x cfg) (lever_y cfg)))
            else \<not> om_in_base om \<and> (om_x om, om_y om) = p \<and> om_var om = Fin v)))"

definition heading_ok :: "bridge \<Rightarrow> bool" where
  "heading_ok b \<longleftrightarrow> (case last_heading b of None \<Rightarrow> True | Some h \<Rightarrow> \<bar>h\<bar> \<le> pi)"

lemma remainder_pi: "\<bar>remainder x (2 * pi)\<bar> \<le> pi"
  using remainder_bound [of "2 * pi" x] pi_gt_zero by simp

lemma compute_heading_ok:
  assumes "heading_ok b"
  shows "heading_ok (snd (compute_heading cfg p b)) \<and> (\<forall>h. fst (compute_heading cfg p b) = Some h \<longrightarrow> \<bar>h\<bar> \<le> pi)"
proof -
  have "\<bar>atan2 y x\<bar> \<le> pi" for x y using atan2_range [of y x] by (simp add: abs_le_iff)
  then show ?thesis using assms remainder_pi
    by (auto simp: compute_heading_def heading_ok_def Let_def split: option.splits)
qed

lemma compute_heading_frame:
  "br_transform (snd (compute_heading cfg p b)) = br_transform b \<and> transform_loaded (snd (compute_heading cfg p b)) = transform_loaded b"
  by (auto simp: compute_heading_def Let_def split: option.splits)

lemma use_position_spec:
  assumes "heading_ok b" and "\<forall>h. d = Some h \<longrightarrow> \<bar>h\<bar> \<le> pi"
  shows "heading_ok (fst (use_position cfg now tf stamp p v d b)) \<and>
    br_transform (fst (use_position cfg now tf stamp p v d b)) = br_transform b \<and>
    (\<forall>om. PubOdom om \<in> set (snd (use_position cfg now tf stamp p v d b)) \<longrightarrow>
      (\<exists>h b'. \<bar>h\<bar> \<le> pi \<and> PubOdom om \<in> set (publish_odom cfg now tf stamp p h v b')))"
proof (cases "too_close cfg p b")
  case True
  then show ?thesis using assms(1) by (simp add: use_position_def mark_adopted_def heading_ok_def)
next
  case False
  obtain heading b1 where hb: "(case d of Some h \<Rightarrow> (Some h, b) | None \<Rightarrow> compute_heading cfg p b) = (heading, b1)"
    by (cases "case d of Some h \<Rightarrow> (Some h, b) | None \<Rightarrow> compute_heading cfg p b")
  have ok: "heading_ok b1" "br_transform b1 = br_transform b" "\<And>h. heading = Some h \<Longrightarrow> \<bar>h\<bar> \<le> pi"
    using hb assms compute_heading_ok [OF assms(1), of cfg p] compute_heading_frame [of cfg p b] by (auto split: option.splits)
  show ?thesis
  proof (cases heading)
    case None
    then show ?thesis using False hb ok(1, 2) by (simp add: use_position_def reject_def heading_ok_def)
  next
    case (Some h)
    then have "use_position cfg now tf stamp p v d b =
        ((mark_adopted now b1)\<lparr>last_pub := Some p\<rparr>, publish_odom cfg now tf stamp p h v (mark_adopted now b1))"
      using False hb by (simp add: use_position_def Let_def)
    then show ?thesis using ok(1, 2) ok(3) [OF Some] by (auto simp: mark_adopted_def heading_ok_def)
  qed
qed

lemma publish_odom_message:
  assumes "PubOdom om \<in> set (publish_odom cfg now tf (now - time_offset_sec cfg)
      (convert_to_map geo t (of_int (pvt_lat msg) / 10 ^ 7) (of_int (pvt_lon msg) / 10 ^ 7)) h (Fin v) b)"
    and "\<bar>h\<bar> \<le> pi" and "pvt_flags msg AND 1 \<noteq> 0" and "2 \<le> pvt_fix_type msg"
    and "PositionVariance (br_quality cfg) (CarrierFromFlags (pvt_flags msg)) (real (pvt_h_acc msg) / 1000) = Some v"
  shows "message_of cfg geo t (now, tf, msg) om"
  using assms by (auto simp: publish_odom_def message_of_def Let_def split: if_splits option.splits)

lemma on_navpvt_spec:
  assumes "heading_ok b"
  shows "heading_ok (fst (on_navpvt cfg geo now tf msg b)) \<and> br_transform (fst (on_navpvt cfg geo now tf msg b)) = br_transform b \<and>
    (\<forall>om. PubOdom om \<in> set (snd (on_navpvt cfg geo now tf msg b)) \<longrightarrow> message_of cfg geo (br_transform b) (now, tf, msg) om)"
proof (cases "pvt_flags msg AND 1 = 0 \<or> pvt_fix_type msg < 2 \<or>
    PositionVariance (br_quality cfg) (CarrierFromFlags (pvt_flags msg)) (real (pvt_h_acc msg) / 1000) = None")
  case True
  then show ?thesis using assms by (auto simp: on_navpvt_def reject_def heading_ok_def)
next
  case False
  then obtain v where v: "PositionVariance (br_quality cfg) (CarrierFromFlags (pvt_flags msg)) (real (pvt_h_acc msg) / 1000) = Some v" by auto
  let ?d = "if heading_from_navpvt cfg then Some (navpvt_heading (br_transform b) (pvt_heading msg)) else None"
  have d: "\<forall>h. ?d = Some h \<longrightarrow> \<bar>h\<bar> \<le> pi" using remainder_pi by (auto simp: navpvt_heading_def Let_def)
  let ?p = "convert_to_map geo (br_transform b) (of_int (pvt_lat msg) / 10 ^ 7) (of_int (pvt_lon msg) / 10 ^ 7)"
  have u: "on_navpvt cfg geo now tf msg b = use_position cfg now tf (now - time_offset_sec cfg) ?p (Fin v) ?d b"
    using False v by (simp add: on_navpvt_def)
  note spec = use_position_spec [OF assms d, of cfg now tf "now - time_offset_sec cfg" ?p "Fin v"]
  have "message_of cfg geo (br_transform b) (now, tf, msg) om" if "PubOdom om \<in> set (snd (on_navpvt cfg geo now tf msg b))" for om
  proof -
    obtain h b' where "\<bar>h\<bar> \<le> pi" "PubOdom om \<in> set (publish_odom cfg now tf (now - time_offset_sec cfg) ?p h (Fin v) b')"
      using spec \<open>PubOdom om \<in> _\<close> unfolding u by blast
    then show ?thesis using publish_odom_message v False by (simp add: not_less)
  qed
  then show ?thesis using spec unfolding u by blast
qed

lemma run_messages:
  assumes "heading_ok b" and "gnss_navpvt cfg" and "PubOdom om \<in> set (snd (bridge_run cfg geo es b))"
  shows "\<exists>now tf msg. (now, PvtMsg tf msg) \<in> set es \<and> message_of cfg geo (br_transform b) (now, tf, msg) om"
  using assms
proof (induction es arbitrary: b)
  case (Cons e es)
  obtain now ev where e: "e = (now, ev)" by (cases e)
  obtain b' out where step: "bridge_step cfg geo e b = (b', out)" by (cases "bridge_step cfg geo e b")
  have s: "heading_ok b' \<and> br_transform b' = br_transform b \<and>
    (PubOdom om \<in> set out \<longrightarrow> (\<exists>tf msg. ev = PvtMsg tf msg \<and> message_of cfg geo (br_transform b) (now, tf, msg) om))"
  proof (cases ev)
    case (PvtMsg tf msg)
    have b': "b' = fst (bridge_step cfg geo e b)" "out = snd (bridge_step cfg geo e b)" by (simp_all add: step)
    show ?thesis using on_navpvt_spec [OF Cons.prems(1), of cfg geo now tf msg] Cons.prems(1) PvtMsg
      by (auto simp: b' bridge_step_def e)
  qed (use Cons.prems step in \<open>auto simp: e bridge_step_def check_adoption_def change_publish_state_def heading_ok_def Let_def split: if_splits\<close>)
  have "PubOdom om \<in> set out \<or> PubOdom om \<in> set (snd (bridge_run cfg geo es b'))"
    using Cons.prems(3) by (auto simp: step Let_def split: prod.splits)
  then show ?case using s Cons.IH [of b'] Cons.prems(2) by (auto simp: e)
qed simp


section \<open>The heading of the receiver\<close>

text \<open>
  C33. The heading taken from the receiver has the wrong sign of the rotation of the map: for a robot that moves
  in the direction of its course, it is the direction of motion on the map only if the rotation is a multiple of pi.
\<close>

theorem navpvt_heading_mirrored:
  assumes "transform_latlon geo (bridge_transformer t) lat lon = (e, n)"
    and "transform_latlon geo (bridge_transformer t) lat' lon' =
      (e + d * sin (of_int k / 10 ^ 5 * pi / 180), n + d * cos (of_int k / 10 ^ 5 * pi / 180))"
    and "0 < d"
  shows "vsub (convert_to_map geo t lat' lon') (convert_to_map geo t lat lon) = (d * cos (navpvt_heading t k), d * sin (navpvt_heading t k))
    \<longleftrightarrow> sin (rotation_rad t) = 0"
proof -
  define psi r where "psi = of_int k / 10 ^ 5 * pi / 180" and "r = rotation_rad t"
  have nh: "navpvt_heading t k = remainder (- (psi + r) + pi / 2) (2 * pi)" by (simp only: navpvt_heading_def Let_def psi_def r_def)
  have h: "cos (navpvt_heading t k) = sin (psi + r)" "sin (navpvt_heading t k) = cos (psi + r)"
    unfolding nh using remainder_direction [of "- (psi + r) + pi / 2"] by (simp_all add: cos_add sin_add cos_diff sin_diff)
  have "convert_to_map geo t lat' lon' = (cos r * (e + d * sin psi - gt_easting t) - sin r * (n + d * cos psi - gt_northing t),
      sin r * (e + d * sin psi - gt_easting t) + cos r * (n + d * cos psi - gt_northing t))"
    using assms(2) by (simp add: convert_to_map_def Let_def r_def psi_def)
  moreover have "convert_to_map geo t lat lon = (cos r * (e - gt_easting t) - sin r * (n - gt_northing t),
      sin r * (e - gt_easting t) + cos r * (n - gt_northing t))"
    using assms(1) by (simp add: convert_to_map_def Let_def r_def)
  ultimately have m: "vsub (convert_to_map geo t lat' lon') (convert_to_map geo t lat lon) = (d * sin (psi - r), d * cos (psi - r))"
    by (simp add: vsub_def sin_diff cos_diff algebra_simps)
  have "sin (psi - r) = sin (psi + r) \<and> cos (psi - r) = cos (psi + r) \<longleftrightarrow> cos psi * sin r = 0 \<and> sin psi * sin r = 0"
    by (auto simp: sin_add cos_add sin_diff cos_diff)
  also have "\<dots> \<longleftrightarrow> sin r = 0" using sin_cos_squared_add [of psi] by (auto simp del: sin_cos_squared_add)
  finally show ?thesis using assms(3) by (auto simp: m h r_def)
qed

section \<open>Examples\<close>

definition flat_earth :: projection where
  "flat_earth = \<lparr>utm_forward = (\<lambda>lat lon zone. (54, True, lon * 10 ^ 5, lat * 10 ^ 5)), utm_reverse = (\<lambda>zone north x y. Some (y / 10 ^ 5, x / 10 ^ 5))\<rparr>"

definition turned_map :: gnss_transform where
  "turned_map = \<lparr>gt_easting = 0, gt_northing = 0, gt_zone = 54, gt_hemisphere = ''north'', gt_map_rotation = Some (pi / 2)\<rparr>"

theorem navpvt_heading_mirrored_witness:
  "vsub (convert_to_map flat_earth turned_map 1 0) (convert_to_map flat_earth turned_map 0 0) \<noteq>
     (10 ^ 5 * cos (navpvt_heading turned_map 0), 10 ^ 5 * sin (navpvt_heading turned_map 0))"
  using navpvt_heading_mirrored [of flat_earth turned_map 0 0 0 0 1 0 "10 ^ 5" 0]
  by (simp add: transform_latlon_def flat_earth_def turned_map_def rotation_rad_def)

definition bridge_example :: bridge_config where
  "bridge_example = \<lparr>gnss_navpvt = True, heading_from_navpvt = True, heading_min_dist = 0.6, heading_alpha = 0.6, min_pub_dist = 1,
     br_quality = sample_quality, lever_arm_compensation = True, lever_x = 0.26, lever_y = - 0.13, yaw_max_age_sec = 1,
     time_offset_sec = 0, adoption_timeout_sec = 5\<rparr>"

definition good_fix :: NavPVT where
  "good_fix = \<lparr>pvt_flags = 0x81, pvt_fix_type = 3, pvt_h_acc = 1000, pvt_lat = 0, pvt_lon = 0, pvt_heading = 0\<rparr>"


end
