(* ===== verification/Optimizer.thy ===== *)
theory Optimizer
  imports Geometry "HOL-Library.Monad_Syntax"
begin

text \<open>
  \<^verbatim>\<open>slam_gnss_2d/optimizer/isam2_optimizer.cpp\<close>: the wrapper around GTSAM.  It collects factors and initial values,
  hands them to iSAM2 on \<^verbatim>\<open>update\<close>, and optimises in two stages at the end.  GTSAM itself is a parameter: an
  incremental solver with its estimate, and a batch optimiser; either may throw (\<open>None\<close>).
\<close>

section \<open>Factors\<close>

datatype noise = Gaussian mat3 | Sigmas "real list" | Huber real noise | Cauchy real noise

datatype factor =
    PriorFactor int pose noise
  | BetweenFactor int int pose noise
  | LeverArmPositionFactor int vec2 vec2 noise

type_synonym valuesT = "(int \<times> pose) list"

definition robustify :: "noise \<Rightarrow> string \<Rightarrow> real \<Rightarrow> noise" where
  "robustify base kern scale =
     (if kern = ''huber'' then Huber scale base else if kern = ''cauchy'' then Cauchy scale base else base)"

text \<open>\<^verbatim>\<open>LeverArmPositionFactor::evaluateError\<close>: the predicted antenna position minus the measured one.\<close>

definition lever_arm_error :: "pose \<Rightarrow> vec2 \<Rightarrow> vec2 \<Rightarrow> vec2" where
  "lever_arm_error = (\<lambda>(x, y, yaw) (lx, ly) (mx, my).
     (x + cos yaw * lx - sin yaw * ly - mx, y + sin yaw * lx + cos yaw * ly - my))"

record 'g gtsam_api =
  isam_new :: "real \<Rightarrow> 'g"
  isam_update :: "factor list \<Rightarrow> valuesT \<Rightarrow> 'g \<Rightarrow> 'g option"
  isam_estimate :: "'g \<Rightarrow> valuesT"
  lm_optimize :: "int \<Rightarrow> factor list \<Rightarrow> valuesT \<Rightarrow> valuesT option"

section \<open>isam2_optimizer.cpp\<close>

record 'g isam2_optimizer =
  relinearize_threshold :: real
  isam2 :: 'g
  pending_graph :: "factor list"
  geom_graph :: "factor list"
  gnss_graph :: "factor list"
  pending_values :: valuesT
  latest_estimate :: valuesT
  opt_initialized :: bool
  between_robust_kernel :: string
  between_robust_scale :: real

definition ISAM2Optimizer :: "'g gtsam_api \<Rightarrow> real \<Rightarrow> 'g isam2_optimizer" where
  "ISAM2Optimizer gt threshold =
     \<lparr>relinearize_threshold = threshold, isam2 = isam_new gt threshold, pending_graph = [], geom_graph = [], gnss_graph = [],
      pending_values = [], latest_estimate = [], opt_initialized = False, between_robust_kernel = ''none'',
      between_robust_scale = 1.345\<rparr>"

definition opt_initialize ::
  "'g gtsam_api \<Rightarrow> int \<Rightarrow> real \<Rightarrow> real \<Rightarrow> real \<Rightarrow> real \<Rightarrow> real \<Rightarrow> 'g isam2_optimizer \<Rightarrow> 'g isam2_optimizer" where
  "opt_initialize gt node_index x y theta pos_sigma yaw_sigma o' =
     (let prior = PriorFactor node_index (x, y, theta) (Sigmas [pos_sigma, pos_sigma, yaw_sigma])
      in o'\<lparr>isam2 := isam_new gt (relinearize_threshold o'), pending_graph := [prior], geom_graph := [prior], gnss_graph := [],
            pending_values := [(node_index, (x, y, theta))], latest_estimate := [], opt_initialized := True\<rparr>)"

definition set_between_robust_kernel :: "string \<Rightarrow> real \<Rightarrow> 'g isam2_optimizer \<Rightarrow> 'g isam2_optimizer" where
  "set_between_robust_kernel kern scale o' = o'\<lparr>between_robust_kernel := kern, between_robust_scale := scale\<rparr>"

definition add_between_factor ::
  "int \<Rightarrow> int \<Rightarrow> real \<Rightarrow> real \<Rightarrow> real \<Rightarrow> mat3 \<Rightarrow> 'g isam2_optimizer \<Rightarrow> 'g isam2_optimizer" where
  "add_between_factor from_index to_index dx dy dyaw information o' =
     (if \<not> opt_initialized o' then o'
      else
        let noise = robustify (Gaussian information) (between_robust_kernel o') (between_robust_scale o');
            factor = BetweenFactor from_index to_index (dx, dy, dyaw) noise
        in o'\<lparr>pending_graph := pending_graph o' @ [factor], geom_graph := geom_graph o' @ [factor]\<rparr>)"

definition opt_add_gnss_prior ::
  "int \<Rightarrow> real \<Rightarrow> real \<Rightarrow> real \<Rightarrow> string \<Rightarrow> real \<Rightarrow> vec2 \<Rightarrow> 'g isam2_optimizer \<Rightarrow> 'g isam2_optimizer" where
  "opt_add_gnss_prior node_index x y sigma_xy kern scale lever_arm o' =
     (if \<not> opt_initialized o' then o'
      else
        let noise = robustify (Sigmas [sigma_xy, sigma_xy]) (if kern = ''cauchy'' then ''cauchy'' else ''huber'') scale;
            factor = LeverArmPositionFactor node_index (x, y) lever_arm noise
        in o'\<lparr>pending_graph := pending_graph o' @ [factor], gnss_graph := gnss_graph o' @ [factor]\<rparr>)"

definition has_key :: "int \<Rightarrow> valuesT \<Rightarrow> bool" where
  "has_key k vs \<longleftrightarrow> list_ex (\<lambda>(k', _). k' = k) vs"

definition add_initial_estimate :: "int \<Rightarrow> real \<Rightarrow> real \<Rightarrow> real \<Rightarrow> 'g isam2_optimizer \<Rightarrow> 'g isam2_optimizer" where
  "add_initial_estimate node_index x y theta o' =
     (if \<not> opt_initialized o' then o'
      else if has_key node_index (pending_values o') then o'
      else o'\<lparr>pending_values := pending_values o' @ [(node_index, (x, y, theta))]\<rparr>)"

definition opt_flush :: "'g gtsam_api \<Rightarrow> 'g isam2_optimizer \<Rightarrow> 'g isam2_optimizer option" where
  "opt_flush gt o' = do {
     g \<leftarrow> isam_update gt (pending_graph o') (pending_values o') (isam2 o');
     Some (o'\<lparr>isam2 := g, latest_estimate := isam_estimate gt g, pending_graph := [], pending_values := []\<rparr>)
   }"

definition opt_update :: "'g gtsam_api \<Rightarrow> 'g isam2_optimizer \<Rightarrow> 'g isam2_optimizer option" where
  "opt_update gt o' =
     (if \<not> opt_initialized o' then Some o'
      else if pending_graph o' = [] \<and> pending_values o' = [] then Some o'
      else opt_flush gt o')"

definition get_pose :: "int \<Rightarrow> 'g isam2_optimizer \<Rightarrow> pose option" where
  "get_pose node_index o' = (if \<not> opt_initialized o' then None else map_of (latest_estimate o') node_index)"

definition get_all_poses :: "'g isam2_optimizer \<Rightarrow> (int, pose) map" where
  "get_all_poses o' = (if \<not> opt_initialized o' then Map.empty else map_of (latest_estimate o'))"

definition run_batch_optimization :: "'g gtsam_api \<Rightarrow> int \<Rightarrow> 'g isam2_optimizer \<Rightarrow> 'g isam2_optimizer option" where
  "run_batch_optimization gt max_iterations o' =
     (if \<not> opt_initialized o' \<or> geom_graph o' = [] then Some o'
      else do {
        o' \<leftarrow> (if pending_graph o' \<noteq> [] \<or> pending_values o' \<noteq> [] then opt_flush gt o' else Some o');
        let o' = (case lm_optimize gt max_iterations (geom_graph o') (latest_estimate o') of
            Some vs \<Rightarrow> o'\<lparr>latest_estimate := vs\<rparr> | None \<Rightarrow> o');
        Some (if gnss_graph o' = [] then o'
              else case lm_optimize gt max_iterations (geom_graph o' @ gnss_graph o') (latest_estimate o') of
                Some vs \<Rightarrow> o'\<lparr>latest_estimate := vs\<rparr> | None \<Rightarrow> o')
      })"

section \<open>The contract of iSAM2\<close>

text \<open>
  Documented behaviour of \<^verbatim>\<open>gtsam::ISAM2::update\<close>: the new values have keys that are not known yet, every factor is
  about keys that are known or new, and afterwards exactly the known and the new keys are known.
\<close>

fun factor_keys :: "factor \<Rightarrow> int list" where
  "factor_keys (PriorFactor k _ _) = [k]"
| "factor_keys (BetweenFactor i j _ _) = [i, j]"
| "factor_keys (LeverArmPositionFactor k _ _ _) = [k]"

abbreviation keysof :: "valuesT \<Rightarrow> int set" where
  "keysof vs \<equiv> fst ` set vs"

definition update_pre :: "'g gtsam_api \<Rightarrow> factor list \<Rightarrow> valuesT \<Rightarrow> 'g \<Rightarrow> bool" where
  "update_pre gt fs vs g \<longleftrightarrow>
     distinct (map fst vs) \<and> list_all (\<lambda>(k, _). \<not> has_key k (isam_estimate gt g)) vs \<and>
     list_all (\<lambda>f. list_all (\<lambda>k. has_key k vs \<or> has_key k (isam_estimate gt g)) (factor_keys f)) fs"

definition gtsam_keys :: "'g gtsam_api \<Rightarrow> bool" where
  "gtsam_keys gt \<longleftrightarrow>
     (\<forall>t. isam_estimate gt (isam_new gt t) = []) \<and>
     (\<forall>fs vs g g'. isam_update gt fs vs g = Some g' \<longrightarrow> keysof (isam_estimate gt g') = keysof (isam_estimate gt g) \<union> keysof vs)"

text \<open>The updates that keep the contract do not throw.\<close>

definition gtsam_accepts :: "'g gtsam_api \<Rightarrow> bool" where
  "gtsam_accepts gt \<longleftrightarrow> (\<forall>fs vs g. update_pre gt fs vs g \<longrightarrow> isam_update gt fs vs g \<noteq> None)"

lemma has_key_iff: "has_key k vs \<longleftrightarrow> k \<in> keysof vs"
  by (force simp: has_key_def list_ex_iff)

end
