(* ===== verification/BatchOptimizer.thy ===== *)
theory BatchOptimizer
  imports Optimizer
begin

text \<open>
  \<^verbatim>\<open>optimizer/gtsam_optimizer.cpp\<close>: the batch optimizer of the offline tool.  It builds one factor graph from nodes, edges and
  GNSS priors, has GTSAM's Levenberg-Marquardt optimizer solve it and reads the poses back.  GTSAM is a parameter that may
  throw (\<open>None\<close>); its documented behaviour is \<open>batch_ok\<close>.
\<close>

section \<open>gtsam_optimizer.cpp\<close>

datatype batch_factor =
    BatchPrior int pose "real list"
  | BatchBetween int int pose mat3
  | BatchTranslation int vec2 "vec2 \<times> vec2"

type_synonym batch_solver = "batch_factor list \<Rightarrow> valuesT \<Rightarrow> valuesT option"

definition kAnchorVariances :: "real list" where
  "kAnchorVariances = [1 / 10 ^ 6, 1 / 10 ^ 6, 1 / 10 ^ 8]"

text \<open>\<^verbatim>\<open>Values::insert\<close> throws when the key is there already.\<close>

fun insert_values :: "valuesT \<Rightarrow> PoseNode list \<Rightarrow> valuesT option" where
  "insert_values initial [] = Some initial"
| "insert_values initial (n # ns) =
     (if has_key (n_index n) initial then None
      else insert_values (initial @ [(n_index n, (n_x n, n_y n, n_yaw n))]) ns)"

definition batch_between :: "PoseEdge \<Rightarrow> batch_factor" where
  "batch_between e = BatchBetween (e_from e) (e_to e) (e_dx e, e_dy e, e_dyaw e) (e_information e)"

definition batch_translations :: "valuesT \<Rightarrow> GnssPrior list \<Rightarrow> batch_factor list" where
  "batch_translations initial priors =
     map (\<lambda>p. BatchTranslation (gp_node_index p) (gp_x p, gp_y p) (gp_information p)) (filter (\<lambda>p. has_key (gp_node_index p) initial) priors)"

definition batch_graph :: "PoseNode list \<Rightarrow> valuesT \<Rightarrow> PoseEdge list \<Rightarrow> GnssPrior list \<Rightarrow> batch_factor list" where
  "batch_graph nodes initial edges priors =
     (let anchor = hd nodes
      in [BatchPrior (n_index anchor) (n_x anchor, n_y anchor, n_yaw anchor) kAnchorVariances] @
         map batch_between edges @ batch_translations initial priors)"

text \<open>\<^verbatim>\<open>Values::at\<close> throws for an unknown key; the node is built anew from six of its fields.\<close>

definition updated_node :: "valuesT \<Rightarrow> PoseNode \<Rightarrow> PoseNode option" where
  "updated_node result n =
     map_option (\<lambda>(x, y, theta). \<lparr>n_index = n_index n, n_stamp = n_stamp n, n_x = x, n_y = y, n_yaw = theta, n_scan = n_scan n,
       n_patch = None, n_normals = None\<rparr>) (map_of result (n_index n))"

definition batch_optimize :: "batch_solver \<Rightarrow> PoseNode list \<Rightarrow> PoseEdge list \<Rightarrow> GnssPrior list \<Rightarrow> PoseNode list option" where
  "batch_optimize lm nodes edges priors =
     (if length nodes < 2 then Some nodes
      else if edges = [] \<and> priors = [] then Some nodes
      else do {
        initial \<leftarrow> insert_values [] nodes;
        result \<leftarrow> lm (batch_graph nodes initial edges priors) initial;
        those (map (updated_node result) nodes)
      })"

section \<open>The contract of the batch optimizer\<close>

fun batch_keys :: "batch_factor \<Rightarrow> int list" where
  "batch_keys (BatchPrior k _ _) = [k]"
| "batch_keys (BatchBetween i j _ _) = [i, j]"
| "batch_keys (BatchTranslation k _ _) = [k]"

text \<open>
  Documented behaviour of \<^verbatim>\<open>LevenbergMarquardtOptimizer\<close>: it optimizes the variables of the initial values, and throws
  when a factor is about a variable that has none.
\<close>

definition batch_ok :: "batch_solver \<Rightarrow> bool" where
  "batch_ok lm \<longleftrightarrow> (\<forall>fs vs. distinct (map fst vs) \<longrightarrow>
     (if \<forall>f\<in>set fs. set (batch_keys f) \<subseteq> keysof vs then \<exists>vs'. lm fs vs = Some vs' \<and> map fst vs' = map fst vs else lm fs vs = None))"

section \<open>What the optimizer returns\<close>

lemma insert_values_eq:
  "insert_values vs ns =
     (if distinct (map n_index ns) \<and> keysof vs \<inter> set (map n_index ns) = {}
      then Some (vs @ map (\<lambda>n. (n_index n, node_pose n)) ns) else None)"
proof (induction ns arbitrary: vs)
  case (Cons n ns)
  have "has_key (n_index n) vs \<longleftrightarrow> n_index n \<in> keysof vs"
    by (force simp: has_key_def list_ex_iff)
  then show ?case using Cons.IH by (auto simp: node_pose_def)
qed simp

lemma batch_graph_keys:
  assumes "nodes \<noteq> []" and "keysof vs = set (map n_index nodes)"
  shows "(\<forall>f\<in>set (batch_graph nodes vs edges priors). set (batch_keys f) \<subseteq> keysof vs) \<longleftrightarrow>
     (\<forall>e\<in>set edges. e_from e \<in> set (map n_index nodes) \<and> e_to e \<in> set (map n_index nodes))"
proof -
  have "n_index (hd nodes) \<in> keysof vs" using assms by simp
  moreover have "\<forall>f\<in>set (batch_translations vs priors). set (batch_keys f) \<subseteq> keysof vs"
    by (force simp: batch_translations_def has_key_def list_ex_iff)
  ultimately show ?thesis by (simp add: batch_graph_def ball_Un batch_between_def assms(2) Let_def)
qed

lemma those_map_total: "(\<And>x. x \<in> set xs \<Longrightarrow> f x = Some (g x)) \<Longrightarrow> those (map f xs) = Some (map g xs)"
  by (induction xs) auto

definition with_pose :: "valuesT \<Rightarrow> PoseNode \<Rightarrow> PoseNode" where
  "with_pose result n = (case the (map_of result (n_index n)) of (x, y, theta) \<Rightarrow>
     n\<lparr>n_x := x, n_y := y, n_yaw := theta, n_patch := None, n_normals := None\<rparr>)"

lemma updated_node_with_pose:
  assumes "n_index n \<in> keysof result"
  shows "updated_node result n = Some (with_pose result n)"
proof -
  obtain p where "map_of result (n_index n) = Some p" using assms by (metis map_of_eq_None_iff not_None_eq)
  then show ?thesis by (cases p) (simp add: updated_node_def with_pose_def)
qed

lemma with_pose_frame [simp]:
  "n_index (with_pose r n) = n_index n" "n_stamp (with_pose r n) = n_stamp n" "n_scan (with_pose r n) = n_scan n"
  by (simp_all add: with_pose_def split: prod.splits)

lemma batch_optimize_cases:
  assumes "batch_ok lm" and "2 \<le> length nodes" and "edges \<noteq> [] \<or> priors \<noteq> []"
  shows "batch_optimize lm nodes edges priors =
     (if distinct (map n_index nodes) \<and> (\<forall>e\<in>set edges. e_from e \<in> set (map n_index nodes) \<and> e_to e \<in> set (map n_index nodes))
      then Some (map (with_pose (the (lm (batch_graph nodes (map (\<lambda>n. (n_index n, node_pose n)) nodes) edges priors)
        (map (\<lambda>n. (n_index n, node_pose n)) nodes)))) nodes)
      else None)"
proof -
  let ?vs = "map (\<lambda>n. (n_index n, node_pose n)) nodes"
  have keys: "keysof ?vs = set (map n_index nodes)" "map fst ?vs = map n_index nodes" by (auto simp: image_image)
  have ne: "nodes \<noteq> []" using assms(2) by auto
  have unfold: "batch_optimize lm nodes edges priors =
      (if distinct (map n_index nodes)
       then Option.bind (lm (batch_graph nodes ?vs edges priors) ?vs) (\<lambda>result. those (map (updated_node result) nodes)) else None)"
    using assms(2, 3) by (auto simp: batch_optimize_def insert_values_eq)
  note contract = assms(1) [unfolded batch_ok_def, rule_format, of ?vs "batch_graph nodes ?vs edges priors", unfolded batch_graph_keys [OF ne keys(1)] keys(2)]
  show ?thesis
  proof (cases "distinct (map n_index nodes) \<and> (\<forall>e\<in>set edges. e_from e \<in> set (map n_index nodes) \<and> e_to e \<in> set (map n_index nodes))")
    case True
    then obtain r where r: "lm (batch_graph nodes ?vs edges priors) ?vs = Some r" "map fst r = map n_index nodes"
      using contract by auto
    have "updated_node r n = Some (with_pose r n)" if "n \<in> set nodes" for n
    proof (rule updated_node_with_pose)
      have "n_index n \<in> set (map fst r)" using that unfolding r(2) by simp
      then show "n_index n \<in> keysof r" by simp
    qed
    then have "those (map (updated_node r) nodes) = Some (map (with_pose r) nodes)" by (rule those_map_total)
    then show ?thesis using True r(1) by (simp add: unfold)
  next
    case False
    then show ?thesis using contract by (auto simp: unfold)
  qed
qed

text \<open>
  For a graph worth optimizing the batch optimizer throws exactly when two nodes share an index or an edge
  names a node that is not there; a GNSS prior of an unknown node is skipped.  Otherwise it returns the nodes in their order
  with their indices, stamps and scans.
\<close>

theorem batch_optimize_returns:
  assumes "batch_ok lm" and "2 \<le> length nodes" and "edges \<noteq> [] \<or> priors \<noteq> []"
  shows "(batch_optimize lm nodes edges priors = None \<longleftrightarrow>
      \<not> (distinct (map n_index nodes) \<and> (\<forall>e\<in>set edges. e_from e \<in> set (map n_index nodes) \<and> e_to e \<in> set (map n_index nodes)))) \<and>
    (\<forall>nodes'. batch_optimize lm nodes edges priors = Some nodes' \<longrightarrow>
      map (\<lambda>n. (n_index n, n_stamp n, n_scan n)) nodes' = map (\<lambda>n. (n_index n, n_stamp n, n_scan n)) nodes)"
  unfolding batch_optimize_cases [OF assms] by auto

lemma batch_optimize_frame:
  assumes "batch_ok lm" and "batch_optimize lm nodes edges priors = Some nodes'"
  shows "map (\<lambda>n. (n_index n, n_stamp n, n_scan n)) nodes' = map (\<lambda>n. (n_index n, n_stamp n, n_scan n)) nodes"
proof (cases "length nodes < 2 \<or> edges = [] \<and> priors = []")
  case True
  then show ?thesis using assms(2) by (auto simp: batch_optimize_def split: if_splits)
next
  case False
  then have "2 \<le> length nodes" "edges \<noteq> [] \<or> priors \<noteq> []" by auto
  note cases = batch_optimize_cases [OF assms(1) this]
  show ?thesis using assms(2) unfolding cases by (auto split: if_splits)
qed

definition keep_initial :: batch_solver where
  "keep_initial fs vs = (if list_all (\<lambda>f. list_all (\<lambda>k. k \<in> keysof vs) (batch_keys f)) fs then Some vs else None)"

lemma keep_initial_ok: "batch_ok keep_initial"
  by (auto simp: batch_ok_def keep_initial_def list_all_iff)

end
