(* ===== verification/ReoptimizeTools.thy ===== *)
theory ReoptimizeTools
  imports BatchOptimizer
begin

text \<open>
  \<^verbatim>\<open>tools/reoptimize_geometry.cpp\<close> and \<^verbatim>\<open>tools/reoptimize_loop_search.cpp\<close>: what the offline tool does with scans and
  with pairs of nodes that may close a loop.  The matcher is a parameter with a state of its own, of which nothing is assumed.
\<close>

section \<open>reoptimize_geometry.cpp\<close>

text \<open>The table from node indices to scans; an entry may be a null pointer.\<close>

type_synonym node_scans = "int \<rightharpoonup> ScanData option"

definition submap_part :: "node_scans \<Rightarrow> PoseNode \<Rightarrow> real \<Rightarrow> PoseNode \<Rightarrow> vec2 list" where
  "submap_part scans center radius node =
     (case scans (n_index node) of
        Some (Some scan) \<Rightarrow>
          (let dx = n_x node - n_x center; dy = n_y node - n_y center
           in if dx * dx + dy * dy \<le> radius * radius
              then points_local_to_world (scan_to_points scan) (n_x node) (n_y node) (n_yaw node) else [])
      | _ \<Rightarrow> [])"

definition build_submap_points :: "int \<Rightarrow> PoseNode list \<Rightarrow> node_scans \<Rightarrow> real \<Rightarrow> vec2 list option" where
  "build_submap_points center_node_idx nodes scans radius =
     (if center_node_idx < 0 \<or> int (length nodes) \<le> center_node_idx then None
      else
        let center = nodes ! nat center_node_idx; world_pts = concat (map (submap_part scans center radius) nodes)
        in if world_pts = [] then None
           else Some (points_world_to_local world_pts (n_x center) (n_y center) (n_yaw center)))"

definition nearer :: "real \<Rightarrow> ScanData option \<Rightarrow> ScanData option \<times> real \<Rightarrow> ScanData option \<times> real" where
  "nearer timestamp scan = (\<lambda>(best, min_dt).
     case scan of
       None \<Rightarrow> (best, min_dt)
     | Some s \<Rightarrow> let dt = \<bar>scan_stamp s - timestamp\<bar> in if dt < min_dt then (Some s, dt) else (best, min_dt))"

definition find_nearest_scan :: "ScanData option list \<Rightarrow> real \<Rightarrow> real \<Rightarrow> ScanData option" where
  "find_nearest_scan scans timestamp max_diff =
     (if scans = [] then None
      else case fold (nearer timestamp) scans (None, max_diff + 1) of (best, min_dt) \<Rightarrow> if min_dt \<le> max_diff then best else None)"

definition sigma_from_covariance_or_status :: "GnssData \<Rightarrow> real \<Rightarrow> real \<Rightarrow> real" where
  "sigma_from_covariance_or_status gnss fix_m float_m =
     (let cov_xx = fst (fst (g_cov gnss))
      in if 0 < cov_xx then sqrt cov_xx else if 2 \<le> g_fix gnss then fix_m else if 0 \<le> g_fix gnss then float_m else - 1)"

section \<open>reoptimize_loop_search.cpp\<close>

record 'm plain_matcher =
  plain_set_target :: "vec2 list \<Rightarrow> 'm \<Rightarrow> 'm"
  plain_match :: "ScanData option \<Rightarrow> OdomData \<Rightarrow> 'm \<Rightarrow> MatchResult \<times> 'm"

record loop_search =
  search_radius :: real
  search_min_gap :: int
  search_submap_radius :: real
  search_max_score :: real
  search_max_dyaw_deg :: real
  search_crossing_deg :: real

type_synonym 'm search_state = "(int \<times> int) list \<times> PoseEdge list \<times> 'm"

definition ordered_pair :: "int \<Rightarrow> int \<Rightarrow> int \<times> int" where
  "ordered_pair i j = (min i j, max i j)"

definition within_reach :: "loop_search \<Rightarrow> PoseNode \<Rightarrow> PoseNode \<Rightarrow> bool" where
  "within_reach cfg node candidate \<longleftrightarrow>
     \<not> \<bar>n_index node - n_index candidate\<bar> < search_min_gap cfg \<and>
     \<not> search_radius cfg * search_radius cfg
         < (n_x node - n_x candidate) * (n_x node - n_x candidate) + (n_y node - n_y candidate) * (n_y node - n_y candidate)"

definition search_target :: "loop_search \<Rightarrow> PoseNode list \<Rightarrow> node_scans \<Rightarrow> PoseNode \<Rightarrow> vec2 list" where
  "search_target cfg nodes scans candidate =
     (if 0 < search_submap_radius cfg
      then (case build_submap_points (n_index candidate) nodes scans (search_submap_radius cfg) of Some sub \<Rightarrow> sub | None \<Rightarrow> [])
      else (case scans (n_index candidate) of Some (Some scan) \<Rightarrow> scan_to_points scan | _ \<Rightarrow> []))"

definition search_guess :: "PoseNode \<Rightarrow> PoseNode \<Rightarrow> OdomData" where
  "search_guess node candidate =
     (case world_delta_to_local (n_x node - n_x candidate) (n_y node - n_y candidate) (n_yaw candidate) of (dx, dy) \<Rightarrow>
        \<lparr>o_stamp = n_stamp node, o_x = dx, o_y = dy, o_yaw = angle_diff (n_yaw node) (n_yaw candidate)\<rparr>)"

definition search_accepts :: "loop_search \<Rightarrow> MatchResult \<Rightarrow> bool" where
  "search_accepts cfg result \<longleftrightarrow>
     (let max_loop_dyaw_rad = search_max_dyaw_deg cfg * pi / 180; crossing_rad = search_crossing_deg cfg * pi / 180;
          abs_dyaw = \<bar>m_dyaw result\<bar>
      in m_converged result \<and> \<not> (0 < search_max_score cfg \<and> search_max_score cfg < m_score result) \<and>
         \<not> max_loop_dyaw_rad < abs_dyaw \<and> \<not> (0 < crossing_rad \<and> crossing_rad \<le> abs_dyaw \<and> abs_dyaw \<le> pi - crossing_rad))"

definition search_edge :: "PoseNode \<Rightarrow> PoseNode \<Rightarrow> MatchResult \<Rightarrow> PoseEdge" where
  "search_edge node candidate result =
     \<lparr>e_from = n_index candidate, e_to = n_index node, e_dx = m_dx result, e_dy = m_dy result, e_dyaw = m_dyaw result,
      e_information = m_information result, e_score = m_score result, e_fallback = False\<rparr>"

definition search_pair ::
  "'m plain_matcher \<Rightarrow> loop_search \<Rightarrow> PoseNode list \<Rightarrow> node_scans \<Rightarrow> PoseNode \<times> PoseNode \<Rightarrow> 'm search_state \<Rightarrow> 'm search_state" where
  "search_pair mt cfg nodes scans = (\<lambda>(node, candidate) (pairs, new_edges, m).
     let p = ordered_pair (n_index node) (n_index candidate); src_pts = search_target cfg nodes scans candidate
     in if \<not> within_reach cfg node candidate \<or> p \<in> set pairs \<or> src_pts = [] then (pairs, new_edges, m)
        else
          case plain_match mt (the (scans (n_index node))) (search_guess node candidate) (plain_set_target mt src_pts m) of (result, m) \<Rightarrow>
            if search_accepts cfg result then (pairs @ [p], new_edges @ [search_edge node candidate result], m) else (pairs, new_edges, m))"

definition valid_nodes :: "PoseNode list \<Rightarrow> node_scans \<Rightarrow> PoseNode list" where
  "valid_nodes nodes scans = filter (\<lambda>n. scans (n_index n) \<noteq> None) nodes"

definition search_pairs :: "PoseNode list \<Rightarrow> (PoseNode \<times> PoseNode) list" where
  "search_pairs ns = concat (map (\<lambda>i. map (\<lambda>j. (ns ! i, ns ! j)) (filter (\<lambda>j. j \<noteq> i) [0..<length ns])) [0..<length ns])"

definition search_new_loop_edges ::
  "'m plain_matcher \<Rightarrow> loop_search \<Rightarrow> PoseNode list \<Rightarrow> node_scans \<Rightarrow> PoseEdge list \<Rightarrow> 'm \<Rightarrow> PoseEdge list \<times> 'm" where
  "search_new_loop_edges mt cfg nodes scans existing m =
     (case fold (search_pair mt cfg nodes scans) (search_pairs (valid_nodes nodes scans))
         (map (\<lambda>e. ordered_pair (e_from e) (e_to e)) existing, [], m) of (_, new_edges, m) \<Rightarrow> (new_edges, m))"

section \<open>The nearest scan\<close>

definition nearest_of :: "real \<Rightarrow> real \<Rightarrow> ScanData option list \<Rightarrow> ScanData option \<times> real \<Rightarrow> bool" where
  "nearest_of t bound scans = (\<lambda>(best, min_dt).
     (\<forall>s. Some s \<in> set scans \<longrightarrow> min_dt \<le> \<bar>scan_stamp s - t\<bar>) \<and>
     (case best of None \<Rightarrow> min_dt = bound | Some b \<Rightarrow> Some b \<in> set scans \<and> min_dt = \<bar>scan_stamp b - t\<bar> \<and> min_dt < bound))"

lemma nearest_of_step: "nearest_of t bound scans s \<Longrightarrow> nearest_of t bound (scans @ [x]) (nearer t x s)"
  by (cases x; cases s; cases "fst s") (auto simp: nearest_of_def nearer_def Let_def)

lemma fold_nearer: "nearest_of t bound scans (fold (nearer t) scans (None, bound))"
proof (induction scans rule: rev_induct)
  case (snoc x scans)
  then show ?case using nearest_of_step by simp
qed (simp add: nearest_of_def)

text \<open>
  A node gets a scan exactly when one was taken close enough to it in time, and then the nearest.
\<close>

theorem nearest_scan:
  assumes "0 \<le> max_diff"
  shows "case find_nearest_scan scans t max_diff of
      None \<Rightarrow> \<forall>s. Some s \<in> set scans \<longrightarrow> max_diff < \<bar>scan_stamp s - t\<bar>
    | Some b \<Rightarrow> Some b \<in> set scans \<and> \<bar>scan_stamp b - t\<bar> \<le> max_diff \<and> (\<forall>s. Some s \<in> set scans \<longrightarrow> \<bar>scan_stamp b - t\<bar> \<le> \<bar>scan_stamp s - t\<bar>)"
proof (cases "scans = []")
  case False
  obtain b d where bd: "fold (nearer t) scans (None, max_diff + 1) = (b, d)" by fastforce
  show ?thesis using fold_nearer [of t "max_diff + 1" scans] False
    by (force simp: find_nearest_scan_def bd nearest_of_def split: option.splits)
qed (simp add: find_nearest_scan_def)

section \<open>The search for loops\<close>

text \<open>An attempt to close the loop between two nodes, whatever the state of the matcher.\<close>

definition attempt ::
  "'m plain_matcher \<Rightarrow> loop_search \<Rightarrow> PoseNode list \<Rightarrow> node_scans \<Rightarrow> PoseNode \<Rightarrow> PoseNode \<Rightarrow> MatchResult \<Rightarrow> bool" where
  "attempt mt cfg nodes scans node candidate result \<longleftrightarrow>
     (\<exists>m. result = fst (plain_match mt (the (scans (n_index node))) (search_guess node candidate)
        (plain_set_target mt (search_target cfg nodes scans candidate) m)))"

definition edge_pair :: "PoseEdge \<Rightarrow> int \<times> int" where
  "edge_pair e = ordered_pair (e_from e) (e_to e)"

lemma edge_pair_search: "edge_pair (search_edge node candidate r) = ordered_pair (n_index node) (n_index candidate)"
  by (simp add: edge_pair_def search_edge_def ordered_pair_def min.commute max.commute)

definition found_by ::
  "'m plain_matcher \<Rightarrow> loop_search \<Rightarrow> PoseNode list \<Rightarrow> node_scans \<Rightarrow> (PoseNode \<times> PoseNode) list \<Rightarrow> PoseEdge \<Rightarrow> bool" where
  "found_by mt cfg nodes scans todo e \<longleftrightarrow>
     (\<exists>node candidate r. (node, candidate) \<in> set todo \<and> within_reach cfg node candidate \<and>
        search_target cfg nodes scans candidate \<noteq> [] \<and> attempt mt cfg nodes scans node candidate r \<and> search_accepts cfg r \<and>
        e = search_edge node candidate r)"

definition judged_pair ::
  "'m plain_matcher \<Rightarrow> loop_search \<Rightarrow> PoseNode list \<Rightarrow> node_scans \<Rightarrow> (int \<times> int) set \<Rightarrow> PoseNode \<times> PoseNode \<Rightarrow> bool" where
  "judged_pair mt cfg nodes scans pairs = (\<lambda>(node, candidate).
     within_reach cfg node candidate \<and> search_target cfg nodes scans candidate \<noteq> [] \<longrightarrow>
       ordered_pair (n_index node) (n_index candidate) \<in> pairs \<or>
       (\<exists>r. attempt mt cfg nodes scans node candidate r \<and> \<not> search_accepts cfg r))"

definition search_inv ::
  "'m plain_matcher \<Rightarrow> loop_search \<Rightarrow> PoseNode list \<Rightarrow> node_scans \<Rightarrow> (int \<times> int) list \<Rightarrow> (PoseNode \<times> PoseNode) list \<Rightarrow> 'm search_state \<Rightarrow> bool" where
  "search_inv mt cfg nodes scans old todo = (\<lambda>(pairs, new_edges, m).
     pairs = old @ map edge_pair new_edges \<and> distinct (map edge_pair new_edges) \<and> set old \<inter> edge_pair ` set new_edges = {} \<and>
     (\<forall>e\<in>set new_edges. found_by mt cfg nodes scans todo e) \<and>
     (\<forall>p\<in>set todo. judged_pair mt cfg nodes scans (set pairs) p))"

lemma found_by_mono: "found_by mt cfg nodes scans todo e \<Longrightarrow> set todo \<subseteq> set todo' \<Longrightarrow> found_by mt cfg nodes scans todo' e"
  unfolding found_by_def by blast

lemma judged_pair_mono: "judged_pair mt cfg nodes scans ps p \<Longrightarrow> ps \<subseteq> ps' \<Longrightarrow> judged_pair mt cfg nodes scans ps' p"
  unfolding judged_pair_def by auto

lemma search_inv_step:
  assumes "search_inv mt cfg nodes scans old done s"
  shows "search_inv mt cfg nodes scans old (done @ [(node, candidate)]) (search_pair mt cfg nodes scans (node, candidate) s)"
proof -
  obtain pairs es m where s: "s = (pairs, es, m)" by (cases s)
  let ?p = "ordered_pair (n_index node) (n_index candidate)"
  let ?pts = "search_target cfg nodes scans candidate"
  let ?skip = "\<not> within_reach cfg node candidate \<or> ?p \<in> set pairs \<or> ?pts = []"
  obtain r m' where r: "plain_match mt (the (scans (n_index node))) (search_guess node candidate) (plain_set_target mt ?pts m) = (r, m')"
    by fastforce
  have at: "attempt mt cfg nodes scans node candidate r" unfolding attempt_def using r by (metis fst_conv)
  have inv: "pairs = old @ map edge_pair es" "distinct (map edge_pair es)" "set old \<inter> edge_pair ` set es = {}"
    "\<forall>e\<in>set es. found_by mt cfg nodes scans (done @ [(node, candidate)]) e" "\<forall>p\<in>set done. judged_pair mt cfg nodes scans (set pairs) p"
    using assms found_by_mono [of mt cfg nodes scans "done" _ "done @ [(node, candidate)]"] by (auto simp: s search_inv_def)
  consider "?skip" | "\<not> ?skip" "\<not> search_accepts cfg r" | "\<not> ?skip" "search_accepts cfg r" by blast
  then show ?thesis
  proof cases
    case 1
    then have "search_pair mt cfg nodes scans (node, candidate) s = s" by (auto simp: search_pair_def s Let_def)
    moreover have "judged_pair mt cfg nodes scans (set pairs) (node, candidate)" using 1 by (auto simp: judged_pair_def)
    ultimately show ?thesis using inv unfolding search_inv_def s by simp
  next
    case 2
    then have "search_pair mt cfg nodes scans (node, candidate) s = (pairs, es, m')" by (simp add: search_pair_def s r Let_def)
    moreover have "judged_pair mt cfg nodes scans (set pairs) (node, candidate)" using 2 at by (auto simp: judged_pair_def)
    ultimately show ?thesis using inv unfolding search_inv_def s by simp
  next
    case 3
    then have step: "search_pair mt cfg nodes scans (node, candidate) s = (pairs @ [?p], es @ [search_edge node candidate r], m')"
      by (simp add: search_pair_def s r Let_def)
    have "found_by mt cfg nodes scans (done @ [(node, candidate)]) (search_edge node candidate r)"
      unfolding found_by_def using 3 at by auto
    moreover have "judged_pair mt cfg nodes scans (set (pairs @ [?p])) p" if "p \<in> set (done @ [(node, candidate)])" for p
      using that inv(5) judged_pair_mono [of mt cfg nodes scans "set pairs" p "set (pairs @ [?p])"] by (auto simp: judged_pair_def)
    moreover have "?p \<notin> set old" "?p \<notin> edge_pair ` set es" using 3 inv(1) by auto
    ultimately show ?thesis using inv(1-4) unfolding step search_inv_def by (simp add: edge_pair_search)
  qed
qed

lemma search_inv_fold:
  assumes "search_inv mt cfg nodes scans old done s"
  shows "search_inv mt cfg nodes scans old (done @ todo) (fold (search_pair mt cfg nodes scans) todo s)"
  using assms
proof (induction todo arbitrary: "done" s)
  case (Cons p todo)
  from search_inv_step [OF Cons.prems, of "fst p" "snd p"] Cons.IH [of "done @ [p]"] show ?case by simp
qed simp

lemma search_pairs_iff:
  "(node, candidate) \<in> set (search_pairs ns) \<longleftrightarrow>
     (\<exists>i j. i < length ns \<and> j < length ns \<and> i \<noteq> j \<and> node = ns ! i \<and> candidate = ns ! j)"
  by (force simp: search_pairs_def)

text \<open>Two nodes the search compares: at different positions, both with a scan.\<close>

definition compared :: "PoseNode list \<Rightarrow> node_scans \<Rightarrow> PoseNode \<Rightarrow> PoseNode \<Rightarrow> bool" where
  "compared nodes scans node candidate \<longleftrightarrow> (node, candidate) \<in> set (search_pairs (valid_nodes nodes scans))"

text \<open>
  For every matcher the search for loops is sound and complete: no two new edges join the same two nodes and
  none joins nodes that an existing loop edge joins; every new edge is the accepted result of matching two nodes that are far
  enough apart in the sequence and near in space; and two such nodes are left without a loop edge only when a match of them
  was not accepted.
\<close>

theorem loop_search_spec:
  assumes "search_new_loop_edges mt cfg nodes scans existing m = (new_edges, m')"
  shows "distinct (map edge_pair new_edges) \<and> edge_pair ` set existing \<inter> edge_pair ` set new_edges = {} \<and>
    (\<forall>e\<in>set new_edges. found_by mt cfg nodes scans (search_pairs (valid_nodes nodes scans)) e) \<and>
    (\<forall>p\<in>set (search_pairs (valid_nodes nodes scans)). judged_pair mt cfg nodes scans (edge_pair ` (set existing \<union> set new_edges)) p)"
proof -
  let ?old = "map (\<lambda>e. ordered_pair (e_from e) (e_to e)) existing"
  let ?todo = "search_pairs (valid_nodes nodes scans)"
  obtain pairs where f: "fold (search_pair mt cfg nodes scans) ?todo (?old, [], m) = (pairs, new_edges, m')"
    using assms by (auto simp: search_new_loop_edges_def split: prod.splits)
  have "search_inv mt cfg nodes scans ?old [] (?old, [], m)" by (simp add: search_inv_def)
  from search_inv_fold [OF this, of ?todo] have inv: "search_inv mt cfg nodes scans ?old ?todo (pairs, new_edges, m')" by (simp add: f)
  have old: "set ?old = edge_pair ` set existing" by (simp add: edge_pair_def)
  then have "set pairs = edge_pair ` (set existing \<union> set new_edges)" using inv by (auto simp: search_inv_def)
  then show ?thesis using inv old unfolding search_inv_def by auto
qed

end
