(* ===== verification/PoseGraphFile.thy ===== *)
theory PoseGraphFile
  imports Geometry "HOL-Library.Monad_Syntax"
begin

text \<open>
  The file of a pose graph: what \<^verbatim>\<open>core/slam_data_saver.cpp\<close> writes and what \<^verbatim>\<open>nodes/reoptimize_node.cpp\<close> reads with
  \<^verbatim>\<open>tools/reoptimize_io.cpp\<close>.  The JSON library is a parameter, a record of the operations the code calls; a conversion or an
  access that throws, or that the library leaves undefined, is \<open>None\<close>.  A file is the value it holds; that its text is read
  back to that value is part of the library.
\<close>

section \<open>The JSON library\<close>

text \<open>
  \<open>js_section\<close> is the range of \<^verbatim>\<open>for (x : data[key])\<close>, where a missing key gives no elements; \<open>js_array\<close> gives the elements
  of a value for which \<^verbatim>\<open>is_array\<close> holds.
\<close>

record 'j json_lib =
  js_int :: "int \<Rightarrow> 'j"
  js_real :: "real \<Rightarrow> 'j"
  js_bool :: "bool \<Rightarrow> 'j"
  js_str :: "string \<Rightarrow> 'j"
  js_arr :: "'j list \<Rightarrow> 'j"
  js_obj :: "(string \<times> 'j) list \<Rightarrow> 'j"
  js_field :: "string \<Rightarrow> 'j \<Rightarrow> 'j option"
  js_index :: "nat \<Rightarrow> 'j \<Rightarrow> 'j option"
  js_section :: "string \<Rightarrow> 'j \<Rightarrow> 'j list option"
  js_array :: "'j \<Rightarrow> 'j list option"
  js_to_int :: "'j \<Rightarrow> int option"
  js_to_real :: "'j \<Rightarrow> real option"
  js_to_bool :: "'j \<Rightarrow> bool option"
  js_to_str :: "'j \<Rightarrow> string option"

definition int32_fits :: "int \<Rightarrow> bool" where
  "int32_fits i \<longleftrightarrow> - (2 ^ 31) \<le> i \<and> i < 2 ^ 31"

text \<open>Documented behaviour of the library on the values that the saver builds.\<close>

definition json_ok :: "'j json_lib \<Rightarrow> bool" where
  "json_ok lib \<longleftrightarrow>
     (\<forall>kvs k. distinct (map fst kvs) \<longrightarrow> js_field lib k (js_obj lib kvs) = map_of kvs k) \<and>
     (\<forall>kvs k xs. distinct (map fst kvs) \<longrightarrow> map_of kvs k = Some (js_arr lib xs) \<longrightarrow> js_section lib k (js_obj lib kvs) = Some xs) \<and>
     (\<forall>xs. js_array lib (js_arr lib xs) = Some xs) \<and>
     (\<forall>xs i. i < length xs \<longrightarrow> js_index lib i (js_arr lib xs) = Some (xs ! i)) \<and>
     (\<forall>i. int32_fits i \<longrightarrow> js_to_int lib (js_int lib i) = Some i) \<and>
     (\<forall>r. js_to_real lib (js_real lib r) = Some r) \<and>
     (\<forall>b. js_to_bool lib (js_bool lib b) = Some b) \<and>
     (\<forall>s. js_to_str lib (js_str lib s) = Some s)"

section \<open>slam_data_saver.cpp\<close>

definition node_json :: "'j json_lib \<Rightarrow> PoseNode \<Rightarrow> 'j" where
  "node_json lib n = js_obj lib
     [(''index'', js_int lib (n_index n)), (''timestamp'', js_real lib (n_stamp n)), (''x'', js_real lib (n_x n)),
      (''y'', js_real lib (n_y n)), (''yaw'', js_real lib (n_yaw n))]"

fun info_vec :: "mat3 \<Rightarrow> real list" where
  "info_vec ((a, b, c), (d, e, f), (g, h, i)) = [a, b, c, d, e, f, g, h, i]"

definition edge_json :: "'j json_lib \<Rightarrow> PoseEdge \<Rightarrow> 'j" where
  "edge_json lib e = js_obj lib
     [(''from'', js_int lib (e_from e)), (''to'', js_int lib (e_to e)), (''dx'', js_real lib (e_dx e)), (''dy'', js_real lib (e_dy e)),
      (''dyaw'', js_real lib (e_dyaw e)), (''score'', js_real lib (e_score e)), (''is_odom_fallback'', js_bool lib (e_fallback e)),
      (''information'', js_arr lib (map (js_real lib) (info_vec (e_information e))))]"

definition saved_sequential :: "PoseEdge \<Rightarrow> bool" where
  "saved_sequential e \<longleftrightarrow> \<bar>e_to e - e_from e\<bar> = 1"

definition save_pose_graph ::
  "'j json_lib \<Rightarrow> string \<Rightarrow> PoseNode list \<Rightarrow> PoseEdge list \<Rightarrow> string option \<Rightarrow> 'j" where
  "save_pose_graph lib created_at nodes edges bag_path =
     (let seq_edges = map (edge_json lib) (filter saved_sequential edges);
          loop_edges = map (edge_json lib) (filter (\<lambda>e. \<not> saved_sequential e) edges)
      in js_obj lib
           [(''metadata'', js_obj lib
               [(''created_at'', js_str lib created_at), (''num_nodes'', js_int lib (int (length nodes))),
                (''num_sequential_edges'', js_int lib (int (length seq_edges))), (''num_loop_edges'', js_int lib (int (length loop_edges))),
                (''bag_path'', js_str lib (case bag_path of Some p \<Rightarrow> p | None \<Rightarrow> []))]),
            (''nodes'', js_arr lib (map (node_json lib) nodes)),
            (''sequential_edges'', js_arr lib seq_edges),
            (''loop_edges'', js_arr lib loop_edges),
            (''gnss_priors'', js_arr lib [])])"

text \<open>The entries of the transform file, in the order they are written.\<close>

record transform_file =
  tf_lat :: real
  tf_lon :: real
  tf_easting :: real
  tf_northing :: real
  tf_zone :: int
  tf_hemisphere :: string
  tf_rotation :: real
  tf_backend :: string

definition save_gnss_transform ::
  "real \<Rightarrow> real \<Rightarrow> real \<Rightarrow> real \<Rightarrow> int \<Rightarrow> string \<Rightarrow> real \<Rightarrow> string \<Rightarrow> transform_file" where
  "save_gnss_transform anchor_lat anchor_lon easting northing zone hemisphere rotation backend =
     \<lparr>tf_lat = anchor_lat, tf_lon = anchor_lon, tf_easting = easting, tf_northing = northing, tf_zone = zone, tf_hemisphere = hemisphere,
      tf_rotation = rotation, tf_backend = backend\<rparr>"

section \<open>reoptimize_io.cpp\<close>

text \<open>Both files have to exist; \<open>None\<close> is the exception.  The YAML library has read the second already.\<close>

definition load_pose_graph_and_transform :: "'j option \<Rightarrow> 'y option \<Rightarrow> ('j \<times> 'y) option" where
  "load_pose_graph_and_transform pg_file gt_file = do { pg \<leftarrow> pg_file; gt \<leftarrow> gt_file; Some (pg, gt) }"

definition resolve_bag_path :: "'j json_lib \<Rightarrow> (string \<Rightarrow> bool) \<Rightarrow> string \<Rightarrow> 'j \<Rightarrow> string option" where
  "resolve_bag_path lib exists configured pose_graph_data = do {
     bag_path \<leftarrow> (if configured \<noteq> [] then Some configured
       else case js_field lib ''metadata'' pose_graph_data of
         None \<Rightarrow> Some []
       | Some m \<Rightarrow> (case js_field lib ''bag_path'' m of None \<Rightarrow> Some [] | Some v \<Rightarrow> js_to_str lib v));
     if bag_path = [] \<or> \<not> exists bag_path then None else Some bag_path
   }"

section \<open>Reading the graph\<close>

definition get_as :: "'j json_lib \<Rightarrow> ('j \<Rightarrow> 'a option) \<Rightarrow> string \<Rightarrow> 'j \<Rightarrow> 'a option" where
  "get_as lib conv k j = Option.bind (js_field lib k j) conv"

definition value_or :: "'j json_lib \<Rightarrow> ('j \<Rightarrow> 'a option) \<Rightarrow> string \<Rightarrow> 'a \<Rightarrow> 'j \<Rightarrow> 'a option" where
  "value_or lib conv k d j = (case js_field lib k j of None \<Rightarrow> Some d | Some v \<Rightarrow> conv v)"

definition old_node :: "'j json_lib \<Rightarrow> (real \<Rightarrow> ScanData option) \<Rightarrow> 'j \<Rightarrow> PoseNode option" where
  "old_node lib scan_at j = do {
     idx \<leftarrow> get_as lib (js_to_int lib) ''index'' j;
     ts \<leftarrow> get_as lib (js_to_real lib) ''timestamp'' j;
     x \<leftarrow> get_as lib (js_to_real lib) ''x'' j;
     y \<leftarrow> get_as lib (js_to_real lib) ''y'' j;
     yaw \<leftarrow> get_as lib (js_to_real lib) ''yaw'' j;
     Some \<lparr>n_index = idx, n_stamp = ts, n_x = x, n_y = y, n_yaw = yaw, n_scan = scan_at ts, n_patch = None, n_normals = None\<rparr>
   }"

definition parse_information :: "'j json_lib \<Rightarrow> 'j \<Rightarrow> mat3 option" where
  "parse_information lib arr = do {
     vs \<leftarrow> those (map (\<lambda>i. Option.bind (js_index lib i arr) (js_to_real lib)) [0..<9]);
     Some ((vs ! 0, vs ! 1, vs ! 2), (vs ! 3, vs ! 4, vs ! 5), (vs ! 6, vs ! 7, vs ! 8))
   }"

definition parse_edge :: "'j json_lib \<Rightarrow> 'j \<Rightarrow> PoseEdge option" where
  "parse_edge lib j = do {
     arr \<leftarrow> js_field lib ''information'' j;
     info \<leftarrow> parse_information lib arr;
     from \<leftarrow> get_as lib (js_to_int lib) ''from'' j;
     to \<leftarrow> get_as lib (js_to_int lib) ''to'' j;
     dx \<leftarrow> get_as lib (js_to_real lib) ''dx'' j;
     dy \<leftarrow> get_as lib (js_to_real lib) ''dy'' j;
     dyaw \<leftarrow> get_as lib (js_to_real lib) ''dyaw'' j;
     score \<leftarrow> value_or lib (js_to_real lib) ''score'' 0 j;
     fallback \<leftarrow> value_or lib (js_to_bool lib) ''is_odom_fallback'' False j;
     Some \<lparr>e_from = from, e_to = to, e_dx = dx, e_dy = dy, e_dyaw = dyaw, e_information = info, e_score = score, e_fallback = fallback\<rparr>
   }"

definition old_nodes :: "'j json_lib \<Rightarrow> (real \<Rightarrow> ScanData option) \<Rightarrow> 'j \<Rightarrow> PoseNode list option" where
  "old_nodes lib scan_at data = do { js \<leftarrow> js_section lib ''nodes'' data; those (map (old_node lib scan_at) js) }"

definition old_edges :: "'j json_lib \<Rightarrow> string \<Rightarrow> 'j \<Rightarrow> PoseEdge list option" where
  "old_edges lib key data = do { js \<leftarrow> js_section lib key data; those (map (parse_edge lib) js) }"

section \<open>A saved graph is read back\<close>

lemma json_field:
  assumes "json_ok lib" and "distinct (map fst kvs)"
  shows "js_field lib k (js_obj lib kvs) = map_of kvs k"
  using assms by (simp add: json_ok_def)

lemma json_convert [simp]:
  assumes "json_ok lib"
  shows "int32_fits i \<Longrightarrow> js_to_int lib (js_int lib i) = Some i" and "js_to_real lib (js_real lib r) = Some r"
    and "js_to_bool lib (js_bool lib b) = Some b" and "js_to_str lib (js_str lib s) = Some s"
  using assms by (simp_all add: json_ok_def)

lemma json_section:
  assumes "json_ok lib" and "distinct (map fst kvs)" and "map_of kvs k = Some (js_arr lib xs)"
  shows "js_section lib k (js_obj lib kvs) = Some xs"
  using assms unfolding json_ok_def by blast

lemma json_index:
  assumes "json_ok lib" and "i < length xs"
  shows "js_index lib i (js_arr lib xs) = Some (xs ! i)"
  using assms unfolding json_ok_def by blast

lemma those_map_all: "(\<And>x. x \<in> set xs \<Longrightarrow> f (g x) = Some (h x)) \<Longrightarrow> those (map f (map g xs)) = Some (map h xs)"
  by (induction xs) auto

lemma node_json_field:
  assumes "json_ok lib"
  shows "js_field lib k (node_json lib n) = map_of
     [(''index'', js_int lib (n_index n)), (''timestamp'', js_real lib (n_stamp n)), (''x'', js_real lib (n_x n)),
      (''y'', js_real lib (n_y n)), (''yaw'', js_real lib (n_yaw n))] k"
  unfolding node_json_def using assms by (rule json_field) simp

lemma old_node_saved:
  assumes "json_ok lib" and "int32_fits (n_index n)"
  shows "old_node lib scan_at (node_json lib n) = Some (n\<lparr>n_scan := scan_at (n_stamp n), n_patch := None, n_normals := None\<rparr>)"
  using assms by (simp add: old_node_def get_as_def node_json_field)

lemma parse_information_saved:
  assumes "json_ok lib"
  shows "parse_information lib (js_arr lib (map (js_real lib) (info_vec m))) = Some m"
proof -
  obtain a b c d e f g h i where m: "m = ((a, b, c), (d, e, f), (g, h, i))" by (metis surj_pair)
  have len: "length (info_vec m) = 9" by (simp add: m)
  have idx: "js_index lib k (js_arr lib (map (js_real lib) (info_vec m))) = Some (js_real lib (info_vec m ! k))" if "k < 9" for k
    using json_index [OF assms, of k "map (js_real lib) (info_vec m)"] \<open>k < 9\<close> by (simp add: len)
  have upt: "[0..<9] = [0, 1, 2, 3, 4, 5, 6, 7, 8::nat]" by (simp add: upt_rec)
  show ?thesis unfolding parse_information_def upt using assms idx by (simp add: m)
qed

lemma edge_json_field:
  assumes "json_ok lib"
  shows "js_field lib k (edge_json lib e) = map_of
     [(''from'', js_int lib (e_from e)), (''to'', js_int lib (e_to e)), (''dx'', js_real lib (e_dx e)), (''dy'', js_real lib (e_dy e)),
      (''dyaw'', js_real lib (e_dyaw e)), (''score'', js_real lib (e_score e)), (''is_odom_fallback'', js_bool lib (e_fallback e)),
      (''information'', js_arr lib (map (js_real lib) (info_vec (e_information e))))] k"
  unfolding edge_json_def using assms by (rule json_field) simp

lemma parse_edge_saved:
  assumes "json_ok lib" and "int32_fits (e_from e)" and "int32_fits (e_to e)"
  shows "parse_edge lib (edge_json lib e) = Some e"
  using assms by (simp add: parse_edge_def get_as_def value_or_def edge_json_field parse_information_saved)

lemma saved_graph_read:
  assumes "json_ok lib" and "\<forall>n\<in>set nodes. int32_fits (n_index n)" and "\<forall>e\<in>set edges. int32_fits (e_from e) \<and> int32_fits (e_to e)"
    and data: "data = save_pose_graph lib created_at nodes edges bag_path"
  shows "old_nodes lib scan_at data = Some (map (\<lambda>n. n\<lparr>n_scan := scan_at (n_stamp n), n_patch := None, n_normals := None\<rparr>) nodes)"
    and "old_edges lib ''sequential_edges'' data = Some (filter saved_sequential edges)"
    and "old_edges lib ''loop_edges'' data = Some (filter (\<lambda>e. \<not> saved_sequential e) edges)"
    and "js_field lib ''nodes'' data = Some (js_arr lib (map (node_json lib) nodes))"
    and "js_field lib ''sequential_edges'' data = Some (js_arr lib (map (edge_json lib) (filter saved_sequential edges)))"
    and "js_field lib ''loop_edges'' data = Some (js_arr lib (map (edge_json lib) (filter (\<lambda>e. \<not> saved_sequential e) edges)))"
    and "js_section lib ''sequential_edges'' data = Some (map (edge_json lib) (filter saved_sequential edges))"
    and "js_section lib ''loop_edges'' data = Some (map (edge_json lib) (filter (\<lambda>e. \<not> saved_sequential e) edges))"
proof -
  have edges: "those (map (parse_edge lib) (map (edge_json lib) es)) = Some es" if "set es \<subseteq> set edges" for es
  proof -
    have "parse_edge lib (edge_json lib e) = Some e" if "e \<in> set es" for e
      using \<open>e \<in> set es\<close> \<open>set es \<subseteq> set edges\<close> assms(1, 3) by (intro parse_edge_saved) auto
    from those_map_all [of es "parse_edge lib" "edge_json lib" "\<lambda>e. e", OF this] show ?thesis by (simp only: list.map_ident)
  qed
  have nodes: "those (map (old_node lib scan_at) (map (node_json lib) nodes)) =
      Some (map (\<lambda>n. n\<lparr>n_scan := scan_at (n_stamp n), n_patch := None, n_normals := None\<rparr>) nodes)"
    using assms(1, 2) by (intro those_map_all old_node_saved) auto
  show sections: "js_section lib ''sequential_edges'' data = Some (map (edge_json lib) (filter saved_sequential edges))"
    "js_section lib ''loop_edges'' data = Some (map (edge_json lib) (filter (\<lambda>e. \<not> saved_sequential e) edges))"
    using assms(1) by (simp_all add: data save_pose_graph_def Let_def json_section del: map_map)
  show "js_field lib ''nodes'' data = Some (js_arr lib (map (node_json lib) nodes))"
    "js_field lib ''sequential_edges'' data = Some (js_arr lib (map (edge_json lib) (filter saved_sequential edges)))"
    "js_field lib ''loop_edges'' data = Some (js_arr lib (map (edge_json lib) (filter (\<lambda>e. \<not> saved_sequential e) edges)))"
    using assms(1) by (simp_all add: data save_pose_graph_def Let_def json_field del: map_map)
  have "js_section lib ''nodes'' data = Some (map (node_json lib) nodes)"
    using assms(1) by (simp add: data save_pose_graph_def Let_def json_section del: map_map)
  then show "old_nodes lib scan_at data = Some (map (\<lambda>n. n\<lparr>n_scan := scan_at (n_stamp n), n_patch := None, n_normals := None\<rparr>) nodes)"
    using nodes by (simp add: old_nodes_def del: map_map)
  show "old_edges lib ''sequential_edges'' data = Some (filter saved_sequential edges)"
    "old_edges lib ''loop_edges'' data = Some (filter (\<lambda>e. \<not> saved_sequential e) edges)"
    by (simp_all add: old_edges_def sections edges del: map_map)
qed

lemma saved_bag:
  assumes "json_ok lib" and data: "data = save_pose_graph lib created_at nodes edges bag_path"
  shows "case bag_path of
      Some p \<Rightarrow> p \<noteq> [] \<and> exists p \<longrightarrow> resolve_bag_path lib exists [] data = Some p
    | None \<Rightarrow> resolve_bag_path lib exists [] data = None"
proof -
  obtain meta where meta: "js_field lib ''metadata'' data = Some (js_obj lib meta)" "distinct (map fst meta)"
    "map_of meta ''bag_path'' = Some (js_str lib (case bag_path of Some p \<Rightarrow> p | None \<Rightarrow> []))"
    using assms(1) by (simp add: data save_pose_graph_def Let_def json_field)
  show ?thesis using assms(1) by (auto simp: resolve_bag_path_def meta json_field split: option.splits)
qed

text \<open>
  C27. A saved pose graph is read back: the nodes with their indices, stamps and poses and with the scans found for
  their stamps, and all edges without loss, split into those between neighbours and the others, each in their order; and the
  recorded bag is found again when it exists.
\<close>

theorem pose_graph_file_roundtrip:
  assumes "json_ok lib" and "\<forall>n\<in>set nodes. int32_fits (n_index n)" and "\<forall>e\<in>set edges. int32_fits (e_from e) \<and> int32_fits (e_to e)"
    and "data = save_pose_graph lib created_at nodes edges bag_path"
  shows "old_nodes lib scan_at data = Some (map (\<lambda>n. n\<lparr>n_scan := scan_at (n_stamp n), n_patch := None, n_normals := None\<rparr>) nodes) \<and>
    old_edges lib ''sequential_edges'' data = Some (filter saved_sequential edges) \<and>
    old_edges lib ''loop_edges'' data = Some (filter (\<lambda>e. \<not> saved_sequential e) edges) \<and>
    (case bag_path of Some p \<Rightarrow> p \<noteq> [] \<and> exists p \<longrightarrow> resolve_bag_path lib exists [] data = Some p | None \<Rightarrow> resolve_bag_path lib exists [] data = None)"
  using saved_graph_read [OF assms] saved_bag [OF assms(1, 4)] by blast

section \<open>A JSON library\<close>

datatype json = JInt int | JReal real | JBool bool | JStr string | JArr "json list" | JObj "(string \<times> json) list"

definition tree_json :: "json json_lib" where
  "tree_json = \<lparr>js_int = JInt, js_real = JReal, js_bool = JBool, js_str = JStr, js_arr = JArr, js_obj = JObj,
     js_field = (\<lambda>k j. case j of JObj kvs \<Rightarrow> map_of kvs k | _ \<Rightarrow> None),
     js_index = (\<lambda>i j. case j of JArr xs \<Rightarrow> if i < length xs then Some (xs ! i) else None | _ \<Rightarrow> None),
     js_section = (\<lambda>k j. case j of
         JObj kvs \<Rightarrow> (case map_of kvs k of None \<Rightarrow> Some [] | Some (JArr xs) \<Rightarrow> Some xs | Some (JObj kvs) \<Rightarrow> Some (map snd kvs) | Some v \<Rightarrow> Some [v])
       | _ \<Rightarrow> None),
     js_array = (\<lambda>j. case j of JArr xs \<Rightarrow> Some xs | _ \<Rightarrow> None),
     js_to_int = (\<lambda>j. case j of JInt i \<Rightarrow> Some i | _ \<Rightarrow> None),
     js_to_real = (\<lambda>j. case j of JReal r \<Rightarrow> Some r | JInt i \<Rightarrow> Some (of_int i) | _ \<Rightarrow> None),
     js_to_bool = (\<lambda>j. case j of JBool b \<Rightarrow> Some b | _ \<Rightarrow> None),
     js_to_str = (\<lambda>j. case j of JStr s \<Rightarrow> Some s | _ \<Rightarrow> None)\<rparr>"

lemma tree_json_ok: "json_ok tree_json"
  by (simp add: json_ok_def tree_json_def)

definition two_nodes :: "PoseNode list" where
  "two_nodes = [sample_node, sample_node\<lparr>n_index := 1, n_x := 2\<rparr>]"

definition one_edge :: PoseEdge where
  "one_edge = \<lparr>e_from = 0, e_to = 1, e_dx = 1, e_dy = 0, e_dyaw = 0, e_information = ((1, 0, 0), (0, 1, 0), (0, 0, 1)), e_score = 0, e_fallback = False\<rparr>"

theorem pose_graph_file_roundtrip_witness:
  "old_edges tree_json ''sequential_edges'' (save_pose_graph tree_json [] two_nodes [one_edge] None) = Some [one_edge] \<and>
   resolve_bag_path tree_json (\<lambda>_. True) [] (save_pose_graph tree_json [] two_nodes [one_edge] None) = None"
  using pose_graph_file_roundtrip [OF tree_json_ok, of two_nodes "[one_edge]" _ "[]" None "\<lambda>_. None" "\<lambda>_. True", OF _ _ refl]
  by (simp add: two_nodes_def one_edge_def sample_node_def int32_fits_def saved_sequential_def)

end
