(* ===== verification/Reoptimize.thy ===== *)
theory Reoptimize
  imports ReoptimizeTools PoseGraphFile
begin

text \<open>
  \<^verbatim>\<open>nodes/reoptimize_node.cpp\<close>: the offline tool that reads a saved pose graph, optionally matches the scans of its edges
  again and searches for more loops, and optimizes the graph in one batch.  The scans of the bag, its GNSS fixes, the
  matchers and the batch solver are parameters.  Drawing and publishing the result are left out.
\<close>

section \<open>Several guesses\<close>

definition guess_candidates :: "OdomData \<Rightarrow> OdomData option \<Rightarrow> real \<Rightarrow> real \<Rightarrow> OdomData list" where
  "guess_candidates base gnss_guess shift_m shift_rad =
     [base, base\<lparr>o_x := o_x base + shift_m\<rparr>, base\<lparr>o_x := o_x base - shift_m\<rparr>, base\<lparr>o_y := o_y base + shift_m\<rparr>,
      base\<lparr>o_y := o_y base - shift_m\<rparr>, base\<lparr>o_yaw := o_yaw base + shift_rad\<rparr>, base\<lparr>o_yaw := o_yaw base - shift_rad\<rparr>] @
     (case gnss_guess of None \<Rightarrow> [] | Some g \<Rightarrow> [g, g\<lparr>o_yaw := o_yaw g + shift_rad\<rparr>])"

text \<open>The best score starts at infinity, so the first guess that converges is always taken.\<close>

definition keep_lower :: "MatchResult \<Rightarrow> MatchResult option \<Rightarrow> MatchResult option" where
  "keep_lower res best =
     (if \<not> m_converged res then best
      else case best of None \<Rightarrow> Some res | Some b \<Rightarrow> if m_score res < m_score b then Some res else best)"

definition match_with_multi_guess ::
  "'m plain_matcher \<Rightarrow> ScanData option \<Rightarrow> OdomData \<Rightarrow> OdomData option \<Rightarrow> real \<Rightarrow> real \<Rightarrow> 'm \<Rightarrow> MatchResult option \<times> 'm" where
  "match_with_multi_guess mt dst_scan base gnss_guess shift_m shift_rad m =
     fold (\<lambda>g (best, m). case plain_match mt dst_scan g m of (res, m) \<Rightarrow> (keep_lower res best, m))
       (guess_candidates base gnss_guess shift_m shift_rad) (None, m)"

section \<open>Edges\<close>

record reopt_config =
  rc_gnss_enabled :: bool
  rc_fix_m :: real
  rc_float_m :: real
  rc_max_sigma_m :: real
  rc_reference :: string
  rc_local_radius :: real
  rc_loop :: loop_search
  rc_re_scan_matching :: bool
  rc_new_loop_search :: bool
  rc_shift_m :: real
  rc_shift_rad :: real

definition target_of :: "bool \<Rightarrow> real \<Rightarrow> PoseNode list \<Rightarrow> node_scans \<Rightarrow> int \<Rightarrow> vec2 list" where
  "target_of submap radius nodes scans f_idx =
     (let own = scan_ptr_to_points (the (scans f_idx))
      in if submap then (case build_submap_points f_idx nodes scans radius of Some sub \<Rightarrow> sub | None \<Rightarrow> own) else own)"

definition matched_edge :: "int \<Rightarrow> int \<Rightarrow> MatchResult \<Rightarrow> PoseEdge" where
  "matched_edge f_idx t_idx res =
     \<lparr>e_from = f_idx, e_to = t_idx, e_dx = m_dx res, e_dy = m_dy res, e_dyaw = m_dyaw res, e_information = m_information res,
      e_score = m_score res, e_fallback = False\<rparr>"

text \<open>\<^verbatim>\<open>old_nodes[t_idx]\<close> is unchecked: an index that is no position of the vector is undefined.\<close>

definition initial_guess :: "'j json_lib \<Rightarrow> PoseNode list \<Rightarrow> int \<Rightarrow> 'j \<Rightarrow> OdomData option" where
  "initial_guess lib nodes t_idx ej = do {
     dx \<leftarrow> get_as lib (js_to_real lib) ''dx'' ej;
     dy \<leftarrow> get_as lib (js_to_real lib) ''dy'' ej;
     dyaw \<leftarrow> get_as lib (js_to_real lib) ''dyaw'' ej;
     if t_idx < 0 \<or> int (length nodes) \<le> t_idx then None
     else Some \<lparr>o_stamp = n_stamp (nodes ! nat t_idx), o_x = dx, o_y = dy, o_yaw = dyaw\<rparr>
   }"

text \<open>Both loops over edges: \<open>rematch\<close> is the match of the loop, with the decision to accept its result.\<close>

definition renew_edge ::
  "'j json_lib \<Rightarrow> PoseNode list \<Rightarrow> node_scans \<Rightarrow> (int \<Rightarrow> vec2 list) \<Rightarrow> (vec2 list \<Rightarrow> ScanData option \<Rightarrow> OdomData \<Rightarrow> 'm \<Rightarrow> MatchResult option \<times> 'm) \<Rightarrow>
     'j \<Rightarrow> 'm \<Rightarrow> (PoseEdge \<times> 'm) option" where
  "renew_edge lib nodes scans target rematch ej m = do {
     f_idx \<leftarrow> get_as lib (js_to_int lib) ''from'' ej;
     t_idx \<leftarrow> get_as lib (js_to_int lib) ''to'' ej;
     if scans f_idx = None \<or> scans t_idx = None then do { e \<leftarrow> parse_edge lib ej; Some (e, m) }
     else do {
       guess \<leftarrow> initial_guess lib nodes t_idx ej;
       case rematch (target f_idx) (the (scans t_idx)) guess m of
         (Some res, m) \<Rightarrow> Some (matched_edge f_idx t_idx res, m)
       | (None, m) \<Rightarrow> do { e \<leftarrow> parse_edge lib ej; Some (e, m) }
     }
   }"

definition rematch_seq ::
  "reopt_config \<Rightarrow> 'm plain_matcher \<Rightarrow> vec2 list \<Rightarrow> ScanData option \<Rightarrow> OdomData \<Rightarrow> 'm \<Rightarrow> MatchResult option \<times> 'm" where
  "rematch_seq cfg mt src_pts dst guess m =
     match_with_multi_guess mt dst guess None (rc_shift_m cfg) (rc_shift_rad cfg) (plain_set_target mt src_pts m)"

definition rematch_loop ::
  "reopt_config \<Rightarrow> 'l plain_matcher \<Rightarrow> vec2 list \<Rightarrow> ScanData option \<Rightarrow> OdomData \<Rightarrow> 'l \<Rightarrow> MatchResult option \<times> 'l" where
  "rematch_loop cfg mt src_pts dst guess m =
     (case plain_match mt dst guess (plain_set_target mt src_pts m) of
        (res, m) \<Rightarrow> (if m_converged res \<and> (search_max_score (rc_loop cfg) \<le> 0 \<or> m_score res \<le> search_max_score (rc_loop cfg)) then Some res else None, m))"

primrec fold_edges :: "('j \<Rightarrow> 'm \<Rightarrow> ('e \<times> 'm) option) \<Rightarrow> 'j list \<Rightarrow> 'm \<Rightarrow> ('e list \<times> 'm) option" where
  "fold_edges f [] m = Some ([], m)"
| "fold_edges f (j # js) m = do { (e, m) \<leftarrow> f j m; (es, m) \<leftarrow> fold_edges f js m; Some (e # es, m) }"

definition sequential_edges ::
  "'j json_lib \<Rightarrow> reopt_config \<Rightarrow> 'm plain_matcher \<Rightarrow> PoseNode list \<Rightarrow> node_scans \<Rightarrow> 'j \<Rightarrow> 'm \<Rightarrow> (PoseEdge list \<times> 'm) option" where
  "sequential_edges lib cfg mt nodes scans data m = do {
     js \<leftarrow> js_section lib ''sequential_edges'' data;
     fold_edges (renew_edge lib nodes scans
       (target_of (rc_reference cfg = ''scan_to_local_map'') (rc_local_radius cfg) nodes scans) (rematch_seq cfg mt)) js m
   }"

definition loop_edges_again ::
  "'j json_lib \<Rightarrow> reopt_config \<Rightarrow> 'l plain_matcher \<Rightarrow> PoseNode list \<Rightarrow> node_scans \<Rightarrow> 'j \<Rightarrow> 'l \<Rightarrow> (PoseEdge list \<times> 'l) option" where
  "loop_edges_again lib cfg mt nodes scans data m = do {
     js \<leftarrow> js_section lib ''loop_edges'' data;
     fold_edges (renew_edge lib nodes scans
       (target_of (0 < search_submap_radius (rc_loop cfg)) (search_submap_radius (rc_loop cfg)) nodes scans) (rematch_loop cfg mt)) js m
   }"

section \<open>The run\<close>

definition prior_of :: "reopt_config \<Rightarrow> vec2 \<Rightarrow> (real \<Rightarrow> GnssData option) \<Rightarrow> PoseNode \<Rightarrow> GnssPrior list" where
  "prior_of cfg anchor gnss_at node =
     (case gnss_at (n_stamp node) of
        None \<Rightarrow> []
      | Some gnss \<Rightarrow>
          let sigma_xy = sigma_from_covariance_or_status gnss (rc_fix_m cfg) (rc_float_m cfg); pos_var = sigma_xy * sigma_xy
          in if sigma_xy \<le> 0 \<or> rc_max_sigma_m cfg < sigma_xy then []
             else [\<lparr>gp_node_index = n_index node, gp_x = g_x gnss - fst anchor, gp_y = g_y gnss - snd anchor,
                    gp_information = ((1 / pos_var, 0), (0, 1 / pos_var))\<rparr>])"

definition gnss_priors :: "reopt_config \<Rightarrow> vec2 option \<Rightarrow> (real \<Rightarrow> GnssData option) \<Rightarrow> PoseNode list \<Rightarrow> GnssPrior list" where
  "gnss_priors cfg anchor gnss_at nodes =
     (case anchor of Some a \<Rightarrow> if rc_gnss_enabled cfg then concat (map (prior_of cfg a gnss_at) nodes) else [] | None \<Rightarrow> [])"

text \<open>The table of scans; the last node of an index is the one that counts.\<close>

definition scan_table :: "PoseNode list \<Rightarrow> node_scans" where
  "scan_table nodes = fold (\<lambda>n scans. case n_scan n of None \<Rightarrow> scans | Some s \<Rightarrow> scans(n_index n \<mapsto> Some s)) nodes Map.empty"

record reopt_result =
  rr_nodes :: "PoseNode list"
  rr_seq :: "PoseEdge list"
  rr_loops :: "PoseEdge list"

record ('m, 'l) reopt_env =
  re_matcher :: "'m plain_matcher"
  re_loop_matcher :: "'l plain_matcher"
  re_new_matcher :: 'm
  re_new_loop_matcher :: 'l
  re_solver :: batch_solver

definition reoptimize ::
  "'j json_lib \<Rightarrow> ('m, 'l) reopt_env \<Rightarrow> reopt_config \<Rightarrow> ScanData option list \<Rightarrow> (real \<Rightarrow> GnssData option) \<Rightarrow> vec2 option \<Rightarrow> 'j \<Rightarrow> reopt_result option" where
  "reoptimize lib env cfg all_scans gnss_at anchor data = do {
     nodes \<leftarrow> old_nodes lib (\<lambda>ts. find_nearest_scan all_scans ts (1 / 10)) data;
     let scans = scan_table nodes;
     let priors = gnss_priors cfg anchor gnss_at nodes;
     seq \<leftarrow> (if rc_re_scan_matching cfg then map_option fst (sequential_edges lib cfg (re_matcher env) nodes scans data (re_new_matcher env))
             else old_edges lib ''sequential_edges'' data);
     loops \<leftarrow> (if rc_re_scan_matching cfg then map_option fst (loop_edges_again lib cfg (re_loop_matcher env) nodes scans data (re_new_loop_matcher env))
               else old_edges lib ''loop_edges'' data);
     pass1 \<leftarrow> batch_optimize (re_solver env) nodes (seq @ loops) priors;
     if rc_new_loop_search cfg \<and> rc_re_scan_matching cfg then do {
       let more = fst (search_new_loop_edges (re_loop_matcher env) (rc_loop cfg) pass1 scans loops (re_new_loop_matcher env));
       optimized \<leftarrow> batch_optimize (re_solver env) nodes (seq @ loops @ more) priors;
       Some \<lparr>rr_nodes = optimized, rr_seq = seq, rr_loops = loops @ more\<rparr>
     }
     else Some \<lparr>rr_nodes = pass1, rr_seq = seq, rr_loops = loops\<rparr>
   }"

text \<open>\<open>Some None\<close>: the run stops with a logged error; \<open>None\<close>: an exception leaves the callback.\<close>

definition run_optimization ::
  "'j json_lib \<Rightarrow> ('m, 'l) reopt_env \<Rightarrow> reopt_config \<Rightarrow> (string \<Rightarrow> ScanData option list) \<Rightarrow> (string \<Rightarrow> real \<Rightarrow> GnssData option) \<Rightarrow>
     (string \<Rightarrow> bool) \<Rightarrow> string \<Rightarrow> string \<Rightarrow> 'j option \<Rightarrow> vec2 option option \<Rightarrow> reopt_result option option" where
  "run_optimization lib env cfg scans_of gnss_of exists input_dir bag_path pg_file gt_file =
     (if input_dir = [] then Some None
      else case load_pose_graph_and_transform pg_file gt_file of
        None \<Rightarrow> Some None
      | Some (data, anchor) \<Rightarrow>
          (case resolve_bag_path lib exists bag_path data of
             None \<Rightarrow> Some None
           | Some bag \<Rightarrow> map_option Some (reoptimize lib env cfg (scans_of bag) (gnss_of bag) anchor data)))"

section \<open>The graph the tool hands to the services\<close>

record read_only_graph =
  ro_nodes :: "PoseNode list"
  ro_seq :: "PoseEdge list"
  ro_loops :: "PoseEdge list"

definition ReadOnlyPoseGraph :: "PoseNode list \<Rightarrow> PoseEdge list \<Rightarrow> PoseEdge list \<Rightarrow> read_only_graph" where
  "ReadOnlyPoseGraph nodes seq_edges loop_edges = \<lparr>ro_nodes = nodes, ro_seq = seq_edges, ro_loops = loop_edges\<rparr>"

definition ro_add_scan :: "ScanData option \<Rightarrow> OdomData \<Rightarrow> read_only_graph \<Rightarrow> PoseNode option \<times> read_only_graph" where
  "ro_add_scan scan odom g = (None, g)"

definition ro_get_edges :: "read_only_graph \<Rightarrow> PoseEdge list" where
  "ro_get_edges g = ro_seq g @ ro_loops g"

end
