(* ===== verification/ReoptimizeProps.thy ===== *)
theory ReoptimizeProps
  imports Reoptimize
begin

text \<open>
  The offline tool on a saved graph: what it reads, that it always returns, and that it keeps the nodes and the edges of the
  graph and adds loop edges only.
\<close>

section \<open>Guesses\<close>

definition lowest :: "MatchResult list \<Rightarrow> MatchResult option \<Rightarrow> bool" where
  "lowest rs best \<longleftrightarrow>
     (case best of
        None \<Rightarrow> \<forall>r\<in>set rs. \<not> m_converged r
      | Some b \<Rightarrow> b \<in> set rs \<and> m_converged b \<and> (\<forall>r\<in>set rs. m_converged r \<longrightarrow> m_score b \<le> m_score r))"

lemma lowest_step: "lowest rs best \<Longrightarrow> lowest (rs @ [r]) (keep_lower r best)"
  unfolding lowest_def keep_lower_def by (force split: option.splits)

text \<open>The results of matching the guesses one after the other.\<close>

primrec match_all :: "'m plain_matcher \<Rightarrow> ScanData option \<Rightarrow> OdomData list \<Rightarrow> 'm \<Rightarrow> MatchResult list \<times> 'm" where
  "match_all mt dst [] m = ([], m)"
| "match_all mt dst (g # gs) m = (case plain_match mt dst g m of (r, m) \<Rightarrow> case match_all mt dst gs m of (rs, m) \<Rightarrow> (r # rs, m))"

lemma multi_guess_fold:
  assumes "lowest done best"
  shows "case fold (\<lambda>g (best, m). case plain_match mt dst g m of (res, m) \<Rightarrow> (keep_lower res best, m)) gs (best, m) of
     (best', m') \<Rightarrow> lowest (done @ fst (match_all mt dst gs m)) best' \<and> m' = snd (match_all mt dst gs m)"
  using assms
proof (induction gs arbitrary: "done" best m)
  case (Cons g gs)
  obtain r m1 where r: "plain_match mt dst g m = (r, m1)" by fastforce
  show ?case using Cons.IH [OF lowest_step [OF Cons.prems], of r m1] by (clarsimp simp: r split: prod.splits)
qed simp

text \<open>
  Of all guesses the result with the lowest score among those that converge is taken, and there is none only
  when no guess converges.
\<close>

theorem multi_guess_lowest:
  "lowest (fst (match_all mt dst (guess_candidates base gnss_guess shift_m shift_rad) m))
     (fst (match_with_multi_guess mt dst base gnss_guess shift_m shift_rad m))"
  using multi_guess_fold [of "[]" None mt dst "guess_candidates base gnss_guess shift_m shift_rad" m]
  by (simp add: match_with_multi_guess_def lowest_def split: prod.splits)

section \<open>Saved graphs\<close>

text \<open>
  A graph as the builders leave it: the nodes are numbered from zero, every edge joins two of them, and the numbers fit the
  integers of the file.
\<close>

definition graph_ok :: "PoseNode list \<Rightarrow> PoseEdge list \<Rightarrow> bool" where
  "graph_ok nodes edges \<longleftrightarrow> map n_index nodes = map int [0..<length nodes] \<and> length nodes \<le> 2 ^ 31 \<and>
     (\<forall>e\<in>set edges. 0 \<le> e_from e \<and> e_from e < int (length nodes) \<and> 0 \<le> e_to e \<and> e_to e < int (length nodes))"

definition read_back :: "ScanData option list \<Rightarrow> PoseNode \<Rightarrow> PoseNode" where
  "read_back all_scans n = n\<lparr>n_scan := find_nearest_scan all_scans (n_stamp n) (1 / 10), n_patch := None, n_normals := None\<rparr>"

lemma read_back_frame [simp]: "n_index (read_back s n) = n_index n" "n_stamp (read_back s n) = n_stamp n"
  by (simp_all add: read_back_def)

lemma graph_ok_indices:
  assumes "graph_ok nodes edges"
  shows "set (map n_index nodes) = {0..<int (length nodes)}" and "distinct (map n_index nodes)"
    and "n \<in> set nodes \<Longrightarrow> int32_fits (n_index n)" and "e \<in> set edges \<Longrightarrow> int32_fits (e_from e) \<and> int32_fits (e_to e)"
proof -
  have m: "map n_index nodes = map int [0..<length nodes]" using assms by (simp add: graph_ok_def)
  show s: "set (map n_index nodes) = {0..<int (length nodes)}" unfolding m by (simp add: image_int_atLeastLessThan)
  show "distinct (map n_index nodes)" unfolding m by (simp add: distinct_map inj_on_def)
  have len: "int (length nodes) \<le> 2 ^ 31" using assms by (simp add: graph_ok_def)
  show "int32_fits (n_index n)" if "n \<in> set nodes"
  proof -
    have "n_index n \<in> {0..<int (length nodes)}" using that s by (metis image_eqI list.set_map)
    then show ?thesis using len by (simp add: int32_fits_def)
  qed
  show "int32_fits (e_from e) \<and> int32_fits (e_to e)" if "e \<in> set edges"
    using that assms len by (auto simp: graph_ok_def int32_fits_def)
qed

section \<open>Matching edges again\<close>

text \<open>A renewed edge joins the same nodes and is the old one or the result of a match that converged.\<close>

definition renewed :: "PoseEdge \<Rightarrow> PoseEdge \<Rightarrow> bool" where
  "renewed old new \<longleftrightarrow> e_from new = e_from old \<and> e_to new = e_to old \<and>
     (new = old \<or> (\<exists>r. m_converged r \<and> new = matched_edge (e_from old) (e_to old) r))"

definition converging :: "(vec2 list \<Rightarrow> ScanData option \<Rightarrow> OdomData \<Rightarrow> 'm \<Rightarrow> MatchResult option \<times> 'm) \<Rightarrow> bool" where
  "converging rematch \<longleftrightarrow> (\<forall>pts dst g m r. fst (rematch pts dst g m) = Some r \<longrightarrow> m_converged r)"

lemma rematch_converging: "converging (rematch_seq cfg mt)" "converging (rematch_loop cfg lmt)"
proof -
  show "converging (rematch_seq cfg mt)"
    unfolding converging_def rematch_seq_def
  proof (intro allI impI)
    fix pts dst g m r
    assume "fst (match_with_multi_guess mt dst g None (rc_shift_m cfg) (rc_shift_rad cfg) (plain_set_target mt pts m)) = Some r"
    then show "m_converged r"
      using multi_guess_fold [of "[]" None mt dst "guess_candidates g None (rc_shift_m cfg) (rc_shift_rad cfg)" "plain_set_target mt pts m"]
      by (simp add: match_with_multi_guess_def lowest_def split: prod.splits)
  qed
  show "converging (rematch_loop cfg lmt)"
    by (auto simp: converging_def rematch_loop_def split: prod.splits if_splits)
qed

lemma renew_saved_edge:
  assumes "json_ok lib" and "int32_fits (e_from e)" and "int32_fits (e_to e)" and "0 \<le> e_to e" and "e_to e < int (length nodes)" and "converging rematch"
  shows "\<exists>e' m'. renew_edge lib nodes scans target rematch (edge_json lib e) m = Some (e', m') \<and> renewed e e'"
proof -
  have fields: "get_as lib (js_to_int lib) ''from'' (edge_json lib e) = Some (e_from e)" "get_as lib (js_to_int lib) ''to'' (edge_json lib e) = Some (e_to e)"
    "get_as lib (js_to_real lib) ''dx'' (edge_json lib e) = Some (e_dx e)" "get_as lib (js_to_real lib) ''dy'' (edge_json lib e) = Some (e_dy e)"
    "get_as lib (js_to_real lib) ''dyaw'' (edge_json lib e) = Some (e_dyaw e)"
    using assms(1-3) by (simp_all add: get_as_def edge_json_field)
  obtain g where g: "initial_guess lib nodes (e_to e) (edge_json lib e) = Some g"
    using assms(4, 5) by (simp add: initial_guess_def fields)
  obtain r m' where r: "rematch (target (e_from e)) (the (scans (e_to e))) g m = (r, m')" by fastforce
  have "m_converged x" if "r = Some x" for x using assms(6) r that by (metis converging_def fst_conv)
  then show ?thesis using parse_edge_saved [OF assms(1-3)]
    by (cases "scans (e_from e) = None \<or> scans (e_to e) = None"; cases r)
      (auto simp: renew_edge_def fields g r renewed_def matched_edge_def)
qed

lemma fold_renew:
  assumes "\<And>e m. e \<in> set es \<Longrightarrow> \<exists>e' m'. f (edge_json lib e) m = Some (e', m') \<and> renewed e e'"
  shows "\<exists>es' m'. fold_edges f (map (edge_json lib) es) m = Some (es', m') \<and> list_all2 renewed es es'"
  using assms
proof (induction es arbitrary: m)
  case (Cons e es)
  obtain e' m1 where e: "f (edge_json lib e) m = Some (e', m1)" "renewed e e'" using Cons.prems [of e m] by auto
  obtain es' m2 where "fold_edges f (map (edge_json lib) es) m1 = Some (es', m2)" "list_all2 renewed es es'" using Cons by (meson list.set_intros(2))
  then show ?case using e by auto
qed simp

section \<open>The whole run\<close>

text \<open>The edges the tool starts its optimization with.\<close>

definition kept :: "reopt_config \<Rightarrow> PoseEdge list \<Rightarrow> PoseEdge list \<Rightarrow> bool" where
  "kept cfg old new \<longleftrightarrow> (if rc_re_scan_matching cfg then list_all2 renewed old new else new = old)"

lemma kept_endpoints:
  assumes "kept cfg old new"
  shows "map (\<lambda>e. (e_from e, e_to e)) new = map (\<lambda>e. (e_from e, e_to e)) old"
proof -
  have "list_all2 renewed old new \<Longrightarrow> map (\<lambda>e. (e_from e, e_to e)) new = map (\<lambda>e. (e_from e, e_to e)) old"
    by (induction rule: list_all2_induct) (auto simp: renewed_def)
  then show ?thesis using assms by (auto simp: kept_def split: if_splits)
qed

lemma kept_in_range:
  assumes "kept cfg old new" and "graph_ok nodes edges" and "set old \<subseteq> set edges" and "e \<in> set new"
  shows "e_from e \<in> set (map n_index nodes) \<and> e_to e \<in> set (map n_index nodes)"
proof -
  have "(e_from e, e_to e) \<in> (\<lambda>e. (e_from e, e_to e)) ` set old"
    using arg_cong [OF kept_endpoints [OF assms(1)], of set] assms(4) by force
  then show ?thesis using assms(2, 3) graph_ok_indices(1) [OF assms(2)] by (auto simp: graph_ok_def)
qed

lemma scan_table_dom:
  assumes "scan_table ns i \<noteq> None"
  shows "i \<in> n_index ` set ns"
proof -
  have "fold (\<lambda>n scans. case n_scan n of None \<Rightarrow> scans | Some s \<Rightarrow> scans(n_index n \<mapsto> Some s)) ns t i \<noteq> None \<Longrightarrow> i \<in> n_index ` set ns \<or> t i \<noteq> None" for t :: node_scans
    by (induction ns arbitrary: t) (force split: option.splits if_splits)+
  then show ?thesis using assms by (fastforce simp: scan_table_def)
qed

lemma found_endpoints:
  assumes "found_by mt cfg nodes scans (search_pairs (valid_nodes nodes scans)) e"
  shows "e_from e \<in> set (map n_index nodes) \<and> e_to e \<in> set (map n_index nodes)"
  using assms by (force simp: found_by_def search_pairs_def search_edge_def valid_nodes_def set_conv_nth [symmetric] dest: nth_mem)

text \<open>What a result of the tool is, for the nodes and edges that were saved.\<close>

definition result_ok :: "reopt_config \<Rightarrow> PoseNode list \<Rightarrow> PoseEdge list \<Rightarrow> reopt_result \<Rightarrow> bool" where
  "result_ok cfg nodes edges r \<longleftrightarrow>
     map (\<lambda>n. (n_index n, n_stamp n)) (rr_nodes r) = map (\<lambda>n. (n_index n, n_stamp n)) nodes \<and>
     kept cfg (filter saved_sequential edges) (rr_seq r) \<and>
     (\<exists>loops more. rr_loops r = loops @ more \<and> kept cfg (filter (\<lambda>e. \<not> saved_sequential e) edges) loops \<and>
        (rc_re_scan_matching cfg \<and> rc_new_loop_search cfg \<or> more = []) \<and>
        distinct (map edge_pair more) \<and> edge_pair ` set loops \<inter> edge_pair ` set more = {} \<and>
        (\<forall>e\<in>set more. search_min_gap (rc_loop cfg) \<le> \<bar>e_to e - e_from e\<bar>))"

lemma batch_returns:
  assumes "batch_ok lm" and "distinct (map n_index nodes)"
    and "\<And>e. e \<in> set edges \<Longrightarrow> e_from e \<in> set (map n_index nodes) \<and> e_to e \<in> set (map n_index nodes)"
  shows "\<exists>nodes'. batch_optimize lm nodes edges priors = Some nodes' \<and>
    map (\<lambda>n. (n_index n, n_stamp n, n_scan n)) nodes' = map (\<lambda>n. (n_index n, n_stamp n, n_scan n)) nodes"
proof (cases "length nodes < 2 \<or> edges = [] \<and> priors = []")
  case True
  then have "batch_optimize lm nodes edges priors = Some nodes" by (auto simp: batch_optimize_def)
  then show ?thesis by simp
next
  case False
  then have "batch_optimize lm nodes edges priors \<noteq> None"
    using batch_optimize_cases [OF assms(1), of nodes edges priors] assms(2, 3) by (auto split: if_splits)
  then show ?thesis using batch_optimize_frame [OF assms(1)] by blast
qed

lemma reoptimize_parts:
  assumes "json_ok lib" and "graph_ok nodes edges" and data: "data = save_pose_graph lib created_at nodes edges bag_path"
    and ns_def: "ns = map (read_back all_scans) nodes"
  shows "old_nodes lib (\<lambda>ts. find_nearest_scan all_scans ts (1 / 10)) data = Some ns"
    and "\<exists>seq. (if rc_re_scan_matching cfg then map_option fst (sequential_edges lib cfg mt ns scans data m)
        else old_edges lib ''sequential_edges'' data) = Some seq \<and> kept cfg (filter saved_sequential edges) seq"
    and "\<exists>loops. (if rc_re_scan_matching cfg then map_option fst (loop_edges_again lib cfg lmt ns scans data l)
        else old_edges lib ''loop_edges'' data) = Some loops \<and> kept cfg (filter (\<lambda>e. \<not> saved_sequential e) edges) loops"
proof -
  note fits = graph_ok_indices(3, 4) [OF assms(2)]
  have "\<forall>n\<in>set nodes. int32_fits (n_index n)" "\<forall>e\<in>set edges. int32_fits (e_from e) \<and> int32_fits (e_to e)" using fits by auto
  note read = saved_graph_read [OF assms(1) this data]
  show "old_nodes lib (\<lambda>ts. find_nearest_scan all_scans ts (1 / 10)) data = Some ns"
    unfolding read(1) by (simp add: ns_def read_back_def)
  have again: "\<exists>es' m'. fold_edges (renew_edge lib ns scans target rematch) (map (edge_json lib) es) m = Some (es', m') \<and> list_all2 renewed es es'"
    if "set es \<subseteq> set edges" and "converging rematch" for es target and rematch :: "vec2 list \<Rightarrow> ScanData option \<Rightarrow> OdomData \<Rightarrow> 'x \<Rightarrow> MatchResult option \<times> 'x" and m
  proof (rule fold_renew)
    fix e m assume "e \<in> set es"
    then have "e \<in> set edges" using \<open>set es \<subseteq> set edges\<close> by auto
    then show "\<exists>e' m'. renew_edge lib ns scans target rematch (edge_json lib e) m = Some (e', m') \<and> renewed e e'"
      using assms(1, 2) fits(2) \<open>converging rematch\<close> by (intro renew_saved_edge) (auto simp: graph_ok_def ns_def)
  qed
  show "\<exists>seq. (if rc_re_scan_matching cfg then map_option fst (sequential_edges lib cfg mt ns scans data m)
        else old_edges lib ''sequential_edges'' data) = Some seq \<and> kept cfg (filter saved_sequential edges) seq"
    using again [OF _ rematch_converging(1), of "filter saved_sequential edges"]
    by (fastforce simp: sequential_edges_def read kept_def)
  show "\<exists>loops. (if rc_re_scan_matching cfg then map_option fst (loop_edges_again lib cfg lmt ns scans data l)
        else old_edges lib ''loop_edges'' data) = Some loops \<and> kept cfg (filter (\<lambda>e. \<not> saved_sequential e) edges) loops"
    using again [OF _ rematch_converging(2), of "filter (\<lambda>e. \<not> saved_sequential e) edges"]
    by (fastforce simp: loop_edges_again_def read kept_def)
qed


section \<open>Examples\<close>

definition blind :: "unit plain_matcher" where
  "blind = \<lparr>plain_set_target = (\<lambda>_ m. m), plain_match = (\<lambda>_ g m.
     (\<lparr>m_dx = o_x g, m_dy = o_y g, m_dyaw = o_yaw g, m_converged = True, m_information = ((1, 0, 0), (0, 1, 0), (0, 0, 1)), m_score = 0\<rparr>, m))\<rparr>"

definition blind_env :: "(unit, unit) reopt_env" where
  "blind_env = \<lparr>re_matcher = blind, re_loop_matcher = blind, re_new_matcher = (), re_new_loop_matcher = (), re_solver = keep_initial\<rparr>"

definition search_example :: loop_search where
  "search_example = \<lparr>search_radius = 5, search_min_gap = 1, search_submap_radius = 0, search_max_score = 0, search_max_dyaw_deg = 90,
     search_crossing_deg = 0\<rparr>"

definition reopt_example :: reopt_config where
  "reopt_example = \<lparr>rc_gnss_enabled = False, rc_fix_m = 1, rc_float_m = 1, rc_max_sigma_m = 1, rc_reference = ''scan_to_scan'',
     rc_local_radius = 1, rc_loop = search_example, rc_re_scan_matching = True, rc_new_loop_search = True, rc_shift_m = 1, rc_shift_rad = 1\<rparr>"


definition scanned_nodes :: "PoseNode list" where
  "scanned_nodes = [sample_node, sample_node\<lparr>n_index := 1, n_x := 2\<rparr>]"

definition scan_everywhere :: node_scans where
  "scan_everywhere i = (if 0 \<le> i \<and> i < 2 then Some (Some sample_scan) else None)"

theorem loop_search_spec_witness:
  "let es = fst (search_new_loop_edges blind search_example scanned_nodes scan_everywhere [] ())
   in es \<noteq> [] \<and> distinct (map edge_pair es) \<and>
      (\<forall>e\<in>set es. found_by blind search_example scanned_nodes scan_everywhere (search_pairs (valid_nodes scanned_nodes scan_everywhere)) e)"
proof -
  define es where "es = fst (search_new_loop_edges blind search_example scanned_nodes scan_everywhere [] ())"
  let ?p = "(sample_node, sample_node\<lparr>n_index := 1, n_x := 2\<rparr>)"
  note spec = loop_search_spec [OF surjective_pairing, of blind search_example scanned_nodes scan_everywhere "[]" "()", folded es_def]
  have valid: "valid_nodes scanned_nodes scan_everywhere = scanned_nodes"
    by (simp add: valid_nodes_def scanned_nodes_def scan_everywhere_def sample_node_def)
  have p: "?p \<in> set (search_pairs scanned_nodes)" by (force simp: search_pairs_def scanned_nodes_def)
  have pts: "scan_to_points sample_scan \<noteq> []" by (simp add: scan_to_points_def sample_beams)
  have reach: "within_reach search_example (fst ?p) (snd ?p)" by (simp add: within_reach_def search_example_def sample_node_def)
  have target: "search_target search_example scanned_nodes scan_everywhere (snd ?p) \<noteq> []"
    using pts by (simp add: search_target_def search_example_def scan_everywhere_def sample_node_def)
  have accepts: "search_accepts search_example r" if "attempt blind search_example scanned_nodes scan_everywhere (fst ?p) (snd ?p) r" for r
    using that normalize_angle_id [of 0]
    by (auto simp: attempt_def search_accepts_def blind_def search_example_def search_guess_def angle_diff_eq sample_node_def Let_def split: prod.splits)
  have "judged_pair blind search_example scanned_nodes scan_everywhere (edge_pair ` set es) ?p" using spec p unfolding valid by auto
  then have "edge_pair ` set es \<noteq> {}" using reach target accepts by (auto simp: judged_pair_def)
  then show ?thesis using spec unfolding Let_def es_def [symmetric] by auto
qed

end
