(* ===== verification/ScanReference.thy ===== *)
theory ScanReference
  imports Geometry
begin

text \<open>
  \<^verbatim>\<open>slam_gnss_2d/scan_matching/reference_provider\<close>: the points a new scan is matched against.  The local map keeps the
  last keyframes and gives their points around the latest one; the scan-to-scan provider keeps the points of the
  latest scan.  \<^verbatim>\<open>ReferenceProviderBase\<close> is the record of operations that the pose-graph builder calls.
\<close>

section \<open>The provider interface\<close>

type_synonym cloud = "vec2 list \<times> vec2 list"

record 'p provider_api =
  p_update :: "PoseNode \<Rightarrow> 'p \<Rightarrow> 'p"
  p_reference :: "'p \<Rightarrow> cloud option"
  p_sync :: "PoseNode list \<Rightarrow> 'p \<Rightarrow> 'p"
  p_invalidate :: "'p \<Rightarrow> 'p"

text \<open>The points of a keyframe with its normals: the stored ones, or computed from the scan.\<close>

definition keyframe_cloud :: "ScanData \<Rightarrow> vec2 list option \<Rightarrow> cloud" where
  "keyframe_cloud scan normals =
     (case normals of
        Some (n # ns) \<Rightarrow> (scan_to_points scan, n # ns)
      | _ \<Rightarrow> scan_to_points_and_normals scan)"

section \<open>local_map.cpp\<close>

record CachedKeyframe =
  kf_node :: PoseNode
  kf_pts :: "vec2 list"
  kf_normals :: "vec2 list"

record local_map =
  lm_window :: int
  lm_radius :: real
  lm_nodes :: "CachedKeyframe list"
  lm_last :: "PoseNode option"

definition LocalMapProvider :: "int \<Rightarrow> real \<Rightarrow> local_map" where
  "LocalMapProvider window radius = \<lparr>lm_window = window, lm_radius = radius, lm_nodes = [], lm_last = None\<rparr>"

definition lm_update :: "PoseNode \<Rightarrow> local_map \<Rightarrow> local_map" where
  "lm_update node p =
     (let p = (case n_scan node of
          None \<Rightarrow> p
        | Some scan \<Rightarrow>
            let kept = (if lm_window p \<le> int (length (lm_nodes p)) then tl (lm_nodes p) else lm_nodes p);
                (pts, normals) = keyframe_cloud scan (n_normals node)
            in p\<lparr>lm_nodes := kept @ [\<lparr>kf_node = node, kf_pts = pts, kf_normals = normals\<rparr>]\<rparr>)
      in p\<lparr>lm_last := Some node\<rparr>)"

definition lm_invalidate_cache :: "local_map \<Rightarrow> local_map" where
  "lm_invalidate_cache p = p"

definition take_pose :: "PoseNode \<Rightarrow> PoseNode \<Rightarrow> PoseNode" where
  "take_pose src dst = dst\<lparr>n_x := n_x src, n_y := n_y src, n_yaw := n_yaw src\<rparr>"

text \<open>The pose of the node with an index: by position when the indices are consecutive, else the last with the index.\<close>

definition is_sequential :: "PoseNode list \<Rightarrow> bool" where
  "is_sequential nodes \<longleftrightarrow> nodes \<noteq> [] \<and> n_index (hd nodes) = 0 \<and> n_index (last nodes) = int (length nodes) - 1"

definition lookup_node :: "PoseNode list \<Rightarrow> int \<Rightarrow> PoseNode option" where
  "lookup_node nodes idx =
     (if is_sequential nodes then
        (if 0 \<le> idx \<and> idx < int (length nodes) then Some (nodes ! nat idx) else None)
      else find (\<lambda>n. n_index n = idx) (rev nodes))"

definition lm_sync_poses :: "PoseNode list \<Rightarrow> local_map \<Rightarrow> local_map" where
  "lm_sync_poses nodes p =
     (if nodes = [] \<or> lm_nodes p = [] then p
      else p\<lparr>lm_nodes := map (\<lambda>kf. case lookup_node nodes (n_index (kf_node kf)) of
                 None \<Rightarrow> kf | Some n \<Rightarrow> kf\<lparr>kf_node := take_pose n (kf_node kf)\<rparr>) (lm_nodes p),
             lm_last := (case lm_last p of
                 None \<Rightarrow> None
               | Some l \<Rightarrow> (case lookup_node nodes (n_index l) of None \<Rightarrow> Some l | Some n \<Rightarrow> Some n))\<rparr>)"

definition kf_world :: "CachedKeyframe \<Rightarrow> (vec2 \<times> vec2) list" where
  "kf_world kf =
     (let n = kf_node kf;
          w_pts = points_local_to_world (kf_pts kf) (n_x n) (n_y n) (n_yaw n);
          w_normals = normals_local_to_world (kf_normals kf) (n_yaw n)
      in map (\<lambda>i. (w_pts ! i, if i < length w_normals then w_normals ! i else (0, 1))) [0..<length w_pts])"

definition lm_get_reference_pts_and_normals :: "local_map \<Rightarrow> cloud option" where
  "lm_get_reference_pts_and_normals p =
     (case lm_last p of
        None \<Rightarrow> None
      | Some lnode \<Rightarrow>
          if lm_nodes p = [] then None
          else
            let radius_sq = lm_radius p * lm_radius p;
                world = filter (\<lambda>((x, y), _). (x - n_x lnode) * (x - n_x lnode) + (y - n_y lnode) * (y - n_y lnode) \<le> radius_sq)
                  (concat (map kf_world (lm_nodes p)))
            in if world = [] then None
               else Some (points_world_to_local (map fst world) (n_x lnode) (n_y lnode) (n_yaw lnode),
                          normals_world_to_local (map snd world) (n_yaw lnode)))"

definition lm_get_reference_pts :: "local_map \<Rightarrow> vec2 list option" where
  "lm_get_reference_pts p = map_option fst (lm_get_reference_pts_and_normals p)"

definition local_map_api :: "local_map provider_api" where
  "local_map_api = \<lparr>p_update = lm_update, p_reference = lm_get_reference_pts_and_normals, p_sync = lm_sync_poses,
     p_invalidate = lm_invalidate_cache\<rparr>"

section \<open>scan_to_scan.cpp\<close>

text \<open>
  \<^verbatim>\<open>ScanToScanProvider\<close> does not override \<^verbatim>\<open>get_reference_pts_and_normals\<close>, which the base class answers with nothing.
\<close>

definition ss_update :: "PoseNode \<Rightarrow> vec2 list option \<Rightarrow> vec2 list option" where
  "ss_update node last_pts = (case n_scan node of None \<Rightarrow> last_pts | Some scan \<Rightarrow> Some (scan_to_points scan))"

definition ss_get_reference_pts :: "vec2 list option \<Rightarrow> vec2 list option" where
  "ss_get_reference_pts last_pts = last_pts"

definition base_get_reference_pts_and_normals :: "'p \<Rightarrow> cloud option" where
  "base_get_reference_pts_and_normals p = None"

definition scan_to_scan_api :: "vec2 list option provider_api" where
  "scan_to_scan_api = \<lparr>p_update = ss_update, p_reference = base_get_reference_pts_and_normals, p_sync = (\<lambda>_ p. p),
     p_invalidate = (\<lambda>p. p)\<rparr>"

end
