(* ===== verification/PoseGraph.thy ===== *)
theory PoseGraph
  imports ScanReference "HOL-Library.Multiset"
begin

text \<open>
  \<^verbatim>\<open>slam_gnss_2d/pose_graph\<close>: the builders that turn scans and odometry into pose nodes and edges.
  \<^verbatim>\<open>OdomOnlyBuilder\<close> uses the odometry alone; \<^verbatim>\<open>ScanMatchingBuilder\<close> corrects it by matching scans and links near
  keyframes; \<^verbatim>\<open>LoopClosureBuilder\<close> wraps it and closes loops.

  The scan matcher (\<^verbatim>\<open>ScanMatcherBase\<close>) and the reference provider are records of operations on their own states;
  the radius search of \<^verbatim>\<open>nanoflann\<close> and the eigenvalues of Eigen are parameters.  Logging and timing are left out.
\<close>

section \<open>Matrices and the matcher interface\<close>

fun diag3 :: "real \<Rightarrow> real \<Rightarrow> real \<Rightarrow> mat3" where
  "diag3 a b c = ((a, 0, 0), (0, b, 0), (0, 0, c))"

fun m00 :: "mat3 \<Rightarrow> real" where "m00 ((a, _, _), _, _) = a"
fun m11 :: "mat3 \<Rightarrow> real" where "m11 (_, (_, b, _), _) = b"
fun m22 :: "mat3 \<Rightarrow> real" where "m22 (_, _, (_, _, c)) = c"

fun set_diag :: "real \<Rightarrow> real \<Rightarrow> real \<Rightarrow> mat3 \<Rightarrow> mat3" where
  "set_diag a b c ((_, x, y), (x', _, z), (y', z', _)) = ((a, x, y), (x', b, z), (y', z', c))"

definition make_odom_information :: mat3 where
  "make_odom_information = diag3 100 100 50"

definition make_odom_fallback_information :: mat3 where
  "make_odom_fallback_information = diag3 10 10 5"

type_synonym match_request = "int \<times> OdomData"

record 'm matcher_api =
  set_target_cloud_with_normals :: "vec2 list \<Rightarrow> vec2 list \<Rightarrow> 'm \<Rightarrow> 'm"
  match_scan :: "ScanData \<Rightarrow> OdomData \<Rightarrow> 'm \<Rightarrow> MatchResult \<times> 'm"
  match_points :: "(vec2 list \<Rightarrow> OdomData \<Rightarrow> 'm \<Rightarrow> MatchResult \<times> 'm) option"
  supports_reusable_targets :: bool
  try_use_reusable_target :: "int \<Rightarrow> 'm \<Rightarrow> bool \<times> 'm"
  set_reusable_target_cloud_with_normals :: "int \<Rightarrow> vec2 list \<Rightarrow> vec2 list \<Rightarrow> 'm \<Rightarrow> 'm"
  match_reusable_targets :: "ScanData \<Rightarrow> match_request list \<Rightarrow> 'm \<Rightarrow> MatchResult list \<times> 'm"
  clear_reusable_targets :: "'m \<Rightarrow> 'm"

section \<open>odom_builder.cpp\<close>

record odom_builder =
  ob_min_translation :: real
  ob_min_rotation :: real
  ob_nodes :: "PoseNode list"
  ob_edges :: "PoseEdge list"
  ob_last_odom :: "OdomData option"

definition OdomOnlyBuilder :: "real \<Rightarrow> real \<Rightarrow> odom_builder" where
  "OdomOnlyBuilder min_translation min_rotation =
     \<lparr>ob_min_translation = min_translation, ob_min_rotation = min_rotation, ob_nodes = [], ob_edges = [],
      ob_last_odom = None\<rparr>"

text \<open>Whether the robot moved too little for a new keyframe; the motion in the frame of the last odometry pose.\<close>

definition moved_little :: "real \<Rightarrow> real \<Rightarrow> OdomData \<Rightarrow> OdomData \<Rightarrow> bool" where
  "moved_little min_translation min_rotation odom last_odom \<longleftrightarrow>
     hypot (o_x odom - o_x last_odom) (o_y odom - o_y last_odom) < min_translation \<and>
     \<bar>angle_diff (o_yaw odom) (o_yaw last_odom)\<bar> < min_rotation"

definition odom_motion :: "OdomData \<Rightarrow> OdomData \<Rightarrow> real \<times> real \<times> real" where
  "odom_motion odom last_odom =
     (let (dx, dy) = world_delta_to_local (o_x odom - o_x last_odom) (o_y odom - o_y last_odom) (o_yaw last_odom)
      in (dx, dy, angle_diff (o_yaw odom) (o_yaw last_odom)))"

definition next_node :: "PoseNode list \<Rightarrow> ScanData \<Rightarrow> vec2 list option \<Rightarrow> real \<times> real \<times> real \<Rightarrow> PoseNode" where
  "next_node nodes scan normals = (\<lambda>(dx, dy, dyaw).
     let prev = last nodes; (dx_world, dy_world) = local_delta_to_world dx dy (n_yaw prev)
     in \<lparr>n_index = int (length nodes), n_stamp = scan_stamp scan, n_x = n_x prev + dx_world, n_y = n_y prev + dy_world,
         n_yaw = normalize_angle (n_yaw prev + dyaw), n_scan = Some scan, n_patch = None, n_normals = normals\<rparr>)"

definition first_node :: "ScanData \<Rightarrow> vec2 list option \<Rightarrow> OdomData \<Rightarrow> PoseNode" where
  "first_node scan normals odom =
     \<lparr>n_index = 0, n_stamp = scan_stamp scan, n_x = o_x odom, n_y = o_y odom, n_yaw = o_yaw odom, n_scan = Some scan,
      n_patch = None, n_normals = normals\<rparr>"

definition ob_add_scan :: "ScanData option \<Rightarrow> OdomData \<Rightarrow> odom_builder \<Rightarrow> PoseNode option \<times> odom_builder" where
  "ob_add_scan scan_ptr odom b =
     (case scan_ptr of
        None \<Rightarrow> (None, b)
      | Some scan \<Rightarrow>
          if ob_nodes b = [] then
            let node = first_node scan None odom
            in (Some node, b\<lparr>ob_nodes := [node], ob_last_odom := Some odom\<rparr>)
          else case ob_last_odom b of
            None \<Rightarrow> (None, b)
          | Some last_odom \<Rightarrow>
              if moved_little (ob_min_translation b) (ob_min_rotation b) odom last_odom then (None, b)
              else
                let (dx, dy, dyaw) = odom_motion odom last_odom;
                    node = next_node (ob_nodes b) scan None (dx, dy, dyaw);
                    edge = \<lparr>e_from = n_index (last (ob_nodes b)), e_to = n_index node, e_dx = dx, e_dy = dy, e_dyaw = dyaw,
                            e_information = make_odom_information, e_score = 0, e_fallback = False\<rparr>
                in (Some node, b\<lparr>ob_nodes := ob_nodes b @ [node], ob_edges := ob_edges b @ [edge],
                                 ob_last_odom := Some odom\<rparr>))"

definition ob_reset :: "odom_builder \<Rightarrow> odom_builder" where
  "ob_reset b = b\<lparr>ob_nodes := [], ob_edges := [], ob_last_odom := None\<rparr>"

definition ob_replace_nodes :: "PoseNode list \<Rightarrow> odom_builder \<Rightarrow> odom_builder" where
  "ob_replace_nodes nodes b = b\<lparr>ob_nodes := nodes\<rparr>"

section \<open>scan_matching_builder.cpp\<close>

record OdomFusionConfig =
  information_x :: real
  information_y :: real
  information_yaw :: real

record sm_config =
  min_translation :: real
  min_rotation :: real
  max_translation_drift :: real
  enable_near_keyframe_links :: bool
  near_link_buffer_size :: int
  near_link_max_distance :: real
  near_link_min_index_diff :: int
  near_link_max_links_per_node :: int
  near_link_max_translation_drift :: real
  near_link_max_rotation_drift_rad :: real
  near_link_min_eigenvalue :: real
  odom_fusion :: OdomFusionConfig

record ('m, 'p) sm_builder =
  sm_cfg :: sm_config
  sm_matcher :: 'm
  sm_provider :: 'p
  sm_nodes :: "PoseNode list"
  sm_edges :: "PoseEdge list"
  sm_last_odom :: "OdomData option"
  failure_streak :: int
  near_link_success_count :: int
  icp_attempt_count :: int
  icp_success_count :: int
  odom_fallback_count :: int

definition ScanMatchingBuilder :: "sm_config \<Rightarrow> 'm \<Rightarrow> 'p \<Rightarrow> ('m, 'p) sm_builder" where
  "ScanMatchingBuilder cfg matcher provider =
     \<lparr>sm_cfg = cfg, sm_matcher = matcher, sm_provider = provider, sm_nodes = [], sm_edges = [], sm_last_odom = None,
      failure_streak = 0, near_link_success_count = 0, icp_attempt_count = 0, icp_success_count = 0,
      odom_fallback_count = 0\<rparr>"

text \<open>One axis of \<^verbatim>\<open>fuse_with_odometry\<close>: \<open>delta\<close> is the difference of the odometry value from the matched one.\<close>

definition fuse_axis :: "real \<Rightarrow> real \<Rightarrow> real \<Rightarrow> real \<Rightarrow> real \<times> real" where
  "fuse_axis odom_info delta value match_info =
     (if odom_info \<le> 0 then (value, match_info)
      else let total = match_info + odom_info in (value + odom_info / total * delta, total))"

definition fuse_with_odometry ::
  "OdomFusionConfig \<Rightarrow> real \<times> real \<times> real \<Rightarrow> real \<times> real \<times> real \<Rightarrow> mat3 \<Rightarrow> (real \<times> real \<times> real) \<times> mat3" where
  "fuse_with_odometry cfg = (\<lambda>(odom_dx, odom_dy, odom_dyaw) (dx, dy, dyaw) information.
     let (dx', ix) = fuse_axis (information_x cfg) (odom_dx - dx) dx (m00 information);
         (dy', iy) = fuse_axis (information_y cfg) (odom_dy - dy) dy (m11 information);
         (dyaw', iyaw) = fuse_axis (information_yaw cfg) (angle_diff odom_dyaw dyaw) dyaw (m22 information)
     in ((dx', dy', if 0 < information_yaw cfg then normalize_angle dyaw' else dyaw), set_diag ix iy iyaw information))"

text \<open>What a match gives for the edge: the motion, its information, the score, and the counters.\<close>

definition accept_match ::
  "sm_config \<Rightarrow> real \<times> real \<times> real \<Rightarrow> MatchResult \<Rightarrow> (real \<times> real \<times> real) \<times> mat3" where
  "accept_match cfg = (\<lambda>(dx_local, dy_local, dyaw_delta) result.
     let straight = \<bar>dyaw_delta\<bar> < 0.05 \<and> \<bar>m_dyaw result\<bar> < 0.05;
         slip = straight \<and> 0 < max_translation_drift cfg \<and> max_translation_drift cfg < \<bar>m_dx result - dx_local\<bar>;
         info = m_information result;
         info' = (if slip then set_diag (min (m00 info) 20) (m11 info) (m22 info) info else info)
     in fuse_with_odometry (odom_fusion cfg) (dx_local, dy_local, dyaw_delta)
          (if slip then dx_local else m_dx result, m_dy result, m_dyaw result) info')"

definition match_sequential ::
  "'m matcher_api \<Rightarrow> 'p provider_api \<Rightarrow> ScanData \<Rightarrow> real \<times> real \<times> real \<Rightarrow> ('m, 'p) sm_builder \<Rightarrow>
     (real \<times> real \<times> real) \<times> mat3 \<times> real \<times> bool \<times> ('m, 'p) sm_builder" where
  "match_sequential ma pa scan motion b =
     (case p_reference pa (sm_provider b) of
        None \<Rightarrow> (motion, make_odom_information, 0, True, b)
      | Some (pts, normals) \<Rightarrow>
          let m = set_target_cloud_with_normals ma pts normals (sm_matcher b);
              (dx, dy, dyaw) = motion;
              guess = \<lparr>o_stamp = scan_stamp scan, o_x = dx, o_y = dy, o_yaw = dyaw\<rparr>;
              (result, m) = match_scan ma scan guess m;
              b = b\<lparr>sm_matcher := m, icp_attempt_count := icp_attempt_count b + 1\<rparr>
          in if \<not> m_converged result then
               (motion, make_odom_fallback_information, 0, True,
                b\<lparr>failure_streak := failure_streak b + 1, odom_fallback_count := odom_fallback_count b + 1\<rparr>)
             else
               let (motion', info) = accept_match (sm_cfg b) motion result
               in (motion', info, m_score result, False,
                   b\<lparr>failure_streak := 0, icp_success_count := icp_success_count b + 1\<rparr>))"

subsection \<open>Near-keyframe links\<close>

definition near_candidates :: "sm_config \<Rightarrow> PoseNode list \<Rightarrow> PoseNode \<Rightarrow> int list" where
  "near_candidates cfg nodes current =
     (let curr_idx = n_index current;
          min_idx = max 0 (curr_idx - near_link_buffer_size cfg);
          max_idx = curr_idx - near_link_min_index_diff cfg;
          dist = (\<lambda>j. hypot (n_x current - n_x (nodes ! nat j)) (n_y current - n_y (nodes ! nat j)))
      in sort_key dist (filter (\<lambda>j. 0 \<le> j \<and> j < int (length nodes) \<and> n_scan (nodes ! nat j) \<noteq> None \<and>
           dist j \<le> near_link_max_distance cfg) [min_idx..max_idx]))"

definition build_target_cloud :: "PoseNode \<Rightarrow> cloud option" where
  "build_target_cloud cand =
     (case n_scan cand of
        None \<Rightarrow> None
      | Some scan \<Rightarrow>
          let (pts, normals) = keyframe_cloud scan (n_normals cand)
          in if pts = [] \<or> normals = [] then None else Some (pts, normals))"

definition ensure_reusable_target :: "'m matcher_api \<Rightarrow> PoseNode \<Rightarrow> 'm \<Rightarrow> bool \<times> 'm" where
  "ensure_reusable_target ma cand m =
     (case try_use_reusable_target ma (n_index cand) m of
        (True, m) \<Rightarrow> (True, m)
      | (False, m) \<Rightarrow>
          (case build_target_cloud cand of
             None \<Rightarrow> (False, m)
           | Some (pts, normals) \<Rightarrow> (True, set_reusable_target_cloud_with_normals ma (n_index cand) pts normals m)))"

definition link_guess :: "PoseNode \<Rightarrow> PoseNode \<Rightarrow> real \<Rightarrow> OdomData" where
  "link_guess current cand stamp =
     (let (dx_l, dy_l) = world_delta_to_local (n_x current - n_x cand) (n_y current - n_y cand) (n_yaw cand)
      in \<lparr>o_stamp = stamp, o_x = dx_l, o_y = dy_l, o_yaw = angle_diff (n_yaw current) (n_yaw cand)\<rparr>)"

text \<open>The requests of one batch, with the nodes they are for.\<close>

definition batch_step ::
  "'m matcher_api \<Rightarrow> PoseNode \<Rightarrow> ScanData \<Rightarrow> PoseNode \<Rightarrow> (PoseNode \<times> OdomData) list \<times> 'm \<Rightarrow> (PoseNode \<times> OdomData) list \<times> 'm" where
  "batch_step ma current scan cand = (\<lambda>(requests, m).
     let request = (cand, link_guess current cand (scan_stamp scan))
     in if supports_reusable_targets ma then
          (case ensure_reusable_target ma cand m of
             (False, m) \<Rightarrow> (requests, m)
           | (True, m) \<Rightarrow> (requests @ [request], m))
        else
          (case build_target_cloud cand of
             None \<Rightarrow> (requests, m)
           | Some (pts, normals) \<Rightarrow> (requests @ [request], set_target_cloud_with_normals ma pts normals m)))"

definition match_batch ::
  "'m matcher_api \<Rightarrow> ScanData \<Rightarrow> (PoseNode \<times> OdomData) list \<Rightarrow> 'm \<Rightarrow> MatchResult list \<times> 'm" where
  "match_batch ma scan requests m =
     (if supports_reusable_targets ma then
        match_reusable_targets ma scan (map (\<lambda>(cand, guess). (n_index cand, guess)) requests) m
      else case requests of
        [] \<Rightarrow> ([], m)
      | (cand, guess) # _ \<Rightarrow> (case match_scan ma scan guess m of (result, m) \<Rightarrow> ([result], m)))"

definition link_accepted :: "sm_config \<Rightarrow> OdomData \<Rightarrow> MatchResult \<Rightarrow> bool" where
  "link_accepted cfg guess result \<longleftrightarrow>
     m_converged result \<and>
     hypot (m_dx result - o_x guess) (m_dy result - o_y guess) \<le> near_link_max_translation_drift cfg \<and>
     \<bar>angle_diff (m_dyaw result) (o_yaw guess)\<bar> \<le> near_link_max_rotation_drift_rad cfg \<and>
     \<not> (m11 (m_information result) < near_link_min_eigenvalue cfg \<and> m22 (m_information result) < near_link_min_eigenvalue cfg)"

definition link_edge :: "PoseNode \<Rightarrow> PoseNode \<Rightarrow> MatchResult \<Rightarrow> PoseEdge" where
  "link_edge cand current result =
     (let info = m_information result
      in \<lparr>e_from = n_index cand, e_to = n_index current, e_dx = m_dx result, e_dy = m_dy result, e_dyaw = m_dyaw result,
          e_information = set_diag (max (m00 info) 10) (m11 info) (m22 info) info, e_score = m_score result,
          e_fallback = False\<rparr>)"

fun judge_links ::
  "sm_config \<Rightarrow> PoseNode \<Rightarrow> ((PoseNode \<times> OdomData) \<times> MatchResult) list \<Rightarrow> PoseEdge list \<Rightarrow> PoseEdge list" where
  "judge_links cfg current [] added = added"
| "judge_links cfg current (((cand, guess), result) # rest) added =
     (if int (length added) < near_link_max_links_per_node cfg then
        judge_links cfg current rest
          (if link_accepted cfg guess result then added @ [link_edge cand current result] else added)
      else added)"

definition kMaxBatch :: nat where "kMaxBatch = 6"

definition batch_size :: "'m matcher_api \<Rightarrow> sm_config \<Rightarrow> nat \<Rightarrow> nat \<Rightarrow> nat" where
  "batch_size ma cfg added remaining =
     (if supports_reusable_targets ma
      then min (nat (near_link_max_links_per_node cfg - int added)) (min kMaxBatch remaining) else 1)"

function near_loop ::
  "'m matcher_api \<Rightarrow> sm_config \<Rightarrow> PoseNode list \<Rightarrow> PoseNode \<Rightarrow> ScanData \<Rightarrow> int list \<Rightarrow> PoseEdge list \<Rightarrow> 'm \<Rightarrow> PoseEdge list \<times> 'm" where
  "near_loop ma cfg nodes current scan candidates added m =
     (if int (length added) < near_link_max_links_per_node cfg \<and> candidates \<noteq> [] then
        let size = batch_size ma cfg (length added) (length candidates);
            (requests, m) = fold (\<lambda>j. batch_step ma current scan (nodes ! nat j)) (take size candidates) ([], m);
            (results, m) = match_batch ma scan requests m
        in near_loop ma cfg nodes current scan (drop size candidates) (judge_links cfg current (zip requests results) added) m
      else (added, m))"
  by pat_completeness auto

termination
proof (relation "measure (\<lambda>(ma, cfg, nodes, current, scan, candidates, added, m). length candidates)", goal_cases)
  case (2 ma cfg nodes current scan candidates added m)
  then show ?case by (auto simp: batch_size_def kMaxBatch_def)
qed simp

declare near_loop.simps [simp del]

definition add_near_keyframe_links ::
  "'m matcher_api \<Rightarrow> PoseNode \<Rightarrow> ('m, 'p) sm_builder \<Rightarrow> ('m, 'p) sm_builder" where
  "add_near_keyframe_links ma current b =
     (case n_scan current of
        None \<Rightarrow> b
      | Some scan \<Rightarrow>
          let (added, m) = near_loop ma (sm_cfg b) (sm_nodes b) current scan
                (near_candidates (sm_cfg b) (sm_nodes b) current) [] (sm_matcher b)
          in b\<lparr>sm_matcher := m, sm_edges := sm_edges b @ added,
               near_link_success_count := near_link_success_count b + int (length added)\<rparr>)"

subsection \<open>The builder\<close>

definition sm_add_scan ::
  "'m matcher_api \<Rightarrow> 'p provider_api \<Rightarrow> ScanData option \<Rightarrow> OdomData \<Rightarrow> ('m, 'p) sm_builder \<Rightarrow>
     PoseNode option \<times> ('m, 'p) sm_builder" where
  "sm_add_scan ma pa scan_ptr odom b =
     (case scan_ptr of
        None \<Rightarrow> (None, b)
      | Some scan \<Rightarrow>
          let normals = Some (snd (scan_to_points_and_normals scan)) in
          if sm_nodes b = [] then
            let node = first_node scan normals odom
            in (Some node, b\<lparr>sm_nodes := [node], sm_provider := p_update pa node (sm_provider b), sm_last_odom := Some odom\<rparr>)
          else case sm_last_odom b of
            None \<Rightarrow> (None, b)
          | Some last_odom \<Rightarrow>
              if moved_little (min_translation (sm_cfg b)) (min_rotation (sm_cfg b)) odom last_odom then (None, b)
              else
                let (motion, info, score, fallback, b) = match_sequential ma pa scan (odom_motion odom last_odom) b;
                    node = next_node (sm_nodes b) scan normals motion;
                    edge = \<lparr>e_from = n_index (last (sm_nodes b)), e_to = n_index node, e_dx = fst motion,
                            e_dy = fst (snd motion), e_dyaw = snd (snd motion), e_information = info, e_score = score,
                            e_fallback = fallback\<rparr>;
                    b = b\<lparr>sm_nodes := sm_nodes b @ [node], sm_provider := p_update pa node (sm_provider b),
                          sm_edges := sm_edges b @ [edge]\<rparr>;
                    b = (if enable_near_keyframe_links (sm_cfg b) \<and> 0 \<le> near_link_min_index_diff (sm_cfg b) \<and>
                            near_link_min_index_diff (sm_cfg b) < int (length (sm_nodes b))
                         then add_near_keyframe_links ma node b else b)
                in (Some node, b\<lparr>sm_last_odom := Some odom\<rparr>))"

definition sm_reset :: "'m matcher_api \<Rightarrow> ('m, 'p) sm_builder \<Rightarrow> ('m, 'p) sm_builder" where
  "sm_reset ma b = b\<lparr>sm_matcher := clear_reusable_targets ma (sm_matcher b), sm_nodes := [], sm_edges := [],
     sm_last_odom := None, failure_streak := 0, near_link_success_count := 0\<rparr>"

definition sm_replace_nodes :: "'p provider_api \<Rightarrow> PoseNode list \<Rightarrow> ('m, 'p) sm_builder \<Rightarrow> ('m, 'p) sm_builder" where
  "sm_replace_nodes pa nodes b =
     b\<lparr>sm_nodes := nodes, sm_provider := p_invalidate pa (p_sync pa nodes (sm_provider b))\<rparr>"

section \<open>loop_closure_builder.cpp\<close>

record ('m, 'p, 'l) lc_env =
  env_matcher :: "'m matcher_api"
  env_provider :: "'p provider_api"
  env_loop_matcher :: "'l matcher_api"
  radius_search :: "vec2 list \<Rightarrow> vec2 \<Rightarrow> real \<Rightarrow> nat list"
  min_eigenvalue :: "mat3 \<Rightarrow> real option"

record lc_config =
  search_radius :: real
  min_node_gap :: int
  max_failure_streak :: int
  max_loop_dyaw_rad :: real
  crossing_reject_rad :: real
  submap_radius :: real
  max_score :: real

text \<open>
  The k-d tree is the list of positions it was built from; \<open>lc_dirty\<close> marks it outdated.
\<close>

record ('m, 'p, 'l) lc_builder =
  lc_cfg :: lc_config
  lc_inner :: "('m, 'p) sm_builder"
  lc_matcher :: 'l
  loop_edges :: "PoseEdge list"
  loop_failure_streak :: int
  loop_just_closed_flag :: bool
  loop_attempt_count :: int
  loop_success_count :: int
  all_nodes_cache :: "PoseNode list"
  lc_tree :: "vec2 list option"
  lc_dirty :: bool

definition LoopClosureBuilder ::
  "('m, 'p) sm_builder \<Rightarrow> 'l \<Rightarrow> real \<Rightarrow> int \<Rightarrow> int \<Rightarrow> real \<Rightarrow> real \<Rightarrow> real \<Rightarrow> real \<Rightarrow> ('m, 'p, 'l) lc_builder" where
  "LoopClosureBuilder inner matcher search_rad gap max_streak max_dyaw_deg crossing_deg submap_rad score =
     \<lparr>lc_cfg = \<lparr>search_radius = search_rad, min_node_gap = gap, max_failure_streak = max_streak,
        max_loop_dyaw_rad = max_dyaw_deg * pi / 180,
        crossing_reject_rad = (if 0 < crossing_deg then crossing_deg * pi / 180 else 0),
        submap_radius = submap_rad, max_score = score\<rparr>,
      lc_inner = inner, lc_matcher = matcher, loop_edges = [], loop_failure_streak = 0, loop_just_closed_flag = False,
      loop_attempt_count = 0, loop_success_count = 0, all_nodes_cache = [], lc_tree = None, lc_dirty = True\<rparr>"

abbreviation node_xy :: "PoseNode \<Rightarrow> vec2" where
  "node_xy n \<equiv> (n_x n, n_y n)"

definition ensure_node_kdtree :: "('m, 'p, 'l) lc_builder \<Rightarrow> ('m, 'p, 'l) lc_builder" where
  "ensure_node_kdtree b =
     (if \<not> lc_dirty b \<and> lc_tree b \<noteq> None then b
      else if all_nodes_cache b = [] then b\<lparr>lc_tree := None, lc_dirty := False\<rparr>
      else b\<lparr>lc_tree := Some (map node_xy (all_nodes_cache b)), lc_dirty := False\<rparr>)"

definition find_loop_candidates ::
  "('m, 'p, 'l) lc_env \<Rightarrow> PoseNode \<Rightarrow> ('m, 'p, 'l) lc_builder \<Rightarrow> PoseNode list \<times> ('m, 'p, 'l) lc_builder" where
  "find_loop_candidates env node b =
     (if all_nodes_cache b = [] then ([], b)
      else
        let b = ensure_node_kdtree b
        in case lc_tree b of
             None \<Rightarrow> ([], b)
           | Some tree \<Rightarrow>
               let cache = all_nodes_cache b;
                   matches = radius_search env tree (node_xy node) (search_radius (lc_cfg b) * search_radius (lc_cfg b));
                   matched = filter (\<lambda>i. n_scan (cache ! i) \<noteq> None \<and> min_node_gap (lc_cfg b) \<le> n_index node - n_index (cache ! i)) matches
               in (map ((!) cache) (sort matched), b))"

definition node_world_cloud :: "PoseNode \<Rightarrow> ScanData \<Rightarrow> cloud" where
  "node_world_cloud n scan =
     (let (pts, normals) = keyframe_cloud scan (n_normals n)
      in (points_local_to_world pts (n_x n) (n_y n) (n_yaw n), normals_local_to_world normals (n_yaw n)))"

definition scan_cloud :: "PoseNode \<Rightarrow> cloud" where
  "scan_cloud n = (case n_scan n of None \<Rightarrow> ([], []) | Some scan \<Rightarrow> scan_to_points_and_normals scan)"

definition build_candidate_submap_with_normals ::
  "('m, 'p, 'l) lc_env \<Rightarrow> PoseNode \<Rightarrow> ('m, 'p, 'l) lc_builder \<Rightarrow> cloud \<times> ('m, 'p, 'l) lc_builder" where
  "build_candidate_submap_with_normals env candidate b =
     (if submap_radius (lc_cfg b) \<le> 0 then
        (case n_scan candidate of None \<Rightarrow> ([], []) | Some scan \<Rightarrow> keyframe_cloud scan (n_normals candidate), b)
      else
        let b = ensure_node_kdtree b
        in case lc_tree b of
             None \<Rightarrow> (scan_cloud candidate, b)
           | Some tree \<Rightarrow>
               let cache = all_nodes_cache b;
                   matches = radius_search env tree (node_xy candidate) (submap_radius (lc_cfg b) * submap_radius (lc_cfg b));
                   matched = sort (filter (\<lambda>i. n_scan (cache ! i) \<noteq> None) matches);
                   clouds = map (\<lambda>i. node_world_cloud (cache ! i) (the (n_scan (cache ! i)))) matched;
                   world_pts = concat (map fst clouds); world_normals = concat (map snd clouds)
               in if world_pts = [] then (scan_cloud candidate, b)
                  else ((points_world_to_local world_pts (n_x candidate) (n_y candidate) (n_yaw candidate),
                         normals_world_to_local world_normals (n_yaw candidate)), b))"

definition build_query_submap :: "PoseNode \<Rightarrow> nat \<Rightarrow> PoseNode list \<Rightarrow> vec2 list" where
  "build_query_submap node query_window cache =
     (let recent = drop (length cache - query_window) cache;
          world_pts = concat (map (\<lambda>n. case n_scan n of
              None \<Rightarrow> []
            | Some scan \<Rightarrow> points_local_to_world (scan_to_points scan) (n_x n) (n_y n) (n_yaw n)) recent)
      in if world_pts = [] then scan_ptr_to_points (n_scan node)
         else points_world_to_local world_pts (n_x node) (n_y node) (n_yaw node))"

definition loop_gates :: "('m, 'p, 'l) lc_env \<Rightarrow> lc_config \<Rightarrow> OdomData \<Rightarrow> MatchResult \<Rightarrow> bool" where
  "loop_gates env cfg guess result \<longleftrightarrow>
     hypot (m_dx result - o_x guess) (m_dy result - o_y guess) \<le> 1 \<and>
     \<bar>m_dyaw result\<bar> \<le> max_loop_dyaw_rad cfg \<and>
     \<not> (0 < crossing_reject_rad cfg \<and> crossing_reject_rad cfg \<le> \<bar>m_dyaw result\<bar> \<and>
        \<bar>m_dyaw result\<bar> \<le> pi - crossing_reject_rad cfg) \<and>
     \<not> (0 < max_score cfg \<and> max_score cfg < m_score result) \<and>
     (case min_eigenvalue env (m_information result) of Some l \<Rightarrow> 5 \<le> l | None \<Rightarrow> True)"

definition loop_edge :: "PoseNode \<Rightarrow> PoseNode \<Rightarrow> MatchResult \<Rightarrow> PoseEdge" where
  "loop_edge candidate node result =
     \<lparr>e_from = n_index candidate, e_to = n_index node, e_dx = m_dx result, e_dy = m_dy result, e_dyaw = m_dyaw result,
      e_information = m_information result, e_score = m_score result, e_fallback = False\<rparr>"

definition match_loop ::
  "('m, 'p, 'l) lc_env \<Rightarrow> PoseNode \<Rightarrow> PoseNode list \<Rightarrow> OdomData \<Rightarrow> 'l \<Rightarrow> MatchResult \<times> 'l" where
  "match_loop env node cache guess l =
     (case match_points (env_loop_matcher env) of
        Some match \<Rightarrow> match (build_query_submap node 5 cache) guess l
      | None \<Rightarrow> match_scan (env_loop_matcher env) (the (n_scan node)) guess l)"

definition try_add_loop_edge ::
  "('m, 'p, 'l) lc_env \<Rightarrow> PoseNode \<Rightarrow> PoseNode \<Rightarrow> ('m, 'p, 'l) lc_builder \<Rightarrow> bool \<times> ('m, 'p, 'l) lc_builder" where
  "try_add_loop_edge env node candidate b =
     (if list_ex (\<lambda>e. e_from e = n_index candidate) (loop_edges b) then (False, b)
      else
        let ((src_pts, src_normals), b) = build_candidate_submap_with_normals env candidate b
        in if src_pts = [] then (False, b)
           else
             let guess = link_guess node candidate (n_stamp node);
                 l = set_target_cloud_with_normals (env_loop_matcher env) src_pts src_normals (lc_matcher b);
                 (result, l) = match_loop env node (all_nodes_cache b) guess l;
                 b = b\<lparr>loop_attempt_count := loop_attempt_count b + 1, lc_matcher := l\<rparr>
             in if \<not> m_converged result then
                  let streak = loop_failure_streak b + 1
                  in (False, b\<lparr>loop_failure_streak := (if max_failure_streak (lc_cfg b) \<le> streak then 0 else streak)\<rparr>)
                else if \<not> loop_gates env (lc_cfg b) guess result then (False, b)
                else (True, b\<lparr>loop_failure_streak := 0, loop_success_count := loop_success_count b + 1,
                              loop_edges := loop_edges b @ [loop_edge candidate node result]\<rparr>))"

definition lc_add_scan ::
  "('m, 'p, 'l) lc_env \<Rightarrow> ScanData option \<Rightarrow> OdomData \<Rightarrow> ('m, 'p, 'l) lc_builder \<Rightarrow>
     PoseNode option \<times> ('m, 'p, 'l) lc_builder" where
  "lc_add_scan env scan odom b =
     (case sm_add_scan (env_matcher env) (env_provider env) scan odom (lc_inner b) of
        (None, inner) \<Rightarrow> (None, b\<lparr>lc_inner := inner\<rparr>)
      | (Some node, inner) \<Rightarrow>
          let b = b\<lparr>lc_inner := inner, all_nodes_cache := all_nodes_cache b @ [node], lc_dirty := True,
                    loop_just_closed_flag := False\<rparr>;
              (candidates, b) = find_loop_candidates env node b;
              (added, b) = fold (\<lambda>candidate (n, b). case try_add_loop_edge env node candidate b of
                  (ok, b) \<Rightarrow> (if ok then n + 1 else n, b)) candidates (0 :: int, b)
          in (Some node, if 0 < added then b\<lparr>loop_just_closed_flag := True\<rparr> else b))"

definition lc_get_edges :: "('m, 'p, 'l) lc_builder \<Rightarrow> PoseEdge list" where
  "lc_get_edges b = sm_edges (lc_inner b) @ loop_edges b"

definition lc_get_nodes :: "('m, 'p, 'l) lc_builder \<Rightarrow> PoseNode list" where
  "lc_get_nodes b = sm_nodes (lc_inner b)"

definition lc_reset :: "('m, 'p, 'l) lc_env \<Rightarrow> ('m, 'p, 'l) lc_builder \<Rightarrow> ('m, 'p, 'l) lc_builder" where
  "lc_reset env b = b\<lparr>lc_inner := sm_reset (env_matcher env) (lc_inner b), loop_edges := [], loop_failure_streak := 0,
     loop_just_closed_flag := False, loop_attempt_count := 0, loop_success_count := 0, all_nodes_cache := [], lc_dirty := True\<rparr>"

definition loop_just_closed :: "('m, 'p, 'l) lc_builder \<Rightarrow> bool \<times> ('m, 'p, 'l) lc_builder" where
  "loop_just_closed b = (loop_just_closed_flag b, b\<lparr>loop_just_closed_flag := False\<rparr>)"

definition lc_replace_nodes ::
  "('m, 'p, 'l) lc_env \<Rightarrow> PoseNode list \<Rightarrow> ('m, 'p, 'l) lc_builder \<Rightarrow> ('m, 'p, 'l) lc_builder" where
  "lc_replace_nodes env nodes b =
     b\<lparr>lc_inner := sm_replace_nodes (env_provider env) nodes (lc_inner b),
       all_nodes_cache := map (\<lambda>n. case find (\<lambda>m. n_index m = n_index n) (rev nodes) of
           None \<Rightarrow> n | Some m \<Rightarrow> take_pose m n) (all_nodes_cache b),
       lc_dirty := True\<rparr>"

end
