(* ===== verification/PoseGraphProps.thy ===== *)
theory PoseGraphProps
  imports PoseGraph
begin

text \<open>
  What the pose-graph builders promise: the interface \<^verbatim>\<open>PoseGraphBuilderBase\<close> as a locale, interpreted for the
  odometry-only builder and for the loop-closure builder around the scan-matching builder, with the shape of the
  edges each keyframe adds.
\<close>

section \<open>Near-keyframe links\<close>

definition is_request :: "PoseNode \<Rightarrow> ScanData \<Rightarrow> PoseNode set \<Rightarrow> PoseNode \<times> OdomData \<Rightarrow> bool" where
  "is_request current scan cands = (\<lambda>(cand, guess). cand \<in> cands \<and> guess = link_guess current cand (scan_stamp scan))"

lemma batch_step_requests:
  "set (fst (batch_step ma current scan cand (rs, m))) \<subseteq> insert (cand, link_guess current cand (scan_stamp scan)) (set rs)"
  by (auto simp: batch_step_def Let_def split: prod.splits bool.splits option.splits if_splits)

lemma batch_requests:
  assumes "\<forall>r \<in> set rs. is_request current scan A r" and "\<forall>j \<in> set js. nodes ! nat j \<in> A"
  shows "\<forall>r \<in> set (fst (fold (\<lambda>j. batch_step ma current scan (nodes ! nat j)) js (rs, m))). is_request current scan A r"
  using assms
proof (induction js arbitrary: rs m)
  case (Cons j js)
  obtain rs' m' where s: "batch_step ma current scan (nodes ! nat j) (rs, m) = (rs', m')" by fastforce
  with batch_step_requests [of ma current scan "nodes ! nat j" rs m] Cons.prems
  have "\<forall>r \<in> set rs'. is_request current scan A r" by (auto simp: is_request_def)
  with Cons.IH [of rs' m'] Cons.prems show ?case by (simp add: s)
qed simp

definition is_link :: "sm_config \<Rightarrow> PoseNode \<Rightarrow> ScanData \<Rightarrow> PoseNode set \<Rightarrow> PoseEdge \<Rightarrow> bool" where
  "is_link cfg current scan cands e \<longleftrightarrow>
     (\<exists>cand result. cand \<in> cands \<and> link_accepted cfg (link_guess current cand (scan_stamp scan)) result \<and>
       e = link_edge cand current result)"

lemma judge_links_links:
  assumes "\<forall>e \<in> set added. is_link cfg current scan A e" and "\<forall>(r, _) \<in> set rs. is_request current scan A r"
  shows "\<forall>e \<in> set (judge_links cfg current rs added). is_link cfg current scan A e"
  using assms
proof (induction rs arbitrary: added)
  case (Cons x rs)
  obtain cand guess result where x: "x = ((cand, guess), result)" by (metis surj_pair)
  let ?added = "if link_accepted cfg guess result then added @ [link_edge cand current result] else added"
  from Cons.prems(2) have rq: "is_request current scan A (cand, guess)" by (simp add: x)
  have "\<forall>e \<in> set ?added. is_link cfg current scan A e"
  proof (cases "link_accepted cfg guess result")
    case True
    with rq have "is_link cfg current scan A (link_edge cand current result)"
      unfolding is_link_def is_request_def by blast
    with True Cons.prems(1) show ?thesis by simp
  qed (use Cons.prems(1) in simp)
  from Cons.IH [OF this] Cons.prems show ?case by (simp add: x)
qed simp

lemma judge_links_length:
  "int (length added) \<le> max 0 (near_link_max_links_per_node cfg) \<Longrightarrow>
     int (length (judge_links cfg current rs added)) \<le> max 0 (near_link_max_links_per_node cfg)"
  by (induction cfg current rs added rule: judge_links.induct) auto

lemma near_loop_links:
  assumes "\<forall>e \<in> set added. is_link cfg current scan A e" and "\<forall>j \<in> set cands. nodes ! nat j \<in> A"
    and "int (length added) \<le> max 0 (near_link_max_links_per_node cfg)"
  shows "(\<forall>e \<in> set (fst (near_loop ma cfg nodes current scan cands added m)). is_link cfg current scan A e) \<and>
    int (length (fst (near_loop ma cfg nodes current scan cands added m))) \<le> max 0 (near_link_max_links_per_node cfg)"
  using assms
proof (induction ma cfg nodes current scan cands added m rule: near_loop.induct)
  case (1 ma cfg nodes current scan cands added m)
  show ?case
  proof (cases "int (length added) < near_link_max_links_per_node cfg \<and> cands \<noteq> []")
    case True
    let ?size = "batch_size ma cfg (length added) (length cands)"
    obtain requests m1 where q: "fold (\<lambda>j. batch_step ma current scan (nodes ! nat j)) (take ?size cands) ([], m) = (requests, m1)"
      by fastforce
    obtain results m2 where r: "match_batch ma scan requests m1 = (results, m2)" by fastforce
    have "\<forall>r \<in> set (fst (fold (\<lambda>j. batch_step ma current scan (nodes ! nat j)) (take ?size cands) ([], m))). is_request current scan A r"
      using "1.prems"(2) by (intro batch_requests) (auto dest: in_set_takeD)
    then have "\<forall>(r, _) \<in> set (zip requests results). is_request current scan A r"
      by (auto simp: q dest: set_zip_leftD)
    note links = judge_links_links [OF "1.prems"(1) this] and len = judge_links_length [OF "1.prems"(3), of current "zip requests results"]
    from "1.IH" [OF True refl q [symmetric] refl r [symmetric] refl links _ len] "1.prems"(2)
    show ?thesis unfolding near_loop.simps [of ma cfg nodes current scan cands] using True
      by (auto simp: Let_def q r dest: in_set_dropD)
  next
    case False
    then show ?thesis using "1.prems" by (subst (1 2) near_loop.simps) auto
  qed
qed

section \<open>What one keyframe adds\<close>

definition gap :: "PoseEdge \<Rightarrow> int" where
  "gap e = \<bar>e_to e - e_from e\<bar>"

definition indexed :: "PoseNode list \<Rightarrow> bool" where
  "indexed nodes \<longleftrightarrow> map n_index nodes = map int [0..<length nodes]"

lemma indexed_nth: "indexed nodes \<Longrightarrow> i < length nodes \<Longrightarrow> n_index (nodes ! i) = int i"
  unfolding indexed_def by (metis add_0 length_upt minus_nat.diff_0 nth_map nth_upt)

lemma indexed_snoc: "indexed nodes \<Longrightarrow> n_index n = int (length nodes) \<Longrightarrow> indexed (nodes @ [n])"
  by (simp add: indexed_def)

lemma indexed_last: "indexed nodes \<Longrightarrow> nodes \<noteq> [] \<Longrightarrow> n_index (last nodes) = int (length nodes) - 1"
  by (simp add: last_conv_nth indexed_nth of_nat_diff Suc_leI)

definition near_links_ok :: "sm_config \<Rightarrow> nat \<Rightarrow> PoseEdge list \<Rightarrow> bool" where
  "near_links_ok cfg n near \<longleftrightarrow>
     int (length near) \<le> max 0 (near_link_max_links_per_node cfg) \<and>
     (\<forall>e \<in> set near. e_to e = int n \<and> 0 \<le> e_from e \<and> near_link_min_index_diff cfg \<le> e_to e - e_from e \<and>
        e_to e - e_from e \<le> near_link_buffer_size cfg)"

lemma near_candidates_range:
  "j \<in> set (near_candidates cfg nodes current) \<Longrightarrow>
     0 \<le> j \<and> j < int (length nodes) \<and> n_index current - near_link_buffer_size cfg \<le> j \<and> j \<le> n_index current - near_link_min_index_diff cfg"
  by (auto simp: near_candidates_def Let_def)

lemma add_near_keyframe_links_ok:
  assumes "indexed (sm_nodes b)" and "n_index current = int n"
  shows "\<exists>near. sm_edges (add_near_keyframe_links ma current b) = sm_edges b @ near \<and> near_links_ok (sm_cfg b) n near \<and>
    sm_nodes (add_near_keyframe_links ma current b) = sm_nodes b \<and> sm_cfg (add_near_keyframe_links ma current b) = sm_cfg b \<and>
    sm_last_odom (add_near_keyframe_links ma current b) = sm_last_odom b"
proof (cases "n_scan current")
  case None
  then show ?thesis by (simp add: add_near_keyframe_links_def near_links_ok_def)
next
  case (Some scan)
  let ?cands = "near_candidates (sm_cfg b) (sm_nodes b) current"
  let ?A = "(\<lambda>j. sm_nodes b ! nat j) ` set ?cands"
  obtain near m where loop: "near_loop ma (sm_cfg b) (sm_nodes b) current scan ?cands [] (sm_matcher b) = (near, m)" by fastforce
  from near_loop_links [of "[]" "sm_cfg b" current scan ?A ?cands "sm_nodes b" ma "sm_matcher b"] loop
  have links: "\<forall>e \<in> set near. is_link (sm_cfg b) current scan ?A e"
    and len: "int (length near) \<le> max 0 (near_link_max_links_per_node (sm_cfg b))" by simp_all
  have "e_to e = int n \<and> 0 \<le> e_from e \<and> near_link_min_index_diff (sm_cfg b) \<le> e_to e - e_from e \<and>
      e_to e - e_from e \<le> near_link_buffer_size (sm_cfg b)" if "e \<in> set near" for e
  proof -
    from links that obtain j result where j: "j \<in> set ?cands" and e: "e = link_edge (sm_nodes b ! nat j) current result"
      by (auto simp: is_link_def)
    from near_candidates_range [OF j] have "n_index (sm_nodes b ! nat j) = j"
      using indexed_nth [OF assms(1), of "nat j"] by auto
    with near_candidates_range [OF j] e assms(2) show ?thesis by (simp add: link_edge_def Let_def)
  qed
  with len have "near_links_ok (sm_cfg b) n near" unfolding near_links_ok_def by blast
  then show ?thesis by (simp add: add_near_keyframe_links_def Some loop)
qed

lemma match_sequential_frame:
  assumes "match_sequential ma pa scan motion b = (motion', info, score, fallback, b')"
  shows "sm_nodes b' = sm_nodes b" "sm_edges b' = sm_edges b" "sm_cfg b' = sm_cfg b" "sm_last_odom b' = sm_last_odom b"
  using assms by (auto simp: match_sequential_def Let_def split: option.splits prod.splits if_splits)

text \<open>One keyframe: nothing changes, or one node, its sequential edge and its near links are appended.\<close>

lemma sm_add_scan_cases:
  assumes "indexed (sm_nodes b)" and "sm_add_scan ma pa scan odom b = (r, b')"
  shows "(r = None \<and> b' = b) \<or>
    (\<exists>node. r = Some node \<and> n_index node = int (length (sm_nodes b)) \<and> sm_nodes b' = sm_nodes b @ [node] \<and> sm_cfg b' = sm_cfg b \<and>
       (if sm_nodes b = [] then sm_edges b' = sm_edges b
        else \<exists>seq near. sm_edges b' = sm_edges b @ seq # near \<and> e_to seq = int (length (sm_nodes b)) \<and>
          e_from seq = int (length (sm_nodes b)) - 1 \<and> near_links_ok (sm_cfg b) (length (sm_nodes b)) near))"
proof (cases "r = None")
  case True
  with assms(2) show ?thesis
    by (auto simp: sm_add_scan_def Let_def split: option.splits if_splits prod.splits)
next
  case False
  then obtain node where r: "r = Some node" by auto
  with assms(2) obtain s where s: "scan = Some s" by (auto simp: sm_add_scan_def split: option.splits)
  show ?thesis
  proof (cases "sm_nodes b = []")
    case True
    with assms(2) r s show ?thesis by (auto simp: sm_add_scan_def first_node_def Let_def)
  next
    case nodes: False
    with assms(2) r s obtain last_odom where
      lo: "sm_last_odom b = Some last_odom" "\<not> moved_little (min_translation (sm_cfg b)) (min_rotation (sm_cfg b)) odom last_odom"
      by (auto simp: sm_add_scan_def split: option.splits if_splits)
    obtain motion info score fallback b1 where
      m: "match_sequential ma pa s (odom_motion odom last_odom) b = (motion, info, score, fallback, b1)" by (metis prod_cases5)
    note fr = match_sequential_frame [OF m]
    let ?node = "next_node (sm_nodes b) s (Some (snd (scan_to_points_and_normals s))) motion"
    let ?seq = "\<lparr>e_from = n_index (last (sm_nodes b)), e_to = n_index ?node, e_dx = fst motion,
      e_dy = fst (snd motion), e_dyaw = snd (snd motion), e_information = info, e_score = score, e_fallback = fallback\<rparr>"
    let ?b2 = "b1\<lparr>sm_nodes := sm_nodes b @ [?node], sm_provider := p_update pa ?node (sm_provider b1), sm_edges := sm_edges b @ [?seq]\<rparr>"
    have idx: "n_index ?node = int (length (sm_nodes b))" by (simp add: next_node_def Let_def split: prod.splits)
    have ix: "indexed (sm_nodes ?b2)" using indexed_snoc [OF assms(1) idx] by simp
    obtain near b3 where b3: "b3 = (if enable_near_keyframe_links (sm_cfg b) \<and> 0 \<le> near_link_min_index_diff (sm_cfg b) \<and>
          near_link_min_index_diff (sm_cfg b) < int (length (sm_nodes b @ [?node])) then add_near_keyframe_links ma ?node ?b2 else ?b2)"
      and e3: "sm_edges b3 = sm_edges b @ [?seq] @ near" "near_links_ok (sm_cfg b) (length (sm_nodes b)) near"
        "sm_nodes b3 = sm_nodes b @ [?node]" "sm_cfg b3 = sm_cfg b"
      using add_near_keyframe_links_ok [OF ix idx, of ma] fr
      by (cases "enable_near_keyframe_links (sm_cfg b) \<and> 0 \<le> near_link_min_index_diff (sm_cfg b) \<and>
          near_link_min_index_diff (sm_cfg b) < int (length (sm_nodes b @ [?node]))")
         (auto simp: near_links_ok_def)
    have "sm_add_scan ma pa scan odom b = (Some ?node, b3\<lparr>sm_last_odom := Some odom\<rparr>)"
      by (simp add: sm_add_scan_def s nodes lo m b3 fr Let_def)
    with assms(2) r have "node = ?node" "b' = b3\<lparr>sm_last_odom := Some odom\<rparr>" by auto
    then show ?thesis
      using r idx e3 nodes indexed_last [OF assms(1) nodes] by (auto intro!: exI [of _ ?seq] exI [of _ near])
  qed
qed

section \<open>Loop edges\<close>

text \<open>The radius search answers with positions of the list it searches.\<close>

definition search_ok :: "('m, 'p, 'l) lc_env \<Rightarrow> bool" where
  "search_ok env \<longleftrightarrow> (\<forall>pts q r2. \<forall>i \<in> set (radius_search env pts q r2). i < length pts)"

definition same_graph :: "('m, 'p, 'l) lc_builder \<Rightarrow> ('m, 'p, 'l) lc_builder \<Rightarrow> bool" where
  "same_graph b b' \<longleftrightarrow> lc_inner b' = lc_inner b \<and> all_nodes_cache b' = all_nodes_cache b \<and> lc_cfg b' = lc_cfg b"

lemma ensure_node_kdtree_frame [simp]:
  "lc_inner (ensure_node_kdtree b) = lc_inner b" "all_nodes_cache (ensure_node_kdtree b) = all_nodes_cache b"
  "lc_cfg (ensure_node_kdtree b) = lc_cfg b" "loop_edges (ensure_node_kdtree b) = loop_edges b"
  by (simp_all add: ensure_node_kdtree_def)

lemma ensure_node_kdtree_dirty:
  "lc_dirty b \<Longrightarrow> all_nodes_cache b \<noteq> [] \<Longrightarrow> lc_tree (ensure_node_kdtree b) = Some (map node_xy (all_nodes_cache b))"
  by (simp add: ensure_node_kdtree_def)

lemma find_loop_candidates_frame:
  assumes "find_loop_candidates env node b = (cands, b')"
  shows "same_graph b b'" "loop_edges b' = loop_edges b"
  using assms by (auto simp: find_loop_candidates_def same_graph_def Let_def split: if_splits option.splits)

lemma find_loop_candidates_eq:
  assumes "lc_dirty b" and "all_nodes_cache b \<noteq> []"
  shows "fst (find_loop_candidates env node b) =
    map ((!) (all_nodes_cache b)) (sort (filter (\<lambda>i. n_scan (all_nodes_cache b ! i) \<noteq> None \<and>
        min_node_gap (lc_cfg b) \<le> n_index node - n_index (all_nodes_cache b ! i))
      (radius_search env (map node_xy (all_nodes_cache b)) (node_xy node) (search_radius (lc_cfg b) * search_radius (lc_cfg b)))))"
  using assms by (simp add: find_loop_candidates_def ensure_node_kdtree_dirty Let_def)

lemma find_loop_candidates_mem:
  assumes "search_ok env" and "lc_dirty b" and "all_nodes_cache b \<noteq> []" and "c \<in> set (fst (find_loop_candidates env node b))"
  shows "\<exists>i < length (all_nodes_cache b). c = all_nodes_cache b ! i \<and> min_node_gap (lc_cfg b) \<le> n_index node - n_index c"
  using assms(4) assms(1) unfolding find_loop_candidates_eq [OF assms(2, 3)]
  by (force simp: search_ok_def)

lemma build_candidate_submap_frame:
  assumes "build_candidate_submap_with_normals env c b = (cl, b')"
  shows "same_graph b b'" "loop_edges b' = loop_edges b"
  using assms by (auto simp: build_candidate_submap_with_normals_def same_graph_def Let_def split: if_splits option.splits)

lemma try_add_loop_edge_cases:
  assumes "try_add_loop_edge env node cand b = (ok, b')"
  shows "same_graph b b'"
    "loop_edges b' = loop_edges b \<or>
     (\<exists>e. loop_edges b' = loop_edges b @ [e] \<and> e_from e = n_index cand \<and> e_to e = n_index node \<and>
        \<not> list_ex (\<lambda>e. e_from e = n_index cand) (loop_edges b))"
proof -
  obtain pts normals b1 where sub: "build_candidate_submap_with_normals env cand b = ((pts, normals), b1)" by (metis surj_pair)
  note fr = build_candidate_submap_frame [OF sub]
  show "same_graph b b'"
    using assms fr by (auto simp: try_add_loop_edge_def sub same_graph_def Let_def split: if_splits prod.splits)
  show "loop_edges b' = loop_edges b \<or>
     (\<exists>e. loop_edges b' = loop_edges b @ [e] \<and> e_from e = n_index cand \<and> e_to e = n_index node \<and>
        \<not> list_ex (\<lambda>e. e_from e = n_index cand) (loop_edges b))"
    using assms fr by (auto simp: try_add_loop_edge_def sub loop_edge_def Let_def split: if_splits prod.splits)
qed

definition loops_ok :: "PoseNode list \<Rightarrow> int \<Rightarrow> PoseEdge list \<Rightarrow> bool" where
  "loops_ok cands to new \<longleftrightarrow> (\<forall>e \<in> set new. e_to e = to \<and> e_from e \<in> n_index ` set cands)"

abbreviation loop_step :: "('m, 'p, 'l) lc_env \<Rightarrow> PoseNode \<Rightarrow> PoseNode \<Rightarrow> int \<times> ('m, 'p, 'l) lc_builder \<Rightarrow> int \<times> ('m, 'p, 'l) lc_builder" where
  "loop_step env node cand \<equiv> \<lambda>(n, b). case try_add_loop_edge env node cand b of (ok, b) \<Rightarrow> (if ok then n + 1 else n, b)"

lemma loop_fold:
  assumes "distinct (map e_from (loop_edges b))"
  shows "\<exists>new. loop_edges (snd (fold (loop_step env node) cands (n, b))) = loop_edges b @ new \<and>
    loops_ok cands (n_index node) new \<and> distinct (map e_from (loop_edges b @ new)) \<and>
    same_graph b (snd (fold (loop_step env node) cands (n, b)))"
  using assms
proof (induction cands arbitrary: n b)
  case Nil
  then show ?case by (simp add: loops_ok_def same_graph_def)
next
  case (Cons c cands)
  obtain ok b1 where t: "try_add_loop_edge env node c b = (ok, b1)" by fastforce
  note tc = try_add_loop_edge_cases [OF t]
  from tc(2) obtain e1 where e1: "loop_edges b1 = loop_edges b @ e1" "loops_ok (c # cands) (n_index node) e1"
      "distinct (map e_from (loop_edges b @ e1))"
    using Cons.prems by (fastforce simp: loops_ok_def list_ex_iff)
  from Cons.IH [of b1 "if ok then n + 1 else n"] e1 obtain new where
    "loop_edges (snd (fold (loop_step env node) cands (if ok then n + 1 else n, b1))) = loop_edges b1 @ new"
    "loops_ok cands (n_index node) new" "distinct (map e_from (loop_edges b1 @ new))"
    "same_graph b1 (snd (fold (loop_step env node) cands (if ok then n + 1 else n, b1)))" by metis
  with e1 tc(1) show ?case
    by (intro exI [of _ "e1 @ new"]) (auto simp: t loops_ok_def same_graph_def)
qed

section \<open>The builder interface\<close>

definition is_loop :: "PoseEdge \<Rightarrow> bool" where
  "is_loop e \<longleftrightarrow> 15 \<le> gap e"

text \<open>
  The edges that keyframe number \<open>n\<close> adds: all lead to it from earlier nodes, exactly one from its predecessor,
  and those that span at least 15 nodes come after all earlier ones that do.
\<close>

definition extends :: "nat \<Rightarrow> PoseEdge list \<Rightarrow> PoseEdge list \<Rightarrow> bool" where
  "extends n old new \<longleftrightarrow>
     (\<exists>fresh. mset new = mset old + mset fresh \<and> (\<forall>e \<in> set fresh. e_to e = int n \<and> 0 \<le> e_from e \<and> e_from e < int n) \<and>
       length (filter (\<lambda>e. gap e = 1) fresh) = (if n = 0 then 0 else 1) \<and>
       filter is_loop new = filter is_loop old @ filter is_loop fresh)"

locale pose_graph_builder =
  fixes inv :: "'b \<Rightarrow> bool"
    and add_scan :: "ScanData option \<Rightarrow> OdomData \<Rightarrow> 'b \<Rightarrow> PoseNode option \<times> 'b"
    and nodes_of :: "'b \<Rightarrow> PoseNode list"
    and edges_of :: "'b \<Rightarrow> PoseEdge list"
    and replace_nodes :: "PoseNode list \<Rightarrow> 'b \<Rightarrow> 'b"
  assumes inv_indexed: "inv b \<Longrightarrow> indexed (nodes_of b)"
    and add_none: "inv b \<Longrightarrow> add_scan s odom b = (None, b') \<Longrightarrow> inv b' \<and> nodes_of b' = nodes_of b \<and> edges_of b' = edges_of b"
    and add_some: "inv b \<Longrightarrow> add_scan s odom b = (Some node, b') \<Longrightarrow>
      inv b' \<and> nodes_of b' = nodes_of b @ [node] \<and> extends (length (nodes_of b)) (edges_of b) (edges_of b')"
    and replace_keeps: "inv b \<Longrightarrow> map n_index ns = map n_index (nodes_of b) \<Longrightarrow>
      inv (replace_nodes ns b) \<and> nodes_of (replace_nodes ns b) = ns \<and> edges_of (replace_nodes ns b) = edges_of b"

subsection \<open>The odometry-only builder\<close>

definition ob_inv :: "odom_builder \<Rightarrow> bool" where
  "ob_inv b \<longleftrightarrow> indexed (ob_nodes b)"

lemma ob_add_scan_cases:
  assumes "ob_inv b" and "ob_add_scan scan odom b = (r, b')"
  shows "(r = None \<and> b' = b) \<or>
    (\<exists>node. r = Some node \<and> n_index node = int (length (ob_nodes b)) \<and> ob_nodes b' = ob_nodes b @ [node] \<and>
       (if ob_nodes b = [] then ob_edges b' = ob_edges b
        else \<exists>e. ob_edges b' = ob_edges b @ [e] \<and> e_to e = int (length (ob_nodes b)) \<and> e_from e = int (length (ob_nodes b)) - 1))"
  using assms indexed_last [of "ob_nodes b"]
  by (auto simp: ob_inv_def ob_add_scan_def first_node_def next_node_def Let_def split: option.splits if_splits prod.splits)

interpretation odom_only: pose_graph_builder ob_inv ob_add_scan ob_nodes ob_edges ob_replace_nodes
proof unfold_locales
  show "indexed (ob_nodes b)" if "ob_inv b" for b using that by (simp add: ob_inv_def)
  show "ob_inv b' \<and> ob_nodes b' = ob_nodes b \<and> ob_edges b' = ob_edges b"
    if "ob_inv b" "ob_add_scan s odom b = (None, b')" for b s odom b'
    using ob_add_scan_cases [OF that] that(1) by auto
  show "ob_inv b' \<and> ob_nodes b' = ob_nodes b @ [node] \<and> extends (length (ob_nodes b)) (ob_edges b) (ob_edges b')"
    if "ob_inv b" "ob_add_scan s odom b = (Some node, b')" for b s odom node b'
  proof -
    from ob_add_scan_cases [OF that] have n: "n_index node = int (length (ob_nodes b))" "ob_nodes b' = ob_nodes b @ [node]"
      and e: "if ob_nodes b = [] then ob_edges b' = ob_edges b
        else \<exists>e. ob_edges b' = ob_edges b @ [e] \<and> e_to e = int (length (ob_nodes b)) \<and> e_from e = int (length (ob_nodes b)) - 1"
      by auto
    have "extends (length (ob_nodes b)) (ob_edges b) (ob_edges b')"
    proof (cases "ob_nodes b = []")
      case True
      with e show ?thesis by (auto simp: extends_def)
    next
      case False
      with e obtain ed where ed: "ob_edges b' = ob_edges b @ [ed]" "e_to ed = int (length (ob_nodes b))"
        "e_from ed = int (length (ob_nodes b)) - 1" by auto
      moreover have "1 \<le> int (length (ob_nodes b))" using False by (simp add: Suc_leI)
      ultimately show ?thesis using False unfolding extends_def by (intro exI [of _ "[ed]"]) (simp add: gap_def)
    qed
    with n that(1) show ?thesis by (simp add: ob_inv_def indexed_snoc)
  qed
  show "ob_inv (ob_replace_nodes ns b) \<and> ob_nodes (ob_replace_nodes ns b) = ns \<and> ob_edges (ob_replace_nodes ns b) = ob_edges b"
    if "ob_inv b" "map n_index ns = map n_index (ob_nodes b)" for b ns
    using that by (simp add: ob_inv_def ob_replace_nodes_def indexed_def) (metis length_map)
qed

subsection \<open>The loop-closure builder\<close>

definition lc_inv :: "('m, 'p, 'l) lc_env \<Rightarrow> ('m, 'p, 'l) lc_builder \<Rightarrow> bool" where
  "lc_inv env b \<longleftrightarrow>
     search_ok env \<and> indexed (lc_get_nodes b) \<and> map n_index (all_nodes_cache b) = map n_index (lc_get_nodes b) \<and>
     near_link_buffer_size (sm_cfg (lc_inner b)) < 15 \<and> 2 \<le> near_link_min_index_diff (sm_cfg (lc_inner b)) \<and>
     2 \<le> min_node_gap (lc_cfg b) \<and> (\<forall>e \<in> set (sm_edges (lc_inner b)). gap e < 15) \<and>
     distinct (map e_from (loop_edges b))"

lemma lc_add_scan_unfold:
  assumes "sm_add_scan (env_matcher env) (env_provider env) scan odom (lc_inner b) = (Some node, inner)"
  obtains cands b1 n b2 b3 where
    "b1 = b\<lparr>lc_inner := inner, all_nodes_cache := all_nodes_cache b @ [node], lc_dirty := True, loop_just_closed_flag := False\<rparr>"
    "find_loop_candidates env node b1 = (cands, b2)" "fold (loop_step env node) cands (0, b2) = (n, b3)"
    "lc_add_scan env scan odom b = (Some node, if 0 < n then b3\<lparr>loop_just_closed_flag := True\<rparr> else b3)"
proof -
  let ?b1 = "b\<lparr>lc_inner := inner, all_nodes_cache := all_nodes_cache b @ [node], lc_dirty := True, loop_just_closed_flag := False\<rparr>"
  obtain cands b2 where f: "find_loop_candidates env node ?b1 = (cands, b2)" by fastforce
  obtain n b3 where g: "fold (loop_step env node) cands (0, b2) = (n, b3)" by fastforce
  have "lc_add_scan env scan odom b = (Some node, if 0 < n then b3\<lparr>loop_just_closed_flag := True\<rparr> else b3)"
    by (simp add: lc_add_scan_def assms f g Let_def)
  from that [OF refl f g this] show thesis .
qed

lemma lc_add_scan_cases:
  assumes "lc_inv env b" and "lc_add_scan env scan odom b = (Some node, b')"
  shows "lc_inv env b' \<and> lc_get_nodes b' = lc_get_nodes b @ [node] \<and>
    extends (length (lc_get_nodes b)) (lc_get_edges b) (lc_get_edges b')"
proof -
  let ?n = "length (lc_get_nodes b)"
  from assms(1) have ix: "indexed (sm_nodes (lc_inner b))" by (simp add: lc_inv_def lc_get_nodes_def)
  from assms(2) obtain inner where inner:
    "sm_add_scan (env_matcher env) (env_provider env) scan odom (lc_inner b) = (Some node, inner)"
    by (auto simp: lc_add_scan_def Let_def split: prod.splits option.splits)
  from sm_add_scan_cases [OF ix inner] have
    idx: "n_index node = int ?n" and nodes: "sm_nodes inner = lc_get_nodes b @ [node]" and cfg: "sm_cfg inner = sm_cfg (lc_inner b)"
    and edges: "if lc_get_nodes b = [] then sm_edges inner = sm_edges (lc_inner b)
        else \<exists>seq near. sm_edges inner = sm_edges (lc_inner b) @ seq # near \<and> e_to seq = int ?n \<and>
          e_from seq = int ?n - 1 \<and> near_links_ok (sm_cfg (lc_inner b)) ?n near"
    by (auto simp: lc_get_nodes_def)
  from inner obtain cands b1 n b2 b3 where
    b1: "b1 = b\<lparr>lc_inner := inner, all_nodes_cache := all_nodes_cache b @ [node], lc_dirty := True, loop_just_closed_flag := False\<rparr>"
    and f: "find_loop_candidates env node b1 = (cands, b2)" and fold: "fold (loop_step env node) cands (0, b2) = (n, b3)"
    and res: "lc_add_scan env scan odom b = (Some node, if 0 < n then b3\<lparr>loop_just_closed_flag := True\<rparr> else b3)"
    by (rule lc_add_scan_unfold)
  note fr = find_loop_candidates_frame [OF f]
  have "distinct (map e_from (loop_edges b2))" using assms(1) fr by (simp add: lc_inv_def b1)
  from loop_fold [OF this, of env node cands 0] fold fr obtain new where
    new: "loop_edges b3 = loop_edges b @ new" "loops_ok cands (int ?n) new" "distinct (map e_from (loop_edges b @ new))"
    and sg: "same_graph b1 b3"
    by (auto simp: b1 idx same_graph_def)
  from sg have b3: "lc_inner b3 = inner" "all_nodes_cache b3 = all_nodes_cache b @ [node]" "lc_cfg b3 = lc_cfg b"
    by (simp_all add: same_graph_def b1)
  have nodes_cache: "map n_index (all_nodes_cache b @ [node]) = map n_index (lc_get_nodes b @ [node])"
    using assms(1) by (simp add: lc_inv_def)
  have ix': "indexed (lc_get_nodes b @ [node])" using ix idx by (simp add: lc_get_nodes_def indexed_snoc)
  have cache_ix: "indexed (all_nodes_cache b @ [node])" using nodes_cache ix' unfolding indexed_def by (metis length_map)
  have loops: "e_to e = int ?n \<and> 0 \<le> e_from e \<and> e_from e < int ?n \<and> 2 \<le> gap e" if "e \<in> set new" for e
  proof -
    from new(2) that obtain c where c: "c \<in> set cands" "e_from e = n_index c" and to: "e_to e = int ?n"
      by (auto simp: loops_ok_def)
    from assms(1) have "search_ok env" "2 \<le> min_node_gap (lc_cfg b)" by (auto simp: lc_inv_def)
    with find_loop_candidates_mem [of env b1 c node] f c(1) obtain i where
      "i < length (all_nodes_cache b @ [node])" "c = (all_nodes_cache b @ [node]) ! i" "2 \<le> int ?n - n_index c"
      using idx by (fastforce simp: b1)
    then have "0 \<le> n_index c" "2 \<le> int ?n - n_index c" using indexed_nth [OF cache_ix] by auto
    with c to show ?thesis by (simp add: gap_def)
  qed
  have old: "filter is_loop (sm_edges (lc_inner b)) = []"
    using assms(1) by (auto simp: lc_inv_def is_loop_def filter_empty_conv)
  have b': "b' = (if 0 < n then b3\<lparr>loop_just_closed_flag := True\<rparr> else b3)" using res assms(2) by simp
  have ge: "lc_get_edges b' = sm_edges inner @ loop_edges b @ new" by (simp add: b' lc_get_edges_def b3 new(1))
  have main: "extends ?n (lc_get_edges b) (lc_get_edges b') \<and> (\<forall>e \<in> set (sm_edges inner). gap e < 15)"
  proof (cases "lc_get_nodes b = []")
    case True
    with loops have "new = []" by (cases new) force+
    with True edges ge assms(1) show ?thesis
      by (auto simp: extends_def lc_get_edges_def lc_inv_def intro!: exI [of _ "[]"])
  next
    case False
    with edges obtain seq near where sn: "sm_edges inner = sm_edges (lc_inner b) @ seq # near" "e_to seq = int ?n"
      "e_from seq = int ?n - 1" "near_links_ok (sm_cfg (lc_inner b)) ?n near" by auto
    have near: "e_to e = int ?n \<and> 0 \<le> e_from e \<and> 2 \<le> gap e \<and> gap e < 15 \<and> e_from e < int ?n" if "e \<in> set near" for e
      using sn(4) that assms(1) by (fastforce simp: near_links_ok_def lc_inv_def gap_def)
    have seq: "gap seq = 1" "0 \<le> e_from seq" "e_from seq < int ?n" using sn(2, 3) False by (simp_all add: gap_def Suc_leI)
    have one: "filter (\<lambda>e. gap e = 1) near = []" "filter (\<lambda>e. gap e = 1) new = []"
      using near loops by (force simp: filter_empty_conv)+
    have none: "filter is_loop near = []" using near by (force simp: filter_empty_conv is_loop_def)
    have "extends ?n (lc_get_edges b) (lc_get_edges b')"
      unfolding extends_def
    proof (intro exI [of _ "seq # near @ new"] conjI)
      show "mset (lc_get_edges b') = mset (lc_get_edges b) + mset (seq # near @ new)"
        unfolding ge sn(1) lc_get_edges_def [of b] by simp
      show "\<forall>e \<in> set (seq # near @ new). e_to e = int ?n \<and> 0 \<le> e_from e \<and> e_from e < int ?n"
        using near loops seq sn(2) by auto
      show "length (filter (\<lambda>e. gap e = 1) (seq # near @ new)) = (if ?n = 0 then 0 else 1)"
        using False by (simp add: one seq(1))
      show "filter is_loop (lc_get_edges b') = filter is_loop (lc_get_edges b) @ filter is_loop (seq # near @ new)"
        using seq(1) unfolding ge sn(1) lc_get_edges_def [of b] by (simp add: old none is_loop_def)
    qed
    moreover have "\<forall>e \<in> set (sm_edges inner). gap e < 15"
      using near seq(1) assms(1) by (auto simp: sn(1) lc_inv_def)
    ultimately show ?thesis by blast
  qed
  have "lc_inv env b'"
    using assms(1) main new(3) ix' nodes_cache by (simp add: b' lc_inv_def lc_get_nodes_def b3 cfg nodes new(1))
  moreover have "lc_get_nodes b' = lc_get_nodes b @ [node]" by (simp add: b' lc_get_nodes_def b3 nodes)
  ultimately show ?thesis using main by blast
qed

lemma sync_index: "n_index (case find P nodes of None \<Rightarrow> n | Some m \<Rightarrow> take_pose m n) = n_index n"
  by (simp add: take_pose_def split: option.split)

interpretation loop_closing: pose_graph_builder "lc_inv env" "lc_add_scan env" lc_get_nodes lc_get_edges "lc_replace_nodes env"
  for env :: "('m, 'p, 'l) lc_env"
proof unfold_locales
  show "indexed (lc_get_nodes b)" if "lc_inv env b" for b :: "('m, 'p, 'l) lc_builder" using that by (simp add: lc_inv_def)
  show "lc_inv env b' \<and> lc_get_nodes b' = lc_get_nodes b \<and> lc_get_edges b' = lc_get_edges b"
    if "lc_inv env b" "lc_add_scan env s odom b = (None, b')" for b b' :: "('m, 'p, 'l) lc_builder" and s odom
  proof -
    obtain r inner where sm: "sm_add_scan (env_matcher env) (env_provider env) s odom (lc_inner b) = (r, inner)" by fastforce
    with that have "r = None" by (auto simp: lc_add_scan_def Let_def split: option.splits prod.splits)
    moreover have "inner = lc_inner b"
      using sm_add_scan_cases [OF _ sm] that(1) \<open>r = None\<close> by (auto simp: lc_inv_def lc_get_nodes_def)
    ultimately have "b' = b" using that(2) sm by (simp add: lc_add_scan_def)
    with that show ?thesis by simp
  qed
  show "lc_inv env b' \<and> lc_get_nodes b' = lc_get_nodes b @ [node] \<and> extends (length (lc_get_nodes b)) (lc_get_edges b) (lc_get_edges b')"
    if "lc_inv env b" "lc_add_scan env s odom b = (Some node, b')" for b b' :: "('m, 'p, 'l) lc_builder" and s odom node
    using that by (rule lc_add_scan_cases)
  show "lc_inv env (lc_replace_nodes env ns b) \<and> lc_get_nodes (lc_replace_nodes env ns b) = ns \<and>
      lc_get_edges (lc_replace_nodes env ns b) = lc_get_edges b"
    if "lc_inv env b" "map n_index ns = map n_index (lc_get_nodes b)" for b :: "('m, 'p, 'l) lc_builder" and ns
  proof -
    have "indexed ns" using that unfolding lc_inv_def indexed_def by (metis length_map)
    moreover have "map n_index (all_nodes_cache (lc_replace_nodes env ns b)) = map n_index ns"
      using that by (simp add: lc_replace_nodes_def lc_inv_def o_def sync_index)
    ultimately show ?thesis using that(1)
      by (auto simp: lc_inv_def lc_get_nodes_def lc_get_edges_def lc_replace_nodes_def sm_replace_nodes_def)
  qed
qed

end
