(* ===== verification/PoseGraphRuns.thy ===== *)
theory PoseGraphRuns
  imports PoseGraphProps
begin

text \<open>
  The pose graph over every sequence of operations: scans and pose updates in any order for the loop-closure
  builder; where near links and loop edges come from; the fusion of a match with the odometry; and the behaviour
  of the scan-to-scan reference provider.
\<close>

section \<open>Sequences of operations\<close>

datatype builder_op = AddScan "ScanData option" OdomData | SetPoses "int \<Rightarrow> pose"

definition set_pose :: "(int \<Rightarrow> pose) \<Rightarrow> PoseNode \<Rightarrow> PoseNode" where
  "set_pose f n = (case f (n_index n) of (x, y, yaw) \<Rightarrow> n\<lparr>n_x := x, n_y := y, n_yaw := yaw\<rparr>)"

definition lc_step :: "('m, 'p, 'l) lc_env \<Rightarrow> builder_op \<Rightarrow> ('m, 'p, 'l) lc_builder \<Rightarrow> ('m, 'p, 'l) lc_builder" where
  "lc_step env op b =
     (case op of
        AddScan scan odom \<Rightarrow> snd (lc_add_scan env scan odom b)
      | SetPoses f \<Rightarrow> lc_replace_nodes env (map (set_pose f) (lc_get_nodes b)) b)"

lemma set_pose_index [simp]: "n_index (set_pose f n) = n_index n"
  by (simp add: set_pose_def split: prod.split)

text \<open>A chain: edges lead forward between existing nodes and every node is joined to its predecessor by exactly one edge.\<close>

definition seq_edges :: "nat \<Rightarrow> PoseEdge list \<Rightarrow> PoseEdge list" where
  "seq_edges k = filter (\<lambda>e. e_from e = int k - 1 \<and> e_to e = int k)"

definition chain :: "nat \<Rightarrow> PoseEdge list \<Rightarrow> bool" where
  "chain n es \<longleftrightarrow>
     (\<forall>e \<in> set es. 0 \<le> e_from e \<and> e_from e < e_to e \<and> e_to e < int n) \<and>
     (\<forall>k. 0 < k \<and> k < n \<longrightarrow> length (seq_edges k es) = 1)"

lemma chain_extends:
  assumes "chain n old" and "extends n old new"
  shows "chain (Suc n) new"
proof -
  from assms(2) obtain fresh where f: "mset new = mset old + mset fresh"
    "\<forall>e \<in> set fresh. e_to e = int n \<and> 0 \<le> e_from e \<and> e_from e < int n"
    "length (filter (\<lambda>e. gap e = 1) fresh) = (if n = 0 then 0 else 1)" by (auto simp: extends_def)
  have old: "\<forall>e \<in> set old. 0 \<le> e_from e \<and> e_from e < e_to e \<and> e_to e < int n" using assms(1) by (simp add: chain_def)
  have sets: "set new = set old \<union> set fresh" using f(1) by (metis set_mset_mset set_mset_union)
  have len: "length (seq_edges k new) = length (seq_edges k old) + length (seq_edges k fresh)" for k
    unfolding seq_edges_def size_mset [symmetric] by (simp add: f(1))
  have "length (seq_edges k new) = 1" if "0 < k" "k < Suc n" for k
  proof (cases "k = n")
    case True
    have "seq_edges n old = []" using old by (auto simp: seq_edges_def filter_empty_conv)
    moreover have "seq_edges n fresh = filter (\<lambda>e. gap e = 1) fresh"
      unfolding seq_edges_def using f(2) by (intro filter_cong) (auto simp: gap_def)
    ultimately show ?thesis using len [of n] f(3) True that by simp
  next
    case False
    then have "seq_edges k fresh = []" using f(2) by (auto simp: seq_edges_def filter_empty_conv)
    with len [of k] assms(1) that False show ?thesis by (simp add: chain_def)
  qed
  moreover have "\<forall>e \<in> set new. 0 \<le> e_from e \<and> e_from e < e_to e \<and> e_to e < int (Suc n)"
    unfolding sets using old f(2) by auto
  ultimately show ?thesis by (simp add: chain_def)
qed

context pose_graph_builder
begin

lemma add_scan_chain:
  assumes "inv b" and "chain (length (nodes_of b)) (edges_of b)" and "add_scan s odom b = (r, b')"
  shows "inv b' \<and> chain (length (nodes_of b')) (edges_of b')"
proof (cases r)
  case None
  with add_none [OF assms(1)] assms show ?thesis by auto
next
  case (Some node)
  with add_some [OF assms(1)] assms chain_extends show ?thesis by auto
qed

lemma replace_chain:
  assumes "inv b" and "chain (length (nodes_of b)) (edges_of b)" and "map n_index ns = map n_index (nodes_of b)"
  shows "inv (replace_nodes ns b) \<and> chain (length (nodes_of (replace_nodes ns b))) (edges_of (replace_nodes ns b))"
  using replace_keeps [OF assms(1, 3)] assms(2) map_eq_imp_length_eq [OF assms(3)] by simp

end

lemma lc_step_chain:
  assumes "lc_inv env b \<and> chain (length (lc_get_nodes b)) (lc_get_edges b)"
  shows "lc_inv env (lc_step env op b) \<and> chain (length (lc_get_nodes (lc_step env op b))) (lc_get_edges (lc_step env op b))"
proof (cases op)
  case (AddScan scan odom)
  then show ?thesis using assms loop_closing.add_scan_chain [of env b scan odom "fst (lc_add_scan env scan odom b)" "snd (lc_add_scan env scan odom b)"]
    by (simp add: lc_step_def)
next
  case (SetPoses f)
  then show ?thesis using assms loop_closing.replace_chain [of env b "map (set_pose f) (lc_get_nodes b)"]
    by (simp add: lc_step_def o_def)
qed

text \<open>
  C24. The pose graph stays well formed over every sequence of scans and pose updates, whatever the scan matchers
  answer: nodes are numbered consecutively from 0, every edge leads forward between existing nodes, each node is
  joined to its predecessor by exactly one edge, and no node is the source of two loop edges.
\<close>

theorem pose_graph_wellformed:
  assumes "search_ok env" and "near_link_buffer_size smc < 15" and "2 \<le> near_link_min_index_diff smc" and "2 \<le> node_gap"
    and "b = fold (lc_step env) ops (LoopClosureBuilder (ScanMatchingBuilder smc m p) l rad node_gap streak dyaw cross sub score)"
  shows "map n_index (lc_get_nodes b) = map int [0..<length (lc_get_nodes b)] \<and>
    chain (length (lc_get_nodes b)) (lc_get_edges b) \<and> distinct (map e_from (loop_edges b))"
proof -
  let ?b0 = "LoopClosureBuilder (ScanMatchingBuilder smc m p) l rad node_gap streak dyaw cross sub score"
  let ?I = "\<lambda>b. lc_inv env b \<and> chain (length (lc_get_nodes b)) (lc_get_edges b)"
  have "?I ?b0" using assms(1-4)
    by (simp add: lc_inv_def LoopClosureBuilder_def ScanMatchingBuilder_def lc_get_nodes_def lc_get_edges_def indexed_def chain_def)
  then have "?I (fold (lc_step env) ops ?b0)"
    using lc_step_chain by (induction ops rule: rev_induct) auto
  then show ?thesis unfolding assms(5) by (simp add: lc_inv_def indexed_def)
qed

text \<open>A concrete instance: matchers that never converge, a search by distance.\<close>

definition idle_matcher :: "unit matcher_api" where
  "idle_matcher = \<lparr>set_target_cloud_with_normals = (\<lambda>_ _ m. m),
     match_scan = (\<lambda>_ _ m. (\<lparr>m_dx = 0, m_dy = 0, m_dyaw = 0, m_converged = False, m_information = diag3 0 0 0, m_score = 0\<rparr>, m)),
     match_points = None, supports_reusable_targets = False, try_use_reusable_target = (\<lambda>_ m. (False, m)),
     set_reusable_target_cloud_with_normals = (\<lambda>_ _ _ m. m), match_reusable_targets = (\<lambda>_ _ m. ([], m)),
     clear_reusable_targets = (\<lambda>m. m)\<rparr>"

definition sample_lc_env :: "(unit, local_map, unit) lc_env" where
  "sample_lc_env = \<lparr>env_matcher = idle_matcher, env_provider = local_map_api, env_loop_matcher = idle_matcher,
     radius_search = (\<lambda>pts (x, y) r2. filter (\<lambda>i. (fst (pts ! i) - x)\<^sup>2 + (snd (pts ! i) - y)\<^sup>2 < r2) [0..<length pts]),
     min_eigenvalue = (\<lambda>_. None)\<rparr>"

definition sample_pose :: "real \<Rightarrow> OdomData" where
  "sample_pose x = \<lparr>o_stamp = x, o_x = x, o_y = 0, o_yaw = 0\<rparr>"

definition sample_sm_config :: sm_config where
  "sample_sm_config = \<lparr>min_translation = 0, min_rotation = 0, max_translation_drift = 0, enable_near_keyframe_links = True,
     near_link_buffer_size = 10, near_link_max_distance = 2, near_link_min_index_diff = 2, near_link_max_links_per_node = 3,
     near_link_max_translation_drift = 1, near_link_max_rotation_drift_rad = 1, near_link_min_eigenvalue = 10,
     odom_fusion = \<lparr>information_x = 1500, information_y = 0, information_yaw = 0\<rparr>\<rparr>"

lemma sample_search: "search_ok sample_lc_env"
  by (auto simp: search_ok_def sample_lc_env_def)

theorem pose_graph_wellformed_witness:
  "let b = fold (lc_step sample_lc_env) [AddScan (Some sample_scan) (sample_pose 0), SetPoses (\<lambda>_. (1, 2, 3)), AddScan (Some sample_scan) (sample_pose 1)]
       (LoopClosureBuilder (ScanMatchingBuilder sample_sm_config () (LocalMapProvider 5 10)) () 5 20 3 90 0 5 0)
   in map n_index (lc_get_nodes b) = map int [0..<length (lc_get_nodes b)] \<and> chain (length (lc_get_nodes b)) (lc_get_edges b) \<and>
      distinct (map e_from (loop_edges b))"
  unfolding Let_def by (rule pose_graph_wellformed [OF sample_search _ _ _ refl]) (simp_all add: sample_sm_config_def)

section \<open>Where near links come from\<close>

text \<open>
  Near-keyframe links: a keyframe gets at most the configured number of them, and each one joins it to an
  earlier keyframe inside the index window and the distance limit, with the motion of a converged match that
  stays within the drift limits and is well conditioned.
\<close>

theorem near_links_sound:
  assumes "indexed (sm_nodes b)" and "n_scan current = Some scan"
  shows "\<exists>near. sm_edges (add_near_keyframe_links ma current b) = sm_edges b @ near \<and>
    int (length near) \<le> max 0 (near_link_max_links_per_node (sm_cfg b)) \<and>
    (\<forall>e \<in> set near. \<exists>i < length (sm_nodes b). \<exists>result. let cand = sm_nodes b ! i in
       near_link_min_index_diff (sm_cfg b) \<le> n_index current - n_index cand \<and>
       n_index current - n_index cand \<le> near_link_buffer_size (sm_cfg b) \<and>
       hypot (n_x current - n_x cand) (n_y current - n_y cand) \<le> near_link_max_distance (sm_cfg b) \<and>
       link_accepted (sm_cfg b) (link_guess current cand (scan_stamp scan)) result \<and> e = link_edge cand current result)"
proof -
  let ?cfg = "sm_cfg b" and ?nodes = "sm_nodes b"
  let ?cands = "near_candidates ?cfg ?nodes current"
  let ?A = "(\<lambda>j. ?nodes ! nat j) ` set ?cands"
  obtain near m where loop: "near_loop ma ?cfg ?nodes current scan ?cands [] (sm_matcher b) = (near, m)" by fastforce
  from near_loop_links [of "[]" ?cfg current scan ?A ?cands ?nodes ma "sm_matcher b"] loop
  have links: "\<forall>e \<in> set near. is_link ?cfg current scan ?A e"
    and len: "int (length near) \<le> max 0 (near_link_max_links_per_node ?cfg)" by simp_all
  have "\<exists>i < length ?nodes. \<exists>result. let cand = ?nodes ! i in
       near_link_min_index_diff ?cfg \<le> n_index current - n_index cand \<and> n_index current - n_index cand \<le> near_link_buffer_size ?cfg \<and>
       hypot (n_x current - n_x cand) (n_y current - n_y cand) \<le> near_link_max_distance ?cfg \<and>
       link_accepted ?cfg (link_guess current cand (scan_stamp scan)) result \<and> e = link_edge cand current result" if "e \<in> set near" for e
  proof -
    from links that obtain j result where j: "j \<in> set ?cands"
      and r: "link_accepted ?cfg (link_guess current (?nodes ! nat j) (scan_stamp scan)) result" "e = link_edge (?nodes ! nat j) current result"
      by (auto simp: is_link_def)
    from j have d: "hypot (n_x current - n_x (?nodes ! nat j)) (n_y current - n_y (?nodes ! nat j)) \<le> near_link_max_distance ?cfg"
      by (simp add: near_candidates_def Let_def)
    from near_candidates_range [OF j] have jr: "nat j < length ?nodes" "n_index (?nodes ! nat j) = j"
      using indexed_nth [OF assms(1), of "nat j"] by auto
    show ?thesis using r d near_candidates_range [OF j] jr
      by (intro exI [of _ "nat j"] conjI exI [of _ result]) (auto simp: Let_def)
  qed
  with len show ?thesis by (intro exI [of _ near]) (simp add: add_near_keyframe_links_def assms(2) loop)
qed

definition sample_current :: PoseNode where
  "sample_current = sample_node\<lparr>n_index := 2, n_scan := Some sample_scan\<rparr>"

definition sample_graph :: "(unit, local_map) sm_builder" where
  "sample_graph = (ScanMatchingBuilder sample_sm_config () (LocalMapProvider 5 10))\<lparr>sm_nodes :=
     [sample_node\<lparr>n_index := 0, n_scan := Some sample_scan\<rparr>, sample_node\<lparr>n_index := 1, n_scan := Some sample_scan\<rparr>, sample_current]\<rparr>"

theorem near_links_sound_witness:
  "\<exists>near. sm_edges (add_near_keyframe_links idle_matcher sample_current sample_graph) = near \<and> int (length near) \<le> 3"
proof -
  have "indexed (sm_nodes sample_graph)" "n_scan sample_current = Some sample_scan"
    by (simp_all add: sample_graph_def sample_current_def sample_node_def indexed_def upt_rec)
  from near_links_sound [OF this, of idle_matcher] show ?thesis
    by (auto simp: sample_graph_def ScanMatchingBuilder_def sample_sm_config_def)
qed

section \<open>Where loop edges come from\<close>

definition loop_match :: "('m, 'p, 'l) lc_env \<Rightarrow> lc_config \<Rightarrow> PoseNode \<Rightarrow> PoseNode list \<Rightarrow> PoseEdge \<Rightarrow> bool" where
  "loop_match env cfg node cands e \<longleftrightarrow>
     (\<exists>cand result. cand \<in> set cands \<and> m_converged result \<and> loop_gates env cfg (link_guess node cand (n_stamp node)) result \<and>
        e = loop_edge cand node result)"

lemma try_add_loop_edge_gated:
  assumes "try_add_loop_edge env node cand b = (ok, b')"
  shows "(\<not> ok \<and> loop_edges b' = loop_edges b) \<or> (ok \<and> (\<exists>e. loop_edges b' = loop_edges b @ [e] \<and> loop_match env (lc_cfg b) node [cand] e))"
proof -
  obtain pts normals b1 where sub: "build_candidate_submap_with_normals env cand b = ((pts, normals), b1)" by (metis surj_pair)
  have fr: "loop_edges b1 = loop_edges b" "lc_cfg b1 = lc_cfg b"
    using build_candidate_submap_frame [OF sub] by (simp_all add: same_graph_def)
  show ?thesis using assms fr
    by (auto simp: try_add_loop_edge_def sub loop_match_def Let_def split: if_splits prod.splits)
qed

lemma loop_match_mono: "loop_match env cfg node cs e \<Longrightarrow> set cs \<subseteq> set cs' \<Longrightarrow> loop_match env cfg node cs' e"
  unfolding loop_match_def by blast

lemma loop_fold_gated:
  "\<exists>new. loop_edges (snd (fold (loop_step env node) cands (n, b))) = loop_edges b @ new \<and>
     (\<forall>e \<in> set new. loop_match env (lc_cfg b) node cands e) \<and>
     fst (fold (loop_step env node) cands (n, b)) = n + int (length new)"
proof (induction cands arbitrary: n b)
  case (Cons c cands)
  obtain ok b1 where t: "try_add_loop_edge env node c b = (ok, b1)" by fastforce
  have cfg: "lc_cfg b1 = lc_cfg b" using try_add_loop_edge_cases(1) [OF t] by (simp add: same_graph_def)
  from Cons.IH [of "if ok then n + 1 else n" b1] obtain new where
    new: "loop_edges (snd (fold (loop_step env node) cands (if ok then n + 1 else n, b1))) = loop_edges b1 @ new"
      "\<forall>e \<in> set new. loop_match env (lc_cfg b) node cands e"
      "fst (fold (loop_step env node) cands (if ok then n + 1 else n, b1)) = (if ok then n + 1 else n) + int (length new)"
    unfolding cfg by blast
  from new(2) have new': "\<forall>e \<in> set new. loop_match env (lc_cfg b) node (c # cands) e" by (auto intro: loop_match_mono)
  show ?case
  proof (cases ok)
    case True
    with try_add_loop_edge_gated [OF t] obtain e where "loop_edges b1 = loop_edges b @ [e]" "loop_match env (lc_cfg b) node [c] e" by auto
    with new new' True show ?thesis by (intro exI [of _ "e # new"]) (auto simp: t intro: loop_match_mono)
  next
    case False
    with try_add_loop_edge_gated [OF t] new new' show ?thesis by (intro exI [of _ new]) (simp add: t)
  qed
qed simp

lemma flag_submap:
  "build_candidate_submap_with_normals env c b = (cl, b') \<Longrightarrow> loop_just_closed_flag b' = loop_just_closed_flag b"
  by (auto simp: build_candidate_submap_with_normals_def ensure_node_kdtree_def Let_def split: if_splits option.splits)

lemma flag_find: "find_loop_candidates env node b = (cands, b') \<Longrightarrow> loop_just_closed_flag b' = loop_just_closed_flag b"
  by (auto simp: find_loop_candidates_def ensure_node_kdtree_def Let_def split: if_splits option.splits)

lemma flag_try: "loop_just_closed_flag (snd (try_add_loop_edge env node cand b)) = loop_just_closed_flag b"
proof -
  obtain pts normals b1 where sub: "build_candidate_submap_with_normals env cand b = ((pts, normals), b1)" by (metis surj_pair)
  show ?thesis using flag_submap [OF sub] by (simp add: try_add_loop_edge_def sub Let_def split: prod.split)
qed

lemma flag_fold: "loop_just_closed_flag (snd (fold (loop_step env node) cands (n, b))) = loop_just_closed_flag b"
proof (induction cands arbitrary: n b)
  case (Cons c cands)
  obtain ok b1 where t: "try_add_loop_edge env node c b = (ok, b1)" by fastforce
  with flag_try [of env node c b] Cons show ?case by simp
qed simp


lemma loop_fold_graph: "same_graph b (snd (fold (loop_step env node) cands (n, b)))"
proof (induction cands arbitrary: n b)
  case (Cons c cands)
  obtain ok b1 where t: "try_add_loop_edge env node c b = (ok, b1)" by fastforce
  with try_add_loop_edge_cases(1) [OF t] Cons.IH [of b1 "if ok then n + 1 else n"] show ?case by (simp add: same_graph_def)
qed (simp add: same_graph_def)

lemma lc_add_scan_cfg: "lc_add_scan env scan odom b = (Some node, b') \<Longrightarrow> lc_cfg b' = lc_cfg b"
proof -
  assume a: "lc_add_scan env scan odom b = (Some node, b')"
  then obtain inner where "sm_add_scan (env_matcher env) (env_provider env) scan odom (lc_inner b) = (Some node, inner)"
    by (auto simp: lc_add_scan_def Let_def split: prod.splits option.splits)
  then obtain cands b1 n b2 b3 where
    b1: "b1 = b\<lparr>lc_inner := inner, all_nodes_cache := all_nodes_cache b @ [node], lc_dirty := True, loop_just_closed_flag := False\<rparr>"
    and f: "find_loop_candidates env node b1 = (cands, b2)" and fold: "fold (loop_step env node) cands (0, b2) = (n, b3)"
    and res: "lc_add_scan env scan odom b = (Some node, if 0 < n then b3\<lparr>loop_just_closed_flag := True\<rparr> else b3)"
    by (rule lc_add_scan_unfold)
  have "same_graph b2 b3" using loop_fold_graph [of b2 env node cands 0] fold by simp
  with find_loop_candidates_frame(1) [OF f] res a show "lc_cfg b' = lc_cfg b" by (auto simp: same_graph_def b1)
qed


section \<open>Fusion with the odometry\<close>

lemma set_diag_simps [simp]:
  "m00 (set_diag a b c info) = a" "m11 (set_diag a b c info) = b" "m22 (set_diag a b c info) = c"
  by (induction a b c info rule: set_diag.induct) simp_all

lemma fuse_axis_mean:
  assumes "fuse_axis odom_info (o' - v0) v0 match_info = (v, tot)" and "0 \<le> match_info"
  shows "tot = match_info + max 0 odom_info \<and> tot * v = match_info * v0 + max 0 odom_info * o' \<and> min v0 o' \<le> v \<and> v \<le> max v0 o'"
proof (cases "odom_info \<le> 0")
  case True
  with assms show ?thesis by (simp add: fuse_axis_def)
next
  case False
  define t where "t = odom_info / (match_info + odom_info)"
  have t: "0 \<le> t" "t \<le> 1" "tot = match_info + odom_info" "v = v0 + t * (o' - v0)" "0 < match_info + odom_info"
    using False assms by (auto simp: t_def fuse_axis_def Let_def)
  have "(match_info + odom_info) * t = odom_info" using t(5) by (simp add: t_def)
  moreover have "tot * v = (match_info + odom_info) * v0 + ((match_info + odom_info) * t) * (o' - v0)"
    unfolding t(3, 4) by (simp add: algebra_simps)
  ultimately have "tot * v = match_info * v0 + odom_info * o'" by (simp add: algebra_simps)
  moreover have "v = (1 - t) * v0 + t * o'" unfolding t(4) by algebra
  then have "min v0 o' \<le> v" "v \<le> max v0 o'"
    using convex_bound_le [of v0 "max v0 o'" o' "1 - t" t] convex_bound_le [of "- v0" "- min v0 o'" "- o'" "1 - t" t] t(1, 2)
    by (auto simp: algebra_simps)
  ultimately show ?thesis using False t(3) by simp
qed

text \<open>
  Fusing a match with the wheel odometry gives, on each translation axis, the mean weighted by the two
  informations: it lies between the two values, and the informations add up.  An axis with no odometry weight
  keeps the match.
\<close>

theorem odometry_fusion_mean:
  assumes "fuse_with_odometry cfg (ox, oy, oyaw) (dx, dy, dyaw) info = ((fx, fy, fyaw), info')"
    and "0 \<le> m00 info" and "0 \<le> m11 info"
  shows "m00 info' * fx = m00 info * dx + max 0 (information_x cfg) * ox \<and> m00 info' = m00 info + max 0 (information_x cfg) \<and>
    min dx ox \<le> fx \<and> fx \<le> max dx ox \<and>
    m11 info' * fy = m11 info * dy + max 0 (information_y cfg) * oy \<and> m11 info' = m11 info + max 0 (information_y cfg) \<and>
    min dy oy \<le> fy \<and> fy \<le> max dy oy \<and> (information_yaw cfg \<le> 0 \<longrightarrow> fyaw = dyaw \<and> m22 info' = m22 info)"
proof -
  obtain vx ix where x: "fuse_axis (information_x cfg) (ox - dx) dx (m00 info) = (vx, ix)" by fastforce
  obtain vy iy where y: "fuse_axis (information_y cfg) (oy - dy) dy (m11 info) = (vy, iy)" by fastforce
  obtain vw iw where w: "fuse_axis (information_yaw cfg) (angle_diff oyaw dyaw) dyaw (m22 info) = (vw, iw)" by fastforce
  have r: "fx = vx" "fy = vy" "fyaw = (if 0 < information_yaw cfg then normalize_angle vw else dyaw)" "info' = set_diag ix iy iw info"
    using assms(1) by (auto simp: fuse_with_odometry_def x y w)
  have d: "m00 info' = ix" "m11 info' = iy" "m22 info' = iw" by (simp_all add: r(4))
  have "information_yaw cfg \<le> 0 \<longrightarrow> fyaw = dyaw \<and> iw = m22 info" using w by (auto simp: fuse_axis_def r(3) split: if_splits)
  with fuse_axis_mean [OF x assms(2)] fuse_axis_mean [OF y assms(3)] show ?thesis unfolding d r(1, 2) by blast
qed

theorem odometry_fusion_mean_witness:
  "fuse_with_odometry \<lparr>information_x = 3, information_y = 0, information_yaw = 0\<rparr> (2, 5, 0) (1, 4, 0) (diag3 1 1 1) =
     ((7 / 4, 4, 0), diag3 4 1 1) \<and> 4 * (7 / 4) = 1 * 1 + 3 * (2 :: real)"
proof -
  have "fuse_with_odometry \<lparr>information_x = 3, information_y = 0, information_yaw = 0\<rparr> (2, 5, 0) (1, 4, 0) (diag3 1 1 1) =
      ((7 / 4, 4, 0), diag3 4 1 1)"
    by (simp add: fuse_with_odometry_def fuse_axis_def Let_def)
  with odometry_fusion_mean [OF this] show ?thesis by simp
qed

section \<open>The scan-to-scan provider\<close>

definition sm_scans :: "'m matcher_api \<Rightarrow> 'p provider_api \<Rightarrow> (ScanData option \<times> OdomData) list \<Rightarrow> ('m, 'p) sm_builder \<Rightarrow> ('m, 'p) sm_builder" where
  "sm_scans ma pa = fold (\<lambda>(scan, odom) b. snd (sm_add_scan ma pa scan odom b))"

lemma near_links_counts [simp]:
  "icp_attempt_count (add_near_keyframe_links ma node b) = icp_attempt_count b"
  "icp_success_count (add_near_keyframe_links ma node b) = icp_success_count b"
  by (simp_all add: add_near_keyframe_links_def split: option.split prod.split)

lemma sm_add_scan_scan_to_scan [simp]:
  "icp_attempt_count (snd (sm_add_scan ma scan_to_scan_api scan odom b)) = icp_attempt_count b"
  by (simp add: sm_add_scan_def match_sequential_def scan_to_scan_api_def base_get_reference_pts_and_normals_def Let_def
      split: option.split)

text \<open>
  With the scan-to-scan reference provider no scan is ever matched against its predecessor: over every sequence
  of scans the builder makes no match attempt, and each new sequential edge is the wheel odometry marked as a
  fallback.
\<close>

theorem scan_to_scan_never_matches:
  "icp_attempt_count (sm_scans ma scan_to_scan_api scans (ScanMatchingBuilder cfg m p)) = 0 \<and>
   match_sequential ma scan_to_scan_api scan motion b = (motion, make_odom_information, 0, True, b)"
proof -
  have "icp_attempt_count (sm_scans ma scan_to_scan_api scans b') = icp_attempt_count b'" for b' :: "('a, vec2 list option) sm_builder"
    unfolding sm_scans_def by (induction scans arbitrary: b') (auto simp: sm_add_scan_scan_to_scan)
  moreover have "match_sequential ma scan_to_scan_api scan motion b = (motion, make_odom_information, 0, True, b)"
    by (simp add: match_sequential_def scan_to_scan_api_def base_get_reference_pts_and_normals_def)
  ultimately show ?thesis by (simp add: ScanMatchingBuilder_def)
qed

end
