(* ===== verification/Orchestrator.thy ===== *)
theory Orchestrator
  imports PoseGraph Gnss Optimizer
begin

text \<open>
  \<^verbatim>\<open>slam_gnss_2d/core/graph_orchestrator.cpp\<close>: each sensor frame goes to the pose-graph builder; the new node and edges
  are registered with the optimizer; GNSS positions initialise the frame of the graph, re-anchor it and become
  priors; the optimised poses go back to the builder.

  The builder is given by its operations (\<^verbatim>\<open>PoseGraphBuilderBase\<close>); the eigenvectors and the singular value decomposition of
  2x2 matrices are Eigen's, parameters.  An exception that leaves \<^verbatim>\<open>process_frame\<close> is \<open>None\<close>.  The mutex, timing and
  logging are left out.
\<close>

section \<open>The parts\<close>

record 'b builder_api =
  ba_add_scan :: "ScanData option \<Rightarrow> OdomData \<Rightarrow> 'b \<Rightarrow> PoseNode option \<times> 'b"
  ba_nodes :: "'b \<Rightarrow> PoseNode list"
  ba_edges :: "'b \<Rightarrow> PoseEdge list"
  ba_replace :: "PoseNode list \<Rightarrow> 'b \<Rightarrow> 'b"

type_synonym mat2 = "vec2 \<times> vec2"

record ('b, 'g) orch_env =
  env_builder :: "'b builder_api"
  env_gtsam :: "'g gtsam_api"
  env_geo :: projection
  eigen2 :: "mat2 \<Rightarrow> (vec2 \<times> real \<times> real) option"
  svd2 :: "mat2 \<Rightarrow> mat2 \<times> mat2"

record orch_config =
  use_gnss :: bool
  anchor_min_fix_status :: int
  gnss_fix_sigma_m :: real
  gnss_float_sigma_m :: real
  gnss_init_distance_m :: real
  gnss_max_sigma_m :: real
  rerender_threshold_m :: real
  gnss_min_interval_m :: real
  anchor_sigma_m :: real
  anchor_init_yaw_sigma_rad :: real
  gnss_max_innovation_m :: real
  gnss_robust_kernel :: string
  gnss_robust_kernel_scale :: real
  gnss_prior_min_fix_status :: int
  dynamic_reanchor_enabled :: bool
  dynamic_reanchor_min_fix_status :: int
  dynamic_reanchor_min_samples :: int
  dynamic_reanchor_min_distance_m :: real
  dynamic_reanchor_max_residual_rms_m :: real
  batch_on_finalize :: bool
  batch_max_iterations :: int
  gnss_lever_arm :: vec2

datatype orch_state = INITIALIZING | RUNNING

record ScanProcessResult =
  r_node :: "PoseNode option"
  r_loop_closed :: bool
  r_rerender_required :: bool
  r_new_seq_edge :: "PoseEdge option"
  r_new_loop_edges :: "PoseEdge list"
  r_new_gnss_prior :: "GnssPrior option"

record ('b, 'g) orch =
  oc_cfg :: orch_config
  oc_builder :: 'b
  oc_opt :: "'g isam2_optimizer"
  oc_anchor :: "anchor_manager option"
  last_node_index :: int
  last_loop_edge_count :: nat
  oc_initialized :: bool
  oc_state :: orch_state
  init_rotation :: real
  last_rendered_poses :: "(int, pose) map"
  last_gnss_timestamp :: "real option"
  last_gnss_pos :: "vec2 option"
  first_render_done :: bool
  gnss_prior_count :: int
  gnss_rejected_sigma_count :: int
  gnss_rejected_interval_count :: int
  gnss_rejected_innovation_count :: int
  gnss_rejected_status_count :: int
  reanchor_samples :: "(vec2 \<times> vec2) list"
  dynamic_reanchored :: bool
  init_gnss_pts :: "vec2 list"
  init_odom_pts :: "vec2 list"

definition GraphOrchestrator :: "('b, 'g) orch_env \<Rightarrow> 'b \<Rightarrow> orch_config \<Rightarrow> real \<Rightarrow> ('b, 'g) orch" where
  "GraphOrchestrator env pose_graph cfg threshold =
     \<lparr>oc_cfg = cfg, oc_builder = pose_graph, oc_opt = ISAM2Optimizer (env_gtsam env) threshold,
      oc_anchor = (if use_gnss cfg then Some GnssAnchorManager else None), last_node_index = - 1, last_loop_edge_count = 0,
      oc_initialized = False, oc_state = (if use_gnss cfg then INITIALIZING else RUNNING), init_rotation = 0,
      last_rendered_poses = Map.empty, last_gnss_timestamp = None, last_gnss_pos = None, first_render_done = False,
      gnss_prior_count = 0, gnss_rejected_sigma_count = 0, gnss_rejected_interval_count = 0,
      gnss_rejected_innovation_count = 0, gnss_rejected_status_count = 0, reanchor_samples = [], dynamic_reanchored = False,
      init_gnss_pts = [], init_odom_pts = []\<rparr>"

abbreviation oc_nodes :: "('b, 'g) orch_env \<Rightarrow> ('b, 'g) orch \<Rightarrow> PoseNode list" where
  "oc_nodes env oc \<equiv> ba_nodes (env_builder env) (oc_builder oc)"

abbreviation oc_edges :: "('b, 'g) orch_env \<Rightarrow> ('b, 'g) orch \<Rightarrow> PoseEdge list" where
  "oc_edges env oc \<equiv> ba_edges (env_builder env) (oc_builder oc)"

section \<open>Heading from positions\<close>

definition estimate_heading_pca :: "('b, 'g) orch_env \<Rightarrow> vec2 list \<Rightarrow> (real \<times> real) option" where
  "estimate_heading_pca env pts =
     (if length pts < 2 then None
      else
        let inv_n = 1 / real (length pts);
            mean_x = sum_list (map fst pts) * inv_n; mean_y = sum_list (map snd pts) * inv_n;
            c_xx = sum_list (map (\<lambda>(x, y). (x - mean_x) * (x - mean_x)) pts) * inv_n;
            c_yy = sum_list (map (\<lambda>(x, y). (y - mean_y) * (y - mean_y)) pts) * inv_n;
            c_xy = sum_list (map (\<lambda>(x, y). (x - mean_x) * (y - mean_y)) pts) * inv_n
        in case eigen2 env ((c_xx, c_xy), (c_xy, c_yy)) of
             None \<Rightarrow> None
           | Some ((ax, ay), lambda_max, lambda_min) \<Rightarrow>
               let linearity = lambda_max / max (lambda_max + lambda_min) (1 / 10 ^ 9);
                   d_x = fst (last pts) - fst (hd pts); d_y = snd (last pts) - snd (hd pts);
                   (ax, ay) = (if ax * d_x + ay * d_y < 0 then (- ax, - ay) else (ax, ay))
               in Some (atan2 ay ax, linearity))"

section \<open>Registration of edges\<close>

definition edge_gap :: "PoseEdge \<Rightarrow> int" where
  "edge_gap e = \<bar>e_to e - e_from e\<bar>"

definition register_edge :: "PoseEdge \<Rightarrow> 'g isam2_optimizer \<Rightarrow> 'g isam2_optimizer" where
  "register_edge e = add_between_factor (e_from e) (e_to e) (e_dx e) (e_dy e) (e_dyaw e) (e_information e)"

definition alignment_rotation :: "('b, 'g) orch_env \<Rightarrow> vec2 list \<Rightarrow> vec2 list \<Rightarrow> vec2 \<Rightarrow> PoseNode list \<Rightarrow> real" where
  "alignment_rotation env gnss_pts odom_pts = (\<lambda>(lx, ly) nodes.
     let gnss_pca = estimate_heading_pca env gnss_pts; odom_pca = estimate_heading_pca env odom_pts;
         fallback = (let theta0 = atan2 ly lx; node0 = hd nodes; curr = last nodes;
                         odom_dx = n_x curr - n_x node0; odom_dy = n_y curr - n_y node0
                     in if 0.5 < hypot odom_dx odom_dy then angle_diff theta0 (atan2 odom_dy odom_dx)
                        else angle_diff theta0 (n_yaw node0))
     in case (gnss_pca, odom_pca) of
          (Some (gnss_heading, linearity), Some (odom_heading, _)) \<Rightarrow>
            if 0.85 \<le> linearity then angle_diff gnss_heading odom_heading else fallback
        | _ \<Rightarrow> fallback)"

definition align_graph :: "('b, 'g) orch_env \<Rightarrow> real \<Rightarrow> ('b, 'g) orch \<Rightarrow> ('b, 'g) orch" where
  "align_graph env rot oc =
     (let nodes = oc_nodes env oc; node0 = hd nodes; cfg = oc_cfg oc;
          opt = opt_initialize (env_gtsam env) (n_index node0) 0 0 (n_yaw node0 + rot) (anchor_sigma_m cfg)
                  (anchor_init_yaw_sigma_rad cfg) (oc_opt oc);
          nodes = rebase_and_rotate_nodes nodes rot;
          opt = fold (\<lambda>n. if n_index n \<noteq> n_index node0 then add_initial_estimate (n_index n) (n_x n) (n_y n) (n_yaw n) else id) nodes opt;
          oc = oc\<lparr>init_rotation := rot, init_gnss_pts := [], init_odom_pts := [],
                  oc_builder := ba_replace (env_builder env) nodes (oc_builder oc)\<rparr>;
          edges = oc_edges env oc;
          opt = fold register_edge edges opt
      in oc\<lparr>oc_opt := opt, last_loop_edge_count := length (filter (\<lambda>e. 15 \<le> edge_gap e) edges), oc_state := RUNNING,
            last_node_index := n_index (last nodes), oc_initialized := True\<rparr>)"

definition initialize_with_gnss_if_ready :: "('b, 'g) orch_env \<Rightarrow> SensorFrame \<Rightarrow> ('b, 'g) orch \<Rightarrow> ('b, 'g) orch option" where
  "initialize_with_gnss_if_ready env frame oc =
     (case (f_gnss frame, oc_anchor oc) of
        (Some gnss, Some anchor) \<Rightarrow>
          if \<not> use_gnss (oc_cfg oc) \<or> oc_state oc \<noteq> INITIALIZING then Some oc
          else
            let anchor = (if anchor_is_initialized anchor then anchor
                          else snd (try_set_anchor (env_geo env) gnss (anchor_min_fix_status (oc_cfg oc)) anchor));
                oc = oc\<lparr>oc_anchor := Some anchor\<rparr>
            in if \<not> anchor_is_initialized anchor then Some oc
               else do {
                 (lx, ly) \<leftarrow> to_local anchor gnss;
                 let oc = oc\<lparr>init_gnss_pts := init_gnss_pts oc @ [(lx, ly)]\<rparr>;
                 let nodes = oc_nodes env oc;
                 if nodes = [] then Some oc
                 else
                   let curr = last nodes; oc = oc\<lparr>init_odom_pts := init_odom_pts oc @ [(n_x curr, n_y curr)]\<rparr>
                   in Some (if hypot lx ly < gnss_init_distance_m (oc_cfg oc) then oc
                            else align_graph env (alignment_rotation env (init_gnss_pts oc) (init_odom_pts oc) (lx, ly) nodes) oc)
               }
      | _ \<Rightarrow> Some oc)"

definition initialize_optimizer_if_needed :: "('b, 'g) orch_env \<Rightarrow> PoseNode \<Rightarrow> ('b, 'g) orch \<Rightarrow> ('b, 'g) orch option" where
  "initialize_optimizer_if_needed env node oc =
     (if oc_initialized oc then Some oc
      else do {
        opt \<leftarrow> opt_update (env_gtsam env)
          (opt_initialize (env_gtsam env) (n_index node) (n_x node) (n_y node) (n_yaw node) 0.05 10 (oc_opt oc));
        Some (oc\<lparr>oc_opt := opt, oc_initialized := True, last_node_index := n_index node\<rparr>)
      })"

definition get_latest_seq_edge :: "int \<Rightarrow> PoseEdge list \<Rightarrow> PoseEdge option" where
  "get_latest_seq_edge node_index all_edges = find (\<lambda>e. edge_gap e = 1 \<and> e_to e = node_index) (rev all_edges)"

definition predicted_pose :: "PoseNode \<Rightarrow> PoseEdge \<Rightarrow> pose option \<Rightarrow> pose" where
  "predicted_pose node edge prev_pose =
     (case prev_pose of
        None \<Rightarrow> (n_x node, n_y node, n_yaw node)
      | Some (x, y, yaw) \<Rightarrow>
          (x + cos yaw * e_dx edge - sin yaw * e_dy edge, y + sin yaw * e_dx edge + cos yaw * e_dy edge, yaw + e_dyaw edge))"

definition is_near_link :: "int \<Rightarrow> PoseEdge \<Rightarrow> bool" where
  "is_near_link node_index e \<longleftrightarrow> e_to e = node_index \<and> 1 < edge_gap e \<and> edge_gap e < 15"

definition add_latest_seq_edge :: "PoseNode \<Rightarrow> PoseEdge list \<Rightarrow> ('b, 'g) orch \<Rightarrow> PoseEdge option \<times> ('b, 'g) orch" where
  "add_latest_seq_edge node all_edges oc =
     (case get_latest_seq_edge (n_index node) all_edges of
        None \<Rightarrow> (None, oc)
      | Some edge \<Rightarrow>
          if last_node_index oc < n_index node then
            let (x, y, yaw) = predicted_pose node edge (get_pose (e_from edge) (oc_opt oc));
                opt = add_initial_estimate (n_index node) x y yaw (oc_opt oc);
                opt = register_edge edge opt;
                opt = fold register_edge (filter (is_near_link (n_index node)) (rev all_edges)) opt
            in (Some edge, oc\<lparr>oc_opt := opt, last_node_index := n_index node\<rparr>)
          else (None, oc))"

definition add_new_loop_edges :: "PoseEdge list \<Rightarrow> ('b, 'g) orch \<Rightarrow> (PoseEdge list \<times> bool) \<times> ('b, 'g) orch" where
  "add_new_loop_edges all_edges oc =
     (let loops = filter (\<lambda>e. 15 \<le> edge_gap e) all_edges
      in if last_loop_edge_count oc < length loops then
           let fresh = drop (last_loop_edge_count oc) loops
           in ((fresh, True), oc\<lparr>oc_opt := fold register_edge fresh (oc_opt oc), last_loop_edge_count := length loops\<rparr>)
         else (([], False), oc))"

section \<open>GNSS\<close>

definition sigma_from_gnss :: "orch_config \<Rightarrow> GnssData \<Rightarrow> real" where
  "sigma_from_gnss cfg gnss =
     (let cov_xx = fst (fst (g_cov gnss))
      in if 0 < cov_xx then sqrt cov_xx
         else if 2 \<le> g_fix gnss then gnss_fix_sigma_m cfg
         else if 0 \<le> g_fix gnss then gnss_float_sigma_m cfg
         else - 1)"

definition vdist :: "vec2 \<Rightarrow> vec2 \<Rightarrow> real" where
  "vdist = (\<lambda>(ax, ay) (bx, by). hypot (ax - bx) (ay - by))"

fun drop_far :: "(vec2 \<times> vec2) list \<Rightarrow> (vec2 \<times> vec2) list" where
  "drop_far (a # b # rest) = (if 25 < vdist (fst (last (b # rest))) (fst a) then drop_far (b # rest) else a # b # rest)"
| "drop_far samples = samples"

definition limit_samples :: "int \<Rightarrow> (vec2 \<times> vec2) list \<Rightarrow> (vec2 \<times> vec2) list" where
  "limit_samples min_samples samples =
     (if min_samples + 5 < 0 then samples else drop (length samples - nat (min_samples + 5)) samples)"

definition max_span :: "(vec2 \<times> vec2) list \<Rightarrow> real" where
  "max_span samples =
     foldl max 0 [vdist (fst (samples ! i)) (fst (samples ! j)). i \<leftarrow> [0..<length samples], j \<leftarrow> [Suc i..<length samples]]"

definition vmean :: "vec2 list \<Rightarrow> vec2" where
  "vmean vs = (sum_list (map fst vs) / real (length vs), sum_list (map snd vs) / real (length vs))"

fun mat2_mul :: "mat2 \<Rightarrow> mat2 \<Rightarrow> mat2" where
  "mat2_mul ((a, b), (c, d)) ((e, f), (g, h)) = ((a * e + b * g, a * f + b * h), (c * e + d * g, c * f + d * h))"

fun mat2_transpose :: "mat2 \<Rightarrow> mat2" where
  "mat2_transpose ((a, b), (c, d)) = ((a, c), (b, d))"

fun mat2_det :: "mat2 \<Rightarrow> real" where
  "mat2_det ((a, b), (c, d)) = a * d - b * c"

fun mat2_vec :: "mat2 \<Rightarrow> vec2 \<Rightarrow> vec2" where
  "mat2_vec ((a, b), (c, d)) (x, y) = (a * x + b * y, c * x + d * y)"

text \<open>The rotation and translation that best map the SLAM positions to UTM, and the residual.\<close>

definition fit_anchor :: "('b, 'g) orch_env \<Rightarrow> (vec2 \<times> vec2) list \<Rightarrow> vec2 \<times> real" where
  "fit_anchor env samples =
     (let n = real (length samples); (px, py) = vmean (map fst samples); (qx, qy) = vmean (map snd samples);
          h = ((sum_list (map (\<lambda>((sx, sy), (ux, uy)). (sx - px) * (ux - qx)) samples),
                sum_list (map (\<lambda>((sx, sy), (ux, uy)). (sx - px) * (uy - qy)) samples)),
               (sum_list (map (\<lambda>((sx, sy), (ux, uy)). (sy - py) * (ux - qx)) samples),
                sum_list (map (\<lambda>((sx, sy), (ux, uy)). (sy - py) * (uy - qy)) samples)));
          (u, v) = svd2 env h;
          s = ((1, 0), (0, if mat2_det (mat2_mul v (mat2_transpose u)) < 0 then - 1 else 1));
          r = mat2_mul (mat2_mul v s) (mat2_transpose u);
          (rx, ry) = mat2_vec r (px, py); anchor = (qx - rx, qy - ry);
          sum_sq = sum_list (map (\<lambda>(slam, (ux, uy)). case mat2_vec r slam of (x, y) \<Rightarrow>
              (x + fst anchor - ux)\<^sup>2 + (y + snd anchor - uy)\<^sup>2) samples)
      in (anchor, sqrt (sum_sq / n)))"

definition collect_sample :: "orch_config \<Rightarrow> PoseNode \<Rightarrow> GnssData \<Rightarrow> (vec2 \<times> vec2) list \<Rightarrow> (vec2 \<times> vec2) list" where
  "collect_sample cfg node gnss samples =
     drop_far (limit_samples (dynamic_reanchor_min_samples cfg)
       (if samples = [] \<or> 0.5 < vdist (n_x node, n_y node) (fst (last samples))
        then samples @ [((n_x node, n_y node), (g_x gnss, g_y gnss))] else samples))"

definition try_dynamic_reanchor :: "('b, 'g) orch_env \<Rightarrow> PoseNode \<Rightarrow> SensorFrame \<Rightarrow> ('b, 'g) orch \<Rightarrow> bool \<times> ('b, 'g) orch" where
  "try_dynamic_reanchor env node frame oc =
     (case (f_gnss frame, oc_anchor oc) of
        (Some gnss, Some anchor) \<Rightarrow>
          let cfg = oc_cfg oc; sigma = sigma_from_gnss cfg gnss in
          if \<not> use_gnss cfg \<or> \<not> anchor_is_initialized anchor \<or> g_fix gnss < dynamic_reanchor_min_fix_status cfg \<or>
             sigma \<le> 0 \<or> 0.5 < sigma then (False, oc)
          else
            let samples = collect_sample cfg node gnss (reanchor_samples oc); oc = oc\<lparr>reanchor_samples := samples\<rparr>
            in if int (length samples) < dynamic_reanchor_min_samples cfg \<or> max_span samples < dynamic_reanchor_min_distance_m cfg
               then (False, oc)
               else
                 let ((ax, ay), rms) = fit_anchor env samples
                 in if dynamic_reanchor_max_residual_rms_m cfg < rms then (False, oc)
                    else (True, oc\<lparr>oc_anchor := Some (update_anchor (env_geo env) ax ay anchor), last_gnss_pos := None,
                                   dynamic_reanchored := True\<rparr>)
      | _ \<Rightarrow> (False, oc))"

definition oc_add_gnss_prior :: "SensorFrame \<Rightarrow> PoseNode \<Rightarrow> ('b, 'g) orch \<Rightarrow> (GnssPrior option \<times> ('b, 'g) orch) option" where
  "oc_add_gnss_prior frame node oc =
     (case (f_gnss frame, oc_anchor oc) of
        (Some gnss, Some anchor) \<Rightarrow>
          let cfg = oc_cfg oc; sigma_xy = sigma_from_gnss cfg gnss in
          if \<not> use_gnss cfg \<or> \<not> anchor_is_initialized anchor then Some (None, oc)
          else if (case last_gnss_timestamp oc of None \<Rightarrow> False | Some t \<Rightarrow> \<bar>g_stamp gnss - t\<bar> < 1 / 10 ^ 6) then Some (None, oc)
          else if g_fix gnss < gnss_prior_min_fix_status cfg then
            Some (None, oc\<lparr>gnss_rejected_status_count := gnss_rejected_status_count oc + 1\<rparr>)
          else if sigma_xy \<le> 0 \<or> gnss_max_sigma_m cfg < sigma_xy then
            Some (None, oc\<lparr>gnss_rejected_sigma_count := gnss_rejected_sigma_count oc + 1\<rparr>)
          else do {
            (gx, gy) \<leftarrow> to_local anchor gnss;
            if 0 < gnss_max_innovation_m cfg \<and> gnss_max_innovation_m cfg < hypot (gx - n_x node) (gy - n_y node) then
              Some (None, oc\<lparr>gnss_rejected_innovation_count := gnss_rejected_innovation_count oc + 1\<rparr>)
            else if (case last_gnss_pos oc of None \<Rightarrow> False
                     | Some (px, py) \<Rightarrow> 0 < gnss_min_interval_m cfg \<and> hypot (gx - px) (gy - py) < gnss_min_interval_m cfg) then
              Some (None, oc\<lparr>gnss_rejected_interval_count := gnss_rejected_interval_count oc + 1\<rparr>)
            else
              let inv_var = 1 / max (sigma_xy * sigma_xy) (1 / 10 ^ 12)
              in Some (Some \<lparr>gp_node_index = n_index node, gp_x = gx, gp_y = gy, gp_information = ((inv_var, 0), (0, inv_var))\<rparr>,
                   oc\<lparr>oc_opt := opt_add_gnss_prior (n_index node) gx gy sigma_xy (gnss_robust_kernel cfg)
                        (gnss_robust_kernel_scale cfg) (gnss_lever_arm cfg) (oc_opt oc),
                      last_gnss_timestamp := Some (g_stamp gnss), last_gnss_pos := Some (gx, gy),
                      gnss_prior_count := gnss_prior_count oc + 1\<rparr>)
          }
      | _ \<Rightarrow> Some (None, oc))"

section \<open>Poses back to the builder\<close>

definition apply_pose :: "(int, pose) map \<Rightarrow> PoseNode \<Rightarrow> PoseNode" where
  "apply_pose all_poses n =
     (case all_poses (n_index n) of None \<Rightarrow> n | Some (x, y, yaw) \<Rightarrow> n\<lparr>n_x := x, n_y := y, n_yaw := yaw\<rparr>)"

definition displacement :: "(int, pose) map \<Rightarrow> (int, pose) map \<Rightarrow> PoseNode \<Rightarrow> real" where
  "displacement all_poses rendered n =
     (case (all_poses (n_index n), rendered (n_index n)) of
        (Some (new_x, new_y, _), Some (old_x, old_y, _)) \<Rightarrow> hypot (new_x - old_x) (new_y - old_y)
      | _ \<Rightarrow> 0)"

definition apply_optimized_poses :: "('b, 'g) orch_env \<Rightarrow> PoseNode \<Rightarrow> bool \<Rightarrow> ('b, 'g) orch \<Rightarrow> bool \<times> ('b, 'g) orch" where
  "apply_optimized_poses env node loop_closed oc =
     (let all_poses = get_all_poses (oc_opt oc); nodes = oc_nodes env oc; cfg = oc_cfg oc;
          first = use_gnss cfg \<and> last_node_index oc = n_index node \<and> init_rotation oc \<noteq> 0 \<and> 1 < length nodes \<and> \<not> first_render_done oc;
          max_displacement = foldl max 0 (map (displacement all_poses (last_rendered_poses oc)) nodes);
          rerender_required = loop_closed \<or> first \<or> (0 < rerender_threshold_m cfg \<and> rerender_threshold_m cfg \<le> max_displacement);
          nodes = map (apply_pose all_poses) nodes;
          rendered = (if rerender_required
            then fold (\<lambda>n m. m(n_index n \<mapsto> (n_x n, n_y n, n_yaw n))) nodes (last_rendered_poses oc)
            else (last_rendered_poses oc)(n_index node \<mapsto> (n_x node, n_y node, n_yaw node)))
      in (rerender_required, oc\<lparr>oc_builder := ba_replace (env_builder env) nodes (oc_builder oc),
            first_render_done := first_render_done oc \<or> first, last_rendered_poses := rendered\<rparr>))"

section \<open>process_frame and finalize\<close>

text \<open>The rest of \<^verbatim>\<open>process_frame\<close>, from \<^verbatim>\<open>initialize_optimizer_if_needed\<close> on.\<close>

definition running_frame ::
  "('b, 'g) orch_env \<Rightarrow> SensorFrame \<Rightarrow> PoseNode \<Rightarrow> ('b, 'g) orch \<Rightarrow> (ScanProcessResult \<times> ('b, 'g) orch) option" where
  "running_frame env frame node oc = do {
     oc \<leftarrow> initialize_optimizer_if_needed env node oc;
     let all_edges = oc_edges env oc;
     let (new_seq_edge, oc) = add_latest_seq_edge node all_edges oc;
     let ((new_loop_edges, loop_closed), oc) = add_new_loop_edges all_edges oc;
     let (reanchored, oc) = (if dynamic_reanchor_enabled (oc_cfg oc) \<and> \<not> dynamic_reanchored oc
                             then try_dynamic_reanchor env node frame oc else (False, oc));
     let node = (if reanchored \<and> oc_nodes env oc \<noteq> [] then last (oc_nodes env oc) else node);
     (new_gnss_prior, oc) \<leftarrow> oc_add_gnss_prior frame node oc;
     opt \<leftarrow> opt_update (env_gtsam env) (oc_opt oc);
     let (rerender_required, oc) = apply_optimized_poses env node (loop_closed \<or> reanchored) (oc\<lparr>oc_opt := opt\<rparr>);
     let node = (case get_pose (n_index node) (oc_opt oc) of
         None \<Rightarrow> node | Some (x, y, yaw) \<Rightarrow> node\<lparr>n_x := x, n_y := y, n_yaw := yaw\<rparr>);
     Some (\<lparr>r_node = Some node, r_loop_closed = loop_closed, r_rerender_required = rerender_required,
            r_new_seq_edge = new_seq_edge, r_new_loop_edges = new_loop_edges, r_new_gnss_prior = new_gnss_prior\<rparr>, oc)
   }"

definition process_frame :: "('b, 'g) orch_env \<Rightarrow> SensorFrame \<Rightarrow> ('b, 'g) orch \<Rightarrow> (ScanProcessResult \<times> ('b, 'g) orch) option" where
  "process_frame env frame oc =
     (case ba_add_scan (env_builder env) (f_scan frame) (f_odom frame) (oc_builder oc) of
        (None, b) \<Rightarrow>
          Some (\<lparr>r_node = None, r_loop_closed = False, r_rerender_required = False, r_new_seq_edge = None,
                 r_new_loop_edges = [], r_new_gnss_prior = None\<rparr>, oc\<lparr>oc_builder := b\<rparr>)
      | (Some node, b) \<Rightarrow> do {
          oc \<leftarrow> initialize_with_gnss_if_ready env frame (oc\<lparr>oc_builder := b\<rparr>);
          if oc_state oc = INITIALIZING then
            Some (\<lparr>r_node = Some node, r_loop_closed = False, r_rerender_required = False,
                   r_new_seq_edge = get_latest_seq_edge (n_index node) (oc_edges env oc),
                   r_new_loop_edges = [], r_new_gnss_prior = None\<rparr>, oc)
          else running_frame env frame node oc
        })"

definition oc_set_between_robust_kernel :: "string \<Rightarrow> real \<Rightarrow> ('b, 'g) orch \<Rightarrow> ('b, 'g) orch" where
  "oc_set_between_robust_kernel kern scale oc = oc\<lparr>oc_opt := set_between_robust_kernel kern scale (oc_opt oc)\<rparr>"

text \<open>A sequence of frames, one \<^verbatim>\<open>process_frame\<close> call after the other, keeping the results.\<close>

definition run_frames ::
  "('b, 'g) orch_env \<Rightarrow> SensorFrame list \<Rightarrow> ('b, 'g) orch \<Rightarrow> (ScanProcessResult list \<times> ('b, 'g) orch) option" where
  "run_frames env frames oc =
     fold_opt (\<lambda>frame (rs, oc). map_option (\<lambda>(r, oc). (rs @ [r], oc)) (process_frame env frame oc)) frames ([], oc)"

definition finalize :: "('b, 'g) orch_env \<Rightarrow> ('b, 'g) orch \<Rightarrow> (bool \<times> ('b, 'g) orch) option" where
  "finalize env oc = do {
     opt \<leftarrow> (if batch_on_finalize (oc_cfg oc)
             then run_batch_optimization (env_gtsam env) (batch_max_iterations (oc_cfg oc)) (oc_opt oc) else Some (oc_opt oc));
     let nodes = map (apply_pose (get_all_poses opt)) (oc_nodes env oc);
     Some (True, oc\<lparr>oc_opt := opt, oc_builder := ba_replace (env_builder env) nodes (oc_builder oc)\<rparr>)
   }"

end
