(* ===== verification/OrchestratorProps.thy ===== *)
theory OrchestratorProps
  imports PoseGraphRuns Orchestrator
begin

text \<open>
  What the orchestrator promises over every sequence of frames, whichever pose-graph builder it drives: the
  optimizer is never handed an update that GTSAM would refuse, and its factor graph holds every edge of the pose
  graph exactly once.  Proved once against the builder interface and instantiated for the builders of the code.
\<close>

section \<open>The bookkeeping of the optimizer\<close>

fun is_between :: "factor \<Rightarrow> bool" where
  "is_between (BetweenFactor _ _ _ _) = True"
| "is_between _ = False"

definition edge_factor :: "string \<Rightarrow> real \<Rightarrow> PoseEdge \<Rightarrow> factor" where
  "edge_factor kern scale e =
     BetweenFactor (e_from e) (e_to e) (e_dx e, e_dy e, e_dyaw e) (robustify (Gaussian (e_information e)) kern scale)"

definition edges_in :: "nat \<Rightarrow> PoseEdge list \<Rightarrow> bool" where
  "edges_in n es \<longleftrightarrow> (\<forall>e \<in> set es. 0 \<le> e_from e \<and> e_from e < int n \<and> 0 \<le> e_to e \<and> e_to e < int n)"

text \<open>
  The optimizer knows exactly the nodes \<open>0, \<dots>, n - 1\<close>, what waits for the next update is acceptable, and the
  between factors are those of the edges \<open>es\<close>.
\<close>

definition opt_ok :: "'g gtsam_api \<Rightarrow> string \<Rightarrow> real \<Rightarrow> nat \<Rightarrow> PoseEdge list \<Rightarrow> 'g isam2_optimizer \<Rightarrow> bool" where
  "opt_ok gt kern scale n es o' \<longleftrightarrow>
     opt_initialized o' \<and> between_robust_kernel o' = kern \<and> between_robust_scale o' = scale \<and>
     mset (filter is_between (geom_graph o')) = mset (map (edge_factor kern scale) es) \<and>
     distinct (map fst (pending_values o')) \<and>
     keysof (pending_values o') \<inter> keysof (isam_estimate gt (isam2 o')) = {} \<and>
     keysof (pending_values o') \<union> keysof (isam_estimate gt (isam2 o')) = {0..<int n} \<and>
     (\<forall>f \<in> set (pending_graph o'). set (factor_keys f) \<subseteq> {0..<int n})"

lemma is_between_edge_factor [simp]: "is_between (edge_factor kern scale e)"
  by (simp add: edge_factor_def)

lemma edge_factor_keys [simp]: "factor_keys (edge_factor kern scale e) = [e_from e, e_to e]"
  by (simp add: edge_factor_def)

lemma fold_register_edge:
  assumes "opt_initialized o'"
  shows "fold register_edge es o' =
    o'\<lparr>pending_graph := pending_graph o' @ map (edge_factor (between_robust_kernel o') (between_robust_scale o')) es,
       geom_graph := geom_graph o' @ map (edge_factor (between_robust_kernel o') (between_robust_scale o')) es\<rparr>"
  using assms
  by (induction es arbitrary: o') (simp_all add: register_edge_def add_between_factor_def edge_factor_def Let_def)

lemma filter_between_edges [simp]: "filter is_between (map (edge_factor kern scale) es) = map (edge_factor kern scale) es"
  by (simp add: filter_id_conv)

lemma opt_ok_register:
  assumes "opt_ok gt kern scale n es o'" and "edges_in n new" and "mset es' = mset es + mset new"
  shows "opt_ok gt kern scale n es' (fold register_edge new o')"
proof -
  have "opt_initialized o'" using assms(1) by (simp add: opt_ok_def)
  moreover have "mset (map (edge_factor kern scale) es') = mset (map (edge_factor kern scale) es) + mset (map (edge_factor kern scale) new)"
    using assms(3) by simp
  ultimately show ?thesis using assms(1, 2) by (auto simp: fold_register_edge opt_ok_def edges_in_def)
qed

lemma opt_ok_new_node:
  assumes "opt_ok gt kern scale n es o'"
  shows "opt_ok gt kern scale (Suc n) es (add_initial_estimate (int n) x y yaw o')"
proof -
  have "keysof (pending_values o') \<subseteq> {0..<int n}" "keysof (isam_estimate gt (isam2 o')) \<subseteq> {0..<int n}"
    using assms unfolding opt_ok_def by blast+
  then have "int n \<notin> keysof (pending_values o')" "int n \<notin> keysof (isam_estimate gt (isam2 o'))"
    by (meson atLeastLessThan_iff less_irrefl subsetD)+
  moreover have "{0..<int (Suc n)} = insert (int n) {0..<int n}" by auto
  ultimately show ?thesis using assms by (auto simp: opt_ok_def add_initial_estimate_def has_key_iff)
qed

lemma opt_ok_gnss:
  "opt_ok gt kern scale n es o' \<Longrightarrow> 0 \<le> k \<Longrightarrow> k < int n \<Longrightarrow> opt_ok gt kern scale n es (opt_add_gnss_prior k x y sigma kn sc arm o')"
  by (simp add: opt_ok_def opt_add_gnss_prior_def Let_def)

lemma opt_ok_initialize:
  assumes "gtsam_keys gt"
  shows "opt_ok gt (between_robust_kernel o') (between_robust_scale o') 1 [] (opt_initialize gt 0 x y yaw s1 s2 o')"
  using assms by (auto simp: opt_ok_def opt_initialize_def gtsam_keys_def Let_def)

lemma opt_ok_update:
  assumes "gtsam_keys gt" and "gtsam_accepts gt" and "opt_ok gt kern scale n es o'"
  shows "\<exists>o''. opt_update gt o' = Some o'' \<and> opt_ok gt kern scale n es o''"
proof (cases "pending_graph o' = [] \<and> pending_values o' = []")
  case True
  then show ?thesis using assms(3) by (simp add: opt_update_def)
next
  case False
  let ?P = "keysof (pending_values o')" and ?E = "keysof (isam_estimate gt (isam2 o'))"
  from assms(3) have d: "distinct (map fst (pending_values o'))" and dis: "?P \<inter> ?E = {}" and un: "?P \<union> ?E = {0..<int n}"
    and fk: "\<forall>f \<in> set (pending_graph o'). set (factor_keys f) \<subseteq> {0..<int n}" by (simp_all add: opt_ok_def)
  have "fst v \<notin> ?E" if "v \<in> set (pending_values o')" for v
    using imageI [OF that, of fst] dis by (rule disjoint_iff [THEN iffD1, rule_format, rotated])
  moreover have "k \<in> ?P \<or> k \<in> ?E" if "f \<in> set (pending_graph o')" "k \<in> set (factor_keys f)" for f k
  proof -
    have "k \<in> ?P \<union> ?E" unfolding un using bspec [OF fk that(1)] that(2) by (rule subsetD)
    then show ?thesis by (rule UnE) simp_all
  qed
  ultimately have "update_pre gt (pending_graph o') (pending_values o') (isam2 o')"
    unfolding update_pre_def list_all_iff has_key_iff case_prod_beta using d by blast
  with assms(2) obtain g where g: "isam_update gt (pending_graph o') (pending_values o') (isam2 o') = Some g"
    unfolding gtsam_accepts_def by blast
  with assms(1) have "keysof (isam_estimate gt g) = ?E \<union> ?P" unfolding gtsam_keys_def by blast
  then have ks: "keysof (isam_estimate gt g) = {0..<int n}" using un by (simp only: Un_commute)
  define o'' where "o'' = o'\<lparr>isam2 := g, latest_estimate := isam_estimate gt g, pending_graph := [], pending_values := []\<rparr>"
  have "opt_initialized o'" using assms(3) by (simp add: opt_ok_def)
  then have "opt_update gt o' = Some o''" using False by (auto simp: opt_update_def opt_flush_def g o''_def)
  moreover have "opt_ok gt kern scale n es o''" using assms(3) ks by (simp add: opt_ok_def o''_def)
  ultimately show ?thesis by blast
qed

section \<open>One keyframe's edges\<close>

lemma edge_gap_eq: "edge_gap e = gap e"
  by (simp add: edge_gap_def gap_def)

lemma find_rev_unique:
  assumes "length (filter P xs) = 1"
  obtains e where "find P (rev xs) = Some e" and "filter P xs = [e]"
proof -
  from assms obtain e where e: "filter P xs = [e]" by (metis length_0_conv length_Suc_conv One_nat_def)
  then have "filter P (rev xs) = [e]" by (simp flip: rev_filter)
  moreover have "find P ys = (case filter P ys of [] \<Rightarrow> None | y # _ \<Rightarrow> Some y)" for ys by (induction ys) auto
  ultimately show thesis using e that by simp
qed

lemma mset_split3:
  assumes "\<And>e. e \<in> set es \<Longrightarrow> 1 \<le> gap e"
  shows "mset es = mset (filter (\<lambda>e. gap e = 1) es) + mset (filter (\<lambda>e. 1 < gap e \<and> gap e < 15) es) + mset (filter is_loop es)"
  using assms
proof (induction es)
  case (Cons a es)
  from Cons.prems [of a] have "gap a = 1 \<or> (1 < gap a \<and> gap a < 15) \<or> 15 \<le> gap a" by auto
  with Cons show ?case by (auto simp: is_loop_def)
qed simp

lemma edges_in_mono: "edges_in n es \<Longrightarrow> n \<le> m \<Longrightarrow> edges_in m es"
  by (force simp: edges_in_def)

text \<open>The two registration steps add exactly the fresh edges.\<close>

lemma fresh_edges:
  assumes "extends n old new" and "edges_in n old" and "0 < n"
  obtains seq near where
    "get_latest_seq_edge (int n) new = Some seq" and "near = filter (is_near_link (int n)) (rev new)"
    and "mset new = mset old + mset (seq # near @ drop (length (filter is_loop old)) (filter is_loop new))"
    and "edges_in (Suc n) new" and "e_from seq = int n - 1"
proof -
  from assms(1) obtain fresh where
    f: "mset new = mset old + mset fresh" "\<forall>e \<in> set fresh. e_to e = int n \<and> 0 \<le> e_from e \<and> e_from e < int n"
      "length (filter (\<lambda>e. gap e = 1) fresh) = 1" "filter is_loop new = filter is_loop old @ filter is_loop fresh"
    using assms(3) by (auto simp: extends_def)
  have old: "e_to e \<noteq> int n" if "e \<in> set old" for e using assms(2) that by (force simp: edges_in_def)
  have flt: "mset (filter P new) = mset (filter P fresh)" if "\<And>e. P e \<Longrightarrow> e_to e = int n" for P
  proof -
    have "filter P old = []" using old that by (auto simp: filter_empty_conv)
    then have "filter_mset P (mset old) = {#}" by (metis mset.simps(1) mset_filter)
    then show ?thesis by (simp add: f(1))
  qed
  have same: "filter (\<lambda>e. edge_gap e = 1 \<and> e_to e = int n) fresh = filter (\<lambda>e. gap e = 1) fresh"
    "filter (is_near_link (int n)) fresh = filter (\<lambda>e. 1 < gap e \<and> gap e < 15) fresh"
    using f(2) by (auto simp: edge_gap_eq is_near_link_def intro!: filter_cong)
  have one: "mset (filter (\<lambda>e. edge_gap e = 1 \<and> e_to e = int n) new) = mset (filter (\<lambda>e. gap e = 1) fresh)"
    by (subst flt) (simp_all add: same(1) [symmetric])
  then have "length (filter (\<lambda>e. edge_gap e = 1 \<and> e_to e = int n) new) = 1" using f(3) by (metis size_mset)
  then obtain seq where seq: "find (\<lambda>e. edge_gap e = 1 \<and> e_to e = int n) (rev new) = Some seq"
    "filter (\<lambda>e. edge_gap e = 1 \<and> e_to e = int n) new = [seq]" by (rule find_rev_unique)
  have sq: "mset [seq] = mset (filter (\<lambda>e. gap e = 1) fresh)" using one seq(2) by metis
  have "mset (filter (is_near_link (int n)) (rev new)) = mset (filter (is_near_link (int n)) new)" by (simp flip: rev_filter)
  also have "\<dots> = mset (filter (\<lambda>e. 1 < gap e \<and> gap e < 15) fresh)"
    by (subst flt) (auto simp: is_near_link_def same(2) [symmetric])
  finally have near: "mset (filter (is_near_link (int n)) (rev new)) = mset (filter (\<lambda>e. 1 < gap e \<and> gap e < 15) fresh)" .
  have loops: "drop (length (filter is_loop old)) (filter is_loop new) = filter is_loop fresh" by (simp add: f(4))
  have "mset fresh = mset (filter (\<lambda>e. gap e = 1) fresh) + mset (filter (\<lambda>e. 1 < gap e \<and> gap e < 15) fresh) + mset (filter is_loop fresh)"
    using f(2) by (intro mset_split3) (force simp: gap_def)
  also have "\<dots> = mset (seq # filter (is_near_link (int n)) (rev new) @ drop (length (filter is_loop old)) (filter is_loop new))"
    unfolding loops using sq near by (simp del: mset_filter)
  finally have m: "mset new = mset old + mset (seq # filter (is_near_link (int n)) (rev new) @ drop (length (filter is_loop old)) (filter is_loop new))"
    using f(1) by simp
  have sn: "set new = set old \<union> set fresh" using f(1) by (metis set_mset_mset set_mset_union)
  then have "edges_in (Suc n) new" using assms(2) f(2) unfolding edges_in_def by force
  moreover have "seq \<in> set fresh" using sq by (metis filter_is_subset list.set_intros(1) mset_eq_setD subsetD)
  then have "e_from seq = int n - 1" using f(2) seq(2) by (force simp: edge_gap_def filter_eq_Cons_iff)
  ultimately show thesis using that [OF _ refl m] seq(1) by (simp add: get_latest_seq_edge_def)
qed

section \<open>The invariant of the orchestrator\<close>

text \<open>Once the frame of the map is known, the optimizer is up to date with the pose graph.\<close>

definition synced :: "('b, 'g) orch_env \<Rightarrow> string \<Rightarrow> real \<Rightarrow> ('b, 'g) orch \<Rightarrow> bool" where
  "synced env kern scale oc \<longleftrightarrow>
     oc_initialized oc \<and> oc_state oc = RUNNING \<and> oc_nodes env oc \<noteq> [] \<and>
     last_node_index oc = int (length (oc_nodes env oc)) - 1 \<and>
     last_loop_edge_count oc = length (filter is_loop (oc_edges env oc)) \<and>
     edges_in (length (oc_nodes env oc)) (oc_edges env oc) \<and>
     opt_ok (env_gtsam env) kern scale (length (oc_nodes env oc)) (oc_edges env oc) (oc_opt oc)"

text \<open>Before that the optimizer is unused, and without GNSS there is no node yet.\<close>

definition waiting :: "('b, 'g) orch_env \<Rightarrow> string \<Rightarrow> real \<Rightarrow> ('b, 'g) orch \<Rightarrow> bool" where
  "waiting env kern scale oc \<longleftrightarrow>
     \<not> oc_initialized oc \<and> \<not> opt_initialized (oc_opt oc) \<and>
     between_robust_kernel (oc_opt oc) = kern \<and> between_robust_scale (oc_opt oc) = scale \<and>
     edges_in (length (oc_nodes env oc)) (oc_edges env oc) \<and>
     (oc_state oc = RUNNING \<longrightarrow> oc_nodes env oc = [] \<and> oc_edges env oc = [] \<and> last_loop_edge_count oc = 0)"

lemma is_loop_filter: "filter (\<lambda>e. 15 \<le> edge_gap e) = filter is_loop"
proof -
  have "is_loop = (\<lambda>e. 15 \<le> edge_gap e)" by (simp add: fun_eq_iff edge_gap_eq is_loop_def)
  then show ?thesis by (simp only:)
qed

lemma synced_nothing_new:
  assumes "synced env kern scale oc" and "n_index node = last_node_index oc"
  shows "add_latest_seq_edge node (oc_edges env oc) oc = (None, oc)" and "add_new_loop_edges (oc_edges env oc) oc = (([], False), oc)"
  using assms by (auto simp: synced_def add_latest_seq_edge_def add_new_loop_edges_def is_loop_filter Let_def split: option.split)

lemma synced_cong:
  assumes "synced env kern scale oc" and "oc_builder oc' = oc_builder oc" and "oc_opt oc' = oc_opt oc"
    and "oc_initialized oc' = oc_initialized oc" and "oc_state oc' = oc_state oc" and "last_node_index oc' = last_node_index oc"
    and "last_loop_edge_count oc' = last_loop_edge_count oc"
  shows "synced env kern scale oc'"
  using assms by (simp add: synced_def)

lemma try_dynamic_reanchor_frame:
  assumes "try_dynamic_reanchor env node frame oc = (r, oc')"
  shows "oc_builder oc' = oc_builder oc" "oc_opt oc' = oc_opt oc" "oc_initialized oc' = oc_initialized oc"
    "oc_state oc' = oc_state oc" "last_node_index oc' = last_node_index oc" "last_loop_edge_count oc' = last_loop_edge_count oc"
  using assms by (auto simp: try_dynamic_reanchor_def Let_def split: option.splits if_splits prod.splits)

lemma oc_add_gnss_prior_frame:
  assumes "oc_add_gnss_prior frame node oc = Some (p, oc')"
  shows "oc_builder oc' = oc_builder oc \<and> oc_initialized oc' = oc_initialized oc \<and> oc_state oc' = oc_state oc \<and>
    last_node_index oc' = last_node_index oc \<and> last_loop_edge_count oc' = last_loop_edge_count oc \<and>
    (\<forall>gt kern scale n es. opt_ok gt kern scale n es (oc_opt oc) \<longrightarrow> 0 \<le> n_index node \<longrightarrow> n_index node < int n \<longrightarrow>
       opt_ok gt kern scale n es (oc_opt oc'))"
    (is "?P oc'")
proof -
  have "pred_option (\<lambda>(p, oc'). ?P oc') (oc_add_gnss_prior frame node oc)"
    by (simp add: oc_add_gnss_prior_def Let_def opt_ok_gnss split: option.split bind_split)
  then show ?thesis by (simp add: assms)
qed

lemma oc_add_gnss_prior_defined: "\<exists>p oc'. oc_add_gnss_prior frame node oc = Some (p, oc')"
proof (cases "\<exists>a. oc_anchor oc = Some a \<and> anchor_is_initialized a")
  case True
  then obtain a where a: "oc_anchor oc = Some a" "anchor_is_initialized a" by blast
  show ?thesis
  proof (cases "f_gnss frame")
    case (Some g)
    from to_local_defined [OF a(2), of g] obtain q where "to_local a g = Some q" by blast
    then show ?thesis by (cases q) (simp add: oc_add_gnss_prior_def a(1) Some Let_def)
  qed (simp add: oc_add_gnss_prior_def)
qed (auto simp: oc_add_gnss_prior_def Let_def split: option.split)

lemma synced_gnss_prior:
  assumes "synced env kern scale oc" and "0 \<le> n_index node" and "n_index node < int (length (oc_nodes env oc))"
    and p: "oc_add_gnss_prior frame node oc = Some (p, oc')"
  shows "synced env kern scale oc'"
proof -
  have "opt_ok (env_gtsam env) kern scale (length (oc_nodes env oc)) (oc_edges env oc) (oc_opt oc')"
    using oc_add_gnss_prior_frame [OF p] assms(1-3) by (simp add: synced_def)
  then show ?thesis using assms(1) oc_add_gnss_prior_frame [OF p] by (simp add: synced_def)
qed

section \<open>Frames against the builder interface\<close>

definition builder_ops ::
  "(ScanData option \<Rightarrow> OdomData \<Rightarrow> 'b \<Rightarrow> PoseNode option \<times> 'b) \<Rightarrow> ('b \<Rightarrow> PoseNode list) \<Rightarrow> ('b \<Rightarrow> PoseEdge list) \<Rightarrow>
   (PoseNode list \<Rightarrow> 'b \<Rightarrow> 'b) \<Rightarrow> 'b builder_api" where
  "builder_ops add ns es rep = \<lparr>ba_add_scan = add, ba_nodes = ns, ba_edges = es, ba_replace = rep\<rparr>"

lemma builder_ops_simps [simp]:
  "ba_add_scan (builder_ops add ns es rep) = add" "ba_nodes (builder_ops add ns es rep) = ns"
  "ba_edges (builder_ops add ns es rep) = es" "ba_replace (builder_ops add ns es rep) = rep"
  by (simp_all add: builder_ops_def)

lemma apply_pose_index [simp]: "n_index (apply_pose m n) = n_index n"
  by (simp add: apply_pose_def split: option.split)

lemma rebase_index [simp]: "map n_index (rebase_and_rotate_nodes nodes rot) = map n_index nodes"
  by (simp add: rebase_and_rotate_nodes_def Let_def o_def split: list.split)

lemma align_estimates:
  assumes "opt_ok gt kern scale (Suc k) es o'" and "map n_index ns = map int [Suc k..<m]" and "Suc k \<le> m"
  shows "opt_ok gt kern scale m es
    (fold (\<lambda>n. if n_index n \<noteq> 0 then add_initial_estimate (n_index n) (n_x n) (n_y n) (n_yaw n) else id) ns o')"
  using assms
proof (induction ns arbitrary: k o')
  case Nil
  then have "m = Suc k" by simp
  with Nil show ?case by simp
next
  case (Cons n ns)
  from Cons.prems(2) have lt: "Suc k < m" by (metis length_map length_upt list.size(3) map_is_Nil_conv not_less upt_eq_Nil_conv list.distinct(1))
  then have "map n_index (n # ns) = int (Suc k) # map int [Suc (Suc k)..<m]" using Cons.prems(2) by (simp add: upt_conv_Cons)
  then have n: "n_index n = int (Suc k)" "map n_index ns = map int [Suc (Suc k)..<m]" by simp_all
  have "opt_ok gt kern scale (Suc (Suc k)) es (add_initial_estimate (int (Suc k)) (n_x n) (n_y n) (n_yaw n) o')"
    using Cons.prems(1) by (rule opt_ok_new_node)
  from Cons.IH [OF this n(2)] lt show ?case by (simp add: n(1))
qed

context pose_graph_builder
begin

lemma indexed_hd: "inv b \<Longrightarrow> nodes_of b \<noteq> [] \<Longrightarrow> n_index (hd (nodes_of b)) = 0"
  using indexed_nth [OF inv_indexed, of b 0] by (simp add: hd_conv_nth)

lemma apply_optimized_synced:
  assumes "env_builder env = builder_ops add_scan nodes_of edges_of replace_nodes"
    and "inv (oc_builder oc)" and "synced env kern scale oc" and "apply_optimized_poses env node lc oc = (r, oc')"
  shows "inv (oc_builder oc')" and "synced env kern scale oc'"
proof -
  let ?ns = "map (apply_pose (get_all_poses (oc_opt oc))) (nodes_of (oc_builder oc))"
  have ix: "map n_index ?ns = map n_index (nodes_of (oc_builder oc))" by simp
  note rep = replace_keeps [OF assms(2) ix]
  have oc': "oc_builder oc' = replace_nodes ?ns (oc_builder oc)" "oc_opt oc' = oc_opt oc" "oc_initialized oc' = oc_initialized oc"
    "oc_state oc' = oc_state oc" "last_node_index oc' = last_node_index oc" "last_loop_edge_count oc' = last_loop_edge_count oc"
    using assms(4) by (auto simp: apply_optimized_poses_def Let_def assms(1))
  show "inv (oc_builder oc')" using rep by (simp add: oc')
  show "synced env kern scale oc'" using assms(3) rep by (simp add: synced_def oc' assms(1))
qed

lemma align_graph_synced:
  assumes "env_builder env = builder_ops add_scan nodes_of edges_of replace_nodes" and "gtsam_keys (env_gtsam env)"
    and "inv (oc_builder oc)" and "nodes_of (oc_builder oc) \<noteq> []"
    and "edges_in (length (nodes_of (oc_builder oc))) (edges_of (oc_builder oc))"
    and "between_robust_kernel (oc_opt oc) = kern" and "between_robust_scale (oc_opt oc) = scale"
  shows "inv (oc_builder (align_graph env rot oc)) \<and> synced env kern scale (align_graph env rot oc) \<and>
    length (oc_nodes env (align_graph env rot oc)) = length (nodes_of (oc_builder oc))"
proof -
  let ?gt = "env_gtsam env" and ?nodes = "nodes_of (oc_builder oc)" and ?edges = "edges_of (oc_builder oc)"
  let ?ns = "rebase_and_rotate_nodes ?nodes rot"
  let ?o1 = "opt_initialize ?gt 0 0 0 (n_yaw (hd ?nodes) + rot) (anchor_sigma_m (oc_cfg oc)) (anchor_init_yaw_sigma_rad (oc_cfg oc)) (oc_opt oc)"
  let ?o2 = "fold (\<lambda>n. if n_index n \<noteq> 0 then add_initial_estimate (n_index n) (n_x n) (n_y n) (n_yaw n) else id) ?ns ?o1"
  let ?n = "length ?nodes"
  note rep = replace_keeps [OF assms(3) rebase_index [of ?nodes rot]]
  have hd: "n_index (hd ?nodes) = 0" using assms(3, 4) by (rule indexed_hd)
  have ix: "map n_index ?ns = map int [0..<?n]" using inv_indexed [OF assms(3)] by (simp add: indexed_def)
  have "0 < ?n" using assms(4) by simp
  then have "map n_index ?ns = 0 # map int [Suc 0..<?n]" using ix by (simp add: upt_conv_Cons)
  then obtain n0 rest where ns: "?ns = n0 # rest" "n_index n0 = 0" "map n_index rest = map int [Suc 0..<?n]"
    unfolding map_eq_Cons_conv by blast
  have "opt_ok ?gt kern scale (Suc 0) [] ?o1"
    using opt_ok_initialize [OF assms(2), of "oc_opt oc"] by (simp add: assms(6, 7))
  from align_estimates [OF this ns(3)] \<open>0 < ?n\<close> have "opt_ok ?gt kern scale ?n [] ?o2" by (simp add: ns(1, 2))
  from opt_ok_register [OF this assms(5), of ?edges] have ok: "opt_ok ?gt kern scale ?n ?edges (fold register_edge ?edges ?o2)" by simp
  have "indexed ?ns" using ix by (simp add: indexed_def)
  then have lst: "n_index (last ?ns) = int ?n - 1" using indexed_last [of ?ns] assms(4) by (metis length_0_conv rebase_length)
  have "?ns \<noteq> []" by (simp add: ns(1))
  then show ?thesis using rep ok assms(5) lst \<open>0 < ?n\<close>
    by (auto simp: align_graph_def Let_def assms(1) hd synced_def is_loop_filter)
qed

end

definition same_book :: "('b, 'g) orch \<Rightarrow> ('b, 'g) orch \<Rightarrow> bool" where
  "same_book oc oc' \<longleftrightarrow>
     oc_builder oc' = oc_builder oc \<and> oc_opt oc' = oc_opt oc \<and> oc_initialized oc' = oc_initialized oc \<and>
     oc_state oc' = oc_state oc \<and> last_node_index oc' = last_node_index oc \<and> last_loop_edge_count oc' = last_loop_edge_count oc"

lemma gnss_init_cases:
  obtains (unchanged) oc1 where "initialize_with_gnss_if_ready env frame oc = Some oc1" and "same_book oc oc1"
  | (aligned) rot oc2 where "initialize_with_gnss_if_ready env frame oc = Some (align_graph env rot oc2)" and "same_book oc oc2"
      and "oc_state oc = INITIALIZING" and "oc_nodes env oc \<noteq> []"
proof (cases "\<exists>g a. f_gnss frame = Some g \<and> oc_anchor oc = Some a \<and> use_gnss (oc_cfg oc) \<and> oc_state oc = INITIALIZING")
  case True
  then obtain g a where g: "f_gnss frame = Some g" "oc_anchor oc = Some a" "use_gnss (oc_cfg oc)" "oc_state oc = INITIALIZING" by blast
  define a' where "a' = (if anchor_is_initialized a then a else snd (try_set_anchor (env_geo env) g (anchor_min_fix_status (oc_cfg oc)) a))"
  show thesis
  proof (cases "anchor_is_initialized a'")
    case True
    then obtain lx ly where l: "to_local a' g = Some (lx, ly)" using to_local_defined [of a' g] by fast
    show thesis
    proof (cases "oc_nodes env oc = [] \<or> hypot lx ly < gnss_init_distance_m (oc_cfg oc)")
      case True
      then have "\<exists>oc1. initialize_with_gnss_if_ready env frame oc = Some oc1 \<and> same_book oc oc1"
        using l g \<open>anchor_is_initialized a'\<close>
        by (auto simp: initialize_with_gnss_if_ready_def Let_def same_book_def simp flip: a'_def)
      with unchanged show thesis by blast
    next
      case False
      then obtain rot oc2 where "initialize_with_gnss_if_ready env frame oc = Some (align_graph env rot oc2)" "same_book oc oc2"
        using l g \<open>anchor_is_initialized a'\<close>
        by (auto simp: initialize_with_gnss_if_ready_def Let_def same_book_def simp flip: a'_def)
      with False g(4) show thesis by (intro aligned) auto
    qed
  next
    case False
    with g have "\<exists>oc1. initialize_with_gnss_if_ready env frame oc = Some oc1 \<and> same_book oc oc1"
      by (auto simp: initialize_with_gnss_if_ready_def Let_def same_book_def simp flip: a'_def)
    with unchanged show thesis by blast
  qed
next
  case False
  then have "initialize_with_gnss_if_ready env frame oc = Some oc"
    by (auto simp: initialize_with_gnss_if_ready_def Let_def split: option.split)
  then show thesis by (rule unchanged) (simp add: same_book_def)
qed

context pose_graph_builder
begin

lemma running_frame_ok:
  assumes "env_builder env = builder_ops add_scan nodes_of edges_of replace_nodes" and "gtsam_keys (env_gtsam env)"
    and "gtsam_accepts (env_gtsam env)" and "inv (oc_builder oc)"
    and "initialize_optimizer_if_needed env node oc = Some oc1" and "oc_builder oc1 = oc_builder oc"
    and "add_latest_seq_edge node (edges_of (oc_builder oc1)) oc1 = (s, oc2)"
    and "add_new_loop_edges (edges_of (oc_builder oc1)) oc2 = ((l, c), oc3)"
    and "synced env kern scale oc3" and "oc_builder oc3 = oc_builder oc"
    and "n_index node = int (length (nodes_of (oc_builder oc))) - 1"
  shows "\<exists>r oc'. running_frame env frame node oc = Some (r, oc') \<and> inv (oc_builder oc') \<and> synced env kern scale oc'"
proof -
  obtain ra oc4 where ra: "(if dynamic_reanchor_enabled (oc_cfg oc3) \<and> \<not> dynamic_reanchored oc3
      then try_dynamic_reanchor env node frame oc3 else (False, oc3)) = (ra, oc4)" by fastforce
  have same: "oc_builder oc4 = oc_builder oc3" "synced env kern scale oc4"
    using ra assms(9) try_dynamic_reanchor_frame [of env node frame oc3 ra oc4]
    by (auto split: if_splits intro: synced_cong)
  define node' where "node' = (if ra \<and> oc_nodes env oc4 \<noteq> [] then last (oc_nodes env oc4) else node)"
  have "nodes_of (oc_builder oc) \<noteq> []" using assms(9, 10) by (simp add: synced_def assms(1))
  then have node': "0 \<le> n_index node'" "n_index node' < int (length (oc_nodes env oc4))"
    using indexed_last [OF inv_indexed [OF assms(4)]] assms(11)
    by (auto simp: node'_def same(1) assms(1, 10) Suc_le_eq)
  obtain p oc5 where p: "oc_add_gnss_prior frame node' oc4 = Some (p, oc5)" using oc_add_gnss_prior_defined by blast
  note s5 = synced_gnss_prior [OF same(2) node' p]
  then obtain opt where opt: "opt_update (env_gtsam env) (oc_opt oc5) = Some opt"
    "opt_ok (env_gtsam env) kern scale (length (oc_nodes env oc5)) (oc_edges env oc5) opt"
    using opt_ok_update [OF assms(2, 3)] unfolding synced_def by blast
  then have s6: "synced env kern scale (oc5\<lparr>oc_opt := opt\<rparr>)" using s5 by (simp add: synced_def)
  have b6: "inv (oc_builder (oc5\<lparr>oc_opt := opt\<rparr>))"
    using assms(4) oc_add_gnss_prior_frame [OF p] by (simp add: same(1) assms(10))
  obtain rr oc7 where r7: "apply_optimized_poses env node' (c \<or> ra) (oc5\<lparr>oc_opt := opt\<rparr>) = (rr, oc7)" by fastforce
  have "\<exists>r. running_frame env frame node oc = Some (r, oc7)"
    unfolding running_frame_def assms(5) Option.bind.bind_lunit Let_def assms(1) builder_ops_simps assms(7, 8) case_prod_conv ra
    by (simp add: p r7 opt(1) flip: node'_def [unfolded assms(1) builder_ops_simps])
  with apply_optimized_synced [OF assms(1) b6 s6 r7] show ?thesis by blast
qed

end

lemma extends_edges_in: "extends n old new \<Longrightarrow> edges_in n old \<Longrightarrow> edges_in (Suc n) new"
proof -
  assume "extends n old new" "edges_in n old"
  then obtain fresh where f: "mset new = mset old + mset fresh" "\<forall>e \<in> set fresh. e_to e = int n \<and> 0 \<le> e_from e \<and> e_from e < int n"
    by (auto simp: extends_def)
  have "set new = set old \<union> set fresh" using f(1) by (metis set_mset_mset set_mset_union)
  with f(2) \<open>edges_in n old\<close> show ?thesis unfolding edges_in_def by force
qed

lemma extends_zero: "extends 0 [] new \<Longrightarrow> new = []"
proof -
  assume "extends 0 [] new"
  then obtain fresh where "mset new = mset fresh" "\<forall>e \<in> set fresh. 0 \<le> e_from e \<and> e_from e < 0" by (auto simp: extends_def)
  moreover from this(2) have "fresh = []" by (cases fresh) force+
  ultimately show ?thesis by simp
qed

text \<open>A new keyframe of a running graph: its edges reach the optimizer, whether or not loops were closed.\<close>

lemma register_fresh:
  assumes "extends n old new" and "edges_in n old" and "0 < n" and "opt_ok gt kern scale n old (oc_opt oc)"
    and "last_node_index oc = int n - 1" and "last_loop_edge_count oc = length (filter is_loop old)" and "n_index node = int n"
  obtains s oc2 l c oc3 where "add_latest_seq_edge node new oc = (s, oc2)" and "add_new_loop_edges new oc2 = ((l, c), oc3)"
    and "opt_ok gt kern scale (Suc n) new (oc_opt oc3)" and "edges_in (Suc n) new" and "oc_builder oc3 = oc_builder oc"
    and "last_node_index oc3 = int n" and "last_loop_edge_count oc3 = length (filter is_loop new)"
    and "oc_initialized oc3 = oc_initialized oc" and "oc_state oc3 = oc_state oc"
proof -
  from assms(1-3) obtain seq near where
    f: "get_latest_seq_edge (int n) new = Some seq" "near = filter (is_near_link (int n)) (rev new)"
      "mset new = mset old + mset (seq # near @ drop (length (filter is_loop old)) (filter is_loop new))"
      "edges_in (Suc n) new" "e_from seq = int n - 1"
    by (rule fresh_edges)
  define loops where "loops = drop (length (filter is_loop old)) (filter is_loop new)"
  obtain x y yaw where pp: "predicted_pose node seq (get_pose (e_from seq) (oc_opt oc)) = (x, y, yaw)" using prod_cases3 by blast
  define o1 where "o1 = fold register_edge near (register_edge seq (add_initial_estimate (int n) x y yaw (oc_opt oc)))"
  define oc2 where "oc2 = oc\<lparr>oc_opt := o1, last_node_index := int n\<rparr>"
  define oc3 where "oc3 = oc2\<lparr>oc_opt := fold register_edge loops o1, last_loop_edge_count := length (filter is_loop new)\<rparr>"
  have a: "add_latest_seq_edge node new oc = (Some seq, oc2)"
    using f(1, 2) assms(5, 7) by (simp add: add_latest_seq_edge_def pp o1_def oc2_def)
  have "edges_in (Suc n) (seq # near @ loops)"
    using f(3, 4) unfolding edges_in_def loops_def by (metis Un_iff set_mset_mset set_mset_union)
  from opt_ok_register [OF opt_ok_new_node [OF assms(4)] this, of new x y yaw]
  have ok: "opt_ok gt kern scale (Suc n) new (fold register_edge loops o1)"
    using f(3) by (simp add: loops_def o1_def)
  have len: "length (filter is_loop old) \<le> length (filter is_loop new)"
    using assms(1) by (auto simp: extends_def)
  have "\<exists>l c. add_new_loop_edges new oc2 = ((l, c), oc3)"
  proof (cases "length (filter is_loop old) < length (filter is_loop new)")
    case True
    then show ?thesis using assms(6)
      by (intro exI [of _ loops] exI [of _ True])
        (simp add: add_new_loop_edges_def is_loop_filter oc2_def oc3_def loops_def Let_def)
  next
    case False
    with len have "loops = []" "length (filter is_loop old) = length (filter is_loop new)" by (simp_all add: loops_def)
    then have "oc3 = oc2" using assms(6) by (simp add: oc3_def oc2_def)
    with False show ?thesis using assms(6) by (intro exI [of _ "[]"] exI [of _ False]) (simp add: add_new_loop_edges_def is_loop_filter oc2_def Let_def)
  qed
  then obtain l c where "add_new_loop_edges new oc2 = ((l, c), oc3)" by blast
  with a show thesis by (rule that) (simp_all add: ok f(4) oc3_def oc2_def)
qed

context pose_graph_builder
begin

lemma keyframe_running:
  assumes E: "env_builder env = builder_ops add_scan nodes_of edges_of replace_nodes"
    and gt: "gtsam_keys (env_gtsam env)" "gtsam_accepts (env_gtsam env)"
    and syn: "synced env kern scale oc" and ext: "extends (length (nodes_of (oc_builder oc))) (edges_of (oc_builder oc)) (edges_of b)"
    and b: "inv b" "nodes_of b = nodes_of (oc_builder oc) @ [node]"
    and add: "add_scan (f_scan frame) (f_odom frame) (oc_builder oc) = (Some node, b)"
  shows "\<exists>r oc'. process_frame env frame oc = Some (r, oc') \<and> inv (oc_builder oc') \<and> synced env kern scale oc'"
proof -
  let ?n = "length (nodes_of (oc_builder oc))" and ?oc = "oc\<lparr>oc_builder := b\<rparr>"
  have idx: "n_index node = int ?n" using indexed_last [OF inv_indexed [OF b(1)]] b(2) by simp
  from syn have init: "oc_initialized oc" "oc_state oc = RUNNING" and n0: "0 < ?n" and old: "edges_in ?n (edges_of (oc_builder oc))"
    by (auto simp: synced_def E)
  obtain oc1 where g: "initialize_with_gnss_if_ready env frame ?oc = Some oc1" "same_book ?oc oc1"
    by (rule gnss_init_cases [of env frame ?oc]) (use init in auto)
  from syn g(2) have s: "opt_ok (env_gtsam env) kern scale ?n (edges_of (oc_builder oc)) (oc_opt oc1)"
    "last_node_index oc1 = int ?n - 1" "last_loop_edge_count oc1 = length (filter is_loop (edges_of (oc_builder oc)))"
    by (simp_all add: synced_def same_book_def E)
  from ext old n0 s idx obtain s1 oc2 l c oc3 where
    reg: "add_latest_seq_edge node (edges_of b) oc1 = (s1, oc2)" "add_new_loop_edges (edges_of b) oc2 = ((l, c), oc3)"
    "opt_ok (env_gtsam env) kern scale (Suc ?n) (edges_of b) (oc_opt oc3)" "oc_builder oc3 = oc_builder oc1"
    "last_node_index oc3 = int ?n" "last_loop_edge_count oc3 = length (filter is_loop (edges_of b))"
    "oc_initialized oc3 = oc_initialized oc1" "oc_state oc3 = oc_state oc1"
    by (rule register_fresh)
  have bk: "oc_builder oc1 = b" "oc_initialized oc1" "oc_state oc1 = RUNNING" using g(2) init by (simp_all add: same_book_def)
  have "synced env kern scale oc3" using reg bk extends_edges_in [OF ext old] b(2) by (simp add: synced_def E)
  with running_frame_ok [OF E gt, of oc1 node oc1 s1 oc2 l c oc3 kern scale frame] reg bk b idx
  show ?thesis by (auto simp: process_frame_def E add g(1) initialize_optimizer_if_needed_def)
qed

lemma first_keyframe:
  assumes E: "env_builder env = builder_ops add_scan nodes_of edges_of replace_nodes"
    and gt: "gtsam_keys (env_gtsam env)" "gtsam_accepts (env_gtsam env)"
    and oc: "\<not> oc_initialized oc" "oc_state oc = RUNNING" "last_loop_edge_count oc = 0" "between_robust_kernel (oc_opt oc) = kern"
      "between_robust_scale (oc_opt oc) = scale"
    and b: "inv (oc_builder oc)" "nodes_of (oc_builder oc) = [node]" "edges_of (oc_builder oc) = []"
  shows "\<exists>r oc'. running_frame env frame node oc = Some (r, oc') \<and> inv (oc_builder oc') \<and> synced env kern scale oc'"
proof -
  have idx: "n_index node = 0" using indexed_last [OF inv_indexed [OF b(1)]] b(2) by simp
  let ?opt = "opt_initialize (env_gtsam env) 0 (n_x node) (n_y node) (n_yaw node) 0.05 10 (oc_opt oc)"
  have "opt_ok (env_gtsam env) kern scale 1 [] ?opt"
    using opt_ok_initialize [OF gt(1), of "oc_opt oc"] oc(4, 5) by simp
  from opt_ok_update [OF gt this] obtain opt where opt: "opt_update (env_gtsam env) ?opt = Some opt"
    "opt_ok (env_gtsam env) kern scale 1 [] opt" by blast
  define oc2 where "oc2 = oc\<lparr>oc_opt := opt, oc_initialized := True, last_node_index := 0\<rparr>"
  have i2: "initialize_optimizer_if_needed env node oc = Some oc2"
    using oc(1) opt(1) idx by (simp add: initialize_optimizer_if_needed_def oc2_def)
  have s2: "synced env kern scale oc2"
    using b opt(2) oc(2, 3) by (simp add: synced_def oc2_def E edges_in_def)
  have "oc_builder oc2 = oc_builder oc" "last_node_index oc2 = 0" by (simp_all add: oc2_def)
  with running_frame_ok [OF E gt b(1) i2, of None oc2 "[]" False oc2 kern scale frame] synced_nothing_new [OF s2, of node] s2 b idx
  show ?thesis by (simp add: E)
qed

lemma keyframe_waiting:
  assumes E: "env_builder env = builder_ops add_scan nodes_of edges_of replace_nodes"
    and gt: "gtsam_keys (env_gtsam env)" "gtsam_accepts (env_gtsam env)"
    and w: "waiting env kern scale oc" and ext: "extends (length (nodes_of (oc_builder oc))) (edges_of (oc_builder oc)) (edges_of b)"
    and b: "inv b" "nodes_of b = nodes_of (oc_builder oc) @ [node]"
    and add: "add_scan (f_scan frame) (f_odom frame) (oc_builder oc) = (Some node, b)"
  shows "\<exists>r oc'. process_frame env frame oc = Some (r, oc') \<and> inv (oc_builder oc') \<and>
    (synced env kern scale oc' \<or> waiting env kern scale oc')"
proof (rule gnss_init_cases [of env frame "oc\<lparr>oc_builder := b\<rparr>"])
  let ?n = "length (nodes_of (oc_builder oc))" and ?oc = "oc\<lparr>oc_builder := b\<rparr>"
  from w have new: "edges_in (Suc ?n) (edges_of b)" and kn: "between_robust_kernel (oc_opt oc) = kern" "between_robust_scale (oc_opt oc) = scale"
    using extends_edges_in [OF ext] by (auto simp: waiting_def E)
  have idx: "n_index node = int ?n" using indexed_last [OF inv_indexed [OF b(1)]] b(2) by simp
  {
    fix oc1 assume g: "initialize_with_gnss_if_ready env frame ?oc = Some oc1" "same_book ?oc oc1"
    have "oc_builder oc1 = b" "oc_state oc1 = oc_state oc" using g(2) by (simp_all add: same_book_def)
    moreover have "\<exists>r oc'. running_frame env frame node oc1 = Some (r, oc') \<and> inv (oc_builder oc') \<and> synced env kern scale oc'"
      if "oc_state oc = RUNNING"
      using that w g(2) b ext by (intro first_keyframe [OF E gt]) (auto simp: waiting_def same_book_def E dest: extends_zero)
    moreover have "waiting env kern scale oc1" if "oc_state oc \<noteq> RUNNING"
      using that w g(2) new b(2) by (auto simp: waiting_def same_book_def E)
    ultimately show ?thesis using b(1)
      by (cases "oc_state oc") (auto simp: process_frame_def E add g(1))
  next
    fix rot oc2
    assume g: "initialize_with_gnss_if_ready env frame ?oc = Some (align_graph env rot oc2)" "same_book ?oc oc2"
    let ?al = "align_graph env rot oc2"
    from align_graph_synced [OF E gt(1), of oc2 kern scale rot] g(2) kn b(1, 2) new
    have al: "inv (oc_builder ?al)" "synced env kern scale ?al" "length (nodes_of (oc_builder ?al)) = Suc ?n"
      by (auto simp: same_book_def E)
    then have "oc_initialized ?al" "oc_state ?al = RUNNING" "n_index node = last_node_index ?al"
      by (simp_all add: synced_def E idx)
    with running_frame_ok [OF E gt, of ?al node ?al None ?al "[]" False ?al kern scale frame] synced_nothing_new [OF al(2), of node] al idx
    show ?thesis by (auto simp: process_frame_def E add g(1) initialize_optimizer_if_needed_def)
  }
qed

lemma process_frame_ok:
  assumes E: "env_builder env = builder_ops add_scan nodes_of edges_of replace_nodes"
    and gt: "gtsam_keys (env_gtsam env)" "gtsam_accepts (env_gtsam env)"
    and i: "inv (oc_builder oc)" and st: "synced env kern scale oc \<or> waiting env kern scale oc"
  shows "\<exists>r oc'. process_frame env frame oc = Some (r, oc') \<and> inv (oc_builder oc') \<and>
    (synced env kern scale oc' \<or> waiting env kern scale oc')"
proof -
  obtain r b where add: "add_scan (f_scan frame) (f_odom frame) (oc_builder oc) = (r, b)" by fastforce
  show ?thesis
  proof (cases r)
    case None
    with add_none [OF i] add have "inv b" "nodes_of b = nodes_of (oc_builder oc)" "edges_of b = edges_of (oc_builder oc)" by auto
    with st show ?thesis by (auto simp: process_frame_def E add None synced_def waiting_def)
  next
    case (Some node)
    from add_some [OF i] add Some have b: "inv b" "nodes_of b = nodes_of (oc_builder oc) @ [node]"
      "extends (length (nodes_of (oc_builder oc))) (edges_of (oc_builder oc)) (edges_of b)" by auto
    show ?thesis
    proof (cases "synced env kern scale oc")
      case True
      from keyframe_running [OF E gt True b(3, 1, 2)] add Some show ?thesis by blast
    next
      case False
      with st have "waiting env kern scale oc" by simp
      from keyframe_waiting [OF E gt this b(3, 1, 2)] add Some show ?thesis by simp
    qed
  qed
qed

lemma run_frames_ok:
  assumes E: "env_builder env = builder_ops add_scan nodes_of edges_of replace_nodes"
    and gt: "gtsam_keys (env_gtsam env)" "gtsam_accepts (env_gtsam env)"
    and "inv (oc_builder oc)" and "waiting env kern scale oc"
  shows "\<exists>rs oc'. run_frames env frames oc = Some (rs, oc') \<and> inv (oc_builder oc') \<and>
    (synced env kern scale oc' \<or> waiting env kern scale oc')"
proof -
  let ?I = "\<lambda>(rs :: ScanProcessResult list, oc'). inv (oc_builder oc') \<and> (synced env kern scale oc' \<or> waiting env kern scale oc')"
  have "\<exists>s'. fold_opt (\<lambda>frame (rs, oc). map_option (\<lambda>(r, oc). (rs @ [r], oc)) (process_frame env frame oc)) frames ([], oc) = Some s' \<and> ?I s'"
  proof (rule fold_opt_defined)
    show "?I ([], oc)" using assms(4, 5) by simp
    fix f s assume "?I s"
    then obtain rs oc1 where s: "s = (rs, oc1)" "inv (oc_builder oc1)" "synced env kern scale oc1 \<or> waiting env kern scale oc1"
      by (cases s) auto
    from process_frame_ok [OF E gt s(2, 3), of f] s(1)
    show "\<exists>s'. (case s of (rs, oc) \<Rightarrow> map_option (\<lambda>(r, oc). (rs @ [r], oc)) (process_frame env f oc)) = Some s' \<and> ?I s'" by auto
  qed
  then show ?thesis by (auto simp: run_frames_def)
qed

end

section \<open>The orchestrator around the loop-closure builder\<close>

definition loop_closing_env ::
  "('m, 'p, 'l) lc_env \<Rightarrow> 'g gtsam_api \<Rightarrow> projection \<Rightarrow> (mat2 \<Rightarrow> (vec2 \<times> real \<times> real) option) \<Rightarrow> (mat2 \<Rightarrow> mat2 \<times> mat2) \<Rightarrow>
     (('m, 'p, 'l) lc_builder, 'g) orch_env" where
  "loop_closing_env lenv gt geo eig svd =
     \<lparr>env_builder = builder_ops (lc_add_scan lenv) lc_get_nodes lc_get_edges (lc_replace_nodes lenv), env_gtsam = gt,
      env_geo = geo, eigen2 = eig, svd2 = svd\<rparr>"

text \<open>The orchestrator as it is constructed: empty builders, the robust kernel set.\<close>

definition new_orchestrator ::
  "(('m, 'p, 'l) lc_builder, 'g) orch_env \<Rightarrow> ('m, 'p) sm_builder \<Rightarrow> (('m, 'p) sm_builder \<Rightarrow> ('m, 'p, 'l) lc_builder) \<Rightarrow>
     orch_config \<Rightarrow> real \<Rightarrow> string \<Rightarrow> real \<Rightarrow> (('m, 'p, 'l) lc_builder, 'g) orch" where
  "new_orchestrator env inner lc cfg threshold kern scale =
     oc_set_between_robust_kernel kern scale (GraphOrchestrator env (lc inner) cfg threshold)"

lemma new_orchestrator_waiting:
  assumes "nodes_of = ba_nodes (env_builder env)" "nodes_of (lc inner) = []" "ba_edges (env_builder env) (lc inner) = []"
  shows "waiting env kern scale (new_orchestrator env inner lc cfg threshold kern scale)"
  using assms by (simp add: waiting_def new_orchestrator_def oc_set_between_robust_kernel_def set_between_robust_kernel_def
      GraphOrchestrator_def ISAM2Optimizer_def edges_in_def)

lemma lc_inv_new:
  assumes "search_ok lenv" and "near_link_buffer_size smc < 15" and "2 \<le> near_link_min_index_diff smc" and "2 \<le> node_gap"
  shows "lc_inv lenv (LoopClosureBuilder (ScanMatchingBuilder smc m p) l rad node_gap streak dyaw cross sub score)"
  using assms by (simp add: lc_inv_def LoopClosureBuilder_def ScanMatchingBuilder_def lc_get_nodes_def indexed_def)

lemma indexed_keys: "indexed nodes \<Longrightarrow> n_index ` set nodes = {0..<int (length nodes)}"
proof -
  assume "indexed nodes"
  then have "set (map n_index nodes) = set (map int [0..<length nodes])" by (simp only: indexed_def)
  then show ?thesis by (simp add: image_int_atLeastLessThan)
qed

lemma run_frames_length: "run_frames env frames oc = Some (rs, oc') \<Longrightarrow> length rs = length frames"
proof -
  have "fold_opt (\<lambda>frame (rs, oc). map_option (\<lambda>(r, oc). (rs @ [r], oc)) (process_frame env frame oc)) frames (rs0, oc) = Some (rs, oc') \<Longrightarrow>
      length rs = length rs0 + length frames" for rs0
  proof (induction frames arbitrary: rs0 oc)
    case (Cons f frames)
    then obtain r oc1 where "process_frame env f oc = Some (r, oc1)" by (auto simp: bind_eq_Some_conv)
    with Cons.IH [of "rs0 @ [r]" oc1] Cons.prems show ?case by simp
  qed simp
  from this [of "[]"] show "run_frames env frames oc = Some (rs, oc') \<Longrightarrow> length rs = length frames" by (simp add: run_frames_def)
qed

lemma loop_closing_run:
  assumes "gtsam_keys gt" and "gtsam_accepts gt" and "search_ok lenv"
    and "near_link_buffer_size smc < 15" and "2 \<le> near_link_min_index_diff smc" and "2 \<le> node_gap"
    and "env = loop_closing_env lenv gt geo eig svd"
    and "lc = (\<lambda>inner. LoopClosureBuilder inner l rad node_gap streak dyaw cross sub score)"
  shows "\<exists>rs oc. run_frames env frames (new_orchestrator env (ScanMatchingBuilder smc m p) lc cfg threshold kern scale) = Some (rs, oc) \<and>
    lc_inv lenv (oc_builder oc) \<and> (synced env kern scale oc \<or> waiting env kern scale oc)"
proof -
  let ?oc = "new_orchestrator env (ScanMatchingBuilder smc m p) lc cfg threshold kern scale"
  have E: "env_builder env = builder_ops (lc_add_scan lenv) lc_get_nodes lc_get_edges (lc_replace_nodes lenv)" "env_gtsam env = gt"
    by (simp_all add: assms(7) loop_closing_env_def)
  have "waiting env kern scale ?oc"
    by (rule new_orchestrator_waiting [OF refl])
      (simp_all add: E assms(8) LoopClosureBuilder_def ScanMatchingBuilder_def lc_get_nodes_def lc_get_edges_def)
  moreover have "lc_inv lenv (oc_builder ?oc)"
    using lc_inv_new [OF assms(3-6)] by (simp add: new_orchestrator_def oc_set_between_robust_kernel_def GraphOrchestrator_def assms(8))
  ultimately show ?thesis using loop_closing.run_frames_ok [OF E(1)] assms(1, 2) E(2) by metis
qed



text \<open>A concrete instance: an incremental solver that only collects values.\<close>

definition list_gtsam :: "valuesT gtsam_api" where
  "list_gtsam = \<lparr>isam_new = (\<lambda>_. []), isam_update = (\<lambda>_ vs g. Some (g @ vs)), isam_estimate = (\<lambda>g. g),
     lm_optimize = (\<lambda>_ _ vs. Some vs)\<rparr>"

definition sample_orch_config :: orch_config where
  "sample_orch_config = \<lparr>use_gnss = False, anchor_min_fix_status = 0, gnss_fix_sigma_m = 1, gnss_float_sigma_m = 1,
     gnss_init_distance_m = 2, gnss_max_sigma_m = 5, rerender_threshold_m = 0, gnss_min_interval_m = 1, anchor_sigma_m = 1,
     anchor_init_yaw_sigma_rad = 10, gnss_max_innovation_m = 0, gnss_robust_kernel = ''huber'', gnss_robust_kernel_scale = 1,
     gnss_prior_min_fix_status = 1, dynamic_reanchor_enabled = False, dynamic_reanchor_min_fix_status = 2,
     dynamic_reanchor_min_samples = 10, dynamic_reanchor_min_distance_m = 10, dynamic_reanchor_max_residual_rms_m = 1,
     batch_on_finalize = True, batch_max_iterations = 100, gnss_lever_arm = (0, 0)\<rparr>"

definition sample_frame :: "real \<Rightarrow> SensorFrame" where
  "sample_frame t = \<lparr>f_scan = Some (sample_scan\<lparr>ranges := []\<rparr>), f_odom = \<lparr>o_stamp = t, o_x = t, o_y = 0, o_yaw = 0\<rparr>, f_gnss = None\<rparr>"

definition sample_slam :: "((unit, local_map, unit) lc_builder, valuesT) orch_env" where
  "sample_slam = loop_closing_env sample_lc_env list_gtsam \<lparr>utm_forward = (\<lambda>_ _ _. (0, True, 0, 0)), utm_reverse = (\<lambda>_ _ _ _. None)\<rparr>
     (\<lambda>_. None) (\<lambda>m. (m, m))"

definition sample_start :: "((unit, local_map, unit) lc_builder, valuesT) orch" where
  "sample_start = new_orchestrator sample_slam (ScanMatchingBuilder sample_sm_config () (LocalMapProvider 5 10))
     (\<lambda>inner. LoopClosureBuilder inner () 5 20 3 90 0 5 0) sample_orch_config 0.1 ''none'' 1"

lemma list_gtsam_ok: "gtsam_keys list_gtsam" "gtsam_accepts list_gtsam"
  by (auto simp: gtsam_keys_def gtsam_accepts_def list_gtsam_def)


lemmas sample_eval = run_frames_def process_frame_def sample_slam_def loop_closing_env_def sample_start_def new_orchestrator_def
    sample_frame_def lc_add_scan_def sm_add_scan_def LoopClosureBuilder_def ScanMatchingBuilder_def oc_set_between_robust_kernel_def
    GraphOrchestrator_def first_node_def find_loop_candidates_def ensure_node_kdtree_def sample_lc_env_def
    initialize_with_gnss_if_ready_def running_frame_def sample_orch_config_def Let_def initialize_optimizer_if_needed_def opt_update_def
    opt_initialize_def opt_flush_def list_gtsam_def ISAM2Optimizer_def set_between_robust_kernel_def add_latest_seq_edge_def
    get_latest_seq_edge_def lc_get_edges_def lc_get_nodes_def add_new_loop_edges_def
    oc_add_gnss_prior_def apply_optimized_poses_def get_all_poses_def get_pose_def local_map_api_def

lemma sample_run: "\<exists>rs oc. run_frames sample_slam [sample_frame 0, sample_frame 1] sample_start = Some (rs, oc) \<and> oc_initialized oc \<and> length (lc_get_edges (oc_builder oc)) = 1"
  by (simp add: sample_eval apply_pose_def lc_replace_nodes_def sm_replace_nodes_def lm_sync_poses_def LocalMapProvider_def lm_update_def
 lm_get_reference_pts_and_normals_def keyframe_cloud_def sample_scan_def sample_sm_config_def moved_little_def hypot_def match_sequential_def
 kf_world_def scan_to_points_and_normals_def valid_beams_def points_local_to_world_def normals_local_to_world_def scan_to_points_def lookup_node_def is_sequential_def lm_invalidate_cache_def take_pose_def next_node_def odom_motion_def world_delta_to_local_def local_delta_to_world_def angle_diff_def register_edge_def predicted_pose_def add_initial_estimate_def has_key_def add_between_factor_def edge_gap_def is_near_link_def)



section \<open>GNSS priors\<close>

text \<open>What a GNSS position has to pass to become a prior of the current node.\<close>

definition prior_gates :: "orch_config \<Rightarrow> GnssData \<Rightarrow> vec2 \<Rightarrow> PoseNode \<Rightarrow> real option \<Rightarrow> vec2 option \<Rightarrow> bool" where
  "prior_gates cfg gnss = (\<lambda>(gx, gy) node last_time last_pos.
     use_gnss cfg \<and> gnss_prior_min_fix_status cfg \<le> g_fix gnss \<and>
     0 < sigma_from_gnss cfg gnss \<and> sigma_from_gnss cfg gnss \<le> gnss_max_sigma_m cfg \<and>
     (\<forall>t. last_time = Some t \<longrightarrow> 1 / 10 ^ 6 \<le> \<bar>g_stamp gnss - t\<bar>) \<and>
     (0 < gnss_max_innovation_m cfg \<longrightarrow> hypot (gx - n_x node) (gy - n_y node) \<le> gnss_max_innovation_m cfg) \<and>
     (\<forall>p. last_pos = Some p \<longrightarrow> 0 < gnss_min_interval_m cfg \<longrightarrow> gnss_min_interval_m cfg \<le> vdist (gx, gy) p))"

text \<open>The number of positions handled so far, accepted or rejected.\<close>

definition prior_total :: "('b, 'g) orch \<Rightarrow> int" where
  "prior_total oc = gnss_prior_count oc + gnss_rejected_status_count oc + gnss_rejected_sigma_count oc +
     gnss_rejected_innovation_count oc + gnss_rejected_interval_count oc"


definition sample_fix :: GnssData where
  "sample_fix = \<lparr>g_stamp = 1, g_x = 3, g_y = 4, g_cov = ((1, 0), (0, 1)), g_fix = 2, g_lat = 35, g_lon = 135\<rparr>"

definition sample_anchor :: anchor_manager where
  "sample_anchor = GnssAnchorManager\<lparr>anchor_x := Some 3, anchor_y := Some 3\<rparr>"


end
