(* ===== verification/MapSave.thy ===== *)
theory MapSave
  imports PoseGraphFile OrchestratorProps NavBridgeProps
begin

text \<open>
  Saving and serving the graph: \<^verbatim>\<open>ros/map_save_service.cpp\<close>, the save service of \<^verbatim>\<open>nodes/reoptimize_node.cpp\<close>,
  \<^verbatim>\<open>ros/pose_graph_message_builder.cpp\<close>, \<^verbatim>\<open>ros/pose_graph_service.cpp\<close> and \<^verbatim>\<open>nodes/pose_graph_preview_node.cpp\<close>.
  The file system is a parameter: which directories can be created, and how a path is made absolute.
\<close>

section \<open>map_save_service.cpp\<close>

text \<open>
  What a save leaves: the answer, the directory, and the files written in it, the graph first.  An exception is answered as a
  failure and keeps what has been written.
\<close>

record 'j save_outcome =
  so_success :: bool
  so_dir :: string
  so_graph :: "'j option"
  so_transform :: "transform_file option"

record save_params =
  sp_save_dir :: "string option"
  sp_bag_path :: "string option"
  sp_backend :: "string option"

definition oc_anchor_latlon :: "('b, 'g) orch \<Rightarrow> vec2 option option" where
  "oc_anchor_latlon oc = (case oc_anchor oc of None \<Rightarrow> Some None | Some a \<Rightarrow> anchor_latlon a)"

definition oc_anchor_utm :: "('b, 'g) orch \<Rightarrow> vec2 option" where
  "oc_anchor_utm oc = Option.bind (oc_anchor oc) anchor_utm"

definition non_empty :: "string option \<Rightarrow> string option" where
  "non_empty s = (case s of Some (c # cs) \<Rightarrow> Some (c # cs) | _ \<Rightarrow> None)"

definition output_dir :: "string \<Rightarrow> string option \<Rightarrow> string \<Rightarrow> string" where
  "output_dir request save_dir fallback =
     (if request \<noteq> [] then request else case non_empty save_dir of Some d \<Rightarrow> d | None \<Rightarrow> fallback)"

text \<open>The zone is computed from the longitude alone.\<close>

definition saved_zone :: "real \<Rightarrow> int" where
  "saved_zone lon = \<lfloor>(lon + 180) / 6\<rfloor> + 1"

definition saved_transform :: "vec2 \<Rightarrow> vec2 option \<Rightarrow> real \<Rightarrow> string \<Rightarrow> transform_file" where
  "saved_transform latlon utm rotation backend =
     save_gnss_transform (fst latlon) (snd latlon) (case utm of Some u \<Rightarrow> fst u | None \<Rightarrow> 0) (case utm of Some u \<Rightarrow> snd u | None \<Rightarrow> 0)
       (saved_zone (snd latlon)) (if 0 \<le> fst latlon then ''north'' else ''south'') rotation backend"

definition latest_dir :: string where
  "latest_dir = ''/root/ros2_data/slam_maps/latest''"

definition handle_save ::
  "'j json_lib \<Rightarrow> (string \<Rightarrow> string) \<Rightarrow> (string \<Rightarrow> bool) \<Rightarrow> string \<Rightarrow> save_params \<Rightarrow> ('b, 'g) orch_env \<Rightarrow> ('b, 'g) orch \<Rightarrow> string \<Rightarrow> 'j save_outcome" where
  "handle_save lib absolute creatable created_at sp env oc map_dir =
     (let dir = absolute (output_dir map_dir (sp_save_dir sp) latest_dir);
          graph = save_pose_graph lib created_at (oc_nodes env oc) (oc_edges env oc) (non_empty (sp_bag_path sp))
      in if \<not> creatable dir then \<lparr>so_success = False, so_dir = dir, so_graph = None, so_transform = None\<rparr>
         else case oc_anchor_latlon oc of
             None \<Rightarrow> \<lparr>so_success = False, so_dir = dir, so_graph = Some graph, so_transform = None\<rparr>
           | Some latlon \<Rightarrow> \<lparr>so_success = True, so_dir = dir, so_graph = Some graph,
               so_transform = map_option (\<lambda>p. saved_transform p (oc_anchor_utm oc) (init_rotation oc)
                 (case sp_backend sp of Some s \<Rightarrow> s | None \<Rightarrow> ''gtsam'')) latlon\<rparr>)"

section \<open>Reading the transform again: reoptimize_node.cpp, anchor_publisher_node.cpp\<close>

text \<open>The entries of a transform file as they are read; an entry that is missing or does not convert is \<open>None\<close>.\<close>

record transform_yaml =
  ty_anchor :: bool
  ty_lat :: "real option"
  ty_lon :: "real option"
  ty_easting :: "real option"
  ty_northing :: "real option"
  ty_zone :: "int option"
  ty_hemisphere :: "string option"
  ty_rotation :: "real option"

definition copied_transform :: "transform_yaml \<Rightarrow> transform_file option" where
  "copied_transform y = do {
     lat \<leftarrow> ty_lat y;
     lon \<leftarrow> ty_lon y;
     easting \<leftarrow> ty_easting y;
     northing \<leftarrow> ty_northing y;
     zone \<leftarrow> ty_zone y;
     hemisphere \<leftarrow> ty_hemisphere y;
     rot \<leftarrow> ty_rotation y;
     Some (save_gnss_transform lat lon easting northing zone hemisphere rot ''gtsam_batch'')
   }"

definition handle_save_slam_map ::
  "'j json_lib \<Rightarrow> (string \<Rightarrow> string) \<Rightarrow> (string \<Rightarrow> bool) \<Rightarrow> string \<Rightarrow> string \<Rightarrow> string option \<Rightarrow> transform_yaml \<Rightarrow>
     PoseNode list \<Rightarrow> PoseEdge list \<Rightarrow> string \<Rightarrow> string \<Rightarrow> 'j save_outcome" where
  "handle_save_slam_map lib absolute creatable created_at dated_dir save_dir yaml optimized_nodes new_edges bag_path map_dir =
     (let dir = absolute (output_dir map_dir save_dir dated_dir);
          graph = save_pose_graph lib created_at optimized_nodes new_edges (Some bag_path)
      in if \<not> creatable dir then \<lparr>so_success = False, so_dir = dir, so_graph = None, so_transform = None\<rparr>
         else if \<not> ty_anchor yaml then \<lparr>so_success = True, so_dir = dir, so_graph = Some graph, so_transform = None\<rparr>
         else case copied_transform yaml of
             None \<Rightarrow> \<lparr>so_success = False, so_dir = dir, so_graph = Some graph, so_transform = None\<rparr>
           | Some t \<Rightarrow> \<lparr>so_success = True, so_dir = dir, so_graph = Some graph, so_transform = Some t\<rparr>)"

definition AnchorPublisherNode :: "transform_yaml option \<Rightarrow> vec2 option" where
  "AnchorPublisherNode file = do { data \<leftarrow> file; lat \<leftarrow> ty_lat data; lon \<leftarrow> ty_lon data; Some (lat, lon) }"

section \<open>pose_graph_message_builder.cpp, pose_graph_service.cpp\<close>

record PoseGraphDiff =
  d_loop_closed :: bool
  d_full_refresh :: bool
  d_node_indices :: "int list"
  d_node_x :: "real list"
  d_node_y :: "real list"
  d_node_yaw :: "real list"
  d_node_stamps :: "real list"
  d_seq_from :: "int list"
  d_seq_to :: "int list"
  d_seq_score :: "real list"
  d_seq_type :: "int list"
  d_seq_info :: "real list"
  d_prior_nodes :: "int list"
  d_prior_sigma :: "real list"
  d_prior_status :: "int list"
  d_loop_from :: "int list"
  d_loop_to :: "int list"
  d_loop_score :: "real list"
  d_loop_info :: "real list"

definition new_diff :: PoseGraphDiff where
  "new_diff = \<lparr>d_loop_closed = False, d_full_refresh = False, d_node_indices = [], d_node_x = [], d_node_y = [], d_node_yaw = [],
     d_node_stamps = [], d_seq_from = [], d_seq_to = [], d_seq_score = [], d_seq_type = [], d_seq_info = [], d_prior_nodes = [],
     d_prior_sigma = [], d_prior_status = [], d_loop_from = [], d_loop_to = [], d_loop_score = [], d_loop_info = []\<rparr>"

definition endpoints :: "PoseEdge \<Rightarrow> int \<times> int" where
  "endpoints e = (e_from e, e_to e)"

definition split_edges :: "PoseEdge list \<Rightarrow> PoseEdge list \<Rightarrow> PoseEdge list \<times> PoseEdge list" where
  "split_edges all_edges loops = (filter (\<lambda>e. endpoints e \<notin> endpoints ` set loops) all_edges, loops)"

definition info_diag :: "PoseEdge \<Rightarrow> real list" where
  "info_diag e = [m00 (e_information e), m11 (e_information e), m22 (e_information e)]"

definition prior_sigma :: "GnssPrior \<Rightarrow> real" where
  "prior_sigma p = (let a = fst (fst (gp_information p)) in if 0 < a then 1 / sqrt a else - 1)"

definition build_pose_graph_diff ::
  "PoseNode list \<Rightarrow> PoseEdge list \<Rightarrow> PoseEdge list \<Rightarrow> GnssPrior list \<Rightarrow> bool \<Rightarrow> bool \<Rightarrow> PoseGraphDiff" where
  "build_pose_graph_diff nodes sequentials loops priors loop_closed full_refresh_needed =
     \<lparr>d_loop_closed = loop_closed, d_full_refresh = full_refresh_needed, d_node_indices = map n_index nodes, d_node_x = map n_x nodes,
      d_node_y = map n_y nodes, d_node_yaw = map n_yaw nodes, d_node_stamps = map n_stamp nodes, d_seq_from = map e_from sequentials,
      d_seq_to = map e_to sequentials, d_seq_score = map e_score sequentials, d_seq_type = map (\<lambda>e. if e_fallback e then 1 else 0) sequentials,
      d_seq_info = concat (map info_diag sequentials), d_prior_nodes = map gp_node_index priors, d_prior_sigma = map prior_sigma priors,
      d_prior_status = map (\<lambda>_. 0) priors, d_loop_from = map e_from loops, d_loop_to = map e_to loops,
      d_loop_score = map e_score loops, d_loop_info = concat (map info_diag loops)\<rparr>"

text \<open>The builder behind the base class, as the dynamic casts of the service tell it.\<close>

datatype ('m, 'p, 'l) any_builder = LoopClosing "('m, 'p, 'l) lc_builder" | ScanMatching "('m, 'p) sm_builder" | OdomOnly odom_builder

fun any_nodes :: "('m, 'p, 'l) any_builder \<Rightarrow> PoseNode list" where
  "any_nodes (LoopClosing b) = lc_get_nodes b"
| "any_nodes (ScanMatching b) = sm_nodes b"
| "any_nodes (OdomOnly b) = ob_nodes b"

fun any_edges :: "('m, 'p, 'l) any_builder \<Rightarrow> PoseEdge list" where
  "any_edges (LoopClosing b) = lc_get_edges b"
| "any_edges (ScanMatching b) = sm_edges b"
| "any_edges (OdomOnly b) = ob_edges b"

fun any_loop_edges :: "('m, 'p, 'l) any_builder \<Rightarrow> PoseEdge list" where
  "any_loop_edges (LoopClosing b) = loop_edges b"
| "any_loop_edges _ = []"

fun service_counts :: "('m, 'p, 'l) any_builder \<Rightarrow> int \<times> int \<times> int \<times> int \<times> int" where
  "service_counts (LoopClosing b) = (icp_attempt_count (lc_inner b), icp_success_count (lc_inner b), odom_fallback_count (lc_inner b),
     loop_attempt_count b, loop_success_count b)"
| "service_counts (ScanMatching b) = (icp_attempt_count b, icp_success_count b, odom_fallback_count b, 0, 0)"
| "service_counts (OdomOnly b) = (0, 0, 0, 0, 0)"

record GetPoseGraph =
  gr_graph :: PoseGraphDiff
  gr_total_nodes :: nat
  gr_total_seq :: nat
  gr_total_loop :: nat
  gr_counts :: "int \<times> int \<times> int \<times> int \<times> int"

definition handle_service :: "('m, 'p, 'l) any_builder \<Rightarrow> GetPoseGraph" where
  "handle_service b =
     (case split_edges (any_edges b) (any_loop_edges b) of (sequentials, split_loops) \<Rightarrow>
        \<lparr>gr_graph = build_pose_graph_diff (any_nodes b) sequentials split_loops [] False True, gr_total_nodes = length (any_nodes b),
         gr_total_seq = length sequentials, gr_total_loop = length split_loops, gr_counts = service_counts b\<rparr>)"

section \<open>pose_graph_preview_node.cpp\<close>

text \<open>
  The preview appends field by field; a conversion that throws ends the reading and keeps what has been appended.
\<close>

type_synonym push = "PoseGraphDiff \<Rightarrow> PoseGraphDiff option"

primrec run_pushes :: "push list \<Rightarrow> PoseGraphDiff \<Rightarrow> PoseGraphDiff" where
  "run_pushes [] d = d"
| "run_pushes (p # ps) d = (case p d of None \<Rightarrow> d | Some d \<Rightarrow> run_pushes ps d)"

definition node_pushes :: "'j json_lib \<Rightarrow> 'j \<Rightarrow> push list" where
  "node_pushes lib n =
     [\<lambda>d. map_option (\<lambda>v. d\<lparr>d_node_indices := d_node_indices d @ [v]\<rparr>) (value_or lib (js_to_int lib) ''index'' 0 n),
      \<lambda>d. map_option (\<lambda>v. d\<lparr>d_node_x := d_node_x d @ [v]\<rparr>) (value_or lib (js_to_real lib) ''x'' 0 n),
      \<lambda>d. map_option (\<lambda>v. d\<lparr>d_node_y := d_node_y d @ [v]\<rparr>) (value_or lib (js_to_real lib) ''y'' 0 n),
      \<lambda>d. map_option (\<lambda>v. d\<lparr>d_node_yaw := d_node_yaw d @ [v]\<rparr>) (value_or lib (js_to_real lib) ''yaw'' 0 n),
      \<lambda>d. map_option (\<lambda>v. d\<lparr>d_node_stamps := d_node_stamps d @ [v]\<rparr>) (value_or lib (js_to_real lib) ''timestamp'' 0 n)]"

definition seq_pushes :: "'j json_lib \<Rightarrow> 'j \<Rightarrow> push list" where
  "seq_pushes lib e =
     [\<lambda>d. map_option (\<lambda>v. d\<lparr>d_seq_from := d_seq_from d @ [v]\<rparr>) (value_or lib (js_to_int lib) ''from'' 0 e),
      \<lambda>d. map_option (\<lambda>v. d\<lparr>d_seq_to := d_seq_to d @ [v]\<rparr>) (value_or lib (js_to_int lib) ''to'' 0 e),
      \<lambda>d. map_option (\<lambda>v. d\<lparr>d_seq_type := d_seq_type d @ [if v then 1 else 0]\<rparr>) (value_or lib (js_to_bool lib) ''is_odom_fallback'' False e),
      \<lambda>d. map_option (\<lambda>v. d\<lparr>d_seq_score := d_seq_score d @ [v]\<rparr>) (value_or lib (js_to_real lib) ''score'' 0 e),
      \<lambda>d. Some (d\<lparr>d_seq_info := d_seq_info d @ [0, 0, 0]\<rparr>)]"

definition loop_pushes :: "'j json_lib \<Rightarrow> 'j \<Rightarrow> push list" where
  "loop_pushes lib e =
     [\<lambda>d. map_option (\<lambda>v. d\<lparr>d_loop_from := d_loop_from d @ [v]\<rparr>) (value_or lib (js_to_int lib) ''from'' 0 e),
      \<lambda>d. map_option (\<lambda>v. d\<lparr>d_loop_to := d_loop_to d @ [v]\<rparr>) (value_or lib (js_to_int lib) ''to'' 0 e),
      \<lambda>d. map_option (\<lambda>v. d\<lparr>d_loop_score := d_loop_score d @ [v]\<rparr>) (value_or lib (js_to_real lib) ''score'' 0 e),
      \<lambda>d. Some (d\<lparr>d_loop_info := d_loop_info d @ [0, 0, 0]\<rparr>)]"

definition array_field :: "'j json_lib \<Rightarrow> string \<Rightarrow> 'j \<Rightarrow> 'j list" where
  "array_field lib k data =
     (case js_field lib k data of None \<Rightarrow> [] | Some v \<Rightarrow> (case js_array lib v of None \<Rightarrow> [] | Some xs \<Rightarrow> xs))"

definition load_pose_graph :: "'j json_lib \<Rightarrow> 'j \<Rightarrow> PoseGraphDiff \<Rightarrow> PoseGraphDiff" where
  "load_pose_graph lib data =
     run_pushes (concat (map (node_pushes lib) (array_field lib ''nodes'' data)) @
       concat (map (seq_pushes lib) (array_field lib ''sequential_edges'' data)) @
       concat (map (loop_pushes lib) (array_field lib ''loop_edges'' data)))"

definition preview_graph :: "'j json_lib \<Rightarrow> 'j \<Rightarrow> PoseGraphDiff" where
  "preview_graph lib data = load_pose_graph lib data (new_diff\<lparr>d_full_refresh := True\<rparr>)"

definition handle_get_pose_graph :: "PoseGraphDiff \<Rightarrow> GetPoseGraph" where
  "handle_get_pose_graph d =
     \<lparr>gr_graph = d, gr_total_nodes = length (d_node_indices d), gr_total_seq = length (d_seq_from d), gr_total_loop = length (d_loop_from d),
      gr_counts = (0, 0, int (length (filter (\<lambda>t. t = 1) (d_seq_type d))), 0, 0)\<rparr>"

text \<open>The map image: rows from the top, pixels from 0 to 255.\<close>

definition preview_cell :: "real \<Rightarrow> real \<Rightarrow> int \<Rightarrow> nat \<Rightarrow> int" where
  "preview_cell occ_th free_th negate pixel =
     (let val = real pixel / 255; val = (if negate \<noteq> 0 then 1 - val else val); occ = 1 - val
      in if occ_th < occ then 100 else if occ < free_th then 0 else - 1)"

definition load_map :: "real option \<Rightarrow> real option \<Rightarrow> int option \<Rightarrow> nat list list \<Rightarrow> int list" where
  "load_map occupied_thresh free_thresh negate img =
     (let occ_th = (case occupied_thresh of Some t \<Rightarrow> t | None \<Rightarrow> 0.65); free_th = (case free_thresh of Some t \<Rightarrow> t | None \<Rightarrow> 0.196);
          neg = (case negate of Some n \<Rightarrow> n | None \<Rightarrow> 0)
      in concat (map (map (preview_cell occ_th free_th neg)) (rev img)))"

section \<open>The service and the preview\<close>

lemma node_pushes_saved:
  assumes "json_ok lib" and "int32_fits (n_index n)"
  shows "run_pushes (node_pushes lib (node_json lib n) @ qs) d = run_pushes qs (d\<lparr>d_node_indices := d_node_indices d @ [n_index n],
    d_node_x := d_node_x d @ [n_x n], d_node_y := d_node_y d @ [n_y n], d_node_yaw := d_node_yaw d @ [n_yaw n],
    d_node_stamps := d_node_stamps d @ [n_stamp n]\<rparr>)"
  using assms by (simp add: node_pushes_def value_or_def node_json_field)

lemma seq_pushes_saved:
  assumes "json_ok lib" and "int32_fits (e_from e)" and "int32_fits (e_to e)"
  shows "run_pushes (seq_pushes lib (edge_json lib e) @ qs) d = run_pushes qs (d\<lparr>d_seq_from := d_seq_from d @ [e_from e],
    d_seq_to := d_seq_to d @ [e_to e], d_seq_type := d_seq_type d @ [if e_fallback e then 1 else 0], d_seq_score := d_seq_score d @ [e_score e],
    d_seq_info := d_seq_info d @ [0, 0, 0]\<rparr>)"
  using assms by (simp add: seq_pushes_def value_or_def edge_json_field)

lemma loop_pushes_saved:
  assumes "json_ok lib" and "int32_fits (e_from e)" and "int32_fits (e_to e)"
  shows "run_pushes (loop_pushes lib (edge_json lib e) @ qs) d = run_pushes qs (d\<lparr>d_loop_from := d_loop_from d @ [e_from e],
    d_loop_to := d_loop_to d @ [e_to e], d_loop_score := d_loop_score d @ [e_score e], d_loop_info := d_loop_info d @ [0, 0, 0]\<rparr>)"
  using assms by (simp add: loop_pushes_def value_or_def edge_json_field)

lemma pushes_saved_nodes:
  assumes "json_ok lib" and "\<forall>n\<in>set ns. int32_fits (n_index n)"
  shows "run_pushes (concat (map (node_pushes lib) (map (node_json lib) ns)) @ qs) d = run_pushes qs (d\<lparr>d_node_indices := d_node_indices d @ map n_index ns,
    d_node_x := d_node_x d @ map n_x ns, d_node_y := d_node_y d @ map n_y ns, d_node_yaw := d_node_yaw d @ map n_yaw ns,
    d_node_stamps := d_node_stamps d @ map n_stamp ns\<rparr>)"
  using assms(2) by (induction ns arbitrary: d) (simp_all add: node_pushes_saved [OF assms(1)])

lemma pushes_saved_seq:
  assumes "json_ok lib" and "\<forall>e\<in>set es. int32_fits (e_from e) \<and> int32_fits (e_to e)"
  shows "run_pushes (concat (map (seq_pushes lib) (map (edge_json lib) es)) @ qs) d = run_pushes qs (d\<lparr>d_seq_from := d_seq_from d @ map e_from es,
    d_seq_to := d_seq_to d @ map e_to es, d_seq_type := d_seq_type d @ map (\<lambda>e. if e_fallback e then 1 else 0) es,
    d_seq_score := d_seq_score d @ map e_score es, d_seq_info := d_seq_info d @ concat (map (\<lambda>_. [0, 0, 0]) es)\<rparr>)"
  using assms(2) by (induction es arbitrary: d) (simp_all add: seq_pushes_saved [OF assms(1)])

lemma pushes_saved_loop:
  assumes "json_ok lib" and "\<forall>e\<in>set es. int32_fits (e_from e) \<and> int32_fits (e_to e)"
  shows "run_pushes (concat (map (loop_pushes lib) (map (edge_json lib) es)) @ qs) d = run_pushes qs (d\<lparr>d_loop_from := d_loop_from d @ map e_from es,
    d_loop_to := d_loop_to d @ map e_to es, d_loop_score := d_loop_score d @ map e_score es, d_loop_info := d_loop_info d @ concat (map (\<lambda>_. [0, 0, 0]) es)\<rparr>)"
  using assms(2) by (induction es arbitrary: d) (simp_all add: loop_pushes_saved [OF assms(1)])

text \<open>The file splits the edges by the distance of their numbers.\<close>

definition blank_info :: "PoseGraphDiff \<Rightarrow> PoseGraphDiff" where
  "blank_info d = d\<lparr>d_seq_info := map (\<lambda>_. 0) (d_seq_info d), d_loop_info := map (\<lambda>_. 0) (d_loop_info d)\<rparr>"



section \<open>The saved transform and the navigation bridge\<close>

text \<open>The bridge reads the entries of the file; there is no rotation of the map in it.\<close>

definition read_transform :: "transform_file \<Rightarrow> gnss_transform" where
  "read_transform f = \<lparr>gt_easting = tf_easting f, gt_northing = tf_northing f, gt_zone = tf_zone f, gt_hemisphere = tf_hemisphere f,
     gt_map_rotation = None\<rparr>"

text \<open>
  C30. The navigation bridge with the transform that SLAM saved puts a fix where SLAM put it on its map, relative
  to the anchor, provided that the zone computed from the longitude of the anchor is the zone in which SLAM projected the fixes.
\<close>

theorem saved_transform_agrees:
  assumes "so_transform (handle_save lib absolute creatable created_at sp env oc map_dir) = Some f"
    and "oc_anchor oc = Some a" and "(g_x fix, g_y fix) = transform_latlon geo \<lparr>utm_zone = z, utm_northp = northp\<rparr> (g_lat fix) (g_lon fix)"
    and "saved_zone (tf_lon f) = z"
  shows "to_local a fix = Some (convert_to_map geo (read_transform f) (g_lat fix) (g_lon fix))"
proof -
  obtain p where p: "anchor_latlon a = Some (Some p)"
    and f: "f = saved_transform p (anchor_utm a) (init_rotation oc) (case sp_backend sp of Some s \<Rightarrow> s | None \<Rightarrow> ''gtsam'')"
    using assms(1, 2) by (auto simp: handle_save_def oc_anchor_latlon_def oc_anchor_utm_def Let_def split: if_splits option.splits)
  then have "anchor_is_initialized a" by (auto simp: anchor_latlon_def split: if_splits)
  then obtain x y where xy: "anchor_x a = Some x" "anchor_y a = Some y" by (auto simp: anchor_is_initialized_def)
  then have fe: "tf_easting f = x" "tf_northing f = y" "tf_zone f = z"
    using assms(4) by (simp_all add: f saved_transform_def save_gnss_transform_def anchor_utm_def anchor_is_initialized_def)
  have "transform_latlon geo (bridge_transformer (read_transform f)) (g_lat fix) (g_lon fix) = (g_x fix, g_y fix)"
    unfolding assms(3) by (simp add: transform_latlon_def bridge_transformer_def read_transform_def fe)
  then show ?thesis
    by (simp add: to_local_def xy convert_to_map_def Let_def rotation_rad_def read_transform_def fe)
qed

definition anchored_start :: "((unit, local_map, unit) lc_builder, valuesT) orch" where
  "anchored_start = sample_start\<lparr>oc_anchor := Some (sample_anchor\<lparr>anchor_lat := Some 35, anchor_lon := Some 140\<rparr>)\<rparr>"

definition flat_fix :: GnssData where
  "flat_fix = sample_fix\<lparr>g_lat := 36, g_lon := 141, g_x := 141 * 10 ^ 5, g_y := 36 * 10 ^ 5\<rparr>"

definition plain_save :: save_params where
  "plain_save = \<lparr>sp_save_dir = None, sp_bag_path = None, sp_backend = None\<rparr>"

theorem saved_transform_agrees_witness:
  "\<exists>f. so_transform (handle_save tree_json (\<lambda>d. d) (\<lambda>_. True) [] plain_save sample_slam anchored_start []) = Some f \<and>
     to_local (sample_anchor\<lparr>anchor_lat := Some 35, anchor_lon := Some 140\<rparr>) flat_fix = Some (convert_to_map flat_earth (read_transform f) 36 141)"
proof -
  let ?a = "sample_anchor\<lparr>anchor_lat := Some 35, anchor_lon := Some 140\<rparr>"
  have a: "oc_anchor anchored_start = Some ?a" by (simp add: anchored_start_def)
  have "anchor_latlon ?a = Some (Some (35, 140))" by (simp add: anchor_latlon_def anchor_is_initialized_def sample_anchor_def)
  then have "oc_anchor_latlon anchored_start = Some (Some (35, 140))" by (simp add: oc_anchor_latlon_def a)
  then obtain f where s: "so_transform (handle_save tree_json (\<lambda>d. d) (\<lambda>_. True) [] plain_save sample_slam anchored_start []) = Some f"
    and "tf_lon f = 140"
    by (simp add: handle_save_def saved_transform_def save_gnss_transform_def)
  from this(2) have z: "saved_zone (tf_lon f) = 54" by (simp add: saved_zone_def floor_eq_iff)
  have fx: "(g_x flat_fix, g_y flat_fix) = transform_latlon flat_earth \<lparr>utm_zone = 54, utm_northp = True\<rparr> (g_lat flat_fix) (g_lon flat_fix)"
    by (simp add: flat_fix_def transform_latlon_def flat_earth_def)
  from saved_transform_agrees [OF s a fx z] s show ?thesis by (auto simp: flat_fix_def)
qed

text \<open>
  The re-optimised map is saved with the transform of the map it was made from, the name of the back end apart, and the anchor
  that is published for either is the same.
\<close>

definition written_transform :: "transform_file \<Rightarrow> transform_yaml" where
  "written_transform f = \<lparr>ty_anchor = True, ty_lat = Some (tf_lat f), ty_lon = Some (tf_lon f), ty_easting = Some (tf_easting f),
     ty_northing = Some (tf_northing f), ty_zone = Some (tf_zone f), ty_hemisphere = Some (tf_hemisphere f), ty_rotation = Some (tf_rotation f)\<rparr>"

lemma reoptimized_save_keeps_transform:
  assumes "creatable (absolute (output_dir map_dir save_dir dated_dir))"
    and "saved = handle_save_slam_map lib absolute creatable created_at dated_dir save_dir (written_transform f) nodes edges bag_path map_dir"
  shows "so_success saved \<and> so_transform saved = Some (f\<lparr>tf_backend := ''gtsam_batch''\<rparr>)"
    and "AnchorPublisherNode (map_option written_transform (so_transform saved)) = Some (tf_lat f, tf_lon f)"
  using assms(1) unfolding assms(2)
  by (simp_all add: handle_save_slam_map_def copied_transform_def written_transform_def save_gnss_transform_def AnchorPublisherNode_def)

end
