(* ===== verification/GridMap.thy ===== *)
theory GridMap
  imports Geometry "HOL-Library.Monad_Syntax"
begin

text \<open>
  \<^verbatim>\<open>slam_gnss_2d/map_manager\<close>: the occupancy grid.  \<^verbatim>\<open>grid_utils.cpp\<close> computes the extent of the map and turns
  scans into pixels; \<^verbatim>\<open>overwrite_renderer.cpp\<close> draws the scans into one image; \<^verbatim>\<open>counting_renderer.cpp\<close> counts hits
  and misses per cell, in parallel over the nodes; \<^verbatim>\<open>trajectory_noise_filter.cpp\<close> clears the robot's own path.

  A \<^verbatim>\<open>cv::Mat\<close> is its size and its pixels.  Reading or writing outside it, and converting a number that does not
  fit an \<^verbatim>\<open>int\<close>, is undefined behaviour: the operations then return \<open>None\<close>.  OpenCV's rasterisation is a
  parameter (which pixels a line, a polyline and a filled circle cover); drawing sets the covered pixels inside
  the image.  OpenMP's dynamic schedule is a parameter as well: any assignment of the nodes to threads in any
  order.
\<close>

section \<open>Images\<close>

type_synonym point = "int \<times> int"

record cvmat =
  rows :: int
  cols :: int
  px :: "int \<Rightarrow> int \<Rightarrow> int"

definition mat_fill :: "int \<Rightarrow> int \<Rightarrow> int \<Rightarrow> cvmat" where
  "mat_fill r c v = \<lparr>rows = r, cols = c, px = \<lambda>_ _. v\<rparr>"

definition inside :: "cvmat \<Rightarrow> int \<Rightarrow> int \<Rightarrow> bool" where
  "inside m r c \<longleftrightarrow> 0 \<le> r \<and> r < rows m \<and> 0 \<le> c \<and> c < cols m"

definition mat_set :: "cvmat \<Rightarrow> int \<Rightarrow> int \<Rightarrow> int \<Rightarrow> cvmat option" where
  "mat_set m r c v = (if inside m r c then Some (m\<lparr>px := (px m)(r := (px m r)(c := v))\<rparr>) else None)"

definition mat_add :: "cvmat \<Rightarrow> int \<Rightarrow> int \<Rightarrow> int \<Rightarrow> cvmat option" where
  "mat_add m r c k = mat_set m r c (px m r c + k)"

definition mat_map :: "(int \<Rightarrow> int \<Rightarrow> int \<Rightarrow> int) \<Rightarrow> cvmat \<Rightarrow> cvmat" where
  "mat_map f m = m\<lparr>px := \<lambda>r c. if inside m r c then f r c (px m r c) else px m r c\<rparr>"

definition draw :: "point list \<Rightarrow> int \<Rightarrow> cvmat \<Rightarrow> cvmat" where
  "draw pts v m = mat_map (\<lambda>r c old. if (c, r) \<in> set pts then v else old) m"

record drawing =
  line_pixels :: "int \<Rightarrow> int \<Rightarrow> point \<Rightarrow> point \<Rightarrow> point list"
  polyline_pixels :: "int \<Rightarrow> int \<Rightarrow> point list \<Rightarrow> int \<Rightarrow> point list"
  disc_pixels :: "int \<Rightarrow> int \<Rightarrow> point \<Rightarrow> int \<Rightarrow> point list"

definition cv_line :: "drawing \<Rightarrow> point \<Rightarrow> point \<Rightarrow> int \<Rightarrow> cvmat \<Rightarrow> cvmat" where
  "cv_line cv p q v m = draw (line_pixels cv (rows m) (cols m) p q) v m"

definition cv_polyline :: "drawing \<Rightarrow> point list \<Rightarrow> int \<Rightarrow> int \<Rightarrow> cvmat \<Rightarrow> cvmat" where
  "cv_polyline cv pts v thickness m = draw (polyline_pixels cv (rows m) (cols m) pts thickness) v m"

definition cv_disc :: "drawing \<Rightarrow> point \<Rightarrow> int \<Rightarrow> int \<Rightarrow> cvmat \<Rightarrow> cvmat" where
  "cv_disc cv p radius v m = draw (disc_pixels cv (rows m) (cols m) p radius) v m"

section \<open>grid_utils.cpp\<close>

definition compute_bounds :: "PoseNode list \<Rightarrow> real \<Rightarrow> real \<Rightarrow> (real \<times> real \<times> int \<times> int) option" where
  "compute_bounds nodes resolution expansion_margin =
     (if nodes = [] then Some (0, 0, 1, 1)
      else
        let min_x = fin_val (foldl (\<lambda>m n. f_min m (Fin (n_x n))) PInf nodes);
            min_y = fin_val (foldl (\<lambda>m n. f_min m (Fin (n_y n))) PInf nodes);
            max_x = fin_val (foldl (\<lambda>m n. f_max m (Fin (n_x n))) NInf nodes);
            max_y = fin_val (foldl (\<lambda>m n. f_max m (Fin (n_y n))) NInf nodes);
            origin_x = min_x - expansion_margin; origin_y = min_y - expansion_margin;
            end_x = max_x + expansion_margin; end_y = max_y + expansion_margin
        in if resolution = 0 then None
           else do {
             width \<leftarrow> to_int32 (of_int \<lceil>(end_x - origin_x) / resolution\<rceil>);
             height \<leftarrow> to_int32 (of_int \<lceil>(end_y - origin_y) / resolution\<rceil>);
             Some (origin_x, origin_y, max 1 width, max 1 height)
           })"

definition compute_square_bounds :: "PoseNode list \<Rightarrow> real \<Rightarrow> real \<Rightarrow> (real \<times> real \<times> int) option" where
  "compute_square_bounds nodes resolution expansion_margin = do {
     (ox, oy, w, h) \<leftarrow> compute_bounds nodes resolution expansion_margin;
     Some (ox, oy, max w h)
   }"

definition world_to_pixel :: "real \<Rightarrow> real \<Rightarrow> real \<Rightarrow> real \<Rightarrow> real \<Rightarrow> point option" where
  "world_to_pixel wx wy origin_x origin_y resolution =
     (if resolution = 0 then None
      else do {
        x \<leftarrow> to_int32 ((wx - origin_x) / resolution);
        y \<leftarrow> to_int32 ((wy - origin_y) / resolution);
        Some (x, y)
      })"

definition in_bounds :: "int \<Rightarrow> int \<Rightarrow> int \<Rightarrow> int \<Rightarrow> bool" where
  "in_bounds x y width height \<longleftrightarrow> 0 \<le> x \<and> x < width \<and> 0 \<le> y \<and> y < height"

record ScanHitsPixels =
  robot_p :: point
  hit_ps :: "point list"
  out_of_bounds_hits :: nat

definition node_to_world :: "PoseNode \<Rightarrow> real \<Rightarrow> real \<Rightarrow> vec2" where
  "node_to_world node x y =
     (n_x node + cos (n_yaw node) * x - sin (n_yaw node) * y, n_y node + sin (n_yaw node) * x + cos (n_yaw node) * y)"

definition out_of_range :: "ScanData \<Rightarrow> nat \<Rightarrow> bool" where
  "out_of_range scan i \<longleftrightarrow> f_le (ranges scan ! i) (Fin (range_min scan)) \<or> f_le (Fin (range_max scan)) (ranges scan ! i)"

definition beam_pixel :: "PoseNode \<Rightarrow> real \<Rightarrow> real \<Rightarrow> real \<Rightarrow> ScanData \<Rightarrow> nat \<Rightarrow> point option" where
  "beam_pixel node origin_x origin_y resolution scan i =
     (case ranges scan ! i of
        Fin _ \<Rightarrow>
          let (lx, ly) = beam_point scan i; (wx, wy) = node_to_world node lx ly
          in world_to_pixel wx wy origin_x origin_y resolution
      | _ \<Rightarrow> None)"

definition hit_beam ::
  "PoseNode \<Rightarrow> real \<Rightarrow> real \<Rightarrow> real \<Rightarrow> int \<Rightarrow> int \<Rightarrow> ScanData \<Rightarrow> nat \<Rightarrow> ScanHitsPixels \<Rightarrow> ScanHitsPixels option" where
  "hit_beam node origin_x origin_y resolution width height scan i result =
     (if out_of_range scan i then Some result
      else do {
        (h_px, h_py) \<leftarrow> beam_pixel node origin_x origin_y resolution scan i;
        Some (if in_bounds h_px h_py width height then result\<lparr>hit_ps := hit_ps result @ [(h_px, h_py)]\<rparr>
              else result\<lparr>out_of_bounds_hits := out_of_bounds_hits result + 1\<rparr>)
      })"

definition scan_hits_to_pixels ::
  "PoseNode \<Rightarrow> real \<Rightarrow> real \<Rightarrow> real \<Rightarrow> int \<Rightarrow> int \<Rightarrow> ScanHitsPixels option" where
  "scan_hits_to_pixels node origin_x origin_y resolution width height =
     (let scan = n_scan node;
          lx = (case scan of Some s \<Rightarrow> lidar_x s | None \<Rightarrow> 0);
          ly = (case scan of Some s \<Rightarrow> lidar_y s | None \<Rightarrow> 0);
          (lidar_wx, lidar_wy) = node_to_world node lx ly
      in do {
        robot \<leftarrow> world_to_pixel lidar_wx lidar_wy origin_x origin_y resolution;
        let result = \<lparr>robot_p = robot, hit_ps = [], out_of_bounds_hits = 0\<rparr>;
        (case scan of
           None \<Rightarrow> Some result
         | Some s \<Rightarrow>
             fold_opt (hit_beam node origin_x origin_y resolution width height s) [0..<length (ranges s)] result)
      })"

definition node_pixels :: "PoseNode list \<Rightarrow> real \<Rightarrow> real \<Rightarrow> real \<Rightarrow> point list option" where
  "node_pixels nodes origin_x origin_y resolution =
     fold_opt (\<lambda>n pts. do {
       p \<leftarrow> world_to_pixel (n_x n) (n_y n) origin_x origin_y resolution;
       Some (pts @ [p])
     }) nodes []"

definition build_trajectory_mask ::
  "drawing \<Rightarrow> int \<Rightarrow> int \<Rightarrow> PoseNode list \<Rightarrow> real \<Rightarrow> real \<Rightarrow> real \<Rightarrow> real \<Rightarrow> cvmat option" where
  "build_trajectory_mask cv rs cs nodes radius_m origin_x origin_y resolution =
     (let mask = mat_fill rs cs 0
      in if nodes = [] then Some mask
         else if resolution = 0 then None
         else do {
           radius \<leftarrow> to_int32 (radius_m / resolution);
           let radius_px = max 1 radius;
           pts \<leftarrow> node_pixels nodes origin_x origin_y resolution;
           let mask = cv_polyline cv pts 1 (radius_px * 2) mask;
           Some (foldl (\<lambda>m p. cv_disc cv p radius_px 1 m) mask pts)
         })"

section \<open>Occupancy values\<close>

record OccupancyGridData =
  occ_data :: cvmat
  occ_origin_x :: real
  occ_origin_y :: real
  occ_resolution :: real

section \<open>overwrite_renderer.cpp\<close>

record overwrite_renderer =
  ow_resolution :: real
  ow_margin :: real
  ow_width :: int
  ow_height :: int
  ow_ox :: real
  ow_oy :: real
  ow_map :: cvmat
  ow_count :: int

definition OverwriteRenderer :: "real \<Rightarrow> real \<Rightarrow> overwrite_renderer" where
  "OverwriteRenderer resolution margin =
     \<lparr>ow_resolution = resolution, ow_margin = margin, ow_width = 1, ow_height = 1, ow_ox = 0, ow_oy = 0,
      ow_map = mat_fill 1 1 128, ow_count = 0\<rparr>"

definition ow_render_node :: "drawing \<Rightarrow> PoseNode \<Rightarrow> overwrite_renderer \<Rightarrow> (bool \<times> overwrite_renderer) option" where
  "ow_render_node cv node r = do {
     sp \<leftarrow> scan_hits_to_pixels node (ow_ox r) (ow_oy r) (ow_resolution r) (ow_width r) (ow_height r);
     if \<not> in_bounds (fst (robot_p sp)) (snd (robot_p sp)) (ow_width r) (ow_height r) then Some (False, r)
     else do {
       let r = r\<lparr>ow_count := ow_count r + 1\<rparr>;
       let m = foldl (\<lambda>m p. cv_line cv (robot_p sp) p 255 m) (ow_map r) (hit_ps sp);
       m \<leftarrow> fold_opt (\<lambda>p m. mat_set m (snd p) (fst p) 0) (hit_ps sp) m;
       Some (True, r\<lparr>ow_map := m\<rparr>)
     }
   }"

definition ow_add_node :: "drawing \<Rightarrow> PoseNode \<Rightarrow> overwrite_renderer \<Rightarrow> (bool \<times> overwrite_renderer) option" where
  "ow_add_node cv node r =
     (if n_scan node = None then Some (True, r)
      else if ow_width r \<le> 1 \<or> ow_height r \<le> 1 then Some (False, r)
      else do {
        (r_px, r_py) \<leftarrow> world_to_pixel (n_x node) (n_y node) (ow_ox r) (ow_oy r) (ow_resolution r);
        if \<not> in_bounds r_px r_py (ow_width r) (ow_height r) then Some (False, r) else ow_render_node cv node r
      })"

definition ow_rerender_all :: "drawing \<Rightarrow> PoseNode list \<Rightarrow> overwrite_renderer \<Rightarrow> overwrite_renderer option" where
  "ow_rerender_all cv nodes r =
     (if nodes = [] then Some r
      else do {
        (new_ox, new_oy, new_w, new_h) \<leftarrow> compute_bounds nodes (ow_resolution r) (ow_margin r);
        fold_opt (\<lambda>node r. if n_scan node = None then Some r else map_option snd (ow_render_node cv node r)) nodes
          (r\<lparr>ow_ox := new_ox, ow_oy := new_oy, ow_width := new_w, ow_height := new_h,
             ow_map := mat_fill new_h new_w 128, ow_count := 0\<rparr>)
      })"

definition ow_cell :: "int \<Rightarrow> int" where
  "ow_cell v = (if v = 128 then - 1 else if v = 255 then 0 else 100)"

definition ow_to_occupancy_array :: "overwrite_renderer \<Rightarrow> OccupancyGridData" where
  "ow_to_occupancy_array r =
     \<lparr>occ_data = mat_map (\<lambda>_ _. ow_cell) (ow_map r), occ_origin_x = ow_ox r, occ_origin_y = ow_oy r,
      occ_resolution = ow_resolution r\<rparr>"

definition ow_apply_trajectory_mask ::
  "drawing \<Rightarrow> PoseNode list \<Rightarrow> real \<Rightarrow> string \<Rightarrow> overwrite_renderer \<Rightarrow> overwrite_renderer option" where
  "ow_apply_trajectory_mask cv nodes radius_m filter_type r =
     (if nodes = [] then Some r
      else do {
        mask \<leftarrow> build_trajectory_mask cv (rows (ow_map r)) (cols (ow_map r)) nodes radius_m (ow_ox r) (ow_oy r)
                  (ow_resolution r);
        Some (r\<lparr>ow_map := mat_map (\<lambda>row col old. if 0 < px mask row col then 255 else old) (ow_map r)\<rparr>)
      })"

section \<open>counting_renderer.cpp\<close>

record counting_renderer =
  cr_resolution :: real
  cr_margin :: real
  cr_hit_threshold :: real
  cr_min_hits :: int
  cr_hit_weight :: real
  cr_miss_weight :: real
  cr_miss_clearance :: real
  cr_max_miss_ratio :: real
  cr_width :: int
  cr_height :: int
  cr_ox :: real
  cr_oy :: real
  cr_initialized :: bool
  hit_map :: cvmat
  miss_map :: cvmat
  cr_count :: int

definition CountingRenderer ::
  "real \<Rightarrow> real \<Rightarrow> real \<Rightarrow> int \<Rightarrow> real \<Rightarrow> real \<Rightarrow> real \<Rightarrow> real \<Rightarrow> counting_renderer" where
  "CountingRenderer resolution margin hit_threshold min_hits hit_weight miss_weight miss_clearance max_miss_ratio =
     \<lparr>cr_resolution = resolution, cr_margin = margin, cr_hit_threshold = hit_threshold, cr_min_hits = min_hits,
      cr_hit_weight = hit_weight, cr_miss_weight = miss_weight, cr_miss_clearance = miss_clearance,
      cr_max_miss_ratio = max_miss_ratio, cr_width = 1, cr_height = 1, cr_ox = 0, cr_oy = 0, cr_initialized = False,
      hit_map = mat_fill 1 1 0, miss_map = mat_fill 1 1 0, cr_count = 0\<rparr>"

definition patch_cell ::
  "counting_renderer \<Rightarrow> PoseNode \<Rightarrow> SubmapPatch \<Rightarrow> nat \<times> nat \<Rightarrow> cvmat \<times> cvmat \<Rightarrow> (cvmat \<times> cvmat) option" where
  "patch_cell r node patch = (\<lambda>(row, col) (target_hit, target_miss).
     if length (hit_patch patch) \<le> row \<or> length (hit_patch patch ! row) \<le> col \<or>
        length (miss_patch patch) \<le> row \<or> length (miss_patch patch ! row) \<le> col then None
     else
       let hit = hit_patch patch ! row ! col; miss = miss_patch patch ! row ! col
       in if hit = 0 \<and> miss = 0 then Some (target_hit, target_miss)
          else
            let ly = patch_origin_y patch + real row * patch_resolution patch;
                lx = patch_origin_x patch + real col * patch_resolution patch;
                (wx, wy) = node_to_world node lx ly
            in do {
              (g_px, g_py) \<leftarrow> world_to_pixel wx wy (cr_ox r) (cr_oy r) (cr_resolution r);
              if in_bounds g_px g_py (cr_width r) (cr_height r) then do {
                target_hit \<leftarrow> (if 0 < hit then mat_add target_hit g_py g_px hit else Some target_hit);
                target_miss \<leftarrow> (if 0 < miss then mat_add target_miss g_py g_px miss else Some target_miss);
                Some (target_hit, target_miss)
              } else Some (target_hit, target_miss)
            })"

definition render_patch ::
  "counting_renderer \<Rightarrow> PoseNode \<Rightarrow> SubmapPatch \<Rightarrow> cvmat \<Rightarrow> cvmat \<Rightarrow> (cvmat \<times> cvmat) option" where
  "render_patch r node patch target_hit target_miss =
     fold_opt (patch_cell r node patch)
       (List.product [0..<patch_height patch] [0..<patch_width patch]) (target_hit, target_miss)"

text \<open>The end of the ray that counts as free: the hit, or a point short of it by the clearance margin.\<close>

definition miss_end :: "real \<Rightarrow> point \<Rightarrow> point \<Rightarrow> point option" where
  "miss_end margin_px start end' =
     (let dx = real_of_int (fst end' - fst start); dy = real_of_int (snd end' - snd start); dist = hypot dx dy
      in if margin_px < dist \<and> 0 < margin_px then
           let scale = (dist - margin_px) / dist
           in do {
             x \<leftarrow> to_int32 (cround (dx * scale));
             y \<leftarrow> to_int32 (cround (dy * scale));
             Some (fst start + x, snd start + y)
           }
         else Some end')"

definition clear_step :: "drawing \<Rightarrow> (point \<Rightarrow> point) \<Rightarrow> int \<Rightarrow> point \<Rightarrow> cvmat \<Rightarrow> cvmat option" where
  "clear_step cv rel radius p m =
     (if 0 < radius then Some (cv_disc cv (rel p) radius 0 m) else mat_set m (snd (rel p)) (fst (rel p)) 0)"

definition local_mask ::
  "drawing \<Rightarrow> counting_renderer \<Rightarrow> point \<Rightarrow> point list \<Rightarrow> int \<Rightarrow> int \<Rightarrow> int \<Rightarrow> int \<Rightarrow> cvmat option" where
  "local_mask cv r robot hits min_px min_py h w =
     (let rel = (\<lambda>(x, y). (x - min_px, y - min_py)); start = rel robot in
      if cr_resolution r = 0 then None
      else do {
        let margin_px = cr_miss_clearance r / cr_resolution r;
        mask_clear_radius \<leftarrow> to_int32 (cround margin_px);
        curves \<leftarrow> fold_opt (\<lambda>p cs. do {
          e \<leftarrow> miss_end margin_px start (rel p);
          Some (cs @ [[start, e]])
        }) hits [];
        let mask = foldl (\<lambda>m c. cv_polyline cv c 1 1 m) (mat_fill h w 0) curves;
        fold_opt (clear_step cv rel mask_clear_radius) hits mask
      })"

definition render_scan ::
  "drawing \<Rightarrow> counting_renderer \<Rightarrow> point \<Rightarrow> point list \<Rightarrow> cvmat \<Rightarrow> cvmat \<Rightarrow> (cvmat \<times> cvmat) option" where
  "render_scan cv r robot hits target_hit target_miss =
     (let min_px = foldl min (fst robot) (map fst hits); max_px = foldl max (fst robot) (map fst hits);
          min_py = foldl min (snd robot) (map snd hits); max_py = foldl max (snd robot) (map snd hits);
          h = max_py - min_py + 1; w = max_px - min_px + 1
      in do {
        mask \<leftarrow> local_mask cv r robot hits min_px min_py h w;
        target_miss \<leftarrow> fold_opt (\<lambda>(row, col) m. if 0 < px mask row col then mat_add m (min_py + row) (min_px + col) 1
                                             else Some m) (List.product [0..h - 1] [0..w - 1]) target_miss;
        target_hit \<leftarrow> fold_opt (\<lambda>(x, y) m. mat_add m y x 1) hits target_hit;
        Some (target_hit, target_miss)
      })"

definition render_node_impl ::
  "drawing \<Rightarrow> counting_renderer \<Rightarrow> PoseNode \<Rightarrow> cvmat \<Rightarrow> cvmat \<Rightarrow> (bool \<times> cvmat \<times> cvmat) option" where
  "render_node_impl cv r node target_hit target_miss =
     (case n_patch node of
        Some patch \<Rightarrow> map_option (Pair True) (render_patch r node patch target_hit target_miss)
      | None \<Rightarrow>
          if n_scan node = None then Some (True, target_hit, target_miss)
          else do {
            sp \<leftarrow> scan_hits_to_pixels node (cr_ox r) (cr_oy r) (cr_resolution r) (cr_width r) (cr_height r);
            if \<not> in_bounds (fst (robot_p sp)) (snd (robot_p sp)) (cr_width r) (cr_height r) then
              Some (False, target_hit, target_miss)
            else if hit_ps sp = [] then Some (True, target_hit, target_miss)
            else map_option (Pair True) (render_scan cv r (robot_p sp) (hit_ps sp) target_hit target_miss)
          })"

definition cr_render_node :: "drawing \<Rightarrow> PoseNode \<Rightarrow> counting_renderer \<Rightarrow> (bool \<times> counting_renderer) option" where
  "cr_render_node cv node r = do {
     (ret, target_hit, target_miss) \<leftarrow> render_node_impl cv r node (hit_map r) (miss_map r);
     let r = r\<lparr>hit_map := target_hit, miss_map := target_miss\<rparr>;
     Some (ret, if ret then r\<lparr>cr_count := cr_count r + 1\<rparr> else r)
   }"

definition has_data :: "PoseNode \<Rightarrow> bool" where
  "has_data node \<longleftrightarrow> n_scan node \<noteq> None \<or> n_patch node \<noteq> None"

definition cr_add_node :: "drawing \<Rightarrow> PoseNode \<Rightarrow> counting_renderer \<Rightarrow> (bool \<times> counting_renderer) option" where
  "cr_add_node cv node r =
     (if \<not> has_data node then Some (True, r)
      else if \<not> cr_initialized r \<or> cr_width r \<le> 1 \<or> cr_height r \<le> 1 then Some (False, r)
      else do {
        (r_px, r_py) \<leftarrow> world_to_pixel (n_x node) (n_y node) (cr_ox r) (cr_oy r) (cr_resolution r);
        if \<not> in_bounds r_px r_py (cr_width r) (cr_height r) then Some (False, r) else cr_render_node cv node r
      })"

text \<open>The matrices and the counter of one thread, and one step of the parallel loop.\<close>

type_synonym thread_maps = "cvmat \<times> cvmat \<times> int"

definition thread_step ::
  "drawing \<Rightarrow> counting_renderer \<Rightarrow> PoseNode list \<Rightarrow> nat \<times> nat \<Rightarrow> thread_maps list \<Rightarrow> thread_maps list option" where
  "thread_step cv r nodes = (\<lambda>(tid, i) threads.
     if has_data (nodes ! i) then
       case threads ! tid of (thread_hit, thread_miss, n_done) \<Rightarrow> do {
         (ret, thread_hit, thread_miss) \<leftarrow> render_node_impl cv r (nodes ! i) thread_hit thread_miss;
         Some (threads[tid := (thread_hit, thread_miss, if ret then n_done + 1 else n_done)])
       }
     else Some threads)"

definition mat_sum :: "cvmat \<Rightarrow> cvmat \<Rightarrow> cvmat" where
  "mat_sum a b = mat_map (\<lambda>r c v. v + px b r c) a"

definition cr_rerender_all ::
  "drawing \<Rightarrow> nat \<Rightarrow> (nat \<times> nat) list \<Rightarrow> PoseNode list \<Rightarrow> counting_renderer \<Rightarrow> counting_renderer option" where
  "cr_rerender_all cv max_threads schedule nodes r =
     (if nodes = [] then Some r
      else do {
        (new_ox, new_oy, new_w, new_h) \<leftarrow> compute_bounds nodes (cr_resolution r) (cr_margin r);
        let r = r\<lparr>cr_ox := new_ox, cr_oy := new_oy, cr_width := new_w, cr_height := new_h, cr_count := 0,
                  cr_initialized := True\<rparr>;
        let zeros = mat_fill new_h new_w 0;
        let num_threads = min 4 max_threads;
        if num_threads \<le> 1 \<or> length nodes \<le> 4 then
          fold_opt (\<lambda>node r. if has_data node then map_option snd (cr_render_node cv node r) else Some r) nodes
            (r\<lparr>hit_map := zeros, miss_map := zeros\<rparr>)
        else do {
          threads \<leftarrow> fold_opt (thread_step cv r nodes) schedule (replicate num_threads (zeros, zeros, 0));
          Some (r\<lparr>hit_map := foldl mat_sum zeros (map fst threads),
                  miss_map := foldl mat_sum zeros (map (fst \<circ> snd) threads),
                  cr_count := sum_list (map (snd \<circ> snd) threads)\<rparr>)
        }
      })"

definition cr_cell :: "counting_renderer \<Rightarrow> int \<Rightarrow> int \<Rightarrow> int" where
  "cr_cell r hits misses =
     (if hits = 0 \<and> misses = 0 then - 1
      else
        let eff_misses = (if cr_min_hits r \<le> hits \<and> 0 < cr_max_miss_ratio r
              then min misses (trunc_int (of_int hits * cr_max_miss_ratio r)) else misses);
            weighted_hits = of_int hits * cr_hit_weight r;
            weighted_misses = of_int eff_misses * cr_miss_weight r;
            weighted_total = weighted_hits + weighted_misses
        in if weighted_total \<le> 0 then - 1
           else
             let ratio = weighted_hits / weighted_total
             in if cr_min_hits r \<le> hits \<and> cr_hit_threshold r \<le> ratio then 100 else 0)"

definition cr_to_occupancy_array :: "counting_renderer \<Rightarrow> OccupancyGridData" where
  "cr_to_occupancy_array r =
     \<lparr>occ_data = mat_map (\<lambda>row col hits. cr_cell r hits (px (miss_map r) row col)) (hit_map r),
      occ_origin_x = cr_ox r, occ_origin_y = cr_oy r, occ_resolution = cr_resolution r\<rparr>"

definition mask_hit :: "string \<Rightarrow> int \<Rightarrow> int" where
  "mask_hit filter_type hit =
     (if filter_type = ''clear'' then 0
      else if filter_type = ''attenuate'' then max 0 (hit - 2) div 2 else hit)"

definition mask_miss :: "string \<Rightarrow> int \<Rightarrow> int" where
  "mask_miss filter_type miss =
     (if filter_type = ''clear'' then miss + 1 else if filter_type = ''attenuate'' then miss + 2 else miss)"

definition cr_apply_trajectory_mask ::
  "drawing \<Rightarrow> PoseNode list \<Rightarrow> real \<Rightarrow> string \<Rightarrow> counting_renderer \<Rightarrow> counting_renderer option" where
  "cr_apply_trajectory_mask cv nodes radius_m filter_type r =
     (if nodes = [] then Some r
      else do {
        mask \<leftarrow> build_trajectory_mask cv (rows (hit_map r)) (cols (hit_map r)) nodes radius_m (cr_ox r) (cr_oy r)
                  (cr_resolution r);
        Some (r\<lparr>hit_map := mat_map (\<lambda>row col v. if 0 < px mask row col then mask_hit filter_type v else v) (hit_map r),
                miss_map := mat_map (\<lambda>row col v. if 0 < px mask row col then mask_miss filter_type v else v) (miss_map r)\<rparr>)
      })"

section \<open>trajectory_noise_filter.cpp\<close>

record TrajectoryNoiseFilterConfig =
  tf_enabled :: bool
  tf_type :: string
  tf_radius_m :: real

definition noise_filter_apply ::
  "(PoseNode list \<Rightarrow> real \<Rightarrow> string \<Rightarrow> 'r \<Rightarrow> 'r option) \<Rightarrow> TrajectoryNoiseFilterConfig \<Rightarrow> PoseNode list \<Rightarrow>
     'r \<Rightarrow> 'r option" where
  "noise_filter_apply apply_trajectory_mask config nodes renderer =
     (if \<not> tf_enabled config \<or> nodes = [] then Some renderer
      else apply_trajectory_mask nodes (tf_radius_m config) (tf_type config) renderer)"

end
