(* ===== verification/MapCounting.thy ===== *)
theory MapCounting
  imports GridMap "HOL-Library.Multiset"
begin

text \<open>
  The counting renderer of \<^verbatim>\<open>counting_renderer.cpp\<close>: rendering a node adds numbers to cells, so the order and the
  distribution over threads do not matter; the extent of the map; the meaning of the counters and of the
  occupancy computed from them.
\<close>

section \<open>Counting as addition\<close>

text \<open>
  Rendering a node into a pair of matrices adds numbers to cells that depend on the node only, not on what the
  matrices hold.  \<open>node_adds\<close> collects these additions, as (row, column, number).
\<close>

type_synonym adds = "(int \<times> int \<times> int) list"

definition add_all :: "adds \<Rightarrow> cvmat \<Rightarrow> cvmat option" where
  "add_all as = fold_opt (\<lambda>(r, c, k) m. mat_add m r c k) as"

definition tally :: "adds \<Rightarrow> int \<Rightarrow> int \<Rightarrow> int" where
  "tally as r c = sum_list (map (\<lambda>(r', c', k). if r' = r \<and> c' = c then k else 0) as)"

definition plus_tally :: "adds \<Rightarrow> cvmat \<Rightarrow> cvmat" where
  "plus_tally as m = m\<lparr>px := \<lambda>r c. px m r c + tally as r c\<rparr>"

lemma tally_simps [simp]:
  "tally [] r c = 0" "tally (as @ bs) r c = tally as r c + tally bs r c"
  "tally ((r', c', k) # as) r c = (if r' = r \<and> c' = c then k else 0) + tally as r c"
  by (simp_all add: tally_def)

lemma inside_update [simp]: "inside (m\<lparr>px := f\<rparr>) r c = inside m r c"
  by (simp add: inside_def)

lemma add_all_eq:
  "add_all as m = (if \<forall>(r, c, k) \<in> set as. inside m r c then Some (plus_tally as m) else None)"
proof (induction as arbitrary: m)
  case Nil
  then show ?case by (simp add: add_all_def plus_tally_def)
next
  case (Cons a as)
  obtain r c k where a: "a = (r, c, k)" by (cases a)
  have *: "add_all (a # as) m = Option.bind (mat_add m r c k) (add_all as)"
    by (simp add: add_all_def a)
  show ?case
  proof (cases "inside m r c")
    case True
    have "plus_tally as (m\<lparr>px := (px m)(r := (px m r)(c := px m r c + k))\<rparr>) = plus_tally (a # as) m"
      by (auto simp: plus_tally_def a fun_eq_iff)
    with True show ?thesis unfolding * by (simp add: mat_add_def mat_set_def Cons.IH a)
  next
    case False
    then show ?thesis unfolding * by (simp add: mat_add_def mat_set_def a)
  qed
qed

lemma add_all_append: "add_all (as @ bs) m = Option.bind (add_all as m) (add_all bs)"
  by (simp add: add_all_def)

definition patch_cell_adds ::
  "counting_renderer \<Rightarrow> PoseNode \<Rightarrow> SubmapPatch \<Rightarrow> nat \<times> nat \<Rightarrow> (adds \<times> adds) option" where
  "patch_cell_adds r node patch = (\<lambda>(row, col).
     if length (hit_patch patch) \<le> row \<or> length (hit_patch patch ! row) \<le> col \<or>
        length (miss_patch patch) \<le> row \<or> length (miss_patch patch ! row) \<le> col then None
     else
       let hit = hit_patch patch ! row ! col; miss = miss_patch patch ! row ! col
       in if hit = 0 \<and> miss = 0 then Some ([], [])
          else
            let ly = patch_origin_y patch + real row * patch_resolution patch;
                lx = patch_origin_x patch + real col * patch_resolution patch;
                (wx, wy) = node_to_world node lx ly
            in do {
              (g_px, g_py) \<leftarrow> world_to_pixel wx wy (cr_ox r) (cr_oy r) (cr_resolution r);
              if in_bounds g_px g_py (cr_width r) (cr_height r) then
                Some (if 0 < hit then [(g_py, g_px, hit)] else [], if 0 < miss then [(g_py, g_px, miss)] else [])
              else Some ([], [])
            })"

definition collect_adds :: "('a \<Rightarrow> (adds \<times> adds) option) \<Rightarrow> 'a list \<Rightarrow> (adds \<times> adds) option" where
  "collect_adds f xs =
     fold_opt (\<lambda>x (hs, ms). map_option (\<lambda>(hs', ms'). (hs @ hs', ms @ ms')) (f x)) xs ([], [])"

definition both_add :: "adds \<times> adds \<Rightarrow> cvmat \<Rightarrow> cvmat \<Rightarrow> (cvmat \<times> cvmat) option" where
  "both_add = (\<lambda>(hs, ms) h m. do { h' \<leftarrow> add_all hs h; m' \<leftarrow> add_all ms m; Some (h', m') })"

lemma both_add_append:
  "both_add (hs @ hs', ms @ ms') h m = Option.bind (both_add (hs, ms) h m) (\<lambda>(h, m). both_add (hs', ms') h m)"
  by (cases "add_all hs h"; cases "add_all ms m"; cases "add_all hs' (the (add_all hs h))")
     (simp_all add: both_add_def add_all_append)

lemma patch_cell_adds:
  "patch_cell r node patch cell (h, m) = Option.bind (patch_cell_adds r node patch cell) (\<lambda>as. both_add as h m)"
  by (cases cell)
     (auto simp: patch_cell_def patch_cell_adds_def both_add_def add_all_def Let_def split: bind_splits prod.splits)

lemma fold_adds:
  assumes "\<And>x h m. f x (h, m) = Option.bind (g x) (\<lambda>as. both_add as h m)"
  shows "Option.bind (both_add (hs, ms) h m) (fold_opt f xs) =
    Option.bind (fold_opt (\<lambda>x (hs, ms). map_option (\<lambda>(hs', ms'). (hs @ hs', ms @ ms')) (g x)) xs (hs, ms))
      (\<lambda>as. both_add as h m)" (is "_ = Option.bind (fold_opt ?G xs (hs, ms)) _")
proof (induction xs arbitrary: hs ms)
  case Nil
  then show ?case by (simp add: bind_runit del: bind_runit) (cases "both_add (hs, ms) h m"; simp)
next
  case (Cons x xs)
  show ?case
  proof (cases "g x")
    case None
    then show ?thesis by (cases "both_add (hs, ms) h m") (auto simp: assms split: prod.splits)
  next
    case (Some as)
    obtain hs' ms' where as: "as = (hs', ms')" by (cases as)
    have "Option.bind (both_add (hs, ms) h m) (fold_opt f (x # xs)) =
        Option.bind (both_add (hs @ hs', ms @ ms') h m) (fold_opt f xs)"
      by (cases "both_add (hs, ms) h m") (auto simp: assms Some as both_add_append split: prod.splits)
    moreover have "fold_opt ?G (x # xs) (hs, ms) = fold_opt ?G xs (hs @ hs', ms @ ms')"
      by (simp add: Some as)
    ultimately show ?thesis using Cons.IH by (simp only:)
  qed
qed

lemma render_patch_adds:
  "render_patch r node patch h m =
     Option.bind (collect_adds (patch_cell_adds r node patch) (List.product [0..<patch_height patch] [0..<patch_width patch]))
       (\<lambda>as. both_add as h m)"
  using fold_adds [of "patch_cell r node patch" "patch_cell_adds r node patch" "[]" "[]" h m, OF patch_cell_adds]
  by (simp add: render_patch_def collect_adds_def both_add_def add_all_def)

text \<open>The bounding box of the robot and the hits.\<close>

definition box :: "point \<Rightarrow> point list \<Rightarrow> (int \<times> int) \<times> (int \<times> int)" where
  "box robot hits =
     ((foldl min (fst robot) (map fst hits), foldl max (fst robot) (map fst hits)),
      (foldl min (snd robot) (map snd hits), foldl max (snd robot) (map snd hits)))"

definition scan_adds :: "drawing \<Rightarrow> counting_renderer \<Rightarrow> point \<Rightarrow> point list \<Rightarrow> (adds \<times> adds) option" where
  "scan_adds cv r robot hits =
     (case box robot hits of ((min_px, max_px), (min_py, max_py)) \<Rightarrow>
        let h = max_py - min_py + 1; w = max_px - min_px + 1
        in map_option (\<lambda>mask.
             (map (\<lambda>(x, y). (y, x, 1)) hits,
              map (\<lambda>(row, col). (min_py + row, min_px + col, 1))
                (filter (\<lambda>(row, col). 0 < px mask row col) (List.product [0..h - 1] [0..w - 1]))))
             (local_mask cv r robot hits min_px min_py h w))"

lemma fold_opt_filter:
  "fold_opt (\<lambda>x s. if P x then f x s else Some s) xs = fold_opt f (filter P xs)"
  by (induction xs) (auto simp: fun_eq_iff split: bind_splits)

lemma fold_opt_map: "fold_opt f (map g xs) = fold_opt (\<lambda>x. f (g x)) xs"
  by (induction xs) (auto simp: fun_eq_iff split: bind_splits)

lemma render_scan_adds:
  "render_scan cv r robot hits h m = Option.bind (scan_adds cv r robot hits) (\<lambda>as. both_add as h m)"
proof -
  have miss: "fold_opt (\<lambda>(row, col) m. if 0 < px mask row col then mat_add m (a + row) (b + col) 1 else Some m) cells =
      add_all (map (\<lambda>(row, col). (a + row, b + col, 1)) (filter (\<lambda>(row, col). 0 < px mask row col) cells))"
    for mask a b cells
    unfolding add_all_def fold_opt_map case_prod_beta
    using fold_opt_filter [of "\<lambda>x. 0 < px mask (fst x) (snd x)" "\<lambda>x m. mat_add m (a + fst x) (b + snd x) 1" cells]
    by simp
  have hit: "fold_opt (\<lambda>(x, y) m. mat_add m y x 1) hits = add_all (map (\<lambda>(x, y). (y, x, 1)) hits)"
    by (simp add: add_all_def fold_opt_map case_prod_unfold)
  have swap: "Option.bind (add_all ms m) (\<lambda>m'. Option.bind (add_all hs h) (\<lambda>h'. Some (h', m'))) = both_add (hs, ms) h m"
    for hs ms by (cases "add_all hs h"; cases "add_all ms m") (simp_all add: both_add_def)
  show ?thesis
    by (cases "local_mask cv r robot hits (foldl min (fst robot) (map fst hits)) (foldl min (snd robot) (map snd hits))
          (foldl max (snd robot) (map snd hits) - foldl min (snd robot) (map snd hits) + 1)
          (foldl max (fst robot) (map fst hits) - foldl min (fst robot) (map fst hits) + 1)")
       (simp_all add: render_scan_def scan_adds_def box_def Let_def miss hit swap)
qed

definition node_adds :: "drawing \<Rightarrow> counting_renderer \<Rightarrow> PoseNode \<Rightarrow> (bool \<times> adds \<times> adds) option" where
  "node_adds cv r node =
     (case n_patch node of
        Some patch \<Rightarrow>
          map_option (Pair True) (collect_adds (patch_cell_adds r node patch)
            (List.product [0..<patch_height patch] [0..<patch_width patch]))
      | None \<Rightarrow>
          if n_scan node = None then Some (True, [], [])
          else do {
            sp \<leftarrow> scan_hits_to_pixels node (cr_ox r) (cr_oy r) (cr_resolution r) (cr_width r) (cr_height r);
            if \<not> in_bounds (fst (robot_p sp)) (snd (robot_p sp)) (cr_width r) (cr_height r) then Some (False, [], [])
            else if hit_ps sp = [] then Some (True, [], [])
            else map_option (Pair True) (scan_adds cv r (robot_p sp) (hit_ps sp))
          })"

lemma both_add_empty [simp]: "both_add ([], []) h m = Some (h, m)"
  by (simp add: both_add_def add_all_def)

lemma bind_map_option: "Option.bind (map_option f x) g = Option.bind x (g \<circ> f)"
  by (cases x) auto

lemma map_option_bind: "map_option f (Option.bind x g) = Option.bind x (\<lambda>y. map_option f (g y))"
  by (cases x) auto

lemma render_node_impl_adds:
  "render_node_impl cv r node h m =
     Option.bind (node_adds cv r node) (\<lambda>(ok, as). map_option (Pair ok) (both_add as h m))"
  unfolding render_node_impl_def node_adds_def
  by (auto simp: render_patch_adds render_scan_adds bind_map_option map_option_bind o_def
      split: option.split bind_split)

subsection \<open>Every addition is inside the map\<close>

definition sized :: "int \<Rightarrow> int \<Rightarrow> cvmat \<Rightarrow> bool" where
  "sized h w m \<longleftrightarrow> rows m = h \<and> cols m = w \<and> (\<forall>r c. \<not> inside m r c \<longrightarrow> px m r c = 0)"

definition adds_inside :: "int \<Rightarrow> int \<Rightarrow> adds \<Rightarrow> bool" where
  "adds_inside h w as \<longleftrightarrow> (\<forall>(r, c, k) \<in> set as. in_bounds c r w h)"

lemma hit_beam_bounds:
  assumes "hit_beam node ox oy res w h scan i sp = Some sp'" and "\<forall>(x, y) \<in> set (hit_ps sp). in_bounds x y w h"
  shows "(\<forall>(x, y) \<in> set (hit_ps sp'). in_bounds x y w h) \<and> robot_p sp' = robot_p sp"
  using assms by (auto simp: hit_beam_def bind_eq_Some_conv split: if_splits)

lemma scan_hits_in_bounds:
  assumes "scan_hits_to_pixels node ox oy res w h = Some sp" and "(x, y) \<in> set (hit_ps sp)"
  shows "in_bounds x y w h"
proof (cases "n_scan node")
  case None
  with assms show ?thesis
    by (auto simp: scan_hits_to_pixels_def Let_def bind_eq_Some_conv split: prod.splits)
next
  case (Some s)
  with assms obtain sp0 where
    f: "fold_opt (hit_beam node ox oy res w h s) [0..<length (ranges s)] sp0 = Some sp" and "hit_ps sp0 = []"
    by (auto simp: scan_hits_to_pixels_def Let_def bind_eq_Some_conv split: prod.splits)
  then have "\<forall>(x, y) \<in> set (hit_ps sp). in_bounds x y w h"
    by (intro fold_opt_invariant [OF f, where I = "\<lambda>sp. \<forall>(x, y) \<in> set (hit_ps sp). in_bounds x y w h"])
       (simp, metis hit_beam_bounds)
  with assms show ?thesis by auto
qed

lemma foldl_min_max_bounds:
  "y \<in> insert a (set xs) \<Longrightarrow> foldl min a xs \<le> (y :: int) \<and> y \<le> foldl max a xs"
proof (induction xs arbitrary: a y)
  case (Cons x xs)
  from Cons.prems consider "y \<in> set xs" | "y = a" | "y = x" by auto
  then show ?case
    using Cons.IH [of y "min a x"] Cons.IH [of y "max a x"]
      Cons.IH [of "min a x" "min a x"] Cons.IH [of "max a x" "max a x"] by cases auto
qed simp

lemma foldl_min_max_in:
  "foldl min a xs \<in> insert (a :: int) (set xs)" "foldl max a xs \<in> insert a (set xs)"
proof -
  show "foldl min a xs \<in> insert a (set xs)"
    by (induction xs arbitrary: a) (simp, metis foldl_Cons insertCI insertE list.simps(15) min_def)
  show "foldl max a xs \<in> insert a (set xs)"
    by (induction xs arbitrary: a) (simp, metis foldl_Cons insertCI insertE list.simps(15) max_def)
qed

lemma box_bounds:
  assumes "box robot hits = ((min_px, max_px), (min_py, max_py))"
    and "\<forall>(x, y) \<in> set (robot # hits). in_bounds x y w h"
  shows "0 \<le> min_px" "max_px < w" "0 \<le> min_py" "max_py < h"
proof -
  have eqs: "min_px = foldl min (fst robot) (map fst hits)" "max_px = foldl max (fst robot) (map fst hits)"
    "min_py = foldl min (snd robot) (map snd hits)" "max_py = foldl max (snd robot) (map snd hits)"
    using assms(1) by (simp_all add: box_def)
  have x: "0 \<le> x \<and> x < w" if "x \<in> insert (fst robot) (set (map fst hits))" for x
    using that assms(2) by (auto simp: in_bounds_def)
  have y: "0 \<le> y \<and> y < h" if "y \<in> insert (snd robot) (set (map snd hits))" for y
    using that assms(2) by (auto simp: in_bounds_def)
  show "0 \<le> min_px" "max_px < w" "0 \<le> min_py" "max_py < h"
    unfolding eqs using x [OF foldl_min_max_in(1)] x [OF foldl_min_max_in(2)]
      y [OF foldl_min_max_in(1)] y [OF foldl_min_max_in(2)] by simp_all
qed

lemma adds_inside_simps [simp]:
  "adds_inside h w []" "adds_inside h w (as @ bs) \<longleftrightarrow> adds_inside h w as \<and> adds_inside h w bs"
  "adds_inside h w ((r, c, k) # as) \<longleftrightarrow> in_bounds c r w h \<and> adds_inside h w as"
  by (simp_all add: adds_inside_def ball_Un)

lemma scan_adds_inside:
  assumes "scan_adds cv r robot hits = Some (hs, ms)" and "\<forall>(x, y) \<in> set (robot # hits). in_bounds x y w h"
  shows "adds_inside h w hs \<and> adds_inside h w ms"
proof -
  obtain min_px max_px min_py max_py where b: "box robot hits = ((min_px, max_px), (min_py, max_py))"
    by (metis surj_pair)
  from assms(1) b have hs: "hs = map (\<lambda>(x, y). (y, x, 1)) hits"
    by (auto simp: scan_adds_def Let_def)
  from assms(1) b have "\<forall>(r, c, k) \<in> set ms. min_py \<le> r \<and> r \<le> max_py \<and> min_px \<le> c \<and> c \<le> max_px"
    by (auto simp: scan_adds_def Let_def)
  then have "adds_inside h w ms"
    using box_bounds [OF b assms(2)] by (fastforce simp: adds_inside_def in_bounds_def)
  moreover have "adds_inside h w hs" using assms(2) by (auto simp: hs adds_inside_def)
  ultimately show ?thesis by simp
qed

lemma patch_cell_adds_inside:
  "patch_cell_adds r node patch cell = Some (hs, ms) \<Longrightarrow>
     adds_inside (cr_height r) (cr_width r) hs \<and> adds_inside (cr_height r) (cr_width r) ms"
  by (auto simp: patch_cell_adds_def Let_def bind_eq_Some_conv split: prod.splits if_splits)

lemma collect_adds_inside:
  assumes "collect_adds f xs = Some as" and "\<And>x hs ms. f x = Some (hs, ms) \<Longrightarrow> adds_inside h w hs \<and> adds_inside h w ms"
  shows "adds_inside h w (fst as) \<and> adds_inside h w (snd as)"
  by (rule fold_opt_invariant [OF assms(1) [unfolded collect_adds_def],
        where I = "\<lambda>as. adds_inside h w (fst as) \<and> adds_inside h w (snd as)"])
     (use assms(2) in auto)

lemma node_adds_inside:
  assumes "node_adds cv r node = Some (ok, hs, ms)"
  shows "adds_inside (cr_height r) (cr_width r) hs \<and> adds_inside (cr_height r) (cr_width r) ms"
proof (cases "n_patch node")
  case (Some patch)
  with assms collect_adds_inside [where f = "patch_cell_adds r node patch", OF _ patch_cell_adds_inside]
  show ?thesis by (fastforce simp: node_adds_def)
next
  case None
  show ?thesis
  proof (cases "\<exists>sp. scan_hits_to_pixels node (cr_ox r) (cr_oy r) (cr_resolution r) (cr_width r) (cr_height r) = Some sp
      \<and> in_bounds (fst (robot_p sp)) (snd (robot_p sp)) (cr_width r) (cr_height r)
      \<and> scan_adds cv r (robot_p sp) (hit_ps sp) = Some (hs, ms)")
    case True
    then obtain sp where
      sp: "scan_hits_to_pixels node (cr_ox r) (cr_oy r) (cr_resolution r) (cr_width r) (cr_height r) = Some sp"
      and "in_bounds (fst (robot_p sp)) (snd (robot_p sp)) (cr_width r) (cr_height r)"
      and adds: "scan_adds cv r (robot_p sp) (hit_ps sp) = Some (hs, ms)" by blast
    then have "\<forall>(x, y) \<in> set (robot_p sp # hit_ps sp). in_bounds x y (cr_width r) (cr_height r)"
      using scan_hits_in_bounds [OF sp] by (simp add: case_prod_beta)
    from scan_adds_inside [OF adds this] show ?thesis .
  next
    case False
    with assms None show ?thesis by (auto simp: node_adds_def bind_eq_Some_conv split: if_splits)
  qed
qed

lemma tally_outside: "adds_inside h w as \<Longrightarrow> \<not> in_bounds c r w h \<Longrightarrow> tally as r c = 0"
  by (induction as) auto

lemma sized_inside: "sized h w m \<Longrightarrow> inside m r c = in_bounds c r w h"
  by (auto simp: sized_def inside_def in_bounds_def)

lemma sized_plus_tally: "sized h w m \<Longrightarrow> adds_inside h w as \<Longrightarrow> sized h w (plus_tally as m)"
  by (auto simp: sized_def plus_tally_def inside_def in_bounds_def tally_outside)

lemma both_add_sized:
  assumes "sized h w hit" "sized h w miss" "adds_inside h w hs" "adds_inside h w ms"
  shows "both_add (hs, ms) hit miss = Some (plus_tally hs hit, plus_tally ms miss)"
  using assms sized_inside [OF assms(1)] sized_inside [OF assms(2)]
  by (auto simp: both_add_def add_all_eq adds_inside_def)

text \<open>So rendering into matrices of the size of the map never leaves them.\<close>

lemma render_node_impl_sized:
  assumes "sized (cr_height r) (cr_width r) hit" "sized (cr_height r) (cr_width r) miss"
  shows "render_node_impl cv r node hit miss =
    map_option (\<lambda>(ok, hs, ms). (ok, plus_tally hs hit, plus_tally ms miss)) (node_adds cv r node)"
proof (cases "node_adds cv r node")
  case None
  then show ?thesis by (simp add: render_node_impl_adds)
next
  case (Some a)
  obtain ok hs ms where a: "a = (ok, hs, ms)" by (cases a)
  from node_adds_inside [OF Some [unfolded a]] both_add_sized [OF assms]
  show ?thesis by (simp add: render_node_impl_adds Some a)
qed

section \<open>Sequential and parallel rendering\<close>

text \<open>The contribution of a node to the hits and misses of a cell and to the counter.\<close>

definition node_defined :: "drawing \<Rightarrow> counting_renderer \<Rightarrow> PoseNode \<Rightarrow> bool" where
  "node_defined cv r node \<longleftrightarrow> (has_data node \<longrightarrow> node_adds cv r node \<noteq> None)"

definition contribution :: "drawing \<Rightarrow> counting_renderer \<Rightarrow> PoseNode \<Rightarrow> bool \<times> adds \<times> adds" where
  "contribution cv r node = (if has_data node then the (node_adds cv r node) else (False, [], []))"

definition node_hits :: "drawing \<Rightarrow> counting_renderer \<Rightarrow> int \<Rightarrow> int \<Rightarrow> PoseNode \<Rightarrow> int" where
  "node_hits cv r row col node = tally (fst (snd (contribution cv r node))) row col"

definition node_misses :: "drawing \<Rightarrow> counting_renderer \<Rightarrow> int \<Rightarrow> int \<Rightarrow> PoseNode \<Rightarrow> int" where
  "node_misses cv r row col node = tally (snd (snd (contribution cv r node))) row col"

definition node_rendered :: "drawing \<Rightarrow> counting_renderer \<Rightarrow> PoseNode \<Rightarrow> int" where
  "node_rendered cv r node = (if fst (contribution cv r node) then 1 else 0)"

lemmas contribution_defs = contribution_def node_hits_def node_misses_def node_rendered_def

text \<open>What a rendering adds depends on the settings and the extent of the map only.\<close>

lemma patch_cell_adds_frame [simp]:
  "patch_cell_adds (r\<lparr>hit_map := a\<rparr>) = patch_cell_adds r" "patch_cell_adds (r\<lparr>miss_map := a\<rparr>) = patch_cell_adds r"
  "patch_cell_adds (r\<lparr>cr_count := n\<rparr>) = patch_cell_adds r"
  by (intro ext, simp add: patch_cell_adds_def Let_def case_prod_beta)+

lemma scan_adds_frame [simp]:
  "scan_adds cv (r\<lparr>hit_map := a\<rparr>) = scan_adds cv r" "scan_adds cv (r\<lparr>miss_map := a\<rparr>) = scan_adds cv r"
  "scan_adds cv (r\<lparr>cr_count := n\<rparr>) = scan_adds cv r"
  by (intro ext, simp add: scan_adds_def local_mask_def Let_def case_prod_beta)+

lemma node_adds_frame [simp]:
  "node_adds cv (r\<lparr>hit_map := a\<rparr>) = node_adds cv r" "node_adds cv (r\<lparr>miss_map := a\<rparr>) = node_adds cv r"
  "node_adds cv (r\<lparr>cr_count := n\<rparr>) = node_adds cv r"
  by (intro ext, auto simp: node_adds_def cong: if_cong split: option.split)+

lemma contribution_frame [simp]:
  "contribution cv (r\<lparr>hit_map := a\<rparr>) = contribution cv r" "contribution cv (r\<lparr>miss_map := a\<rparr>) = contribution cv r"
  "contribution cv (r\<lparr>cr_count := n\<rparr>) = contribution cv r"
  by (simp_all add: contribution_def fun_eq_iff)

lemma node_defined_frame [simp]:
  "node_defined cv (r\<lparr>hit_map := a\<rparr>) = node_defined cv r" "node_defined cv (r\<lparr>miss_map := a\<rparr>) = node_defined cv r"
  "node_defined cv (r\<lparr>cr_count := n\<rparr>) = node_defined cv r"
  by (simp_all add: node_defined_def fun_eq_iff)

text \<open>The counts of a whole list of nodes.\<close>

definition total :: "(PoseNode \<Rightarrow> int) \<Rightarrow> PoseNode list \<Rightarrow> int" where
  "total f nodes = sum_list (map f nodes)"

definition counted :: "drawing \<Rightarrow> PoseNode list \<Rightarrow> counting_renderer \<Rightarrow> counting_renderer" where
  "counted cv nodes r = r\<lparr>
     hit_map := (hit_map r)\<lparr>px := \<lambda>row col. px (hit_map r) row col + total (node_hits cv r row col) nodes\<rparr>,
     miss_map := (miss_map r)\<lparr>px := \<lambda>row col. px (miss_map r) row col + total (node_misses cv r row col) nodes\<rparr>,
     cr_count := cr_count r + total (node_rendered cv r) nodes\<rparr>"

definition maps_sized :: "counting_renderer \<Rightarrow> bool" where
  "maps_sized r \<longleftrightarrow> sized (cr_height r) (cr_width r) (hit_map r) \<and> sized (cr_height r) (cr_width r) (miss_map r)"

lemma total_simps [simp]: "total f [] = 0" "total f (n # ns) = f n + total f ns"
  by (simp_all add: total_def)

lemma contribution_no_data: "\<not> has_data n \<Longrightarrow> contribution cv r n = (False, [], [])"
  by (simp add: contribution_def)

abbreviation render_if_data :: "drawing \<Rightarrow> PoseNode \<Rightarrow> counting_renderer \<Rightarrow> counting_renderer option" where
  "render_if_data cv node r \<equiv> if has_data node then map_option snd (cr_render_node cv node r) else Some r"

lemma render_one:
  assumes "maps_sized r"
  shows "render_if_data cv n r = (if node_defined cv r n then Some (counted cv [n] r) else None)"
proof (cases "has_data n")
  case True
  from assms have *: "render_node_impl cv r n (hit_map r) (miss_map r) =
      map_option (\<lambda>(ok, hs, ms). (ok, plus_tally hs (hit_map r), plus_tally ms (miss_map r))) (node_adds cv r n)"
    by (intro render_node_impl_sized) (auto simp: maps_sized_def)
  show ?thesis
  proof (cases "node_adds cv r n")
    case None
    then show ?thesis using True * by (simp add: cr_render_node_def node_defined_def)
  next
    case (Some a)
    then show ?thesis using True *
      by (cases a) (simp add: cr_render_node_def node_defined_def counted_def contribution_defs plus_tally_def Let_def)
  qed
next
  case False
  then show ?thesis by (simp add: node_defined_def counted_def contribution_defs)
qed

lemma contribution_inside:
  assumes "node_defined cv r n"
  shows "adds_inside (cr_height r) (cr_width r) (fst (snd (contribution cv r n)))"
    "adds_inside (cr_height r) (cr_width r) (snd (snd (contribution cv r n)))"
  using assms node_adds_inside [of cv r n] by (auto simp: contribution_def node_defined_def)

lemma counted_sized: "maps_sized r \<Longrightarrow> node_defined cv r n \<Longrightarrow> maps_sized (counted cv [n] r)"
  using contribution_inside [of cv r n]
  by (auto simp: maps_sized_def counted_def sized_def node_hits_def node_misses_def inside_def in_bounds_def tally_outside)

lemma counted_frame [simp]:
  "node_hits cv (counted cv ns r) = node_hits cv r" "node_misses cv (counted cv ns r) = node_misses cv r"
  "node_rendered cv (counted cv ns r) = node_rendered cv r" "node_defined cv (counted cv ns r) = node_defined cv r"
  by (simp_all add: counted_def node_hits_def node_misses_def node_rendered_def fun_eq_iff)

lemma counted_twice: "counted cv ns (counted cv [n] r) = counted cv (n # ns) r"
  unfolding counted_def [of cv ns "counted cv [n] r"] counted_frame
  by (simp add: counted_def add.assoc)

lemma render_all:
  assumes "maps_sized r"
  shows "fold_opt (\<lambda>n r. render_if_data cv n r) nodes r =
    (if list_all (node_defined cv r) nodes then Some (counted cv nodes r) else None)"
  using assms
proof (induction nodes arbitrary: r)
  case Nil
  then show ?case by (simp add: counted_def)
next
  case (Cons n ns)
  show ?case
    by (cases "node_defined cv r n")
       (simp_all add: render_one [OF Cons.prems] Cons.IH counted_sized Cons.prems counted_twice del: fold_opt.simps(1))
qed

subsection \<open>The parallel loop\<close>

definition thread_sized :: "int \<Rightarrow> int \<Rightarrow> thread_maps \<Rightarrow> bool" where
  "thread_sized h w = (\<lambda>(a, b, n). sized h w a \<and> sized h w b)"

definition thread_hits :: "int \<Rightarrow> int \<Rightarrow> thread_maps list \<Rightarrow> int" where
  "thread_hits row col ts = sum_list (map (\<lambda>t. px (fst t) row col) ts)"

definition thread_misses :: "int \<Rightarrow> int \<Rightarrow> thread_maps list \<Rightarrow> int" where
  "thread_misses row col ts = sum_list (map (\<lambda>t. px (fst (snd t)) row col) ts)"

definition thread_counts :: "thread_maps list \<Rightarrow> int" where
  "thread_counts ts = sum_list (map (snd \<circ> snd) ts)"

lemmas thread_sums = thread_hits_def thread_misses_def thread_counts_def

lemma sum_list_map_update:
  "k < length xs \<Longrightarrow> sum_list (map f (xs[k := x])) = sum_list (map f xs) + (f x - f (xs ! k) :: int)"
  by (induction xs arbitrary: k) (auto split: nat.split)

lemma thread_step_eq:
  assumes "list_all (thread_sized (cr_height r) (cr_width r)) ts" and "t < length ts"
  shows "thread_step cv r nodes (t, i) ts =
    (if node_defined cv r (nodes ! i) then
       case contribution cv r (nodes ! i) of (ok, hs, ms) \<Rightarrow>
         Some (if has_data (nodes ! i) then ts[t := (plus_tally hs (fst (ts ! t)), plus_tally ms (fst (snd (ts ! t))),
           snd (snd (ts ! t)) + (if ok then 1 else 0))] else ts)
     else None)"
proof -
  obtain a b n where t: "ts ! t = (a, b, n)" by (cases "ts ! t")
  with assms have "sized (cr_height r) (cr_width r) a" "sized (cr_height r) (cr_width r) b"
    by (auto simp: list_all_length thread_sized_def)
  from render_node_impl_sized [OF this, of cv "nodes ! i"] show ?thesis
    by (cases "node_adds cv r (nodes ! i)") (auto simp: thread_step_def t node_defined_def contribution_def)
qed

lemma thread_step_sums:
  assumes "list_all (thread_sized (cr_height r) (cr_width r)) ts" and "t < length ts"
    and "thread_step cv r nodes (t, i) ts = Some ts'"
  shows "list_all (thread_sized (cr_height r) (cr_width r)) ts'" "length ts' = length ts"
    "thread_hits row col ts' = thread_hits row col ts + node_hits cv r row col (nodes ! i)"
    "thread_misses row col ts' = thread_misses row col ts + node_misses cv r row col (nodes ! i)"
    "thread_counts ts' = thread_counts ts + node_rendered cv r (nodes ! i)"
proof -
  obtain ok hs ms where c: "contribution cv r (nodes ! i) = (ok, hs, ms)" by (metis surj_pair)
  from assms(3) have d: "node_defined cv r (nodes ! i)"
    and ts': "ts' = (if has_data (nodes ! i) then ts[t := (plus_tally hs (fst (ts ! t)), plus_tally ms (fst (snd (ts ! t))),
           snd (snd (ts ! t)) + (if ok then 1 else 0))] else ts)"
    unfolding thread_step_eq [OF assms(1, 2)] c by (auto split: if_splits)
  have "thread_sized (cr_height r) (cr_width r) (ts ! t)" using assms(1, 2) by (simp add: list_all_length)
  then have "thread_sized (cr_height r) (cr_width r)
      (plus_tally hs (fst (ts ! t)), plus_tally ms (fst (snd (ts ! t))), n)" for n
    using contribution_inside [OF d] by (auto simp: c thread_sized_def sized_plus_tally case_prod_beta)
  then show "list_all (thread_sized (cr_height r) (cr_width r)) ts'"
    using assms(1) by (auto simp: ts' list_all_iff dest!: set_update_subset_insert [THEN subsetD])
  show "length ts' = length ts" by (simp add: ts')
  have no: "\<not> has_data (nodes ! i) \<Longrightarrow> (ok, hs, ms) = (False, [], [])"
    using c contribution_no_data [of "nodes ! i" cv r] by simp
  show "thread_hits row col ts' = thread_hits row col ts + node_hits cv r row col (nodes ! i)"
    "thread_misses row col ts' = thread_misses row col ts + node_misses cv r row col (nodes ! i)"
    "thread_counts ts' = thread_counts ts + node_rendered cv r (nodes ! i)"
    using no assms(2)
    by (auto simp: ts' thread_sums node_hits_def node_misses_def node_rendered_def c sum_list_map_update plus_tally_def)
qed

lemma thread_loop:
  assumes "list_all (thread_sized (cr_height r) (cr_width r)) ts" and "\<forall>(t, i) \<in> set sched. t < length ts"
    and "\<forall>(t, i) \<in> set sched. node_defined cv r (nodes ! i)"
  shows "\<exists>ts'. fold_opt (thread_step cv r nodes) sched ts = Some ts' \<and>
    list_all (thread_sized (cr_height r) (cr_width r)) ts' \<and> length ts' = length ts \<and>
    (\<forall>row col. thread_hits row col ts' = thread_hits row col ts + total (node_hits cv r row col) (map ((!) nodes \<circ> snd) sched)) \<and>
    (\<forall>row col. thread_misses row col ts' = thread_misses row col ts + total (node_misses cv r row col) (map ((!) nodes \<circ> snd) sched)) \<and>
    thread_counts ts' = thread_counts ts + total (node_rendered cv r) (map ((!) nodes \<circ> snd) sched)"
  using assms
proof (induction sched arbitrary: ts)
  case (Cons e sched)
  obtain t i where e: "e = (t, i)" by fastforce
  with Cons.prems have t: "t < length ts" and d: "node_defined cv r (nodes ! i)" by auto
  then obtain ts1 where step: "thread_step cv r nodes (t, i) ts = Some ts1"
    using thread_step_eq [OF Cons.prems(1) t, of cv nodes i] by (auto split: prod.splits)
  note s = thread_step_sums [OF Cons.prems(1) t step]
  have "\<forall>(t, i) \<in> set sched. t < length ts1" and "\<forall>(t, i) \<in> set sched. node_defined cv r (nodes ! i)"
    using Cons.prems(2, 3) s(2) by auto
  from Cons.IH [OF s(1) this] obtain ts' where
    "fold_opt (thread_step cv r nodes) sched ts1 = Some ts'"
    "list_all (thread_sized (cr_height r) (cr_width r)) ts'" "length ts' = length ts1"
    "\<forall>row col. thread_hits row col ts' = thread_hits row col ts1 + total (node_hits cv r row col) (map ((!) nodes \<circ> snd) sched)"
    "\<forall>row col. thread_misses row col ts' = thread_misses row col ts1 + total (node_misses cv r row col) (map ((!) nodes \<circ> snd) sched)"
    "thread_counts ts' = thread_counts ts1 + total (node_rendered cv r) (map ((!) nodes \<circ> snd) sched)"
    by blast
  with step s(2-5) show ?case by (intro exI [of _ ts']) (simp add: e o_def)
qed simp

lemma thread_loop_undefined:
  assumes "list_all (thread_sized (cr_height r) (cr_width r)) ts" and "\<forall>(t, i) \<in> set sched. t < length ts"
    and "\<exists>(t, i) \<in> set sched. \<not> node_defined cv r (nodes ! i)"
  shows "fold_opt (thread_step cv r nodes) sched ts = None"
  using assms
proof (induction sched arbitrary: ts)
  case (Cons e sched)
  obtain t i where e: "e = (t, i)" by fastforce
  with Cons.prems have t: "t < length ts" by auto
  show ?case
  proof (cases "thread_step cv r nodes (t, i) ts")
    case None
    then show ?thesis by (simp add: e)
  next
    case (Some ts1)
    then have "node_defined cv r (nodes ! i)"
      using thread_step_eq [OF Cons.prems(1) t, of cv nodes i] by (auto split: if_splits)
    with Cons.prems(3) have "\<exists>(t, i) \<in> set sched. \<not> node_defined cv r (nodes ! i)" by (auto simp: e)
    moreover have "\<forall>(t, i) \<in> set sched. t < length ts1"
      using Cons.prems(2) thread_step_sums(2) [OF Cons.prems(1) t Some] by auto
    ultimately show ?thesis
      using Cons.IH [OF thread_step_sums(1) [OF Cons.prems(1) t Some]] Some by (simp add: e)
  qed
qed simp

text \<open>A schedule: every node once, by some thread, in any order.\<close>

definition valid_schedule :: "nat \<Rightarrow> nat \<Rightarrow> (nat \<times> nat) list \<Rightarrow> bool" where
  "valid_schedule threads n sched \<longleftrightarrow>
     list_all (\<lambda>(t, i). t < threads) sched \<and> mset (map snd sched) = mset [0..<n]"

lemma schedule_total:
  assumes "valid_schedule k (length nodes) sched"
  shows "total f (map ((!) nodes \<circ> snd) sched) = total f nodes"
proof -
  from assms have "mset (map snd sched) = mset [0..<length nodes]" by (simp add: valid_schedule_def)
  then have "mset (map ((!) nodes \<circ> snd) sched) = mset (map ((!) nodes) [0..<length nodes])"
    by (metis map_map mset_map)
  then have "mset (map ((!) nodes \<circ> snd) sched) = mset nodes" by (simp add: map_nth)
  then show ?thesis by (metis total_def mset_map sum_mset_sum_list)
qed

lemma schedule_indices:
  assumes "valid_schedule k (length nodes) sched"
  shows "(\<exists>(t, i) \<in> set sched. \<not> P (nodes ! i)) \<longleftrightarrow> \<not> list_all P nodes"
proof -
  from assms have "set (map snd sched) = set [0..<length nodes]"
    by (metis valid_schedule_def set_mset_mset)
  then have "(\<exists>i \<in> snd ` set sched. \<not> P (nodes ! i)) \<longleftrightarrow> (\<exists>i < length nodes. \<not> P (nodes ! i))"
    by (metis atLeastLessThan_upt atLeastLessThan_iff le0 list.set_map)
  then show ?thesis by (auto simp: list_all_length case_prod_beta)
qed

lemma sized_zeros [simp]: "sized h w (mat_fill h w 0)"
  by (simp add: sized_def mat_fill_def)

lemma merge_maps:
  assumes "\<forall>m \<in> set ms. sized h w m" and "sized h w m0"
  shows "foldl mat_sum m0 ms = m0\<lparr>px := \<lambda>row col. px m0 row col + sum_list (map (\<lambda>m. px m row col) ms)\<rparr>"
  using assms
proof (induction ms arbitrary: m0)
  case (Cons m ms)
  then have "sized h w (mat_sum m0 m)"
    by (auto simp: sized_def mat_sum_def mat_map_def inside_def)
  moreover have "mat_sum m0 m = m0\<lparr>px := \<lambda>row col. px m0 row col + px m row col\<rparr>"
    using Cons.prems by (auto simp: sized_def mat_sum_def mat_map_def inside_def fun_eq_iff)
  ultimately show ?case using Cons by (simp add: add.assoc)
qed simp

text \<open>The state in which rendering of \<open>nodes\<close> starts: the extent of the map is set, the maps are empty.\<close>

definition fresh :: "counting_renderer \<Rightarrow> real \<times> real \<times> int \<times> int \<Rightarrow> counting_renderer" where
  "fresh r = (\<lambda>(ox, oy, w, h). r\<lparr>cr_ox := ox, cr_oy := oy, cr_width := w, cr_height := h, cr_count := 0,
     cr_initialized := True, hit_map := mat_fill h w 0, miss_map := mat_fill h w 0\<rparr>)"

lemma thread_step_frame [simp]:
  "thread_step cv (r\<lparr>hit_map := a\<rparr>) = thread_step cv r" "thread_step cv (r\<lparr>miss_map := a\<rparr>) = thread_step cv r"
  by (intro ext, simp add: thread_step_def render_node_impl_adds case_prod_beta)+

lemma parallel_section:
  assumes "valid_schedule k (length nodes) sched" and "maps_sized r"
    and "hit_map r = mat_fill h w 0" "miss_map r = mat_fill h w 0" "cr_count r = 0" "cr_width r = w" "cr_height r = h"
  shows "do {
      threads \<leftarrow> fold_opt (thread_step cv r nodes) sched (replicate k (mat_fill h w 0, mat_fill h w 0, 0));
      Some (r\<lparr>hit_map := foldl mat_sum (mat_fill h w 0) (map fst threads),
              miss_map := foldl mat_sum (mat_fill h w 0) (map (fst \<circ> snd) threads),
              cr_count := sum_list (map (snd \<circ> snd) threads)\<rparr>)
    } = (if list_all (node_defined cv r) nodes then Some (counted cv nodes r) else None)"
proof -
  let ?ts = "replicate k (mat_fill h w 0, mat_fill h w 0, 0) :: thread_maps list"
  have sz: "list_all (thread_sized (cr_height r) (cr_width r)) ?ts"
    by (simp add: list_all_iff thread_sized_def assms)
  have lt: "\<forall>(t, i) \<in> set sched. t < length ?ts"
    using assms(1) by (auto simp: valid_schedule_def list_all_iff)
  show ?thesis
  proof (cases "list_all (node_defined cv r) nodes")
    case False
    then have "\<exists>(t, i) \<in> set sched. \<not> node_defined cv r (nodes ! i)" by (simp add: schedule_indices [OF assms(1)])
    with False show ?thesis using thread_loop_undefined [OF sz lt] by simp
  next
    case True
    then have "\<forall>(t, i) \<in> set sched. node_defined cv r (nodes ! i)"
      using schedule_indices [OF assms(1), of "node_defined cv r"] by auto
    from thread_loop [OF sz lt this] obtain ts where
      run: "fold_opt (thread_step cv r nodes) sched ?ts = Some ts"
      and tsz: "list_all (thread_sized (cr_height r) (cr_width r)) ts"
      and hits: "\<And>row col. thread_hits row col ts = total (node_hits cv r row col) nodes"
      and misses: "\<And>row col. thread_misses row col ts = total (node_misses cv r row col) nodes"
      and counts: "thread_counts ts = total (node_rendered cv r) nodes"
      unfolding schedule_total [OF assms(1)]
      by (auto simp: thread_sums mat_fill_def sum_list_replicate)
    have "\<forall>m \<in> set (map fst ts). sized h w m" "\<forall>m \<in> set (map (fst \<circ> snd) ts). sized h w m"
      using tsz by (auto simp: list_all_iff thread_sized_def assms)
    note merge = this [THEN merge_maps, OF sized_zeros]
    have "r\<lparr>hit_map := foldl mat_sum (mat_fill h w 0) (map fst ts),
        miss_map := foldl mat_sum (mat_fill h w 0) (map (fst \<circ> snd) ts),
        cr_count := sum_list (map (snd \<circ> snd) ts)\<rparr> = counted cv nodes r"
      unfolding merge
      by (simp add: counted_def assms mat_fill_def hits [symmetric] misses [symmetric] counts [symmetric]
          thread_sums o_def)
    with True show ?thesis by (simp add: run)
  qed
qed

lemma rerender_sequential:
  assumes "valid_schedule (min 4 max_threads) (length nodes) schedule"
  shows "cr_rerender_all cv max_threads schedule nodes r = cr_rerender_all cv 1 [] nodes r"
proof (cases "nodes = [] \<or> compute_bounds nodes (cr_resolution r) (cr_margin r) = None")
  case True
  then show ?thesis by (auto simp: cr_rerender_all_def)
next
  case False
  then obtain ox oy w h where b: "compute_bounds nodes (cr_resolution r) (cr_margin r) = Some (ox, oy, w, h)" by auto
  have fr: "maps_sized (fresh r (ox, oy, w, h))" by (simp add: maps_sized_def fresh_def)
  note par = parallel_section [OF assms fr, where h = h and w = w and cv = cv]
  show ?thesis
  proof (cases "min 4 max_threads \<le> 1 \<or> length nodes \<le> 4")
    case True
    with False b show ?thesis by (auto simp: cr_rerender_all_def Let_def)
  next
    case par_case: False
    have "cr_rerender_all cv 1 [] nodes r = fold_opt (\<lambda>n r. render_if_data cv n r) nodes (fresh r (ox, oy, w, h))"
      using False b by (simp add: cr_rerender_all_def Let_def fresh_def)
    also have "\<dots> = (if list_all (node_defined cv (fresh r (ox, oy, w, h))) nodes
        then Some (counted cv nodes (fresh r (ox, oy, w, h))) else None)"
      by (rule render_all [OF fr])
    also have "\<dots> = cr_rerender_all cv max_threads schedule nodes r"
      by (subst par [symmetric]) (use False b par_case in \<open>simp_all add: cr_rerender_all_def Let_def fresh_def\<close>)
    finally show ?thesis by simp
  qed
qed

text \<open>
  C38. Rendering in parallel is deterministic: whatever number of threads OpenMP grants and however its dynamic
  schedule distributes the nodes over them, \<^verbatim>\<open>rerender_all\<close> leaves the same renderer as rendering the nodes one
  after another, and neither has undefined behaviour that the other does not have.
\<close>

theorem rerender_schedule_independent:
  assumes "valid_schedule (min 4 max_threads) (length nodes) schedule"
  shows "cr_rerender_all cv max_threads schedule nodes r = cr_rerender_all cv 1 [] nodes r"
  using assms by (rule rerender_sequential)

text \<open>A drawing that covers the end points of lines and the centre of circles, and a renderer.\<close>

definition sample_drawing :: drawing where
  "sample_drawing = \<lparr>line_pixels = \<lambda>_ _ p q. [p, q], polyline_pixels = \<lambda>_ _ ps _. ps, disc_pixels = \<lambda>_ _ p _. [p]\<rparr>"

definition sample_renderer :: counting_renderer where
  "sample_renderer = CountingRenderer 1 2 (1 / 2) 1 1 (1 / 4) 0 2"

theorem rerender_schedule_independent_witness:
  "cr_rerender_all sample_drawing 2 [(1, 4), (0, 0), (1, 1), (0, 3), (1, 2)]
     (map (\<lambda>i. sample_node\<lparr>n_x := real i, n_scan := Some sample_scan\<rparr>) [0..<5]) sample_renderer =
   cr_rerender_all sample_drawing 1 []
     (map (\<lambda>i. sample_node\<lparr>n_x := real i, n_scan := Some sample_scan\<rparr>) [0..<5]) sample_renderer"
  by (rule rerender_schedule_independent) (simp add: valid_schedule_def numeral_eq_Suc)

section \<open>The extent of the map\<close>

lemma foldl_f_min:
  "\<exists>m. foldl (\<lambda>m n. f_min m (Fin (f n))) (Fin a) ns = Fin m \<and> m \<le> a \<and> (\<forall>n \<in> set ns. m \<le> f n)"
proof (induction ns arbitrary: a)
  case (Cons n ns)
  from Cons [of "min a (f n)"] show ?case by auto
qed simp

lemma foldl_f_max:
  "\<exists>m. foldl (\<lambda>m n. f_max m (Fin (f n))) (Fin a) ns = Fin m \<and> a \<le> m \<and> (\<forall>n \<in> set ns. f n \<le> m)"
proof (induction ns arbitrary: a)
  case (Cons n ns)
  from Cons [of "max a (f n)"] show ?case by auto
qed simp

lemma extremes:
  assumes "n \<in> set nodes"
  shows "fin_val (foldl (\<lambda>m n. f_min m (Fin (f n))) PInf nodes) \<le> f n"
    and "f n \<le> fin_val (foldl (\<lambda>m n. f_max m (Fin (f n))) NInf nodes)"
proof -
  obtain n0 ns where "nodes = n0 # ns" using assms by (cases nodes) auto
  then show "fin_val (foldl (\<lambda>m n. f_min m (Fin (f n))) PInf nodes) \<le> f n"
    and "f n \<le> fin_val (foldl (\<lambda>m n. f_max m (Fin (f n))) NInf nodes)"
    using assms foldl_f_min [of f "f n0" ns] foldl_f_max [of f "f n0" ns]
    by (auto simp: f_min_def f_max_def)
qed

lemma to_int32_Some: "to_int32 d = Some k \<longleftrightarrow> k = trunc_int d \<and> - (2 ^ 31) \<le> k \<and> k < 2 ^ 31"
  by (auto simp: to_int32_def)

lemma compute_boundsD:
  assumes "compute_bounds nodes res margin = Some (ox, oy, w, h)" and "n \<in> set nodes"
  shows "res \<noteq> 0" "ox + margin \<le> n_x n" "oy + margin \<le> n_y n"
    "of_int w \<ge> (n_x n + margin - ox) / res \<or> res < 0" "of_int h \<ge> (n_y n + margin - oy) / res \<or> res < 0"
    "w < 2 ^ 31" "h < 2 ^ 31" "1 \<le> w" "1 \<le> h"
proof -
  note ext = extremes [OF assms(2), of n_x] extremes [OF assms(2), of n_y]
  let ?mx = "fin_val (foldl (\<lambda>m n. f_max m (Fin (n_x n))) NInf nodes)"
  let ?my = "fin_val (foldl (\<lambda>m n. f_max m (Fin (n_y n))) NInf nodes)"
  from assms have b: "res \<noteq> 0"
    "ox = fin_val (foldl (\<lambda>m n. f_min m (Fin (n_x n))) PInf nodes) - margin"
    "oy = fin_val (foldl (\<lambda>m n. f_min m (Fin (n_y n))) PInf nodes) - margin"
    "w = max 1 \<lceil>(?mx + margin - ox) / res\<rceil>" "h = max 1 \<lceil>(?my + margin - oy) / res\<rceil>"
    "\<lceil>(?mx + margin - ox) / res\<rceil> < 2 ^ 31" "\<lceil>(?my + margin - oy) / res\<rceil> < 2 ^ 31"
    by (auto simp: compute_bounds_def Let_def bind_eq_Some_conv to_int32_Some split: if_splits)
  show "res \<noteq> 0" "ox + margin \<le> n_x n" "oy + margin \<le> n_y n" using b(1-3) ext by simp_all
  show "w < 2 ^ 31" "h < 2 ^ 31" "1 \<le> w" "1 \<le> h" using b(4-7) by simp_all
  have up: "of_int (max 1 \<lceil>(m + margin - orig) / res\<rceil>) \<ge> (v + margin - orig) / res" if "v \<le> m" "0 \<le> res" for v m orig
  proof -
    have "(v + margin - orig) / res \<le> (m + margin - orig) / res" using that by (intro divide_right_mono) simp_all
    also have "\<dots> \<le> of_int \<lceil>(m + margin - orig) / res\<rceil>" by simp
    finally show ?thesis by (simp add: le_max_iff_disj)
  qed
  show "of_int w \<ge> (n_x n + margin - ox) / res \<or> res < 0" "of_int h \<ge> (n_y n + margin - oy) / res \<or> res < 0"
    using up [OF ext(2)] up [OF ext(4)] b(4, 5) by force+
qed

lemma pixel_in_extent:
  assumes "0 < res" "0 < margin" "orig + margin \<le> v" "(v + margin - orig) / res \<le> of_int k" "k < 2 ^ 31"
  shows "to_int32 ((v - orig) / res) = Some \<lfloor>(v - orig) / res\<rfloor>" "0 \<le> \<lfloor>(v - orig) / res\<rfloor>" "\<lfloor>(v - orig) / res\<rfloor> < k"
proof -
  have nonneg: "0 \<le> (v - orig) / res" using assms by simp
  have "(v - orig) / res < (v + margin - orig) / res" using assms by (intro divide_strict_right_mono) auto
  then have lt: "(v - orig) / res < of_int k" using assms(4) by linarith
  show "0 \<le> \<lfloor>(v - orig) / res\<rfloor>" using nonneg by simp
  show "\<lfloor>(v - orig) / res\<rfloor> < k" using lt by linarith
  from this assms(5) have "\<lfloor>(v - orig) / res\<rfloor> < 2 ^ 31" by (rule less_trans)
  moreover have "trunc_int ((v - orig) / res) = \<lfloor>(v - orig) / res\<rfloor>" using nonneg by (simp add: trunc_int_def)
  ultimately show "to_int32 ((v - orig) / res) = Some \<lfloor>(v - orig) / res\<rfloor>"
    using \<open>0 \<le> \<lfloor>(v - orig) / res\<rfloor>\<close> unfolding to_int32_Some by linarith
qed

lemma node_in_extent:
  assumes "compute_bounds nodes res margin = Some (ox, oy, w, h)" and "n \<in> set nodes" "0 < res" "0 < margin"
  shows "\<exists>x y. world_to_pixel (n_x n) (n_y n) ox oy res = Some (x, y) \<and> in_bounds x y w h"
proof -
  note b = compute_boundsD [OF assms(1, 2)]
  have "(n_x n + margin - ox) / res \<le> of_int w" "(n_y n + margin - oy) / res \<le> of_int h"
    using b(4, 5) assms(3) by auto
  note px = pixel_in_extent [OF assms(3, 4) b(2) this(1) b(6)] and py = pixel_in_extent [OF assms(3, 4) b(3) this(2) b(7)]
  show ?thesis using px py assms(3) by (simp add: world_to_pixel_def in_bounds_def)
qed

text \<open>What rerendering leaves, when it is defined.\<close>

lemma cr_rerender_seq:
  assumes "compute_bounds nodes (cr_resolution r) (cr_margin r) = Some b" and "nodes \<noteq> []"
  shows "cr_rerender_all cv 1 [] nodes r =
    (if list_all (node_defined cv (fresh r b)) nodes then Some (counted cv nodes (fresh r b)) else None)"
proof -
  obtain ox oy w h where b: "b = (ox, oy, w, h)" by (cases b)
  have "cr_rerender_all cv 1 [] nodes r = fold_opt (\<lambda>n r. render_if_data cv n r) nodes (fresh r b)"
    using assms by (simp add: cr_rerender_all_def Let_def fresh_def b)
  also have "\<dots> = (if list_all (node_defined cv (fresh r b)) nodes then Some (counted cv nodes (fresh r b)) else None)"
    by (rule render_all) (simp add: maps_sized_def fresh_def b)
  finally show ?thesis .
qed

section \<open>What the counters mean\<close>

text \<open>Documented behaviour of a filled circle: it covers its centre.\<close>

definition covers_centre :: "drawing \<Rightarrow> bool" where
  "covers_centre cv \<longleftrightarrow>
     (\<forall>rs cs x y radius. in_bounds x y cs rs \<longrightarrow> 0 \<le> radius \<longrightarrow> (x, y) \<in> set (disc_pixels cv rs cs (x, y) radius))"

lemma draw_simps [simp]:
  "rows (draw pts v m) = rows m" "cols (draw pts v m) = cols m" "inside (draw pts v m) r c = inside m r c"
  "px (draw pts v m) r c = (if inside m r c \<and> (c, r) \<in> set pts then v else px m r c)"
  by (simp_all add: draw_def mat_map_def inside_def)

lemma foldl_draw_dims [simp]:
  "rows (foldl (\<lambda>m x. draw (f m x) v m) m xs) = rows m" "cols (foldl (\<lambda>m x. draw (f m x) v m) m xs) = cols m"
  by (induction xs arbitrary: m) auto

lemma mat_set_Some: "mat_set m r c v = Some m' \<longleftrightarrow> inside m r c \<and> m' = m\<lparr>px := (px m)(r := (px m r)(c := v))\<rparr>"
  by (auto simp: mat_set_def)

lemma clear_step_keeps:
  assumes "clear_step cv rel radius p m = Some m'"
  shows "rows m' = rows m" "cols m' = cols m" "px m r c = 0 \<Longrightarrow> px m' r c = 0"
  using assms by (auto simp: clear_step_def cv_disc_def mat_set_Some split: if_splits)

lemma clear_step_clears:
  assumes "clear_step cv rel radius p m = Some m'" and "covers_centre cv" and "rel p = (c, r)" and "inside m r c"
  shows "px m' r c = 0"
  using assms by (auto simp: clear_step_def cv_disc_def mat_set_Some covers_centre_def inside_def in_bounds_def split: if_splits)

lemma clear_all:
  assumes "fold_opt (clear_step cv rel radius) ps m = Some m'"
  shows "rows m' = rows m \<and> cols m' = cols m \<and> (px m r c = 0 \<longrightarrow> px m' r c = 0) \<and>
    (covers_centre cv \<longrightarrow> inside m r c \<longrightarrow> (c, r) \<in> rel ` set ps \<longrightarrow> px m' r c = 0)"
  using assms
proof (induction ps arbitrary: m)
  case (Cons p ps)
  then obtain m1 where step: "clear_step cv rel radius p m = Some m1" and rest: "fold_opt (clear_step cv rel radius) ps m1 = Some m'"
    by (auto simp: bind_eq_Some_conv)
  note k = clear_step_keeps [OF step] and IH = Cons.IH [OF rest]
  have "inside m1 r c = inside m r c" using k(1, 2) by (simp add: inside_def)
  with IH k clear_step_clears [OF step, of c r] show ?case by auto
qed simp

lemma local_mask_clear:
  assumes "local_mask cv r robot hits min_px min_py h w = Some lm" and "covers_centre cv" and "(x, y) \<in> set hits"
    and "0 \<le> x - min_px" "x - min_px < w" "0 \<le> y - min_py" "y - min_py < h"
  shows "px lm (y - min_py) (x - min_px) = 0"
proof -
  let ?rel = "\<lambda>(x, y). (x - min_px, y - min_py)"
  from assms(1) obtain radius curves where
    f: "fold_opt (clear_step cv ?rel radius) hits (foldl (\<lambda>m c. cv_polyline cv c 1 1 m) (mat_fill h w 0) curves) = Some lm"
    by (auto simp: local_mask_def Let_def bind_eq_Some_conv split: if_splits)
  have "inside (foldl (\<lambda>m c. cv_polyline cv c 1 1 m) (mat_fill h w 0) curves) (y - min_py) (x - min_px)"
    using assms(4-7) by (simp add: inside_def cv_polyline_def mat_fill_def)
  moreover have "(x - min_px, y - min_py) \<in> ?rel ` set hits" using assms(3) by force
  ultimately show ?thesis using clear_all [OF f] assms(2) by blast
qed

text \<open>The hit pixels of a node, as the renderer sees them.\<close>

definition node_hit_pixels :: "counting_renderer \<Rightarrow> PoseNode \<Rightarrow> point list" where
  "node_hit_pixels r n =
     (if n_scan n = None then []
      else case scan_hits_to_pixels n (cr_ox r) (cr_oy r) (cr_resolution r) (cr_width r) (cr_height r) of
        None \<Rightarrow> []
      | Some sp \<Rightarrow> if in_bounds (fst (robot_p sp)) (snd (robot_p sp)) (cr_width r) (cr_height r) then hit_ps sp else [])"

lemma tally_hits: "tally (map (\<lambda>(x, y). (y, x, 1)) hits) row col = int (count_list hits (col, row))"
  by (induction hits) (auto split: if_splits)

lemma tally_ones:
  assumes "distinct cells"
  shows "tally (map (\<lambda>(r, c). (a + r, b + c, 1)) cells) row col = (if (row - a, col - b) \<in> set cells then 1 else 0)"
  using assms by (induction cells) (auto split: if_splits)

lemma distinct_box: "distinct (filter P (List.product [a..b] [c..d]))"
  by (intro distinct_filter distinct_product) simp_all

lemma scan_adds_counts:
  assumes "scan_adds cv r robot hits = Some (hs, ms)" and "covers_centre cv"
  shows "tally hs row col = int (count_list hits (col, row))"
    "0 \<le> tally ms row col" "tally ms row col \<le> (if (col, row) \<in> set hits then 0 else 1)"
proof -
  obtain min_px max_px min_py max_py where b: "box robot hits = ((min_px, max_px), (min_py, max_py))"
    by (metis surj_pair)
  let ?cells = "\<lambda>lm. filter (\<lambda>(row, col). 0 < px lm row col) (List.product [0..max_py - min_py] [0..max_px - min_px])"
  from assms(1) b obtain lm where
    m: "local_mask cv r robot hits min_px min_py (max_py - min_py + 1) (max_px - min_px + 1) = Some lm"
    and hs: "hs = map (\<lambda>(x, y). (y, x, 1)) hits"
    and ms: "ms = map (\<lambda>(row, col). (min_py + row, min_px + col, 1)) (?cells lm)"
    by (auto simp: scan_adds_def Let_def)
  show "tally hs row col = int (count_list hits (col, row))" by (simp add: hs tally_hits)
  have tm: "tally ms row col = (if (row - min_py, col - min_px) \<in> set (?cells lm) then 1 else 0)"
    unfolding ms by (rule tally_ones [OF distinct_box])
  then show "0 \<le> tally ms row col" by simp
  have "(row - min_py, col - min_px) \<notin> set (?cells lm)" if hit: "(col, row) \<in> set hits"
  proof -
    have "col \<in> insert (fst robot) (set (map fst hits))" "row \<in> insert (snd robot) (set (map snd hits))"
      using hit by force+
    then have "min_px \<le> col \<and> col \<le> max_px" "min_py \<le> row \<and> row \<le> max_py"
      using b foldl_min_max_bounds [of col "fst robot" "map fst hits"]
        foldl_min_max_bounds [of row "snd robot" "map snd hits"] by (simp_all add: box_def)
    then have "px lm (row - min_py) (col - min_px) = 0"
      by (intro local_mask_clear [OF m assms(2) hit]) simp_all
    then show ?thesis by simp
  qed
  then show "tally ms row col \<le> (if (col, row) \<in> set hits then 0 else 1)" unfolding tm by (cases "(col, row) \<in> set hits") (simp_all del: set_filter)
qed

lemma contribution_counts:
  assumes "node_defined cv r n" and "n_patch n = None" and "covers_centre cv"
  shows "node_hits cv r row col n = int (count_list (node_hit_pixels r n) (col, row))"
    "0 \<le> node_misses cv r row col n"
    "node_misses cv r row col n \<le> (if (col, row) \<in> set (node_hit_pixels r n) then 0 else 1)"
proof -
  let ?goal = "node_hits cv r row col n = int (count_list (node_hit_pixels r n) (col, row)) \<and>
    0 \<le> node_misses cv r row col n \<and>
    node_misses cv r row col n \<le> (if (col, row) \<in> set (node_hit_pixels r n) then 0 else 1)"
  have ?goal
  proof (cases "n_scan n")
    case None
    with assms show ?thesis by (simp add: contribution_defs has_data_def node_hit_pixels_def)
  next
    case (Some s)
    then have "has_data n" by (simp add: has_data_def)
    with assms obtain ok hs ms where a: "node_adds cv r n = Some (ok, hs, ms)" by (auto simp: node_defined_def)
    with \<open>has_data n\<close> have c: "contribution cv r n = (ok, hs, ms)" by (simp add: contribution_def)
    from a assms(2) Some obtain sp where
      sp: "scan_hits_to_pixels n (cr_ox r) (cr_oy r) (cr_resolution r) (cr_width r) (cr_height r) = Some sp"
      by (auto simp: node_adds_def bind_eq_Some_conv)
    show ?thesis
    proof (cases "in_bounds (fst (robot_p sp)) (snd (robot_p sp)) (cr_width r) (cr_height r) \<and> hit_ps sp \<noteq> []")
      case True
      with a assms(2) Some sp have sa: "scan_adds cv r (robot_p sp) (hit_ps sp) = Some (hs, ms)"
        by (auto simp: node_adds_def)
      have "node_hit_pixels r n = hit_ps sp" using True Some sp by (simp add: node_hit_pixels_def)
      with scan_adds_counts [OF sa assms(3)] c show ?thesis by (simp add: node_hits_def node_misses_def)
    next
      case False
      with a assms(2) Some sp have "hs = []" "ms = []" "node_hit_pixels r n = []"
        by (auto simp: node_adds_def node_hit_pixels_def split: if_splits)
      with c show ?thesis by (simp add: node_hits_def node_misses_def)
    qed
  qed
  then show "node_hits cv r row col n = int (count_list (node_hit_pixels r n) (col, row))"
    "0 \<le> node_misses cv r row col n"
    "node_misses cv r row col n \<le> (if (col, row) \<in> set (node_hit_pixels r n) then 0 else 1)" by auto
qed

lemma total_mono: "(\<And>n. n \<in> set ns \<Longrightarrow> f n \<le> g n) \<Longrightarrow> total f ns \<le> total g ns"
  by (induction ns) (auto intro: add_mono)

lemma total_cong: "(\<And>n. n \<in> set ns \<Longrightarrow> f n = g n) \<Longrightarrow> total f ns = total g ns"
  by (induction ns) auto

lemma total_indicator: "total (\<lambda>n. if P n then 0 else 1) ns = int (length (filter (\<lambda>n. \<not> P n) ns))"
  by (induction ns) auto

lemma node_hit_pixels_counted [simp]: "node_hit_pixels (counted cv ns r) = node_hit_pixels r"
  by (simp add: node_hit_pixels_def counted_def fun_eq_iff split: option.split)

lemma rerender_counted:
  assumes "valid_schedule (min 4 max_threads) (length nodes) schedule"
    and "cr_rerender_all cv max_threads schedule nodes r = Some r'" and "nodes \<noteq> []"
  obtains b where "compute_bounds nodes (cr_resolution r) (cr_margin r) = Some b"
    and "list_all (node_defined cv (fresh r b)) nodes" and "r' = counted cv nodes (fresh r b)"
proof -
  from assms(2, 3) obtain b where b: "compute_bounds nodes (cr_resolution r) (cr_margin r) = Some b"
    by (auto simp: cr_rerender_all_def bind_eq_Some_conv)
  with that assms(2) cr_rerender_seq [OF b assms(3), of cv] show thesis
    by (simp add: rerender_sequential [OF assms(1)] split: if_splits)
qed

section \<open>Occupancy\<close>

lemma mat_map_simps [simp]:
  "rows (mat_map f m) = rows m" "cols (mat_map f m) = cols m" "inside (mat_map f m) r c = inside m r c"
  "px (mat_map f m) r c = (if inside m r c then f r c (px m r c) else px m r c)"
  by (simp_all add: mat_map_def inside_def)

text \<open>
  Confirmed walls survive: a cell with at least \<^verbatim>\<open>min_hits\<close> hits stays occupied however many rays pass
  through it, whenever the threshold is at most the ratio that the capped misses leave,
  \<open>hit_weight / (hit_weight + max_miss_ratio * miss_weight)\<close>.
\<close>

theorem confirmed_wall_kept:
  assumes "inside (hit_map r) row col" and "0 < px (hit_map r) row col" and "cr_min_hits r \<le> px (hit_map r) row col"
    and "0 < cr_hit_weight r" "0 \<le> cr_miss_weight r" "0 < cr_max_miss_ratio r"
    and "0 \<le> px (miss_map r) row col"
    and "cr_hit_threshold r \<le> cr_hit_weight r / (cr_hit_weight r + cr_max_miss_ratio r * cr_miss_weight r)"
  shows "px (occ_data (cr_to_occupancy_array r)) row col = 100"
proof -
  define hits where "hits = px (hit_map r) row col"
  define eff where "eff = min (px (miss_map r) row col) (trunc_int (of_int hits * cr_max_miss_ratio r))"
  let ?hw = "of_int hits * cr_hit_weight r" and ?mw = "of_int eff * cr_miss_weight r"
  have h: "0 < real_of_int hits" using assms(2) by (simp add: hits_def)
  have nonneg: "0 \<le> real_of_int hits * cr_max_miss_ratio r" using h assms(6) by simp
  have "eff \<le> \<lfloor>of_int hits * cr_max_miss_ratio r\<rfloor>" using nonneg by (simp add: eff_def trunc_int_def)
  then have e: "0 \<le> eff" "real_of_int eff \<le> of_int hits * cr_max_miss_ratio r"
    using nonneg assms(7) by (simp_all add: eff_def trunc_int_def le_floor_iff)
  have pos: "0 < ?hw + ?mw" using h e(1) assms(4, 5) by (simp add: add_pos_nonneg)
  have "?mw \<le> of_int hits * cr_max_miss_ratio r * cr_miss_weight r" using e(2) assms(5) by (rule mult_right_mono)
  then have le: "?hw + ?mw \<le> of_int hits * (cr_hit_weight r + cr_max_miss_ratio r * cr_miss_weight r)"
    by (simp add: algebra_simps)
  have "cr_hit_weight r / (cr_hit_weight r + cr_max_miss_ratio r * cr_miss_weight r) =
      ?hw / (of_int hits * (cr_hit_weight r + cr_max_miss_ratio r * cr_miss_weight r))" using h by simp
  also have "\<dots> \<le> ?hw / (?hw + ?mw)" using le pos h assms(4) by (intro divide_left_mono) auto
  finally have "cr_hit_threshold r \<le> ?hw / (?hw + ?mw)" using assms(8) by simp
  then have "cr_cell r hits (px (miss_map r) row col) = 100"
    using pos assms(2, 3, 6) h by (simp add: cr_cell_def Let_def eff_def hits_def)
  then show ?thesis using assms(1) by (simp add: cr_to_occupancy_array_def hits_def)
qed

theorem confirmed_wall_kept_witness:
  "px (occ_data (cr_to_occupancy_array (sample_renderer\<lparr>hit_map := mat_fill 1 1 3, miss_map := mat_fill 1 1 1000\<rparr>))) 0 0 = 100"
  by (rule confirmed_wall_kept) (simp_all add: sample_renderer_def CountingRenderer_def mat_fill_def inside_def)

end
