(* ===== verification/MapRenderers.thy ===== *)
theory MapRenderers
  imports MapCounting
begin

text \<open>
  The interface \<^verbatim>\<open>MapRendererBase\<close> as a locale, interpreted for the counting and the overwriting renderer, with the
  trajectory noise filter as its client; and the absence of undefined behaviour in rendering.
\<close>

section \<open>The renderer interface\<close>

text \<open>
  \<^verbatim>\<open>MapRendererBase\<close>: what the clients of a renderer rely on.  \<open>ok\<close> is the invariant of the implementation,
  \<open>pixel\<close> the pixel of a position, \<open>occ\<close> the published map.
\<close>

locale map_renderer =
  fixes ok :: "'r \<Rightarrow> bool"
    and add_node :: "drawing \<Rightarrow> PoseNode \<Rightarrow> 'r \<Rightarrow> (bool \<times> 'r) option"
    and rerender :: "drawing \<Rightarrow> PoseNode list \<Rightarrow> 'r \<Rightarrow> 'r option"
    and apply_mask :: "drawing \<Rightarrow> PoseNode list \<Rightarrow> real \<Rightarrow> string \<Rightarrow> 'r \<Rightarrow> 'r option"
    and occ :: "'r \<Rightarrow> OccupancyGridData"
    and pixel :: "'r \<Rightarrow> real \<Rightarrow> real \<Rightarrow> point option"
  assumes add_ok: "ok r \<Longrightarrow> add_node cv n r = Some (b, r') \<Longrightarrow> ok r'"
    and rerender_ok: "ok r \<Longrightarrow> rerender cv nodes r = Some r' \<Longrightarrow> ok r'"
    and mask_ok: "ok r \<Longrightarrow> apply_mask cv nodes radius ty r = Some r' \<Longrightarrow> ok r'"
    and occ_values: "ok r \<Longrightarrow> inside (occ_data (occ r)) row col \<Longrightarrow> px (occ_data (occ r)) row col \<in> {- 1, 0, 100}"
    and mask_clears: "ok r \<Longrightarrow> covers_centre cv \<Longrightarrow> apply_mask cv nodes radius ''clear'' r = Some r' \<Longrightarrow> n \<in> set nodes \<Longrightarrow>
      pixel r' (n_x n) (n_y n) = Some (x, y) \<Longrightarrow> inside (occ_data (occ r')) y x \<Longrightarrow> px (occ_data (occ r')) y x \<noteq> 100"
begin

lemma noise_filter_clears:
  assumes "ok r" and "covers_centre cv" and "tf_enabled config" and "tf_type config = ''clear''"
    and "noise_filter_apply (apply_mask cv) config nodes r = Some r'" and "n \<in> set nodes"
    and "pixel r' (n_x n) (n_y n) = Some (x, y)" and "inside (occ_data (occ r')) y x"
  shows "px (occ_data (occ r')) y x \<in> {- 1, 0}"
proof -
  have "nodes \<noteq> []" using assms(6) by auto
  with assms(3-5) have m: "apply_mask cv nodes (tf_radius_m config) ''clear'' r = Some r'"
    by (simp add: noise_filter_apply_def)
  then have "px (occ_data (occ r')) y x \<noteq> 100" using assms by (intro mask_clears [OF assms(1, 2)])
  moreover have "px (occ_data (occ r')) y x \<in> {- 1, 0, 100}" using mask_ok [OF assms(1) m] assms(8) by (rule occ_values)
  ultimately show ?thesis by auto
qed

end

lemma node_pixels_mem:
  assumes "node_pixels nodes ox oy res = Some pts" and "n \<in> set nodes"
  shows "\<exists>p \<in> set pts. world_to_pixel (n_x n) (n_y n) ox oy res = Some p"
proof -
  have "\<exists>p \<in> set pts. world_to_pixel (n_x n) (n_y n) ox oy res = Some p"
    if "fold_opt (\<lambda>n pts. do { p \<leftarrow> world_to_pixel (n_x n) (n_y n) ox oy res; Some (pts @ [p]) }) nodes pts0 = Some pts"
      and "n \<in> set nodes \<or> (\<exists>p \<in> set pts0. world_to_pixel (n_x n) (n_y n) ox oy res = Some p)" for pts0
    using that by (induction nodes arbitrary: pts0) (auto simp: bind_eq_Some_conv)
  with assms show ?thesis unfolding node_pixels_def by blast
qed

lemma foldl_disc:
  assumes "covers_centre cv" and "0 \<le> radius" and "inside m y x"
  shows "px m y x = 1 \<or> (x, y) \<in> set ps \<Longrightarrow> px (foldl (\<lambda>m p. cv_disc cv p radius 1 m) m ps) y x = 1"
  using assms(3)
proof (induction ps arbitrary: m)
  case (Cons p ps)
  have "px (cv_disc cv p radius 1 m) y x = 1 \<or> (x, y) \<in> set ps"
    using Cons.prems assms(1, 2)
    by (auto simp: cv_disc_def covers_centre_def inside_def in_bounds_def)
  moreover have "inside (cv_disc cv p radius 1 m) y x" using Cons.prems(2) by (simp add: cv_disc_def)
  ultimately show ?case using Cons.IH by simp
qed simp

lemma trajectory_mask_covers:
  assumes "build_trajectory_mask cv rs cs nodes radius ox oy res = Some lm" and "covers_centre cv"
    and "n \<in> set nodes" and "world_to_pixel (n_x n) (n_y n) ox oy res = Some (x, y)" and "in_bounds x y cs rs"
  shows "0 < px lm y x"
proof -
  from assms(1, 3) obtain rp pts where pts: "node_pixels nodes ox oy res = Some pts"
    and lm: "lm = foldl (\<lambda>m p. cv_disc cv p (max 1 rp) 1 m) (cv_polyline cv pts 1 (max 1 rp * 2) (mat_fill rs cs 0)) pts"
    by (auto simp: build_trajectory_mask_def Let_def bind_eq_Some_conv split: if_splits)
  have "(x, y) \<in> set pts" using node_pixels_mem [OF pts assms(3)] assms(4) by auto
  then have "px lm y x = 1"
    unfolding lm using assms(2, 5)
    by (intro foldl_disc) (auto simp: cv_polyline_def inside_def in_bounds_def mat_fill_def)
  then show ?thesis by simp
qed

subsection \<open>The counting renderer\<close>

definition cr_ok :: "counting_renderer \<Rightarrow> bool" where
  "cr_ok r \<longleftrightarrow> maps_sized r \<and> 1 \<le> cr_min_hits r"

definition cr_pixel :: "counting_renderer \<Rightarrow> real \<Rightarrow> real \<Rightarrow> point option" where
  "cr_pixel r x y = world_to_pixel x y (cr_ox r) (cr_oy r) (cr_resolution r)"

lemma cr_render_node_ok: "cr_ok r \<Longrightarrow> cr_render_node cv n r = Some (b, r') \<Longrightarrow> cr_ok r'"
proof -
  assume ok: "cr_ok r" and run: "cr_render_node cv n r = Some (b, r')"
  from ok have sz: "sized (cr_height r) (cr_width r) (hit_map r)" "sized (cr_height r) (cr_width r) (miss_map r)"
    by (auto simp: cr_ok_def maps_sized_def)
  obtain ok' hs ms where a: "node_adds cv r n = Some (ok', hs, ms)"
    using run unfolding cr_render_node_def render_node_impl_sized [OF sz] by (cases "node_adds cv r n") auto
  have h: "hit_map r' = plus_tally hs (hit_map r)" and m: "miss_map r' = plus_tally ms (miss_map r)"
    and f: "cr_height r' = cr_height r" "cr_width r' = cr_width r" "cr_min_hits r' = cr_min_hits r"
    using run unfolding cr_render_node_def render_node_impl_sized [OF sz] a
    by (cases ok'; fastforce simp: Let_def)+
  from node_adds_inside [OF a] sz have "maps_sized r'" by (simp add: maps_sized_def h m f sized_plus_tally)
  with ok f show "cr_ok r'" by (simp add: cr_ok_def)
qed

lemma cr_rerender_ok: "cr_ok r \<Longrightarrow> cr_rerender_all cv 1 [] nodes r = Some r' \<Longrightarrow> cr_ok r'"
proof -
  assume ok: "cr_ok r" and run: "cr_rerender_all cv 1 [] nodes r = Some r'"
  show "cr_ok r'"
  proof (cases "nodes = []")
    case False
    with run obtain b where b: "compute_bounds nodes (cr_resolution r) (cr_margin r) = Some b"
      and f: "fold_opt (\<lambda>n r. render_if_data cv n r) nodes (fresh r b) = Some r'"
      by (auto simp: cr_rerender_all_def Let_def fresh_def bind_eq_Some_conv)
    show ?thesis
    proof (rule fold_opt_invariant [OF f, where I = cr_ok])
      show "cr_ok (fresh r b)" using ok by (cases b) (simp add: cr_ok_def fresh_def maps_sized_def)
      show "cr_ok s'" if "cr_ok s" "render_if_data cv n s = Some s'" for n s s'
        using that cr_render_node_ok by (auto split: if_splits)
    qed
  qed (use ok run in \<open>simp add: cr_rerender_all_def\<close>)
qed

definition masked :: "string \<Rightarrow> counting_renderer \<Rightarrow> cvmat \<Rightarrow> counting_renderer" where
  "masked ty r lm =
     r\<lparr>hit_map := mat_map (\<lambda>row col v. if 0 < px lm row col then mask_hit ty v else v) (hit_map r),
       miss_map := mat_map (\<lambda>row col v. if 0 < px lm row col then mask_miss ty v else v) (miss_map r)\<rparr>"

lemma cr_apply_masked:
  "nodes \<noteq> [] \<Longrightarrow> cr_apply_trajectory_mask cv nodes radius ty r =
     map_option (masked ty r) (build_trajectory_mask cv (rows (hit_map r)) (cols (hit_map r)) nodes radius
       (cr_ox r) (cr_oy r) (cr_resolution r))"
  unfolding cr_apply_trajectory_mask_def masked_def
  by (cases "build_trajectory_mask cv (rows (hit_map r)) (cols (hit_map r)) nodes radius (cr_ox r) (cr_oy r) (cr_resolution r)")
     simp_all

interpretation counting: map_renderer cr_ok cr_add_node "\<lambda>cv. cr_rerender_all cv 1 []" cr_apply_trajectory_mask
  cr_to_occupancy_array cr_pixel
proof unfold_locales
  show "cr_ok r'" if "cr_ok r" "cr_add_node cv n r = Some (b, r')" for r cv n b r'
    using that cr_render_node_ok by (auto simp: cr_add_node_def bind_eq_Some_conv split: if_splits)
  show "cr_ok r'" if "cr_ok r" "cr_rerender_all cv 1 [] nodes r = Some r'" for r cv nodes r'
    using that by (rule cr_rerender_ok)
  show "cr_ok r'" if "cr_ok r" "cr_apply_trajectory_mask cv nodes radius ty r = Some r'" for r cv nodes radius ty r'
  proof (cases "nodes = []")
    case False
    from that(2) obtain lm where "masked ty r lm = r'" unfolding cr_apply_masked [OF False] map_option_eq_Some by blast
    with that(1) show ?thesis by (auto simp: masked_def cr_ok_def maps_sized_def sized_def)
  qed (use that in \<open>simp add: cr_apply_trajectory_mask_def\<close>)
  show "px (occ_data (cr_to_occupancy_array r)) row col \<in> {- 1, 0, 100}"
    if "cr_ok r" "inside (occ_data (cr_to_occupancy_array r)) row col" for r row col
    using that by (simp add: cr_to_occupancy_array_def cr_cell_def Let_def)
  show "px (occ_data (cr_to_occupancy_array r')) y x \<noteq> 100"
    if ok: "cr_ok r" and cv: "covers_centre cv" and run: "cr_apply_trajectory_mask cv nodes radius ''clear'' r = Some r'"
      and n: "n \<in> set nodes" "cr_pixel r' (n_x n) (n_y n) = Some (x, y)" "inside (occ_data (cr_to_occupancy_array r')) y x"
    for r cv nodes radius r' n x y
  proof -
    have ne: "nodes \<noteq> []" using n(1) by auto
    from run obtain lm where lm: "build_trajectory_mask cv (rows (hit_map r)) (cols (hit_map r)) nodes radius
        (cr_ox r) (cr_oy r) (cr_resolution r) = Some lm" and r': "masked ''clear'' r lm = r'"
      unfolding cr_apply_masked [OF ne] map_option_eq_Some by blast
    from n(3) have i: "inside (hit_map r) y x" by (simp add: r' [symmetric] masked_def cr_to_occupancy_array_def)
    have "0 < px lm y x"
      using n i by (intro trajectory_mask_covers [OF lm cv n(1)])
        (simp_all add: r' [symmetric] masked_def cr_pixel_def inside_def in_bounds_def)
    then have "px (hit_map r') y x = 0" using i by (simp add: r' [symmetric] masked_def mask_hit_def)
    moreover have "cr_cell r' 0 m \<noteq> 100" for m
      using ok by (simp add: r' [symmetric] masked_def cr_cell_def cr_ok_def Let_def)
    moreover have "inside (hit_map r') y x" using i by (simp add: r' [symmetric] masked_def)
    ultimately show ?thesis by (simp add: cr_to_occupancy_array_def)
  qed
qed

subsection \<open>The overwriting renderer\<close>

definition ow_pixel :: "overwrite_renderer \<Rightarrow> real \<Rightarrow> real \<Rightarrow> point option" where
  "ow_pixel r x y = world_to_pixel x y (ow_ox r) (ow_oy r) (ow_resolution r)"

definition ow_ok :: "overwrite_renderer \<Rightarrow> bool" where
  "ow_ok r \<longleftrightarrow> rows (ow_map r) = ow_height r \<and> cols (ow_map r) = ow_width r"

lemma fold_set_dims:
  assumes "fold_opt (\<lambda>p m. mat_set m (snd p) (fst p) v) ps m = Some m'"
  shows "rows m' = rows m \<and> cols m' = cols m"
  by (rule fold_opt_invariant [OF assms, where I = "\<lambda>m'. rows m' = rows m \<and> cols m' = cols m"]) (auto simp: mat_set_Some)

lemma ow_render_node_ok:
  assumes "ow_ok r" and "ow_render_node cv n r = Some (b, r')"
  shows "ow_ok r'"
proof -
  from assms(2) obtain sp where
    sp: "scan_hits_to_pixels n (ow_ox r) (ow_oy r) (ow_resolution r) (ow_width r) (ow_height r) = Some sp"
    by (auto simp: ow_render_node_def bind_eq_Some_conv)
  show ?thesis
  proof (cases "in_bounds (fst (robot_p sp)) (snd (robot_p sp)) (ow_width r) (ow_height r)")
    case False
    with assms sp show ?thesis by (simp add: ow_render_node_def)
  next
    case True
    let ?m = "foldl (\<lambda>m p. cv_line cv (robot_p sp) p 255 m) (ow_map r) (hit_ps sp)"
    obtain m where m: "fold_opt (\<lambda>p m. mat_set m (snd p) (fst p) 0) (hit_ps sp) ?m = Some m"
      and r': "r' = r\<lparr>ow_count := ow_count r + 1, ow_map := m\<rparr>"
      using assms(2) sp True
      by (cases "fold_opt (\<lambda>p m. mat_set m (snd p) (fst p) 0) (hit_ps sp) ?m") (simp_all add: ow_render_node_def)
    have "rows ?m = rows (ow_map r)" "cols ?m = cols (ow_map r)" by (simp_all add: cv_line_def)
    with fold_set_dims [OF m] assms(1) show ?thesis by (simp add: r' ow_ok_def)
  qed
qed

lemma ow_rerender_ok: "ow_ok r \<Longrightarrow> ow_rerender_all cv nodes r = Some r' \<Longrightarrow> ow_ok r'"
proof -
  assume ok: "ow_ok r" and run: "ow_rerender_all cv nodes r = Some r'"
  show "ow_ok r'"
  proof (cases "nodes = []")
    case False
    with run obtain ox oy w h where
      f: "fold_opt (\<lambda>node r. if n_scan node = None then Some r else map_option snd (ow_render_node cv node r)) nodes
          (r\<lparr>ow_ox := ox, ow_oy := oy, ow_width := w, ow_height := h, ow_map := mat_fill h w 128, ow_count := 0\<rparr>) = Some r'"
      by (auto simp: ow_rerender_all_def bind_eq_Some_conv)
    show ?thesis
    proof (rule fold_opt_invariant [OF f, where I = ow_ok])
      show "ow_ok s'" if "ow_ok s" "(if n_scan n = None then Some s else map_option snd (ow_render_node cv n s)) = Some s'" for n s s'
        using that ow_render_node_ok by (auto split: if_splits)
    qed (simp add: ow_ok_def mat_fill_def)
  qed (use ok run in \<open>simp add: ow_rerender_all_def\<close>)
qed

interpretation overwrite: map_renderer ow_ok ow_add_node ow_rerender_all ow_apply_trajectory_mask ow_to_occupancy_array ow_pixel
proof unfold_locales
  show "ow_ok r'" if "ow_ok r" "ow_add_node cv n r = Some (b, r')" for r cv n b r'
    using that ow_render_node_ok by (auto simp: ow_add_node_def bind_eq_Some_conv split: if_splits)
  show "ow_ok r'" if "ow_ok r" "ow_rerender_all cv nodes r = Some r'" for r cv nodes r'
    using that by (rule ow_rerender_ok)
  show "ow_ok r'" if "ow_ok r" "ow_apply_trajectory_mask cv nodes radius ty r = Some r'" for r cv nodes radius ty r'
    using that by (auto simp: ow_apply_trajectory_mask_def ow_ok_def bind_eq_Some_conv split: if_splits)
  show "px (occ_data (ow_to_occupancy_array r)) row col \<in> {- 1, 0, 100}"
    if "ow_ok r" "inside (occ_data (ow_to_occupancy_array r)) row col" for r row col
    using that by (simp add: ow_to_occupancy_array_def ow_cell_def)
  show "px (occ_data (ow_to_occupancy_array r')) y x \<noteq> 100"
    if ok: "ow_ok r" and cv: "covers_centre cv" and run: "ow_apply_trajectory_mask cv nodes radius ''clear'' r = Some r'"
      and n: "n \<in> set nodes" "ow_pixel r' (n_x n) (n_y n) = Some (x, y)" "inside (occ_data (ow_to_occupancy_array r')) y x"
    for r cv nodes radius r' n x y
  proof -
    have ne: "nodes \<noteq> []" using n(1) by auto
    then obtain lm where lm: "build_trajectory_mask cv (rows (ow_map r)) (cols (ow_map r)) nodes radius
          (ow_ox r) (ow_oy r) (ow_resolution r) = Some lm"
      and r': "r' = r\<lparr>ow_map := mat_map (\<lambda>row col old. if 0 < px lm row col then 255 else old) (ow_map r)\<rparr>"
      using run by (cases "build_trajectory_mask cv (rows (ow_map r)) (cols (ow_map r)) nodes radius
          (ow_ox r) (ow_oy r) (ow_resolution r)") (simp_all add: ow_apply_trajectory_mask_def)
    from n(3) have i: "inside (ow_map r) y x" by (simp add: r' ow_to_occupancy_array_def)
    have "0 < px lm y x"
      using n i by (intro trajectory_mask_covers [OF lm cv n(1)])
        (simp_all add: r' ow_pixel_def inside_def in_bounds_def)
    then show ?thesis using i by (simp add: r' ow_to_occupancy_array_def ow_cell_def)
  qed
qed

section \<open>Absence of undefined behaviour\<close>

text \<open>
  Bounds under which every conversion to \<^verbatim>\<open>int\<close> fits: positions within \<open>p\<close>, ranges and sensor offsets within
  \<open>b\<close>, no NaN among the ranges.
\<close>

definition tame_scan :: "real \<Rightarrow> ScanData \<Rightarrow> bool" where
  "tame_scan b s \<longleftrightarrow> NaN \<notin> set (ranges s) \<and> - b \<le> range_min s \<and> range_max s \<le> b \<and>
     \<bar>lidar_x s\<bar> \<le> b \<and> \<bar>lidar_y s\<bar> \<le> b"

definition tame_node :: "real \<Rightarrow> real \<Rightarrow> PoseNode \<Rightarrow> bool" where
  "tame_node p b n \<longleftrightarrow> n_patch n = None \<and> \<bar>n_x n\<bar> \<le> p \<and> \<bar>n_y n\<bar> \<le> p \<and>
     (case n_scan n of None \<Rightarrow> True | Some s \<Rightarrow> tame_scan b s)"

lemma to_int32_defined: "\<bar>d\<bar> \<le> 2 ^ 31 - 1 \<Longrightarrow> \<exists>k. to_int32 d = Some k"
  using trunc_int_abs_le [of d "2 ^ 31 - 1"] by (simp add: to_int32_def abs_le_iff)

lemma quotient_defined:
  assumes "0 < res" and "\<bar>d\<bar> \<le> l" and "l \<le> res * (2 ^ 31 - 1)"
  shows "\<exists>k. to_int32 (d / res) = Some k"
proof -
  have "\<bar>d / res\<bar> \<le> 2 ^ 31 - 1" using assms by (simp add: abs_divide pos_divide_le_eq mult.commute)
  then show ?thesis by (rule to_int32_defined)
qed

lemma world_to_pixel_defined:
  assumes "0 < res" and "\<bar>wx - ox\<bar> \<le> l" and "\<bar>wy - oy\<bar> \<le> l" and "l \<le> res * (2 ^ 31 - 1)"
  shows "\<exists>p. world_to_pixel wx wy ox oy res = Some p"
  using quotient_defined [OF assms(1, 2, 4)] quotient_defined [OF assms(1, 3, 4)] assms(1)
  by (auto simp: world_to_pixel_def)

lemma foldl_f_min_in: "\<exists>v \<in> insert a (f ` set ns). foldl (\<lambda>m n. f_min m (Fin (f n))) (Fin a) ns = Fin v"
proof (induction ns arbitrary: a)
  case (Cons n ns)
  from Cons [of "min a (f n)"] show ?case by (auto simp: min_def split: if_splits)
qed simp

lemma foldl_f_max_in: "\<exists>v \<in> insert a (f ` set ns). foldl (\<lambda>m n. f_max m (Fin (f n))) (Fin a) ns = Fin v"
proof (induction ns arbitrary: a)
  case (Cons n ns)
  from Cons [of "max a (f n)"] show ?case by (auto simp: max_def split: if_splits)
qed simp

lemma extremes_bounded:
  assumes "nodes \<noteq> []" and "\<forall>n \<in> set nodes. \<bar>f n\<bar> \<le> p"
  shows "\<bar>fin_val (foldl (\<lambda>m n. f_min m (Fin (f n))) PInf nodes)\<bar> \<le> p"
    and "\<bar>fin_val (foldl (\<lambda>m n. f_max m (Fin (f n))) NInf nodes)\<bar> \<le> p"
proof -
  obtain n ns where n: "nodes = n # ns" using assms(1) by (cases nodes) auto
  show "\<bar>fin_val (foldl (\<lambda>m n. f_min m (Fin (f n))) PInf nodes)\<bar> \<le> p"
    using foldl_f_min_in [of "f n" f ns] assms(2) by (auto simp: n f_min_def)
  show "\<bar>fin_val (foldl (\<lambda>m n. f_max m (Fin (f n))) NInf nodes)\<bar> \<le> p"
    using foldl_f_max_in [of "f n" f ns] assms(2) by (auto simp: n f_max_def)
qed

lemma extent_defined:
  assumes "0 < res" and "\<bar>lo\<bar> \<le> p" "\<bar>hi\<bar> \<le> p" "lo \<le> hi" "0 \<le> m" and "2 * p + 2 * m \<le> res * (2 ^ 31 - 1)"
  shows "\<exists>k. to_int32 (of_int \<lceil>(hi + m - (lo - m)) / res\<rceil>) = Some k"
proof -
  let ?d = "(hi + m - (lo - m)) / res"
  have "0 \<le> ?d" using assms by simp
  moreover have "?d \<le> of_int (2 ^ 31 - 1)" using assms by (simp add: pos_divide_le_eq mult.commute)
  then have "\<lceil>?d\<rceil> \<le> 2 ^ 31 - 1" by (simp only: ceiling_le_iff)
  moreover have "- 1 < \<lceil>?d\<rceil>" using \<open>0 \<le> ?d\<close> by (simp add: less_ceiling_iff)
  ultimately show ?thesis unfolding to_int32_def trunc_int_of_int by auto
qed

lemma compute_bounds_defined:
  assumes "nodes \<noteq> []" and "\<forall>n \<in> set nodes. \<bar>n_x n\<bar> \<le> p \<and> \<bar>n_y n\<bar> \<le> p" and "0 < res" "0 \<le> margin"
    and "2 * p + 2 * margin \<le> res * (2 ^ 31 - 1)"
  shows "\<exists>ox oy w h. compute_bounds nodes res margin = Some (ox, oy, w, h) \<and> \<bar>ox\<bar> \<le> p + margin \<and> \<bar>oy\<bar> \<le> p + margin"
proof -
  obtain n where n: "n \<in> set nodes" using assms(1) by (cases nodes) auto
  note ext = extremes [OF n, of n_x] extremes [OF n, of n_y]
  have "\<forall>n \<in> set nodes. \<bar>n_x n\<bar> \<le> p" "\<forall>n \<in> set nodes. \<bar>n_y n\<bar> \<le> p" using assms(2) by auto
  note ex = extremes_bounded [OF assms(1) this(1)] and ey = extremes_bounded [OF assms(1) this(2)]
  have lex: "fin_val (foldl (\<lambda>m n. f_min m (Fin (n_x n))) PInf nodes) \<le> fin_val (foldl (\<lambda>m n. f_max m (Fin (n_x n))) NInf nodes)"
    using ext(1, 2) by linarith
  have ley: "fin_val (foldl (\<lambda>m n. f_min m (Fin (n_y n))) PInf nodes) \<le> fin_val (foldl (\<lambda>m n. f_max m (Fin (n_y n))) NInf nodes)"
    using ext(3, 4) by linarith
  from extent_defined [OF assms(3) ex lex assms(4, 5)] extent_defined [OF assms(3) ey ley assms(4, 5)] assms(1, 3)
  show ?thesis using ex(1) ey(1) assms(4) by (auto simp: compute_bounds_def Let_def)
qed

lemma rot_bound:
  fixes a b t :: real
  shows "\<bar>cos t * a - sin t * b\<bar> \<le> \<bar>a\<bar> + \<bar>b\<bar>" "\<bar>sin t * a + cos t * b\<bar> \<le> \<bar>a\<bar> + \<bar>b\<bar>"
proof -
  have m: "\<bar>cos t * z\<bar> \<le> \<bar>z\<bar>" "\<bar>sin t * z\<bar> \<le> \<bar>z\<bar>" for z
    using mult_right_mono [OF abs_cos_le_one [of t], of "\<bar>z\<bar>"] mult_right_mono [OF abs_sin_le_one [of t], of "\<bar>z\<bar>"]
    by (simp_all add: abs_mult)
  show "\<bar>cos t * a - sin t * b\<bar> \<le> \<bar>a\<bar> + \<bar>b\<bar>" "\<bar>sin t * a + cos t * b\<bar> \<le> \<bar>a\<bar> + \<bar>b\<bar>"
    using m [of a] m [of b] by linarith+
qed

lemma polar_bound:
  fixes r t :: real
  shows "\<bar>r * cos t\<bar> \<le> \<bar>r\<bar>" "\<bar>r * sin t\<bar> \<le> \<bar>r\<bar>"
  using rot_bound(1) [of t r 0] rot_bound(2) [of t r 0] by (simp_all add: mult.commute)

lemma beam_pixel_defined:
  assumes "tame_scan b s" and "i < length (ranges s)" and "\<not> out_of_range s i" and "0 < res"
    and "\<bar>n_x n - ox\<bar> + 4 * b \<le> l" "\<bar>n_y n - oy\<bar> + 4 * b \<le> l" "l \<le> res * (2 ^ 31 - 1)"
  shows "\<exists>p. beam_pixel n ox oy res s i = Some p"
proof -
  have "ranges s ! i \<noteq> NaN" using assms(1, 2) nth_mem by (force simp: tame_scan_def)
  with assms(3) obtain r where r: "ranges s ! i = Fin r" "range_min s < r" "r < range_max s"
    by (cases "ranges s ! i") (auto simp: out_of_range_def f_le_def not_less)
  then have rb: "\<bar>r\<bar> \<le> b" using assms(1) by (auto simp: tame_scan_def abs_le_iff)
  obtain lx ly where l: "beam_point s i = (lx, ly)" by fastforce
  then have "lx = r * cos (beam_angle s i) + lidar_x s" "ly = r * sin (beam_angle s i) + lidar_y s"
    by (simp_all add: beam_point_def r Let_def)
  then have "\<bar>lx\<bar> \<le> 2 * b" "\<bar>ly\<bar> \<le> 2 * b"
    using polar_bound [of r "beam_angle s i"] rb assms(1) unfolding tame_scan_def by linarith+
  then have "\<bar>fst (node_to_world n lx ly) - ox\<bar> \<le> l" "\<bar>snd (node_to_world n lx ly) - oy\<bar> \<le> l"
    using rot_bound [of "n_yaw n" lx ly] assms(5, 6) unfolding node_to_world_def fst_conv snd_conv by linarith+
  from world_to_pixel_defined [OF assms(4) this assms(7)] show ?thesis
    by (auto simp: beam_pixel_def r l split: prod.splits)
qed

lemma scan_hits_defined:
  assumes "tame_node p b n" and "0 < res" and "0 \<le> b"
    and "\<bar>n_x n - ox\<bar> + 4 * b \<le> l" "\<bar>n_y n - oy\<bar> + 4 * b \<le> l" "l \<le> res * (2 ^ 31 - 1)"
  shows "\<exists>sp. scan_hits_to_pixels n ox oy res w h = Some sp"
proof -
  let ?lx = "case n_scan n of Some s \<Rightarrow> lidar_x s | None \<Rightarrow> 0" and ?ly = "case n_scan n of Some s \<Rightarrow> lidar_y s | None \<Rightarrow> 0"
  have "\<bar>?lx\<bar> \<le> b" "\<bar>?ly\<bar> \<le> b" using assms(1, 3) by (auto simp: tame_node_def tame_scan_def split: option.splits)
  then have "\<bar>fst (node_to_world n ?lx ?ly) - ox\<bar> \<le> l" "\<bar>snd (node_to_world n ?lx ?ly) - oy\<bar> \<le> l"
    using rot_bound [of "n_yaw n" ?lx ?ly] assms(3-5) unfolding node_to_world_def fst_conv snd_conv by linarith+
  from world_to_pixel_defined [OF assms(2) this assms(6)] obtain rp where
    rp: "world_to_pixel (fst (node_to_world n ?lx ?ly)) (snd (node_to_world n ?lx ?ly)) ox oy res = Some rp" by blast
  show ?thesis
  proof (cases "n_scan n")
    case None
    with rp show ?thesis by (auto simp: scan_hits_to_pixels_def Let_def split: prod.splits)
  next
    case (Some s)
    have step: "\<exists>sp'. hit_beam n ox oy res w h s i sp = Some sp' \<and> True" if "i \<in> set [0..<length (ranges s)]" for i sp
      using beam_pixel_defined [of b s i res n ox l oy] assms that Some
      by (auto simp: hit_beam_def tame_node_def)
    have "\<exists>sp'. fold_opt (hit_beam n ox oy res w h s) [0..<length (ranges s)] sp = Some sp' \<and> True" for sp
      by (rule fold_opt_defined) (use step in auto)
    with rp Some show ?thesis
      by (auto simp: scan_hits_to_pixels_def Let_def split: prod.splits)
  qed
qed

lemma cround_abs_le: "\<bar>d\<bar> \<le> of_int k \<Longrightarrow> \<bar>cround d\<bar> \<le> of_int k"
proof -
  assume d: "\<bar>d\<bar> \<le> of_int k"
  have pos: "real_of_int \<lfloor>x + 1 / 2\<rfloor> \<le> of_int k \<and> 0 \<le> real_of_int \<lfloor>x + 1 / 2\<rfloor>" if "0 \<le> x" "x \<le> of_int k" for x
  proof -
    have "x + 1 / 2 < of_int (k + 1)" using that by simp
    then have "\<lfloor>x + 1 / 2\<rfloor> < k + 1" by (simp only: floor_less_iff)
    moreover have "0 \<le> \<lfloor>x + 1 / 2\<rfloor>" using that by simp
    ultimately show ?thesis by linarith
  qed
  show ?thesis using d pos [of d] pos [of "- d"] by (auto simp: cround_def)
qed

lemma miss_end_defined:
  assumes "\<bar>fst e - fst s\<bar> < 2 ^ 31" "\<bar>snd e - snd s\<bar> < 2 ^ 31"
  shows "\<exists>q. miss_end margin s e = Some q"
proof -
  let ?dx = "real_of_int (fst e - fst s)" and ?dy = "real_of_int (snd e - snd s)"
  have def: "\<exists>k. to_int32 (cround (of_int z * scale)) = Some k" if "\<bar>z\<bar> < 2 ^ 31" "0 \<le> scale" "scale \<le> 1" for z :: int and scale :: real
  proof -
    have "\<bar>of_int z * scale\<bar> \<le> \<bar>real_of_int z\<bar>" using that by (simp add: abs_mult mult_left_le)
    also have "\<dots> \<le> of_int (2 ^ 31 - 1)" using that(1) by linarith
    finally have "\<bar>cround (of_int z * scale)\<bar> \<le> of_int (2 ^ 31 - 1)" by (rule cround_abs_le)
    then show ?thesis by (intro to_int32_defined) simp
  qed
  show ?thesis
  proof (cases "margin < hypot ?dx ?dy \<and> 0 < margin")
    case True
    then have "0 \<le> (hypot ?dx ?dy - margin) / hypot ?dx ?dy" "(hypot ?dx ?dy - margin) / hypot ?dx ?dy \<le> 1"
      by (simp_all add: divide_le_eq_1)
    from def [OF assms(1) this] def [OF assms(2) this] True show ?thesis by (auto simp: miss_end_def Let_def)
  next
    case False
    then show ?thesis by (auto simp: miss_end_def Let_def)
  qed
qed

lemma local_mask_defined:
  assumes "box robot hits = ((min_px, max_px), (min_py, max_py))"
    and "\<forall>(x, y) \<in> set (robot # hits). in_bounds x y w h" "w \<le> 2 ^ 31" "h \<le> 2 ^ 31"
    and "0 < cr_resolution r" and "\<bar>cr_miss_clearance r\<bar> \<le> cr_resolution r * 2 ^ 30"
  shows "\<exists>lm. local_mask cv r robot hits min_px min_py (max_py - min_py + 1) (max_px - min_px + 1) = Some lm"
proof -
  let ?rel = "\<lambda>(x, y). (x - min_px, y - min_py)" and ?margin = "cr_miss_clearance r / cr_resolution r"
  have "\<bar>?margin\<bar> \<le> of_int (2 ^ 30)" using assms(5, 6) by (simp add: abs_divide pos_divide_le_eq mult.commute)
  then have "\<bar>cround ?margin\<bar> \<le> 2 ^ 31 - 1" using cround_abs_le by fastforce
  then obtain radius where radius: "to_int32 (cround ?margin) = Some radius" using to_int32_defined by blast
  have b: "0 \<le> x \<and> x < 2 ^ 31 \<and> 0 \<le> y \<and> y < 2 ^ 31" if "(x, y) \<in> set (robot # hits)" for x y
    using that assms(2-4) by (fastforce simp: in_bounds_def)
  have step: "\<exists>cs'. Option.bind (miss_end ?margin (?rel robot) (?rel p)) (\<lambda>e. Some (cs @ [[?rel robot, e]])) = Some cs' \<and> True"
    if "p \<in> set hits" for p cs
  proof -
    have "\<bar>fst (?rel p) - fst (?rel robot)\<bar> < 2 ^ 31" "\<bar>snd (?rel p) - snd (?rel robot)\<bar> < 2 ^ 31"
      using b [of "fst p" "snd p"] b [of "fst robot" "snd robot"] that by (auto simp: case_prod_beta)
    from miss_end_defined [OF this, of ?margin] show ?thesis by (auto simp del: split_paired_Ex)
  qed
  have "\<exists>cs. fold_opt (\<lambda>p cs. Option.bind (miss_end ?margin (?rel robot) (?rel p)) (\<lambda>e. Some (cs @ [[?rel robot, e]]))) hits [] = Some cs \<and> True"
    by (rule fold_opt_defined) (use step in auto)
  then obtain curves where
    curves: "fold_opt (\<lambda>p cs. Option.bind (miss_end ?margin (?rel robot) (?rel p)) (\<lambda>e. Some (cs @ [[?rel robot, e]]))) hits [] = Some curves"
    by auto
  let ?dims = "\<lambda>m. rows m = max_py - min_py + 1 \<and> cols m = max_px - min_px + 1"
  have clear: "\<exists>m'. clear_step cv ?rel radius p m = Some m' \<and> ?dims m'" if "p \<in> set hits" "?dims m" for p m
  proof -
    obtain x y where p: "p = (x, y)" by (cases p)
    have "x \<in> insert (fst robot) (set (map fst hits))" "y \<in> insert (snd robot) (set (map snd hits))"
      using that(1) unfolding p by force+
    then have "min_px \<le> x \<and> x \<le> max_px" "min_py \<le> y \<and> y \<le> max_py"
      using assms(1) foldl_min_max_bounds [of x "fst robot" "map fst hits"]
        foldl_min_max_bounds [of y "snd robot" "map snd hits"] by (simp_all add: box_def)
    then show ?thesis using that(2) by (simp add: clear_step_def p mat_set_def inside_def cv_disc_def)
  qed
  let ?m = "foldl (\<lambda>m c. cv_polyline cv c 1 1 m) (mat_fill (max_py - min_py + 1) (max_px - min_px + 1) 0) curves"
  have "\<exists>m'. fold_opt (clear_step cv ?rel radius) hits ?m = Some m' \<and> ?dims m'"
    by (rule fold_opt_defined) (use clear in \<open>simp_all add: cv_polyline_def mat_fill_def\<close>)
  then show ?thesis using radius curves assms(5)
    by (auto simp: local_mask_def Let_def)
qed

lemma node_adds_defined:
  assumes "tame_node p b n" and "0 < cr_resolution r" "0 \<le> b" "\<bar>cr_miss_clearance r\<bar> \<le> cr_resolution r * 2 ^ 30"
    and "\<bar>n_x n - cr_ox r\<bar> + 4 * b \<le> l" "\<bar>n_y n - cr_oy r\<bar> + 4 * b \<le> l" "l \<le> cr_resolution r * (2 ^ 31 - 1)"
    and "cr_width r \<le> 2 ^ 31" "cr_height r \<le> 2 ^ 31"
  shows "node_defined cv r n"
proof -
  obtain sp where sp: "scan_hits_to_pixels n (cr_ox r) (cr_oy r) (cr_resolution r) (cr_width r) (cr_height r) = Some sp"
    using scan_hits_defined [OF assms(1-3, 5-7)] by blast
  have np: "n_patch n = None" using assms(1) by (simp add: tame_node_def)
  show ?thesis
  proof (cases "in_bounds (fst (robot_p sp)) (snd (robot_p sp)) (cr_width r) (cr_height r)")
    case False
    then show ?thesis by (auto simp: node_defined_def node_adds_def np sp)
  next
    case True
    then have inb: "\<forall>(x, y) \<in> set (robot_p sp # hit_ps sp). in_bounds x y (cr_width r) (cr_height r)"
      using scan_hits_in_bounds [OF sp] by (simp add: case_prod_beta)
    obtain min_px max_px min_py max_py where b: "box (robot_p sp) (hit_ps sp) = ((min_px, max_px), (min_py, max_py))"
      by (metis surj_pair)
    from local_mask_defined [OF b inb assms(8, 9, 2, 4), of cv] obtain lm where
      "local_mask cv r (robot_p sp) (hit_ps sp) min_px min_py (max_py - min_py + 1) (max_px - min_px + 1) = Some lm"
      by blast
    then show ?thesis by (auto simp: node_defined_def node_adds_def np sp scan_adds_def b Let_def)
  qed
qed

lemma rerender_is_defined:
  assumes "valid_schedule (min 4 max_threads) (length nodes) schedule"
    and "list_all (tame_node p b) nodes" and "0 \<le> b" "0 < cr_resolution r" "0 \<le> cr_margin r"
    and "2 * p + 2 * cr_margin r + 4 * b \<le> cr_resolution r * (2 ^ 31 - 1)"
    and "\<bar>cr_miss_clearance r\<bar> \<le> cr_resolution r * 2 ^ 30"
  shows "\<exists>r'. cr_rerender_all cv max_threads schedule nodes r = Some r'"
proof (cases "nodes = []")
  case True
  then show ?thesis by (simp add: cr_rerender_all_def)
next
  case False
  have tame: "tame_node p b n" if "n \<in> set nodes" for n using assms(2) that by (simp add: list_all_iff)
  then have pos: "\<forall>n \<in> set nodes. \<bar>n_x n\<bar> \<le> p \<and> \<bar>n_y n\<bar> \<le> p" by (auto simp: tame_node_def)
  from compute_bounds_defined [OF False pos assms(4, 5)] assms(3, 6) obtain ox oy w h where
    bd: "compute_bounds nodes (cr_resolution r) (cr_margin r) = Some (ox, oy, w, h)"
    and o: "\<bar>ox\<bar> \<le> p + cr_margin r" "\<bar>oy\<bar> \<le> p + cr_margin r" by auto
  let ?r = "fresh r (ox, oy, w, h)"
  have "node_defined cv ?r n" if n: "n \<in> set nodes" for n
  proof (rule node_adds_defined [where l = "2 * p + 2 * cr_margin r + 4 * b", OF tame [OF n]])
    show "\<bar>n_x n - cr_ox ?r\<bar> + 4 * b \<le> 2 * p + 2 * cr_margin r + 4 * b"
      "\<bar>n_y n - cr_oy ?r\<bar> + 4 * b \<le> 2 * p + 2 * cr_margin r + 4 * b"
      using pos [rule_format, OF n] o assms(5) by (auto simp: fresh_def abs_le_iff)
  qed (use assms compute_boundsD(6, 7) [OF bd n] in \<open>simp_all add: fresh_def\<close>)
  then show ?thesis
    using cr_rerender_seq [OF bd False, of cv] by (simp add: rerender_sequential [OF assms(1)] list_all_iff)
qed


text \<open>Five nodes along a line, each with a scan of two beams.\<close>

definition tidy_scan :: ScanData where
  "tidy_scan = sample_scan\<lparr>ranges := [Fin 1, Fin 2]\<rparr>"

definition sample_nodes :: "PoseNode list" where
  "sample_nodes = map (\<lambda>i. sample_node\<lparr>n_x := real i, n_scan := Some tidy_scan\<rparr>) [0..<5]"

definition sample_schedule :: "(nat \<times> nat) list" where
  "sample_schedule = [(1, 4), (0, 0), (1, 1), (0, 3), (1, 2)]"

lemma sample_schedule_valid: "valid_schedule (min 4 2) (length sample_nodes) sample_schedule"
  by (simp add: valid_schedule_def sample_schedule_def sample_nodes_def numeral_eq_Suc)

lemma sample_tame: "list_all (tame_node 5 30) sample_nodes"
  by (simp add: sample_nodes_def tame_node_def tame_scan_def tidy_scan_def sample_scan_def sample_node_def upt_rec)

lemma sample_rendered: "\<exists>r'. cr_rerender_all sample_drawing 2 sample_schedule sample_nodes sample_renderer = Some r'"
  by (rule rerender_is_defined [OF sample_schedule_valid sample_tame]) (simp_all add: sample_renderer_def CountingRenderer_def)


lemma sample_covers: "covers_centre sample_drawing"
  by (simp add: covers_centre_def sample_drawing_def)

text \<open>
  The map covers the trajectory: with a positive margin, after \<^verbatim>\<open>rerender_all\<close> the position of every rendered
  node is a pixel of the map, so that \<^verbatim>\<open>add_node\<close> does not turn the node away.
\<close>

theorem rerender_covers_nodes:
  assumes "valid_schedule (min 4 max_threads) (length nodes) schedule"
    and "cr_rerender_all cv max_threads schedule nodes r = Some r'" and "n \<in> set nodes"
    and "0 < cr_resolution r" and "0 < cr_margin r"
  shows "\<exists>x y. world_to_pixel (n_x n) (n_y n) (cr_ox r') (cr_oy r') (cr_resolution r') = Some (x, y) \<and>
    in_bounds x y (cr_width r') (cr_height r') \<and> cr_initialized r'"
proof -
  have ne: "nodes \<noteq> []" using assms(3) by auto
  from assms(2) ne obtain b where b: "compute_bounds nodes (cr_resolution r) (cr_margin r) = Some b"
    by (auto simp: cr_rerender_all_def bind_eq_Some_conv)
  obtain ox oy w h where bb: "b = (ox, oy, w, h)" by (cases b)
  have "r' = counted cv nodes (fresh r b)"
    using assms(2) cr_rerender_seq [OF b ne, of cv]
    by (simp add: rerender_sequential [OF assms(1)] split: if_splits)
  with node_in_extent [OF b [unfolded bb] assms(3-5)] show ?thesis
    by (simp add: counted_def fresh_def bb)
qed

theorem rerender_covers_nodes_witness:
  "\<exists>r'. cr_rerender_all sample_drawing 2 sample_schedule sample_nodes sample_renderer = Some r' \<and>
     (\<exists>x y. world_to_pixel 0 2 (cr_ox r') (cr_oy r') (cr_resolution r') = Some (x, y) \<and>
       in_bounds x y (cr_width r') (cr_height r') \<and> cr_initialized r')"
proof -
  obtain r' where r': "cr_rerender_all sample_drawing 2 sample_schedule sample_nodes sample_renderer = Some r'"
    using sample_rendered by blast
  let ?n = "sample_node\<lparr>n_x := 0, n_scan := Some tidy_scan\<rparr>"
  have "?n \<in> set sample_nodes" by (simp add: sample_nodes_def upt_rec)
  from rerender_covers_nodes [OF sample_schedule_valid r' this] r' show ?thesis
    by (simp add: sample_renderer_def CountingRenderer_def sample_node_def)
qed

text \<open>
  The counters mean what they are named after: after \<^verbatim>\<open>rerender_all\<close> over nodes with scans, the hits of a cell
  are the number of beams of all the scans that end in it, and its misses are at most the number of scans that
  have no beam ending in it: a scan never counts a cell both as hit and as passed through, and at most once as
  passed through.
\<close>

theorem rerender_counts:
  assumes "valid_schedule (min 4 max_threads) (length nodes) schedule"
    and "cr_rerender_all cv max_threads schedule nodes r = Some r'" and "nodes \<noteq> []"
    and "list_all (\<lambda>n. n_patch n = None) nodes" and "covers_centre cv"
  shows "px (hit_map r') y x = sum_list (map (\<lambda>n. int (count_list (node_hit_pixels r' n) (x, y))) nodes) \<and>
    0 \<le> px (miss_map r') y x \<and>
    px (miss_map r') y x \<le> int (length (filter (\<lambda>n. (x, y) \<notin> set (node_hit_pixels r' n)) nodes))"
proof -
  from rerender_counted [OF assms(1-3)] obtain b where
    def: "list_all (node_defined cv (fresh r b)) nodes" and r': "r' = counted cv nodes (fresh r b)" by blast
  let ?r = "fresh r b"
  have c: "node_hits cv ?r y x n = int (count_list (node_hit_pixels ?r n) (x, y))"
    "0 \<le> node_misses cv ?r y x n" "node_misses cv ?r y x n \<le> (if (x, y) \<in> set (node_hit_pixels ?r n) then 0 else 1)"
    if "n \<in> set nodes" for n
    using contribution_counts [of cv ?r n y x] that def assms(4, 5) by (auto simp: list_all_iff)
  have zero: "px (hit_map ?r) y x = 0" "px (miss_map ?r) y x = 0" by (auto simp: fresh_def mat_fill_def split: prod.splits)
  have "total (node_hits cv ?r y x) nodes = total (\<lambda>n. int (count_list (node_hit_pixels ?r n) (x, y))) nodes"
    by (rule total_cong) (rule c)
  moreover have "0 \<le> total (node_misses cv ?r y x) nodes"
    using total_mono [of nodes "\<lambda>_. 0" "node_misses cv ?r y x"] c(2) by (simp add: total_def)
  moreover have "total (node_misses cv ?r y x) nodes \<le> int (length (filter (\<lambda>n. (x, y) \<notin> set (node_hit_pixels ?r n)) nodes))"
    unfolding total_indicator [symmetric] by (rule total_mono) (rule c)
  ultimately show ?thesis
    unfolding r' node_hit_pixels_counted by (simp add: counted_def zero total_def)
qed

theorem rerender_counts_witness:
  "\<exists>r'. cr_rerender_all sample_drawing 2 sample_schedule sample_nodes sample_renderer = Some r' \<and>
     px (hit_map r') 2 4 = sum_list (map (\<lambda>n. int (count_list (node_hit_pixels r' n) (4, 2))) sample_nodes) \<and>
     0 \<le> px (miss_map r') 2 4 \<and>
     px (miss_map r') 2 4 \<le> int (length (filter (\<lambda>n. (4, 2) \<notin> set (node_hit_pixels r' n)) sample_nodes))"
proof -
  obtain r' where r': "cr_rerender_all sample_drawing 2 sample_schedule sample_nodes sample_renderer = Some r'"
    using sample_rendered by blast
  have "sample_nodes \<noteq> []" "list_all (\<lambda>n. n_patch n = None) sample_nodes"
    by (simp_all add: sample_nodes_def sample_node_def upt_rec)
  from rerender_counts [OF sample_schedule_valid r' this sample_covers, of 2 4] r' show ?thesis by blast
qed


definition sample_counts :: counting_renderer where
  "sample_counts = sample_renderer\<lparr>cr_width := 5, cr_height := 5, hit_map := mat_fill 5 5 0\<lparr>px := \<lambda>r c. if (r, c) = (2, 1) then 7 else 0\<rparr>,
     miss_map := mat_fill 5 5 0\<rparr>"

definition sample_filter :: TrajectoryNoiseFilterConfig where
  "sample_filter = \<lparr>tf_enabled = True, tf_type = ''clear'', tf_radius_m = 1\<rparr>"

lemma sample_filtered:
  "\<exists>r'. noise_filter_apply (cr_apply_trajectory_mask sample_drawing) sample_filter [sample_node] sample_counts = Some r' \<and>
     cr_pixel r' 1 2 = Some (1, 2) \<and> inside (occ_data (cr_to_occupancy_array r')) 2 1"
  by (simp add: noise_filter_apply_def sample_filter_def cr_apply_masked build_trajectory_mask_def node_pixels_def
      world_to_pixel_def to_int32_def trunc_int_def sample_counts_def sample_renderer_def CountingRenderer_def sample_node_def
      masked_def cr_pixel_def cr_to_occupancy_array_def inside_def mat_fill_def)


end
