(* ===== verification/SlamNode.thy ===== *)
theory SlamNode
  imports MapSave MapRenderers
begin

text \<open>
  The SLAM node around the orchestrator: \<^verbatim>\<open>core/slam_node_base.cpp\<close> with its subclass \<^verbatim>\<open>nodes/slam_offline_node.cpp\<close>, and what it
  publishes through \<^verbatim>\<open>ros/slam_visualizer.cpp\<close> and \<^verbatim>\<open>ros/tf_broadcaster.cpp\<close>.  Each callback is a function of the state that
  returns what is published.  The renderer is given by its operations; timing and logging are left out.
\<close>

section \<open>tf_broadcaster.cpp\<close>

definition tf_update :: "PoseNode \<Rightarrow> OdomData \<Rightarrow> pose" where
  "tf_update node odom =
     (let c_o = cos (o_yaw odom); s_o = sin (o_yaw odom);
          inv_x = - (c_o * o_x odom + s_o * o_y odom); inv_y = - (- s_o * o_x odom + c_o * o_y odom);
          c_m = cos (n_yaw node); s_m = sin (n_yaw node)
      in (n_x node + c_m * inv_x - s_m * inv_y, n_y node + s_m * inv_x + c_m * inv_y, n_yaw node - o_yaw odom))"

text \<open>A planar transform as ROS sends it: the translation and the quaternion's w and z.\<close>

type_synonym stamped_pose = "real \<times> real \<times> real \<times> real"

definition pose_msg :: "pose \<Rightarrow> stamped_pose" where
  "pose_msg = (\<lambda>(x, y, yaw). (x, y, cos (yaw / 2), sin (yaw / 2)))"

section \<open>slam_visualizer.cpp\<close>

record graph_markers =
  mk_nodes :: "(vec2 \<times> bool) list"
  mk_seq :: "(vec2 \<times> vec2) list"
  mk_loop :: "(vec2 \<times> vec2) list"

record map_msg =
  mm_resolution :: real
  mm_width :: int
  mm_height :: int
  mm_origin :: vec2
  mm_data :: "int list"

definition publish_map :: "OccupancyGridData \<Rightarrow> map_msg" where
  "publish_map occ =
     \<lparr>mm_resolution = occ_resolution occ, mm_width = cols (occ_data occ), mm_height = rows (occ_data occ),
      mm_origin = (occ_origin_x occ, occ_origin_y occ),
      mm_data = concat (map (\<lambda>r. map (px (occ_data occ) r) [0..cols (occ_data occ) - 1]) [0..rows (occ_data occ) - 1])\<rparr>"

datatype node_out =
    PubTf stamped_pose
  | PubPath "stamped_pose list"
  | PubPathBefore "stamped_pose list"
  | PubMap map_msg
  | PubMarkers graph_markers
  | PubDiff PoseGraphDiff
  | PubAnchorFix vec2
  | PubOdometry stamped_pose
  | PubGpsFix "real \<times> real \<times> int \<times> (vec2 \<times> vec2)"

definition node_msg :: "PoseNode \<Rightarrow> stamped_pose" where
  "node_msg n = pose_msg (n_x n, n_y n, n_yaw n)"

text \<open>The table of nodes by index: of several nodes of one index the last one stays.\<close>

definition node_map :: "PoseNode list \<Rightarrow> int \<rightharpoonup> PoseNode" where
  "node_map nodes i = find (\<lambda>n. n_index n = i) (rev nodes)"

definition edge_line :: "(int \<rightharpoonup> PoseNode) \<Rightarrow> PoseEdge \<Rightarrow> (vec2 \<times> vec2) list" where
  "edge_line table e =
     (case (table (e_from e), table (e_to e)) of
        (Some a, Some b) \<Rightarrow> [((n_x a, n_y a), (n_x b, n_y b))]
      | _ \<Rightarrow> [])"

definition publish_pose_graph_markers :: "PoseNode list \<Rightarrow> PoseEdge list \<Rightarrow> node_out list" where
  "publish_pose_graph_markers nodes all_edges =
     (if nodes = [] then []
      else [PubMarkers \<lparr>mk_nodes = map (\<lambda>n. ((n_x n, n_y n), n_index n = n_index (last nodes))) nodes,
              mk_seq = concat (map (edge_line (node_map nodes)) (filter (\<lambda>e. \<not> 1 < \<bar>e_to e - e_from e\<bar>) all_edges)),
              mk_loop = concat (map (edge_line (node_map nodes)) (filter (\<lambda>e. 1 < \<bar>e_to e - e_from e\<bar>) all_edges))\<rparr>])"

section \<open>The state of the node\<close>

record 'r renderer_api =
  ra_add_node :: "PoseNode \<Rightarrow> 'r \<Rightarrow> (bool \<times> 'r) option"
  ra_rerender_all :: "PoseNode list \<Rightarrow> 'r \<Rightarrow> 'r option"
  ra_noise_filter :: "PoseNode list \<Rightarrow> 'r \<Rightarrow> 'r option"
  ra_occupancy :: "'r \<Rightarrow> OccupancyGridData"

record node_config =
  nc_use_gnss :: bool
  nc_skip_rendering :: bool
  nc_publish_hz :: real
  nc_noise_filter :: bool

record ('b, 'g, 'r) slam_env =
  se_orch :: "('b, 'g) orch_env"
  se_renderer :: "'r renderer_api"
  se_cfg :: node_config

record ('b, 'g, 'r) slam_node =
  sn_orch :: "('b, 'g) orch"
  sn_renderer :: 'r
  sn_path :: "stamped_pose list"
  sn_last_anchor :: "vec2 option"
  sn_map_to_odom :: pose
  sn_map_dirty :: bool
  sn_node_count :: int
  sn_last_map_publish :: real
  sn_finalized :: bool

type_synonym ('b, 'g, 'r) node_step = "(('b, 'g, 'r) slam_node \<times> node_out list) option"

definition SlamNodeBase :: "('b, 'g) orch \<Rightarrow> 'r \<Rightarrow> real \<Rightarrow> ('b, 'g, 'r) slam_node" where
  "SlamNodeBase oc renderer now =
     \<lparr>sn_orch = oc, sn_renderer = renderer, sn_path = [], sn_last_anchor = None, sn_map_to_odom = (0, 0, 0), sn_map_dirty = False,
      sn_node_count = 0, sn_last_map_publish = now, sn_finalized = False\<rparr>"

abbreviation graph_nodes :: "('b, 'g, 'r) slam_env \<Rightarrow> ('b, 'g, 'r) slam_node \<Rightarrow> PoseNode list" where
  "graph_nodes env s \<equiv> oc_nodes (se_orch env) (sn_orch s)"

abbreviation graph_edges :: "('b, 'g, 'r) slam_env \<Rightarrow> ('b, 'g, 'r) slam_node \<Rightarrow> PoseEdge list" where
  "graph_edges env s \<equiv> oc_edges (se_orch env) (sn_orch s)"

section \<open>slam_node_base.cpp\<close>

text \<open>\<^verbatim>\<open>SlamVisualizer::rebuild_path\<close> and \<^verbatim>\<open>publish_path_increment\<close>.\<close>

definition rebuild_path :: "PoseNode list \<Rightarrow> ('b, 'g, 'r) slam_node \<Rightarrow> ('b, 'g, 'r) slam_node \<times> node_out list" where
  "rebuild_path nodes s = (s\<lparr>sn_path := map node_msg nodes\<rparr>, [PubPath (map node_msg nodes)])"

definition publish_path_increment :: "PoseNode \<Rightarrow> ('b, 'g, 'r) slam_node \<Rightarrow> ('b, 'g, 'r) slam_node \<times> node_out list" where
  "publish_path_increment node s = (s\<lparr>sn_path := sn_path s @ [node_msg node]\<rparr>, [PubPath (sn_path s @ [node_msg node])])"

definition draw_frame :: "('b, 'g, 'r) slam_env \<Rightarrow> ScanProcessResult \<Rightarrow> PoseNode \<Rightarrow> ('b, 'g, 'r) slam_node \<Rightarrow> ('b, 'g, 'r) node_step" where
  "draw_frame env result node s =
     (let api = se_renderer env; nodes = graph_nodes env s
      in if r_loop_closed result \<or> r_rerender_required result then do {
           r \<leftarrow> ra_rerender_all api nodes (sn_renderer s);
           let (s', out) = rebuild_path nodes (s\<lparr>sn_renderer := r\<rparr>);
           Some (s', (if r_loop_closed result then [PubPathBefore (sn_path s)] else []) @ out)
         }
         else do {
           (drawn, r) \<leftarrow> ra_add_node api node (sn_renderer s);
           r \<leftarrow> (if drawn then Some r else ra_rerender_all api nodes r);
           Some (publish_path_increment node (s\<lparr>sn_renderer := r\<rparr>))
         })"

definition option_list :: "'a option \<Rightarrow> 'a list" where
  "option_list x = (case x of None \<Rightarrow> [] | Some y \<Rightarrow> [y])"

definition frame_messages :: "('b, 'g, 'r) slam_env \<Rightarrow> ScanProcessResult \<Rightarrow> PoseNode \<Rightarrow> ('b, 'g, 'r) slam_node \<Rightarrow> node_out list" where
  "frame_messages env result node s =
     publish_pose_graph_markers (graph_nodes env s) (graph_edges env s) @
     [PubDiff (build_pose_graph_diff [node] (option_list (r_new_seq_edge result)) (r_new_loop_edges result)
        (option_list (r_new_gnss_prior result)) (r_loop_closed result) (r_rerender_required result))]"

definition on_frame :: "('b, 'g, 'r) slam_env \<Rightarrow> SensorFrame \<Rightarrow> ('b, 'g, 'r) slam_node \<Rightarrow> ('b, 'g, 'r) node_step" where
  "on_frame env frame s = do {
     (result, oc) \<leftarrow> process_frame (se_orch env) frame (sn_orch s);
     let s = s\<lparr>sn_orch := oc\<rparr>;
     case r_node result of
       None \<Rightarrow> Some (s, [])
     | Some node \<Rightarrow>
         let s = s\<lparr>sn_map_to_odom := tf_update node (f_odom frame), sn_node_count := sn_node_count s + 1\<rparr>
         in if nc_skip_rendering (se_cfg env) then Some (s, [])
            else do {
              (s, out) \<leftarrow> draw_frame env result node s;
              Some (s\<lparr>sn_map_dirty := True\<rparr>, out @ frame_messages env result node s)
            }
   }"

definition publish_anchor :: "('b, 'g, 'r) slam_env \<Rightarrow> ('b, 'g, 'r) slam_node \<Rightarrow> ('b, 'g, 'r) node_step" where
  "publish_anchor env s =
     (if \<not> nc_use_gnss (se_cfg env) then Some (s, [])
      else
        map_option (\<lambda>latlon.
          case latlon of
            None \<Rightarrow> (s, [])
          | Some p \<Rightarrow>
              if (case sn_last_anchor s of None \<Rightarrow> True
                  | Some q \<Rightarrow> 1 / 10 ^ 7 < \<bar>fst p - fst q\<bar> \<or> 1 / 10 ^ 7 < \<bar>snd p - snd q\<bar>)
              then (s\<lparr>sn_last_anchor := Some p\<rparr>, [PubAnchorFix p]) else (s, []))
          (oc_anchor_latlon (sn_orch s)))"

definition publish_map_timer :: "('b, 'g, 'r) slam_env \<Rightarrow> real \<Rightarrow> bool \<Rightarrow> ('b, 'g, 'r) slam_node \<Rightarrow> ('b, 'g, 'r) node_step" where
  "publish_map_timer env now force s = do {
     (s, out) \<leftarrow> publish_anchor env s;
     if \<not> sn_map_dirty s then Some (s, out)
     else if \<not> force \<and> now - sn_last_map_publish s < 1 / max (nc_publish_hz (se_cfg env)) 0.01 then Some (s, out)
     else Some (s\<lparr>sn_last_map_publish := now, sn_map_dirty := False\<rparr>, out @ [PubMap (publish_map (ra_occupancy (se_renderer env) (sn_renderer s)))])
   }"

definition publish_tf_timer :: "('b, 'g, 'r) slam_node \<Rightarrow> ('b, 'g, 'r) slam_node \<times> node_out list" where
  "publish_tf_timer s = (s, [PubTf (pose_msg (sn_map_to_odom s))])"

definition final_render :: "('b, 'g, 'r) slam_env \<Rightarrow> ('b, 'g, 'r) slam_node \<Rightarrow> ('b, 'g, 'r) node_step" where
  "final_render env s =
     (let api = se_renderer env; nodes = graph_nodes env s
      in do {
           r \<leftarrow> ra_rerender_all api nodes (sn_renderer s);
           r \<leftarrow> (if nc_noise_filter (se_cfg env) then ra_noise_filter api nodes r else Some r);
           Some (rebuild_path nodes (s\<lparr>sn_renderer := r\<rparr>))
         })"

definition node_finalize :: "('b, 'g, 'r) slam_env \<Rightarrow> real \<Rightarrow> ('b, 'g, 'r) slam_node \<Rightarrow> ('b, 'g, 'r) node_step" where
  "node_finalize env now s =
     (if sn_finalized s then Some (s, [])
      else do {
        (rerender_required, oc) \<leftarrow> finalize (se_orch env) (sn_orch s);
        let s = s\<lparr>sn_finalized := True, sn_orch := oc\<rparr>;
        (s, out) \<leftarrow> (if rerender_required \<or> nc_skip_rendering (se_cfg env) then final_render env s else Some (s, []));
        (s, out') \<leftarrow> publish_map_timer env now True (s\<lparr>sn_map_dirty := True\<rparr>);
        Some (s, out @ out')
      })"

section \<open>slam_offline_node.cpp\<close>

record ('b, 'g, 'r) offline_node =
  off_base :: "('b, 'g, 'r) slam_node"
  off_last_gps_ts :: real

definition offline_on_frame ::
  "('b, 'g, 'r) slam_env \<Rightarrow> SensorFrame \<Rightarrow> ('b, 'g, 'r) offline_node \<Rightarrow> (('b, 'g, 'r) offline_node \<times> node_out list) option" where
  "offline_on_frame env frame s = do {
     (base, out) \<leftarrow> on_frame env frame (off_base s);
     let s = s\<lparr>off_base := base\<rparr>;
     if nc_skip_rendering (se_cfg env) then Some (s, out)
     else
       let odom = PubOdometry (pose_msg (o_x (f_odom frame), o_y (f_odom frame), o_yaw (f_odom frame)))
       in Some (case f_gnss frame of
           Some gnss \<Rightarrow>
             if nc_use_gnss (se_cfg env) \<and> 1 / 10 ^ 6 < \<bar>g_stamp gnss - off_last_gps_ts s\<bar>
             then (s\<lparr>off_last_gps_ts := g_stamp gnss\<rparr>, out @ [odom, PubGpsFix (g_lat gnss, g_lon gnss, g_fix gnss, g_cov gnss)])
             else (s, out @ [odom])
         | None \<Rightarrow> (s, out @ [odom]))
   }"

definition step_batch_size :: "node_config \<Rightarrow> real \<Rightarrow> nat" where
  "step_batch_size cfg step_hz = (if step_hz \<le> 0 then if nc_skip_rendering cfg then 500 else 10 else 1)"

text \<open>
  One batch of \<^verbatim>\<open>process_step\<close>: what the bag delivers is given step by step, \<open>Some\<close> of the frames a step completes, or \<open>None\<close> when
  the bag is at its end or ROS shuts down.
\<close>

definition frames_of_step ::
  "('b, 'g, 'r) slam_env \<Rightarrow> SensorFrame list \<Rightarrow> ('b, 'g, 'r) offline_node \<times> node_out list \<Rightarrow> (('b, 'g, 'r) offline_node \<times> node_out list) option" where
  "frames_of_step env = fold_opt (\<lambda>frame (s, out). map_option (\<lambda>(s, o'). (s, out @ o')) (offline_on_frame env frame s))"

fun process_batch ::
  "('b, 'g, 'r) slam_env \<Rightarrow> real \<Rightarrow> SensorFrame list option list \<Rightarrow> ('b, 'g, 'r) offline_node \<times> node_out list \<Rightarrow>
     (('b, 'g, 'r) offline_node \<times> node_out list) option" where
  "process_batch env now [] s = Some s"
| "process_batch env now (Some frames # steps) s = Option.bind (frames_of_step env frames s) (process_batch env now steps)"
| "process_batch env now (None # steps) (s, out) =
     map_option (\<lambda>(base, o'). (s\<lparr>off_base := base\<rparr>, out @ o')) (node_finalize env now (off_base s))"

definition process_step ::
  "('b, 'g, 'r) slam_env \<Rightarrow> real \<Rightarrow> real \<Rightarrow> SensorFrame list option list \<Rightarrow> ('b, 'g, 'r) offline_node \<Rightarrow>
     (('b, 'g, 'r) offline_node \<times> node_out list) option" where
  "process_step env now step_hz steps s = do {
     (s, out) \<leftarrow> process_batch env now (take (step_batch_size (se_cfg env) step_hz) steps) (s, []);
     if nc_skip_rendering (se_cfg env) then Some (s, out)
     else do {
       let (base, o1) = publish_tf_timer (off_base s);
       (base, o2) \<leftarrow> publish_map_timer env now False base;
       Some (s\<lparr>off_base := base\<rparr>, out @ o1 @ o2)
     }
   }"

section \<open>Runs\<close>

text \<open>The callbacks of the live node: frames of the synchroniser and the two timers.\<close>

datatype node_event = Frame SensorFrame | MapTimer real | TfTimer

fun node_step :: "('b, 'g, 'r) slam_env \<Rightarrow> node_event \<Rightarrow> ('b, 'g, 'r) slam_node \<Rightarrow> ('b, 'g, 'r) node_step" where
  "node_step env (Frame frame) s = on_frame env frame s"
| "node_step env (MapTimer now) s = publish_map_timer env now False s"
| "node_step env TfTimer s = Some (publish_tf_timer s)"

primrec node_run :: "('b, 'g, 'r) slam_env \<Rightarrow> node_event list \<Rightarrow> ('b, 'g, 'r) slam_node \<times> node_out list \<Rightarrow> ('b, 'g, 'r) node_step" where
  "node_run env [] s = Some s"
| "node_run env (e # es) s = Option.bind (node_step env e (fst s)) (\<lambda>(s', out). node_run env es (s', snd s @ out))"

end
