(* ===== verification/SlamDisplay.thy ===== *)
theory SlamDisplay
  imports SlamNode
begin

text \<open>
  What the SLAM node shows: the transform it broadcasts, and which nodes the renderer has drawn and the path holds after a
  frame, for any renderer.
\<close>

section \<open>The broadcast transform\<close>

text \<open>
  The transform that the node broadcasts, chained with the odometry of the frame, is the pose of the node.
\<close>

theorem tf_chains_to_node:
  "compose_pose (tf_update node odom) (o_x odom, o_y odom, o_yaw odom) = (n_x node, n_y node, normalize_angle (n_yaw node))"
proof -
  let ?m = "n_yaw node" and ?o = "o_yaw odom"
  have c: "cos (?m - ?o) = cos ?m * cos ?o + sin ?m * sin ?o" and s: "sin (?m - ?o) = sin ?m * cos ?o - cos ?m * sin ?o"
    by (simp_all add: cos_diff sin_diff)
  show ?thesis by (simp add: compose_pose_def tf_update_def Let_def c s algebra_simps)
qed

section \<open>What the renderer has drawn\<close>

text \<open>The nodes that the renderer has drawn since it was last cleared, however it came to draw them.\<close>

inductive draws :: "'r renderer_api \<Rightarrow> 'r \<Rightarrow> PoseNode list \<Rightarrow> 'r \<Rightarrow> bool" for api :: "'r renderer_api" and r0 :: 'r where
  nothing: "draws api r0 [] r0"
| all: "draws api r0 ns r \<Longrightarrow> ra_rerender_all api ms r = Some r' \<Longrightarrow> draws api r0 ms r'"
| one: "draws api r0 ns r \<Longrightarrow> ra_add_node api n r = Some (True, r') \<Longrightarrow> draws api r0 (ns @ [n]) r'"
| refused: "draws api r0 ns r \<Longrightarrow> ra_add_node api n r = Some (False, r') \<Longrightarrow> ra_rerender_all api ms r' = Some r'' \<Longrightarrow> draws api r0 ms r''"
| filtered: "draws api r0 ns r \<Longrightarrow> ra_noise_filter api ms r = Some r' \<Longrightarrow> draws api r0 ns r'"

definition renderer_total :: "'r renderer_api \<Rightarrow> bool" where
  "renderer_total api \<longleftrightarrow> (\<forall>n r. ra_add_node api n r \<noteq> None) \<and> (\<forall>ns r. ra_rerender_all api ns r \<noteq> None) \<and> (\<forall>ns r. ra_noise_filter api ns r \<noteq> None)"

definition displays :: "('b, 'g, 'r) slam_env \<Rightarrow> 'r \<Rightarrow> PoseNode list \<Rightarrow> ('b, 'g, 'r) slam_node \<Rightarrow> bool" where
  "displays env r0 nodes s \<longleftrightarrow>
     (\<exists>ns. draws (se_renderer env) r0 ns (sn_renderer s) \<and> map n_index ns = map n_index nodes) \<and> length (sn_path s) = length nodes"

primrec maps :: "node_out list \<Rightarrow> map_msg list" where
  "maps [] = []"
| "maps (x # xs) = (case x of PubMap m \<Rightarrow> [m] | _ \<Rightarrow> []) @ maps xs"

lemma maps_append [simp]: "maps (xs @ ys) = maps xs @ maps ys"
  by (induction xs) auto

definition same_node :: "('b, 'g, 'r) slam_node \<Rightarrow> ('b, 'g, 'r) slam_node \<Rightarrow> bool" where
  "same_node s s' \<longleftrightarrow> sn_orch s' = sn_orch s \<and> sn_node_count s' = sn_node_count s \<and> sn_finalized s' = sn_finalized s"

lemma draw_frame_displays:
  assumes "renderer_total (se_renderer env)" and "displays env r0 old s" and "map n_index (graph_nodes env s) = map n_index old @ [n_index node]"
  shows "\<exists>s' out. draw_frame env result node s = Some (s', out) \<and> displays env r0 (graph_nodes env s) s' \<and> same_node s s' \<and> maps out = []"
proof -
  let ?api = "se_renderer env" and ?nodes = "graph_nodes env s"
  obtain ns where ns: "draws ?api r0 ns (sn_renderer s)" "map n_index ns = map n_index old" and path: "length (sn_path s) = length old"
    using assms(2) by (auto simp: displays_def)
  have len: "length ?nodes = Suc (length old)" using arg_cong [OF assms(3), of length] by simp
  have total: "\<exists>r'. ra_rerender_all ?api ms r = Some r'" "\<exists>b r'. ra_add_node ?api n r = Some (b, r')" for ms n r
    using assms(1) unfolding renderer_total_def by (metis not_None_eq, metis not_None_eq surj_pair)
  show ?thesis
  proof (cases "r_loop_closed result \<or> r_rerender_required result")
    case True
    obtain r' where r': "ra_rerender_all ?api ?nodes (sn_renderer s) = Some r'" using total(1) by blast
    have "draws ?api r0 ?nodes r'" using ns(1) r' by (rule draws.all)
    then show ?thesis using True r' by (auto simp: draw_frame_def rebuild_path_def displays_def same_node_def Let_def)
  next
    case False
    obtain b r' where r': "ra_add_node ?api node (sn_renderer s) = Some (b, r')" using total(2) by blast
    show ?thesis
    proof (cases b)
      case True
      then have "draws ?api r0 (ns @ [node]) r'" using draws.one [OF ns(1), of node r'] r' by simp
      moreover have "map n_index (ns @ [node]) = map n_index ?nodes" by (simp only: map_append ns(2) assms(3) list.map)
      ultimately have "displays env r0 ?nodes (fst (publish_path_increment node (s\<lparr>sn_renderer := r'\<rparr>)))"
        unfolding displays_def using path len by (auto simp: publish_path_increment_def)
      then show ?thesis using False True r' by (simp add: draw_frame_def publish_path_increment_def same_node_def Let_def)
    next
      case b: False
      obtain r'' where r'': "ra_rerender_all ?api ?nodes r' = Some r''" using total(1) by blast
      have "draws ?api r0 ?nodes r''" using draws.refused [OF ns(1), of node r' ?nodes r''] r' r'' b by simp
      then have "displays env r0 ?nodes (fst (publish_path_increment node (s\<lparr>sn_renderer := r''\<rparr>)))"
        unfolding displays_def using path len by (auto simp: publish_path_increment_def)
      then show ?thesis using False b r' r'' by (simp add: draw_frame_def publish_path_increment_def same_node_def Let_def)
    qed
  qed
qed

end
