(* ===== verification/SlamNodeProps.thy ===== *)
theory SlamNodeProps
  imports SlamDisplay OrchestratorProps
begin

text \<open>
  The SLAM node over every sequence of callbacks: it never throws, what it has drawn and published as a path is one entry per
  node of the graph, and the map is published again after every change.
\<close>

section \<open>One frame of the orchestrator\<close>

lemma add_latest_seq_edge_frame:
  assumes "add_latest_seq_edge node es oc = (s, oc')"
  shows "oc_builder oc' = oc_builder oc \<and> oc_anchor oc' = oc_anchor oc"
  using assms by (auto simp: add_latest_seq_edge_def Let_def split: option.splits if_splits prod.splits)

lemma add_new_loop_edges_frame:
  assumes "add_new_loop_edges es oc = (x, oc')"
  shows "oc_builder oc' = oc_builder oc \<and> oc_anchor oc' = oc_anchor oc"
  using assms by (auto simp: add_new_loop_edges_def Let_def split: if_splits)

lemma initialize_optimizer_frame:
  assumes "initialize_optimizer_if_needed env node oc = Some oc'"
  shows "oc_builder oc' = oc_builder oc \<and> oc_anchor oc' = oc_anchor oc"
  using assms by (auto simp: initialize_optimizer_if_needed_def bind_eq_Some_conv split: if_splits)

definition anchors_ok :: "('b, 'g) orch \<Rightarrow> bool" where
  "anchors_ok oc \<longleftrightarrow> (\<forall>a. oc_anchor oc = Some a \<longrightarrow> anchor_ok a)"

lemma try_dynamic_reanchor_anchor:
  assumes "try_dynamic_reanchor env node frame oc = (x, oc')" and "anchors_ok oc"
  shows "anchors_ok oc'"
  using assms anchor_ok_update
  by (auto simp: try_dynamic_reanchor_def anchors_ok_def Let_def split: option.splits if_splits prod.splits)

lemma oc_add_gnss_prior_anchor:
  assumes "oc_add_gnss_prior frame node oc = Some (p, oc')"
  shows "oc_anchor oc' = oc_anchor oc"
proof -
  have "pred_option (\<lambda>(p, oc'). oc_anchor oc' = oc_anchor oc) (oc_add_gnss_prior frame node oc)"
    by (simp add: oc_add_gnss_prior_def Let_def split: option.split bind_split)
  then show ?thesis by (simp add: assms)
qed

lemma running_frame_shape:
  assumes "running_frame env frame node oc = Some (r, oc')"
  shows "\<exists>n m. r_node r = Some n \<and> (n_index n = n_index node \<or> oc_nodes env oc \<noteq> [] \<and> n_index n = n_index (last (oc_nodes env oc))) \<and>
    oc_builder oc' = ba_replace (env_builder env) (map (apply_pose m) (oc_nodes env oc)) (oc_builder oc) \<and>
    (anchors_ok oc \<longrightarrow> anchors_ok oc')"
proof -
  obtain oc1 where i: "initialize_optimizer_if_needed env node oc = Some oc1"
    using assms by (auto simp: running_frame_def bind_eq_Some_conv)
  obtain s oc2 where s: "add_latest_seq_edge node (oc_edges env oc1) oc1 = (s, oc2)" by fastforce
  obtain l c oc3 where l: "add_new_loop_edges (oc_edges env oc1) oc2 = ((l, c), oc3)" by (metis surj_pair)
  obtain ra oc4 where ra: "(if dynamic_reanchor_enabled (oc_cfg oc3) \<and> \<not> dynamic_reanchored oc3
      then try_dynamic_reanchor env node frame oc3 else (False, oc3)) = (ra, oc4)" by fastforce
  define node' where "node' = (if ra \<and> oc_nodes env oc4 \<noteq> [] then last (oc_nodes env oc4) else node)"
  obtain p oc5 where p: "oc_add_gnss_prior frame node' oc4 = Some (p, oc5)" using oc_add_gnss_prior_defined by blast
  have tail: "Option.bind (opt_update (env_gtsam env) (oc_opt oc5)) (\<lambda>opt.
      let (rerender_required, oc) = apply_optimized_poses env node' (c \<or> ra) (oc5\<lparr>oc_opt := opt\<rparr>);
          node = (case get_pose (n_index node') (oc_opt oc) of None \<Rightarrow> node' | Some (x, y, yaw) \<Rightarrow> node'\<lparr>n_x := x, n_y := y, n_yaw := yaw\<rparr>)
      in Some (\<lparr>r_node = Some node, r_loop_closed = c, r_rerender_required = rerender_required, r_new_seq_edge = s,
        r_new_loop_edges = l, r_new_gnss_prior = p\<rparr>, oc)) = Some (r, oc')"
    using assms p unfolding running_frame_def i Option.bind.bind_lunit Let_def s l case_prod_conv ra node'_def by simp
  then obtain opt where opt: "opt_update (env_gtsam env) (oc_opt oc5) = Some opt" by (cases "opt_update (env_gtsam env) (oc_opt oc5)") auto
  obtain rr oc7 where r7: "apply_optimized_poses env node' (c \<or> ra) (oc5\<lparr>oc_opt := opt\<rparr>) = (rr, oc7)" by fastforce
  have res: "oc' = oc7" "\<exists>n. r_node r = Some n \<and> n_index n = n_index node'"
  proof -
    note tail' = tail [unfolded opt Option.bind.bind_lunit Let_def r7 case_prod_conv option.inject prod.inject]
    show "oc' = oc7" by (rule tail' [THEN conjunct2, symmetric])
    show "\<exists>n. r_node r = Some n \<and> n_index n = n_index node'"
      unfolding tail' [THEN conjunct1, symmetric] ScanProcessResult.select_convs by (simp split: option.splits)
  qed
  note b = initialize_optimizer_frame [OF i] add_latest_seq_edge_frame [OF s] add_new_loop_edges_frame [OF l]
  have b3: "oc_builder oc3 = oc_builder oc" "oc_anchor oc3 = oc_anchor oc" using b by simp_all
  have a3: "anchors_ok oc3 = anchors_ok oc" unfolding anchors_ok_def b3(2) ..
  have b4: "oc_builder oc4 = oc_builder oc \<and> (anchors_ok oc \<longrightarrow> anchors_ok oc4)"
  proof (cases "dynamic_reanchor_enabled (oc_cfg oc3) \<and> \<not> dynamic_reanchored oc3")
    case True
    then have t: "try_dynamic_reanchor env node frame oc3 = (ra, oc4)" using ra by simp
    show ?thesis using try_dynamic_reanchor_frame(1) [OF t] try_dynamic_reanchor_anchor [OF t] a3 b3(1) by simp
  next
    case False
    then have "oc4 = oc3" using ra by auto
    then show ?thesis using a3 b3(1) by simp
  qed
  have b5: "oc_builder oc5 = oc_builder oc" using oc_add_gnss_prior_frame [OF p, THEN conjunct1] b4 by simp
  have a5: "anchors_ok oc \<longrightarrow> anchors_ok oc5" using b4 unfolding anchors_ok_def oc_add_gnss_prior_anchor [OF p] by blast
  have "oc_builder oc7 = ba_replace (env_builder env) (map (apply_pose (get_all_poses opt)) (oc_nodes env oc)) (oc_builder oc)"
    "oc_anchor oc7 = oc_anchor oc5"
    using r7 b5 by (auto simp: apply_optimized_poses_def Let_def)
  moreover from this(2) have "anchors_ok oc \<longrightarrow> anchors_ok oc7" using a5 unfolding anchors_ok_def by metis
  moreover have "n_index node' = n_index node \<or> oc_nodes env oc \<noteq> [] \<and> n_index node' = n_index (last (oc_nodes env oc))"
    using b4 by (auto simp: node'_def)
  ultimately show ?thesis using res by metis
qed

lemma initialize_gnss_anchor:
  assumes "initialize_with_gnss_if_ready env frame oc = Some oc'" and "anchors_ok oc"
  shows "anchors_ok oc'"
proof -
  have "pred_option anchors_ok (initialize_with_gnss_if_ready env frame oc)"
    using assms(2) anchor_ok_try_set
    by (auto simp: initialize_with_gnss_if_ready_def align_graph_def anchors_ok_def Let_def split: option.split bind_split prod.split)
  then show ?thesis by (simp add: assms(1))
qed

lemma align_graph_builder:
  "oc_builder (align_graph env rot oc) = ba_replace (env_builder env) (rebase_and_rotate_nodes (oc_nodes env oc) rot) (oc_builder oc)"
  by (simp add: align_graph_def Let_def)

context pose_graph_builder
begin

lemma running_frame_nodes:
  assumes E: "env_builder env = builder_ops add_scan nodes_of edges_of replace_nodes" and "inv (oc_builder oc)"
    and "running_frame env frame node oc = Some (r, oc')" and "nodes_of (oc_builder oc) \<noteq> []"
    and "n_index node = int (length (nodes_of (oc_builder oc))) - 1"
  shows "length (nodes_of (oc_builder oc')) = length (nodes_of (oc_builder oc)) \<and>
    (\<exists>n. r_node r = Some n \<and> n_index n = int (length (nodes_of (oc_builder oc))) - 1) \<and> (anchors_ok oc \<longrightarrow> anchors_ok oc')"
proof -
  from running_frame_shape [OF assms(3)] obtain n m where n: "r_node r = Some n"
    "n_index n = n_index node \<or> n_index n = n_index (last (nodes_of (oc_builder oc)))"
    "oc_builder oc' = replace_nodes (map (apply_pose m) (nodes_of (oc_builder oc))) (oc_builder oc)" "anchors_ok oc \<longrightarrow> anchors_ok oc'"
    by (auto simp: E)
  have "length (nodes_of (oc_builder oc')) = length (nodes_of (oc_builder oc))"
    using replace_keeps [OF assms(2), of "map (apply_pose m) (nodes_of (oc_builder oc))"] by (simp add: n(3))
  then show ?thesis using n(1, 2, 4) assms(5) indexed_last [OF inv_indexed [OF assms(2)] assms(4)] by auto
qed

lemma process_frame_nodes:
  assumes E: "env_builder env = builder_ops add_scan nodes_of edges_of replace_nodes" and i: "inv (oc_builder oc)"
    and run: "process_frame env frame oc = Some (r, oc')"
  shows "(case r_node r of
        None \<Rightarrow> length (nodes_of (oc_builder oc')) = length (nodes_of (oc_builder oc))
      | Some n \<Rightarrow> n_index n = int (length (nodes_of (oc_builder oc))) \<and> length (nodes_of (oc_builder oc')) = Suc (length (nodes_of (oc_builder oc)))) \<and>
    (anchors_ok oc \<longrightarrow> anchors_ok oc')"
proof -
  obtain a b where add: "add_scan (f_scan frame) (f_odom frame) (oc_builder oc) = (a, b)" by fastforce
  show ?thesis
  proof (cases a)
    case None
    then have "r_node r = None \<and> oc' = oc\<lparr>oc_builder := b\<rparr>" using run by (auto simp: process_frame_def E add)
    moreover have "nodes_of b = nodes_of (oc_builder oc)" using add_none [OF i add [unfolded None]] by simp
    ultimately show ?thesis by (simp add: anchors_ok_def)
  next
    case (Some node)
    have b: "inv b" "nodes_of b = nodes_of (oc_builder oc) @ [node]" using add_some [OF i] add Some by auto
    have idx: "n_index node = int (length (nodes_of (oc_builder oc)))" using indexed_last [OF inv_indexed [OF b(1)]] b(2) by simp
    let ?oc = "oc\<lparr>oc_builder := b\<rparr>"
    obtain oc1 where g: "initialize_with_gnss_if_ready env frame ?oc = Some oc1"
      using run by (auto simp: process_frame_def E add Some bind_eq_Some_conv)
    have "anchors_ok ?oc = anchors_ok oc" by (simp add: anchors_ok_def)
    then have a1: "anchors_ok oc \<longrightarrow> anchors_ok oc1" using initialize_gnss_anchor [OF g] by blast
    have b1: "inv (oc_builder oc1) \<and> length (nodes_of (oc_builder oc1)) = Suc (length (nodes_of (oc_builder oc)))"
    proof (rule gnss_init_cases [of env frame ?oc])
      fix oc2 assume "initialize_with_gnss_if_ready env frame ?oc = Some oc2" "same_book ?oc oc2"
      then show ?thesis using g b by (simp add: same_book_def)
    next
      fix rot oc2
      assume al: "initialize_with_gnss_if_ready env frame ?oc = Some (align_graph env rot oc2)" "same_book ?oc oc2"
      then have "oc_builder oc1 = replace_nodes (rebase_and_rotate_nodes (nodes_of b) rot) b"
        using g by (simp add: align_graph_builder E same_book_def)
      then show ?thesis using replace_keeps [OF b(1) rebase_index [of "nodes_of b" rot]] b(2) by simp
    qed
    show ?thesis
    proof (cases "oc_state oc1 = INITIALIZING")
      case True
      then have "r_node r = Some node \<and> oc' = oc1" using run g by (auto simp: process_frame_def E add Some)
      then show ?thesis using b1 idx a1 by simp
    next
      case False
      then have "running_frame env frame node oc1 = Some (r, oc')" using run g by (simp add: process_frame_def E add Some)
      from running_frame_nodes [OF E _ this] show ?thesis using b1 idx a1 by fastforce
    qed
  qed
qed

end

section \<open>The invariant of the node\<close>

text \<open>
  While frames are drawn, the renderer shows every node once and the path has an entry for each; the latest map that was
  published is the current one unless the node remembers that it is not.  With drawing postponed nothing is drawn yet.
\<close>

definition display_ok :: "('b, 'g, 'r) slam_env \<Rightarrow> 'r \<Rightarrow> ('b, 'g, 'r) slam_node \<times> node_out list \<Rightarrow> bool" where
  "display_ok env r0 = (\<lambda>(s, out).
     sn_node_count s = int (length (graph_nodes env s)) \<and> \<not> sn_finalized s \<and>
     (if nc_skip_rendering (se_cfg env) then sn_renderer s = r0 \<and> sn_path s = [] \<and> \<not> sn_map_dirty s
      else displays env r0 (graph_nodes env s) s \<and>
        (sn_map_dirty s \<or> graph_nodes env s = [] \<or> maps out \<noteq> [] \<and> last (maps out) = publish_map (ra_occupancy (se_renderer env) (sn_renderer s)))))"

lemma publish_anchor_frame:
  assumes "anchors_ok (sn_orch s)"
  shows "\<exists>s' out. publish_anchor env s = Some (s', out) \<and> same_node s s' \<and> sn_renderer s' = sn_renderer s \<and> sn_path s' = sn_path s \<and>
    sn_map_dirty s' = sn_map_dirty s \<and> maps out = []"
proof -
  have "oc_anchor_latlon (sn_orch s) \<noteq> None"
    using assms anchor_ok_latlon by (auto simp: oc_anchor_latlon_def anchors_ok_def split: option.splits)
  then obtain p where "oc_anchor_latlon (sn_orch s) = Some p" by blast
  then show ?thesis by (cases p) (auto simp: publish_anchor_def same_node_def split: option.splits)
qed

lemma map_timer_frame:
  assumes "anchors_ok (sn_orch s)"
  shows "\<exists>s' out. publish_map_timer env now force s = Some (s', out) \<and> same_node s s' \<and> sn_renderer s' = sn_renderer s \<and> sn_path s' = sn_path s \<and>
    (maps out = [] \<and> sn_map_dirty s' = sn_map_dirty s \<and> \<not> (force \<and> sn_map_dirty s) \<or>
     maps out = [publish_map (ra_occupancy (se_renderer env) (sn_renderer s))] \<and> \<not> sn_map_dirty s' \<and> sn_map_dirty s)"
proof -
  obtain s1 out where a: "publish_anchor env s = Some (s1, out)" "same_node s s1" "sn_renderer s1 = sn_renderer s" "sn_path s1 = sn_path s"
    "sn_map_dirty s1 = sn_map_dirty s" "maps out = []" using publish_anchor_frame [OF assms] by blast
  then show ?thesis
    by (cases "\<not> sn_map_dirty s1 \<or> \<not> force \<and> now - sn_last_map_publish s1 < 1 / max (nc_publish_hz (se_cfg env)) 0.01")
      (auto simp: publish_map_timer_def same_node_def)
qed

text \<open>The back end between two frames, for the invariant \<open>ok\<close> of the builder.\<close>

definition back_end_ok :: "('b \<Rightarrow> bool) \<Rightarrow> ('b, 'g) orch_env \<Rightarrow> string \<Rightarrow> real \<Rightarrow> ('b, 'g) orch \<Rightarrow> bool" where
  "back_end_ok ok env kern scale oc \<longleftrightarrow> ok (oc_builder oc) \<and> (synced env kern scale oc \<or> waiting env kern scale oc) \<and> anchors_ok oc"

context pose_graph_builder
begin

lemma process_frame_back_end:
  assumes E: "env_builder env = builder_ops add_scan nodes_of edges_of replace_nodes"
    and gt: "gtsam_keys (env_gtsam env)" "gtsam_accepts (env_gtsam env)" and i: "back_end_ok inv env kern scale oc"
  shows "\<exists>r oc'. process_frame env frame oc = Some (r, oc') \<and> back_end_ok inv env kern scale oc' \<and>
    map n_index (nodes_of (oc_builder oc')) =
      map n_index (nodes_of (oc_builder oc)) @ (case r_node r of None \<Rightarrow> [] | Some n \<Rightarrow> [n_index n])"
proof -
  have oc: "inv (oc_builder oc)" "synced env kern scale oc \<or> waiting env kern scale oc" "anchors_ok oc"
    using i by (simp_all add: back_end_ok_def)
  obtain r oc' where r: "process_frame env frame oc = Some (r, oc')" "inv (oc_builder oc')"
    "synced env kern scale oc' \<or> waiting env kern scale oc'"
    using process_frame_ok [OF E gt oc(1, 2)] by blast
  note n = process_frame_nodes [OF E oc(1) r(1)]
  have "back_end_ok inv env kern scale oc'" using r n oc(3) by (simp add: back_end_ok_def)
  moreover have "map n_index (nodes_of (oc_builder oc')) =
      map n_index (nodes_of (oc_builder oc)) @ (case r_node r of None \<Rightarrow> [] | Some n \<Rightarrow> [n_index n])"
    using n inv_indexed [OF oc(1)] inv_indexed [OF r(2)] by (cases "r_node r") (simp_all add: indexed_def)
  ultimately show ?thesis using r(1) by blast
qed

lemma on_frame_ok:
  assumes E: "env_builder (se_orch env) = builder_ops add_scan nodes_of edges_of replace_nodes"
    and gt: "gtsam_keys (env_gtsam (se_orch env))" "gtsam_accepts (env_gtsam (se_orch env))" and total: "renderer_total (se_renderer env)"
    and i: "back_end_ok inv (se_orch env) kern scale (sn_orch s)" and d: "display_ok env r0 (s, out)"
  shows "\<exists>s' o'. on_frame env frame s = Some (s', o') \<and> back_end_ok inv (se_orch env) kern scale (sn_orch s') \<and> display_ok env r0 (s', out @ o')"
proof -
  obtain r oc' where r: "process_frame (se_orch env) frame (sn_orch s) = Some (r, oc')" "back_end_ok inv (se_orch env) kern scale oc'"
    "map n_index (nodes_of (oc_builder oc')) =
      map n_index (nodes_of (oc_builder (sn_orch s))) @ (case r_node r of None \<Rightarrow> [] | Some n \<Rightarrow> [n_index n])"
    using process_frame_back_end [OF E gt i] by blast
  have len: "length (nodes_of (oc_builder oc')) = length (nodes_of (oc_builder (sn_orch s))) + (case r_node r of None \<Rightarrow> 0 | Some n \<Rightarrow> 1)"
    using arg_cong [OF r(3), of length] by (simp split: option.splits)
  show ?thesis
  proof (cases "r_node r")
    case None
    let ?s = "s\<lparr>sn_orch := oc'\<rparr>"
    have "on_frame env frame s = Some (?s, [])" using r(1) None by (simp add: on_frame_def Let_def)
    moreover have "(nodes_of (oc_builder oc') = []) = (nodes_of (oc_builder (sn_orch s)) = [])" using len None by (simp flip: length_0_conv)
    then have "display_ok env r0 (?s, out)"
      using d r(3) len None by (cases "nc_skip_rendering (se_cfg env)") (simp_all add: display_ok_def displays_def E)
    ultimately show ?thesis using r(2) by simp
  next
    case (Some n)
    let ?s = "s\<lparr>sn_orch := oc', sn_map_to_odom := tf_update n (f_odom frame), sn_node_count := sn_node_count s + 1\<rparr>"
    show ?thesis
    proof (cases "nc_skip_rendering (se_cfg env)")
      case True
      then have "on_frame env frame s = Some (?s, [])" using r(1) Some by (simp add: on_frame_def Let_def)
      moreover have "display_ok env r0 (?s, out)" using d len Some True by (simp add: display_ok_def E)
      ultimately show ?thesis using r(2) by simp
    next
      case False
      have "displays env r0 (graph_nodes env s) ?s" using d False by (simp add: display_ok_def displays_def)
      moreover have "map n_index (graph_nodes env ?s) = map n_index (graph_nodes env s) @ [n_index n]" using r(3) Some by (simp add: E)
      ultimately obtain s' o' where dr: "draw_frame env r n ?s = Some (s', o')" "displays env r0 (graph_nodes env ?s) s'"
        "same_node ?s s'" "maps o' = []"
        using draw_frame_displays [OF total] by blast
      have o: "sn_orch s' = oc'" "sn_node_count s' = sn_node_count s + 1" "sn_finalized s' = sn_finalized s"
        using dr(3) by (simp_all add: same_node_def)
      let ?s' = "s'\<lparr>sn_map_dirty := True\<rparr>" and ?o = "o' @ frame_messages env r n s'"
      have "on_frame env frame s = Some (?s', ?o)" using r(1) Some False dr(1) by (simp add: on_frame_def Let_def)
      moreover have "display_ok env r0 (?s', out @ ?o)"
        using d len Some False dr(2) o by (simp add: display_ok_def displays_def E)
      ultimately show ?thesis using r(2) o(1) by (metis slam_node.select_convs(1) slam_node.surjective slam_node.update_convs(6))
    qed
  qed
qed

lemma map_timer_ok:
  assumes "back_end_ok inv (se_orch env) kern scale (sn_orch s)" and d: "display_ok env r0 (s, out)"
  shows "\<exists>s' o'. publish_map_timer env now force s = Some (s', o') \<and> back_end_ok inv (se_orch env) kern scale (sn_orch s') \<and>
    display_ok env r0 (s', out @ o')"
proof -
  have "anchors_ok (sn_orch s)" using assms(1) by (simp add: back_end_ok_def)
  from map_timer_frame [OF this, of env now force] obtain s' o' where t: "publish_map_timer env now force s = Some (s', o')" "same_node s s'"
    "sn_renderer s' = sn_renderer s" "sn_path s' = sn_path s"
    "maps o' = [] \<and> sn_map_dirty s' = sn_map_dirty s \<or>
     maps o' = [publish_map (ra_occupancy (se_renderer env) (sn_renderer s))] \<and> \<not> sn_map_dirty s' \<and> sn_map_dirty s" by blast
  have o: "sn_orch s' = sn_orch s" "sn_node_count s' = sn_node_count s" "sn_finalized s' = sn_finalized s" using t(2) by (simp_all add: same_node_def)
  have "display_ok env r0 (s', out @ o')"
    using d t(3-5) o by (auto simp: display_ok_def displays_def)
  then show ?thesis using t(1) assms(1) o(1) by auto
qed

lemma node_run_ok:
  assumes E: "env_builder (se_orch env) = builder_ops add_scan nodes_of edges_of replace_nodes"
    and gt: "gtsam_keys (env_gtsam (se_orch env))" "gtsam_accepts (env_gtsam (se_orch env))" and total: "renderer_total (se_renderer env)"
    and "back_end_ok inv (se_orch env) kern scale (sn_orch s)" and "display_ok env r0 (s, out)"
  shows "\<exists>s' out'. node_run env events (s, out) = Some (s', out') \<and> back_end_ok inv (se_orch env) kern scale (sn_orch s') \<and> display_ok env r0 (s', out')"
  using assms(5, 6)
proof (induction events arbitrary: s out)
  case (Cons e events)
  have "\<exists>s' o'. node_step env e s = Some (s', o') \<and> back_end_ok inv (se_orch env) kern scale (sn_orch s') \<and> display_ok env r0 (s', out @ o')"
  proof (cases e)
    case (Frame frame)
    then show ?thesis using on_frame_ok [OF E gt total Cons.prems] by simp
  next
    case (MapTimer now)
    then show ?thesis using map_timer_ok [OF Cons.prems] by simp
  next
    case TfTimer
    then show ?thesis using Cons.prems by (simp add: publish_tf_timer_def display_ok_def)
  qed
  then obtain s' o' where st: "node_step env e s = Some (s', o')" "back_end_ok inv (se_orch env) kern scale (sn_orch s')"
    "display_ok env r0 (s', out @ o')" by blast
  from Cons.IH [OF st(2, 3)] show ?case by (simp add: st(1))
qed simp

lemma finalize_ok:
  assumes E: "env_builder env = builder_ops add_scan nodes_of edges_of replace_nodes"
    and gt: "gtsam_keys (env_gtsam env)" "gtsam_accepts (env_gtsam env)" and i: "back_end_ok inv env kern scale oc"
  shows "\<exists>oc'. finalize env oc = Some (True, oc') \<and> inv (oc_builder oc') \<and> anchors_ok oc' \<and>
    map n_index (nodes_of (oc_builder oc')) = map n_index (nodes_of (oc_builder oc))"
proof -
  have "\<exists>opt. run_batch_optimization (env_gtsam env) k (oc_opt oc) = Some opt" for k
  proof (cases "opt_initialized (oc_opt oc)")
    case True
    then have "synced env kern scale oc" using i by (auto simp: back_end_ok_def waiting_def)
    then have "opt_ok (env_gtsam env) kern scale (length (oc_nodes env oc)) (oc_edges env oc) (oc_opt oc)" by (simp add: synced_def)
    from opt_ok_update [OF gt this] True show ?thesis
      by (auto simp: run_batch_optimization_def opt_update_def Let_def split: if_splits)
  qed (simp add: run_batch_optimization_def)
  then obtain opt where opt: "(if batch_on_finalize (oc_cfg oc)
      then run_batch_optimization (env_gtsam env) (batch_max_iterations (oc_cfg oc)) (oc_opt oc) else Some (oc_opt oc)) = Some opt"
    by (cases "batch_on_finalize (oc_cfg oc)") auto
  let ?nodes = "map (apply_pose (get_all_poses opt)) (nodes_of (oc_builder oc))"
  have "finalize env oc = Some (True, oc\<lparr>oc_opt := opt, oc_builder := replace_nodes ?nodes (oc_builder oc)\<rparr>)"
    unfolding finalize_def opt by (simp add: E Let_def)
  moreover have "inv (oc_builder oc)" "anchors_ok oc" using i by (simp_all add: back_end_ok_def)
  moreover from replace_keeps [OF this(1), of ?nodes] have "inv (replace_nodes ?nodes (oc_builder oc)) \<and> nodes_of (replace_nodes ?nodes (oc_builder oc)) = ?nodes"
    by (simp add: comp_def)
  ultimately show ?thesis by (auto simp: anchors_ok_def comp_def)
qed

lemma node_finalize_ok:
  assumes E: "env_builder (se_orch env) = builder_ops add_scan nodes_of edges_of replace_nodes"
    and gt: "gtsam_keys (env_gtsam (se_orch env))" "gtsam_accepts (env_gtsam (se_orch env))" and total: "renderer_total (se_renderer env)"
    and i: "back_end_ok inv (se_orch env) kern scale (sn_orch s)" and d: "display_ok env r0 (s, out)"
  shows "\<exists>s' out'. node_finalize env now s = Some (s', out') \<and> map n_index (graph_nodes env s') = map n_index (graph_nodes env s) \<and>
    sn_finalized s' \<and> draws (se_renderer env) r0 (graph_nodes env s') (sn_renderer s') \<and>
    sn_path s' = map node_msg (graph_nodes env s') \<and> maps out' = [publish_map (ra_occupancy (se_renderer env) (sn_renderer s'))]"
proof -
  let ?api = "se_renderer env"
  obtain oc' where f: "finalize (se_orch env) (sn_orch s) = Some (True, oc')" "anchors_ok oc'"
    "map n_index (nodes_of (oc_builder oc')) = map n_index (nodes_of (oc_builder (sn_orch s)))"
    using finalize_ok [OF E gt i] by blast
  let ?nodes = "nodes_of (oc_builder oc')"
  have "draws ?api r0 [] (sn_renderer s) \<or> (\<exists>ns. draws ?api r0 ns (sn_renderer s))"
    using d draws.nothing [of ?api r0] by (auto simp: display_ok_def displays_def split: if_splits)
  then obtain ns where ns: "draws ?api r0 ns (sn_renderer s)" by blast
  obtain r where r: "ra_rerender_all ?api ?nodes (sn_renderer s) = Some r" using total unfolding renderer_total_def by blast
  obtain r' where r': "(if nc_noise_filter (se_cfg env) then ra_noise_filter ?api ?nodes r else Some r) = Some r'" "draws ?api r0 ?nodes r'"
  proof (cases "nc_noise_filter (se_cfg env)")
    case True
    moreover obtain r' where "ra_noise_filter ?api ?nodes r = Some r'" using total unfolding renderer_total_def by blast
    ultimately show ?thesis using that draws.filtered [OF draws.all [OF ns r]] by simp
  next
    case False
    then show ?thesis using that draws.all [OF ns r] by simp
  qed
  let ?s = "s\<lparr>sn_finalized := True, sn_orch := oc', sn_renderer := r', sn_path := map node_msg ?nodes, sn_map_dirty := True\<rparr>"
  from map_timer_frame [of ?s env now True] f(2) obtain s' o' where t: "publish_map_timer env now True ?s = Some (s', o')" "same_node ?s s'"
    "sn_renderer s' = r'" "sn_path s' = map node_msg ?nodes" "maps o' = [publish_map (ra_occupancy ?api r')]" by auto
  have o: "sn_orch s' = oc'" "sn_finalized s'" using t(2) by (simp_all add: same_node_def)
  have "\<not> sn_finalized s" using d by (simp add: display_ok_def)
  then have "node_finalize env now s = Some (s', [PubPath (map node_msg ?nodes)] @ o')"
    using f(1) r r'(1) t(1) by (simp add: node_finalize_def final_render_def rebuild_path_def E Let_def)
  then show ?thesis using o t(3-5) r'(2) f(3) by (auto simp: E)
qed

end

section \<open>The node around the loop-closing back end\<close>

lemma new_node_ok:
  assumes "search_ok (lenv :: ('m, 'p, 'l) lc_env)" and "near_link_buffer_size smc < 15" and "2 \<le> near_link_min_index_diff smc" and "2 \<le> node_gap"
    and "se_orch env = loop_closing_env lenv gt geo eig svd"
    and "oc = new_orchestrator (se_orch env) (ScanMatchingBuilder smc m p)
      (\<lambda>inner. LoopClosureBuilder inner l rad node_gap streak dyaw cross sub score) cfg threshold kern scale"
  shows "back_end_ok (lc_inv lenv) (se_orch env) kern scale oc" and "display_ok env r0 (SlamNodeBase oc r0 now, [])"
proof -
  have E: "env_builder (se_orch env) = builder_ops (lc_add_scan lenv) lc_get_nodes lc_get_edges (lc_replace_nodes lenv)"
    by (simp add: assms(5) loop_closing_env_def)
  have b: "oc_builder oc = LoopClosureBuilder (ScanMatchingBuilder smc m p) l rad node_gap streak dyaw cross sub score"
    by (simp add: assms(6) new_orchestrator_def oc_set_between_robust_kernel_def GraphOrchestrator_def)
  have "waiting (se_orch env) kern scale oc"
    unfolding assms(6) by (rule new_orchestrator_waiting [OF refl])
      (simp_all add: E LoopClosureBuilder_def ScanMatchingBuilder_def lc_get_nodes_def lc_get_edges_def)
  moreover have "anchors_ok oc"
    by (auto simp: anchors_ok_def assms(6) new_orchestrator_def oc_set_between_robust_kernel_def GraphOrchestrator_def
        anchor_ok_def anchor_is_initialized_def GnssAnchorManager_def split: if_splits)
  ultimately show "back_end_ok (lc_inv lenv) (se_orch env) kern scale oc"
    using lc_inv_new [OF assms(1-4)] by (simp add: back_end_ok_def b)
  show "display_ok env r0 (SlamNodeBase oc r0 now, [])"
    using draws.nothing [of "se_renderer env" r0]
    by (simp add: display_ok_def displays_def SlamNodeBase_def E b LoopClosureBuilder_def ScanMatchingBuilder_def lc_get_nodes_def)
qed


text \<open>A renderer that only keeps the nodes it has drawn.\<close>

definition list_renderer :: "PoseNode list renderer_api" where
  "list_renderer = \<lparr>ra_add_node = (\<lambda>n r. Some (True, r @ [n])), ra_rerender_all = (\<lambda>ns r. Some ns), ra_noise_filter = (\<lambda>ns r. Some r),
     ra_occupancy = (\<lambda>r. \<lparr>occ_data = mat_fill 1 (int (length r)) 100, occ_origin_x = 0, occ_origin_y = 0, occ_resolution = 1\<rparr>)\<rparr>"

definition sample_node_env :: "((unit, local_map, unit) lc_builder, valuesT, PoseNode list) slam_env" where
  "sample_node_env = \<lparr>se_orch = sample_slam, se_renderer = list_renderer,
     se_cfg = \<lparr>nc_use_gnss = False, nc_skip_rendering = False, nc_publish_hz = 1, nc_noise_filter = True\<rparr>\<rparr>"


end
