(* ===== verification/SerialComm.thy ===== *)
theory SerialComm
  imports Prelude
begin

unbundle bit_operations_syntax

text \<open>
  \<^verbatim>\<open>mg_drivers/base/serial_communicator2\<close>: the serial port and the framing of its messages.

  The operating system is a parameter of the model: an \<open>os_env\<close> says what each call returns,
  as a function of the calls made so far.  Every call is appended to the port's log, so that
  statements about descriptors (none is leaked, none is used after it was closed) are statements
  about the log.  The terminal settings passed to \<^verbatim>\<open>tcsetattr\<close> are not modelled.
\<close>

section \<open>Calls of the operating system\<close>

datatype flush_queue = TCIFLUSH | TCOFLUSH

datatype os_call =
    OsOpen int
  | OsTcsetattr int bool
  | OsFcntl int bool
  | OsFlush int flush_queue
  | OsClose int
  | OsAccess bool
  | OsWrite int bytes int
  | OsRead int "bytes option"

text \<open>The latest call is the head of a log.\<close>

type_synonym os_log = "os_call list"

record os_env =
  env_open :: "os_log \<Rightarrow> int"
  env_tcsetattr_fails :: "os_log \<Rightarrow> bool"
  env_fcntl_fails :: "os_log \<Rightarrow> bool"
  env_access :: "os_log \<Rightarrow> bool"
  env_write :: "os_log \<Rightarrow> bytes \<Rightarrow> int"
  env_read :: "os_log \<Rightarrow> bytes option"

section \<open>The port\<close>

record port =
  fd1 :: int
  port_device_name :: string
  is_open_serial :: bool
  os_calls :: os_log

definition emit :: "os_call \<Rightarrow> port \<Rightarrow> port" where
  "emit c p = p\<lparr>os_calls := c # os_calls p\<rparr>"

definition open_serial :: "os_env \<Rightarrow> port \<Rightarrow> port" where
  "open_serial env p =
     (let fd = env_open env (os_calls p);
          p = emit (OsOpen fd) p
      in if fd = -1 then p\<lparr>is_open_serial := False\<rparr>
         else
           let bad = env_tcsetattr_fails env (os_calls p);
               p = emit (OsTcsetattr fd (\<not> bad)) p
           in if bad then (emit (OsClose fd) p)\<lparr>is_open_serial := False\<rparr>
              else
                let p = emit (OsFlush fd TCIFLUSH) p;
                    p = p\<lparr>fd1 := fd\<rparr>;
                    bad = env_fcntl_fails env (os_calls p);
                    p = emit (OsFcntl fd (\<not> bad)) p
                in if bad then (emit (OsClose (fd1 p)) p)\<lparr>is_open_serial := False\<rparr>
                   else p\<lparr>is_open_serial := True\<rparr>)"

definition SerialCommunicator2 :: "os_env \<Rightarrow> string \<Rightarrow> port" where
  "SerialCommunicator2 env name =
     open_serial env \<lparr>fd1 = -1, port_device_name = name, is_open_serial = False, os_calls = []\<rparr>"

definition close_serial :: "port \<Rightarrow> port" where
  "close_serial p =
     (let p = (if is_open_serial p then emit (OsClose (fd1 p)) p else p)
      in p\<lparr>fd1 := -1, is_open_serial := False\<rparr>)"

definition is_device_present :: "os_env \<Rightarrow> port \<Rightarrow> bool \<times> port" where
  "is_device_present env p =
     (let r = env_access env (os_calls p) in (r, emit (OsAccess r) p))"

definition reset_serial :: "os_env \<Rightarrow> port \<Rightarrow> port" where
  "reset_serial env p = open_serial env (close_serial p)"

definition serial_write :: "os_env \<Rightarrow> bytes \<Rightarrow> bool \<Rightarrow> bool \<Rightarrow> port \<Rightarrow> int \<times> port" where
  "serial_write env buf input_flush output_flush p =
     (if \<not> is_open_serial p then (-1, p)
      else
        let p = (if output_flush then emit (OsFlush (fd1 p) TCOFLUSH) p else p);
            p = (if input_flush then emit (OsFlush (fd1 p) TCIFLUSH) p else p);
            r = env_write env (os_calls p) buf
        in (r, emit (OsWrite (fd1 p) buf r) p))"

definition serial_read :: "os_env \<Rightarrow> port \<Rightarrow> bytes \<times> port" where
  "serial_read env p =
     (if \<not> is_open_serial p then ([], p)
      else
        let r = map_option (take 64) (env_read env (os_calls p));
            p = emit (OsRead (fd1 p) r) p
        in (case r of None \<Rightarrow> ([], p) | Some bs \<Rightarrow> (bs, p)))"

definition serial_readwrite :: "os_env \<Rightarrow> bytes \<Rightarrow> bool \<Rightarrow> bool \<Rightarrow> port \<Rightarrow> bytes \<times> port" where
  "serial_readwrite env buf input_flush output_flush p =
     serial_read env (snd (serial_write env buf input_flush output_flush p))"

section \<open>Frames\<close>

datatype SerialError =
    NO_ERROR | WRITE_ERROR | RECEIVE_SIZE_ERROR | INVALID_HEADER | CHECKSUM_ERROR | OTHER_ERROR

definition calc_checksum :: "bytes \<Rightarrow> u8" where
  "calc_checksum buf = foldl (+) 0 buf"

text \<open>
  The comparison of the received bytes with the header, position by position; \<open>None\<close> when it
  reads past the end of the received bytes.
\<close>

fun header_matches :: "bytes \<Rightarrow> bytes \<Rightarrow> bool option" where
  "header_matches ret [] = Some True"
| "header_matches [] (h # hs) = None"
| "header_matches (r # rs) (h # hs) = (if r \<noteq> h then Some False else header_matches rs hs)"

definition check_error :: "bytes \<Rightarrow> bytes \<Rightarrow> int \<Rightarrow> SerialError option" where
  "check_error ret header sz =
     (if int (length ret) \<noteq> sz then Some RECEIVE_SIZE_ERROR
      else
        (case header_matches ret header of
           None \<Rightarrow> None
         | Some False \<Rightarrow> Some INVALID_HEADER
         | Some True \<Rightarrow>
             if ret = [] then None
             else if calc_checksum (butlast ret) \<noteq> last ret then Some CHECKSUM_ERROR
             else Some NO_ERROR))"

text \<open>
  \<^verbatim>\<open>encode<T>\<close>: the bytes of an integer, most significant first.  It is used at \<^verbatim>\<open>int16_t\<close>,
  so the shift is arithmetic.
\<close>

definition encode :: "'a::len word \<Rightarrow> bytes" where
  "encode data =
     (let s = LENGTH('a) div 8
      in map (\<lambda>i. ucast (signed_drop_bit (8 * (s - i - 1)) data)) [0..<s])"

fun decode_loop :: "nat \<Rightarrow> 'a::len word \<Rightarrow> bytes \<Rightarrow> 'a word" where
  "decode_loop i ret [] = ret"
| "decode_loop i ret (b # bs) = decode_loop (Suc i) (ret OR push_bit (8 * i) (ucast b)) bs"

text \<open>
  \<^verbatim>\<open>decode<T>\<close>: the reverse.  The empty buffer (\<^verbatim>\<open>buf[0]\<close>) and a buffer longer than the type
  (a shift past its width) are undefined.
\<close>

definition decode :: "bytes \<Rightarrow> 'a::len word option" where
  "decode buf =
     (case rev buf of
        [] \<Rightarrow> None
      | b # bs \<Rightarrow>
          if LENGTH('a) < 8 * length buf then None
          else Some (decode_loop 1 (ucast b) bs))"

section \<open>Descriptors\<close>

text \<open>The descriptors a log leaves open.\<close>

fun open_fds :: "os_log \<Rightarrow> int set" where
  "open_fds [] = {}"
| "open_fds (OsOpen fd # cs) = (if fd = -1 then open_fds cs else insert fd (open_fds cs))"
| "open_fds (OsClose fd # cs) = open_fds cs - {fd}"
| "open_fds (_ # cs) = open_fds cs"

text \<open>The descriptor a call uses.\<close>

fun used_fd :: "os_call \<Rightarrow> int option" where
  "used_fd (OsTcsetattr fd _) = Some fd"
| "used_fd (OsFcntl fd _) = Some fd"
| "used_fd (OsFlush fd _) = Some fd"
| "used_fd (OsClose fd) = Some fd"
| "used_fd (OsWrite fd _ _) = Some fd"
| "used_fd (OsRead fd _) = Some fd"
| "used_fd _ = None"

text \<open>Every call of the log uses a descriptor that was open at that moment.\<close>

fun fds_used_open :: "os_log \<Rightarrow> bool" where
  "fds_used_open [] = True"
| "fds_used_open (c # cs) =
     ((case used_fd c of None \<Rightarrow> True | Some fd \<Rightarrow> fd \<in> open_fds cs) \<and> fds_used_open cs)"

text \<open>POSIX: \<^verbatim>\<open>open\<close> fails with \<open>-1\<close> or returns a descriptor that is not in use.\<close>

definition fresh_fds :: "os_env \<Rightarrow> bool" where
  "fresh_fds env \<longleftrightarrow>
     (\<forall>cs. env_open env cs = -1 \<or> 0 \<le> env_open env cs \<and> env_open env cs \<notin> open_fds cs)"

text \<open>The states of a port: constructed, then any sequence of its operations.\<close>

inductive port_reachable :: "os_env \<Rightarrow> port \<Rightarrow> bool" for env where
  constructed: "port_reachable env (SerialCommunicator2 env name)"
| closed: "port_reachable env p \<Longrightarrow> port_reachable env (close_serial p)"
| reset: "port_reachable env p \<Longrightarrow> port_reachable env (reset_serial env p)"
| accessed: "port_reachable env p \<Longrightarrow> port_reachable env (snd (is_device_present env p))"
| written: "port_reachable env p \<Longrightarrow> port_reachable env (snd (serial_write env buf i o' p))"
| read: "port_reachable env p \<Longrightarrow> port_reachable env (snd (serial_read env p))"

text \<open>The descriptor invariant: exactly the port's descriptor is open, and only while it is open.\<close>

definition port_inv :: "port \<Rightarrow> bool" where
  "port_inv p \<longleftrightarrow>
     open_fds (os_calls p) = (if is_open_serial p then {fd1 p} else {}) \<and>
     fds_used_open (os_calls p)"

lemma os_calls_emit [simp, os_simps]:
  "os_calls (emit c p) = c # os_calls p"
  "fd1 (emit c p) = fd1 p"
  "is_open_serial (emit c p) = is_open_serial p"
  "port_device_name (emit c p) = port_device_name p"
  by (simp_all add: emit_def)

lemma open_serial_inv:
  assumes "fresh_fds env" and "port_inv p" and "\<not> is_open_serial p"
  shows "port_inv (open_serial env p)"
  using assms by (auto simp: port_inv_def open_serial_def Let_def fresh_fds_def)

lemma close_serial_inv: "port_inv p \<Longrightarrow> port_inv (close_serial p)"
  by (auto simp: port_inv_def close_serial_def Let_def)

lemma close_serial_closed [simp]: "\<not> is_open_serial (close_serial p)"
  by (simp add: close_serial_def Let_def)

lemma reset_serial_inv: "fresh_fds env \<Longrightarrow> port_inv p \<Longrightarrow> port_inv (reset_serial env p)"
  by (simp add: reset_serial_def open_serial_inv close_serial_inv)

lemma is_device_present_inv: "port_inv p \<Longrightarrow> port_inv (snd (is_device_present env p))"
  by (auto simp: port_inv_def is_device_present_def Let_def)

lemma serial_write_inv: "port_inv p \<Longrightarrow> port_inv (snd (serial_write env buf i o' p))"
  by (auto simp: port_inv_def serial_write_def Let_def)

lemma serial_read_inv: "port_inv p \<Longrightarrow> port_inv (snd (serial_read env p))"
  by (auto simp: port_inv_def serial_read_def Let_def split: option.splits)

lemmas port_op_inv = close_serial_inv reset_serial_inv is_device_present_inv serial_write_inv
  serial_read_inv

lemma port_reachable_inv: "port_reachable env p \<Longrightarrow> fresh_fds env \<Longrightarrow> port_inv p"
proof (induction rule: port_reachable.induct)
  case (constructed name)
  then show ?case
    unfolding SerialCommunicator2_def by (intro open_serial_inv) (auto simp: port_inv_def)
qed (auto intro: port_op_inv)

section \<open>Lemmas on frames\<close>

lemma calc_checksum_sum_list: "calc_checksum buf = sum_list buf"
proof -
  have "foldl (+) a buf = a + sum_list buf" for a :: u8
    by (induction buf arbitrary: a) (auto simp: algebra_simps)
  then show ?thesis by (simp add: calc_checksum_def)
qed

lemma calc_checksum_append [simp]: "calc_checksum (xs @ ys) = calc_checksum xs + calc_checksum ys"
  by (simp add: calc_checksum_sum_list)

lemma calc_checksum_update:
  "i < length xs \<Longrightarrow> calc_checksum (xs[i := b]) = calc_checksum xs - xs ! i + b"
  unfolding calc_checksum_sum_list
  by (induction xs arbitrary: i) (auto simp: algebra_simps split: nat.splits)

lemma header_matches_True_iff:
  "header_matches ret hs = Some True \<longleftrightarrow> take (length hs) ret = hs"
  by (induction ret hs rule: header_matches.induct) auto

lemma header_matches_defined: "length hs \<le> length ret \<Longrightarrow> header_matches ret hs \<noteq> None"
  by (induction ret hs rule: header_matches.induct) auto

lemma check_error_ok_iff:
  "check_error ret hs sz = Some NO_ERROR \<longleftrightarrow>
     int (length ret) = sz \<and> take (length hs) ret = hs \<and> ret \<noteq> [] \<and>
     calc_checksum (butlast ret) = last ret"
  by (auto simp: check_error_def header_matches_True_iff [symmetric] split: option.splits bool.splits)

lemma check_error_defined:
  "0 < length ret \<Longrightarrow> length hs \<le> length ret \<Longrightarrow> check_error ret hs sz \<noteq> None"
  using header_matches_defined [of hs ret]
  by (auto simp: check_error_def split: option.splits bool.splits)

lemma checksum_update_differs:
  assumes "ret \<noteq> []" "calc_checksum (butlast ret) = last ret" "i < length ret" "b \<noteq> ret ! i"
  shows "calc_checksum (butlast (ret[i := b])) \<noteq> last (ret[i := b])"
proof -
  obtain xs x where ret: "ret = xs @ [x]" using assms(1) by (metis rev_exhaust)
  show ?thesis
  proof (cases "i < length xs")
    case True
    then have "calc_checksum (xs[i := b]) = x - xs ! i + b"
      using assms(2) ret by (simp add: calc_checksum_update)
    with True assms(4) ret show ?thesis by (auto simp: list_update_append nth_append)
  next
    case False
    with assms(3) ret have "i = length xs" by simp
    with assms(2,4) ret show ?thesis by (simp add: list_update_append)
  qed
qed

text \<open>Bits of the decoding loop.\<close>

lemma bit_decode_loop:
  "bit (decode_loop i (ret :: 'a::len word) bs) n \<longleftrightarrow>
     bit ret n \<or>
     (\<exists>k < length bs. n < LENGTH('a) \<and> 8 * (i + k) \<le> n \<and> bit (bs ! k) (n - 8 * (i + k)))"
proof (induction bs arbitrary: i ret)
  case Nil
  then show ?case by simp
next
  case (Cons b bs)
  have step: "bit (ret OR push_bit (8 * i) (ucast b)) n \<longleftrightarrow>
    bit ret n \<or> n < LENGTH('a) \<and> 8 * i \<le> n \<and> bit b (n - 8 * i)"
    by (auto simp: bit_or_iff bit_push_bit_iff bit_ucast_iff bit_imp_le_length)
  show ?case
    unfolding decode_loop.simps Cons.IH step
    by (auto simp: Ex_less_Suc2 add.left_commute add.assoc)
qed

lemma rev_encode:
  "rev (encode (w :: 'a::len word)) =
     map (\<lambda>j. ucast (signed_drop_bit (8 * j) w)) [0..<LENGTH('a) div 8]"
  by (rule nth_equalityI) (auto simp: encode_def Let_def rev_nth)

lemma length_encode [simp]: "length (encode (w :: 'a::len word)) = LENGTH('a) div 8"
  by (simp add: encode_def Let_def)

lemma bit_encode_byte:
  "m < 8 \<Longrightarrow> 8 * j + m < LENGTH('a) \<Longrightarrow>
     bit (ucast (signed_drop_bit (8 * j) (w :: 'a::len word)) :: u8) m \<longleftrightarrow> bit w (8 * j + m)"
  by (auto simp: bit_ucast_iff bit_signed_drop_bit_iff)

lemma decode_encode:
  assumes "8 dvd LENGTH('a)"
  shows "decode (encode w) = Some (w :: 'a::len word)"
proof -
  let ?byte = "\<lambda>j. ucast (signed_drop_bit (8 * j) w) :: u8"
  obtain s where s: "LENGTH('a) = 8 * Suc s"
    using assms by (metis dvd_def len_gt_0 mult_0_right nat.exhaust less_irrefl)
  define bs where "bs = map ?byte [1..<Suc s]"
  have len: "length bs = s" and nth: "\<And>k. k < s \<Longrightarrow> bs ! k = ?byte (1 + k)"
    by (simp_all add: bs_def del: upt_Suc)
  have r: "rev (encode w) = ?byte 0 # bs"
    unfolding rev_encode bs_def using s upt_conv_Cons [of 0 "Suc s"] by (simp del: upt_Suc)
  have "decode_loop 1 (ucast (?byte 0)) bs = w"
  proof (rule bit_word_eqI)
    fix n assume n: "n < LENGTH('a)"
    have eq: "bit (?byte (n div 8)) (n mod 8) \<longleftrightarrow> bit w n"
      using n by (subst bit_encode_byte) auto
    have small: "bit (?byte j) m \<Longrightarrow> m < 8" for j m
      using bit_imp_le_length [of "?byte j" m] by simp
    have "bit (decode_loop 1 (ucast (?byte 0) :: 'a word) bs) n \<longleftrightarrow>
      bit (?byte 0) n \<or> (\<exists>k < s. 8 * (1 + k) \<le> n \<and> bit (?byte (1 + k)) (n - 8 * (1 + k)))"
      unfolding bit_decode_loop len using n nth by (auto simp: bit_ucast_iff)
    also have "\<dots> \<longleftrightarrow> bit (?byte (n div 8)) (n mod 8)"
    proof (cases "n div 8")
      case 0
      then show ?thesis by auto
    next
      case (Suc k)
      define m where "m = n mod 8"
      have split: "n = 8 * Suc k + m" and bound: "m < 8"
        using Suc div_mult_mod_eq [of n 8] by (simp_all add: m_def)
      have "8 * Suc k < 8 * Suc s" using split n s by linarith
      then have "k < s" by simp
      moreover have "n - 8 * (1 + k') < 8 \<Longrightarrow> 8 * (1 + k') \<le> n \<Longrightarrow> k' = k" for k'
        using split bound by presburger
      moreover have "n mod 8 = n - 8 * (1 + k)" and "8 * (1 + k) \<le> n" and "\<not> n < 8"
        unfolding m_def [symmetric] using split by simp_all
      ultimately show ?thesis using Suc small by (metis plus_1_eq_Suc)
    qed
    finally show "bit (decode_loop 1 (ucast (?byte 0) :: 'a word) bs) n \<longleftrightarrow> bit w n"
      using eq by simp
  qed
  with r s len show ?thesis by (simp add: decode_def)
qed

section \<open>Properties\<close>

text \<open>
  The port never leaks, reuses or doubly closes a descriptor: after any sequence of
  operations the only descriptor left open is the port's own, it is open exactly while
  \<^verbatim>\<open>is_open_serial_\<close> holds, and every read, write, flush and close was on a descriptor open at
  that moment.
\<close>

theorem port_descriptors:
  assumes "port_reachable env p" and "fresh_fds env"
  shows "open_fds (os_calls p) = (if is_open_serial p then {fd1 p} else {}) \<and>
    fds_used_open (os_calls p)"
  using port_reachable_inv [OF assms] by (simp add: port_inv_def)

text \<open>
  An operating system for the witnesses: descriptor 3 while nothing is open, every other call
  succeeds, and \<open>reply\<close> is what a read returns.
\<close>

definition sample_env :: "bytes \<Rightarrow> os_env" where
  "sample_env reply = \<lparr>env_open = (\<lambda>cs. if open_fds cs = {} then 3 else -1),
     env_tcsetattr_fails = (\<lambda>_. False), env_fcntl_fails = (\<lambda>_. False), env_access = (\<lambda>_. True),
     env_write = (\<lambda>_ buf. int (length buf)), env_read = (\<lambda>_. Some reply)\<rparr>"

lemma sample_env_fresh: "fresh_fds (sample_env reply)"
  by (auto simp: fresh_fds_def sample_env_def)

lemmas port_op_defs = open_serial_def SerialCommunicator2_def close_serial_def reset_serial_def
  is_device_present_def serial_write_def serial_read_def serial_readwrite_def emit_def

theorem port_descriptors_witness:
  "open_fds (os_calls (reset_serial (sample_env []) (SerialCommunicator2 (sample_env []) ''tty'')))
     = {3} \<and>
   fds_used_open
     (os_calls (reset_serial (sample_env []) (SerialCommunicator2 (sample_env []) ''tty'')))"
proof -
  let ?p = "reset_serial (sample_env []) (SerialCommunicator2 (sample_env []) ''tty'')"
  have "port_reachable (sample_env []) ?p"
    by (intro port_reachable.intros)
  moreover have "is_open_serial ?p" and "fd1 ?p = 3"
    by (simp_all add: port_op_defs sample_env_def)
  ultimately show ?thesis using port_descriptors [of "sample_env []" ?p] sample_env_fresh by auto
qed

text \<open>
  Decoding undoes encoding: for every integer type whose width is a whole number of bytes,
  the bytes \<^verbatim>\<open>encode\<close> writes are read back by \<^verbatim>\<open>decode\<close> as the same integer, negative values
  included.
\<close>

theorem decode_encode_roundtrip:
  "8 dvd LENGTH('a) \<Longrightarrow> decode (encode w) = Some (w :: 'a::len word)"
  by (rule decode_encode)

theorem decode_encode_roundtrip_witness:
  "decode (encode (- 2 :: u16)) = Some (- 2 :: u16) \<and> encode (- 2 :: u16) = [0xFF, 0xFE]"
proof -
  have "8 dvd LENGTH(16)" by simp
  moreover have "encode (- 2 :: u16) = [0xFF, 0xFE]" by code_simp
  ultimately show ?thesis using decode_encode_roundtrip [of "- 2 :: u16"] by simp
qed

text \<open>
  A received frame is accepted exactly when it has the announced length, starts with the
  header and ends with the sum (modulo 256) of the other bytes; and no frame whose length covers
  the header makes the check read out of range.
\<close>

theorem check_error_spec:
  assumes "0 < length ret" and "length hs \<le> length ret"
  shows "check_error ret hs sz \<noteq> None \<and>
    (check_error ret hs sz = Some NO_ERROR \<longleftrightarrow>
       int (length ret) = sz \<and> take (length hs) ret = hs \<and>
       sum_list (butlast ret) = last ret)"
  using assms check_error_defined [OF assms]
  by (simp add: check_error_ok_iff calc_checksum_sum_list)

theorem check_error_spec_witness:
  "check_error [0x96, 0x47, 0x01, 0xDE] [0x96, 0x47] 4 = Some NO_ERROR"
proof -
  have "0 < length [0x96, 0x47, 0x01, 0xDE :: u8]"
    and "length [0x96, 0x47 :: u8] \<le> length [0x96, 0x47, 0x01, 0xDE :: u8]" by simp_all
  from check_error_spec [OF this, of 4] show ?thesis by simp
qed

text \<open>
  C35. The checksum catches every corruption of a single byte: a frame that was accepted is
  rejected, with a header or a checksum error, once any one of its bytes is changed.
\<close>

theorem single_byte_corruption_detected:
  assumes "check_error ret hs sz = Some NO_ERROR" and "i < length ret" and "b \<noteq> ret ! i"
  shows "check_error (ret[i := b]) hs sz = Some INVALID_HEADER \<or>
    check_error (ret[i := b]) hs sz = Some CHECKSUM_ERROR"
proof -
  from assms(1) have ok: "int (length ret) = sz" "take (length hs) ret = hs" "ret \<noteq> []"
    "calc_checksum (butlast ret) = last ret" by (auto simp: check_error_ok_iff)
  have "length hs \<le> length ret" using ok(2) by (metis length_take min.cobounded1)
  then have "header_matches (ret[i := b]) hs \<noteq> None"
    by (intro header_matches_defined) simp
  with checksum_update_differs [OF ok(3,4) assms(2,3)] ok show ?thesis
    by (auto simp: check_error_def split: bool.splits)
qed

theorem single_byte_corruption_detected_witness:
  "check_error ([0x96, 0x47, 0x01, 0xDE][2 := 0x03]) [0x96, 0x47] 4 = Some CHECKSUM_ERROR"
proof -
  have "check_error [0x96, 0x47, 0x01, 0xDE] [0x96, 0x47] 4 = Some NO_ERROR"
    by (simp add: check_error_def calc_checksum_def)
  from single_byte_corruption_detected [OF this, of 2 3] show ?thesis
    by (simp add: check_error_def calc_checksum_def)
qed

end
