(* ===== verification/SerialDriver.thy ===== *)
theory SerialDriver
  imports SerialComm EventFormat
begin

text \<open>
  \<^verbatim>\<open>mg_drivers/base/serial_device\<close> and \<^verbatim>\<open>mg_drivers/base/serial_driver_node\<close>: the device
  interface, and the node that counts communication errors, reopens the port, publishes the
  connection state and logs its changes.

  A device is a record of the virtual functions of \<^verbatim>\<open>SerialDevice\<close> over a device state.  The
  node's functions work on the pair of the device and the node; \<^verbatim>\<open>device_ == nullptr\<close> is the case
  \<open>None\<close> of the functions that test for it.  What the node publishes and logs is appended to
  \<open>outputs\<close>.
\<close>

section \<open>The device interface\<close>

record 'd serial_device =
  dev_is_alive :: "'d \<Rightarrow> bool"
  dev_is_present :: "'d \<Rightarrow> bool \<times> 'd"
  dev_close_serial :: "'d \<Rightarrow> 'd"
  dev_reset_serial :: "'d \<Rightarrow> 'd"
  dev_probe :: "'d \<Rightarrow> SerialError \<times> 'd"

text \<open>
  \<^verbatim>\<open>SerialDevice\<close> over a \<open>port\<close>; the derived class supplies \<open>probe\<close>.
\<close>

definition port_device ::
  "os_env \<Rightarrow> (os_env \<Rightarrow> port \<Rightarrow> SerialError \<times> port) \<Rightarrow> port serial_device" where
  "port_device env probe =
     \<lparr>dev_is_alive = is_open_serial, dev_is_present = is_device_present env,
      dev_close_serial = close_serial, dev_reset_serial = reset_serial env,
      dev_probe = probe env\<rparr>"

section \<open>The node\<close>

datatype event_level = EvInfo | EvWarn | EvError

datatype node_output =
    LogEvent event_level string "event_field list"
  | PublishConnected bool

record driver_node =
  device_label :: string
  error_recovery_count :: int
  consecutive_errors :: int
  reset_attempts :: int
  disconnect_count :: int
  last_connected :: "bool option"
  outputs :: "node_output list"

definition SerialDriverNode :: "string \<Rightarrow> int \<Rightarrow> driver_node" where
  "SerialDriverNode param_prefix recovery_count =
     \<lparr>device_label = param_prefix, error_recovery_count = recovery_count, consecutive_errors = 0,
      reset_attempts = 0, disconnect_count = 0, last_connected = None, outputs = []\<rparr>"

definition put_out :: "node_output \<Rightarrow> driver_node \<Rightarrow> driver_node" where
  "put_out x n = n\<lparr>outputs := outputs n @ [x]\<rparr>"

definition reset_device ::
  "'d serial_device \<Rightarrow> string \<Rightarrow> 'd \<times> driver_node \<Rightarrow> 'd \<times> driver_node" where
  "reset_device ops reason = (\<lambda>(d, n).
     let n = n\<lparr>reset_attempts := reset_attempts n + 1\<rparr>;
         n = (if reset_attempts n = 1 \<or> reset_attempts n mod 10 = 0
              then put_out (LogEvent EvWarn ''driver.reconnect_attempt''
                     [(''device'', EvString (device_label n)), (''reason'', EvString reason),
                      (''count'', EvInt (reset_attempts n))]) n
              else n)
     in (dev_reset_serial ops d, n))"

definition handle_serial_error ::
  "'d serial_device \<Rightarrow> SerialError \<Rightarrow> 'd \<times> driver_node \<Rightarrow> 'd \<times> driver_node" where
  "handle_serial_error ops err = (\<lambda>(d, n).
     if err = NO_ERROR then (d, n\<lparr>consecutive_errors := 0\<rparr>)
     else
       let n = n\<lparr>consecutive_errors := consecutive_errors n + 1\<rparr>
       in if consecutive_errors n = error_recovery_count n
          then reset_device ops ''consecutive errors'' (d, n)
          else (d, n))"

definition disconnect_reason ::
  "'d serial_device \<Rightarrow> driver_node \<Rightarrow> 'd option \<Rightarrow> string \<times> 'd option" where
  "disconnect_reason ops n dev =
     (case dev of
        None \<Rightarrow> (''device not set'', None)
      | Some d \<Rightarrow>
          let (present, d) = dev_is_present ops d
          in (if \<not> present then ''device missing''
              else if \<not> dev_is_alive ops d then ''port closed''
              else if consecutive_errors n > 0 then ''communication errors''
              else '''', Some d))"

definition is_connected :: "'d serial_device \<Rightarrow> driver_node \<Rightarrow> 'd \<Rightarrow> bool \<times> 'd" where
  "is_connected ops n d =
     (if \<not> dev_is_alive ops d then (False, d)
      else
        let (present, d) = dev_is_present ops d
        in (present \<and> consecutive_errors n = 0, d))"

definition probe_connection ::
  "'d serial_device \<Rightarrow> 'd \<times> driver_node \<Rightarrow> 'd \<times> driver_node" where
  "probe_connection ops = (\<lambda>(d, n).
     if \<not> dev_is_alive ops d then (d, n)
     else let (err, d) = dev_probe ops d in handle_serial_error ops err (d, n))"

text \<open>The first part of \<^verbatim>\<open>health_check\<close>: close, reopen or probe the device.\<close>

definition recover_connection ::
  "'d serial_device \<Rightarrow> 'd \<times> driver_node \<Rightarrow> 'd \<times> driver_node" where
  "recover_connection ops = (\<lambda>(d, n).
     let (present, d) = dev_is_present ops d
     in if \<not> present then
          (if dev_is_alive ops d then dev_close_serial ops d else d, n)
        else if \<not> dev_is_alive ops d \<or> consecutive_errors n \<ge> error_recovery_count n then
          probe_connection ops
            (reset_device ops
               (if dev_is_alive ops d then ''consecutive errors'' else ''port closed'') (d, n))
        else if consecutive_errors n > 0 then probe_connection ops (d, n)
        else (d, n))"

text \<open>The second part: compare with the last published state, log the change, publish.\<close>

definition report_connection ::
  "'d serial_device \<Rightarrow> 'd \<times> driver_node \<Rightarrow> 'd \<times> driver_node" where
  "report_connection ops = (\<lambda>(d, n).
     let (connected, d) = is_connected ops n d;
         (d, n) =
           (if last_connected n = None \<or> the (last_connected n) \<noteq> connected then
              (if connected then
                 let n = put_out (LogEvent EvInfo ''driver.connected''
                       [(''device'', EvString (device_label n)),
                        (''after_attempts'', EvInt (reset_attempts n))]) n
                 in (d, n\<lparr>reset_attempts := 0\<rparr>)
               else
                 let n = n\<lparr>disconnect_count := disconnect_count n + 1\<rparr>;
                     (reason, dev) = disconnect_reason ops n (Some d)
                 in (the dev, put_out (LogEvent EvError ''driver.disconnected''
                       [(''device'', EvString (device_label n)), (''reason'', EvString reason)]) n))
            else (d, n));
         n = n\<lparr>last_connected := Some connected\<rparr>
     in (d, put_out (PublishConnected connected) n))"

definition health_check ::
  "'d serial_device \<Rightarrow> 'd option \<times> driver_node \<Rightarrow> 'd option \<times> driver_node" where
  "health_check ops = (\<lambda>(dev, n).
     case dev of
       None \<Rightarrow> (None, n)
     | Some d \<Rightarrow>
         let (d, n) = report_connection ops (recover_connection ops (d, n)) in (Some d, n))"

section \<open>Diagnostics\<close>

datatype diag_level = DiagOk | DiagWarn | DiagError
datatype diag_value = DiagInt int | DiagBool bool

record diagnostic_status =
  diag_level :: diag_level
  diag_message :: string
  diag_values :: "(string \<times> diag_value) list"

definition produce_connection_diagnostics ::
  "'d serial_device \<Rightarrow> driver_node \<Rightarrow> 'd option \<Rightarrow> diagnostic_status \<times> 'd option" where
  "produce_connection_diagnostics ops n dev =
     (case dev of
        None \<Rightarrow>
          (\<lparr>diag_level = DiagWarn, diag_message = ''device not set'', diag_values = []\<rparr>, None)
      | Some d \<Rightarrow>
          let (connected, d) = is_connected ops n d;
              (lvl, msg, dev) =
                (if connected then (DiagOk, ''connected'', Some d)
                 else let (reason, dev) = disconnect_reason ops n (Some d)
                      in (DiagError, reason, dev));
              (present, d) = dev_is_present ops (the dev)
          in (\<lparr>diag_level = lvl, diag_message = msg,
               diag_values =
                 [(''consecutive_errors'', DiagInt (consecutive_errors n)),
                  (''device_present'', DiagBool present),
                  (''reconnect_attempts'', DiagInt (reset_attempts n)),
                  (''disconnect_count'', DiagInt (disconnect_count n))]\<rparr>, Some d))"

section \<open>Runs of the node\<close>

text \<open>What drives a node: a communication result of the derived class, and the 1 Hz timer.\<close>

datatype node_event = CommResult SerialError | HealthTick

fun node_step ::
  "'d serial_device \<Rightarrow> 'd \<times> driver_node \<Rightarrow> node_event \<Rightarrow> 'd \<times> driver_node" where
  "node_step ops dn (CommResult err) = handle_serial_error ops err dn"
| "node_step ops dn HealthTick = report_connection ops (recover_connection ops dn)"

definition node_run ::
  "'d serial_device \<Rightarrow> 'd \<times> driver_node \<Rightarrow> node_event list \<Rightarrow> 'd \<times> driver_node" where
  "node_run ops dn evs = foldl (node_step ops) dn evs"

text \<open>The connection flags published, and the connection changes logged, in order.\<close>

definition published :: "node_output list \<Rightarrow> bool list" where
  "published os = List.map_filter (\<lambda>x. case x of PublishConnected b \<Rightarrow> Some b | _ \<Rightarrow> None) os"

definition logged_changes :: "node_output list \<Rightarrow> bool list" where
  "logged_changes os =
     List.map_filter
       (\<lambda>x. case x of
          LogEvent _ name _ \<Rightarrow>
            if name = ''driver.connected'' then Some True
            else if name = ''driver.disconnected'' then Some False else None
        | _ \<Rightarrow> None) os"

text \<open>What the node's counters say about its outputs.\<close>

definition node_inv :: "driver_node \<Rightarrow> bool" where
  "node_inv n \<longleftrightarrow>
     0 \<le> consecutive_errors n \<and> 0 \<le> reset_attempts n \<and>
     logged_changes (outputs n) = remdups_adj (published (outputs n)) \<and>
     disconnect_count n = int (count_list (logged_changes (outputs n)) False) \<and>
     last_connected n =
       (if published (outputs n) = [] then None else Some (last (published (outputs n))))"

text \<open>Every event of the node is one the formatter accepts.\<close>

definition events_ok :: "driver_node \<Rightarrow> bool" where
  "events_ok n \<longleftrightarrow>
     list_all (\<lambda>x. case x of
        LogEvent _ nm fs \<Rightarrow> \<not> isl (FormatEvent nm fs) | _ \<Rightarrow> True) (outputs n)"

section \<open>Lemmas\<close>

lemma put_out_simps [simp]:
  "outputs (put_out x n) = outputs n @ [x]"
  "device_label (put_out x n) = device_label n"
  "error_recovery_count (put_out x n) = error_recovery_count n"
  "consecutive_errors (put_out x n) = consecutive_errors n"
  "reset_attempts (put_out x n) = reset_attempts n"
  "disconnect_count (put_out x n) = disconnect_count n"
  "last_connected (put_out x n) = last_connected n"
  by (simp_all add: put_out_def)

lemma published_simps [simp]:
  "published [] = []"
  "published (PublishConnected b # xs) = b # published xs"
  "published (LogEvent l nm f # xs) = published xs"
  by (simp_all add: published_def)

lemma published_append [simp]: "published (xs @ ys) = published xs @ published ys"
  by (simp add: published_def List.map_filter_def)

lemma logged_changes_simps [simp]:
  "logged_changes [] = []"
  "logged_changes (PublishConnected b # xs) = logged_changes xs"
  "logged_changes (LogEvent l nm f # xs) =
     (if nm = ''driver.connected'' then True # logged_changes xs
      else if nm = ''driver.disconnected'' then False # logged_changes xs
      else logged_changes xs)"
  by (simp_all add: logged_changes_def)

lemma logged_changes_append [simp]:
  "logged_changes (xs @ ys) = logged_changes xs @ logged_changes ys"
  unfolding logged_changes_def List.map_filter_def by simp

lemma remdups_adj_snoc:
  "remdups_adj (xs @ [x]) =
     (if xs \<noteq> [] \<and> last xs = x then remdups_adj xs else remdups_adj xs @ [x])"
  by (induction xs rule: remdups_adj.induct) auto

lemma reset_device_inv: "node_inv n \<Longrightarrow> node_inv (snd (reset_device ops r (d, n)))"
  by (auto simp: reset_device_def node_inv_def Let_def)

lemma count_error_inv:
  "node_inv n \<Longrightarrow> node_inv (n\<lparr>consecutive_errors := consecutive_errors n + 1\<rparr>)"
  "node_inv n \<Longrightarrow> node_inv (n\<lparr>consecutive_errors := 0\<rparr>)"
  by (simp_all add: node_inv_def)

lemma handle_serial_error_inv:
  "node_inv (snd dn) \<Longrightarrow> node_inv (snd (handle_serial_error ops err dn))"
  by (cases dn)
    (auto simp: handle_serial_error_def Let_def count_error_inv
      intro!: reset_device_inv dest: count_error_inv(1))

lemma probe_connection_inv: "node_inv (snd dn) \<Longrightarrow> node_inv (snd (probe_connection ops dn))"
  by (cases dn) (auto simp: probe_connection_def Let_def handle_serial_error_inv split: prod.splits)

lemma recover_connection_inv:
  "node_inv (snd dn) \<Longrightarrow> node_inv (snd (recover_connection ops dn))"
  by (cases dn) (auto simp: recover_connection_def Let_def probe_connection_inv reset_device_inv
      split: prod.splits)

text \<open>The node after the report, from the connection flag \<open>c\<close> and the reason \<open>r\<close>.\<close>

definition reported :: "bool \<Rightarrow> string \<Rightarrow> driver_node \<Rightarrow> driver_node" where
  "reported c r n =
     put_out (PublishConnected c)
       ((if last_connected n = Some c then n
         else if c then
           (put_out (LogEvent EvInfo ''driver.connected''
              [(''device'', EvString (device_label n)),
               (''after_attempts'', EvInt (reset_attempts n))]) n)\<lparr>reset_attempts := 0\<rparr>
         else
           put_out (LogEvent EvError ''driver.disconnected''
              [(''device'', EvString (device_label n)), (''reason'', EvString r)])
             (n\<lparr>disconnect_count := disconnect_count n + 1\<rparr>))
        \<lparr>last_connected := Some c\<rparr>)"

lemma report_connection_reported:
  "\<exists>r. snd (report_connection ops (d, n)) = reported (fst (is_connected ops n d)) r n"
  by (cases "last_connected n") (auto simp: report_connection_def reported_def Let_def
      split: prod.splits)

lemma reported_inv: "node_inv n \<Longrightarrow> node_inv (reported c r n)"
  by (cases "last_connected n = Some c"; cases c)
    (auto simp: reported_def node_inv_def remdups_adj_snoc split: if_splits)

lemma report_connection_inv:
  "node_inv (snd dn) \<Longrightarrow> node_inv (snd (report_connection ops dn))"
  by (metis prod.collapse report_connection_reported reported_inv)

lemma node_step_inv: "node_inv (snd dn) \<Longrightarrow> node_inv (snd (node_step ops dn e))"
  by (cases e) (simp_all add: handle_serial_error_inv report_connection_inv recover_connection_inv)

lemma node_run_induct [case_names init step]:
  assumes "P dn" and "\<And>dn e. P dn \<Longrightarrow> P (node_step ops dn e)"
  shows "P (node_run ops dn evs)"
  unfolding node_run_def using assms by (induction evs arbitrary: dn) auto

lemma SerialDriverNode_inv: "node_inv (SerialDriverNode label k)"
  by (simp add: node_inv_def SerialDriverNode_def)

lemma driver_event_names:
  "IsEventName ''driver.reconnect_attempt''" "IsEventName ''driver.connected''"
  "IsEventName ''driver.disconnected''"
  by code_simp+

lemma driver_event_keys:
  "IsIdentifier ''device''" "IsIdentifier ''reason''" "IsIdentifier ''count''"
  "IsIdentifier ''after_attempts''"
  by code_simp+

lemma driver_events_format:
  "\<not> isl (FormatEvent ''driver.reconnect_attempt''
     [(''device'', a), (''reason'', b), (''count'', c)])"
  "\<not> isl (FormatEvent ''driver.connected'' [(''device'', a), (''after_attempts'', b)])"
  "\<not> isl (FormatEvent ''driver.disconnected'' [(''device'', a), (''reason'', b)])"
  by (simp_all add: FormatEvent_def driver_event_names driver_event_keys)

lemma reset_device_events: "events_ok n \<Longrightarrow> events_ok (snd (reset_device ops r (d, n)))"
  by (auto simp: reset_device_def events_ok_def Let_def driver_events_format)

lemma count_error_events [simp]:
  "events_ok (n\<lparr>consecutive_errors := k\<rparr>) = events_ok n"
  by (simp add: events_ok_def)

lemma handle_serial_error_events:
  "events_ok (snd dn) \<Longrightarrow> events_ok (snd (handle_serial_error ops err dn))"
  by (cases dn) (simp add: handle_serial_error_def Let_def reset_device_events)

lemma probe_connection_events:
  "events_ok (snd dn) \<Longrightarrow> events_ok (snd (probe_connection ops dn))"
  by (cases dn) (auto simp: probe_connection_def Let_def handle_serial_error_events
      split: prod.splits)

lemma recover_connection_events:
  "events_ok (snd dn) \<Longrightarrow> events_ok (snd (recover_connection ops dn))"
  by (cases dn) (auto simp: recover_connection_def Let_def probe_connection_events
      reset_device_events split: prod.splits)

lemma report_connection_events:
  "events_ok (snd dn) \<Longrightarrow> events_ok (snd (report_connection ops dn))"
proof -
  assume ok: "events_ok (snd dn)"
  obtain r where r: "snd (report_connection ops dn) =
    reported (fst (is_connected ops (snd dn) (fst dn))) r (snd dn)"
    using report_connection_reported [of ops "fst dn" "snd dn"] by auto
  from ok show ?thesis
    unfolding r by (simp add: reported_def events_ok_def driver_events_format)
qed

lemma node_step_events: "events_ok (snd dn) \<Longrightarrow> events_ok (snd (node_step ops dn e))"
  by (cases e)
    (simp_all add: handle_serial_error_events report_connection_events recover_connection_events)

section \<open>What the node needs of a device\<close>

text \<open>
  The contract of a serial device, as \<^verbatim>\<open>serial_device.hpp\<close> states it: closing closes, looking
  for the device file and probing neither open nor close the port, and every operation keeps the
  device's own invariant.
\<close>

locale serial_device_contract =
  fixes ops :: "'d serial_device" and inv :: "'d \<Rightarrow> bool"
  assumes close_dead: "\<not> dev_is_alive ops (dev_close_serial ops d)"
    and present_alive: "dev_is_alive ops (snd (dev_is_present ops d)) \<longleftrightarrow> dev_is_alive ops d"
    and probe_alive: "dev_is_alive ops (snd (dev_probe ops d)) \<longleftrightarrow> dev_is_alive ops d"
    and inv_present: "inv d \<Longrightarrow> inv (snd (dev_is_present ops d))"
    and inv_close: "inv d \<Longrightarrow> inv (dev_close_serial ops d)"
    and inv_reset: "inv d \<Longrightarrow> inv (dev_reset_serial ops d)"
    and inv_probe: "inv d \<Longrightarrow> inv (snd (dev_probe ops d))"
begin

lemma reset_device_dev: "fst (reset_device ops r (d, n)) = dev_reset_serial ops d"
  by (simp add: reset_device_def Let_def)

lemma handle_error_dev_inv: "inv (fst dn) \<Longrightarrow> inv (fst (handle_serial_error ops e dn))"
  by (cases dn) (simp add: handle_serial_error_def Let_def reset_device_dev inv_reset)

lemma probe_connection_dev_inv: "inv (fst dn) \<Longrightarrow> inv (fst (probe_connection ops dn))"
  by (cases dn)
    (simp add: probe_connection_def Let_def handle_error_dev_inv inv_probe case_prod_beta)

lemma recover_connection_dev_inv: "inv (fst dn) \<Longrightarrow> inv (fst (recover_connection ops dn))"
  by (cases dn) (simp add: recover_connection_def Let_def case_prod_beta inv_present inv_close
      probe_connection_dev_inv reset_device_dev inv_reset)

lemma disconnect_reason_dev:
  "snd (disconnect_reason ops n (Some d)) = Some (snd (dev_is_present ops d))"
  by (simp add: disconnect_reason_def Let_def case_prod_beta)

lemma report_connection_dev:
  "fst (report_connection ops (d, n)) \<in>
     {snd (is_connected ops n d), snd (dev_is_present ops (snd (is_connected ops n d)))}"
  by (auto simp: report_connection_def Let_def case_prod_beta disconnect_reason_dev)

lemma is_connected_dev:
  "snd (is_connected ops n d) \<in> {d, snd (dev_is_present ops d)}"
  by (auto simp: is_connected_def Let_def case_prod_beta)

lemma report_connection_dev_inv: "inv (fst dn) \<Longrightarrow> inv (fst (report_connection ops dn))"
  using report_connection_dev [of "fst dn" "snd dn"] is_connected_dev [of "snd dn" "fst dn"]
  by (auto simp: inv_present)

lemma node_step_dev_inv: "inv (fst dn) \<Longrightarrow> inv (fst (node_step ops dn e))"
  by (cases e)
    (simp_all add: handle_error_dev_inv report_connection_dev_inv recover_connection_dev_inv)

lemma node_run_dev_inv: "inv (fst dn) \<Longrightarrow> inv (fst (node_run ops dn evs))"
  by (rule node_run_induct) (auto intro: node_step_dev_inv)

lemma report_connection_alive:
  "dev_is_alive ops (fst (report_connection ops (d, n))) \<longleftrightarrow> dev_is_alive ops d"
  using report_connection_dev [of d n] is_connected_dev [of n d] by (auto simp: present_alive)

lemma report_connection_published:
  "last (published (outputs (snd (report_connection ops (d, n))))) = fst (is_connected ops n d)"
  using report_connection_reported [of ops d n] by (auto simp: reported_def)

text \<open>An unplugged device: the next timer tick closes the port and publishes the loss.\<close>

lemma tick_unplugged:
  assumes "\<not> fst (dev_is_present ops d)"
  shows "\<not> dev_is_alive ops (fst (node_step ops (d, n) HealthTick)) \<and>
    last (published (outputs (snd (node_step ops (d, n) HealthTick)))) = False"
proof -
  obtain d' where d': "recover_connection ops (d, n) = (d', n)" "\<not> dev_is_alive ops d'"
    using assms by (auto simp: recover_connection_def Let_def case_prod_beta close_dead)
  then have "\<not> fst (is_connected ops n d')" by (simp add: is_connected_def)
  with d' show ?thesis
    by (simp add: report_connection_alive report_connection_published)
qed

lemma recover_connection_ok:
  assumes "\<forall>d. fst (dev_is_present ops d)" and "\<forall>d. dev_is_alive ops (dev_reset_serial ops d)"
    and "\<forall>d. dev_is_alive ops d \<longrightarrow> fst (dev_probe ops d) = NO_ERROR"
    and "0 \<le> consecutive_errors n"
  shows "dev_is_alive ops (fst (recover_connection ops (d, n))) \<and>
    consecutive_errors (snd (recover_connection ops (d, n))) = 0"
  using assms
  by (auto simp: recover_connection_def probe_connection_def reset_device_def
      handle_serial_error_def Let_def case_prod_beta present_alive probe_alive)

text \<open>A device that is there, opens and answers: one timer tick brings the connection back.\<close>

lemma tick_recovers:
  assumes "\<forall>d. fst (dev_is_present ops d)" and "\<forall>d. dev_is_alive ops (dev_reset_serial ops d)"
    and "\<forall>d. dev_is_alive ops d \<longrightarrow> fst (dev_probe ops d) = NO_ERROR"
    and "0 \<le> consecutive_errors n"
  shows "last (published (outputs (snd (node_step ops (d, n) HealthTick)))) = True"
proof -
  obtain d' n' where r: "recover_connection ops (d, n) = (d', n')" by fastforce
  with recover_connection_ok [OF assms, of d] have "dev_is_alive ops d'" "consecutive_errors n' = 0"
    by simp_all
  then have "fst (is_connected ops n' d')"
    using assms(1) by (simp add: is_connected_def Let_def case_prod_beta)
  with r show ?thesis by (simp add: report_connection_published)
qed

end

text \<open>A port device meets the contract when its probe leaves the port as it should.\<close>

lemma open_serial_name [simp]: "port_device_name (open_serial env p) = port_device_name p"
  by (simp add: open_serial_def Let_def)

lemma is_device_present_open [simp]:
  "is_open_serial (snd (is_device_present env p)) = is_open_serial p"
  by (simp add: is_device_present_def Let_def)

lemma port_device_contract:
  assumes "fresh_fds env"
    and "\<And>p. is_open_serial (snd (probe env p)) = is_open_serial p"
    and "\<And>p. port_inv p \<Longrightarrow> port_inv (snd (probe env p))"
  shows "serial_device_contract (port_device env probe) port_inv"
  by unfold_locales (simp_all add: port_device_def assms port_op_inv)

end
