(* ===== verification/MotorDriver.thy ===== *)
theory MotorDriver
  imports SerialDriver
begin

text \<open>
  \<^verbatim>\<open>mg_drivers/devices/motor_driver\<close> and \<^verbatim>\<open>mg_drivers/motor_driver_node\<close>: the frames sent to the
  motor controller, the conversion of a velocity command to wheel speeds, and the node with its
  emergency stop.
\<close>

section \<open>The device\<close>

record SpeedParameter =
  right_wheel_speed :: u16
  left_wheel_speed :: u16

record MotorDriverResponse =
  res_raw :: bytes
  res_error :: SerialError

definition send_speed_command_header :: bytes where
  "send_speed_command_header = [0x96, 0x47]"

definition receive_speed_command_size :: int where
  "receive_speed_command_size = 4"

definition motor_encode :: "SpeedParameter \<Rightarrow> bytes" where
  "motor_encode param =
     (let ret = vec_insert 0 send_speed_command_header [];
          r = encode (right_wheel_speed param);
          ret = vec_insert 2 r ret;
          l = encode (left_wheel_speed param);
          ret = vec_insert 4 l ret;
          checksum = calc_checksum ret
      in ret @ [checksum])"

text \<open>
  The received frame is always in range for \<^verbatim>\<open>check_error\<close> (lemma \<open>motor_check_defined\<close>), so
  \<open>the\<close> is total here.
\<close>

definition send_speed_command ::
  "os_env \<Rightarrow> SpeedParameter \<Rightarrow> port \<Rightarrow> MotorDriverResponse \<times> port" where
  "send_speed_command env param p =
     (let send_buf = motor_encode param;
          (rec, p) = serial_write env send_buf True True p
      in if rec \<le> 0 then (\<lparr>res_raw = [], res_error = WRITE_ERROR\<rparr>, p)
         else
           let (retbuf, p) = serial_read env p;
               e = the (check_error retbuf send_speed_command_header receive_speed_command_size)
           in if e \<noteq> NO_ERROR then (\<lparr>res_raw = retbuf, res_error = e\<rparr>, p)
              else (\<lparr>res_raw = retbuf, res_error = NO_ERROR\<rparr>, p))"

definition stop_param :: SpeedParameter where
  "stop_param = \<lparr>right_wheel_speed = 0, left_wheel_speed = 0\<rparr>"

definition motor_probe :: "os_env \<Rightarrow> port \<Rightarrow> SerialError \<times> port" where
  "motor_probe env p =
     (let (res, p) = send_speed_command env stop_param p
      in (if res_error res = CHECKSUM_ERROR then NO_ERROR else res_error res, p))"

definition motor_device :: "os_env \<Rightarrow> port serial_device" where
  "motor_device env = port_device env motor_probe"

section \<open>The node\<close>

record motor_node =
  motor_port :: port
  motor_base :: driver_node
  wheel_pitch :: real
  max_speed :: real
  emergency_stop :: bool

definition MotorDriverNode :: "os_env \<Rightarrow> string \<Rightarrow> int \<Rightarrow> real \<Rightarrow> real \<Rightarrow> motor_node" where
  "MotorDriverNode env dev_name recovery_count pitch maxv =
     \<lparr>motor_port = SerialCommunicator2 env dev_name,
      motor_base = SerialDriverNode ''motor_driver'' recovery_count,
      wheel_pitch = pitch, max_speed = maxv, emergency_stop = False\<rparr>"

definition produce_emergency_stop_diagnostics :: "motor_node \<Rightarrow> diagnostic_status" where
  "produce_emergency_stop_diagnostics m =
     (if emergency_stop m
      then \<lparr>diag_level = DiagWarn, diag_message = ''active'', diag_values = []\<rparr>
      else \<lparr>diag_level = DiagOk, diag_message = ''inactive'', diag_values = []\<rparr>)"

text \<open>The speeds of one twist command; \<open>None\<close> when a speed does not fit an \<^verbatim>\<open>int16_t\<close>.\<close>

definition create_speed_parameter :: "motor_node \<Rightarrow> real \<Rightarrow> real \<Rightarrow> SpeedParameter option" where
  "create_speed_parameter m linear_x angular_z =
     (let linear_x =
            (if linear_x > max_speed m then max_speed m
             else if linear_x < - max_speed m then - max_speed m
             else linear_x);
          angular_z =
            (if \<bar>angular_z\<bar> > 0.8 then 0.8 * angular_z / \<bar>angular_z\<bar> else angular_z);
          left_speed = linear_x - angular_z * wheel_pitch m / 2;
          right_speed = linear_x + angular_z * wheel_pitch m / 2
      in case (to_int16 (left_speed * 1000), to_int16 (right_speed * 1000)) of
           (Some l, Some r) \<Rightarrow> Some \<lparr>right_wheel_speed = r, left_wheel_speed = l\<rparr>
         | _ \<Rightarrow> None)"

definition twist_sub_cb :: "os_env \<Rightarrow> real \<Rightarrow> real \<Rightarrow> motor_node \<Rightarrow> motor_node option" where
  "twist_sub_cb env linear_x angular_z m =
     (if emergency_stop m then Some m
      else
        case create_speed_parameter m linear_x angular_z of
          None \<Rightarrow> None
        | Some req \<Rightarrow>
            let (res, p) = send_speed_command env req (motor_port m);
                (p, n) =
                  (if res_error res \<noteq> CHECKSUM_ERROR
                   then handle_serial_error (motor_device env) (res_error res) (p, motor_base m)
                   else (p, motor_base m))
            in Some (m\<lparr>motor_port := p, motor_base := n\<rparr>))"

definition emergency_stop_sub_cb :: "os_env \<Rightarrow> bool \<Rightarrow> motor_node \<Rightarrow> motor_node" where
  "emergency_stop_sub_cb env data m =
     (let changed = (emergency_stop m \<noteq> data);
          m = m\<lparr>emergency_stop := data\<rparr>;
          m = (if changed then
                 m\<lparr>motor_base :=
                   put_out (LogEvent (if emergency_stop m then EvWarn else EvInfo)
                     ''driver.estop_changed''
                     [(''device'', EvString ''motor_driver''),
                      (''active'', EvBool (emergency_stop m))]) (motor_base m)\<rparr>
               else m)
      in if emergency_stop m
         then m\<lparr>motor_port := snd (send_speed_command env stop_param (motor_port m))\<rparr>
         else m)"

definition motor_health_check :: "os_env \<Rightarrow> motor_node \<Rightarrow> motor_node" where
  "motor_health_check env m =
     (case health_check (motor_device env) (Some (motor_port m), motor_base m) of
        (Some p, n) \<Rightarrow> m\<lparr>motor_port := p, motor_base := n\<rparr>
      | (None, n) \<Rightarrow> m\<lparr>motor_base := n\<rparr>)"

datatype motor_event = Twist real real | EmergencyStop bool | MotorTick

fun motor_step :: "os_env \<Rightarrow> motor_node \<Rightarrow> motor_event \<Rightarrow> motor_node option" where
  "motor_step env m (Twist v w) = twist_sub_cb env v w m"
| "motor_step env m (EmergencyStop b) = Some (emergency_stop_sub_cb env b m)"
| "motor_step env m MotorTick = Some (motor_health_check env m)"

fun motor_run :: "os_env \<Rightarrow> motor_node \<Rightarrow> motor_event list \<Rightarrow> motor_node option" where
  "motor_run env m [] = Some m"
| "motor_run env m (e # es) =
     (case motor_step env m e of None \<Rightarrow> None | Some m' \<Rightarrow> motor_run env m' es)"

section \<open>Frames\<close>

lemma motor_encode_frame:
  "motor_encode param =
     send_speed_command_header @ encode (right_wheel_speed param) @ encode (left_wheel_speed param) @
     [calc_checksum (send_speed_command_header @ encode (right_wheel_speed param) @
        encode (left_wheel_speed param))]"
  by (simp add: motor_encode_def vec_insert_def send_speed_command_header_def Let_def
      calc_checksum_sum_list)

lemma motor_check_defined:
  "check_error retbuf send_speed_command_header receive_speed_command_size \<noteq> None"
proof (cases "length retbuf = 4")
  case True
  then show ?thesis
    by (intro check_error_defined) (simp_all add: send_speed_command_header_def)
next
  case False
  then show ?thesis by (simp add: check_error_def receive_speed_command_size_def)
qed

abbreviation (input) stop_frame :: bytes where
  "stop_frame \<equiv> motor_encode stop_param"

text \<open>What the port has written since an earlier log: only stop frames.\<close>

fun not_moving :: "os_call \<Rightarrow> bool" where
  "not_moving (OsWrite fd b r) = (b = motor_encode stop_param)"
| "not_moving _ = True"

definition only_stops_since :: "os_log \<Rightarrow> port \<Rightarrow> bool" where
  "only_stops_since cs0 p \<longleftrightarrow> (\<exists>new. os_calls p = new @ cs0 \<and> list_all not_moving new)"

lemma only_stops_emit:
  "only_stops_since cs0 p \<Longrightarrow> not_moving c \<Longrightarrow> only_stops_since cs0 (emit c p)"
  by (auto simp: only_stops_since_def)

lemma only_stops_fields [simp]:
  "only_stops_since cs0 (p\<lparr>fd1 := x\<rparr>) = only_stops_since cs0 p"
  "only_stops_since cs0 (p\<lparr>is_open_serial := b\<rparr>) = only_stops_since cs0 p"
  by (simp_all add: only_stops_since_def)

lemma only_stops_refl: "only_stops_since (os_calls p) p"
  by (simp add: only_stops_since_def)

lemma only_stops_ops:
  assumes "only_stops_since cs0 p"
  shows "only_stops_since cs0 (open_serial env p)"
    and "only_stops_since cs0 (close_serial p)"
    and "only_stops_since cs0 (snd (is_device_present env p))"
    and "only_stops_since cs0 (snd (serial_read env p))"
    and "only_stops_since cs0 (snd (serial_write env stop_frame i o' p))"
  using assms
  by (auto simp: open_serial_def close_serial_def is_device_present_def serial_read_def
      serial_write_def Let_def intro!: only_stops_emit split: option.splits)

lemma only_stops_reset: "only_stops_since cs0 p \<Longrightarrow> only_stops_since cs0 (reset_serial env p)"
  by (simp add: reset_serial_def only_stops_ops)

lemma send_stop_only_stops:
  "only_stops_since cs0 p \<Longrightarrow> only_stops_since cs0 (snd (send_speed_command env stop_param p))"
  by (auto simp: send_speed_command_def Let_def only_stops_ops case_prod_beta)

lemma motor_probe_port [simp]:
  "snd (motor_probe env p) = snd (send_speed_command env stop_param p)"
  by (simp add: motor_probe_def Let_def case_prod_beta)

lemma serial_ops_open [simp]:
  "is_open_serial (snd (serial_write env buf i o' p)) = is_open_serial p"
  "is_open_serial (snd (serial_read env p)) = is_open_serial p"
  by (auto simp: serial_write_def serial_read_def Let_def split: option.splits)

lemma send_speed_command_open [simp]:
  "is_open_serial (snd (send_speed_command env param p)) = is_open_serial p"
  by (simp add: send_speed_command_def Let_def case_prod_beta)

lemma send_speed_command_inv:
  "port_inv p \<Longrightarrow> port_inv (snd (send_speed_command env param p))"
  by (simp add: send_speed_command_def Let_def case_prod_beta serial_write_inv serial_read_inv)

section \<open>The device meets the contract of the node\<close>

lemma motor_device_sel [simp]:
  "dev_is_alive (motor_device env) = is_open_serial"
  "dev_is_present (motor_device env) = is_device_present env"
  "dev_close_serial (motor_device env) = close_serial"
  "dev_reset_serial (motor_device env) = reset_serial env"
  "dev_probe (motor_device env) = motor_probe env"
  by (simp_all add: motor_device_def port_device_def)

text \<open>With the descriptor invariant (given a well-behaved operating system) \<dots>\<close>

interpretation motor_fd: serial_device_contract
  "motor_device env" "\<lambda>p. fresh_fds env \<longrightarrow> port_inv p" for env
  by unfold_locales (simp_all add: port_op_inv send_speed_command_inv)

text \<open>\<dots> and with the invariant that only stop frames were written since a given moment.\<close>

interpretation motor_stop: serial_device_contract
  "motor_device env" "only_stops_since cs0" for env cs0
  by unfold_locales (simp_all add: only_stops_ops only_stops_reset send_stop_only_stops)

section \<open>Lemmas on the node\<close>

lemma motor_health_check_step:
  "motor_health_check env m =
     (let (p, n) = node_step (motor_device env) (motor_port m, motor_base m) HealthTick
      in m\<lparr>motor_port := p, motor_base := n\<rparr>)"
  by (simp add: motor_health_check_def health_check_def case_prod_beta Let_def)

lemma estop_step:
  assumes "emergency_stop m" and "e \<noteq> EmergencyStop False"
    and "only_stops_since cs0 (motor_port m)"
  shows "\<exists>m'. motor_step env m e = Some m' \<and> emergency_stop m' \<and>
    only_stops_since cs0 (motor_port m')"
proof (cases e)
  case (Twist v w)
  with assms show ?thesis by (simp add: twist_sub_cb_def)
next
  case (EmergencyStop b)
  with assms show ?thesis
    by (simp add: emergency_stop_sub_cb_def Let_def send_stop_only_stops)
next
  case MotorTick
  have "only_stops_since cs0
    (fst (node_step (motor_device env) (motor_port m, motor_base m) HealthTick))"
    using assms(3) by (intro motor_stop.node_step_dev_inv) simp
  with MotorTick assms(1) show ?thesis
    by (simp add: motor_health_check_step case_prod_beta del: node_step.simps)
qed

lemma clamped_speed_bound:
  fixes lin ang pitch vmax :: real
  assumes "\<bar>lin\<bar> \<le> vmax" and "\<bar>ang\<bar> \<le> 0.8" and "0 \<le> pitch"
  shows "\<bar>(lin - ang * pitch / 2) * 1000\<bar> \<le> 1000 * (vmax + 0.4 * pitch)"
    and "\<bar>(lin + ang * pitch / 2) * 1000\<bar> \<le> 1000 * (vmax + 0.4 * pitch)"
proof -
  have "\<bar>ang * pitch\<bar> \<le> 0.8 * pitch"
    using mult_right_mono [OF assms(2,3)] assms(3) by (simp add: abs_mult)
  with assms(1) show "\<bar>(lin - ang * pitch / 2) * 1000\<bar> \<le> 1000 * (vmax + 0.4 * pitch)"
    and "\<bar>(lin + ang * pitch / 2) * 1000\<bar> \<le> 1000 * (vmax + 0.4 * pitch)"
    by (auto simp: abs_le_iff)
qed

lemma trunc_int_le: "\<bar>d\<bar> \<le> b \<Longrightarrow> \<bar>real_of_int (trunc_int d)\<bar> \<le> b"
proof -
  assume b: "\<bar>d\<bar> \<le> b"
  have "\<bar>real_of_int (trunc_int d)\<bar> \<le> \<bar>d\<bar>"
  proof (cases "0 \<le> d")
    case True
    then show ?thesis by (simp add: trunc_int_def)
  next
    case False
    then have "\<lceil>d\<rceil> \<le> 0" by (simp add: ceiling_le_zero)
    with False show ?thesis by (simp add: trunc_int_def)
  qed
  with b show ?thesis by linarith
qed

lemma trunc_int_near: "\<bar>real_of_int (trunc_int d) - d\<bar> < 1"
  unfolding trunc_int_def by (auto simp: abs_less_iff) linarith+

lemma to_int16_bounded:
  assumes "\<bar>d\<bar> \<le> 32767"
  shows "\<exists>w. to_int16 d = Some w \<and> sint w = trunc_int d"
proof -
  have "\<bar>trunc_int d\<bar> \<le> 32767" using trunc_int_abs_le [of d 32767] assms by simp
  then show ?thesis by (auto simp: to_int16_def sint_word_of_int16)
qed

text \<open>The clamped commands and the speeds they give, when everything fits.\<close>

lemma create_speed_parameter_fits:
  assumes "0 \<le> max_speed m" and "0 \<le> wheel_pitch m"
    and "1000 * (max_speed m + 0.4 * wheel_pitch m) \<le> 32767"
  shows "\<exists>req lin ang. create_speed_parameter m v w = Some req \<and>
    \<bar>lin\<bar> \<le> max_speed m \<and> \<bar>ang\<bar> \<le> 0.8 \<and>
    (\<bar>v\<bar> \<le> max_speed m \<longrightarrow> lin = v) \<and> (\<bar>w\<bar> \<le> 0.8 \<longrightarrow> ang = w) \<and>
    sint (left_wheel_speed req) = trunc_int ((lin - ang * wheel_pitch m / 2) * 1000) \<and>
    sint (right_wheel_speed req) = trunc_int ((lin + ang * wheel_pitch m / 2) * 1000)"
proof -
  define lin where "lin = (if v > max_speed m then max_speed m
    else if v < - max_speed m then - max_speed m else v)"
  define ang where "ang = (if \<bar>w\<bar> > 0.8 then 0.8 * w / \<bar>w\<bar> else w)"
  have lin: "\<bar>lin\<bar> \<le> max_speed m" "\<bar>v\<bar> \<le> max_speed m \<longrightarrow> lin = v"
    using assms(1) by (auto simp: lin_def)
  have ang: "\<bar>ang\<bar> \<le> 0.8" "\<bar>w\<bar> \<le> 0.8 \<longrightarrow> ang = w"
    by (auto simp: ang_def abs_mult)
  have "\<bar>(lin - ang * wheel_pitch m / 2) * 1000\<bar> \<le> 32767"
    and "\<bar>(lin + ang * wheel_pitch m / 2) * 1000\<bar> \<le> 32767"
    using clamped_speed_bound [OF lin(1) ang(1) assms(2)] assms(3) by linarith+
  then obtain l r where "to_int16 ((lin - ang * wheel_pitch m / 2) * 1000) = Some l"
    "sint l = trunc_int ((lin - ang * wheel_pitch m / 2) * 1000)"
    "to_int16 ((lin + ang * wheel_pitch m / 2) * 1000) = Some r"
    "sint r = trunc_int ((lin + ang * wheel_pitch m / 2) * 1000)"
    using to_int16_bounded by metis
  moreover have "create_speed_parameter m v w =
    (case (to_int16 ((lin - ang * wheel_pitch m / 2) * 1000),
           to_int16 ((lin + ang * wheel_pitch m / 2) * 1000)) of
       (Some l, Some r) \<Rightarrow> Some \<lparr>right_wheel_speed = r, left_wheel_speed = l\<rparr> | _ \<Rightarrow> None)"
    unfolding create_speed_parameter_def Let_def lin_def ang_def by simp
  ultimately show ?thesis using lin ang
    by (intro exI [of _ "\<lparr>right_wheel_speed = r, left_wheel_speed = l\<rparr>"] exI [of _ lin]
        exI [of _ ang]) simp
qed

lemma SerialDriverNode_events: "events_ok (SerialDriverNode label k)"
  by (simp add: events_ok_def SerialDriverNode_def)

lemma estop_cb_inv: "node_inv (motor_base m) \<Longrightarrow> node_inv (motor_base (emergency_stop_sub_cb env b m))"
  by (simp add: emergency_stop_sub_cb_def Let_def node_inv_def)

lemma estop_cb_events:
  "events_ok (motor_base m) \<Longrightarrow> events_ok (motor_base (emergency_stop_sub_cb env b m))"
proof -
  have "\<not> isl (FormatEvent ''driver.estop_changed'' [(''device'', x), (''active'', y)])" for x y
    by (simp add: FormatEvent_def IsEventName_def IsIdentifier_def IsLower_def IsDigit_def
        less_eq_char_def)
  then show "events_ok (motor_base m) \<Longrightarrow> ?thesis"
    by (simp add: emergency_stop_sub_cb_def Let_def events_ok_def)
qed

lemma motor_step_base:
  assumes "motor_step env m e = Some m'"
    and "node_inv (motor_base m)" and "events_ok (motor_base m)"
  shows "node_inv (motor_base m') \<and> events_ok (motor_base m')"
proof (cases e)
  case (Twist v w)
  with assms show ?thesis
    using handle_serial_error_inv handle_serial_error_events
    by (fastforce simp: twist_sub_cb_def Let_def case_prod_beta split: if_splits option.splits)
next
  case (EmergencyStop b)
  with assms show ?thesis by (auto simp: estop_cb_inv estop_cb_events)
next
  case MotorTick
  with assms show ?thesis
    using node_step_inv [of "(motor_port m, motor_base m)" "motor_device env" HealthTick]
      node_step_events [of "(motor_port m, motor_base m)" "motor_device env" HealthTick]
    by (auto simp: motor_health_check_step case_prod_beta simp del: node_step.simps)
qed

lemma motor_run_base:
  "motor_run env m evs = Some m' \<Longrightarrow> node_inv (motor_base m) \<Longrightarrow> events_ok (motor_base m) \<Longrightarrow>
     node_inv (motor_base m') \<and> events_ok (motor_base m')"
  by (induction evs arbitrary: m) (auto dest: motor_step_base split: option.splits)

section \<open>Properties\<close>

text \<open>
  C1. Emergency stop: from the moment the stop is active and until it is released, whatever twist
  commands, timer ticks and repeated stop messages arrive and whatever the serial line answers,
  every frame written to the motor controller is the zero-speed frame; no twist is even
  converted.
\<close>

theorem estop_no_motion:
  assumes "emergency_stop m" and "EmergencyStop False \<notin> set evs"
  shows "\<exists>m'. motor_run env m evs = Some m' \<and> emergency_stop m' \<and>
    only_stops_since (os_calls (motor_port m)) (motor_port m')"
proof -
  have "\<exists>m'. motor_run env m evs = Some m' \<and> emergency_stop m' \<and>
    only_stops_since cs0 (motor_port m')" if "only_stops_since cs0 (motor_port m)" for cs0
    using assms that
  proof (induction evs arbitrary: m)
    case Nil
    then show ?case by simp
  next
    case (Cons e evs)
    then obtain m' where "motor_step env m e = Some m'" "emergency_stop m'"
      "only_stops_since cs0 (motor_port m')"
      using estop_step [of m e cs0 env] by auto
    with Cons.IH [of m'] Cons.prems(2) show ?case by auto
  qed
  then show ?thesis using only_stops_refl by blast
qed

text \<open>A node with the stop active, for the witnesses.\<close>

definition sample_motor :: "bytes \<Rightarrow> motor_node" where
  "sample_motor reply =
     emergency_stop_sub_cb (sample_env reply) True
       (MotorDriverNode (sample_env reply) ''tty'' 4 0.358 0.4)"

theorem estop_no_motion_witness:
  "\<exists>m'. motor_run (sample_env []) (sample_motor []) [Twist 1 0, MotorTick, EmergencyStop True] =
      Some m' \<and> emergency_stop m' \<and>
    only_stops_since (os_calls (motor_port (sample_motor []))) (motor_port m')"
proof -
  have "emergency_stop (sample_motor [])"
    by (simp add: sample_motor_def emergency_stop_sub_cb_def Let_def)
  then show ?thesis by (rule estop_no_motion) simp
qed

text \<open>
  Wheel speeds: for every twist, when the configured limits fit the 16-bit speed fields, the
  command converts without overflow, no wheel is asked for more than the configured maximum
  (maximum speed plus 0.4 times the wheel pitch), and a twist within the limits is followed to
  within 1 mm/s on both wheels.
\<close>

theorem speed_command_bounds:
  assumes "0 \<le> max_speed m" and "0 \<le> wheel_pitch m"
    and "1000 * (max_speed m + 0.4 * wheel_pitch m) \<le> 32767"
  shows "\<exists>req. create_speed_parameter m v w = Some req \<and>
    \<bar>real_of_int (sint (left_wheel_speed req))\<bar> \<le> 1000 * (max_speed m + 0.4 * wheel_pitch m) \<and>
    \<bar>real_of_int (sint (right_wheel_speed req))\<bar> \<le> 1000 * (max_speed m + 0.4 * wheel_pitch m) \<and>
    (\<bar>v\<bar> \<le> max_speed m \<and> \<bar>w\<bar> \<le> 0.8 \<longrightarrow>
       \<bar>real_of_int (sint (left_wheel_speed req)) - 1000 * (v - w * wheel_pitch m / 2)\<bar> < 1 \<and>
       \<bar>real_of_int (sint (right_wheel_speed req)) - 1000 * (v + w * wheel_pitch m / 2)\<bar> < 1)"
proof -
  from create_speed_parameter_fits [OF assms, of v w] obtain req lin ang where
    req: "create_speed_parameter m v w = Some req"
    and lim: "\<bar>lin\<bar> \<le> max_speed m" "\<bar>ang\<bar> \<le> 0.8"
    and same: "\<bar>v\<bar> \<le> max_speed m \<longrightarrow> lin = v" "\<bar>w\<bar> \<le> 0.8 \<longrightarrow> ang = w"
    and l: "sint (left_wheel_speed req) = trunc_int ((lin - ang * wheel_pitch m / 2) * 1000)"
    and r: "sint (right_wheel_speed req) = trunc_int ((lin + ang * wheel_pitch m / 2) * 1000)"
    by blast
  note b = clamped_speed_bound [OF lim assms(2)]
  show ?thesis
    using req l r trunc_int_le [OF b(1)] trunc_int_le [OF b(2)] same
      trunc_int_near [of "(v - w * wheel_pitch m / 2) * 1000"]
      trunc_int_near [of "(v + w * wheel_pitch m / 2) * 1000"]
    by (auto simp: mult.commute [of _ 1000] simp del: of_int_sint)
qed

theorem speed_command_bounds_witness:
  "\<exists>req. create_speed_parameter (sample_motor []) 2 0 = Some req \<and>
     \<bar>real_of_int (sint (left_wheel_speed req))\<bar> \<le> (543.2 :: real)"
proof -
  have m: "max_speed (sample_motor []) = 0.4" "wheel_pitch (sample_motor []) = 0.358"
    by (simp_all add: sample_motor_def emergency_stop_sub_cb_def MotorDriverNode_def Let_def)
  from speed_command_bounds [of "sample_motor []" 2 0] show ?thesis
    unfolding m by auto
qed

text \<open>
  The speed frame: seven bytes that the protocol's own checker accepts, from which the right
  and the left wheel speed are decoded unchanged.
\<close>

theorem motor_frame_wellformed:
  "length (motor_encode req) = 7 \<and>
   check_error (motor_encode req) send_speed_command_header 7 = Some NO_ERROR \<and>
   map_option decode (slice 2 2 (motor_encode req)) = Some (Some (right_wheel_speed req)) \<and>
   map_option decode (slice 4 2 (motor_encode req)) = Some (Some (left_wheel_speed req))"
proof -
  let ?r = "encode (right_wheel_speed req)" and ?l = "encode (left_wheel_speed req)"
  have len: "length ?r = 2" "length ?l = 2" "length send_speed_command_header = 2"
    by (simp_all add: send_speed_command_header_def)
  have slices: "slice 2 2 (motor_encode req) = Some ?r" "slice 4 2 (motor_encode req) = Some ?l"
    by (simp_all add: slice_def motor_encode_frame len)
  have "decode ?r = Some (right_wheel_speed req)" and "decode ?l = Some (left_wheel_speed req)"
    by (simp_all add: decode_encode)
  moreover have "check_error (motor_encode req) send_speed_command_header 7 = Some NO_ERROR"
    by (simp add: check_error_ok_iff motor_encode_frame len butlast_append)
  ultimately show ?thesis using slices by (simp add: motor_encode_frame len)
qed

text \<open>
  C36. The connection log of the motor driver node: after any run, the \<^verbatim>\<open>driver.connected\<close> and
  \<^verbatim>\<open>driver.disconnected\<close> events are exactly the changes of the published \<^verbatim>\<open>~/connected\<close> flag, the
  disconnect counter is the number of disconnections logged, and no event the node logs is
  rejected by the event formatter.
\<close>

theorem motor_connection_log:
  assumes "motor_run env (MotorDriverNode env name k pitch vmax) evs = Some m"
  shows "logged_changes (outputs (motor_base m)) = remdups_adj (published (outputs (motor_base m))) \<and>
    disconnect_count (motor_base m) = count_list (logged_changes (outputs (motor_base m))) False \<and>
    events_ok (motor_base m)"
proof -
  have "node_inv (motor_base (MotorDriverNode env name k pitch vmax))"
    and "events_ok (motor_base (MotorDriverNode env name k pitch vmax))"
    by (simp_all add: MotorDriverNode_def SerialDriverNode_inv SerialDriverNode_events)
  from motor_run_base [OF assms this] show ?thesis by (simp add: node_inv_def)
qed

theorem motor_connection_log_witness:
  "let m = motor_health_check (sample_env []) (MotorDriverNode (sample_env []) ''tty'' 4 0.358 0.4)
   in logged_changes (outputs (motor_base m)) = remdups_adj (published (outputs (motor_base m))) \<and>
      events_ok (motor_base m)"
proof -
  have "motor_run (sample_env []) (MotorDriverNode (sample_env []) ''tty'' 4 0.358 0.4) [MotorTick] =
    Some (motor_health_check (sample_env []) (MotorDriverNode (sample_env []) ''tty'' 4 0.358 0.4))"
    by simp
  from motor_connection_log [OF this] show ?thesis by (simp add: Let_def)
qed

text \<open>
  Unplugging: when the device file of the motor controller is gone, the next health check
  leaves the port closed and publishes \<^verbatim>\<open>connected = false\<close>.
\<close>

theorem motor_unplugged:
  assumes "\<not> env_access env (os_calls (motor_port m))"
  shows "\<not> is_open_serial (motor_port (motor_health_check env m)) \<and>
    last (published (outputs (motor_base (motor_health_check env m)))) = False"
proof -
  have "\<not> fst (dev_is_present (motor_device env) (motor_port m))"
    using assms by (simp add: is_device_present_def Let_def)
  from motor_fd.tick_unplugged [OF this, of "motor_base m"] show ?thesis
    by (simp add: motor_health_check_step case_prod_beta Let_def del: node_step.simps)
qed

theorem motor_unplugged_witness:
  "\<not> is_open_serial (motor_port (motor_health_check ((sample_env [])\<lparr>env_access := \<lambda>_. False\<rparr>)
     (sample_motor [])))"
proof -
  have "\<not> env_access ((sample_env [])\<lparr>env_access := \<lambda>_. False\<rparr>)
      (os_calls (motor_port (sample_motor [])))" by simp
  from motor_unplugged [OF this] show ?thesis by simp
qed

lemma reset_serial_opens:
  assumes "\<forall>cs. env_open env cs \<noteq> -1 \<and> \<not> env_tcsetattr_fails env cs \<and> \<not> env_fcntl_fails env cs"
  shows "is_open_serial (reset_serial env p)"
  using assms by (simp add: reset_serial_def open_serial_def Let_def)

lemma motor_probe_answered:
  assumes "\<forall>cs. 0 < env_write env cs (motor_encode stop_param)" and "\<forall>cs. env_read env cs = Some reply"
    and "length reply = 4" and "take 2 reply = send_speed_command_header"
    and "is_open_serial p"
  shows "fst (motor_probe env p) = NO_ERROR"
proof -
  have "header_matches reply send_speed_command_header = Some True"
    using assms(4) by (simp add: header_matches_True_iff send_speed_command_header_def numeral_2_eq_2)
  then have "check_error reply send_speed_command_header 4 \<in> {Some NO_ERROR, Some CHECKSUM_ERROR}"
    using assms(3) by (auto simp: check_error_def)
  moreover have "\<not> env_write env cs (motor_encode stop_param) \<le> 0" for cs
    using assms(1) by (simp add: not_le)
  ultimately show ?thesis
    using assms(2-)
    by (auto simp: motor_probe_def send_speed_command_def serial_write_def serial_read_def Let_def
        receive_speed_command_size_def)
qed

text \<open>
  C37. Recovery: once the device file is there, the port opens and the controller answers with a
  four-byte reply starting with the command header (its checksum may even be wrong), one health
  check brings any node back to \<^verbatim>\<open>connected = true\<close>.
\<close>

theorem motor_recovers:
  assumes "\<forall>cs. env_access env cs"
    and "\<forall>cs. env_open env cs \<noteq> -1 \<and> \<not> env_tcsetattr_fails env cs \<and> \<not> env_fcntl_fails env cs"
    and "\<forall>cs. 0 < env_write env cs (motor_encode stop_param)" and "\<forall>cs. env_read env cs = Some reply"
    and "length reply = 4" and "take 2 reply = send_speed_command_header"
    and "0 \<le> consecutive_errors (motor_base m)"
  shows "last (published (outputs (motor_base (motor_health_check env m)))) = True"
proof -
  have "last (published (outputs (snd (node_step (motor_device env)
    (motor_port m, motor_base m) HealthTick)))) = True"
    using assms motor_probe_answered [OF assms(3-6)]
    by (intro motor_fd.tick_recovers)
      (simp_all add: is_device_present_def Let_def reset_serial_opens)
  then show ?thesis
    by (simp add: motor_health_check_step case_prod_beta Let_def del: node_step.simps)
qed

theorem motor_recovers_witness:
  "let env = (sample_env [0x96, 0x47, 0, 0])\<lparr>env_open := \<lambda>_. 3\<rparr>;
       m = (sample_motor [])\<lparr>motor_port := close_serial (motor_port (sample_motor []))\<rparr>
   in last (published (outputs (motor_base (motor_health_check env m)))) = True"
  unfolding Let_def
  by (rule motor_recovers [where reply = "[0x96, 0x47, 0, 0]"])
    (simp_all add: sample_env_def motor_encode_frame send_speed_command_header_def sample_motor_def
      emergency_stop_sub_cb_def MotorDriverNode_def SerialDriverNode_def Let_def)

text \<open>The frames a log has written, latest first.\<close>

fun written_frames :: "os_log \<Rightarrow> bytes list" where
  "written_frames [] = []"
| "written_frames (OsWrite fd b r # cs) = b # written_frames cs"
| "written_frames (_ # cs) = written_frames cs"

lemma quiet_step:
  assumes "\<forall>cs. env_access env cs" and "emergency_stop m" and "is_open_serial (motor_port m)"
    and "consecutive_errors (motor_base m) = 0" and "0 < error_recovery_count (motor_base m)"
    and "e = MotorTick \<or> (\<exists>v w. e = Twist v w)"
  shows "\<exists>m'. motor_step env m e = Some m' \<and> emergency_stop m' \<and>
    is_open_serial (motor_port m') \<and> consecutive_errors (motor_base m') = 0 \<and>
    error_recovery_count (motor_base m') = error_recovery_count (motor_base m) \<and>
    written_frames (os_calls (motor_port m')) = written_frames (os_calls (motor_port m))"
  using assms
  by (auto simp: twist_sub_cb_def motor_health_check_step recover_connection_def
      report_connection_def is_connected_def is_device_present_def Let_def case_prod_beta)

lemma quiet_run:
  assumes "\<forall>cs. env_access env cs" and "emergency_stop m" and "is_open_serial (motor_port m)"
    and "consecutive_errors (motor_base m) = 0" and "0 < error_recovery_count (motor_base m)"
    and "\<forall>e \<in> set evs. e = MotorTick \<or> (\<exists>v w. e = Twist v w)"
  shows "\<exists>m'. motor_run env m evs = Some m' \<and>
    written_frames (os_calls (motor_port m')) = written_frames (os_calls (motor_port m))"
  using assms(2-)
proof (induction evs arbitrary: m)
  case Nil
  then show ?case by simp
next
  case (Cons e evs)
  then obtain m' where "motor_step env m e = Some m'" "emergency_stop m'"
    "is_open_serial (motor_port m')" "consecutive_errors (motor_base m') = 0"
    "0 < error_recovery_count (motor_base m')"
    "written_frames (os_calls (motor_port m')) = written_frames (os_calls (motor_port m))"
    using quiet_step [OF assms(1), of m e] by auto
  with Cons.IH [of m'] Cons.prems(5) show ?case by auto
qed

lemma send_speed_command_writes:
  "is_open_serial p \<Longrightarrow>
     written_frames (os_calls (snd (send_speed_command env req p))) =
       motor_encode req # written_frames (os_calls p)"
  by (auto simp: send_speed_command_def serial_write_def serial_read_def Let_def case_prod_beta
      split: option.splits)

text \<open>
  A stop request is written once: with the port open and no error pending, activating the
  emergency stop writes one stop frame, and whatever the operating system answers to that write,
  no later timer tick or twist command writes another one.
\<close>

theorem estop_written_once:
  assumes "\<forall>cs. env_access env cs" and "is_open_serial (motor_port m)"
    and "consecutive_errors (motor_base m) = 0" and "0 < error_recovery_count (motor_base m)"
    and "\<forall>e \<in> set evs. e = MotorTick \<or> (\<exists>v w. e = Twist v w)"
  shows "\<exists>m'. motor_run env m (EmergencyStop True # evs) = Some m' \<and>
    written_frames (os_calls (motor_port m')) =
      motor_encode stop_param # written_frames (os_calls (motor_port m))"
proof -
  let ?m = "emergency_stop_sub_cb env True m"
  have "emergency_stop ?m" "is_open_serial (motor_port ?m)" "consecutive_errors (motor_base ?m) = 0"
    "0 < error_recovery_count (motor_base ?m)"
    using assms by (simp_all add: emergency_stop_sub_cb_def Let_def)
  moreover have "written_frames (os_calls (motor_port ?m)) =
    motor_encode stop_param # written_frames (os_calls (motor_port m))"
    using assms(2) by (simp add: emergency_stop_sub_cb_def Let_def send_speed_command_writes)
  ultimately show ?thesis using quiet_run [OF assms(1), of ?m evs] assms(5) by auto
qed

theorem estop_written_once_witness:
  "\<exists>m'. motor_run ((sample_env [])\<lparr>env_write := \<lambda>_ _. -1\<rparr>)
      (MotorDriverNode (sample_env []) ''tty'' 4 0.358 0.4) [EmergencyStop True, MotorTick, Twist 1 0] =
      Some m' \<and>
    written_frames (os_calls (motor_port m')) = [motor_encode stop_param]"
proof -
  let ?m = "MotorDriverNode (sample_env []) ''tty'' 4 0.358 0.4"
  let ?env = "(sample_env [])\<lparr>env_write := \<lambda>_ _. -1\<rparr>"
  have "written_frames (os_calls (motor_port ?m)) = []" and "is_open_serial (motor_port ?m)"
    and "consecutive_errors (motor_base ?m) = 0" and "0 < error_recovery_count (motor_base ?m)"
    by (simp_all add: MotorDriverNode_def port_op_defs sample_env_def SerialDriverNode_def)
  then show ?thesis
    using estop_written_once [of ?env ?m "[MotorTick, Twist 1 0]"] by (simp add: sample_env_def)
qed

end
