(* ===== verification/WheelOdometry.thy ===== *)
theory WheelOdometry
  imports SerialDriver
begin

text \<open>
  \<^verbatim>\<open>mg_drivers/sensors/wheel_odometry\<close> and \<^verbatim>\<open>mg_drivers/wheel_odometry_node\<close>: reading the wheel
  encoder board and publishing odometry.

  The fields of \<^verbatim>\<open>OdometryData\<close> have no initial value in the source; here they are \<open>option\<close>
  values, \<open>None\<close> while indeterminate.
\<close>

section \<open>The device\<close>

record OdometryData =
  od_x :: "real option"
  od_y :: "real option"
  od_th :: "real option"
  od_vx :: "real option"
  od_vy :: "real option"
  od_vth :: "real option"
  od_raw :: bytes
  od_error :: SerialError

definition OdometryData_init :: OdometryData where
  "OdometryData_init =
     \<lparr>od_x = None, od_y = None, od_th = None, od_vx = None, od_vy = None, od_vth = None,
      od_raw = [], od_error = NO_ERROR\<rparr>"

definition get_odom_ret_size :: int where "get_odom_ret_size = 19"
definition zero_buf :: bytes where "zero_buf = [0x24, 0x73]"
definition odom_buf :: bytes where "odom_buf = [0x24, 0x75]"

text \<open>\<^verbatim>\<open>serial_.decode<T>(vector<uint8_t>{&ret[i], &ret[i] + n})\<close>.\<close>

definition decode_at :: "nat \<Rightarrow> nat \<Rightarrow> bytes \<Rightarrow> 'a::len word option" where
  "decode_at i n ret = Option.bind (slice i n ret) decode"

definition wheel_decode :: "bytes \<Rightarrow> OdometryData option" where
  "wheel_decode ret =
     (case (decode_at 2 4 ret :: u32 option, decode_at 6 4 ret :: u32 option,
            decode_at 10 2 ret :: u16 option, decode_at 12 2 ret :: u16 option,
            decode_at 14 2 ret :: u16 option, decode_at 16 2 ret :: u16 option) of
        (Some x, Some y, Some th, Some vx, Some vy, Some vth) \<Rightarrow>
          Some \<lparr>od_x = Some (real_of_int (sint x) / 1000),
                od_y = Some (real_of_int (sint y) / 1000),
                od_th = Some (real_of_int (uint th) / 10000),
                od_vx = Some (real_of_int (sint vx) / 1000),
                od_vy = Some (real_of_int (sint vy) / 1000),
                od_vth = Some (real_of_int (sint vth) / 10000),
                od_raw = ret, od_error = NO_ERROR\<rparr>
      | _ \<Rightarrow> None)"

text \<open>
  A frame that passed the check has 19 bytes, so both \<open>the\<close> below are total (lemmas
  \<open>wheel_check_defined\<close> and \<open>wheel_decode_defined\<close>).
\<close>

definition get_data :: "os_env \<Rightarrow> port \<Rightarrow> OdometryData \<times> port" where
  "get_data env p =
     (let (rec, p) = serial_write env odom_buf True True p
      in if rec \<le> 0 then (OdometryData_init\<lparr>od_error := WRITE_ERROR\<rparr>, p)
         else
           let (retbuf, p) = serial_read env p;
               odom = OdometryData_init\<lparr>od_raw := retbuf\<rparr>;
               err = the (check_error retbuf odom_buf get_odom_ret_size)
           in if err \<noteq> NO_ERROR then (odom\<lparr>od_error := err\<rparr>, p)
              else ((the (wheel_decode retbuf))\<lparr>od_error := err\<rparr>, p))"

fun send_zero_reset :: "os_env \<Rightarrow> nat \<Rightarrow> port \<Rightarrow> SerialError \<times> port" where
  "send_zero_reset env 0 p = (OTHER_ERROR, p)"
| "send_zero_reset env (Suc retry) p =
     (let (ret, p) = serial_readwrite env zero_buf True True p
      in if length ret = 3 then (NO_ERROR, p) else send_zero_reset env retry p)"

definition wheel_probe :: "os_env \<Rightarrow> port \<Rightarrow> SerialError \<times> port" where
  "wheel_probe env p = (let (odom, p) = get_data env p in (od_error odom, p))"

definition wheel_device :: "os_env \<Rightarrow> port serial_device" where
  "wheel_device env = port_device env wheel_probe"

section \<open>The node\<close>

text \<open>\<^verbatim>\<open>tf2::Quaternion::setRPY\<close>: the components x, y, z, w.\<close>

definition setRPY :: "real \<Rightarrow> real \<Rightarrow> real \<Rightarrow> real \<times> real \<times> real \<times> real" where
  "setRPY roll pitch yaw =
     (let halfYaw = yaw * 0.5; halfPitch = pitch * 0.5; halfRoll = roll * 0.5;
          cosYaw = cos halfYaw; sinYaw = sin halfYaw;
          cosPitch = cos halfPitch; sinPitch = sin halfPitch;
          cosRoll = cos halfRoll; sinRoll = sin halfRoll
      in (sinRoll * cosPitch * cosYaw - cosRoll * sinPitch * sinYaw,
          cosRoll * sinPitch * cosYaw + sinRoll * cosPitch * sinYaw,
          cosRoll * cosPitch * sinYaw - sinRoll * sinPitch * cosYaw,
          cosRoll * cosPitch * cosYaw + sinRoll * sinPitch * sinYaw))"

record odometry_msg =
  om_frame_id :: string
  om_child_frame_id :: string
  om_position :: "(real option \<times> real option \<times> real)"
  om_orientation :: "(real \<times> real \<times> real \<times> real) option"
  om_linear_x :: "real option"
  om_linear_y :: real
  om_angular_z :: "real option"
  om_pose_cov :: "real list"
  om_twist_cov :: "real list"

record tf_msg =
  tf_frame_id :: string
  tf_child_frame_id :: string
  tf_translation :: "(real option \<times> real option \<times> real)"
  tf_rotation :: "(real \<times> real \<times> real \<times> real) option"

record wheel_params =
  frame_id_of_odometry :: string
  child_frame_id_of_odometry :: string
  publish_tf_flag :: bool
  always_publish :: bool
  inv_x :: bool
  inv_y :: bool
  inv_th :: bool
  covariance_x :: real
  covariance_y :: real
  covariance_yaw :: real
  covariance_vx :: real
  covariance_vyaw :: real

record wheel_node =
  wheel_port :: port
  wheel_base :: driver_node
  wheel_cfg :: wheel_params
  last_valid_data :: OdometryData
  current_data :: OdometryData
  odom_published :: "odometry_msg list"
  tf_published :: "tf_msg list"

definition zero_reset :: "os_env \<Rightarrow> port \<Rightarrow> bool \<times> port" where
  "zero_reset env p =
     (let (err, p) = send_zero_reset env 1 p in (err = NO_ERROR, p))"

definition WheelOdometryNode :: "os_env \<Rightarrow> string \<Rightarrow> int \<Rightarrow> wheel_params \<Rightarrow> wheel_node" where
  "WheelOdometryNode env dev_name recovery_count cfg =
     \<lparr>wheel_port = snd (zero_reset env (SerialCommunicator2 env dev_name)),
      wheel_base = SerialDriverNode ''odometry'' recovery_count, wheel_cfg = cfg,
      last_valid_data = OdometryData_init, current_data = OdometryData_init,
      odom_published = [], tf_published = []\<rparr>"

definition update_odometry :: "os_env \<Rightarrow> wheel_node \<Rightarrow> wheel_node" where
  "update_odometry env w =
     (let (odom, p) = get_data env (wheel_port w);
          w = w\<lparr>wheel_port := p, current_data := odom\<rparr>;
          w = (if od_error (current_data w) = NO_ERROR then
                 let d = current_data w;
                     d = (if inv_x (wheel_cfg w) then d\<lparr>od_x := map_option uminus (od_x d)\<rparr> else d);
                     d = (if inv_y (wheel_cfg w) then d\<lparr>od_y := map_option uminus (od_y d)\<rparr> else d);
                     d = (if inv_th (wheel_cfg w) then d\<lparr>od_th := map_option uminus (od_th d)\<rparr>
                          else d)
                 in w\<lparr>current_data := d, last_valid_data := d\<rparr>
               else w);
          (p, n) = handle_serial_error (wheel_device env) (od_error (current_data w))
                     (wheel_port w, wheel_base w)
      in w\<lparr>wheel_port := p, wheel_base := n\<rparr>)"

definition odom_message :: "wheel_params \<Rightarrow> OdometryData \<Rightarrow> odometry_msg" where
  "odom_message cfg d =
     (let vx = (case (od_vx d, od_vy d) of
                  (Some a, Some b) \<Rightarrow> Some (sqrt (a ^ 2 + b ^ 2)) | _ \<Rightarrow> None)
      in \<lparr>om_frame_id = frame_id_of_odometry cfg,
          om_child_frame_id = child_frame_id_of_odometry cfg,
          om_position = (od_x d, od_y d, 0),
          om_orientation = map_option (setRPY 0 0) (od_th d),
          om_linear_x = vx, om_linear_y = 0, om_angular_z = od_vth d,
          om_pose_cov = (replicate 36 0)[0 := covariance_x cfg, 7 := covariance_y cfg,
            35 := covariance_yaw cfg],
          om_twist_cov = (replicate 36 0)[0 := covariance_vx cfg,
            35 := covariance_vyaw cfg]\<rparr>)"

definition publish_odometry :: "wheel_node \<Rightarrow> wheel_node" where
  "publish_odometry w =
     (if od_error (current_data w) = NO_ERROR \<or> always_publish (wheel_cfg w) then
        w\<lparr>odom_published := odom_published w @ [odom_message (wheel_cfg w) (last_valid_data w)]\<rparr>
      else w)"

definition publish_tf :: "wheel_node \<Rightarrow> wheel_node" where
  "publish_tf w =
     (if od_error (current_data w) = NO_ERROR \<or> always_publish (wheel_cfg w) then
        let d = last_valid_data w; cfg = wheel_cfg w;
            msg = \<lparr>tf_frame_id = frame_id_of_odometry cfg,
                   tf_child_frame_id = child_frame_id_of_odometry cfg,
                   tf_translation = (od_x d, od_y d, 0),
                   tf_rotation = map_option (setRPY 0 0) (od_th d)\<rparr>
        in w\<lparr>tf_published := tf_published w @ [msg]\<rparr>
      else w)"

definition wheel_publish :: "os_env \<Rightarrow> wheel_node \<Rightarrow> wheel_node" where
  "wheel_publish env w =
     (let w = update_odometry env w;
          w = publish_odometry w
      in if publish_tf_flag (wheel_cfg w) then publish_tf w else w)"

definition zero_reset_srv_callback :: "os_env \<Rightarrow> wheel_node \<Rightarrow> bool \<times> wheel_node" where
  "zero_reset_srv_callback env w =
     (let (ok, p) = zero_reset env (wheel_port w)
      in (if ok then True else False, w\<lparr>wheel_port := p\<rparr>))"

text \<open>The callbacks the executor runs: the publish timer and the health timer.\<close>

datatype wheel_event = PublishTimer | WheelTick

definition wheel_health_check :: "os_env \<Rightarrow> wheel_node \<Rightarrow> wheel_node" where
  "wheel_health_check env w =
     (case health_check (wheel_device env) (Some (wheel_port w), wheel_base w) of
        (Some p, n) \<Rightarrow> w\<lparr>wheel_port := p, wheel_base := n\<rparr>
      | (None, n) \<Rightarrow> w\<lparr>wheel_base := n\<rparr>)"

fun wheel_step :: "os_env \<Rightarrow> wheel_node \<Rightarrow> wheel_event \<Rightarrow> wheel_node" where
  "wheel_step env w PublishTimer = wheel_publish env w"
| "wheel_step env w WheelTick = wheel_health_check env w"

definition wheel_run :: "os_env \<Rightarrow> wheel_node \<Rightarrow> wheel_event list \<Rightarrow> wheel_node" where
  "wheel_run env = foldl (wheel_step env)"

section \<open>Lemmas\<close>

lemma wheel_check_defined: "check_error retbuf odom_buf get_odom_ret_size \<noteq> None"
proof (cases "length retbuf = 19")
  case True
  then show ?thesis by (intro check_error_defined) (simp_all add: odom_buf_def)
next
  case False
  then show ?thesis by (simp add: check_error_def get_odom_ret_size_def)
qed

lemma decode_defined: "0 < length buf \<Longrightarrow> 8 * length buf \<le> LENGTH('a) \<Longrightarrow>
    \<exists>w. decode buf = Some (w :: 'a::len word)"
  by (auto simp: decode_def split: list.splits)

lemma decode_at_defined:
  "i + n \<le> length ret \<Longrightarrow> 0 < n \<Longrightarrow> 8 * n \<le> LENGTH('a) \<Longrightarrow>
     \<exists>w. decode_at i n ret = Some (w :: 'a::len word)"
  unfolding decode_at_def slice_def by (auto intro!: decode_defined)

text \<open>All six values of a reading have been assigned.\<close>

definition is_some :: "'a option \<Rightarrow> bool" where
  "is_some v = (case v of None \<Rightarrow> False | Some _ \<Rightarrow> True)"

lemma is_some_simps [simp]: "is_some (Some a)" "\<not> is_some None" "is_some (map_option f v) = is_some v"
  by (simp_all add: is_some_def split: option.split)

definition determinate :: "OdometryData \<Rightarrow> bool" where
  "determinate d \<longleftrightarrow> is_some (od_x d) \<and> is_some (od_y d) \<and> is_some (od_th d) \<and>
     is_some (od_vx d) \<and> is_some (od_vy d) \<and> is_some (od_vth d)"

lemma wheel_decode_determinate: "wheel_decode ret = Some d \<Longrightarrow> determinate d"
  by (auto simp: wheel_decode_def determinate_def split: option.splits)

lemma wheel_decode_defined:
  assumes "18 \<le> length ret"
  obtains d where "wheel_decode ret = Some d" "determinate d"
proof -
  obtain x y :: u32 and th vx vy vth :: u16 where
    "decode_at 2 4 ret = Some x" "decode_at 6 4 ret = Some y" "decode_at 10 2 ret = Some th"
    "decode_at 12 2 ret = Some vx" "decode_at 14 2 ret = Some vy" "decode_at 16 2 ret = Some vth"
    using assms decode_at_defined [where 'a = 32, of 2 4 ret] decode_at_defined [where 'a = 32, of 6 4 ret]
      decode_at_defined [where 'a = 16, of 10 2 ret] decode_at_defined [where 'a = 16, of 12 2 ret]
      decode_at_defined [where 'a = 16, of 14 2 ret] decode_at_defined [where 'a = 16, of 16 2 ret] by auto
  then have "wheel_decode ret \<noteq> None" by (simp add: wheel_decode_def)
  then show ?thesis using that wheel_decode_determinate by blast
qed

lemma wheel_probe_port [simp]: "snd (wheel_probe env p) = snd (get_data env p)"
  by (simp add: wheel_probe_def Let_def case_prod_beta)

lemma get_data_open [simp]: "is_open_serial (snd (get_data env p)) = is_open_serial p"
  by (auto simp: get_data_def serial_write_def serial_read_def Let_def split: option.splits)

lemma get_data_inv: "port_inv p \<Longrightarrow> port_inv (snd (get_data env p))"
  by (simp add: get_data_def Let_def case_prod_beta serial_write_inv serial_read_inv)

lemma wheel_device_sel [simp]:
  "dev_is_alive (wheel_device env) = is_open_serial"
  "dev_is_present (wheel_device env) = is_device_present env"
  "dev_close_serial (wheel_device env) = close_serial"
  "dev_reset_serial (wheel_device env) = reset_serial env"
  "dev_probe (wheel_device env) = wheel_probe env"
  by (simp_all add: wheel_device_def port_device_def)

interpretation wheel_fd: serial_device_contract
  "wheel_device env" "\<lambda>p. fresh_fds env \<longrightarrow> port_inv p" for env
  by unfold_locales (simp_all add: port_op_inv get_data_inv)

text \<open>The frame the encoder board sends for a given reading.\<close>

definition wheel_frame :: "u32 \<Rightarrow> u32 \<Rightarrow> u16 \<Rightarrow> u16 \<Rightarrow> u16 \<Rightarrow> u16 \<Rightarrow> bytes" where
  "wheel_frame x y th vx vy vth =
     (let body = odom_buf @ encode x @ encode y @ encode th @ encode vx @ encode vy @ encode vth
      in body @ [calc_checksum body])"

lemma slice_append:
  "length xs = i \<Longrightarrow> length ys = n \<Longrightarrow> slice i n (xs @ ys @ zs) = Some ys"
  by (simp add: slice_def)

lemma decode_at_encode:
  assumes "length xs = i" and "LENGTH('a) = 8 * n" and "ret = xs @ encode (w :: 'a::len word) @ zs"
  shows "decode_at i n ret = Some w"
  using assms by (simp add: decode_at_def slice_append decode_encode)

lemma wheel_frame_length [simp]: "length (wheel_frame x y th vx vy vth) = 19"
  by (simp add: wheel_frame_def Let_def odom_buf_def)

lemma wheel_frame_decode:
  fixes x y :: u32 and th vx vy vth :: u16
  defines "f \<equiv> wheel_frame x y th vx vy vth"
  shows "decode_at 2 4 f = Some x" "decode_at 6 4 f = Some y" "decode_at 10 2 f = Some th"
    "decode_at 12 2 f = Some vx" "decode_at 14 2 f = Some vy" "decode_at 16 2 f = Some vth"
proof -
  note split = wheel_frame_def Let_def f_def odom_buf_def
  show "decode_at 2 4 f = Some x"
    by (rule decode_at_encode [where xs = odom_buf]) (simp_all add: split)
  show "decode_at 6 4 f = Some y"
    by (rule decode_at_encode [where xs = "odom_buf @ encode x"]) (simp_all add: split)
  show "decode_at 10 2 f = Some th"
    by (rule decode_at_encode [where xs = "odom_buf @ encode x @ encode y"]) (simp_all add: split)
  show "decode_at 12 2 f = Some vx"
    by (rule decode_at_encode [where xs = "odom_buf @ encode x @ encode y @ encode th"])
      (simp_all add: split)
  show "decode_at 14 2 f = Some vy"
    by (rule decode_at_encode
        [where xs = "odom_buf @ encode x @ encode y @ encode th @ encode vx"])
      (simp_all add: split)
  show "decode_at 16 2 f = Some vth"
    by (rule decode_at_encode
        [where xs = "odom_buf @ encode x @ encode y @ encode th @ encode vx @ encode vy"])
      (simp_all add: split)
qed

lemma wheel_frame_accepted:
  "check_error (wheel_frame x y th vx vy vth) odom_buf get_odom_ret_size = Some NO_ERROR"
proof -
  define body where
    "body = odom_buf @ encode x @ encode y @ encode th @ encode vx @ encode vy @ encode vth"
  have f: "wheel_frame x y th vx vy vth = body @ [calc_checksum body]"
    by (simp add: wheel_frame_def body_def Let_def)
  have "take (length odom_buf) (body @ [calc_checksum body]) = odom_buf"
    by (simp add: body_def)
  moreover have "length (body @ [calc_checksum body]) = 19"
    by (metis f wheel_frame_length)
  ultimately show ?thesis by (simp add: f check_error_ok_iff get_odom_ret_size_def)
qed

text \<open>Successful reads carry a decoded frame; failed ones leave the values indeterminate.\<close>

lemma get_data_ok_determinate:
  assumes "od_error (fst (get_data env p)) = NO_ERROR"
  shows "determinate (fst (get_data env p))"
proof -
  obtain rec p1 where w: "serial_write env odom_buf True True p = (rec, p1)" by fastforce
  obtain buf p2 where r: "serial_read env p1 = (buf, p2)" by fastforce
  have ok: "\<not> rec \<le> 0" "check_error buf odom_buf get_odom_ret_size = Some NO_ERROR"
    using assms w r wheel_check_defined [of buf]
    by (auto simp: get_data_def Let_def split: if_splits)
  then have "18 \<le> length buf" by (simp add: check_error_ok_iff get_odom_ret_size_def)
  then obtain d where "wheel_decode buf = Some d" "determinate d" by (rule wheel_decode_defined)
  with w r ok show ?thesis by (simp add: get_data_def Let_def determinate_def)
qed

lemma setRPY_yaw: "setRPY 0 0 th = (0, 0, sin (th / 2), cos (th / 2))"
  by (simp add: setRPY_def Let_def)

text \<open>The reading with the configured axes inverted, as \<^verbatim>\<open>update_odometry\<close> stores it.\<close>

definition inverted :: "wheel_params \<Rightarrow> OdometryData \<Rightarrow> OdometryData" where
  "inverted cfg d = d\<lparr>od_x := (if inv_x cfg then map_option uminus else id) (od_x d),
     od_y := (if inv_y cfg then map_option uminus else id) (od_y d),
     od_th := (if inv_th cfg then map_option uminus else id) (od_th d)\<rparr>"

lemma inverted_sel [simp]:
  "determinate (inverted cfg d) = determinate d" "od_error (inverted cfg d) = od_error d"
  "od_vx (inverted cfg d) = od_vx d" "od_vy (inverted cfg d) = od_vy d"
  "od_vth (inverted cfg d) = od_vth d"
  by (simp_all add: inverted_def determinate_def)

lemma update_odometry_data:
  "od_error (fst (get_data env (wheel_port w))) = NO_ERROR \<Longrightarrow>
     current_data (update_odometry env w) = inverted (wheel_cfg w) (fst (get_data env (wheel_port w))) \<and>
     last_valid_data (update_odometry env w) = inverted (wheel_cfg w) (fst (get_data env (wheel_port w)))"
  "od_error (fst (get_data env (wheel_port w))) \<noteq> NO_ERROR \<Longrightarrow>
     od_error (current_data (update_odometry env w)) \<noteq> NO_ERROR \<and>
     last_valid_data (update_odometry env w) = last_valid_data w"
  by (simp_all add: update_odometry_def inverted_def Let_def case_prod_beta)

lemma update_odometry_sel [simp]:
  "wheel_cfg (update_odometry env w) = wheel_cfg w"
  "odom_published (update_odometry env w) = odom_published w"
  "tf_published (update_odometry env w) = tf_published w"
  by (simp_all add: update_odometry_def Let_def case_prod_beta)

lemma publish_sel [simp]:
  "wheel_cfg (publish_odometry w) = wheel_cfg w" "wheel_cfg (publish_tf w) = wheel_cfg w"
  "current_data (publish_odometry w) = current_data w"
  "last_valid_data (publish_odometry w) = last_valid_data w"
  "last_valid_data (publish_tf w) = last_valid_data w"
  "tf_published (publish_odometry w) = tf_published w"
  "odom_published (publish_tf w) = odom_published w"
  by (simp_all add: publish_odometry_def publish_tf_def Let_def)

lemma wheel_health_check_sel [simp]:
  "wheel_cfg (wheel_health_check env w) = wheel_cfg w"
  "odom_published (wheel_health_check env w) = odom_published w"
  "tf_published (wheel_health_check env w) = tf_published w"
  by (simp_all add: wheel_health_check_def split: prod.split option.split)

text \<open>The values of a published message that depend on a reading are all determinate.\<close>

definition complete_msg :: "odometry_msg \<Rightarrow> bool" where
  "complete_msg m \<longleftrightarrow> is_some (fst (om_position m)) \<and> is_some (fst (snd (om_position m))) \<and>
     is_some (om_orientation m) \<and> is_some (om_linear_x m) \<and> is_some (om_angular_z m)"

lemma odom_message_complete: "determinate d \<Longrightarrow> complete_msg (odom_message cfg d)"
  by (auto simp: odom_message_def complete_msg_def determinate_def is_some_def split: option.splits)

lemma publish_odometry_none:
  "od_error (current_data w) \<noteq> NO_ERROR \<Longrightarrow> \<not> always_publish (wheel_cfg w) \<Longrightarrow>
     publish_odometry w = w \<and> publish_tf w = w"
  by (simp add: publish_odometry_def publish_tf_def)

lemma wheel_publish_odom:
  "odom_published (wheel_publish env w) = odom_published (publish_odometry (update_odometry env w))"
  "wheel_cfg (wheel_publish env w) = wheel_cfg w"
  by (simp_all add: wheel_publish_def Let_def)

lemma wheel_step_complete:
  assumes "\<not> always_publish (wheel_cfg w)" and "list_all complete_msg (odom_published w)"
  shows "list_all complete_msg (odom_published (wheel_step env w e))"
proof (cases e)
  case PublishTimer
  show ?thesis
  proof (cases "od_error (fst (get_data env (wheel_port w))) = NO_ERROR")
    case True
    then have "determinate (last_valid_data (update_odometry env w))"
      and "od_error (current_data (update_odometry env w)) = NO_ERROR"
      by (simp_all add: update_odometry_data(1) get_data_ok_determinate)
    then show ?thesis
      using assms PublishTimer
      by (simp add: wheel_publish_odom publish_odometry_def odom_message_complete)
  next
    case False
    then show ?thesis
      using assms PublishTimer update_odometry_data(2) [OF False]
        publish_odometry_none [of "update_odometry env w"]
      by (simp add: wheel_publish_odom)
  qed
qed (simp add: assms)

lemma wheel_run_complete:
  "\<not> always_publish (wheel_cfg w) \<Longrightarrow> list_all complete_msg (odom_published w) \<Longrightarrow>
     list_all complete_msg (odom_published (wheel_run env w es))"
proof (induction es arbitrary: w)
  case (Cons e es)
  have "\<not> always_publish (wheel_cfg (wheel_step env w e))"
    using Cons.prems(1) by (cases e) (simp_all add: wheel_publish_odom)
  then show ?case
    using Cons.IH [of "wheel_step env w e"] wheel_step_complete [OF Cons.prems] 
    by (simp add: wheel_run_def)
qed (simp add: wheel_run_def)

section \<open>Properties\<close>

text \<open>
  A reading is exact: when the encoder board answers with the frame of a reading (positions in
  millimetres, velocities in millimetres per second, heading and yaw rate in units of 1/10000 rad), the device returns those values in
  metres and radians, with the signs of the signed fields and no error.
\<close>

theorem wheel_reading_exact:
  fixes x y :: u32 and th vx vy vth :: u16
  assumes "is_open_serial p" and "\<forall>cs. 0 < env_write env cs odom_buf"
    and "\<forall>cs. env_read env cs = Some (wheel_frame x y th vx vy vth)"
  shows "fst (get_data env p) =
    \<lparr>od_x = Some (real_of_int (sint x) / 1000), od_y = Some (real_of_int (sint y) / 1000),
     od_th = Some (real_of_int (uint th) / 10000),
     od_vx = Some (real_of_int (sint vx) / 1000), od_vy = Some (real_of_int (sint vy) / 1000),
     od_vth = Some (real_of_int (sint vth) / 10000),
     od_raw = wheel_frame x y th vx vy vth, od_error = NO_ERROR\<rparr>"
proof -
  have "\<not> env_write env cs odom_buf \<le> 0" for cs using assms(2) by (simp add: not_le)
  then show ?thesis
    using assms(1,3)
    by (simp add: get_data_def serial_write_def serial_read_def Let_def wheel_frame_accepted
        wheel_decode_def wheel_frame_decode)
qed

theorem wheel_reading_exact_witness:
  "od_x (fst (get_data (sample_env (wheel_frame (- 1500) 250 31416 0 0 0))
     (SerialCommunicator2 (sample_env (wheel_frame (- 1500) 250 31416 0 0 0)) ''tty''))) =
     Some (- 1.5)"
proof -
  let ?env = "sample_env (wheel_frame (- 1500) 250 31416 0 0 0)"
  have "is_open_serial (SerialCommunicator2 ?env ''tty'')"
    by (simp add: port_op_defs sample_env_def)
  moreover have "\<forall>cs. 0 < env_write ?env cs odom_buf"
    and "\<forall>cs. env_read ?env cs = Some (wheel_frame (- 1500) 250 31416 0 0 0)"
    by (simp_all add: sample_env_def odom_buf_def)
  ultimately show ?thesis
    using wheel_reading_exact [of "SerialCommunicator2 ?env ''tty''" ?env] by simp
qed

text \<open>
  Odometry is published from readings only: in every run of the publish and health timers from
  start-up, unless \<^verbatim>\<open>always_publish\<close> is set, every odometry message published so far carries
  determinate position, heading and velocities, whatever the serial port returned.
\<close>

theorem odometry_messages_determinate:
  assumes "\<not> always_publish cfg"
  shows "list_all complete_msg
    (odom_published (wheel_run env (WheelOdometryNode env dev_name recovery cfg) es))"
  by (rule wheel_run_complete) (simp_all add: assms WheelOdometryNode_def)

definition sample_wheel_params :: wheel_params where
  "sample_wheel_params = \<lparr>frame_id_of_odometry = ''odom'', child_frame_id_of_odometry = ''base'',
     publish_tf_flag = True, always_publish = False, inv_x = True, inv_y = False, inv_th = False,
     covariance_x = 10, covariance_y = 10, covariance_yaw = 2 / 5, covariance_vx = 1 / 2,
     covariance_vyaw = 39 / 50\<rparr>"

theorem odometry_messages_determinate_witness:
  "list_all complete_msg (odom_published (wheel_run (sample_env [])
     (WheelOdometryNode (sample_env []) ''tty'' 4 sample_wheel_params) [PublishTimer, WheelTick]))"
  by (rule odometry_messages_determinate) (simp add: sample_wheel_params_def)

text \<open>
  One publish cycle, per branch (\<^verbatim>\<open>always_publish\<close> off). A valid reading is published as exactly
  one message with the position of that reading, the configured axes inverted, and its yaw rate; after an
  erroneous reading nothing is published on either topic and the last valid reading is kept.
\<close>

theorem publish_cycle:
  assumes "\<not> always_publish (wheel_cfg w)"
  shows "let r = fst (get_data env (wheel_port w)); d = inverted (wheel_cfg w) r;
      w' = wheel_publish env w
    in if od_error r = NO_ERROR then
        (\<exists>m. odom_published w' = odom_published w @ [m] \<and> om_position m = (od_x d, od_y d, 0) \<and>
           om_orientation m = map_option (\<lambda>th. (0, 0, sin (th / 2), cos (th / 2))) (od_th d) \<and>
           om_angular_z m = od_vth r) \<and>
        last_valid_data w' = d
      else odom_published w' = odom_published w \<and> tf_published w' = tf_published w \<and>
        last_valid_data w' = last_valid_data w"
proof (cases "od_error (fst (get_data env (wheel_port w))) = NO_ERROR")
  case True
  then show ?thesis
    using update_odometry_data(1) [OF True]
    by (simp add: Let_def wheel_publish_def publish_odometry_def odom_message_def
        setRPY_yaw [abs_def])
next
  case False
  then show ?thesis
    using assms update_odometry_data(2) [OF False] publish_odometry_none [of "update_odometry env w"]
    by (simp add: wheel_publish_def Let_def)
qed

theorem publish_cycle_witness:
  "length (odom_published (wheel_publish (sample_env [])
     (WheelOdometryNode (sample_env []) ''tty'' 4 sample_wheel_params))) = 0"
proof -
  let ?w = "WheelOdometryNode (sample_env []) ''tty'' 4 sample_wheel_params"
  have "od_error (fst (get_data (sample_env []) (wheel_port ?w))) \<noteq> NO_ERROR"
    by (simp add: get_data_def serial_write_def serial_read_def sample_env_def
        check_error_def get_odom_ret_size_def Let_def odom_buf_def split: option.splits)
  then show ?thesis
    using publish_cycle [of ?w "sample_env []"]
    by (simp add: WheelOdometryNode_def sample_wheel_params_def Let_def)
qed

text \<open>
  With \<^verbatim>\<open>always_publish\<close> set, a publish cycle whose reading fails before the first valid one sends
  the uninitialised \<^verbatim>\<open>last_valid_data_\<close>: the published position, heading and velocities are
  indeterminate.
\<close>

theorem always_publish_indeterminate:
  assumes "always_publish cfg"
    and "od_error (fst (get_data env (wheel_port (WheelOdometryNode env dev_name recovery cfg)))) \<noteq> NO_ERROR"
  shows "\<exists>m. odom_published (wheel_publish env (WheelOdometryNode env dev_name recovery cfg)) = [m] \<and>
    om_position m = (None, None, 0) \<and> om_orientation m = None \<and> \<not> complete_msg m"
proof -
  let ?w = "update_odometry env (WheelOdometryNode env dev_name recovery cfg)"
  have "wheel_cfg ?w = cfg" and "odom_published ?w = []" and last: "last_valid_data ?w = OdometryData_init"
    using update_odometry_data(2) [OF assms(2)] by (simp_all add: WheelOdometryNode_def)
  then show ?thesis
    using assms(1)
    by (simp add: wheel_publish_odom publish_odometry_def odom_message_def OdometryData_init_def
        complete_msg_def)
qed

theorem always_publish_indeterminate_witness:
  "\<exists>m. odom_published (wheel_publish (sample_env []) (WheelOdometryNode (sample_env []) ''tty'' 4
     (sample_wheel_params\<lparr>always_publish := True\<rparr>))) = [m] \<and> om_position m = (None, None, 0) \<and>
     om_orientation m = None \<and> \<not> complete_msg m"
  by (rule always_publish_indeterminate)
    (simp_all add: get_data_def serial_write_def serial_read_def sample_env_def
        check_error_def get_odom_ret_size_def Let_def odom_buf_def split: option.splits)

end
