(* ===== verification/ObstacleDetector.thy ===== *)
theory ObstacleDetector
  imports FloatVal "HOL-Library.While_Combinator" "HOL-Library.Multiset"
begin

text \<open>
  \<^verbatim>\<open>mg_drivers/obstacle_detection/obstacle_detector\<close>: obstacles from a depth point cloud.  Points are
  moved to the robot frame and cropped to a box, gathered in a horizontal grid, cells whose height
  spread exceeds a threshold become candidates, linked candidates become clusters, and the points
  of clusters that are large enough are the output.

  The source relies on the behaviour of NaN and infinities in comparisons and uses infinities as
  sentinels, so the point coordinates are values of \<open>fval\<close> here: real numbers without rounding,
  the two infinities and NaN.  The raw point buffer is given as the list of its coordinate triples.
  Vectors indexed by cells are lists; that every index is in range is part of the invariant proved
  below.  The timing fields of the statistics are left out.
\<close>

section \<open>Parameters and state\<close>

record ObstacleDetectionParams =
  stride :: int
  cropbox_x_min :: real
  cropbox_x_max :: real
  cropbox_y_min :: real
  cropbox_y_max :: real
  cropbox_z_min :: real
  cropbox_z_max :: real
  grid_size :: real
  delta_z_threshold :: real
  min_points_per_cell :: int
  z_outlier_trim :: int
  cluster_tolerance :: real
  min_cluster_cells :: int

type_synonym Point3 = "fval \<times> fval \<times> fval"

text \<open>\<^verbatim>\<open>Eigen::Isometry3f\<close>: the rows of the rotation and the translation.\<close>

type_synonym isometry = "(fval \<times> fval \<times> fval) \<times> (fval \<times> fval \<times> fval) \<times> (fval \<times> fval \<times> fval) \<times>
  (fval \<times> fval \<times> fval)"

record ObstacleCluster =
  num_cells :: nat
  num_points :: nat
  cl_min_x :: fval
  cl_max_x :: fval
  cl_min_y :: fval
  cl_max_y :: fval
  cl_min_z :: fval
  cl_max_z :: fval

record FrameStats =
  input_points :: nat
  cropped_points :: nat
  candidate_count :: nat
  output_points :: nat
  num_clusters :: nat

record GridCell =
  cell_count :: nat
  z_min1 :: fval
  z_min2 :: fval
  z_max1 :: fval
  z_max2 :: fval
  cell_x_min :: fval
  cell_x_max :: fval
  cell_y_min :: fval
  cell_y_max :: fval

definition GridCell_init :: GridCell where
  "GridCell_init = \<lparr>cell_count = 0, z_min1 = Fin 0, z_min2 = Fin 0, z_max1 = Fin 0, z_max2 = Fin 0,
     cell_x_min = Fin 0, cell_x_max = Fin 0, cell_y_min = Fin 0, cell_y_max = Fin 0\<rparr>"

definition FrameStats_init :: FrameStats where
  "FrameStats_init = \<lparr>input_points = 0, cropped_points = 0, candidate_count = 0,
     output_points = 0, num_clusters = 0\<rparr>"

definition kUnvisited :: int where "kUnvisited = - 1"
definition kNone :: int where "kNone = - 2"

record detector =
  det_params :: ObstacleDetectionParams
  grid_width :: nat
  grid_height :: nat
  link_radius :: nat
  min_points_needed :: int
  grid :: "GridCell list"
  labels :: "int list"
  touched_cells :: "nat list"
  candidate_cells :: "nat list"
  cropped :: "(Point3 \<times> nat) list"
  obstacle_points :: "Point3 list"
  clusters :: "ObstacleCluster list"
  stats :: FrameStats

section \<open>Operations\<close>

datatype param_error = InvalidParam string | GridTooLarge real

definition kMaxGridCells :: real where "kMaxGridCells = 4000000"

definition grid_cells :: "real \<Rightarrow> real \<Rightarrow> real \<Rightarrow> int" where
  "grid_cells lo hi sz = \<lceil>(hi - lo) / sz\<rceil>"

definition validate :: "ObstacleDetectionParams \<Rightarrow> param_error + unit" where
  "validate p =
     (if stride p < 1 then Inl (InvalidParam ''stride must be >= 1'')
      else if cropbox_x_min p \<ge> cropbox_x_max p
        then Inl (InvalidParam ''cropbox_x_min must be < cropbox_x_max'')
      else if cropbox_y_min p \<ge> cropbox_y_max p
        then Inl (InvalidParam ''cropbox_y_min must be < cropbox_y_max'')
      else if cropbox_z_min p \<ge> cropbox_z_max p
        then Inl (InvalidParam ''cropbox_z_min must be < cropbox_z_max'')
      else if grid_size p \<le> 0 then Inl (InvalidParam ''grid_size must be > 0'')
      else if delta_z_threshold p < 0 then Inl (InvalidParam ''delta_z_threshold must be >= 0'')
      else if min_points_per_cell p < 1 then Inl (InvalidParam ''min_points_per_cell must be >= 1'')
      else if z_outlier_trim p < 0 \<or> z_outlier_trim p > 1
        then Inl (InvalidParam ''z_outlier_trim must be 0 or 1'')
      else if cluster_tolerance p \<le> 0 then Inl (InvalidParam ''cluster_tolerance must be > 0'')
      else if min_cluster_cells p < 1 then Inl (InvalidParam ''min_cluster_cells must be >= 1'')
      else
        let cells = real_of_int (grid_cells (cropbox_x_min p) (cropbox_x_max p) (grid_size p)) *
              real_of_int (grid_cells (cropbox_y_min p) (cropbox_y_max p) (grid_size p))
        in if cells > kMaxGridCells then Inl (GridTooLarge cells) else Inr ())"

text \<open>
  The constructor.  The casts to \<^verbatim>\<open>int\<close> are exact on the sizes \<^verbatim>\<open>validate\<close> admits, and on link radii
  below \<open>2 ^ 31\<close>.
\<close>

definition ObstacleDetector :: "ObstacleDetectionParams \<Rightarrow> param_error + detector" where
  "ObstacleDetector p =
     (case validate p of
        Inl e \<Rightarrow> Inl e
      | Inr _ \<Rightarrow>
          let w = nat (grid_cells (cropbox_x_min p) (cropbox_x_max p) (grid_size p));
              h = nat (grid_cells (cropbox_y_min p) (cropbox_y_max p) (grid_size p))
          in Inr \<lparr>det_params = p, grid_width = w, grid_height = h,
                link_radius = nat (max 1 \<lfloor>cluster_tolerance p / grid_size p + 1 / 1000000\<rfloor>),
                min_points_needed = max (min_points_per_cell p) (2 * z_outlier_trim p + 2),
                grid = replicate (w * h) GridCell_init, labels = replicate (w * h) kNone,
                touched_cells = [], candidate_cells = [], cropped = [], obstacle_points = [],
                clusters = [], stats = FrameStats_init\<rparr>)"

text \<open>The points at indices \<open>0\<close>, \<open>stride\<close>, \<open>2 * stride\<close> and so on.\<close>

function every :: "nat \<Rightarrow> 'a list \<Rightarrow> 'a list" where
  "every k [] = []"
| "every k (x # xs) = x # every k (drop (k - 1) xs)"
  by pat_completeness auto
termination by (relation "measure (length \<circ> snd)") auto

definition row_mul :: "fval \<times> fval \<times> fval \<Rightarrow> Point3 \<Rightarrow> fval \<Rightarrow> fval" where
  "row_mul = (\<lambda>(a, b, c) (sx, sy, sz) t.
     f_add (f_add (f_add (f_mul a sx) (f_mul b sy)) (f_mul c sz)) t)"

definition to_base :: "isometry \<Rightarrow> Point3 \<Rightarrow> Point3" where
  "to_base = (\<lambda>(r0, r1, r2, (tx, ty, tz)) s. (row_mul r0 s tx, row_mul r1 s ty, row_mul r2 s tz))"

definition in_roi :: "ObstacleDetectionParams \<Rightarrow> Point3 \<Rightarrow> bool" where
  "in_roi p = (\<lambda>(x, y, z).
     f_le (Fin (cropbox_x_min p)) x \<and> f_lt x (Fin (cropbox_x_max p)) \<and>
     f_le (Fin (cropbox_y_min p)) y \<and> f_lt y (Fin (cropbox_y_max p)) \<and>
     f_le (Fin (cropbox_z_min p)) z \<and> f_le z (Fin (cropbox_z_max p)))"

definition axis_cell :: "fval \<Rightarrow> real \<Rightarrow> real \<Rightarrow> nat \<Rightarrow> nat" where
  "axis_cell x lo inv_grid n = min (nat (trunc_int (fin_val (f_mul (f_sub x (Fin lo)) (Fin inv_grid))))) (n - 1)"

definition cell_index :: "detector \<Rightarrow> Point3 \<Rightarrow> nat" where
  "cell_index d = (\<lambda>(x, y, z).
     let inv_grid = 1 / grid_size (det_params d);
         ix = axis_cell x (cropbox_x_min (det_params d)) inv_grid (grid_width d);
         iy = axis_cell y (cropbox_y_min (det_params d)) inv_grid (grid_height d)
     in ix + iy * grid_width d)"

definition update_cell :: "Point3 \<Rightarrow> GridCell \<Rightarrow> GridCell" where
  "update_cell = (\<lambda>(x, y, z) cell.
     (let cell =
        (if cell_count cell = 0 then
           cell\<lparr>z_min1 := z, z_min2 := PInf, z_max1 := z, z_max2 := NInf,
             cell_x_min := x, cell_x_max := x, cell_y_min := y, cell_y_max := y\<rparr>
         else
           let cell = (if f_lt z (z_min1 cell) then cell\<lparr>z_min2 := z_min1 cell, z_min1 := z\<rparr>
                       else if f_lt z (z_min2 cell) then cell\<lparr>z_min2 := z\<rparr> else cell);
               cell = (if f_lt (z_max1 cell) z then cell\<lparr>z_max2 := z_max1 cell, z_max1 := z\<rparr>
                       else if f_lt (z_max2 cell) z then cell\<lparr>z_max2 := z\<rparr> else cell)
           in cell\<lparr>cell_x_min := f_min (cell_x_min cell) x, cell_x_max := f_max (cell_x_max cell) x,
                cell_y_min := f_min (cell_y_min cell) y, cell_y_max := f_max (cell_y_max cell) y\<rparr>)
      in cell\<lparr>cell_count := cell_count cell + 1\<rparr>))"

definition accumulate_point :: "isometry \<Rightarrow> Point3 \<Rightarrow> detector \<Rightarrow> detector" where
  "accumulate_point tf s d =
     (let q = to_base tf s
      in if \<not> in_roi (det_params d) q then d
         else
           let idx = cell_index d q;
               cell = grid d ! idx;
               d = (if cell_count cell = 0 then d\<lparr>touched_cells := touched_cells d @ [idx]\<rparr> else d)
           in d\<lparr>grid := (grid d)[idx := update_cell q cell], cropped := cropped d @ [(q, idx)]\<rparr>)"

definition clear_cell :: "nat \<Rightarrow> detector \<Rightarrow> detector" where
  "clear_cell idx d =
     d\<lparr>grid := (grid d)[idx := GridCell_init], labels := (labels d)[idx := kNone]\<rparr>"

definition accumulate :: "Point3 list \<Rightarrow> isometry \<Rightarrow> detector \<Rightarrow> detector" where
  "accumulate pts tf d =
     (let d = fold clear_cell (touched_cells d) d;
          d = d\<lparr>touched_cells := [], candidate_cells := [], cropped := []\<rparr>
      in fold (accumulate_point tf) (every (nat (stride (det_params d))) pts) d)"

definition is_obstacle_cell :: "detector \<Rightarrow> GridCell \<Rightarrow> bool" where
  "is_obstacle_cell d cell \<longleftrightarrow>
     \<not> int (cell_count cell) < min_points_needed d \<and>
     (let trim = z_outlier_trim (det_params d) > 0;
          z_low = (if trim then z_min2 cell else z_min1 cell);
          z_high = (if trim then z_max2 cell else z_max1 cell)
      in f_lt (Fin (delta_z_threshold (det_params d))) (f_sub z_high z_low))"

definition judge_cell :: "nat \<Rightarrow> detector \<Rightarrow> detector" where
  "judge_cell idx d =
     (if is_obstacle_cell d (grid d ! idx)
      then d\<lparr>labels := (labels d)[idx := kUnvisited], candidate_cells := candidate_cells d @ [idx]\<rparr>
      else d)"

definition judgeCells :: "detector \<Rightarrow> detector" where
  "judgeCells d =
     (let d = fold judge_cell (touched_cells d) d
      in d\<lparr>stats := (stats d)\<lparr>candidate_count := length (candidate_cells d)\<rparr>\<rparr>)"

text \<open>The cells in the linking window around a cell, in the order of the two nested loops.\<close>

definition neighbours :: "detector \<Rightarrow> nat \<Rightarrow> nat list" where
  "neighbours d idx =
     (let ix = idx mod grid_width d; iy = idx div grid_width d;
          x_begin = ix - link_radius d; x_end = min (grid_width d - 1) (ix + link_radius d);
          y_begin = iy - link_radius d; y_end = min (grid_height d - 1) (iy + link_radius d)
      in concat (map (\<lambda>ny. map (\<lambda>nx. nx + ny * grid_width d) [x_begin..<Suc x_end])
           [y_begin..<Suc y_end]))"

definition visit :: "int \<Rightarrow> nat \<Rightarrow> int list \<times> nat list \<Rightarrow> int list \<times> nat list" where
  "visit cluster_id n = (\<lambda>(lab, stack).
     if lab ! n = kUnvisited then (lab[n := cluster_id], n # stack) else (lab, stack))"

definition extend_cluster :: "GridCell \<Rightarrow> ObstacleCluster \<Rightarrow> ObstacleCluster" where
  "extend_cluster cell c =
     c\<lparr>cl_min_x := f_min (cl_min_x c) (cell_x_min cell), cl_max_x := f_max (cl_max_x c) (cell_x_max cell),
       cl_min_y := f_min (cl_min_y c) (cell_y_min cell), cl_max_y := f_max (cl_max_y c) (cell_y_max cell),
       cl_min_z := f_min (cl_min_z c) (z_min1 cell), cl_max_z := f_max (cl_max_z c) (z_max1 cell)\<rparr>"

definition empty_cluster :: ObstacleCluster where
  "empty_cluster = \<lparr>num_cells = 0, num_points = 0, cl_min_x = Fin FLT_MAX, cl_max_x = Fin (- FLT_MAX),
     cl_min_y = Fin FLT_MAX, cl_max_y = Fin (- FLT_MAX), cl_min_z = Fin FLT_MAX,
     cl_max_z = Fin (- FLT_MAX)\<rparr>"

text \<open>
  The search of one component: labels, stack (its back is the head of the list), component and
  bounds.  The loop is a \<open>while_option\<close>; its value \<open>None\<close> would mean that it does not end.
\<close>

type_synonym search = "int list \<times> nat list \<times> nat list \<times> ObstacleCluster"

definition search_step :: "detector \<Rightarrow> int \<Rightarrow> search \<Rightarrow> search" where
  "search_step d cluster_id = (\<lambda>(lab, stack, component, cluster).
     let idx = hd stack; stack = tl stack;
         component = component @ [idx];
         cluster = extend_cluster (grid d ! idx) cluster;
         (lab, stack) = fold (visit cluster_id) (neighbours d idx) (lab, stack)
     in (lab, stack, component, cluster))"

definition search_component :: "detector \<Rightarrow> nat \<Rightarrow> search option" where
  "search_component d seed =
     (let cluster_id = int (length (clusters d))
      in while_option (\<lambda>(lab, stack, component, cluster). stack \<noteq> []) (search_step d cluster_id)
           ((labels d)[seed := cluster_id], [seed], [], empty_cluster))"

definition cluster_seed :: "nat \<Rightarrow> detector \<Rightarrow> detector option" where
  "cluster_seed seed d =
     (if labels d ! seed \<noteq> kUnvisited then Some d
      else
        case search_component d seed of
          None \<Rightarrow> None
        | Some (lab, stack, component, cluster) \<Rightarrow>
            if int (length component) < min_cluster_cells (det_params d)
            then Some (d\<lparr>labels := fold (\<lambda>idx lab. lab[idx := kNone]) component lab\<rparr>)
            else Some (d\<lparr>labels := lab,
                   clusters := clusters d @ [cluster\<lparr>num_cells := length component\<rparr>]\<rparr>))"

fun cluster_seeds :: "nat list \<Rightarrow> detector \<Rightarrow> detector option" where
  "cluster_seeds [] d = Some d"
| "cluster_seeds (s # ss) d = Option.bind (cluster_seed s d) (cluster_seeds ss)"

definition clusterCells :: "detector \<Rightarrow> detector option" where
  "clusterCells d = cluster_seeds (candidate_cells d) d"

definition extract_point :: "Point3 \<times> nat \<Rightarrow> detector \<Rightarrow> detector" where
  "extract_point = (\<lambda>(p, cell) d.
     let label = labels d ! cell
     in if label < 0 then d
        else
          d\<lparr>obstacle_points := obstacle_points d @ [p],
            clusters := (clusters d)[nat label :=
              (clusters d ! nat label)\<lparr>num_points := num_points (clusters d ! nat label) + 1\<rparr>]\<rparr>)"

definition extractPoints :: "detector \<Rightarrow> detector" where
  "extractPoints d = fold extract_point (cropped d) d"

definition process :: "Point3 list \<Rightarrow> isometry \<Rightarrow> detector \<Rightarrow> detector option" where
  "process pts tf d =
     (let d = d\<lparr>stats := FrameStats_init\<lparr>input_points := length pts\<rparr>,
            obstacle_points := [], clusters := []\<rparr>
      in case clusterCells (judgeCells (accumulate pts tf d)) of
           None \<Rightarrow> None
         | Some d \<Rightarrow>
             let d = extractPoints d
             in Some (d\<lparr>stats := (stats d)\<lparr>cropped_points := length (cropped d),
                  output_points := length (obstacle_points d),
                  num_clusters := length (clusters d)\<rparr>\<rparr>))"

section \<open>Cropped points\<close>

lemma in_roi_finite:
  assumes "in_roi p q"
  obtains x y z where "q = (Fin x, Fin y, Fin z)"
    and "cropbox_x_min p \<le> x" "x < cropbox_x_max p"
    and "cropbox_y_min p \<le> y" "y < cropbox_y_max p"
    and "cropbox_z_min p \<le> z" "z \<le> cropbox_z_max p"
proof -
  obtain x y z where q: "q = (x, y, z)" by (cases q)
  obtain a where "x = Fin a" "cropbox_x_min p \<le> a" "a < cropbox_x_max p"
    using assms f_le_between(2) [of "cropbox_x_min p" x] by (auto simp: in_roi_def q)
  moreover obtain b where "y = Fin b" "cropbox_y_min p \<le> b" "b < cropbox_y_max p"
    using assms f_le_between(2) [of "cropbox_y_min p" y] by (auto simp: in_roi_def q)
  moreover obtain c where "z = Fin c" "cropbox_z_min p \<le> c" "c \<le> cropbox_z_max p"
    using assms f_le_between(1) [of "cropbox_z_min p" z] by (auto simp: in_roi_def q)
  ultimately show ?thesis using that q by blast
qed

section \<open>The invariant\<close>

text \<open>
  What the constructor establishes and every frame keeps: the geometry, the lengths of the two cell
  vectors, and that every cell outside \<^verbatim>\<open>touched_cells_\<close> has its initial value.
\<close>

definition geometry_ok :: "detector \<Rightarrow> bool" where
  "geometry_ok d \<longleftrightarrow>
     validate (det_params d) = Inr () \<and>
     0 < grid_width d \<and> 0 < grid_height d \<and> 1 \<le> link_radius d \<and>
     grid_width d = nat (grid_cells (cropbox_x_min (det_params d)) (cropbox_x_max (det_params d))
       (grid_size (det_params d))) \<and>
     grid_height d = nat (grid_cells (cropbox_y_min (det_params d)) (cropbox_y_max (det_params d))
       (grid_size (det_params d))) \<and>
     min_points_needed d =
       max (min_points_per_cell (det_params d)) (2 * z_outlier_trim (det_params d) + 2)"

definition cells :: "detector \<Rightarrow> nat" where
  "cells d = grid_width d * grid_height d"

definition det_inv :: "detector \<Rightarrow> bool" where
  "det_inv d \<longleftrightarrow> geometry_ok d \<and> length (grid d) = cells d \<and> length (labels d) = cells d \<and>
     set (touched_cells d) \<subseteq> {..<cells d} \<and>
     (\<forall>i < cells d. i \<in> set (touched_cells d) \<or> grid d ! i = GridCell_init \<and> labels d ! i = kNone)"

lemma grid_cells_pos: "lo < hi \<Longrightarrow> 0 < sz \<Longrightarrow> 0 < grid_cells lo hi sz"
  by (simp add: grid_cells_def)

lemma validate_ok_iff:
  "validate p = Inr () \<longleftrightarrow>
     1 \<le> stride p \<and> cropbox_x_min p < cropbox_x_max p \<and> cropbox_y_min p < cropbox_y_max p \<and>
     cropbox_z_min p < cropbox_z_max p \<and> 0 < grid_size p \<and> 0 \<le> delta_z_threshold p \<and>
     1 \<le> min_points_per_cell p \<and> z_outlier_trim p \<in> {0, 1} \<and> 0 < cluster_tolerance p \<and>
     1 \<le> min_cluster_cells p \<and>
     real_of_int (grid_cells (cropbox_x_min p) (cropbox_x_max p) (grid_size p)) *
       real_of_int (grid_cells (cropbox_y_min p) (cropbox_y_max p) (grid_size p)) \<le> kMaxGridCells"
  unfolding validate_def by (auto simp: Let_def not_less not_le)

lemma ObstacleDetector_inv: "ObstacleDetector p = Inr d \<Longrightarrow> det_inv d"
  by (auto simp: ObstacleDetector_def det_inv_def geometry_ok_def cells_def validate_ok_iff
      grid_cells_pos Let_def split: sum.splits)

lemma axis_cell_less: "0 < n \<Longrightarrow> axis_cell x lo ig n < n"
  by (simp add: axis_cell_def)

lemma grid_index_less: "(ix :: nat) < w \<Longrightarrow> iy < h \<Longrightarrow> ix + iy * w < w * h"
  using mult_le_mono2 [of "Suc iy" h w] by (simp add: algebra_simps)

lemma geometry_pos: "geometry_ok d \<Longrightarrow> 0 < grid_width d" "geometry_ok d \<Longrightarrow> 0 < grid_height d"
  unfolding geometry_ok_def by blast+

lemma cell_index_less: "geometry_ok d \<Longrightarrow> cell_index d q < cells d"
  by (cases q) (simp add: cell_index_def cells_def geometry_pos Let_def grid_index_less axis_cell_less)

section \<open>Accumulation\<close>

text \<open>The cropped points of a frame, and the same in the order of first use of their cells.\<close>

definition roi_points :: "ObstacleDetectionParams \<Rightarrow> Point3 list \<Rightarrow> isometry \<Rightarrow> Point3 list" where
  "roi_points p pts tf = filter (in_roi p) (map (to_base tf) (every (nat (stride p)) pts))"

definition first_uses :: "'a list \<Rightarrow> 'a list" where
  "first_uses xs = rev (remdups (rev xs))"

lemma first_uses_simps [simp]:
  "first_uses [] = []"
  "first_uses (xs @ [x]) = (if x \<in> set xs then first_uses xs else first_uses xs @ [x])"
  "set (first_uses xs) = set xs" "distinct (first_uses xs)"
  by (simp_all add: first_uses_def)

definition cell_value :: "detector \<Rightarrow> Point3 list \<Rightarrow> nat \<Rightarrow> GridCell" where
  "cell_value d qs i = fold update_cell (filter (\<lambda>q. cell_index d q = i) qs) GridCell_init"

definition gathered :: "Point3 list \<Rightarrow> detector \<Rightarrow> detector" where
  "gathered qs d = d\<lparr>grid := map (cell_value d qs) [0..<cells d], labels := replicate (cells d) kNone,
     touched_cells := first_uses (map (cell_index d) qs), candidate_cells := [],
     cropped := map (\<lambda>q. (q, cell_index d q)) qs\<rparr>"

lemma update_cell_count [simp]: "cell_count (update_cell q c) = Suc (cell_count c)"
  by (cases q) (simp add: update_cell_def Let_def)

lemma fold_update_cell_count [simp]:
  "cell_count (fold update_cell qs c) = cell_count c + length qs"
  by (induction qs arbitrary: c) simp_all

lemma cell_value_count [simp]:
  "cell_count (cell_value d qs i) = length (filter (\<lambda>q. cell_index d q = i) qs)"
  by (simp add: cell_value_def GridCell_init_def)

lemma cell_value_untouched: "i \<notin> cell_index d ` set qs \<Longrightarrow> cell_value d qs i = GridCell_init"
proof -
  assume "i \<notin> cell_index d ` set qs"
  then have "filter (\<lambda>q. cell_index d q = i) qs = []" unfolding filter_empty_conv by blast
  then show ?thesis by (simp add: cell_value_def)
qed

lemma cell_index_cong:
  "det_params d' = det_params d \<Longrightarrow> grid_width d' = grid_width d \<Longrightarrow> grid_height d' = grid_height d \<Longrightarrow>
     cell_index d' = cell_index d"
  by (simp add: cell_index_def)

lemma gathered_snoc:
  assumes "geometry_ok d" and "in_roi (det_params d) (to_base tf s)"
  shows "accumulate_point tf s (gathered qs d) = gathered (qs @ [to_base tf s]) d"
proof -
  let ?q = "to_base tf s" let ?i = "cell_index d (to_base tf s)"
  have i: "?i < cells d" using assms(1) by (rule cell_index_less)
  have idx: "cell_index (gathered qs d) = cell_index d"
    by (rule cell_index_cong) (simp_all add: gathered_def)
  have cell: "grid (gathered qs d) ! ?i = cell_value d qs ?i"
    using i by (simp add: gathered_def)
  have new: "cell_count (cell_value d qs ?i) = 0 \<longleftrightarrow> ?i \<notin> cell_index d ` set qs"
    unfolding cell_value_count length_0_conv filter_empty_conv image_iff by metis
  have g: "(map (cell_value d qs) [0..<cells d])[?i := update_cell ?q (cell_value d qs ?i)] =
      map (cell_value d (qs @ [?q])) [0..<cells d]"
    using i by (intro nth_equalityI) (auto simp: nth_list_update cell_value_def)
  show ?thesis
    using assms(2) new
    by (simp add: accumulate_point_def Let_def idx cell) (simp add: gathered_def g)
qed

lemma accumulate_points_gathered:
  assumes "geometry_ok d"
  shows "fold (accumulate_point tf) ss (gathered qs d) =
    gathered (qs @ filter (in_roi (det_params d)) (map (to_base tf) ss)) d"
proof (induction ss arbitrary: qs)
  case (Cons s ss)
  show ?case
  proof (cases "in_roi (det_params d) (to_base tf s)")
    case True
    then show ?thesis using Cons.IH gathered_snoc [OF assms True] by simp
  next
    case False
    then have "accumulate_point tf s (gathered qs d) = gathered qs d"
      by (simp add: accumulate_point_def gathered_def Let_def)
    then show ?thesis using Cons.IH False by simp
  qed
qed simp

lemma fold_clear_cell:
  "fold clear_cell idxs d =
     d\<lparr>grid := fold (\<lambda>i xs. xs[i := GridCell_init]) idxs (grid d),
       labels := fold (\<lambda>i xs. xs[i := kNone]) idxs (labels d)\<rparr>"
  by (induction idxs arbitrary: d) (simp_all add: clear_cell_def)

lemma fold_update_length [simp]: "length (fold (\<lambda>i xs. xs[i := v]) idxs xs) = length xs"
  by (induction idxs arbitrary: xs) simp_all

lemma fold_update_nth:
  "i < length xs \<Longrightarrow> fold (\<lambda>i xs. xs[i := v]) idxs xs ! i = (if i \<in> set idxs then v else xs ! i)"
  by (induction idxs arbitrary: xs) (auto simp: nth_list_update)

lemma fold_update_all:
  assumes "length xs = n" and "\<forall>i < n. i \<in> set idxs \<or> xs ! i = v"
  shows "fold (\<lambda>i xs. xs[i := v]) idxs xs = replicate n v"
  using assms by (intro nth_equalityI) (auto simp: fold_update_nth)

lemma accumulate_gathered:
  assumes "det_inv d"
  shows "accumulate pts tf d = gathered (roi_points (det_params d) pts tf) d"
proof -
  have g: "geometry_ok d" using assms by (simp add: det_inv_def)
  have "fold (\<lambda>i xs. xs[i := GridCell_init]) (touched_cells d) (grid d) = replicate (cells d) GridCell_init"
    and "fold (\<lambda>i xs. xs[i := kNone]) (touched_cells d) (labels d) = replicate (cells d) kNone"
    using assms by (auto simp: det_inv_def intro!: fold_update_all)
  moreover have "map (cell_value d []) [0..<cells d] = replicate (cells d) GridCell_init"
    by (intro nth_equalityI) (simp_all add: cell_value_def)
  ultimately have "(fold clear_cell (touched_cells d) d)
      \<lparr>touched_cells := [], candidate_cells := [], cropped := []\<rparr> = gathered [] d"
    by (simp add: fold_clear_cell gathered_def)
  then show ?thesis
    using accumulate_points_gathered [OF g, where qs = "[]"]
    by (simp add: accumulate_def roi_points_def Let_def fold_clear_cell)
qed

section \<open>Judging\<close>

lemma is_obstacle_cell_cong:
  "det_params d' = det_params d \<Longrightarrow> min_points_needed d' = min_points_needed d \<Longrightarrow>
     is_obstacle_cell d' c = is_obstacle_cell d c"
  by (simp add: is_obstacle_cell_def)

lemma fold_judge_cell:
  "fold judge_cell idxs d =
     d\<lparr>labels := fold (\<lambda>i xs. xs[i := kUnvisited])
         (filter (\<lambda>i. is_obstacle_cell d (grid d ! i)) idxs) (labels d),
       candidate_cells := candidate_cells d @ filter (\<lambda>i. is_obstacle_cell d (grid d ! i)) idxs\<rparr>"
proof (induction idxs arbitrary: d)
  case (Cons i idxs)
  have "is_obstacle_cell (judge_cell i d) = is_obstacle_cell d" and "grid (judge_cell i d) = grid d"
    by (simp_all add: judge_cell_def is_obstacle_cell_def fun_eq_iff)
  then show ?case using Cons.IH [of "judge_cell i d"] by (simp add: judge_cell_def)
qed simp

section \<open>Linked cells\<close>

definition linked :: "detector \<Rightarrow> nat \<Rightarrow> nat \<Rightarrow> bool" where
  "linked d i j \<longleftrightarrow>
     i mod grid_width d \<le> j mod grid_width d + link_radius d \<and>
     j mod grid_width d \<le> i mod grid_width d + link_radius d \<and>
     i div grid_width d \<le> j div grid_width d + link_radius d \<and>
     j div grid_width d \<le> i div grid_width d + link_radius d"

lemma linked_sym: "linked d i j \<Longrightarrow> linked d j i"
  by (simp add: linked_def)

text \<open>The cells that are connected with a cell through linked cells of a set.\<close>

definition link_rel :: "detector \<Rightarrow> nat set \<Rightarrow> (nat \<times> nat) set" where
  "link_rel d C = {(i, j). i \<in> C \<and> j \<in> C \<and> linked d i j}"

definition component :: "detector \<Rightarrow> nat set \<Rightarrow> nat \<Rightarrow> nat set" where
  "component d C i = {j. (i, j) \<in> (link_rel d C)\<^sup>*}"

lemma link_rel_sym: "sym (link_rel d C)"
  by (auto simp: sym_def link_rel_def linked_sym)

lemma component_refl [simp]: "i \<in> component d C i"
  by (simp add: component_def)

lemma component_sym: "j \<in> component d C i \<Longrightarrow> i \<in> component d C j"
  using sym_rtrancl [OF link_rel_sym, of d C] by (auto simp: component_def sym_def)

lemma component_trans: "j \<in> component d C i \<Longrightarrow> k \<in> component d C j \<Longrightarrow> k \<in> component d C i"
  by (auto simp: component_def)

lemma component_eq: "j \<in> component d C i \<Longrightarrow> component d C j = component d C i"
  by (blast intro: component_sym component_trans)

lemma component_subset: "i \<in> C \<Longrightarrow> component d C i \<subseteq> C"
  unfolding component_def by (auto elim: rtranclE simp: link_rel_def)

lemma component_least:
  assumes "i \<in> S" and "\<And>j k. j \<in> S \<Longrightarrow> (j, k) \<in> link_rel d C \<Longrightarrow> k \<in> S"
  shows "component d C i \<subseteq> S"
proof
  fix j assume "j \<in> component d C i"
  then have "(i, j) \<in> (link_rel d C)\<^sup>*" by (simp add: component_def)
  then show "j \<in> S" by (induction rule: rtrancl_induct) (auto intro: assms)
qed

lemma component_step: "j \<in> component d C i \<Longrightarrow> (j, k) \<in> link_rel d C \<Longrightarrow> k \<in> component d C i"
  by (auto simp: component_def intro: rtrancl_into_rtrancl)

lemma neighbours_iff:
  assumes "geometry_ok d" and "i < cells d"
  shows "j \<in> set (neighbours d i) \<longleftrightarrow> j < cells d \<and> linked d i j"
proof -
  let ?w = "grid_width d" let ?h = "grid_height d" let ?r = "link_radius d"
  have w: "0 < ?w" and h: "0 < ?h" using assms(1) by (rule geometry_pos)+
  have iy: "i div ?w < ?h"
    using assms(2) w by (simp add: cells_def less_mult_imp_div_less mult.commute)
  have window: "set [a - ?r..<Suc (min (n - 1) (a + ?r))] = {x. x < n \<and> a \<le> x + ?r \<and> x \<le> a + ?r}"
    if "0 < n" for a n :: nat using that by auto
  have "j \<in> set (neighbours d i) \<longleftrightarrow> (\<exists>nx ny. j = nx + ny * ?w \<and> nx < ?w \<and> ny < ?h \<and>
      i mod ?w \<le> nx + ?r \<and> nx \<le> i mod ?w + ?r \<and> i div ?w \<le> ny + ?r \<and> ny \<le> i div ?w + ?r)"
    unfolding neighbours_def Let_def set_concat set_map image_image window [OF w] window [OF h] by blast
  also have "\<dots> \<longleftrightarrow> j < cells d \<and> linked d i j" (is "?L \<longleftrightarrow> ?R")
  proof
    assume ?L
    then obtain nx ny where *: "j = nx + ny * ?w" "nx < ?w" "ny < ?h"
      "i mod ?w \<le> nx + ?r" "nx \<le> i mod ?w + ?r" "i div ?w \<le> ny + ?r" "ny \<le> i div ?w + ?r" by blast
    then have "j mod ?w = nx" and "j div ?w = ny" by simp_all
    moreover have "j < cells d" using * by (simp add: cells_def grid_index_less)
    ultimately show ?R using * by (simp add: linked_def)
  next
    assume ?R
    then have "j div ?w < ?h"
      using w by (simp add: cells_def less_mult_imp_div_less mult.commute)
    then show ?L
      using \<open>?R\<close> w by (intro exI [of _ "j mod ?w"] exI [of _ "j div ?w"]) (simp add: linked_def)
  qed
  finally show ?thesis .
qed

section \<open>The search of one component\<close>

lemma fold_visit:
  assumes "cid \<noteq> kUnvisited"
  shows "set ns \<subseteq> {..<length lab} \<Longrightarrow>
    fold (visit cid) ns (lab, stack) =
     (fold (\<lambda>i xs. xs[i := cid]) (first_uses (filter (\<lambda>j. lab ! j = kUnvisited) ns)) lab,
      rev (first_uses (filter (\<lambda>j. lab ! j = kUnvisited) ns)) @ stack)"
proof (induction ns rule: rev_induct)
  case (snoc n ns)
  then have "n < length lab" by simp
  then show ?case using snoc assms by (simp add: visit_def fold_update_nth)
qed simp

text \<open>
  The invariant of the search from a seed, over the set \<open>U\<close> of cells that were unvisited when it
  started: the cells found so far are labelled, every neighbour of a finished cell has been found,
  and every cell found is connected with the seed.
\<close>

definition search_inv :: "detector \<Rightarrow> int \<Rightarrow> nat set \<Rightarrow> nat \<Rightarrow> search \<Rightarrow> bool" where
  "search_inv d cid U seed = (\<lambda>(lab, stack, found, cl).
     length lab = cells d \<and> distinct (stack @ found) \<and> seed \<in> set (stack @ found) \<and>
     set (stack @ found) \<subseteq> component d U seed \<and>
     (\<forall>i < cells d. lab ! i = (if i \<in> set (stack @ found) then cid else labels d ! i)) \<and>
     (\<forall>i \<in> set found. \<forall>j. (i, j) \<in> link_rel d U \<longrightarrow> j \<in> set (stack @ found)) \<and>
     cl = fold (extend_cluster \<circ> (!) (grid d)) found empty_cluster)"

definition unvisited :: "detector \<Rightarrow> nat set" where
  "unvisited d = {i. i < cells d \<and> labels d ! i = kUnvisited}"

lemma search_step_inv:
  assumes geo: "geometry_ok d" and cid: "cid \<noteq> kUnvisited" and seed: "seed \<in> unvisited d"
    and inv: "search_inv d cid (unvisited d) seed (lab, i # stack, found, cl)"
  obtains new where
    "search_step d cid (lab, i # stack, found, cl) =
       (fold (\<lambda>i xs. xs[i := cid]) new lab, rev new @ stack, found @ [i],
        extend_cluster (grid d ! i) cl)"
    "search_inv d cid (unvisited d) seed (search_step d cid (lab, i # stack, found, cl))"
    "set new \<subseteq> unvisited d" "distinct new" "set new \<inter> set (i # stack @ found) = {}"
proof -
  let ?U = "unvisited d"
  define new where "new = first_uses (filter (\<lambda>j. lab ! j = kUnvisited) (neighbours d i))"
  have len: "length lab = cells d" and sub: "set (i # stack @ found) \<subseteq> component d ?U seed"
    and lab: "\<And>j. j < cells d \<Longrightarrow> lab ! j = (if j \<in> set (i # stack @ found) then cid else labels d ! j)"
    using inv by (auto simp: search_inv_def)
  have subU: "component d ?U seed \<subseteq> ?U" using seed by (rule component_subset)
  then have i: "i < cells d" "i \<in> ?U" using sub by (auto simp: unvisited_def)
  have nb: "\<And>j. j \<in> set (neighbours d i) \<longleftrightarrow> j < cells d \<and> linked d i j"
    using geo i(1) by (rule neighbours_iff)
  have new: "\<And>j. j \<in> set new \<longleftrightarrow> (i, j) \<in> link_rel d ?U \<and> j \<notin> set (i # stack @ found)"
    using cid i by (auto simp: new_def nb lab link_rel_def unvisited_def split: if_splits)
  have "set (neighbours d i) \<subseteq> {..<length lab}" by (intro subsetI) (simp add: nb len)
  from fold_visit [OF cid this, of stack]
  have step: "search_step d cid (lab, i # stack, found, cl) =
      (fold (\<lambda>i xs. xs[i := cid]) new lab, rev new @ stack, found @ [i], extend_cluster (grid d ! i) cl)"
    by (simp add: search_step_def new_def)
  have "set new \<subseteq> component d ?U seed"
  proof
    fix j assume "j \<in> set new"
    then have "(i, j) \<in> link_rel d ?U" by (simp add: new)
    moreover have "i \<in> component d ?U seed" using sub by simp
    ultimately show "j \<in> component d ?U seed" using component_step by blast
  qed
  have "distinct new" by (simp add: new_def)
  have all: "set (rev new @ stack @ found @ [i]) = set new \<union> set (i # stack @ found)" by auto
  have "length (fold (\<lambda>i xs. xs[i := cid]) new lab) = cells d" using len by simp
  moreover have "distinct (rev new @ stack @ found @ [i])"
    using inv new \<open>distinct new\<close> by (auto simp: search_inv_def)
  moreover have "seed \<in> set (rev new @ stack @ found @ [i])"
    using inv by (auto simp: search_inv_def)
  moreover have "set (rev new @ stack @ found @ [i]) \<subseteq> component d ?U seed"
    unfolding all using sub \<open>set new \<subseteq> component d ?U seed\<close> by blast
  moreover have "\<forall>j < cells d. fold (\<lambda>i xs. xs[i := cid]) new lab ! j =
      (if j \<in> set (rev new @ stack @ found @ [i]) then cid else labels d ! j)"
    unfolding all using len lab by (simp add: fold_update_nth)
  moreover have "\<forall>k \<in> set (found @ [i]). \<forall>j. (k, j) \<in> link_rel d ?U \<longrightarrow>
      j \<in> set (rev new @ stack @ found @ [i])"
    unfolding all using inv new by (auto simp: search_inv_def)
  moreover have "extend_cluster (grid d ! i) cl =
      fold (extend_cluster \<circ> (!) (grid d)) (found @ [i]) empty_cluster"
    using inv by (simp add: search_inv_def)
  ultimately have "search_inv d cid ?U seed (search_step d cid (lab, i # stack, found, cl))"
    unfolding step search_inv_def prod.case append_assoc by blast
  moreover have "set new \<subseteq> ?U" using \<open>set new \<subseteq> component d ?U seed\<close> subU by blast
  moreover have "set new \<inter> set (i # stack @ found) = {}" using new by blast
  ultimately show ?thesis using that step \<open>distinct new\<close> by blast
qed

definition search_measure :: "detector \<Rightarrow> search \<Rightarrow> nat" where
  "search_measure d = (\<lambda>(lab, stack, found, cl).
     length stack + card (unvisited d - set (stack @ found)))"

lemma finite_unvisited [simp]: "finite (unvisited d)"
  by (simp add: unvisited_def)

lemma search_step_measure:
  assumes "geometry_ok d" and "cid \<noteq> kUnvisited" and "seed \<in> unvisited d"
    and "search_inv d cid (unvisited d) seed (lab, i # stack, found, cl)"
  shows "search_measure d (search_step d cid (lab, i # stack, found, cl)) <
    search_measure d (lab, i # stack, found, cl)"
proof -
  obtain new where step: "search_step d cid (lab, i # stack, found, cl) =
       (fold (\<lambda>i xs. xs[i := cid]) new lab, rev new @ stack, found @ [i],
        extend_cluster (grid d ! i) cl)"
    and new: "set new \<subseteq> unvisited d" "distinct new" "set new \<inter> set (i # stack @ found) = {}"
    using search_step_inv [OF assms] by metis
  let ?A = "unvisited d - set (i # stack @ found)"
  have "unvisited d - set (rev new @ stack @ found @ [i]) = ?A - set new" by auto
  moreover have "set new \<subseteq> ?A" using new by auto
  then have "card (?A - set new) + length new = card ?A"
    using card_Diff_subset [of "set new" ?A] card_mono [of ?A "set new"] distinct_card [OF new(2)]
    by simp
  ultimately show ?thesis by (simp add: step search_measure_def Un_assoc)
qed

text \<open>The search ends, and finds exactly the component of the seed among the unvisited cells.\<close>

lemma search_component_result:
  assumes "det_inv d" and "seed \<in> unvisited d"
  obtains lab found where
    "search_component d seed =
       Some (lab, [], found, fold (extend_cluster \<circ> (!) (grid d)) found empty_cluster)"
    "length lab = cells d" "distinct found" "set found = component d (unvisited d) seed"
    "\<And>i. i < cells d \<Longrightarrow>
       lab ! i = (if i \<in> component d (unvisited d) seed then int (length (clusters d)) else labels d ! i)"
proof -
  let ?U = "unvisited d" let ?cid = "int (length (clusters d))"
  let ?s0 = "((labels d)[seed := ?cid], [seed], [], empty_cluster) :: search"
  let ?b = "\<lambda>(lab, stack, found, cl). (stack :: nat list) \<noteq> []"
  let ?P = "search_inv d ?cid ?U seed"
  have geo: "geometry_ok d" and cid: "?cid \<noteq> kUnvisited"
    using assms(1) by (simp_all add: det_inv_def kUnvisited_def)
  have init: "?P ?s0"
    using assms by (auto simp: search_inv_def det_inv_def unvisited_def nth_list_update)
  have step: "?P (search_step d ?cid s) \<and> search_measure d (search_step d ?cid s) < search_measure d s"
    if P: "?P s" and b: "?b s" for s
  proof -
    obtain lab i stack found cl where s: "s = (lab, i # stack, found, cl)"
      using b by (auto simp: neq_Nil_conv)
    show ?thesis
      using search_step_inv [OF geo cid assms(2)] search_step_measure [OF geo cid assms(2)] P
      unfolding s by metis
  qed
  obtain t where t: "while_option ?b (search_step d ?cid) ?s0 = Some t"
    using measure_while_option_Some [of ?P ?b "search_step d ?cid" "search_measure d" ?s0] step init
    by blast
  have "?P t" using while_option_rule [of ?P, OF _ t init] step by blast
  moreover have "\<not> ?b t" using t by (rule while_option_stop)
  ultimately obtain lab found where
    "t = (lab, [], found, fold (extend_cluster \<circ> (!) (grid d)) found empty_cluster)" and
    *: "length lab = cells d" "distinct found" "seed \<in> set found" "set found \<subseteq> component d ?U seed"
    "\<forall>i < cells d. lab ! i = (if i \<in> set found then ?cid else labels d ! i)"
    "\<forall>i \<in> set found. \<forall>j. (i, j) \<in> link_rel d ?U \<longrightarrow> j \<in> set found"
    by (cases t) (auto simp: search_inv_def)
  moreover have "component d ?U seed \<subseteq> set found"
    using * by (intro component_least) blast+
  then have "set found = component d ?U seed" using * by blast
  ultimately show ?thesis
    using that t by (simp add: search_component_def)
qed

section \<open>Clustering\<close>

text \<open>A cluster describes a set of cells: it counts them and bounds their points.\<close>

definition describes :: "detector \<Rightarrow> nat set \<Rightarrow> ObstacleCluster \<Rightarrow> bool" where
  "describes d K cl \<longleftrightarrow> (\<exists>ks. distinct ks \<and> set ks = K \<and>
     cl = (fold (extend_cluster \<circ> (!) (grid d)) ks empty_cluster)\<lparr>num_cells := length ks\<rparr>)"

text \<open>
  The state between two seeds: \<open>C\<close> is the set of candidates, \<open>U\<close> the candidates not yet searched.
  \<open>U\<close> is a union of components; the components outside \<open>U\<close> are clusters of their own, or rejected
  when they are too small.
\<close>

definition small :: "detector \<Rightarrow> nat set \<Rightarrow> bool" where
  "small d K \<longleftrightarrow> int (card K) < min_cluster_cells (det_params d)"

definition settled :: "detector \<Rightarrow> nat set \<Rightarrow> int list \<Rightarrow> ObstacleCluster list \<Rightarrow> nat \<Rightarrow> bool" where
  "settled d C lab cls i \<longleftrightarrow>
     (if small d (component d C i) then lab ! i = kNone
      else \<exists>c < length cls. lab ! i = int c \<and> describes d (component d C i) (cls ! c) \<and>
             {j. j < cells d \<and> lab ! j = int c} = component d C i)"

definition clustering_inv :: "detector \<Rightarrow> nat set \<Rightarrow> nat set \<Rightarrow> int list \<Rightarrow> ObstacleCluster list \<Rightarrow> bool" where
  "clustering_inv d C U lab cls \<longleftrightarrow>
     length lab = cells d \<and> C \<subseteq> {..<cells d} \<and> U \<subseteq> C \<and> (\<forall>i \<in> U. component d C i \<subseteq> U) \<and>
     (\<forall>i < cells d. lab ! i = kUnvisited \<longleftrightarrow> i \<in> U) \<and>
     (\<forall>i < cells d. i \<notin> C \<longrightarrow> lab ! i = kNone) \<and>
     (\<forall>i \<in> C - U. settled d C lab cls i) \<and>
     (\<forall>c < length cls. \<exists>i \<in> C. lab ! i = int c)"

lemma component_closed:
  assumes "U \<subseteq> C" and "\<forall>i \<in> U. component d C i \<subseteq> U" and "s \<in> U"
  shows "component d U s = component d C s"
proof
  have "link_rel d U \<subseteq> link_rel d C" using assms(1) by (auto simp: link_rel_def)
  then show "component d U s \<subseteq> component d C s"
    using rtrancl_mono by (auto simp: component_def)
  show "component d C s \<subseteq> component d U s"
  proof (rule component_least)
    fix j k assume j: "j \<in> component d U s" and jk: "(j, k) \<in> link_rel d C"
    then have "j \<in> U" using component_subset [OF assms(3)] by blast
    moreover have "k \<in> U" using assms(2) \<open>j \<in> U\<close> component_step [OF component_refl jk] by blast
    ultimately have "(j, k) \<in> link_rel d U" using jk by (simp add: link_rel_def)
    with j show "k \<in> component d U s" by (rule component_step)
  qed simp
qed

text \<open>Relabelling a whole unsearched component settles it and keeps the others as they are.\<close>

lemma settled_mono:
  assumes "settled d C lab cls i" and "i < cells d" and "i \<notin> K"
    and lab': "\<And>j. j < cells d \<Longrightarrow> lab' ! j = (if j \<in> K then v else lab ! j)"
    and lab: "\<And>j. j \<in> K \<Longrightarrow> lab ! j = kUnvisited"
    and v: "v = kNone \<or> v = int (length cls)"
  shows "settled d C lab' (cls @ xs) i"
proof (cases "small d (component d C i)")
  case False
  then obtain c where c: "c < length cls" "lab ! i = int c" "describes d (component d C i) (cls ! c)"
    "{j. j < cells d \<and> lab ! j = int c} = component d C i" using assms(1) by (auto simp: settled_def)
  have "lab' ! j = int c \<longleftrightarrow> lab ! j = int c" if "j < cells d" for j
    using lab' [OF that] lab [of j] v c(1) by (auto simp: kUnvisited_def kNone_def)
  then have "{j. j < cells d \<and> lab' ! j = int c} = {j. j < cells d \<and> lab ! j = int c}" by blast
  moreover have "lab' ! i = int c" using assms(2,3) lab' c(2) by simp
  ultimately show ?thesis using False c by (auto simp: settled_def nth_append intro!: exI [of _ c])
qed (use assms in \<open>simp add: settled_def\<close>)

lemma clustering_relabel:
  assumes inv: "clustering_inv d C U lab cls" and s: "s \<in> U" and K: "K = component d C s"
    and len: "length lab' = cells d"
    and lab': "\<And>j. j < cells d \<Longrightarrow> lab' ! j = (if j \<in> K then v else lab ! j)"
    and v: "small d K \<and> v = kNone \<and> xs = [] \<or>
      \<not> small d K \<and> v = int (length cls) \<and> (\<exists>cl. xs = [cl] \<and> describes d K cl)"
  shows "clustering_inv d C (U - K) lab' (cls @ xs)"
proof -
  have U: "U \<subseteq> C" "\<And>i. i \<in> U \<Longrightarrow> component d C i \<subseteq> U" and C: "C \<subseteq> {..<cells d}"
    and unv: "\<And>i. i < cells d \<Longrightarrow> lab ! i = kUnvisited \<longleftrightarrow> i \<in> U"
    and out: "\<And>i. i < cells d \<Longrightarrow> i \<notin> C \<Longrightarrow> lab ! i = kNone"
    and old: "\<And>i. i \<in> C - U \<Longrightarrow> settled d C lab cls i"
    and used: "\<And>c. c < length cls \<Longrightarrow> \<exists>i \<in> C. lab ! i = int c"
    using inv by (auto simp: clustering_inv_def)
  have KU: "K \<subseteq> U" using U(2) s K by blast
  then have KC: "K \<subseteq> C" and Kn: "\<And>i. i \<in> K \<Longrightarrow> i < cells d" using U C by auto
  have Kunv: "\<And>j. j \<in> K \<Longrightarrow> lab ! j = kUnvisited" using KU Kn unv by blast
  have vv: "v = kNone \<or> v = int (length cls)" using v by blast
  have lt: "\<And>i. i \<in> C \<Longrightarrow> i < cells d" using C by auto
  have compK: "\<And>i. i \<in> K \<Longrightarrow> component d C i = K" unfolding K by (rule component_eq)
  have rest: "\<And>i. i \<in> U - K \<Longrightarrow> component d C i \<subseteq> U - K"
    using U(2) component_sym component_trans unfolding K by blast
  have "settled d C lab' (cls @ xs) i" if "i \<in> C - (U - K)" for i
  proof (cases "i \<in> K")
    case False
    then show ?thesis
      using that lt old [of i] by (intro settled_mono [OF _ _ False lab' Kunv vv]) auto
  next
    case True
    have "lab ! j \<noteq> int (length cls)" if j: "j < cells d" for j
    proof
      assume eq: "lab ! j = int (length cls)"
      then have "j \<in> C - U" using unv [OF j] out [OF j] by (auto simp: kUnvisited_def kNone_def)
      then show False using old [of j] eq by (auto simp: settled_def kNone_def split: if_splits)
    qed
    then have "{j. j < cells d \<and> lab' ! j = int (length cls)} = K" if "v = int (length cls)"
      using that lab' Kn by (auto split: if_splits)
    then show ?thesis
      using v lab' [OF Kn [OF True]] True compK [OF True] by (auto simp: settled_def)
  qed
  moreover have "\<exists>i \<in> C. lab' ! i = int c" if c: "c < length (cls @ xs)" for c
  proof (cases "c < length cls")
    case True
    with used [OF True] lab' lt Kunv show ?thesis by (fastforce simp: kUnvisited_def)
  next
    case False
    have "s \<in> K" by (simp add: K)
    with v c False lab' [OF Kn [OF \<open>s \<in> K\<close>]] KC show ?thesis
      by (auto simp: less_Suc_eq intro!: bexI [of _ s])
  qed
  moreover have "lab' ! i = kUnvisited \<longleftrightarrow> i \<in> U - K" if "i < cells d" for i
    using lab' [OF that] unv [OF that] vv by (auto simp: kUnvisited_def kNone_def)
  moreover have "lab' ! i = kNone" if "i < cells d" "i \<notin> C" for i
    using lab' [OF that(1)] out [OF that] that KC by auto
  ultimately show ?thesis using len C U(1) rest by (auto simp: clustering_inv_def)
qed

lemma cluster_seed_step:
  assumes d: "det_inv d" and inv: "clustering_inv d C U (labels d) (clusters d)" and s: "s \<in> U"
  obtains lab cls where "cluster_seed s d = Some (d\<lparr>labels := lab, clusters := cls\<rparr>)"
    and "clustering_inv d C (U - component d C s) lab cls"
proof -
  let ?K = "component d C s"
  have U: "U \<subseteq> C" "\<forall>i \<in> U. component d C i \<subseteq> U" "C \<subseteq> {..<cells d}"
    and lab0: "\<And>i. i < cells d \<Longrightarrow> labels d ! i = kUnvisited \<longleftrightarrow> i \<in> U"
    using inv by (auto simp: clustering_inv_def)
  have Uunv: "unvisited d = U" using U lab0 by (auto simp: unvisited_def)
  obtain lab found where sc: "search_component d s =
       Some (lab, [], found, fold (extend_cluster \<circ> (!) (grid d)) found empty_cluster)"
    and len: "length lab = cells d" and dist: "distinct found" and fK: "set found = ?K"
    and lab: "\<And>i. i < cells d \<Longrightarrow> lab ! i = (if i \<in> ?K then int (length (clusters d)) else labels d ! i)"
    using search_component_result [OF d, of s] s component_closed [OF U(1,2) s] unfolding Uunv by metis
  have card: "card ?K = length found" using dist fK distinct_card by metis
  have unv: "labels d ! s = kUnvisited" using s U lab0 by auto
  let ?cl = "(fold (extend_cluster \<circ> (!) (grid d)) found empty_cluster)\<lparr>num_cells := length found\<rparr>"
  have desc: "describes d ?K ?cl" unfolding describes_def using dist fK by blast
  show ?thesis
  proof (cases "small d ?K")
    case True
    define lab' where "lab' = fold (\<lambda>idx lab. lab[idx := kNone]) found lab"
    have "\<And>i. i < cells d \<Longrightarrow> lab' ! i = (if i \<in> ?K then kNone else labels d ! i)"
      by (simp add: lab'_def fold_update_nth len fK lab)
    then have "clustering_inv d C (U - ?K) lab' (clusters d @ [])"
      using True len by (intro clustering_relabel [OF inv s refl]) (auto simp: lab'_def)
    moreover have "cluster_seed s d = Some (d\<lparr>labels := lab', clusters := clusters d @ []\<rparr>)"
      using True card by (simp add: cluster_seed_def unv sc small_def lab'_def)
    ultimately show ?thesis using that by blast
  next
    case False
    have "clustering_inv d C (U - ?K) lab (clusters d @ [?cl])"
      using False desc by (intro clustering_relabel [OF inv s refl len lab]) auto
    moreover have "cluster_seed s d = Some (d\<lparr>labels := lab, clusters := clusters d @ [?cl]\<rparr>)"
      using False card by (simp add: cluster_seed_def unv sc small_def)
    ultimately show ?thesis using that by blast
  qed
qed

lemma component_cong:
  "grid_width d' = grid_width d \<Longrightarrow> link_radius d' = link_radius d \<Longrightarrow> component d' C i = component d C i"
  by (simp add: component_def link_rel_def linked_def)

lemma clustering_inv_update [simp]:
  "clustering_inv (d\<lparr>labels := lab', clusters := cls'\<rparr>) C U lab cls = clustering_inv d C U lab cls"
proof -
  let ?d = "d\<lparr>labels := lab', clusters := cls'\<rparr>"
  have "component ?d = component d" by (intro ext component_cong) simp_all
  moreover have "cells ?d = cells d" "small ?d = small d" "describes ?d = describes d"
    by (simp_all add: cells_def small_def describes_def fun_eq_iff)
  ultimately show ?thesis by (simp add: clustering_inv_def settled_def)
qed

text \<open>Clustering returns, and leaves no candidate unsearched.\<close>

lemma cluster_seeds_result:
  assumes "det_inv d" and "clustering_inv d C U (labels d) (clusters d)"
    and "U \<subseteq> set seeds" and "set seeds \<subseteq> C" and "C \<subseteq> set (touched_cells d)"
  shows "\<exists>lab cls. cluster_seeds seeds d = Some (d\<lparr>labels := lab, clusters := cls\<rparr>) \<and>
    clustering_inv d C {} lab cls"
  using assms
proof (induction seeds arbitrary: d U)
  case Nil
  then have "clustering_inv d C {} (labels d) (clusters d)" by simp
  moreover have "d = d\<lparr>labels := labels d, clusters := clusters d\<rparr>" by simp
  ultimately show ?case by (metis cluster_seeds.simps(1))
next
  case (Cons s seeds)
  show ?case
  proof (cases "s \<in> U")
    case False
    have "s < cells d" using Cons.prems(2,4) by (auto simp: clustering_inv_def)
    then have "labels d ! s \<noteq> kUnvisited" using False Cons.prems(2) by (simp add: clustering_inv_def)
    then have "cluster_seed s d = Some d" by (simp add: cluster_seed_def)
    then show ?thesis using Cons.IH [OF Cons.prems(1,2)] Cons.prems(3-5) False by auto
  next
    case True
    obtain lab cls where step: "cluster_seed s d = Some (d\<lparr>labels := lab, clusters := cls\<rparr>)"
      and inv: "clustering_inv d C (U - component d C s) lab cls"
      using cluster_seed_step [OF Cons.prems(1,2) True] .
    let ?d = "d\<lparr>labels := lab, clusters := cls\<rparr>"
    have "\<forall>i < cells d. i \<in> set (touched_cells d) \<or> lab ! i = kNone"
      using inv Cons.prems(5) by (auto simp: clustering_inv_def)
    then have "det_inv ?d"
      using Cons.prems(1) inv
      by (auto simp: det_inv_def geometry_ok_def cells_def clustering_inv_def)
    moreover have "clustering_inv ?d C (U - component d C s) (labels ?d) (clusters ?d)"
      using inv by simp
    moreover have "U - component d C s \<subseteq> set seeds" using Cons.prems(3) by auto
    ultimately obtain lab' cls' where
      "cluster_seeds seeds ?d = Some (?d\<lparr>labels := lab', clusters := cls'\<rparr>)"
      "clustering_inv ?d C {} lab' cls'"
      using Cons.IH [of ?d "U - component d C s"] Cons.prems(4,5) by auto
    then show ?thesis using step by auto
  qed
qed

section \<open>Heights of a cell\<close>

text \<open>The two smallest values are kept by an insertion into a sorted list cut to two elements.\<close>

lemma sort_snoc: "sort (xs @ [x]) = insort (x :: 'a :: linorder) (sort xs)"
proof -
  have "sort (xs @ [x]) = sort (x # xs)" by (rule properties_for_sort) (simp_all add: sorted_insort)
  then show ?thesis by simp
qed

lemma insort_two:
  fixes z a b :: real
  shows "insort z [a] = (if z < a then [z, a] else [a, z])"
    and "a \<le> b \<Longrightarrow> take 2 (insort z (a # b # rest)) =
      (if z < a then [z, a] else if z < b then [a, z] else [a, b])"
  by (cases rest; auto)+

definition low_pair :: "fval \<times> fval \<Rightarrow> real list \<Rightarrow> bool" where
  "low_pair m zs \<longleftrightarrow> (case take 2 (sort zs) of
     [] \<Rightarrow> False | [a] \<Rightarrow> m = (Fin a, PInf) | a # b # _ \<Rightarrow> m = (Fin a, Fin b))"

definition low_step :: "fval \<Rightarrow> fval \<times> fval \<Rightarrow> fval \<times> fval" where
  "low_step z = (\<lambda>(m1, m2). if f_lt z m1 then (z, m1) else if f_lt z m2 then (m1, z) else (m1, m2))"

lemma low_pair_step:
  assumes "low_pair m zs"
  shows "low_pair (low_step (Fin z) m) (zs @ [z])"
proof (cases "sort zs")
  case Nil
  then show ?thesis using assms by (simp add: low_pair_def)
next
  case (Cons a rest)
  show ?thesis
  proof (cases rest)
    case Nil
    then show ?thesis
      using assms Cons by (auto simp: low_pair_def low_step_def sort_snoc)
  next
    case (Cons b rest')
    have "a \<le> b" using sorted_sort [of zs] \<open>sort zs = a # rest\<close> Cons by simp
    then show ?thesis
      using assms \<open>sort zs = a # rest\<close> Cons insort_two(2) [of a b z rest']
      by (auto simp: low_pair_def low_step_def sort_snoc numeral_2_eq_2 simp del: insort_key.simps)
  qed
qed

definition pt_z :: "Point3 \<Rightarrow> real" where "pt_z = (\<lambda>(x, y, z). fin_val z)"
definition pt_x :: "Point3 \<Rightarrow> real" where "pt_x = (\<lambda>(x, y, z). fin_val x)"
definition pt_y :: "Point3 \<Rightarrow> real" where "pt_y = (\<lambda>(x, y, z). fin_val y)"

definition finite_pt :: "Point3 \<Rightarrow> bool" where
  "finite_pt q \<longleftrightarrow> q = (Fin (pt_x q), Fin (pt_y q), Fin (pt_z q))"

lemma in_roi_finite_pt: "in_roi p q \<Longrightarrow> finite_pt q"
  by (erule in_roi_finite) (simp add: finite_pt_def pt_x_def pt_y_def pt_z_def)

text \<open>
  A cell that has collected a non-empty list of points: its count, the two lowest heights, the two
  highest ones (the lowest of the negated heights) and the bounding box.
\<close>

definition cell_of_points :: "GridCell \<Rightarrow> Point3 list \<Rightarrow> bool" where
  "cell_of_points c qs \<longleftrightarrow> qs \<noteq> [] \<and> cell_count c = length qs \<and>
     low_pair (z_min1 c, z_min2 c) (map pt_z qs) \<and>
     low_pair (f_neg (z_max1 c), f_neg (z_max2 c)) (map (\<lambda>q. - pt_z q) qs) \<and>
     cell_x_min c = Fin (Min (pt_x ` set qs)) \<and> cell_x_max c = Fin (Max (pt_x ` set qs)) \<and>
     cell_y_min c = Fin (Min (pt_y ` set qs)) \<and> cell_y_max c = Fin (Max (pt_y ` set qs))"

lemma f_lt_neg: "f_lt (f_neg a) (f_neg b) = f_lt b a"
  by (cases a; cases b) simp_all

lemma f_neg_low_step:
  "low_step (f_neg z) (f_neg a, f_neg b) =
     (if f_lt a z then (f_neg z, f_neg a) else if f_lt b z then (f_neg a, f_neg z)
      else (f_neg a, f_neg b))"
  by (simp add: low_step_def f_lt_neg)

lemma update_cell_points:
  assumes "finite_pt q" and "cell_of_points c qs"
  shows "cell_of_points (update_cell q c) (qs @ [q])"
proof -
  obtain x y z where q: "q = (Fin x, Fin y, Fin z)" and xyz: "pt_x q = x" "pt_y q = y" "pt_z q = z"
    using assms(1) by (metis finite_pt_def)
  let ?c = "update_cell q c"
  have n: "qs \<noteq> []" and cnt: "cell_count c = length qs" using assms(2) by (auto simp: cell_of_points_def)
  have low: "(z_min1 ?c, z_min2 ?c) = low_step (Fin z) (z_min1 c, z_min2 c)"
    using n cnt by (simp add: q update_cell_def low_step_def Let_def)
  have high: "(f_neg (z_max1 ?c), f_neg (z_max2 ?c)) =
      low_step (Fin (- z)) (f_neg (z_max1 c), f_neg (z_max2 c))"
    using n cnt f_neg_low_step [of "Fin z"] by (simp add: q update_cell_def Let_def)
  have box: "cell_x_min ?c = Fin (Min (pt_x ` set (qs @ [q])))"
    "cell_x_max ?c = Fin (Max (pt_x ` set (qs @ [q])))"
    "cell_y_min ?c = Fin (Min (pt_y ` set (qs @ [q])))"
    "cell_y_max ?c = Fin (Max (pt_y ` set (qs @ [q])))"
    using assms(2) n cnt xyz
    by (auto simp: cell_of_points_def q update_cell_def Let_def min.commute max.commute)
  show ?thesis
    using assms(2) low_pair_step [of "(z_min1 c, z_min2 c)" "map pt_z qs" z]
      low_pair_step [of "(f_neg (z_max1 c), f_neg (z_max2 c))" "map (\<lambda>q. - pt_z q) qs" "- z"]
    unfolding cell_of_points_def box low high by (simp add: xyz)
qed

lemma first_point:
  assumes "finite_pt q"
  shows "cell_of_points (update_cell q GridCell_init) [q]"
proof -
  obtain x y z where q: "q = (Fin x, Fin y, Fin z)" and xyz: "pt_x q = x" "pt_y q = y" "pt_z q = z"
    using assms by (metis finite_pt_def)
  then show ?thesis
    by (simp add: q update_cell_def GridCell_init_def cell_of_points_def low_pair_def Let_def)
qed

lemma fold_update_cell_points:
  "qs \<noteq> [] \<Longrightarrow> list_all finite_pt qs \<Longrightarrow> cell_of_points (fold update_cell qs GridCell_init) qs"
proof (induction qs rule: rev_induct)
  case (snoc q qs)
  then show ?case by (cases "qs = []") (simp_all add: first_point update_cell_points)
qed simp

lemma sort_uminus: "sort (map uminus (zs :: real list)) = rev (map uminus (sort zs))"
proof -
  have "sorted (rev (map uminus (sort zs)))"
    by (simp add: sorted_wrt_rev sorted_wrt_map)
  moreover have "mset (rev (map uminus (sort zs))) = mset (map uminus zs)" by simp
  ultimately show ?thesis by (simp add: properties_for_sort)
qed

text \<open>
  The height spread of a list of heights, without the lowest and the highest one when outliers are
  trimmed, and the judgement of a cell by it.
\<close>

definition height_spread :: "bool \<Rightarrow> real list \<Rightarrow> real" where
  "height_spread trim zs =
     (let s = sort zs; k = (if trim then 1 else 0) in s ! (length s - 1 - k) - s ! k)"

lemma low_pair_nth:
  assumes "low_pair (a, b) zs"
  shows "a = Fin (sort zs ! 0)" and "2 \<le> length zs \<Longrightarrow> b = Fin (sort zs ! 1)"
proof -
  have "length (sort zs) = length zs" by simp
  then show "a = Fin (sort zs ! 0)" and "2 \<le> length zs \<Longrightarrow> b = Fin (sort zs ! 1)"
    using assms
    by (cases "sort zs"; cases "tl (sort zs)"; auto simp: low_pair_def numeral_2_eq_2)+
qed

lemma f_neg_Fin: "f_neg a = Fin r \<longleftrightarrow> a = Fin (- r)"
  by (cases a) auto

lemma high_nth:
  assumes "low_pair (f_neg a, f_neg b) (map uminus zs)" and "zs \<noteq> []"
  shows "a = Fin (sort zs ! (length zs - 1))" and "2 \<le> length zs \<Longrightarrow> b = Fin (sort zs ! (length zs - 2))"
  using low_pair_nth [OF assms(1)] assms(2)
  by (auto simp: sort_uminus f_neg_Fin rev_nth numeral_2_eq_2 simp del: sort_key_simps)

lemma obstacle_cell_spread:
  assumes "geometry_ok d" and "list_all finite_pt qs"
  shows "is_obstacle_cell d (fold update_cell qs GridCell_init) \<longleftrightarrow>
    min_points_needed d \<le> int (length qs) \<and>
    delta_z_threshold (det_params d) < height_spread (0 < z_outlier_trim (det_params d)) (map pt_z qs)"
proof (cases "min_points_needed d \<le> int (length qs)")
  case True
  have trim: "z_outlier_trim (det_params d) \<in> {0, 1}"
    and need: "2 * z_outlier_trim (det_params d) + 2 \<le> min_points_needed d"
    using assms(1) by (auto simp: geometry_ok_def validate_ok_iff)
  then have n: "2 \<le> length qs" using True by auto
  then have "qs \<noteq> []" by auto
  let ?c = "fold update_cell qs GridCell_init"
  have low: "low_pair (z_min1 ?c, z_min2 ?c) (map pt_z qs)"
    and high: "low_pair (f_neg (z_max1 ?c), f_neg (z_max2 ?c)) (map uminus (map pt_z qs))"
    using fold_update_cell_points [OF \<open>qs \<noteq> []\<close> assms(2)] by (simp_all add: cell_of_points_def o_def)
  have "cell_count ?c = length qs" by (simp add: GridCell_init_def)
  then show ?thesis
    using n trim True low_pair_nth [OF low] high_nth [OF high] \<open>qs \<noteq> []\<close>
    by (auto simp: is_obstacle_cell_def height_spread_def Let_def numeral_2_eq_2)
qed (simp add: is_obstacle_cell_def GridCell_init_def)

section \<open>Extraction\<close>

definition points_of_label :: "int list \<Rightarrow> (Point3 \<times> nat) list \<Rightarrow> int \<Rightarrow> nat" where
  "points_of_label lab cps l = length (filter (\<lambda>(p, cell). lab ! cell = l) cps)"

definition counted :: "int list \<Rightarrow> (Point3 \<times> nat) list \<Rightarrow> ObstacleCluster list \<Rightarrow> ObstacleCluster list" where
  "counted lab cps cls = map (\<lambda>c. (cls ! c)\<lparr>num_points := num_points (cls ! c) +
     points_of_label lab cps (int c)\<rparr>) [0..<length cls]"

lemma counted_nil [simp]: "counted lab [] cls = cls"
  by (simp add: counted_def points_of_label_def map_nth)

lemma counted_length [simp]: "length (counted lab cps cls) = length cls"
  by (simp add: counted_def)

lemma counted_Cons:
  assumes "lab ! cell < int (length cls)"
  shows "counted lab ((p, cell) # cps) cls =
    counted lab cps (if lab ! cell < 0 then cls else cls[nat (lab ! cell) :=
      (cls ! nat (lab ! cell))\<lparr>num_points := num_points (cls ! nat (lab ! cell)) + 1\<rparr>])"
  using assms
  by (intro nth_equalityI) (auto simp: counted_def points_of_label_def nth_list_update)

lemma fold_extract_point:
  assumes "\<forall>(p, cell) \<in> set cps. labels d ! cell < int (length (clusters d))"
  shows "fold extract_point cps d =
    d\<lparr>obstacle_points := obstacle_points d @ map fst (filter (\<lambda>(p, cell). 0 \<le> labels d ! cell) cps),
      clusters := counted (labels d) cps (clusters d)\<rparr>"
  using assms
proof (induction cps arbitrary: d)
  case (Cons a cps)
  obtain p cell where a: "a = (p, cell)" by (cases a)
  have lt: "labels d ! cell < int (length (clusters d))" using Cons.prems a by auto
  have "\<forall>(p, cell) \<in> set cps. labels (extract_point a d) ! cell < int (length (clusters (extract_point a d)))"
    using Cons.prems by (auto simp: a extract_point_def Let_def)
  from Cons.IH [OF this] show ?case
    using counted_Cons [OF lt, of p cps] by (auto simp: a extract_point_def Let_def)
qed simp

section \<open>One frame\<close>

text \<open>What a frame is about: its cropped points, its obstacle cells, and those of large components.\<close>

definition obstacle_cells :: "detector \<Rightarrow> Point3 list \<Rightarrow> nat set" where
  "obstacle_cells d qs = {i. i < cells d \<and>
     (let zs = map pt_z (filter (\<lambda>q. cell_index d q = i) qs)
      in min_points_needed d \<le> int (length zs) \<and>
         delta_z_threshold (det_params d) < height_spread (0 < z_outlier_trim (det_params d)) zs)}"

definition kept_cells :: "detector \<Rightarrow> Point3 list \<Rightarrow> nat set" where
  "kept_cells d qs = {i \<in> obstacle_cells d qs. \<not> small d (component d (obstacle_cells d qs) i)}"

lemma roi_points_finite: "list_all finite_pt (roi_points p pts tf)"
  by (auto simp: roi_points_def list_all_iff in_roi_finite_pt)

lemma obstacle_cells_iff:
  assumes "geometry_ok d" and "list_all finite_pt qs" and "i < cells d"
  shows "is_obstacle_cell d (cell_value d qs i) \<longleftrightarrow> i \<in> obstacle_cells d qs"
  using assms obstacle_cell_spread [of d "filter (\<lambda>q. cell_index d q = i) qs"]
  by (simp add: obstacle_cells_def cell_value_def list_all_iff Let_def)

lemma obstacle_cells_touched:
  assumes "geometry_ok d"
  shows "obstacle_cells d qs \<subseteq> cell_index d ` set qs"
proof
  fix i assume i: "i \<in> obstacle_cells d qs"
  have "0 < min_points_needed d" using assms by (auto simp: geometry_ok_def validate_ok_iff)
  then have "filter (\<lambda>q. cell_index d q = i) qs \<noteq> []" using i by (auto simp: obstacle_cells_def Let_def)
  then show "i \<in> cell_index d ` set qs" unfolding filter_empty_conv by blast
qed

definition judged :: "Point3 list \<Rightarrow> detector \<Rightarrow> detector" where
  "judged qs d = (gathered qs d)\<lparr>
     labels := map (\<lambda>i. if i \<in> obstacle_cells d qs then kUnvisited else kNone) [0..<cells d],
     candidate_cells := filter (\<lambda>i. i \<in> obstacle_cells d qs) (first_uses (map (cell_index d) qs)),
     stats := (stats d)\<lparr>candidate_count :=
       length (filter (\<lambda>i. i \<in> obstacle_cells d qs) (first_uses (map (cell_index d) qs)))\<rparr>\<rparr>"

lemma judgeCells_gathered:
  assumes geo: "geometry_ok d" and fin: "list_all finite_pt qs"
  shows "judgeCells (gathered qs d) = judged qs d"
proof -
  let ?T = "first_uses (map (cell_index d) qs)" let ?C = "obstacle_cells d qs"
  have ob: "is_obstacle_cell (gathered qs d) = is_obstacle_cell d"
    by (intro ext is_obstacle_cell_cong) (simp_all add: gathered_def)
  have "filter (\<lambda>i. is_obstacle_cell (gathered qs d) (grid (gathered qs d) ! i)) ?T =
      filter (\<lambda>i. i \<in> ?C) ?T"
  proof (rule filter_cong [OF refl])
    fix i assume "i \<in> set ?T"
    then have "i < cells d" using cell_index_less [OF geo] by auto
    then show "is_obstacle_cell (gathered qs d) (grid (gathered qs d) ! i) \<longleftrightarrow> i \<in> ?C"
      using obstacle_cells_iff [OF geo fin] by (simp add: ob) (simp add: gathered_def)
  qed
  moreover have "fold (\<lambda>i xs. xs[i := kUnvisited]) (filter (\<lambda>i. i \<in> ?C) ?T) (replicate (cells d) kNone) =
      map (\<lambda>i. if i \<in> ?C then kUnvisited else kNone) [0..<cells d]"
    using obstacle_cells_touched [OF geo, of qs]
    by (intro nth_equalityI) (auto simp: fold_update_nth)
  ultimately show ?thesis
    by (simp add: judgeCells_def fold_judge_cell Let_def judged_def) (simp add: gathered_def)
qed

text \<open>The detector after clearing the outputs of the last frame, as \<^verbatim>\<open>process\<close> starts.\<close>

definition cleared :: "Point3 list \<Rightarrow> detector \<Rightarrow> detector" where
  "cleared pts d = d\<lparr>stats := FrameStats_init\<lparr>input_points := length pts\<rparr>, obstacle_points := [],
     clusters := []\<rparr>"

lemma cleared_facts:
  "det_inv (cleared pts d) = det_inv d" "geometry_ok (cleared pts d) = geometry_ok d"
  "cells (cleared pts d) = cells d" "det_params (cleared pts d) = det_params d"
  "cell_index (cleared pts d) = cell_index d"
  "obstacle_cells (cleared pts d) = obstacle_cells d" "kept_cells (cleared pts d) = kept_cells d"
  "component (cleared pts d) = component d" "small (cleared pts d) = small d"
proof -
  have [simp]: "cells (cleared pts d) = cells d" "cell_index (cleared pts d) = cell_index d"
    "component (cleared pts d) = component d" "small (cleared pts d) = small d"
    "geometry_ok (cleared pts d) = geometry_ok d"
    by (simp_all add: cleared_def cells_def cell_index_def component_def link_rel_def linked_def
        small_def geometry_ok_def fun_eq_iff)
  have [simp]: "obstacle_cells (cleared pts d) = obstacle_cells d"
    by (simp add: obstacle_cells_def fun_eq_iff) (simp add: cleared_def)
  show "det_inv (cleared pts d) = det_inv d" by (simp add: det_inv_def) (simp add: cleared_def)
  show "kept_cells (cleared pts d) = kept_cells d" by (simp add: kept_cells_def fun_eq_iff)
qed (simp_all add: cleared_def cells_def cell_index_def component_def link_rel_def linked_def
        small_def geometry_ok_def obstacle_cells_def fun_eq_iff)
lemma judged_facts:
  "cells (judged qs d) = cells d" "component (judged qs d) = component d" "small (judged qs d) = small d"
  "det_params (judged qs d) = det_params d" "cell_index (judged qs d) = cell_index d"
  "geometry_ok (judged qs d) = geometry_ok d"
  "cropped (judged qs d) = map (\<lambda>q. (q, cell_index d q)) qs"
  "touched_cells (judged qs d) = first_uses (map (cell_index d) qs)"
  "obstacle_points (judged qs d) = obstacle_points d" "clusters (judged qs d) = clusters d"
  "grid (judged qs d) = map (cell_value d qs) [0..<cells d]"
  "labels (judged qs d) = map (\<lambda>i. if i \<in> obstacle_cells d qs then kUnvisited else kNone) [0..<cells d]"
  by (simp_all add: judged_def gathered_def cells_def component_def link_rel_def linked_def small_def
      cell_index_def geometry_ok_def fun_eq_iff)

lemma judged_inv:
  assumes "geometry_ok d"
  shows "det_inv (judged qs d)"
proof -
  have "cell_value d qs i = GridCell_init \<and> i \<notin> obstacle_cells d qs" if "i \<notin> cell_index d ` set qs" for i
    using that obstacle_cells_touched [OF assms, of qs] cell_value_untouched by blast
  moreover have "cell_index d ` set qs \<subseteq> {..<cells d}" using cell_index_less [OF assms] by blast
  ultimately show ?thesis using assms by (auto simp: det_inv_def judged_facts simp del: split_paired_All)
qed

lemma det_inv_outputs:
  "det_inv (d\<lparr>obstacle_points := ps\<rparr>) = det_inv d" "det_inv (d\<lparr>clusters := cls\<rparr>) = det_inv d"
  "det_inv (d\<lparr>stats := st\<rparr>) = det_inv d"
  unfolding det_inv_def geometry_ok_def cells_def by simp_all

lemma judged_clustering:
  assumes "geometry_ok d" and "clusters d = []"
  shows "clustering_inv (judged qs d) (obstacle_cells d qs) (obstacle_cells d qs)
    (labels (judged qs d)) (clusters (judged qs d))"
proof -
  let ?C = "obstacle_cells d qs"
  have "?C \<subseteq> {..<cells d}" by (auto simp: obstacle_cells_def)
  moreover have "\<forall>i \<in> ?C. component d ?C i \<subseteq> ?C" by (intro ballI component_subset)
  moreover have "kNone \<noteq> kUnvisited" by (simp add: kUnvisited_def kNone_def)
  ultimately show ?thesis by (simp add: clustering_inv_def judged_facts assms(2))
qed

lemma settled_kept:
  assumes "clustering_inv (judged qs d) (obstacle_cells d qs) {} lab cls" and "i < cells d"
  shows "0 \<le> lab ! i \<longleftrightarrow> i \<in> kept_cells d qs" and "lab ! i < int (length cls)"
proof -
  let ?C = "obstacle_cells d qs"
  have "(0 \<le> lab ! i \<longleftrightarrow> i \<in> kept_cells d qs) \<and> lab ! i < int (length cls)"
  proof (cases "i \<in> ?C")
    case False
    then have "lab ! i = kNone" using assms by (simp add: clustering_inv_def judged_facts)
    then show ?thesis using False by (simp add: kept_cells_def kNone_def)
  next
    case True
    then have "settled (judged qs d) ?C lab cls i" using assms(1) by (simp add: clustering_inv_def)
    then have "if small d (component d ?C i) then lab ! i = kNone else \<exists>c < length cls. lab ! i = int c"
      unfolding settled_def judged_facts by (cases "small d (component d ?C i)") auto
    then show ?thesis
      using True by (cases "small d (component d ?C i)") (auto simp: kept_cells_def kNone_def)
  qed
  then show "0 \<le> lab ! i \<longleftrightarrow> i \<in> kept_cells d qs" and "lab ! i < int (length cls)" by blast+
qed

lemma map_filter_cropped:
  assumes "\<And>q. q \<in> set qs \<Longrightarrow> P (f q) \<longleftrightarrow> Q q"
  shows "map fst (filter (\<lambda>(p, cell). P cell) (map (\<lambda>q. (q, f q)) qs)) = filter Q qs"
  using assms by (induction qs) auto

text \<open>
  The result of a frame in closed form: the points of the kept cells, in input order, and clusters
  and labels that satisfy the final clustering invariant.
\<close>

lemma process_result:
  assumes "det_inv d"
  obtains lab cls d' where "process pts tf d = Some d'"
    and "clustering_inv (judged (roi_points (det_params d) pts tf) (cleared pts d))
      (obstacle_cells d (roi_points (det_params d) pts tf)) {} lab cls"
    and "labels d' = lab"
    and "clusters d' = counted lab
      (map (\<lambda>q. (q, cell_index d q)) (roi_points (det_params d) pts tf)) cls"
    and "obstacle_points d' = filter (\<lambda>q. cell_index d q \<in> kept_cells d (roi_points (det_params d) pts tf))
      (roi_points (det_params d) pts tf)"
    and "det_inv d'" and "det_params d' = det_params d" and "grid_width d' = grid_width d"
    and "grid_height d' = grid_height d" and "link_radius d' = link_radius d"
    and "min_points_needed d' = min_points_needed d"
    and "output_points (stats d') = length (obstacle_points d')"
    and "num_clusters (stats d') = length (clusters d')"
proof -
  let ?qs = "roi_points (det_params d) pts tf" let ?c = "cleared pts d"
  let ?j = "judged ?qs ?c" let ?C = "obstacle_cells d ?qs"
  have geo: "geometry_ok ?c" and geo': "geometry_ok d"
    using assms by (simp_all add: cleared_facts det_inv_def)
  have C: "obstacle_cells ?c ?qs = ?C" by (simp add: cleared_facts)
  have "accumulate pts tf ?c = gathered ?qs ?c"
    using assms accumulate_gathered [of ?c pts tf] by (simp add: cleared_facts)
  then have j: "judgeCells (accumulate pts tf ?c) = ?j"
    using judgeCells_gathered [OF geo roi_points_finite, of "det_params d" pts tf] by simp
  have seeds: "set (candidate_cells ?j) = ?C"
    using obstacle_cells_touched [OF geo', of ?qs]
    by (auto simp: judged_def cleared_facts)
  have "clusters ?c = []" by (simp add: cleared_def)
  from judged_clustering [OF geo this, of ?qs]
  have "clustering_inv ?j ?C ?C (labels ?j) (clusters ?j)" by (simp add: C)
  moreover have "?C \<subseteq> set (touched_cells ?j)"
    using obstacle_cells_touched [OF geo', of ?qs] by (simp add: judged_facts cleared_facts)
  ultimately obtain lab cls where cl: "clusterCells ?j = Some (?j\<lparr>labels := lab, clusters := cls\<rparr>)"
    and inv: "clustering_inv ?j ?C {} lab cls"
    using cluster_seeds_result [OF judged_inv [OF geo], where seeds = "candidate_cells ?j"] seeds
    unfolding clusterCells_def by blast
  let ?d2 = "?j\<lparr>labels := lab, clusters := cls\<rparr>"
  have kept: "0 \<le> lab ! cell_index d q \<longleftrightarrow> cell_index d q \<in> kept_cells d ?qs"
    and lt: "lab ! cell_index d q < int (length cls)" for q
    using settled_kept [of ?qs ?c lab cls "cell_index d q"] inv cell_index_less [OF geo', of q]
    by (simp_all add: cleared_facts)
  have "extractPoints ?d2 = ?d2\<lparr>obstacle_points := filter (\<lambda>q. cell_index d q \<in> kept_cells d ?qs) ?qs,
      clusters := counted lab (map (\<lambda>q. (q, cell_index d q)) ?qs) cls\<rparr>"
    using fold_extract_point [of "cropped ?j" ?d2] lt
      map_filter_cropped [of ?qs "\<lambda>c. 0 \<le> lab ! c" "cell_index d"
        "\<lambda>q. cell_index d q \<in> kept_cells d ?qs", OF kept]
    by (auto simp: extractPoints_def judged_facts cleared_facts) (simp_all add: cleared_def)
  then obtain d' where p: "process pts tf d = Some d'"
    and d': "d' = ?d2\<lparr>obstacle_points := filter (\<lambda>q. cell_index d q \<in> kept_cells d ?qs) ?qs,
      clusters := counted lab (map (\<lambda>q. (q, cell_index d q)) ?qs) cls,
      stats := (stats ?j)\<lparr>cropped_points := length ?qs,
        output_points := length (filter (\<lambda>q. cell_index d q \<in> kept_cells d ?qs) ?qs),
        num_clusters := length cls\<rparr>\<rparr>"
    using j cl by (simp add: process_def cleared_def [symmetric] Let_def judged_facts)
  have "det_inv ?d2"
    using judged_inv [OF geo, of ?qs] inv \<open>?C \<subseteq> set (touched_cells ?j)\<close>
    by (auto simp: det_inv_def clustering_inv_def geometry_ok_def cells_def)
  then have "det_inv d'" unfolding d' by (simp only: det_inv_outputs)
  with p inv show ?thesis
    by (intro that [of d' lab cls]) (simp_all add: d' judged_def gathered_def cleared_def)
qed

section \<open>Bounding boxes\<close>

lemma fold_f_min:
  assumes "\<forall>k \<in> set ks. \<exists>r. g k = Fin r"
  shows "\<exists>m. fold (\<lambda>k m. f_min m (g k)) ks (Fin a) = Fin m \<and> m \<le> a \<and> (\<forall>k \<in> set ks. f_le (Fin m) (g k))"
  using assms
proof (induction ks arbitrary: a)
  case (Cons k ks)
  then obtain r where r: "g k = Fin r" by auto
  with Cons.IH [of "min a r"] Cons.prems show ?case by (fastforce simp: r)
qed simp

lemma fold_f_max:
  assumes "\<forall>k \<in> set ks. \<exists>r. g k = Fin r"
  shows "\<exists>m. fold (\<lambda>k m. f_max m (g k)) ks (Fin a) = Fin m \<and> a \<le> m \<and> (\<forall>k \<in> set ks. f_le (g k) (Fin m))"
  using assms
proof (induction ks arbitrary: a)
  case (Cons k ks)
  then obtain r where r: "g k = Fin r" by auto
  with Cons.IH [of "max a r"] Cons.prems show ?case by (fastforce simp: r)
qed simp

lemma fold_extend_cluster:
  "cl_min_x (fold (extend_cluster \<circ> g) ks c) = fold (\<lambda>k m. f_min m (cell_x_min (g k))) ks (cl_min_x c)"
  "cl_max_x (fold (extend_cluster \<circ> g) ks c) = fold (\<lambda>k m. f_max m (cell_x_max (g k))) ks (cl_max_x c)"
  "cl_min_y (fold (extend_cluster \<circ> g) ks c) = fold (\<lambda>k m. f_min m (cell_y_min (g k))) ks (cl_min_y c)"
  "cl_max_y (fold (extend_cluster \<circ> g) ks c) = fold (\<lambda>k m. f_max m (cell_y_max (g k))) ks (cl_max_y c)"
  "cl_min_z (fold (extend_cluster \<circ> g) ks c) = fold (\<lambda>k m. f_min m (z_min1 (g k))) ks (cl_min_z c)"
  "cl_max_z (fold (extend_cluster \<circ> g) ks c) = fold (\<lambda>k m. f_max m (z_max1 (g k))) ks (cl_max_z c)"
  "num_points (fold (extend_cluster \<circ> g) ks c) = num_points c"
  by (induction ks arbitrary: c) (simp_all add: extend_cluster_def)

text \<open>A point lies in the box of a cluster.\<close>

definition in_box :: "ObstacleCluster \<Rightarrow> Point3 \<Rightarrow> bool" where
  "in_box cl = (\<lambda>(x, y, z). f_le (cl_min_x cl) x \<and> f_le x (cl_max_x cl) \<and>
     f_le (cl_min_y cl) y \<and> f_le y (cl_max_y cl) \<and> f_le (cl_min_z cl) z \<and> f_le z (cl_max_z cl))"

text \<open>The box of a cell that collected points: finite, and around each of them.\<close>

definition cell_box :: "GridCell \<Rightarrow> Point3 \<Rightarrow> bool" where
  "cell_box c = (\<lambda>(x, y, z). f_le (cell_x_min c) x \<and> f_le x (cell_x_max c) \<and>
     f_le (cell_y_min c) y \<and> f_le y (cell_y_max c) \<and> f_le (z_min1 c) z \<and> f_le z (z_max1 c))"

lemma sort_bounds:
  assumes "z \<in> set zs"
  shows "sort zs ! 0 \<le> (z :: real)" and "z \<le> sort zs ! (length zs - 1)"
proof -
  have "z \<in> set (sort zs)" using assms by simp
  then obtain i where "i < length zs" "sort zs ! i = z" by (metis in_set_conv_nth length_sort)
  then show "sort zs ! 0 \<le> z" and "z \<le> sort zs ! (length zs - 1)"
    using sorted_nth_mono [OF sorted_sort, of 0 i zs] sorted_nth_mono [OF sorted_sort, of i "length zs - 1" zs]
    by auto
qed

lemma cell_of_points_heights:
  assumes "cell_of_points c qs"
  shows "z_min1 c = Fin (sort (map pt_z qs) ! 0)" "z_max1 c = Fin (sort (map pt_z qs) ! (length qs - 1))"
  using assms low_pair_nth(1) [of "z_min1 c" "z_min2 c" "map pt_z qs"]
    high_nth(1) [of "z_max1 c" "z_max2 c" "map pt_z qs"]
  by (simp_all add: cell_of_points_def o_def)

lemma cell_of_points_box:
  assumes "cell_of_points c qs" and "q \<in> set qs" and "finite_pt q"
  shows "cell_box c q"
proof -
  obtain x y z where q: "q = (Fin x, Fin y, Fin z)" and xyz: "pt_x q = x" "pt_y q = y" "pt_z q = z"
    using assms(3) by (metis finite_pt_def)
  have "z \<in> set (map pt_z qs)" using assms(2) xyz by auto
  note z = sort_bounds [OF this]
  have "Min (pt_x ` set qs) \<le> x" "x \<le> Max (pt_x ` set qs)" "Min (pt_y ` set qs) \<le> y" "y \<le> Max (pt_y ` set qs)"
    using assms(2) xyz by (metis Max_ge Min_le finite_imageI finite_set image_eqI)+
  then show ?thesis
    using assms(1) z cell_of_points_heights [OF assms(1)] by (simp add: cell_box_def q cell_of_points_def)
qed

lemma cluster_box:
  assumes "\<forall>k \<in> set ks. \<exists>qs. cell_of_points (g k) qs" and "k \<in> set ks" and "cell_box (g k) q"
  shows "in_box (fold (extend_cluster \<circ> g) ks empty_cluster) q"
proof -
  obtain x y z where q: "q = (x, y, z)" by (cases q)
  have fin: "\<forall>k \<in> set ks. \<exists>r. cell_x_min (g k) = Fin r" "\<forall>k \<in> set ks. \<exists>r. cell_x_max (g k) = Fin r"
    "\<forall>k \<in> set ks. \<exists>r. cell_y_min (g k) = Fin r" "\<forall>k \<in> set ks. \<exists>r. cell_y_max (g k) = Fin r"
    using assms(1) by (auto simp: cell_of_points_def)
  have finz: "\<forall>k \<in> set ks. \<exists>r. z_min1 (g k) = Fin r" "\<forall>k \<in> set ks. \<exists>r. z_max1 (g k) = Fin r"
    using assms(1) cell_of_points_heights by blast+
  note lo = fold_f_min [of ks _ FLT_MAX] and hi = fold_f_max [of ks _ "- FLT_MAX"]
  show ?thesis
    using assms(2,3) lo [OF fin(1)] lo [OF fin(3)] lo [OF finz(1)] hi [OF fin(2)] hi [OF fin(4)] hi [OF finz(2)]
    unfolding in_box_def cell_box_def q prod.case fold_extend_cluster empty_cluster_def ObstacleCluster.simps
    by (metis f_le_trans)
qed

section \<open>Runs\<close>

text \<open>The states of a detector after construction and any number of frames.\<close>

inductive det_reachable :: "ObstacleDetectionParams \<Rightarrow> detector \<Rightarrow> bool" for p where
  constructed: "ObstacleDetector p = Inr d \<Longrightarrow> det_reachable p d"
| frame: "det_reachable p d \<Longrightarrow> process pts tf d = Some d' \<Longrightarrow> det_reachable p d'"

inductive_cases det_reachableE: "det_reachable p d"

definition same_setup :: "detector \<Rightarrow> detector \<Rightarrow> bool" where
  "same_setup d d0 \<longleftrightarrow> det_params d = det_params d0 \<and> grid_width d = grid_width d0 \<and>
     grid_height d = grid_height d0 \<and> link_radius d = link_radius d0 \<and>
     min_points_needed d = min_points_needed d0"

lemma det_reachable_inv:
  assumes "det_reachable p d"
  shows "det_inv d \<and> det_params d = p \<and> (\<exists>d0. ObstacleDetector p = Inr d0 \<and> same_setup d d0)"
  using assms
proof induction
  case (constructed d)
  moreover have "det_params d = p"
    using constructed by (auto simp: ObstacleDetector_def Let_def split: sum.splits)
  ultimately show ?case by (auto simp: ObstacleDetector_inv same_setup_def)
next
  case (frame d pts tf d')
  then obtain d0 where "det_inv d" and d0: "ObstacleDetector p = Inr d0" "same_setup d d0"
    and "det_params d = p" by blast
  from process_result [OF \<open>det_inv d\<close>, of pts tf] frame(2)
  have "det_inv d' \<and> same_setup d' d" unfolding same_setup_def by (metis option.inject)
  then show ?case using d0 \<open>det_params d = p\<close> by (auto simp: same_setup_def)
qed

lemma gathered_cong:
  assumes "same_setup d d0"
  shows "gathered qs (cleared pts d) = gathered qs (cleared pts d0)"
proof -
  have "cell_index (cleared pts d) = cell_index (cleared pts d0)"
    using assms by (intro cell_index_cong) (simp_all add: cleared_def same_setup_def)
  moreover have "cells (cleared pts d) = cells (cleared pts d0)"
    using assms by (simp add: cells_def cleared_def same_setup_def)
  ultimately show ?thesis
    using assms
    by (intro detector.equality)
      (simp_all add: gathered_def cell_value_def [abs_def], simp_all add: cleared_def same_setup_def)
qed

text \<open>What the final clustering invariant says of the cluster of a kept cell.\<close>

lemma kept_cluster:
  assumes geo: "geometry_ok d" and fin: "list_all finite_pt qs"
    and inv: "clustering_inv (judged qs (cleared pts d)) (obstacle_cells d qs) {} lab cls"
    and i: "i \<in> kept_cells d qs"
  defines "K \<equiv> component d (obstacle_cells d qs) i"
  defines "cl \<equiv> counted lab (map (\<lambda>q. (q, cell_index d q)) qs) cls ! nat (lab ! i)"
  defines "ps \<equiv> filter (\<lambda>q. cell_index d q \<in> K) qs"
  shows "nat (lab ! i) < length cls" "lab ! i = int (nat (lab ! i))"
    "\<And>j. j < cells d \<Longrightarrow> lab ! j = lab ! i \<longleftrightarrow> j \<in> K"
    "num_cells cl = card K" "num_points cl = length ps" "list_all (in_box cl) ps"
proof -
  let ?d = "judged qs (cleared pts d)" let ?C = "obstacle_cells d qs"
  have iC: "i \<in> ?C" and big: "\<not> small d K" using i by (simp_all add: kept_cells_def K_def)
  have "settled ?d ?C lab cls i" using inv iC by (simp add: clustering_inv_def)
  then obtain c where c: "c < length cls" "lab ! i = int c" "describes ?d K (cls ! c)"
    "{j. j < cells d \<and> lab ! j = int c} = K"
    using big unfolding settled_def judged_facts cleared_facts K_def [symmetric] by auto
  then show "nat (lab ! i) < length cls" "lab ! i = int (nat (lab ! i))" by simp_all
  show lab: "lab ! j = lab ! i \<longleftrightarrow> j \<in> K" if "j < cells d" for j using c(2,4) that by auto
  obtain ks where ks: "distinct ks" "set ks = K"
    and cls: "cls ! c = (fold (extend_cluster \<circ> (!) (grid ?d)) ks empty_cluster)\<lparr>num_cells := length ks\<rparr>"
    using c(3) by (auto simp: describes_def)
  have cl: "cl = (cls ! c)\<lparr>num_points := num_points (cls ! c) +
      points_of_label lab (map (\<lambda>q. (q, cell_index d q)) qs) (int c)\<rparr>"
    using c(1,2) by (simp add: cl_def counted_def)
  show "num_cells cl = card K" using distinct_card [OF ks(1)] ks(2) by (simp add: cl cls)
  have "num_points (cls ! c) = 0" by (simp add: cls fold_extend_cluster empty_cluster_def)
  moreover have "points_of_label lab (map (\<lambda>q. (q, cell_index d q)) qs) (int c) = length ps"
    using lab [OF cell_index_less [OF geo]] c(2)
    by (simp add: points_of_label_def ps_def filter_map o_def)
  ultimately show "num_points cl = length ps" by (simp add: cl)
  have "K \<subseteq> ?C" using component_subset [OF iC] by (simp add: K_def)
  have grid: "grid ?d ! k = cell_value d qs k" if "k < cells d" for k
    using that by (simp add: judged_facts cleared_facts cell_value_def)
  have cp: "cell_of_points (cell_value d qs (cell_index d q)) (filter (\<lambda>r. cell_index d r = cell_index d q) qs)"
    if "q \<in> set qs" for q
    unfolding cell_value_def
  proof (rule fold_update_cell_points)
    show "filter (\<lambda>r. cell_index d r = cell_index d q) qs \<noteq> []"
      using that unfolding filter_empty_conv by blast
    show "list_all finite_pt (filter (\<lambda>r. cell_index d r = cell_index d q) qs)"
      using fin by (simp add: list_all_iff)
  qed
  have cells: "\<forall>k \<in> set ks. \<exists>qs. cell_of_points (grid ?d ! k) qs"
  proof
    fix k assume "k \<in> set ks"
    then have "k \<in> cell_index d ` set qs"
      using ks(2) \<open>K \<subseteq> ?C\<close> obstacle_cells_touched [OF geo, of qs] by blast
    then obtain q where k: "k = cell_index d q" and "q \<in> set qs" by (rule imageE)
    from cp [OF this(2)] show "\<exists>qs. cell_of_points (grid ?d ! k) qs"
      unfolding k grid [OF cell_index_less [OF geo]] by (rule exI)
  qed
  have "in_box cl q" if q: "q \<in> set qs" "cell_index d q \<in> K" for q
  proof -
    have "cell_box (grid ?d ! cell_index d q) q"
      unfolding grid [OF cell_index_less [OF geo]]
      using q fin by (intro cell_of_points_box [OF cp [OF q(1)]]) (auto simp: list_all_iff)
    with cells have "in_box (fold (extend_cluster \<circ> (!) (grid ?d)) ks empty_cluster) q"
      using q(2) ks(2) by (intro cluster_box) auto
    then show ?thesis by (simp add: cl cls in_box_def)
  qed
  then show "list_all (in_box cl) ps" by (auto simp: list_all_iff ps_def)
qed

section \<open>Properties\<close>

text \<open>
  C14. A frame returns, and reports exactly the obstacle points: whatever frames came before, the
  output of \<^verbatim>\<open>process\<close> is, in input order, the cropped points that lie in a kept cell, that is, a
  cell with enough points whose height spread (without the outliers, when they are trimmed) exceeds the
  threshold, and whose component of linked obstacle cells is not too small.
\<close>

theorem detector_output:
  assumes "det_reachable p d"
  shows "\<exists>d'. process pts tf d = Some d' \<and>
    obstacle_points d' =
      filter (\<lambda>q. cell_index d q \<in> kept_cells d (roi_points p pts tf)) (roi_points p pts tf)"
proof -
  have "det_inv d" and p: "det_params d = p" using det_reachable_inv [OF assms] by blast+
  from process_result [OF this(1), of pts tf] show ?thesis unfolding p by metis
qed

definition sample_detection :: ObstacleDetectionParams where
  "sample_detection = \<lparr>stride = 1, cropbox_x_min = 0, cropbox_x_max = 3, cropbox_y_min = 0,
     cropbox_y_max = 2, cropbox_z_min = 0, cropbox_z_max = 1, grid_size = 1, delta_z_threshold = 1 / 2,
     min_points_per_cell = 2, z_outlier_trim = 0, cluster_tolerance = 1, min_cluster_cells = 1\<rparr>"

definition sample_detector :: detector where
  "sample_detector = \<lparr>det_params = sample_detection, grid_width = 3, grid_height = 2, link_radius = 1,
     min_points_needed = 2, grid = replicate 6 GridCell_init, labels = replicate 6 kNone,
     touched_cells = [], candidate_cells = [], cropped = [], obstacle_points = [], clusters = [],
     stats = FrameStats_init\<rparr>"

definition identity_tf :: isometry where
  "identity_tf = ((Fin 1, Fin 0, Fin 0), (Fin 0, Fin 1, Fin 0), (Fin 0, Fin 0, Fin 1), (Fin 0, Fin 0, Fin 0))"

text \<open>Two points above each other, one alone, and one that is not a number.\<close>

definition sample_points :: "Point3 list" where
  "sample_points = [(Fin (1 / 2), Fin (1 / 2), Fin 0), (Fin (1 / 2), Fin (1 / 2), Fin 1),
     (Fin (5 / 2), Fin (1 / 2), Fin 1), (NaN, Fin 0, Fin 0)]"

lemma sample_detector_ok: "ObstacleDetector sample_detection = Inr sample_detector"
proof -
  have "\<lfloor>1 + 1 / 1000000 :: real\<rfloor> = 1" by (simp add: floor_eq_iff)
  then have "nat (max 1 \<lfloor>1 + 1 / 1000000 :: real\<rfloor>) = 1" by simp
  then show ?thesis
    by (simp add: ObstacleDetector_def validate_def sample_detection_def grid_cells_def kMaxGridCells_def
        sample_detector_def numeral_eq_Suc Let_def)
qed

lemma sample_reachable: "det_reachable sample_detection sample_detector"
  by (rule constructed) (rule sample_detector_ok)

lemma sample_roi: "roi_points sample_detection sample_points identity_tf = take 3 sample_points"
  by (simp add: roi_points_def sample_points_def identity_tf_def sample_detection_def to_base_def
      row_mul_def in_roi_def f_le_def)

theorem detector_output_witness:
  "\<exists>d'. process sample_points identity_tf sample_detector = Some d' \<and>
    obstacle_points d' = filter (\<lambda>q. cell_index sample_detector q \<in>
      kept_cells sample_detector (take 3 sample_points)) (take 3 sample_points)"
  using detector_output [OF sample_reachable, of sample_points identity_tf] by (simp add: sample_roi)

text \<open>
  Frames are independent: the buffers reused between frames never leak into a result.  Processing
  a cloud gives the same detector state, hence the same points, clusters and statistics, after any number
  of earlier frames as on a newly constructed detector.
\<close>

theorem frame_independent:
  assumes "det_reachable p d" and "ObstacleDetector p = Inr d0"
  shows "process pts tf d = process pts tf d0"
proof -
  have inv: "det_inv d" and p: "det_params d = p" and same: "same_setup d d0"
    using det_reachable_inv [OF assms(1)] assms(2) by auto
  have inv0: "det_inv d0" and p0: "det_params d0 = p"
    using det_reachable_inv [OF constructed [OF assms(2)]] by blast+
  have "accumulate pts tf (cleared pts d) = accumulate pts tf (cleared pts d0)"
    using inv inv0 gathered_cong [OF same] by (simp add: accumulate_gathered cleared_facts p p0)
  then show ?thesis by (simp add: process_def cleared_def)
qed

theorem frame_independent_witness:
  "\<exists>d'. process sample_points identity_tf sample_detector = Some d' \<and>
     process [] identity_tf d' = process [] identity_tf sample_detector"
proof -
  obtain d' where d': "process sample_points identity_tf sample_detector = Some d'"
    using process_result [OF ObstacleDetector_inv [OF sample_detector_ok], of sample_points identity_tf]
    by metis
  have "det_reachable sample_detection d'" using sample_reachable d' by (rule frame)
  from frame_independent [OF this sample_detector_ok] d' show ?thesis by blast
qed

text \<open>
  C23. The reported clusters are the large components of linked obstacle cells: every kept cell belongs
  to a reported cluster that counts the cells of its component and the cropped points in them, and whose
  box contains each of these points; and every reported cluster is the cluster of a kept cell.
\<close>

theorem clusters_are_components:
  assumes "det_reachable p d" and "process pts tf d = Some d'"
  shows "\<exists>cluster_of. cluster_of ` kept_cells d (roi_points p pts tf) = {..<length (clusters d')} \<and>
    (\<forall>i \<in> kept_cells d (roi_points p pts tf).
      let K = component d (obstacle_cells d (roi_points p pts tf)) i; cl = clusters d' ! cluster_of i;
          ps = filter (\<lambda>q. cell_index d q \<in> K) (roi_points p pts tf)
      in num_cells cl = card K \<and> num_points cl = length ps \<and> list_all (in_box cl) ps \<and>
         (\<forall>j \<in> kept_cells d (roi_points p pts tf). cluster_of j = cluster_of i \<longleftrightarrow> j \<in> K))"
proof -
  let ?qs = "roi_points p pts tf"
  have inv: "det_inv d" and p: "det_params d = p" using det_reachable_inv [OF assms(1)] by blast+
  have geo: "geometry_ok d" using inv by (simp add: det_inv_def)
  obtain lab cls where ci: "clustering_inv (judged ?qs (cleared pts d)) (obstacle_cells d ?qs) {} lab cls"
    and cl: "clusters d' = counted lab (map (\<lambda>q. (q, cell_index d q)) ?qs) cls"
    using process_result [OF inv, of pts tf] assms(2) unfolding p by (metis option.inject)
  note kc = kept_cluster [OF geo roi_points_finite ci]
  have lt: "\<And>i. i \<in> kept_cells d ?qs \<Longrightarrow> i < cells d" by (simp add: kept_cells_def obstacle_cells_def)
  have "\<exists>i \<in> kept_cells d ?qs. nat (lab ! i) = c" if c: "c < length cls" for c
  proof -
    obtain i where i: "i \<in> obstacle_cells d ?qs" "lab ! i = int c"
      using ci c by (auto simp: clustering_inv_def)
    then have "i < cells (cleared pts d)" by (simp add: obstacle_cells_def cleared_facts)
    with settled_kept(1) [of ?qs "cleared pts d" lab cls i] ci i show ?thesis
      by (intro bexI [of _ i]) (simp_all add: cleared_facts)
  qed
  then have "(\<lambda>i. nat (lab ! i)) ` kept_cells d ?qs = {..<length (clusters d')}"
    using kc(1) by (fastforce simp: cl)
  moreover have "nat (lab ! j) = nat (lab ! i) \<longleftrightarrow> j \<in> component d (obstacle_cells d ?qs) i"
    if "i \<in> kept_cells d ?qs" "j \<in> kept_cells d ?qs" for i j
    using kc(3) [OF that(1) lt [OF that(2)]] kc(2) [OF that(1)] kc(2) [OF that(2)] by metis
  ultimately show ?thesis
    using kc(4-6) unfolding cl by (intro exI [of _ "\<lambda>i. nat (lab ! i)"]) (simp add: Let_def)
qed

theorem clusters_are_components_witness:
  "\<exists>d' cluster_of. process sample_points identity_tf sample_detector = Some d' \<and>
     cluster_of ` kept_cells sample_detector (take 3 sample_points) = {..<length (clusters d')}"
proof -
  obtain d' where d': "process sample_points identity_tf sample_detector = Some d'"
    using process_result [OF ObstacleDetector_inv [OF sample_detector_ok], of sample_points identity_tf]
    by metis
  from clusters_are_components [OF sample_reachable d'] show ?thesis using d' by (auto simp: sample_roi)
qed

text \<open>
  Only finite points of the crop box are reported: points with a NaN or infinite coordinate, in the
  sensor frame or after the transform, never reach the output.
\<close>

theorem obstacle_points_in_box:
  assumes "det_reachable p d" and "process pts tf d = Some d'" and "q \<in> set (obstacle_points d')"
  shows "\<exists>x y z. q = (Fin x, Fin y, Fin z) \<and> cropbox_x_min p \<le> x \<and> x < cropbox_x_max p \<and>
    cropbox_y_min p \<le> y \<and> y < cropbox_y_max p \<and> cropbox_z_min p \<le> z \<and> z \<le> cropbox_z_max p"
proof -
  have "det_inv d" and p: "det_params d = p" using det_reachable_inv [OF assms(1)] by blast+
  with process_result [OF this(1), of pts tf] assms(2) have "obstacle_points d' =
      filter (\<lambda>q. cell_index d q \<in> kept_cells d (roi_points p pts tf)) (roi_points p pts tf)"
    unfolding p by (metis option.inject)
  then have "in_roi p q" using assms(3) by (auto simp: roi_points_def)
  then show ?thesis by (rule in_roi_finite) blast
qed

text \<open>The sample cloud: its two points above each other are the obstacle.\<close>

lemma sample_kept: "kept_cells sample_detector (take 3 sample_points) = {0}"
proof -
  have idx: "map (cell_index sample_detector) (take 3 sample_points) = [0, 0, 2]"
    by (simp add: sample_points_def cell_index_def sample_detector_def sample_detection_def axis_cell_def
        trunc_int_def Let_def)
  have "i \<in> obstacle_cells sample_detector (take 3 sample_points) \<longleftrightarrow> i = 0" for i
    using idx
    by (auto simp: obstacle_cells_def sample_points_def cells_def sample_detector_def sample_detection_def
        height_spread_def pt_z_def Let_def)
  then have obs: "obstacle_cells sample_detector (take 3 sample_points) = {0}" by blast
  have "component sample_detector {0} 0 \<subseteq> {0}" by (rule component_subset) simp
  then have "component sample_detector {0} 0 = {0}" using component_refl [of 0] by blast
  moreover have "\<not> small sample_detector {0}"
    by (simp add: small_def sample_detector_def sample_detection_def)
  ultimately have "i \<in> kept_cells sample_detector (take 3 sample_points) \<longleftrightarrow> i = 0" for i
    unfolding kept_cells_def obs by (cases "i = 0") simp_all
  then show ?thesis by blast
qed

theorem obstacle_points_in_box_witness:
  "\<exists>d'. process sample_points identity_tf sample_detector = Some d' \<and>
     obstacle_points d' = take 2 sample_points \<and>
     (\<exists>x y z. hd (obstacle_points d') = (Fin x, Fin y, Fin z) \<and> 0 \<le> x \<and> x < 3)"
proof -
  obtain d' where d': "process sample_points identity_tf sample_detector = Some d'"
    and "obstacle_points d' = filter (\<lambda>q. cell_index sample_detector q \<in>
      kept_cells sample_detector (roi_points (det_params sample_detector) sample_points identity_tf))
      (roi_points (det_params sample_detector) sample_points identity_tf)"
    by (rule process_result [OF ObstacleDetector_inv [OF sample_detector_ok], of sample_points identity_tf])
  moreover have "det_params sample_detector = sample_detection" by (simp add: sample_detector_def)
  ultimately have out: "obstacle_points d' =
      filter (\<lambda>q. cell_index sample_detector q \<in> {0}) (take 3 sample_points)"
    by (simp add: sample_roi sample_kept)
  then have two: "obstacle_points d' = take 2 sample_points"
    by (simp add: sample_points_def cell_index_def sample_detector_def sample_detection_def axis_cell_def
        trunc_int_def Let_def)
  then have "hd (obstacle_points d') \<in> set (obstacle_points d')" by (simp add: sample_points_def)
  from obstacle_points_in_box [OF sample_reachable d' this]
  obtain x y z where "hd (obstacle_points d') = (Fin x, Fin y, Fin z)" "0 \<le> x" "x < 3"
    by (elim exE conjE) (simp add: sample_detection_def)
  with d' two show ?thesis by blast
qed

end
