(* ===== verification/SensorInput.thy ===== *)
theory SensorInput
  imports Geometry "HOL-Library.Multiset"
begin

text \<open>
  \<^verbatim>\<open>slam_gnss_2d/input\<close> and the front end of \<^verbatim>\<open>slam_gnss_2d/core\<close>: look-up and interpolation in time series, the
  buffered odometry and GNSS sources, motion correction of scans (deskew) and the synchroniser that turns
  scans into sensor frames.

  \<^verbatim>\<open>std::lower_bound\<close> is the index of the first element that is not less; the sources sort their buffers before
  they call it, as it requires.  \<^verbatim>\<open>std::sort\<close> is modelled as a stable sort.  The conversion of latitude and
  longitude to UTM coordinates (GeographicLib) is a parameter.
\<close>

section \<open>Time series\<close>

definition lower_bound :: "real list \<Rightarrow> real \<Rightarrow> nat" where
  "lower_bound ts t = length (takeWhile (\<lambda>s. s < t) ts)"

definition nearest_by_timestamp :: "'a list \<Rightarrow> real list \<Rightarrow> real \<Rightarrow> real option \<Rightarrow> 'a option" where
  "nearest_by_timestamp items ts t max_dt =
     (if items = [] \<or> ts = [] \<or> length items \<noteq> length ts then None
      else
        let idx = lower_bound ts t;
            (best, best_dt) =
              (if idx = 0 then (items ! 0, \<bar>t - ts ! 0\<bar>)
               else if idx \<ge> length ts then (last items, \<bar>t - last ts\<bar>)
               else
                 let dt_prev = \<bar>t - ts ! (idx - 1)\<bar>; dt_next = \<bar>t - ts ! idx\<bar>
                 in if dt_prev \<le> dt_next then (items ! (idx - 1), dt_prev) else (items ! idx, dt_next))
        in case max_dt of
             Some m \<Rightarrow> if best_dt > m then None else Some best
           | None \<Rightarrow> Some best)"

definition interpolate_odom :: "OdomData list \<Rightarrow> real list \<Rightarrow> real \<Rightarrow> OdomData option" where
  "interpolate_odom odom_list ts t =
     (if odom_list = [] \<or> ts = [] \<or> length odom_list \<noteq> length ts then None
      else
        let idx = lower_bound ts t
        in if idx = 0 then Some (odom_list ! 0)
           else if idx \<ge> length odom_list then Some (last odom_list)
           else
             let prev = odom_list ! (idx - 1); next = odom_list ! idx;
                 t_span = o_stamp next - o_stamp prev
             in if t_span < 1 / 10 ^ 9 then Some prev
                else
                  let alpha = (t - o_stamp prev) / t_span
                  in Some \<lparr>o_stamp = t, o_x = o_x prev + alpha * (o_x next - o_x prev),
                       o_y = o_y prev + alpha * (o_y next - o_y prev),
                       o_yaw = o_yaw prev + alpha * angle_diff (o_yaw next) (o_yaw prev)\<rparr>)"

definition mix :: "real \<Rightarrow> real \<Rightarrow> real \<Rightarrow> real" where
  "mix alpha a b = a + alpha * (b - a)"

definition interpolate_gnss ::
  "GnssData list \<Rightarrow> real list \<Rightarrow> real \<Rightarrow> real option \<Rightarrow> GnssData option" where
  "interpolate_gnss gnss_list ts t max_dt =
     (if gnss_list = [] \<or> ts = [] \<or> length gnss_list \<noteq> length ts then None
      else
        let idx = lower_bound ts t; over = (\<lambda>d. case max_dt of Some m \<Rightarrow> d > m | None \<Rightarrow> False)
        in if idx = 0 then (if over \<bar>t - ts ! 0\<bar> then None else Some (gnss_list ! 0))
           else if idx \<ge> length gnss_list then (if over \<bar>t - last ts\<bar> then None else Some (last gnss_list))
           else
             let prev = gnss_list ! (idx - 1); next = gnss_list ! idx;
                 t_span = g_stamp next - g_stamp prev
             in if t_span < 1 / 10 ^ 9 then Some prev
                else if over t_span \<or> over \<bar>t - g_stamp prev\<bar> \<or> over \<bar>t - g_stamp next\<bar> then None
                else
                  let alpha = (t - g_stamp prev) / t_span
                  in Some \<lparr>g_stamp = t, g_x = mix alpha (g_x prev) (g_x next), g_y = mix alpha (g_y prev) (g_y next),
                       g_cov = (case (g_cov prev, g_cov next) of (((a, b), (c, d)), ((a', b'), (c', d'))) \<Rightarrow>
                         ((mix alpha a a', mix alpha b b'), (mix alpha c c', mix alpha d d'))),
                       g_fix = g_fix prev, g_lat = mix alpha (g_lat prev) (g_lat next),
                       g_lon = mix alpha (g_lon prev) (g_lon next)\<rparr>)"

section \<open>Time window of a bag\<close>

record BagTimeRange =
  bag_start_sec :: real
  target_start_sec :: real
  target_end_sec :: real

definition is_before_start :: "BagTimeRange \<Rightarrow> real \<Rightarrow> bool" where
  "is_before_start r t \<longleftrightarrow> target_start_sec r > 0 \<and> t < target_start_sec r"

definition is_past_end :: "BagTimeRange \<Rightarrow> real \<Rightarrow> bool" where
  "is_past_end r t \<longleftrightarrow> target_end_sec r > 0 \<and> t > target_end_sec r"

definition is_in_range :: "BagTimeRange \<Rightarrow> real \<Rightarrow> real \<Rightarrow> bool" where
  "is_in_range r t margin =
     (if target_start_sec r > 0 \<and> t < target_start_sec r - margin then False
      else if target_end_sec r > 0 \<and> t > target_end_sec r + margin then False
      else True)"

definition compute_bag_time_range :: "real \<Rightarrow> real \<Rightarrow> real \<Rightarrow> BagTimeRange" where
  "compute_bag_time_range bag_start start_time end_time =
     \<lparr>bag_start_sec = bag_start,
      target_start_sec = (if start_time > 0 then bag_start + start_time else 0),
      target_end_sec =
        (if end_time > 0 then
           if start_time > 0 \<and> end_time \<le> start_time then 0 else bag_start + end_time
         else 0)\<rparr>"

section \<open>Buffered sources\<close>

definition kOdomBufferSize :: nat where "kOdomBufferSize = 200"
definition kGnssBufferSize :: nat where "kGnssBufferSize = 1000"

definition push_bounded :: "nat \<Rightarrow> 'a \<Rightarrow> 'a list \<Rightarrow> 'a list" where
  "push_bounded limit x buf = (if length buf \<ge> limit then tl buf else buf) @ [x]"

record odom_source =
  odom_buffer :: "OdomData list"
  odom_recv_count :: int
  empty_warned :: bool

definition ROS2OdomSource :: odom_source where
  "ROS2OdomSource = \<lparr>odom_buffer = [], odom_recv_count = 0, empty_warned = False\<rparr>"

text \<open>An odometry message: its time stamp, position and orientation.\<close>

type_synonym odom_msg = "real \<times> real \<times> real \<times> (real \<times> real \<times> real \<times> real)"

definition odom_on_msg :: "odom_msg \<Rightarrow> odom_source \<Rightarrow> odom_source" where
  "odom_on_msg = (\<lambda>(stamp, x, y, (qx, qy, qz, qw)) src.
     src\<lparr>odom_recv_count := odom_recv_count src + 1,
       odom_buffer := push_bounded kOdomBufferSize
         \<lparr>o_stamp = stamp, o_x = x, o_y = y, o_yaw = quaternion_to_yaw qx qy qz qw\<rparr> (odom_buffer src)\<rparr>)"

definition get_odom_at :: "odom_source \<Rightarrow> real \<Rightarrow> OdomData option \<times> odom_source" where
  "get_odom_at src t =
     (if odom_buffer src = [] then (None, src\<lparr>empty_warned := True\<rparr>)
      else
        let buf = sort_key o_stamp (odom_buffer src); ts = map o_stamp buf
        in if t \<le> hd ts \<or> t \<ge> last ts then (Some (if t \<le> hd ts then hd buf else last buf), src)
           else (interpolate_odom buf ts t, src))"

text \<open>
  The two GNSS sources.  \<open>utm\<close> stands for \<^verbatim>\<open>build_utm_transformer\<close> and \<^verbatim>\<open>transform_latlon\<close>: the zone chosen for
  the first position, and the coordinates of a position in a zone.
\<close>

record 'z utm_lib =
  build_utm_transformer :: "real \<Rightarrow> real \<Rightarrow> 'z"
  transform_latlon :: "'z \<Rightarrow> real \<Rightarrow> real \<Rightarrow> vec2"

record 'z gnss_source =
  gnss_buffer :: "GnssData list"
  gnss_recv_count :: int
  transformer :: "'z option"

definition gnss_source_init :: "'z gnss_source" where
  "gnss_source_init = \<lparr>gnss_buffer = [], gnss_recv_count = 0, transformer = None\<rparr>"

definition get_gnss_at :: "'z gnss_source \<Rightarrow> real \<Rightarrow> GnssData option" where
  "get_gnss_at src t =
     (if gnss_buffer src = [] then None
      else
        let buf = sort_key g_stamp (gnss_buffer src); ts = map g_stamp buf
        in nearest_by_timestamp buf ts t (Some 5))"

definition gnss_store ::
  "'z utm_lib \<Rightarrow> real \<Rightarrow> real \<Rightarrow> real \<Rightarrow> vec2 \<times> vec2 \<Rightarrow> int \<Rightarrow> 'z gnss_source \<Rightarrow> 'z gnss_source" where
  "gnss_store utm stamp lat lon cov fix_status src =
     (let tr = (case transformer src of Some z \<Rightarrow> z | None \<Rightarrow> build_utm_transformer utm lat lon);
          (x, y) = transform_latlon utm tr lat lon
      in src\<lparr>transformer := Some tr, gnss_recv_count := gnss_recv_count src + 1,
           gnss_buffer := push_bounded kGnssBufferSize
             \<lparr>g_stamp = stamp, g_x = x, g_y = y, g_cov = cov, g_fix = fix_status, g_lat = lat, g_lon = lon\<rparr>
             (gnss_buffer src)\<rparr>)"

record NavSatFix =
  nsf_stamp :: real
  nsf_status :: int
  nsf_lat :: real
  nsf_lon :: real
  nsf_cov_known :: bool
  nsf_cov :: "real list"

definition navsat_on_msg :: "'z utm_lib \<Rightarrow> NavSatFix \<Rightarrow> 'z gnss_source \<Rightarrow> 'z gnss_source" where
  "navsat_on_msg utm msg src =
     (if nsf_status msg < 0 then src
      else
        let cov = (if nsf_cov_known msg
              then ((nsf_cov msg ! 0, nsf_cov msg ! 1), (nsf_cov msg ! 3, nsf_cov msg ! 4))
              else ((0, 0), (0, 0)))
        in gnss_store utm (nsf_stamp msg) (nsf_lat msg) (nsf_lon msg) cov (nsf_status msg) src)"

record NavPVT =
  pvt_flags :: u8
  pvt_fix_type :: u8
  pvt_lon :: int
  pvt_lat :: int
  pvt_h_acc :: nat

definition navpvt_on_msg :: "'z utm_lib \<Rightarrow> real \<Rightarrow> real \<Rightarrow> NavPVT \<Rightarrow> 'z gnss_source \<Rightarrow> 'z gnss_source" where
  "navpvt_on_msg utm hacc_scale now msg src =
     (if pvt_flags msg AND 0x01 = 0 then src
      else if pvt_fix_type msg < 2 then src
      else
        let lon = real_of_int (pvt_lon msg) / 10 ^ 7; lat = real_of_int (pvt_lat msg) / 10 ^ 7;
            cov = (if pvt_h_acc msg > 0
              then let pos_std = real (pvt_h_acc msg) / 1000 * hacc_scale; pos_var = pos_std * pos_std
                   in ((pos_var, 0), (0, pos_var))
              else ((0, 0), (0, 0)));
            carr_soln = uint (drop_bit 6 (pvt_flags msg) AND 0x03)
        in gnss_store utm now lat lon cov carr_soln src)"

section \<open>Deskew\<close>

record DeskewConfig =
  dk_enabled :: bool
  dk_direction :: int
  dk_start_offset :: real
  dk_duration :: real

definition kSamples :: nat where "kSamples = 11"

definition odom_pose :: "OdomData \<Rightarrow> pose" where
  "odom_pose o' = (o_x o', o_y o', o_yaw o')"

fun all_some :: "'a option list \<Rightarrow> 'a list option" where
  "all_some [] = Some []"
| "all_some (None # xs) = None"
| "all_some (Some x # xs) = map_option ((#) x) (all_some xs)"

text \<open>The relative poses at the sample times of the scan.\<close>

definition deskew_samples ::
  "ScanData \<Rightarrow> (real \<Rightarrow> OdomData option) \<Rightarrow> DeskewConfig \<Rightarrow> real \<Rightarrow> OdomData \<Rightarrow> pose list option" where
  "deskew_samples scan odom_at cfg duration reference =
     all_some (map (\<lambda>k. map_option (\<lambda>odom. delta_pose (odom_pose reference) (odom_pose odom))
         (odom_at (scan_stamp scan + dk_start_offset cfg + duration * real k / real (kSamples - 1))))
       [0..<kSamples])"

text \<open>The robot pose at the time a beam was measured, relative to its pose at the time stamp.\<close>

definition beam_motion :: "DeskewConfig \<Rightarrow> nat \<Rightarrow> pose list \<Rightarrow> nat \<Rightarrow> pose" where
  "beam_motion cfg n samples i =
     (let frac = (if dk_direction cfg > 0 then real i / real (n - 1) else real (n - 1 - i) / real (n - 1));
          u = frac * real (kSamples - 1);
          k = min (nat (trunc_int u)) (kSamples - 2);
          w = u - real k;
          (ax, ay, ayaw) = samples ! k; (bx, by', byaw) = samples ! (k + 1)
      in (ax + w * (bx - ax), ay + w * (by' - ay), ayaw + w * angle_diff byaw ayaw))"

definition deskew_beam :: "ScanData \<Rightarrow> DeskewConfig \<Rightarrow> pose list \<Rightarrow> nat \<Rightarrow> fval \<times> real" where
  "deskew_beam scan cfg samples i =
     (let n = length (ranges scan); angle = beam_angle scan i
      in if \<not> beam_valid scan i then (ranges scan ! i, angle)
         else
           let r = fin_val (ranges scan ! i);
               (dx, dy, dyaw) = beam_motion cfg n samples i;
               px = lidar_x scan + r * cos angle; py = lidar_y scan + r * sin angle;
               c = cos dyaw; s = sin dyaw;
               rx = c * px - s * py + dx - lidar_x scan; ry = s * px + c * py + dy - lidar_y scan
           in (Fin (hypot rx ry), atan2 ry rx))"

definition deskew_scan ::
  "ScanData \<Rightarrow> (real \<Rightarrow> OdomData option) \<Rightarrow> DeskewConfig \<Rightarrow> ScanData \<times> bool" where
  "deskew_scan scan odom_at cfg =
     (let n = length (ranges scan);
          duration = (if dk_duration cfg > 0 then dk_duration cfg else scan_duration scan)
      in if \<not> dk_enabled cfg \<or> dk_direction cfg = 0 \<or> n < 2 \<or> duration \<le> 0 then (scan, False)
         else
           case odom_at (scan_stamp scan) of
             None \<Rightarrow> (scan, False)
           | Some reference \<Rightarrow>
               (case deskew_samples scan odom_at cfg duration reference of
                  None \<Rightarrow> (scan, False)
                | Some samples \<Rightarrow>
                    let beams = map (deskew_beam scan cfg samples) [0..<n]
                    in (scan\<lparr>ranges := map fst beams, angles := map snd beams\<rparr>, True)))"

section \<open>Synchroniser\<close>

record synchronizer =
  scan_recv_count :: int
  odom_miss_count :: int
  frames_out :: "SensorFrame list"

definition SensorSynchronizer :: synchronizer where
  "SensorSynchronizer = \<lparr>scan_recv_count = 0, odom_miss_count = 0, frames_out = []\<rparr>"

definition get_stats :: "synchronizer \<Rightarrow> int \<times> int" where
  "get_stats sync = (scan_recv_count sync, odom_miss_count sync)"

text \<open>
  One scan; \<open>gnss_at\<close> is \<open>None\<close> when there is no GNSS source.  Look-ups change the odometry source only while its
  buffer is empty, so the look-ups of the motion correction leave it as it is.
\<close>

definition on_scan ::
  "DeskewConfig \<Rightarrow> (real \<Rightarrow> GnssData option) option \<Rightarrow> ScanData \<Rightarrow> odom_source \<times> synchronizer \<Rightarrow>
   odom_source \<times> synchronizer" where
  "on_scan cfg gnss_at scan = (\<lambda>(src, sync).
     let sync = sync\<lparr>scan_recv_count := scan_recv_count sync + 1\<rparr>;
         (odom, src) = get_odom_at src (scan_stamp scan)
     in case odom of
          None \<Rightarrow> (src, sync\<lparr>odom_miss_count := odom_miss_count sync + 1\<rparr>)
        | Some o' \<Rightarrow>
            let (scan, _) = deskew_scan scan (\<lambda>t. fst (get_odom_at src t)) cfg;
                gnss = (case gnss_at of None \<Rightarrow> None | Some f \<Rightarrow> f (scan_stamp scan));
                frame = \<lparr>f_scan = Some scan, f_odom = o', f_gnss = gnss\<rparr>
            in (src, sync\<lparr>frames_out := frames_out sync @ [frame]\<rparr>))"

datatype input_event = OdomMsg odom_msg | ScanMsg ScanData

fun input_step ::
  "DeskewConfig \<Rightarrow> (real \<Rightarrow> GnssData option) option \<Rightarrow> odom_source \<times> synchronizer \<Rightarrow> input_event \<Rightarrow>
   odom_source \<times> synchronizer" where
  "input_step cfg gnss_at (src, sync) (OdomMsg m) = (odom_on_msg m src, sync)"
| "input_step cfg gnss_at (src, sync) (ScanMsg s) = on_scan cfg gnss_at s (src, sync)"

definition input_run ::
  "DeskewConfig \<Rightarrow> (real \<Rightarrow> GnssData option) option \<Rightarrow> odom_source \<times> synchronizer \<Rightarrow> input_event list \<Rightarrow>
   odom_source \<times> synchronizer" where
  "input_run cfg gnss_at = foldl (input_step cfg gnss_at)"

section \<open>Lemmas on time series\<close>

lemma lower_bound_le: "lower_bound ts t \<le> length ts"
  by (simp add: lower_bound_def length_takeWhile_le)

lemma lower_bound_less: "i < lower_bound ts t \<Longrightarrow> ts ! i < t"
  unfolding lower_bound_def by (metis nth_mem set_takeWhileD takeWhile_nth)

lemma lower_bound_ge:
  assumes "sorted ts" and "lower_bound ts t \<le> i" and "i < length ts"
  shows "t \<le> ts ! i"
proof -
  have "lower_bound ts t < length ts" using assms(2,3) by simp
  then have "\<not> ts ! lower_bound ts t < t" unfolding lower_bound_def by (rule nth_length_takeWhile)
  moreover have "ts ! lower_bound ts t \<le> ts ! i" using assms by (simp add: sorted_nth_mono)
  ultimately show ?thesis by linarith
qed

text \<open>The index the nearest look-up picks.\<close>

definition nearest_idx :: "real list \<Rightarrow> real \<Rightarrow> nat" where
  "nearest_idx ts t =
     (let idx = lower_bound ts t
      in if idx = 0 then 0 else if idx \<ge> length ts then length ts - 1
         else if \<bar>t - ts ! (idx - 1)\<bar> \<le> \<bar>t - ts ! idx\<bar> then idx - 1 else idx)"

lemma nearest_by_timestamp_idx:
  assumes "ts \<noteq> []" and "length items = length ts"
  shows "nearest_by_timestamp items ts t max_dt =
    (if (case max_dt of Some m \<Rightarrow> \<bar>t - ts ! nearest_idx ts t\<bar> > m | None \<Rightarrow> False) then None
     else Some (items ! nearest_idx ts t))"
proof -
  have "items \<noteq> []" using assms by auto
  then have "last items = items ! (length ts - 1)" "last ts = ts ! (length ts - 1)"
    using assms by (simp_all add: last_conv_nth)
  then show ?thesis
    using assms \<open>items \<noteq> []\<close>
    by (simp add: nearest_by_timestamp_def nearest_idx_def Let_def split: option.split)
qed

lemma nearest_idx_less: "ts \<noteq> [] \<Longrightarrow> nearest_idx ts t < length ts"
  by (auto simp: nearest_idx_def Let_def)

lemma nearest_idx_min:
  assumes "sorted ts" and "j < length ts"
  shows "\<bar>t - ts ! nearest_idx ts t\<bar> \<le> \<bar>t - ts ! j\<bar>"
proof -
  let ?i = "lower_bound ts t"
  have below: "ts ! k \<le> ts ! (?i - 1) \<and> ts ! (?i - 1) < t" if "k < ?i" for k
    using assms(1) that lower_bound_le [of ts t] lower_bound_less [of "?i - 1" ts t]
      sorted_nth_mono [OF assms(1), of k "?i - 1"] by auto
  have above: "t \<le> ts ! ?i \<and> ts ! ?i \<le> ts ! k" if "?i \<le> k" "k < length ts" for k
    using lower_bound_ge [OF assms(1), of t ?i] sorted_nth_mono [OF assms(1) that] that by auto
  have first: "\<bar>t - ts ! 0\<bar> \<le> \<bar>t - ts ! j\<bar>" if "?i = 0" using above [of j] assms(2) that by auto
  have last: "\<bar>t - ts ! (length ts - 1)\<bar> \<le> \<bar>t - ts ! j\<bar>" if "?i = length ts"
    using below [of j] assms(2) that by auto
  show ?thesis
  proof (cases "?i = 0 \<or> length ts \<le> ?i")
    case True
    then show ?thesis using first last lower_bound_le [of ts t] by (auto simp: nearest_idx_def Let_def)
  next
    case False
    then have "\<bar>t - ts ! (?i - 1)\<bar> \<le> \<bar>t - ts ! j\<bar> \<or> \<bar>t - ts ! ?i\<bar> \<le> \<bar>t - ts ! j\<bar>"
      using below [of j] above [of j] assms(2) by (cases "j < ?i") auto
    with False show ?thesis by (auto simp: nearest_idx_def Let_def)
  qed
qed

lemma sorted_stamps: "sorted (map f (sort_key f xs))"
  by simp

section \<open>Odometry look-up\<close>

lemma get_odom_at_state: "odom_buffer src \<noteq> [] \<Longrightarrow> snd (get_odom_at src t) = src"
  by (simp add: get_odom_at_def Let_def)

lemma interpolate_odom_some:
  "odom_list \<noteq> [] \<Longrightarrow> length odom_list = length ts \<Longrightarrow> interpolate_odom odom_list ts t \<noteq> None"
  by (auto simp: interpolate_odom_def Let_def)

lemma sort_key_Nil_iff: "sort_key f xs = [] \<longleftrightarrow> xs = []"
  by (metis length_0_conv length_sort)

lemma get_odom_at_none_iff: "fst (get_odom_at src t) = None \<longleftrightarrow> odom_buffer src = []"
proof (cases "odom_buffer src = []")
  case False
  have "interpolate_odom (sort_key o_stamp (odom_buffer src))
      (map o_stamp (sort_key o_stamp (odom_buffer src))) t \<noteq> None"
    by (intro interpolate_odom_some) (simp_all add: False sort_key_Nil_iff)
  with False show ?thesis by (simp add: get_odom_at_def Let_def)
qed (simp add: get_odom_at_def)

text \<open>A position between two samples, as the interpolation computes it.\<close>

definition between :: "OdomData \<Rightarrow> OdomData \<Rightarrow> OdomData \<Rightarrow> bool" where
  "between prev next r \<longleftrightarrow> (\<exists>alpha. 0 \<le> alpha \<and> alpha \<le> 1 \<and>
     o_x r = o_x prev + alpha * (o_x next - o_x prev) \<and> o_y r = o_y prev + alpha * (o_y next - o_y prev) \<and>
     o_yaw r = o_yaw prev + alpha * angle_diff (o_yaw next) (o_yaw prev))"

lemma interpolate_between:
  assumes "sorted (map o_stamp buf)" and "hd (map o_stamp buf) < t" and "t < last (map o_stamp buf)"
    and ne: "buf \<noteq> []"
  obtains i r where "0 < i" "i < length buf" "o_stamp (buf ! (i - 1)) < t" "t \<le> o_stamp (buf ! i)"
    "interpolate_odom buf (map o_stamp buf) t = Some r" "between (buf ! (i - 1)) (buf ! i) r"
    "o_stamp (buf ! i) - o_stamp (buf ! (i - 1)) \<ge> 1 / 10 ^ 9 \<Longrightarrow> o_stamp (buf ! i) = t \<Longrightarrow>
       o_x r = o_x (buf ! i) \<and> o_y r = o_y (buf ! i)"
proof -
  let ?ts = "map o_stamp buf" let ?i = "lower_bound ?ts t"
  have "?i \<noteq> 0"
    using lower_bound_ge [OF assms(1), of t 0] assms(2) ne by (auto simp: hd_conv_nth)
  moreover have "?i < length buf"
  proof (rule ccontr)
    assume "\<not> ?i < length buf"
    then have "length buf - 1 < ?i" using ne by (cases buf) auto
    from lower_bound_less [OF this] show False using assms(3) ne by (simp add: last_conv_nth last_map)
  qed
  ultimately have i: "0 < ?i" "?i < length buf" by auto
  let ?p = "buf ! (?i - 1)" let ?n = "buf ! ?i"
  have p: "o_stamp ?p < t" using lower_bound_less [of "?i - 1" ?ts t] i by auto
  have n: "t \<le> o_stamp ?n" using lower_bound_ge [OF assms(1), of t ?i] i by auto
  define span where "span = o_stamp ?n - o_stamp ?p"
  define alpha where "alpha = (if span < 1 / 10 ^ 9 then 0 else (t - o_stamp ?p) / span)"
  have "0 < span" using p n by (simp add: span_def)
  then have a: "0 \<le> alpha" "alpha \<le> 1" using p n by (auto simp: alpha_def span_def divide_simps)
  define r where "r = (if span < 1 / 10 ^ 9 then ?p else
    \<lparr>o_stamp = t, o_x = o_x ?p + alpha * (o_x ?n - o_x ?p), o_y = o_y ?p + alpha * (o_y ?n - o_y ?p),
     o_yaw = o_yaw ?p + alpha * angle_diff (o_yaw ?n) (o_yaw ?p)\<rparr>)"
  have "interpolate_odom buf ?ts t = Some r"
    using i ne by (simp add: interpolate_odom_def Let_def r_def alpha_def span_def)
  moreover have "between ?p ?n r"
    unfolding between_def using a by (intro exI [of _ alpha]) (simp add: r_def alpha_def)
  moreover have "o_x r = o_x ?n \<and> o_y r = o_y ?n"
    if "o_stamp ?n - o_stamp ?p \<ge> 1 / 10 ^ 9" "o_stamp ?n = t"
    using that \<open>0 < span\<close> by (simp add: r_def alpha_def span_def)
  ultimately show ?thesis using that i p n by blast
qed

section \<open>The look-up interface\<close>

text \<open>
  What the motion correction relies on: once the odometry answers for one time it answers for every time.
\<close>

locale odom_lookup =
  fixes odom_at :: "real \<Rightarrow> OdomData option"
  assumes available: "odom_at t \<noteq> None \<Longrightarrow> odom_at t' \<noteq> None"
begin

lemma samples_available:
  assumes "odom_at t \<noteq> None"
  shows "deskew_samples scan odom_at cfg duration reference \<noteq> None"
proof -
  have "all_some (map (\<lambda>k. map_option f (odom_at (g k))) ks) \<noteq> None"
    for f :: "OdomData \<Rightarrow> pose" and g and ks :: "nat list"
  proof (induction ks)
    case (Cons k ks)
    then show ?case using available [OF assms, of "g k"] by auto
  qed simp
  from this [of _ "\<lambda>k. scan_stamp scan + dk_start_offset cfg + duration * real k / real (kSamples - 1)"]
  show ?thesis unfolding deskew_samples_def .
qed

lemma deskew_succeeds:
  assumes "odom_at (scan_stamp scan) \<noteq> None" and "dk_enabled cfg" and "dk_direction cfg \<noteq> 0"
    and "2 \<le> length (ranges scan)" and "0 < dk_duration cfg \<or> 0 < scan_duration scan"
  shows "snd (deskew_scan scan odom_at cfg)"
proof -
  let ?dur = "if dk_duration cfg > 0 then dk_duration cfg else scan_duration scan"
  obtain reference where r: "odom_at (scan_stamp scan) = Some reference" using assms(1) by auto
  obtain samples where "deskew_samples scan odom_at cfg ?dur reference = Some samples"
    using samples_available [OF assms(1), of scan cfg ?dur reference] by blast
  with r assms(2-5) show ?thesis by (auto simp: deskew_scan_def Let_def)
qed

end

interpretation odom_src: odom_lookup "\<lambda>t. fst (get_odom_at src t)" for src
  by unfold_locales (simp add: get_odom_at_none_iff)

section \<open>Lemmas on deskew\<close>

definition rigid :: "pose \<Rightarrow> vec2 \<Rightarrow> vec2" where
  "rigid = (\<lambda>(dx, dy, dyaw) (px, py). (cos dyaw * px - sin dyaw * py + dx, sin dyaw * px + cos dyaw * py + dy))"

lemma deskew_scan_true:
  assumes "deskew_scan scan odom_at cfg = (scan', True)"
  obtains reference samples where "odom_at (scan_stamp scan) = Some reference"
    and "deskew_samples scan odom_at cfg
      (if dk_duration cfg > 0 then dk_duration cfg else scan_duration scan) reference = Some samples"
    and "scan' = scan\<lparr>ranges := map (fst \<circ> deskew_beam scan cfg samples) [0..<length (ranges scan)],
      angles := map (snd \<circ> deskew_beam scan cfg samples) [0..<length (ranges scan)]\<rparr>"
    and "2 \<le> length (ranges scan)"
  using assms by (auto simp: deskew_scan_def Let_def split: if_splits option.splits)

lemma deskew_beam_point:
  assumes "scan' = scan\<lparr>ranges := map (fst \<circ> deskew_beam scan cfg samples) [0..<length (ranges scan)],
      angles := map (snd \<circ> deskew_beam scan cfg samples) [0..<length (ranges scan)]\<rparr>"
    and "i < length (ranges scan)"
  shows "beam_valid scan i \<Longrightarrow>
      beam_point scan' i = rigid (beam_motion cfg (length (ranges scan)) samples i) (beam_point scan i)"
    and "\<not> beam_valid scan i \<Longrightarrow> ranges scan' ! i = ranges scan ! i \<and> \<not> beam_valid scan' i"
proof -
  have ne: "angles scan' \<noteq> []" and r: "ranges scan' ! i = fst (deskew_beam scan cfg samples i)"
    and a: "beam_angle scan' i = snd (deskew_beam scan cfg samples i)"
    using assms by (auto simp: beam_angle_def)
  have same: "lidar_x scan' = lidar_x scan" "lidar_y scan' = lidar_y scan"
    "range_min scan' = range_min scan" "range_max scan' = range_max scan" using assms(1) by simp_all
  obtain dx dy dyaw where m: "beam_motion cfg (length (ranges scan)) samples i = (dx, dy, dyaw)"
    by (cases "beam_motion cfg (length (ranges scan)) samples i")
  show "beam_point scan' i = rigid (beam_motion cfg (length (ranges scan)) samples i) (beam_point scan i)"
    if "beam_valid scan i"
    using that
    by (simp add: beam_point_def r a deskew_beam_def m rigid_def Let_def atan2_polar_back same add.commute)
  show "ranges scan' ! i = ranges scan ! i \<and> \<not> beam_valid scan' i" if "\<not> beam_valid scan i"
    using that by (simp add: r same deskew_beam_def beam_valid_def Let_def)
qed

lemma delta_pose_self: "delta_pose p p = (0, 0, 0)"
  using normalize_angle_id [of 0] by (cases p) (simp add: delta_pose_def Let_def)

lemma all_some_const: "(\<And>k. f k = Some v) \<Longrightarrow> all_some (map f ks) = Some (map (\<lambda>_. v) ks)"
  by (induction ks) simp_all

lemma beam_motion_still: "i < n \<Longrightarrow> 2 \<le> n \<Longrightarrow> beam_motion cfg n (map (\<lambda>_. (0, 0, 0)) [0..<kSamples]) i = (0, 0, 0)"
  using normalize_angle_id [of 0]
  by (simp add: beam_motion_def Let_def kSamples_def angle_diff_eq del: upt_rec_numeral)

lemma valid_range_fin: "beam_valid scan i \<Longrightarrow> ranges scan ! i = Fin (fin_val (ranges scan ! i))"
  unfolding beam_valid_def using f_le_between(1) by fastforce

section \<open>Lemmas on the synchroniser\<close>

fun is_scan :: "input_event \<Rightarrow> bool" where
  "is_scan (ScanMsg s) = True"
| "is_scan (OdomMsg m) = False"

lemma push_bounded_ne [simp]: "push_bounded n x buf \<noteq> []"
  by (simp add: push_bounded_def)

lemma push_bounded_length: "0 < n \<Longrightarrow> length buf \<le> n \<Longrightarrow> length (push_bounded n x buf) \<le> n"
  by (cases buf) (auto simp: push_bounded_def)

lemma on_scan_hit:
  assumes "odom_buffer src \<noteq> []"
  shows "fst (on_scan cfg g s (src, sync)) = src \<and>
    length (frames_out (snd (on_scan cfg g s (src, sync)))) = Suc (length (frames_out sync)) \<and>
    odom_miss_count (snd (on_scan cfg g s (src, sync))) = odom_miss_count sync \<and>
    scan_recv_count (snd (on_scan cfg g s (src, sync))) = scan_recv_count sync + 1"
proof -
  obtain o' src' where o': "get_odom_at src (scan_stamp s) = (Some o', src')"
    using assms get_odom_at_none_iff [of src "scan_stamp s"] by (cases "get_odom_at src (scan_stamp s)") auto
  then have "src' = src" using get_odom_at_state [OF assms, of "scan_stamp s"] by simp
  then show ?thesis using o' by (simp add: on_scan_def Let_def case_prod_beta)
qed

lemma on_scan_miss:
  "odom_buffer src = [] \<Longrightarrow> on_scan cfg g s (src, sync) =
     (src\<lparr>empty_warned := True\<rparr>, sync\<lparr>scan_recv_count := scan_recv_count sync + 1,
       odom_miss_count := odom_miss_count sync + 1\<rparr>)"
  by (simp add: on_scan_def get_odom_at_def Let_def)

lemma input_run_hit:
  assumes "odom_buffer src \<noteq> []"
  shows "let sync' = snd (input_run cfg g (src, sync) es)
    in length (frames_out sync') = length (frames_out sync) + length (filter is_scan es) \<and>
       odom_miss_count sync' = odom_miss_count sync \<and>
       scan_recv_count sync' = scan_recv_count sync + int (length (filter is_scan es))"
  using assms
proof (induction es arbitrary: src sync)
  case (Cons e es)
  show ?case
  proof (cases e)
    case (OdomMsg m)
    have "odom_buffer (odom_on_msg m src) \<noteq> []" by (simp add: odom_on_msg_def case_prod_beta)
    from Cons.IH [OF this, of sync] OdomMsg show ?thesis by (simp add: input_run_def)
  next
    case (ScanMsg s)
    obtain src' sync' where step: "on_scan cfg g s (src, sync) = (src', sync')" by fastforce
    with on_scan_hit [OF Cons.prems, of cfg g s sync] have "src' = src"
      "length (frames_out sync') = Suc (length (frames_out sync))"
      "odom_miss_count sync' = odom_miss_count sync" "scan_recv_count sync' = scan_recv_count sync + 1"
      by simp_all
    with Cons.IH [OF Cons.prems, of sync'] ScanMsg step show ?thesis by (simp add: input_run_def Let_def)
  qed
qed (simp add: input_run_def)

lemma input_run_scans:
  assumes "odom_buffer src = []" and "list_all is_scan es"
  shows "odom_buffer (fst (input_run cfg g (src, sync) es)) = [] \<and>
    (let sync' = snd (input_run cfg g (src, sync) es)
     in frames_out sync' = frames_out sync \<and> odom_miss_count sync' = odom_miss_count sync + int (length es) \<and>
        scan_recv_count sync' = scan_recv_count sync + int (length es))"
  using assms
proof (induction es arbitrary: src sync)
  case (Cons e es)
  then obtain s where e: "e = ScanMsg s" by (cases e) auto
  let ?src = "src\<lparr>empty_warned := True\<rparr>"
  let ?sync = "sync\<lparr>scan_recv_count := scan_recv_count sync + 1, odom_miss_count := odom_miss_count sync + 1\<rparr>"
  from Cons.IH [of ?src ?sync] Cons.prems show ?case
    by (simp add: e input_run_def on_scan_miss Let_def)
qed (simp add: input_run_def)

section \<open>Properties\<close>

text \<open>
  The nearest look-up in a sorted time series returns an item whose time stamp is at least as close to the
  wanted time as every other one, and nothing exactly when that distance exceeds the limit.
\<close>

theorem nearest_is_nearest:
  assumes "sorted ts" and "ts \<noteq> []" and "length items = length ts"
  shows "\<exists>i < length ts. (\<forall>j < length ts. \<bar>t - ts ! i\<bar> \<le> \<bar>t - ts ! j\<bar>) \<and>
    nearest_by_timestamp items ts t max_dt =
      (if (case max_dt of Some m \<Rightarrow> \<bar>t - ts ! i\<bar> > m | None \<Rightarrow> False) then None else Some (items ! i))"
  using nearest_idx_less [OF assms(2), of t] nearest_idx_min [OF assms(1), of _ t]
    nearest_by_timestamp_idx [OF assms(2,3), of t max_dt]
  by (auto intro!: exI [of _ "nearest_idx ts t"])

theorem nearest_is_nearest_witness:
  "\<exists>i < 3. nearest_by_timestamp [''a'', ''b'', ''c''] [0, 1, 3] (7 / 5) (Some 1) = Some ([''a'', ''b'', ''c''] ! i)"
proof -
  obtain i where i: "i < 3" "\<forall>j < 3. \<bar>7 / 5 - [0, 1, 3 :: real] ! i\<bar> \<le> \<bar>7 / 5 - [0, 1, 3 :: real] ! j\<bar>"
    and n: "nearest_by_timestamp [''a'', ''b'', ''c''] [0, 1, 3] (7 / 5) (Some 1) =
      (if \<bar>7 / 5 - [0, 1, 3 :: real] ! i\<bar> > 1 then None else Some ([''a'', ''b'', ''c''] ! i))"
    using nearest_is_nearest [of "[0, 1, 3]" "[''a'', ''b'', ''c'']" "7 / 5" "Some 1"]
    by (auto simp: numeral_3_eq_3)
  have "\<bar>7 / 5 - [0, 1, 3 :: real] ! i\<bar> \<le> 2 / 5" using i(2) [rule_format, of 1] by simp
  then show ?thesis using i(1) n by auto
qed

text \<open>
  Odometry look-up: with a non-empty buffer there is always an answer.  Outside the buffered interval it is
  the first or the last sample; inside, it lies on the segment between two samples that are neighbours in time
  and enclose the wanted time, headings turned along the shorter arc.
\<close>

theorem odom_lookup_between:
  assumes "odom_buffer src \<noteq> []"
  shows "let buf = sort_key o_stamp (odom_buffer src)
    in \<exists>r. fst (get_odom_at src t) = Some r \<and>
      (t \<le> o_stamp (hd buf) \<longrightarrow> r = hd buf) \<and>
      (o_stamp (hd buf) < t \<and> o_stamp (last buf) \<le> t \<longrightarrow> r = last buf) \<and>
      (o_stamp (hd buf) < t \<and> t < o_stamp (last buf) \<longrightarrow>
        (\<exists>i. 0 < i \<and> i < length buf \<and> o_stamp (buf ! (i - 1)) < t \<and> t \<le> o_stamp (buf ! i) \<and>
          between (buf ! (i - 1)) (buf ! i) r))"
proof -
  let ?buf = "sort_key o_stamp (odom_buffer src)"
  have ne: "?buf \<noteq> []" using assms by (simp add: sort_key_Nil_iff)
  then have ends: "hd (map o_stamp ?buf) = o_stamp (hd ?buf)" "last (map o_stamp ?buf) = o_stamp (last ?buf)"
    by (simp_all add: hd_map last_map)
  show ?thesis
  proof (cases "o_stamp (hd ?buf) < t \<and> t < o_stamp (last ?buf)")
    case True
    then have h: "hd (map o_stamp ?buf) < t" "t < last (map o_stamp ?buf)" by (simp_all add: ends)
    obtain i r where "0 < i" "i < length ?buf" "o_stamp (?buf ! (i - 1)) < t" "t \<le> o_stamp (?buf ! i)"
      "interpolate_odom ?buf (map o_stamp ?buf) t = Some r" "between (?buf ! (i - 1)) (?buf ! i) r"
      using interpolate_between [OF sorted_stamps h ne] by metis
    moreover have "fst (get_odom_at src t) = interpolate_odom ?buf (map o_stamp ?buf) t"
      using assms True ends by (simp add: get_odom_at_def Let_def)
    ultimately show ?thesis using True by (auto simp: Let_def)
  next
    case False
    then show ?thesis using assms ends by (auto simp: get_odom_at_def Let_def)
  qed
qed

definition sample_odom :: "real \<Rightarrow> real \<Rightarrow> OdomData" where
  "sample_odom t x = \<lparr>o_stamp = t, o_x = x, o_y = 0, o_yaw = 0\<rparr>"

definition sample_source :: odom_source where
  "sample_source = \<lparr>odom_buffer = [sample_odom 2 4, sample_odom 1 0], odom_recv_count = 2, empty_warned = False\<rparr>"

theorem odom_lookup_between_witness:
  "\<exists>r. fst (get_odom_at sample_source (1 / 2)) = Some r \<and> o_x r = 0"
proof -
  have "odom_buffer sample_source \<noteq> []" by (simp add: sample_source_def)
  from odom_lookup_between [OF this, of "1 / 2"] show ?thesis
    by (auto simp: Let_def sample_source_def sample_odom_def sort_key_def)
qed

text \<open>
  Motion correction moves every measured point by the robot's motion: when \<^verbatim>\<open>deskew_scan\<close> succeeds, the point
  of each valid beam is the old point moved rigidly by the relative pose interpolated for the time of that beam,
  and beams without a measurement stay invalid.
\<close>

theorem deskew_moves_points:
  assumes "deskew_scan scan odom_at cfg = (scan', True)"
  shows "\<exists>reference samples. odom_at (scan_stamp scan) = Some reference \<and>
    deskew_samples scan odom_at cfg
      (if dk_duration cfg > 0 then dk_duration cfg else scan_duration scan) reference = Some samples \<and>
    (\<forall>i < length (ranges scan).
       if beam_valid scan i
       then beam_point scan' i = rigid (beam_motion cfg (length (ranges scan)) samples i) (beam_point scan i)
       else \<not> beam_valid scan' i)"
proof -
  let ?dur = "if dk_duration cfg > 0 then dk_duration cfg else scan_duration scan"
  obtain reference samples where "odom_at (scan_stamp scan) = Some reference"
    and "deskew_samples scan odom_at cfg ?dur reference = Some samples"
    and scan': "scan' = scan\<lparr>ranges := map (fst \<circ> deskew_beam scan cfg samples) [0..<length (ranges scan)],
      angles := map (snd \<circ> deskew_beam scan cfg samples) [0..<length (ranges scan)]\<rparr>"
    using deskew_scan_true [OF assms] by metis
  moreover have "\<forall>i < length (ranges scan). if beam_valid scan i
       then beam_point scan' i = rigid (beam_motion cfg (length (ranges scan)) samples i) (beam_point scan i)
       else \<not> beam_valid scan' i"
    using deskew_beam_point [OF scan'] by simp
  ultimately show ?thesis by blast
qed

definition sample_deskew :: DeskewConfig where
  "sample_deskew = \<lparr>dk_enabled = True, dk_direction = 1, dk_start_offset = 0, dk_duration = 1\<rparr>"

theorem deskew_moves_points_witness:
  "\<exists>scan'. deskew_scan sample_scan (\<lambda>t. Some (sample_odom t t)) sample_deskew = (scan', True) \<and>
     \<not> beam_valid scan' 1"
proof -
  let ?o = "\<lambda>t. Some (sample_odom t t)"
  have "odom_lookup ?o" by unfold_locales simp
  then have "snd (deskew_scan sample_scan ?o sample_deskew)"
    by (rule odom_lookup.deskew_succeeds) (simp_all add: sample_deskew_def sample_scan_def)
  then obtain scan' where d: "deskew_scan sample_scan ?o sample_deskew = (scan', True)"
    by (cases "deskew_scan sample_scan ?o sample_deskew") auto
  have "1 < length (ranges sample_scan)" "\<not> beam_valid sample_scan 1"
    by (simp_all add: sample_scan_def beam_valid_def f_le_def)
  with deskew_moves_points [OF d] have "\<not> beam_valid scan' 1" by metis
  with d show ?thesis by blast
qed

text \<open>
  A robot that does not move keeps its scan: when the odometry reports the same pose for every time, motion
  correction leaves the points of the scan unchanged.
\<close>

theorem deskew_still:
  assumes "\<forall>t. \<exists>s. odom_at t = Some \<lparr>o_stamp = s, o_x = x, o_y = y, o_yaw = yaw\<rparr>" and "0 \<le> range_min scan"
  shows "scan_to_points (fst (deskew_scan scan odom_at cfg)) = scan_to_points scan"
proof (cases "snd (deskew_scan scan odom_at cfg)")
  case False
  then have "fst (deskew_scan scan odom_at cfg) = scan"
    by (auto simp: deskew_scan_def Let_def split: if_splits option.splits)
  then show ?thesis by simp
next
  case True
  then obtain scan' where d: "deskew_scan scan odom_at cfg = (scan', True)" by (metis prod.collapse)
  let ?dur = "if dk_duration cfg > 0 then dk_duration cfg else scan_duration scan"
  let ?n = "length (ranges scan)"
  obtain reference samples where ref: "odom_at (scan_stamp scan) = Some reference"
    and smp: "deskew_samples scan odom_at cfg ?dur reference = Some samples"
    and scan': "scan' = scan\<lparr>ranges := map (fst \<circ> deskew_beam scan cfg samples) [0..<?n],
      angles := map (snd \<circ> deskew_beam scan cfg samples) [0..<?n]\<rparr>" and n: "2 \<le> ?n"
    using deskew_scan_true [OF d] by metis
  have pose: "odom_at t = Some o' \<Longrightarrow> odom_pose o' = (x, y, yaw)" for t o'
    using assms(1) by (metis (no_types, lifting) OdomData.select_convs odom_pose_def option.inject)
  have "map_option (\<lambda>odom. delta_pose (odom_pose reference) (odom_pose odom)) (odom_at t) = Some (0, 0, 0)" for t
    using assms(1) [rule_format, of t] pose [OF ref] pose [of t] delta_pose_self by force
  then have "samples = map (\<lambda>_. (0, 0, 0)) [0..<kSamples]"
    using smp unfolding deskew_samples_def by (subst (asm) all_some_const [where v = "(0, 0, 0)"]) simp_all
  then have still: "beam_motion cfg ?n samples i = (0, 0, 0)" if "i < ?n" for i
    using beam_motion_still [OF that n] by simp
  have same: "beam_valid scan' i = beam_valid scan i \<and> (beam_valid scan i \<longrightarrow> beam_point scan' i = beam_point scan i)"
    if i: "i < ?n" for i
  proof (cases "beam_valid scan i")
    case valid: True
    have "beam_point scan' i = beam_point scan i"
      using deskew_beam_point(1) [OF scan' i valid] still [OF i] by (cases "beam_point scan i") (simp add: rigid_def)
    moreover have "0 \<le> fin_val (ranges scan ! i)"
      using valid valid_range_fin [OF valid] assms(2) unfolding beam_valid_def
      by (metis f_le_Fin order_trans)
    then have "ranges scan' ! i = ranges scan ! i"
      using valid i still [OF i] valid_range_fin [OF valid] hypot_polar
      by (simp add: scan' deskew_beam_def Let_def)
    then have "beam_valid scan' i" using valid by (simp add: beam_valid_def scan')
    ultimately show ?thesis using valid by blast
  next
    case False
    then show ?thesis using deskew_beam_point(2) [OF scan' i False] by blast
  qed
  have len: "length (ranges scan') = ?n" by (simp add: scan')
  have "filter (beam_valid scan') [0..<?n] = filter (beam_valid scan) [0..<?n]"
    by (rule filter_cong) (use same in auto)
  then have "valid_beams scan' = valid_beams scan" by (simp add: valid_beams_def len)
  moreover have "map (beam_point scan') (valid_beams scan) = map (beam_point scan) (valid_beams scan)"
    by (rule map_cong) (use same in \<open>auto simp: valid_beams_def\<close>)
  ultimately show ?thesis by (simp add: d scan_to_points_def)
qed

theorem deskew_still_witness:
  "scan_to_points (fst (deskew_scan sample_scan (\<lambda>t. Some (sample_odom t 7)) sample_deskew)) =
     scan_to_points sample_scan"
proof -
  have "\<forall>t. \<exists>s. Some (sample_odom t 7) = Some \<lparr>o_stamp = s, o_x = 7, o_y = 0, o_yaw = 0\<rparr>"
    by (simp add: sample_odom_def)
  from deskew_still [OF this, of sample_scan] show ?thesis by (simp add: sample_scan_def)
qed

lemma input_run_append: "input_run cfg g s (xs @ ys) = input_run cfg g (input_run cfg g s xs) ys"
  by (simp add: input_run_def)

text \<open>
  No scan is lost without being counted: in every sequence of odometry messages and scans from start-up,
  exactly the scans before the first odometry message are misses, and every later scan yields one frame.
\<close>

theorem synchronizer_counts:
  "let sync = snd (input_run cfg gnss_at (ROS2OdomSource, SensorSynchronizer) es);
       early = length (takeWhile is_scan es)
   in get_stats sync = (int (length (filter is_scan es)), int early) \<and>
      length (frames_out sync) = length (filter is_scan es) - early"
proof -
  let ?a = "takeWhile is_scan es" let ?b = "dropWhile is_scan es"
  let ?s1 = "input_run cfg gnss_at (ROS2OdomSource, SensorSynchronizer) ?a"
  have run: "input_run cfg gnss_at (ROS2OdomSource, SensorSynchronizer) es = input_run cfg gnss_at ?s1 ?b"
    using input_run_append [of cfg gnss_at "(ROS2OdomSource, SensorSynchronizer)" ?a ?b]
    by (simp only: takeWhile_dropWhile_id)
  have scans: "filter is_scan ?a = ?a" by (auto simp: filter_id_conv dest: set_takeWhileD)
  have "filter is_scan (?a @ ?b) = ?a @ filter is_scan ?b" by (simp only: filter_append scans)
  then have fl: "filter is_scan es = ?a @ filter is_scan ?b" by (simp only: takeWhile_dropWhile_id)
  have "odom_buffer ROS2OdomSource = []" and "list_all is_scan ?a"
    by (auto simp: ROS2OdomSource_def list_all_iff dest: set_takeWhileD)
  note s1 = input_run_scans [OF this, of cfg gnss_at SensorSynchronizer]
  obtain src sync where s1': "?s1 = (src, sync)" by fastforce
  show ?thesis
  proof (cases ?b)
    case Nil
    show ?thesis
      using s1 unfolding fl run Nil s1' by (simp add: input_run_def get_stats_def SensorSynchronizer_def Let_def)
  next
    case (Cons e rest)
    then have "\<not> is_scan e" by (metis dropWhile_eq_Cons_conv)
    then obtain m where e: "e = OdomMsg m" by (cases e) auto
    have "odom_buffer (odom_on_msg m src) \<noteq> []" by (simp add: odom_on_msg_def case_prod_beta)
    from input_run_hit [OF this, of cfg gnss_at sync rest]
    show ?thesis
      using s1 unfolding fl run Cons s1'
      by (simp add: e input_run_def get_stats_def SensorSynchronizer_def Let_def)
  qed
qed

text \<open>
  Every frame is motion-corrected: with a configuration that enables the correction, once odometry has been
  received the correction of a scan with at least two beams never gives up, because the source answers for
  every sample time.
\<close>

theorem deskew_available:
  assumes "odom_buffer src \<noteq> []" and "dk_enabled cfg" and "dk_direction cfg \<noteq> 0"
    and "2 \<le> length (ranges scan)" and "0 < dk_duration cfg \<or> 0 < scan_duration scan"
  shows "snd (deskew_scan scan (\<lambda>t. fst (get_odom_at src t)) cfg)"
  using assms by (intro odom_src.deskew_succeeds) (simp_all add: get_odom_at_none_iff)

theorem deskew_available_witness:
  "snd (deskew_scan sample_scan (\<lambda>t. fst (get_odom_at sample_source t)) sample_deskew)"
  by (rule deskew_available) (simp_all add: sample_source_def sample_deskew_def sample_scan_def)

end
