(* ===== verification/LikelihoodGrid.thy ===== *)
theory LikelihoodGrid
  imports Geometry "HOL-Library.Monad_Syntax"
begin

text \<open>
  The likelihood grid of \<^verbatim>\<open>scan_matching/multi_res_csm_matcher.cpp\<close>: around every point of the target the grid holds a
  Gaussian, cut off at three standard deviations.  The rows are drawn in bands by several threads; the order in which
  bands and points are drawn is an argument.  Reading or writing outside the cells is \<open>None\<close>.  Indices are integers that
  do not overflow, and likelihoods are reals, not rounded to \<^verbatim>\<open>float\<close>.
\<close>

section \<open>The grid\<close>

record lgrid =
  lg_resolution :: real
  lg_inv :: real
  lg_sigma :: real
  lg_ox :: real
  lg_oy :: real
  lg_width :: int
  lg_height :: int
  lg_cells :: "real list"

definition new_lgrid :: "real \<Rightarrow> real \<Rightarrow> lgrid" where
  "new_lgrid resolution sigma = \<lparr>lg_resolution = resolution, lg_inv = 1 / resolution, lg_sigma = sigma, lg_ox = 0, lg_oy = 0,
     lg_width = 0, lg_height = 0, lg_cells = []\<rparr>"

definition lg_clear :: "lgrid \<Rightarrow> lgrid" where
  "lg_clear g = g\<lparr>lg_cells := [], lg_width := 0, lg_height := 0\<rparr>"

definition lg_valid :: "lgrid \<Rightarrow> bool" where
  "lg_valid g \<longleftrightarrow> lg_cells g \<noteq> []"

definition lg_read :: "lgrid \<Rightarrow> int \<Rightarrow> real option" where
  "lg_read g i = (if 0 \<le> i \<and> i < int (length (lg_cells g)) then Some (lg_cells g ! nat i) else None)"

definition lookup :: "lgrid \<Rightarrow> real \<Rightarrow> real \<Rightarrow> real option" where
  "lookup g x y =
     (let gx = trunc_int ((x - lg_ox g) * lg_inv g); gy = trunc_int ((y - lg_oy g) * lg_inv g)
      in if gx < 0 \<or> lg_width g \<le> gx \<or> gy < 0 \<or> lg_height g \<le> gy then Some 0 else lg_read g (gy * lg_width g + gx))"

definition lookup_bilinear :: "lgrid \<Rightarrow> real \<Rightarrow> real \<Rightarrow> real option" where
  "lookup_bilinear g x y =
     (let fx = (x - lg_ox g) * lg_inv g - 0.5; fy = (y - lg_oy g) * lg_inv g - 0.5;
          gx0 = \<lfloor>fx\<rfloor>; gy0 = \<lfloor>fy\<rfloor>; gx1 = gx0 + 1; gy1 = gy0 + 1
      in if gx0 < 0 \<or> lg_width g \<le> gx1 \<or> gy0 < 0 \<or> lg_height g \<le> gy1 then lookup g x y
         else
           let wx1 = fx - of_int gx0; wx0 = 1 - wx1; wy1 = fy - of_int gy0; wy0 = 1 - wy1
           in do {
             v00 \<leftarrow> lg_read g (gy0 * lg_width g + gx0);
             v10 \<leftarrow> lg_read g (gy0 * lg_width g + gx1);
             v01 \<leftarrow> lg_read g (gy1 * lg_width g + gx0);
             v11 \<leftarrow> lg_read g (gy1 * lg_width g + gx1);
             Some (wx0 * wy0 * v00 + wx1 * wy0 * v10 + wx0 * wy1 * v01 + wx1 * wy1 * v11)
           })"

section \<open>Drawing\<close>

definition dbl_max :: real where "dbl_max = (2 - 1 / 2 ^ 52) * 2 ^ 1023"

definition lg_frame :: "vec2 list \<Rightarrow> real \<Rightarrow> lgrid \<Rightarrow> lgrid" where
  "lg_frame pts margin g =
     (let min_x = foldl (\<lambda>m p. min m (fst p)) dbl_max pts; max_x = foldl (\<lambda>m p. max m (fst p)) (- dbl_max) pts;
          min_y = foldl (\<lambda>m p. min m (snd p)) dbl_max pts; max_y = foldl (\<lambda>m p. max m (snd p)) (- dbl_max) pts;
          ox = min_x - margin; oy = min_y - margin; extent_x = (max_x + margin) - ox; extent_y = (max_y + margin) - oy;
          width = \<lceil>extent_x * lg_inv g\<rceil> + 1; height = \<lceil>extent_y * lg_inv g\<rceil> + 1
      in g\<lparr>lg_ox := ox, lg_oy := oy, lg_width := width, lg_height := height, lg_cells := replicate (nat (width * height)) 0\<rparr>)"

definition max_eval_dist :: "lgrid \<Rightarrow> real" where "max_eval_dist g = 3 * lg_sigma g"

definition kernel_cells :: "lgrid \<Rightarrow> int" where "kernel_cells g = \<lceil>max_eval_dist g * lg_inv g\<rceil>"

definition kBandRows :: int where "kBandRows = 32"

definition num_bands :: "lgrid \<Rightarrow> int" where "num_bands g = (lg_height g + kBandRows - 1) div kBandRows"

definition write_max :: "int \<Rightarrow> real \<Rightarrow> real list \<Rightarrow> real list option" where
  "write_max i v cells =
     (if 0 \<le> i \<and> i < int (length cells) then Some (if cells ! nat i < v then cells[nat i := v] else cells) else None)"

definition cell_dist_sq :: "lgrid \<Rightarrow> vec2 \<Rightarrow> int \<Rightarrow> int \<Rightarrow> real" where
  "cell_dist_sq g p gy gx =
     (let dy = lg_oy g + (of_int gy + 0.5) * lg_resolution g - snd p; dx = lg_ox g + (of_int gx + 0.5) * lg_resolution g - fst p
      in dx * dx + dy * dy)"

definition cell_value :: "lgrid \<Rightarrow> vec2 \<Rightarrow> int \<Rightarrow> int \<Rightarrow> real" where
  "cell_value g p gy gx = exp (- cell_dist_sq g p gy gx / (2 * lg_sigma g * lg_sigma g))"

definition draw_cell :: "lgrid \<Rightarrow> vec2 \<Rightarrow> int \<Rightarrow> int \<Rightarrow> real list \<Rightarrow> real list option" where
  "draw_cell g p gy gx cells =
     (if cell_dist_sq g p gy gx \<le> max_eval_dist g * max_eval_dist g
      then write_max (gy * lg_width g + gx) (cell_value g p gy gx) cells
      else Some cells)"

definition cell_of :: "real \<Rightarrow> real \<Rightarrow> real \<Rightarrow> int" where
  "cell_of origin inv_res v = trunc_int ((v - origin) * inv_res)"

definition band_rows :: "lgrid \<Rightarrow> int \<Rightarrow> vec2 \<Rightarrow> int list" where
  "band_rows g band p =
     (let gy = cell_of (lg_oy g) (lg_inv g) (snd p); band_min = band * kBandRows; band_max = min (lg_height g - 1) (band_min + kBandRows - 1)
      in [max band_min (gy - kernel_cells g)..min band_max (gy + kernel_cells g)])"

definition kernel_cols :: "lgrid \<Rightarrow> vec2 \<Rightarrow> int list" where
  "kernel_cols g p =
     (let gx = cell_of (lg_ox g) (lg_inv g) (fst p)
      in [max 0 (gx - kernel_cells g)..min (lg_width g - 1) (gx + kernel_cells g)])"

definition draw_point :: "lgrid \<Rightarrow> int \<Rightarrow> vec2 \<Rightarrow> real list \<Rightarrow> real list option" where
  "draw_point g band p = fold_opt (\<lambda>gy. fold_opt (draw_cell g p gy) (kernel_cols g p)) (band_rows g band p)"

text \<open>One drawing order of the threads: bands and points.\<close>

type_synonym draw_schedule = "(int \<times> nat) list"

definition draw_schedule_ok :: "lgrid \<Rightarrow> nat \<Rightarrow> draw_schedule \<Rightarrow> bool" where
  "draw_schedule_ok g n sched \<longleftrightarrow> set sched = {0..<num_bands g} \<times> {..<n}"

definition lg_build :: "vec2 list \<Rightarrow> real \<Rightarrow> draw_schedule \<Rightarrow> lgrid \<Rightarrow> lgrid option" where
  "lg_build pts margin sched g =
     (if pts = [] then Some (lg_clear g)
      else
        let g = lg_frame pts margin g
        in map_option (\<lambda>cells. g\<lparr>lg_cells := cells\<rparr>) (fold_opt (\<lambda>(band, i). draw_point g band (pts ! i)) sched (lg_cells g)))"

section \<open>The drawn grid\<close>

text \<open>The reference: the largest likelihood over the points.\<close>

definition likelihood :: "lgrid \<Rightarrow> vec2 list \<Rightarrow> int \<Rightarrow> int \<Rightarrow> real" where
  "likelihood g pts gy gx =
     Max (insert 0 ((\<lambda>p. cell_value g p gy gx) `
       {p \<in> set pts. cell_dist_sq g p gy gx \<le> max_eval_dist g * max_eval_dist g}))"

definition writes :: "lgrid \<Rightarrow> int \<Rightarrow> vec2 \<Rightarrow> (int \<times> real) list" where
  "writes g band p = concat (map (\<lambda>gy. concat (map (\<lambda>gx.
     if cell_dist_sq g p gy gx \<le> max_eval_dist g * max_eval_dist g
     then [(gy * lg_width g + gx, cell_value g p gy gx)] else []) (kernel_cols g p))) (band_rows g band p))"

lemma fold_opt_Nil: "fold_opt f [] = Some"
  by (simp add: fun_eq_iff)

lemma fold_opt_Cons: "fold_opt f (x # xs) = (\<lambda>s. Option.bind (f x s) (fold_opt f xs))"
  by (simp add: fun_eq_iff)

lemma fold_opt_concat: "fold_opt (\<lambda>x. fold_opt f (h x)) xs = fold_opt f (concat (map h xs))"
proof (induction xs)
  case (Cons x xs)
  show ?case by (rule ext) (simp add: Cons.IH)
qed (simp add: fold_opt_Nil)

lemma draw_point_writes: "draw_point g band p = fold_opt (\<lambda>(i, v). write_max i v) (writes g band p)"
proof -
  have "draw_cell g p gy = (\<lambda>gx. fold_opt (\<lambda>(i, v). write_max i v)
     (if cell_dist_sq g p gy gx \<le> max_eval_dist g * max_eval_dist g
      then [(gy * lg_width g + gx, cell_value g p gy gx)] else []))" for gy
    by (simp add: draw_cell_def fold_opt_Nil fun_eq_iff)
  then show ?thesis by (simp add: draw_point_def writes_def fold_opt_concat)
qed

lemma fold_writes:
  assumes "\<forall>(i, v) \<in> set ws. 0 \<le> i \<and> i < int (length cells)"
  shows "\<exists>cells'. fold_opt (\<lambda>(i, v). write_max i v) ws cells = Some cells' \<and> length cells' = length cells \<and>
    (\<forall>k < length cells. cells' ! k = Max (insert (cells ! k) {v. (int k, v) \<in> set ws}))"
  using assms
proof (induction ws arbitrary: cells)
  case (Cons w ws)
  obtain i v where w: "w = (i, v)" by (cases w)
  define c1 where "c1 = (if cells ! nat i < v then cells[nat i := v] else cells)"
  have i: "0 \<le> i" "i < int (length cells)" using Cons.prems w by auto
  then have step: "write_max i v cells = Some c1" by (simp add: write_max_def c1_def)
  have len: "length c1 = length cells" by (simp add: c1_def)
  obtain cells' where c: "fold_opt (\<lambda>(i, v). write_max i v) ws c1 = Some cells'" "length cells' = length cells"
    "\<And>k. k < length cells \<Longrightarrow> cells' ! k = Max (insert (c1 ! k) {v. (int k, v) \<in> set ws})"
    using Cons.IH [of c1] Cons.prems len by auto
  have fin: "finite {v. (int k, v) \<in> set ws}" for k
    by (rule finite_subset [of _ "snd ` set ws"]) force+
  have "cells' ! k = Max (insert (cells ! k) {v. (int k, v) \<in> set (w # ws)})" if k: "k < length cells" for k
  proof (cases "int k = i")
    case True
    then have "c1 ! k = max v (cells ! k)" using k by (auto simp: c1_def)
    moreover have "{u. (int k, u) \<in> set (w # ws)} = insert v {u. (int k, u) \<in> set ws}" using True w by auto
    ultimately show ?thesis using c(3) [OF k] fin [of k]
      by (cases "{u. (int k, u) \<in> set ws} = {}") (auto simp: Max_insert ac_simps max.left_commute)
  next
    case False
    then have "c1 ! k = cells ! k" using i by (auto simp: c1_def nth_list_update)
    moreover have "{u. (int k, u) \<in> set (w # ws)} = {u. (int k, u) \<in> set ws}" using False w by auto
    ultimately show ?thesis using c(3) [OF k] by simp
  qed
  then show ?case using c(1, 2) step w by auto
qed simp

lemma foldl_min_le:
  fixes f :: "'a \<Rightarrow> real"
  shows "foldl (\<lambda>m p. min m (f p)) b xs \<le> b \<and> (\<forall>p \<in> set xs. foldl (\<lambda>m p. min m (f p)) b xs \<le> f p)"
  by (induction xs arbitrary: b) (auto, (meson min.boundedE)+)

lemma foldl_max_ge:
  fixes f :: "'a \<Rightarrow> real"
  shows "b \<le> foldl (\<lambda>m p. max m (f p)) b xs \<and> (\<forall>p \<in> set xs. f p \<le> foldl (\<lambda>m p. max m (f p)) b xs)"
  by (induction xs arbitrary: b) (auto, (meson max.boundedE)+)

text \<open>A grid around the points: the origin below them, room for the extent, all cells zero.\<close>

definition lg_config_ok :: "lgrid \<Rightarrow> bool" where
  "lg_config_ok g \<longleftrightarrow> 0 < lg_resolution g \<and> lg_inv g = 1 / lg_resolution g \<and> 0 \<le> lg_sigma g"

definition framed :: "vec2 list \<Rightarrow> lgrid \<Rightarrow> bool" where
  "framed pts g \<longleftrightarrow> lg_config_ok g \<and> (\<forall>p \<in> set pts. lg_ox g \<le> fst p \<and> lg_oy g \<le> snd p) \<and> 0 < lg_width g \<and> 0 < lg_height g \<and>
     length (lg_cells g) = nat (lg_width g * lg_height g)"

lemma lg_frame_framed:
  assumes "lg_config_ok g" and "0 \<le> margin" and "pts \<noteq> []"
  shows "framed pts (lg_frame pts margin g)" "lg_cells (lg_frame pts margin g) = replicate (nat (lg_width (lg_frame pts margin g) * lg_height (lg_frame pts margin g))) 0"
proof -
  let ?lx = "foldl (\<lambda>m p. min m (fst p)) dbl_max pts" and ?hx = "foldl (\<lambda>m p. max m (fst p)) (- dbl_max) pts"
  let ?ly = "foldl (\<lambda>m p. min m (snd p)) dbl_max pts" and ?hy = "foldl (\<lambda>m p. max m (snd p)) (- dbl_max) pts"
  have b: "\<forall>p \<in> set pts. ?lx \<le> fst p \<and> fst p \<le> ?hx \<and> ?ly \<le> snd p \<and> snd p \<le> ?hy"
    using foldl_min_le [of fst dbl_max pts] foldl_max_ge [of "- dbl_max" fst pts] foldl_min_le [of snd dbl_max pts] foldl_max_ge [of "- dbl_max" snd pts]
    by simp
  then have "?lx \<le> ?hx" "?ly \<le> ?hy" using assms(3) by (meson last_in_set order_trans)+
  then have "0 \<le> ((?hx + margin) - (?lx - margin)) * lg_inv g" "0 \<le> ((?hy + margin) - (?ly - margin)) * lg_inv g"
    using assms by (auto simp: lg_config_ok_def)
  then have "0 < \<lceil>((?hx + margin) - (?lx - margin)) * lg_inv g\<rceil> + 1" "0 < \<lceil>((?hy + margin) - (?ly - margin)) * lg_inv g\<rceil> + 1"
    by linarith+
  moreover have "\<forall>p \<in> set pts. ?lx - margin \<le> fst p \<and> ?ly - margin \<le> snd p" using b assms(2) by fastforce
  ultimately show "framed pts (lg_frame pts margin g)"
    using assms(1) by (simp add: framed_def lg_frame_def lg_config_ok_def Let_def)
  show "lg_cells (lg_frame pts margin g) = replicate (nat (lg_width (lg_frame pts margin g) * lg_height (lg_frame pts margin g))) 0"
    by (simp add: lg_frame_def Let_def)
qed

lemma kernel_axis:
  assumes "0 < res" and "o' \<le> v" and "(o' + (of_int k + 0.5) * res - v)\<^sup>2 \<le> d\<^sup>2" and "0 \<le> d"
  shows "cell_of o' (1 / res) v - \<lceil>d * (1 / res)\<rceil> \<le> k \<and> k \<le> cell_of o' (1 / res) v + \<lceil>d * (1 / res)\<rceil>"
proof -
  let ?t = "(v - o') * (1 / res)"
  have "\<bar>o' + (of_int k + 0.5) * res - v\<bar> \<le> d" using abs_le_square_iff [of _ d] assms(3, 4) by (metis abs_of_nonneg)
  then have "\<bar>(o' + (of_int k + 0.5) * res - v) / res\<bar> \<le> d / res" using assms(1) by (simp add: abs_divide divide_right_mono)
  moreover have "(o' + (of_int k + 0.5) * res - v) / res = of_int k + 0.5 - ?t" using assms(1) by (simp add: field_simps)
  ultimately have "\<bar>of_int k + 0.5 - ?t\<bar> \<le> d * (1 / res)" by (metis mult_1 times_divide_eq_left mult.commute)
  moreover have "cell_of o' (1 / res) v = \<lfloor>?t\<rfloor>" using assms(1, 2) by (simp add: cell_of_def trunc_int_def)
  ultimately show ?thesis by linarith
qed

lemma kernel_covers:
  assumes "framed pts g" and "p \<in> set pts" and "cell_dist_sq g p gy gx \<le> max_eval_dist g * max_eval_dist g"
  shows "\<bar>gx - cell_of (lg_ox g) (lg_inv g) (fst p)\<bar> \<le> kernel_cells g" "\<bar>gy - cell_of (lg_oy g) (lg_inv g) (snd p)\<bar> \<le> kernel_cells g"
proof -
  let ?dx = "lg_ox g + (of_int gx + 0.5) * lg_resolution g - fst p" and ?dy = "lg_oy g + (of_int gy + 0.5) * lg_resolution g - snd p"
  have g: "0 < lg_resolution g" "lg_inv g = 1 / lg_resolution g" "lg_ox g \<le> fst p" "lg_oy g \<le> snd p" "0 \<le> max_eval_dist g"
    using assms(1, 2) by (auto simp: framed_def lg_config_ok_def max_eval_dist_def)
  have d: "?dx\<^sup>2 + ?dy\<^sup>2 \<le> (max_eval_dist g)\<^sup>2" using assms(3) by (simp add: cell_dist_sq_def Let_def power2_eq_square)
  have "?dx\<^sup>2 \<le> (max_eval_dist g)\<^sup>2" "?dy\<^sup>2 \<le> (max_eval_dist g)\<^sup>2"
    using d zero_le_power2 [of ?dx] zero_le_power2 [of ?dy] by linarith+
  from kernel_axis [OF g(1, 3) this(1) g(5)] kernel_axis [OF g(1, 4) this(2) g(5)]
  show "\<bar>gx - cell_of (lg_ox g) (lg_inv g) (fst p)\<bar> \<le> kernel_cells g" "\<bar>gy - cell_of (lg_oy g) (lg_inv g) (snd p)\<bar> \<le> kernel_cells g"
    by (simp_all add: kernel_cells_def g(2) abs_le_iff algebra_simps)
qed


lemma writes_iff:
  assumes "framed pts g" and "p \<in> set pts" and "0 \<le> band"
  shows "(k, v) \<in> set (writes g band p) \<longleftrightarrow>
    (\<exists>gy gx. k = gy * lg_width g + gx \<and> band * kBandRows \<le> gy \<and> gy < band * kBandRows + kBandRows \<and> gy < lg_height g \<and> 0 \<le> gx \<and> gx < lg_width g \<and>
       cell_dist_sq g p gy gx \<le> max_eval_dist g * max_eval_dist g \<and> v = cell_value g p gy gx)"
  (is "?l = ?r")
proof
  assume ?l
  then show ?r by (auto simp: writes_def band_rows_def kernel_cols_def Let_def split: if_splits) blast
next
  assume ?r
  then obtain gy gx where c: "k = gy * lg_width g + gx" "band * kBandRows \<le> gy" "gy < band * kBandRows + kBandRows" "gy < lg_height g" "0 \<le> gx" "gx < lg_width g"
    "cell_dist_sq g p gy gx \<le> max_eval_dist g * max_eval_dist g" "v = cell_value g p gy gx"
    by blast
  from kernel_covers [OF assms(1, 2) c(7)] c(2-6) have "gy \<in> set (band_rows g band p)" "gx \<in> set (kernel_cols g p)"
    by (auto simp: band_rows_def kernel_cols_def Let_def)
  then show ?l using c(1, 7, 8) by (force simp: writes_def)
qed

lemma cell_index:
  assumes "0 \<le> gx" "gx < w" "0 \<le> gy" "gy < (h :: int)"
  shows "0 \<le> gy * w + gx" "gy * w + gx < w * h" "(gy * w + gx) div w = gy" "(gy * w + gx) mod w = gx"
proof -
  have "gy * w + gx < gy * w + w" using assms by simp
  also have "\<dots> = (gy + 1) * w" by (simp add: algebra_simps)
  also have "\<dots> \<le> h * w" using assms by (intro mult_right_mono) auto
  finally show "gy * w + gx < w * h" by (simp add: mult.commute)
  show "0 \<le> gy * w + gx" using assms by simp
  show "(gy * w + gx) div w = gy" "(gy * w + gx) mod w = gx" using assms by simp_all
qed

lemma band_of_row:
  assumes "0 \<le> gy" and "gy < lg_height g"
  shows "gy div kBandRows \<in> {0..<num_bands g}" "gy div kBandRows * kBandRows \<le> gy" "gy < gy div kBandRows * kBandRows + kBandRows"
  using assms by (auto simp: num_bands_def kBandRows_def)

lemma grid_build_spec:
  assumes "lg_config_ok g0" and "0 \<le> margin" and "pts \<noteq> []" and "draw_schedule_ok (lg_frame pts margin g0) (length pts) sched"
  shows "\<exists>g. lg_build pts margin sched g0 = Some g \<and> framed pts g \<and>
    (\<forall>gy gx. 0 \<le> gy \<and> gy < lg_height g \<and> 0 \<le> gx \<and> gx < lg_width g \<longrightarrow> lg_read g (gy * lg_width g + gx) = Some (likelihood g pts gy gx))"
proof -
  let ?g = "lg_frame pts margin g0"
  note fr = lg_frame_framed [OF assms(1-3)]
  let ?ws = "concat (map (\<lambda>(band, i). writes ?g band (pts ! i)) sched)"
  have sched: "\<And>band i. (band, i) \<in> set sched \<longleftrightarrow> band \<in> {0..<num_bands ?g} \<and> i < length pts"
    using assms(4) by (auto simp: draw_schedule_ok_def)
  have ws: "(k, v) \<in> set ?ws \<longleftrightarrow> (\<exists>p \<in> set pts. \<exists>gy gx. k = gy * lg_width ?g + gx \<and> 0 \<le> gy \<and> gy < lg_height ?g \<and> 0 \<le> gx \<and> gx < lg_width ?g \<and>
       cell_dist_sq ?g p gy gx \<le> max_eval_dist ?g * max_eval_dist ?g \<and> v = cell_value ?g p gy gx)" (is "?l = ?r") for k v
  proof
    assume ?l
    then obtain band i where bi: "(band, i) \<in> set sched" "(k, v) \<in> set (writes ?g band (pts ! i))" by auto
    then have b: "0 \<le> band" "pts ! i \<in> set pts" using sched by auto
    from bi(2) obtain gy gx where "k = gy * lg_width ?g + gx" "band * kBandRows \<le> gy" "gy < lg_height ?g" "0 \<le> gx" "gx < lg_width ?g"
       "cell_dist_sq ?g (pts ! i) gy gx \<le> max_eval_dist ?g * max_eval_dist ?g" "v = cell_value ?g (pts ! i) gy gx"
      unfolding writes_iff [OF fr(1) b(2, 1)] by blast
    moreover have "0 \<le> band * kBandRows" using b(1) by (simp add: kBandRows_def)
    ultimately show ?r using b(2) order_trans by blast
  next
    assume ?r
    then obtain p gy gx where c: "p \<in> set pts" "k = gy * lg_width ?g + gx" "0 \<le> gy" "gy < lg_height ?g" "0 \<le> gx" "gx < lg_width ?g"
       "cell_dist_sq ?g p gy gx \<le> max_eval_dist ?g * max_eval_dist ?g" "v = cell_value ?g p gy gx" by blast
    from c(1) obtain i where i: "i < length pts" "p = pts ! i" by (metis in_set_conv_nth)
    note band = band_of_row [OF c(3, 4)]
    have "(k, v) \<in> set (writes ?g (gy div kBandRows) p)"
      using c band by (subst writes_iff [OF fr(1) c(1)]) auto
    moreover have "(gy div kBandRows, i) \<in> set sched" using band(1) i(1) sched by blast
    ultimately show ?l using i(2) by force
  qed
  have "\<forall>(i, v) \<in> set ?ws. 0 \<le> i \<and> i < int (length (lg_cells ?g))"
  proof (intro ballI, clarify)
    fix k v assume "(k, v) \<in> set ?ws"
    then obtain gy gx where "k = gy * lg_width ?g + gx" "0 \<le> gy" "gy < lg_height ?g" "0 \<le> gx" "gx < lg_width ?g" unfolding ws by blast
    then show "0 \<le> k \<and> k < int (length (lg_cells ?g))" using cell_index(1, 2) [of gx "lg_width ?g" gy "lg_height ?g"] fr(1) by (simp add: framed_def)
  qed
  from fold_writes [OF this] obtain cells where c: "fold_opt (\<lambda>(i, v). write_max i v) ?ws (lg_cells ?g) = Some cells"
    "length cells = length (lg_cells ?g)" "\<And>k. k < length (lg_cells ?g) \<Longrightarrow> cells ! k = Max (insert (lg_cells ?g ! k) {v. (int k, v) \<in> set ?ws})" by blast
  have build: "lg_build pts margin sched g0 = Some (?g\<lparr>lg_cells := cells\<rparr>)"
    using assms(3) c(1) fold_opt_concat [of "\<lambda>(i, v). write_max i v" "\<lambda>(band, i). writes ?g band (pts ! i)" sched]
    by (simp add: lg_build_def Let_def draw_point_writes split_beta')
  have "lg_read (?g\<lparr>lg_cells := cells\<rparr>) (gy * lg_width ?g + gx) = Some (likelihood ?g pts gy gx)"
    if r: "0 \<le> gy" "gy < lg_height ?g" "0 \<le> gx" "gx < lg_width ?g" for gy gx
  proof -
    note ix = cell_index [OF r(3, 4, 1, 2)]
    let ?k = "nat (gy * lg_width ?g + gx)"
    have k: "?k < length (lg_cells ?g)" "int ?k = gy * lg_width ?g + gx" using ix(1, 2) fr(1) by (simp_all add: framed_def)
    have "{v. (int ?k, v) \<in> set ?ws} = (\<lambda>p. cell_value ?g p gy gx) `
       {p \<in> set pts. cell_dist_sq ?g p gy gx \<le> max_eval_dist ?g * max_eval_dist ?g}" (is "?A = ?B")
    proof (intro equalityI subsetI)
      fix v assume "v \<in> ?A"
      then obtain p gy' gx' where p: "p \<in> set pts" "gy * lg_width ?g + gx = gy' * lg_width ?g + gx'" "0 \<le> gy'" "gy' < lg_height ?g" "0 \<le> gx'" "gx' < lg_width ?g"
         "cell_dist_sq ?g p gy' gx' \<le> max_eval_dist ?g * max_eval_dist ?g" "v = cell_value ?g p gy' gx'"
        unfolding mem_Collect_eq ws k(2) by blast
      have "gy' = gy" "gx' = gx" using ix(3, 4) cell_index(3, 4) [OF p(5, 6, 3, 4)] p(2) by simp_all
      then show "v \<in> ?B" using p(1, 7, 8) by blast
    next
      fix v assume "v \<in> ?B"
      then show "v \<in> ?A" unfolding mem_Collect_eq ws k(2) using r by blast
    qed
    moreover have "lg_cells ?g ! ?k = 0" using fr(2) k(1) by (metis length_replicate nth_replicate)
    ultimately show ?thesis using c(2) c(3) [OF k(1)] k ix(1) by (simp add: lg_read_def likelihood_def)
  qed
  moreover have "framed pts (?g\<lparr>lg_cells := cells\<rparr>)" using fr(1) c(2) by (simp add: framed_def lg_config_ok_def)
  moreover have "likelihood (?g\<lparr>lg_cells := cells\<rparr>) = likelihood ?g"
    by (simp add: fun_eq_iff likelihood_def cell_value_def cell_dist_sq_def max_eval_dist_def)
  ultimately show ?thesis using build by (intro exI [of _ "?g\<lparr>lg_cells := cells\<rparr>"]) simp
qed

text \<open>C7. Whatever the order in which threads draw bands and points, building the likelihood grid writes only inside the grid and leaves in
  every cell the largest Gaussian likelihood over all points within three standard deviations of its centre, and zero
  where there is none: the kernel of cells visited around a point misses none of them.\<close>

theorem grid_is_likelihood:
  assumes "lg_config_ok g0" and "0 \<le> margin" and "pts \<noteq> []" and "draw_schedule_ok (lg_frame pts margin g0) (length pts) sched"
  shows "\<exists>g. lg_build pts margin sched g0 = Some g \<and> framed pts g \<and>
    (\<forall>gy gx. 0 \<le> gy \<and> gy < lg_height g \<and> 0 \<le> gx \<and> gx < lg_width g \<longrightarrow> lg_read g (gy * lg_width g + gx) = Some (likelihood g pts gy gx))"
  using assms by (rule grid_build_spec)

theorem grid_is_likelihood_witness:
  "\<exists>g. lg_build [(0, 0), (2, 1)] 1 (concat (map (\<lambda>band. map (Pair band) [1, 0]) [0..num_bands (lg_frame [(0, 0), (2, 1)] 1 (new_lgrid 1 1)) - 1])) (new_lgrid 1 1) = Some g \<and>
     framed [(0, 0), (2, 1)] g"
proof -
  have "draw_schedule_ok g (length [(0, 0), (2, 1)]) (concat (map (\<lambda>band. map (Pair band) [1, 0]) [0..num_bands g - 1]))" for g
    by (auto simp: draw_schedule_ok_def less_Suc_eq)
  moreover have "lg_config_ok (new_lgrid 1 1)" by (simp add: lg_config_ok_def new_lgrid_def)
  ultimately show ?thesis using grid_is_likelihood [of "new_lgrid 1 1" 1 "[(0, 0), (2, 1)]"] by fastforce
qed

end
