(* ===== verification/MultiResCsm.thy ===== *)
theory MultiResCsm
  imports LikelihoodGrid
begin

text \<open>
  \<^verbatim>\<open>scan_matching/multi_res_csm_matcher.cpp\<close>: the correlative scan matcher.  A scan is rotated about its centre and moved over
  the likelihood grid of the target, first on a coarse raster of poses, then on a fine one around the best, then between
  the raster points by fitting a parabola; below the score threshold an ICP matcher may take over.

  The angles are shared out to threads, each of which keeps its best candidate; which thread gets which angles is an
  argument, as is the drawing order of the grid (\<open>omp\<close>).  The ICP matcher is an argument.  The targets kept for reuse are a
  list from the least to the most recently used; the active target is a raw pointer, here the number of the target, and
  matching against a target that is gone is \<open>None\<close>, as is reading outside the grid.
\<close>

section \<open>Configuration and targets\<close>

record csm_config =
  linear_search_window :: real
  angular_search_window_rad :: real
  linear_step :: real
  angular_step_rad :: real
  grid_resolution :: real
  score_threshold :: real
  enable_variance_penalty :: bool
  distance_variance_penalty :: real
  angle_variance_penalty :: real
  minimum_distance_penalty :: real
  minimum_angle_penalty :: real

definition csm_impl ::
  "real \<Rightarrow> real \<Rightarrow> real \<Rightarrow> real \<Rightarrow> real \<Rightarrow> real \<Rightarrow> bool \<Rightarrow> real \<Rightarrow> real \<Rightarrow> real \<Rightarrow> real \<Rightarrow> csm_config" where
  "csm_impl l_win a_win_deg l_step a_step_deg grid_res score_thresh enable_var_pen dist_var_pen angle_var_pen min_dist_pen min_angle_pen =
     \<lparr>linear_search_window = l_win, angular_search_window_rad = a_win_deg * pi / 180, linear_step = max 0.005 l_step,
      angular_step_rad = max (0.05 * pi / 180) (a_step_deg * pi / 180), grid_resolution = grid_res, score_threshold = score_thresh,
      enable_variance_penalty = enable_var_pen, distance_variance_penalty = dist_var_pen, angle_variance_penalty = angle_var_pen,
      minimum_distance_penalty = min_dist_pen, minimum_angle_penalty = min_angle_pen\<rparr>"

record csm_target =
  tg_pts :: "vec2 list"
  tg_normals :: "vec2 list"
  tg_grid :: lgrid

type_synonym search_schedule = "nat list list"

record omp =
  omp_draw :: "lgrid \<Rightarrow> nat \<Rightarrow> draw_schedule"
  omp_search :: "nat \<Rightarrow> search_schedule"

definition kGridSigmaRatio :: real where "kGridSigmaRatio = 1.5"

definition new_target :: "csm_config \<Rightarrow> csm_target" where
  "new_target cfg = \<lparr>tg_pts = [], tg_normals = [], tg_grid = new_lgrid (grid_resolution cfg) (grid_resolution cfg * kGridSigmaRatio)\<rparr>"

definition fill_target :: "omp \<Rightarrow> csm_config \<Rightarrow> vec2 list \<Rightarrow> vec2 list \<Rightarrow> csm_target \<Rightarrow> csm_target option" where
  "fill_target par cfg pts normals target =
     (let margin = linear_search_window cfg + 1
      in map_option (\<lambda>g. \<lparr>tg_pts = pts, tg_normals = normals, tg_grid = g\<rparr>)
           (lg_build pts margin (omp_draw par (lg_frame pts margin (tg_grid target)) (length pts)) (tg_grid target)))"

section \<open>Candidates\<close>

record candidate =
  c_score :: real
  c_cx :: real
  c_cy :: real
  c_theta :: real
  c_order :: int
  c_updated :: bool

definition int64_max :: int where "int64_max = 2 ^ 63 - 1"

definition csm_rotate :: "real \<Rightarrow> vec2 list \<Rightarrow> vec2 list" where
  "csm_rotate theta = map (\<lambda>(x, y). (cos theta * x - sin theta * y, sin theta * x + cos theta * y))"

definition angle_penalty_at :: "csm_config \<Rightarrow> real \<Rightarrow> real \<Rightarrow> real" where
  "angle_penalty_at cfg yaw theta =
     (if \<not> (enable_variance_penalty cfg \<and> 0 < angle_variance_penalty cfg) then 1
      else
        let dyaw = angle_diff theta yaw; var_yaw = angle_variance_penalty cfg * angle_variance_penalty cfg
        in max (minimum_angle_penalty cfg) (exp (- 0.5 * (dyaw * dyaw) / var_yaw)))"

definition distance_penalty_at :: "csm_config \<Rightarrow> real \<Rightarrow> real" where
  "distance_penalty_at cfg d2 =
     (if \<not> (enable_variance_penalty cfg \<and> 0 < distance_variance_penalty cfg) then 1
      else
        let var_d = distance_variance_penalty cfg * distance_variance_penalty cfg
        in max (minimum_distance_penalty cfg) (exp (- 0.5 * d2 / var_d)))"

definition raster :: "int \<Rightarrow> real \<Rightarrow> real list" where
  "raster n step = map (\<lambda>i. of_int i * step) [- n..n]"

fun unique_angles :: "real list \<Rightarrow> real list" where
  "unique_angles (a # b # r) = (if \<bar>angle_diff a b\<bar> < 1 / 10 ^ 4 then unique_angles (a # r) else a # unique_angles (b # r))"
| "unique_angles r = r"

definition yaw_candidates :: "csm_config \<Rightarrow> real \<Rightarrow> real list" where
  "yaw_candidates cfg yaw =
     (let yaw_steps = \<lceil>angular_search_window_rad cfg / angular_step_rad cfg\<rceil>
      in unique_angles (sort (yaw # 0 # map (\<lambda>i. normalize_angle (yaw + of_int i * angular_step_rad cfg)) [- yaw_steps..yaw_steps])))"

fun sum_opt :: "real option list \<Rightarrow> real option" where
  "sum_opt [] = Some 0"
| "sum_opt (v # vs) = do { a \<leftarrow> v; s \<leftarrow> sum_opt vs; Some (a + s) }"

section \<open>Stage 1\<close>

text \<open>The tables: for one offset the columns of all points, and the starts of their rows; -1 outside the grid.\<close>

definition gx_row :: "lgrid \<Rightarrow> real \<Rightarrow> vec2 list \<Rightarrow> int list" where
  "gx_row g cx = map (\<lambda>p. let gx = trunc_int ((fst p + cx - lg_ox g) * lg_inv g) in if 0 \<le> gx \<and> gx < lg_width g then gx else - 1)"

definition gy_row :: "lgrid \<Rightarrow> real \<Rightarrow> vec2 list \<Rightarrow> int list" where
  "gy_row g cy = map (\<lambda>p. let gy = trunc_int ((snd p + cy - lg_oy g) * lg_inv g) in if 0 \<le> gy \<and> gy < lg_height g then gy * lg_width g else - 1)"

definition row_valid :: "int list \<Rightarrow> bool" where
  "row_valid = list_all (\<lambda>i. i \<noteq> - 1)"

definition table_sum :: "lgrid \<Rightarrow> int list \<Rightarrow> int list \<Rightarrow> real option" where
  "table_sum g xs ys =
     (if row_valid xs \<and> row_valid ys then sum_opt (map2 (\<lambda>gx gy. lg_read g (gy + gx)) xs ys)
      else sum_opt (map2 (\<lambda>gx gy. if 0 \<le> gy \<and> 0 \<le> gx then lg_read g (gy + gx) else Some 0) xs ys))"

definition visit_order :: "nat \<Rightarrow> nat \<Rightarrow> nat \<Rightarrow> nat \<Rightarrow> nat \<Rightarrow> int" where
  "visit_order num_x num_y a ix iy = (int a * int num_x + int ix) * int num_y + int iy"

definition coarse_candidates ::
  "csm_config \<Rightarrow> lgrid \<Rightarrow> real \<Rightarrow> real \<Rightarrow> real \<Rightarrow> vec2 list \<Rightarrow> real list \<Rightarrow> nat \<Rightarrow> real \<Rightarrow> candidate list option" where
  "coarse_candidates cfg g yaw init_cx init_cy centered offsets a theta =
     (let r_pts = csm_rotate theta centered; inv_pts = 1 / real (length centered); angle_penalty = angle_penalty_at cfg yaw theta;
          num = length offsets; gx_table = map (\<lambda>dx. gx_row g (init_cx + dx) r_pts) offsets; gy_table = map (\<lambda>dy. gy_row g (init_cy + dy) r_pts) offsets
      in those (concat (map (\<lambda>ix. map (\<lambda>iy.
           map_option (\<lambda>sum_score.
             \<lparr>c_score = sum_score * inv_pts * angle_penalty * distance_penalty_at cfg (offsets ! ix * offsets ! ix + offsets ! iy * offsets ! iy),
              c_cx = init_cx + offsets ! ix, c_cy = init_cy + offsets ! iy, c_theta = theta, c_order = visit_order num num a ix iy, c_updated = False\<rparr>)
             (table_sum g (gx_table ! ix) (gy_table ! iy))) [0..<num]) [0..<num])))"

definition better1 :: "candidate \<Rightarrow> candidate \<Rightarrow> bool" where
  "better1 c b \<longleftrightarrow> c_score b < c_score c \<or> c_score c = c_score b \<and> c_order c < c_order b"

definition keep_better :: "(candidate \<Rightarrow> candidate \<Rightarrow> bool) \<Rightarrow> candidate \<Rightarrow> candidate \<Rightarrow> candidate" where
  "keep_better better c b = (if better c b then c else b)"

definition stage1 :: "csm_config \<Rightarrow> lgrid \<Rightarrow> real \<Rightarrow> real \<Rightarrow> real \<Rightarrow> vec2 list \<Rightarrow> (nat \<Rightarrow> search_schedule) \<Rightarrow> candidate option" where
  "stage1 cfg g yaw init_cx init_cy centered search =
     (let offsets = raster \<lceil>linear_search_window cfg / linear_step cfg\<rceil> (linear_step cfg); thetas = yaw_candidates cfg yaw;
          start = \<lparr>c_score = - 1, c_cx = init_cx, c_cy = init_cy, c_theta = yaw, c_order = int64_max, c_updated = False\<rparr>
      in do {
        cands \<leftarrow> those (map (\<lambda>a. coarse_candidates cfg g yaw init_cx init_cy centered offsets a (thetas ! a)) [0..<length thetas]);
        let thread_best = map (\<lambda>as. fold (keep_better better1) (concat (map (\<lambda>a. cands ! a) as)) start) (search (length thetas));
        Some (fold (keep_better better1) thread_best start)
      })"

section \<open>Stage 2\<close>

definition fine_linear_step :: real where "fine_linear_step = 0.01"
definition fine_ang_step_rad :: real where "fine_ang_step_rad = 0.2 * pi / 180"

definition fine_steps :: "real \<Rightarrow> real \<Rightarrow> int" where
  "fine_steps step fine = max 1 (trunc_int (cround (step / fine)))"

record bilinear =
  cell0 :: int
  cell1 :: int
  weight0 :: real
  weight1 :: real
  b_valid :: bool

definition bx_row :: "lgrid \<Rightarrow> real \<Rightarrow> vec2 list \<Rightarrow> bilinear list" where
  "bx_row g cx = map (\<lambda>p.
     let fx = (fst p + cx - lg_ox g) * lg_inv g - 0.5; gx0 = \<lfloor>fx\<rfloor>; gx1 = gx0 + 1; wx1 = fx - of_int gx0
     in \<lparr>cell0 = gx0, cell1 = gx1, weight0 = 1 - wx1, weight1 = wx1, b_valid = (0 \<le> gx0 \<and> gx1 < lg_width g)\<rparr>)"

definition by_row :: "lgrid \<Rightarrow> real \<Rightarrow> vec2 list \<Rightarrow> bilinear list" where
  "by_row g cy = map (\<lambda>p.
     let fy = (snd p + cy - lg_oy g) * lg_inv g - 0.5; gy0 = \<lfloor>fy\<rfloor>; gy1 = gy0 + 1; wy1 = fy - of_int gy0
     in \<lparr>cell0 = gy0 * lg_width g, cell1 = gy1 * lg_width g, weight0 = 1 - wy1, weight1 = wy1, b_valid = (0 \<le> gy0 \<and> gy1 < lg_height g)\<rparr>)"

definition bilinear_read :: "lgrid \<Rightarrow> bilinear \<Rightarrow> bilinear \<Rightarrow> real option" where
  "bilinear_read g bx bY = do {
     v00 \<leftarrow> lg_read g (cell0 bY + cell0 bx);
     v10 \<leftarrow> lg_read g (cell0 bY + cell1 bx);
     v01 \<leftarrow> lg_read g (cell1 bY + cell0 bx);
     v11 \<leftarrow> lg_read g (cell1 bY + cell1 bx);
     Some (weight0 bY * (weight0 bx * v00 + weight1 bx * v10) + weight1 bY * (weight0 bx * v01 + weight1 bx * v11))
   }"

definition bilinear_sum :: "lgrid \<Rightarrow> real \<Rightarrow> real \<Rightarrow> vec2 list \<Rightarrow> bilinear list \<Rightarrow> bilinear list \<Rightarrow> real option" where
  "bilinear_sum g cx cy r_pts bxs bys =
     (if list_all b_valid bxs \<and> list_all b_valid bys then sum_opt (map2 (bilinear_read g) bxs bys)
      else sum_opt (map (\<lambda>(p, bx, bY). if b_valid bx \<and> b_valid bY then bilinear_read g bx bY else lookup g (fst p + cx) (snd p + cy))
             (zip r_pts (zip bxs bys))))"

definition fine_candidates ::
  "csm_config \<Rightarrow> lgrid \<Rightarrow> real \<Rightarrow> real \<Rightarrow> real \<Rightarrow> vec2 list \<Rightarrow> candidate \<Rightarrow> real list \<Rightarrow> nat \<Rightarrow> real \<Rightarrow> candidate list option" where
  "fine_candidates cfg g yaw init_cx init_cy centered best offsets a theta =
     (let r_pts = csm_rotate theta centered; inv_pts = 1 / real (length centered); angle_penalty = angle_penalty_at cfg yaw theta;
          num = length offsets; bx_table = map (\<lambda>dx. bx_row g (c_cx best + dx) r_pts) offsets; by_table = map (\<lambda>dy. by_row g (c_cy best + dy) r_pts) offsets
      in those (concat (map (\<lambda>ix. map (\<lambda>iy.
           let cx = c_cx best + offsets ! ix; cy = c_cy best + offsets ! iy; total_dx = cx - init_cx; total_dy = cy - init_cy
           in map_option (\<lambda>sum_score.
             \<lparr>c_score = sum_score * inv_pts * angle_penalty * distance_penalty_at cfg (total_dx * total_dx + total_dy * total_dy),
              c_cx = cx, c_cy = cy, c_theta = theta, c_order = visit_order num num a ix iy, c_updated = True\<rparr>)
             (bilinear_sum g cx cy r_pts (bx_table ! ix) (by_table ! iy))) [0..<num]) [0..<num])))"

definition better2 :: "candidate \<Rightarrow> candidate \<Rightarrow> bool" where
  "better2 c b \<longleftrightarrow> (if c_updated b then better1 c b else c_score b < c_score c)"

definition merge2 :: "candidate \<Rightarrow> bool \<times> candidate \<Rightarrow> bool \<times> candidate" where
  "merge2 c = (\<lambda>(found, b). if c_updated c \<and> (\<not> found \<or> better1 c b) then (True, c) else (found, b))"

definition stage2 ::
  "csm_config \<Rightarrow> lgrid \<Rightarrow> real \<Rightarrow> real \<Rightarrow> real \<Rightarrow> vec2 list \<Rightarrow> (nat \<Rightarrow> search_schedule) \<Rightarrow> candidate \<Rightarrow> candidate option" where
  "stage2 cfg g yaw init_cx init_cy centered search best =
     (let offsets = raster (fine_steps (linear_step cfg) fine_linear_step) fine_linear_step;
          n = fine_steps (angular_step_rad cfg) fine_ang_step_rad;
          thetas = map (\<lambda>i. normalize_angle (c_theta best + of_int i * fine_ang_step_rad)) [- n..n];
          start = best\<lparr>c_order := int64_max, c_updated := False\<rparr>
      in do {
        cands \<leftarrow> those (map (\<lambda>a. fine_candidates cfg g yaw init_cx init_cy centered best offsets a (thetas ! a)) [0..<length thetas]);
        let thread_best = map (\<lambda>as. fold (keep_better better2) (concat (map (\<lambda>a. cands ! a) as)) start) (search (length thetas));
        Some (snd (fold merge2 thread_best (False, best)))
      })"

section \<open>Stage 3 and run_match\<close>

definition eval_score :: "lgrid \<Rightarrow> vec2 list \<Rightarrow> real \<Rightarrow> real \<Rightarrow> real \<Rightarrow> real option" where
  "eval_score g centered cx cy theta =
     map_option (\<lambda>s. s * (1 / real (length centered)))
       (sum_opt (map (\<lambda>(x, y). lookup_bilinear g (cos theta * x - sin theta * y + cx) (sin theta * x + cos theta * y + cy)) centered))"

definition fit_peak :: "real \<Rightarrow> real \<Rightarrow> real \<Rightarrow> real \<Rightarrow> real \<times> real" where
  "fit_peak step s_prev s_mid s_next =
     (let denom = s_prev - 2 * s_mid + s_next
      in if denom < - (1 / 10 ^ 6) then
           let delta = - 0.5 * step * (s_next - s_prev) / denom
           in if \<bar>delta\<bar> \<le> step then (delta, - denom / (step * step)) else (0, 10)
         else (0, 10))"

definition clamp :: "real \<Rightarrow> real \<Rightarrow> real \<Rightarrow> real" where
  "clamp v lo hi = (if v < lo then lo else if hi < v then hi else v)"

definition csm_information :: "real \<Rightarrow> real \<Rightarrow> real \<Rightarrow> real \<Rightarrow> mat3" where
  "csm_information score curv_x curv_y curv_t =
     (let base_scale = max 50 (score * 500)
      in ((clamp (curv_x * 0.1 * base_scale) 20 1000, 0, 0), (0, clamp (curv_y * 0.1 * base_scale) 20 1000, 0),
          (0, 0, clamp (curv_t * 0.005 * base_scale) 50 3000)))"

definition zero_mat3 :: mat3 where "zero_mat3 = ((0, 0, 0), (0, 0, 0), (0, 0, 0))"

definition no_match :: "OdomData \<Rightarrow> MatchResult" where
  "no_match guess = \<lparr>m_dx = o_x guess, m_dy = o_y guess, m_dyaw = o_yaw guess, m_converged = False, m_information = zero_mat3, m_score = 0\<rparr>"

definition centroid :: "vec2 list \<Rightarrow> vec2" where
  "centroid pts = (sum_list (map fst pts) / real (length pts), sum_list (map snd pts) / real (length pts))"

definition stage3 :: "lgrid \<Rightarrow> vec2 list \<Rightarrow> vec2 \<Rightarrow> candidate \<Rightarrow> (pose \<times> mat3) option" where
  "stage3 g centered cen best = do {
     sx_m \<leftarrow> eval_score g centered (c_cx best - fine_linear_step) (c_cy best) (c_theta best);
     sx_p \<leftarrow> eval_score g centered (c_cx best + fine_linear_step) (c_cy best) (c_theta best);
     sy_m \<leftarrow> eval_score g centered (c_cx best) (c_cy best - fine_linear_step) (c_theta best);
     sy_p \<leftarrow> eval_score g centered (c_cx best) (c_cy best + fine_linear_step) (c_theta best);
     st_m \<leftarrow> eval_score g centered (c_cx best) (c_cy best) (c_theta best - fine_ang_step_rad);
     st_p \<leftarrow> eval_score g centered (c_cx best) (c_cy best) (c_theta best + fine_ang_step_rad);
     let (sub_dx, curv_x) = fit_peak fine_linear_step sx_m (c_score best) sx_p;
     let (sub_dy, curv_y) = fit_peak fine_linear_step sy_m (c_score best) sy_p;
     let (sub_dt, curv_t) = fit_peak fine_ang_step_rad st_m (c_score best) st_p;
     let theta = normalize_angle (c_theta best + sub_dt);
     Some ((c_cx best + sub_dx - (cos theta * fst cen - sin theta * snd cen), c_cy best + sub_dy - (sin theta * fst cen + cos theta * snd cen), theta),
       csm_information (c_score best) curv_x curv_y curv_t)
   }"

text \<open>The ICP matcher gets the target points, the normals if there are any, the scan and the seed.\<close>

type_synonym icp_fallback = "vec2 list \<Rightarrow> vec2 list \<Rightarrow> vec2 list \<Rightarrow> OdomData \<Rightarrow> MatchResult"

definition best_pose :: "csm_config \<Rightarrow> lgrid \<Rightarrow> vec2 list \<Rightarrow> OdomData \<Rightarrow> (nat \<Rightarrow> search_schedule) \<Rightarrow> (candidate \<times> pose \<times> mat3) option" where
  "best_pose cfg g dst_pts guess search =
     (let cen = centroid dst_pts; centered = map (\<lambda>(x, y). (x - fst cen, y - snd cen)) dst_pts; yaw = o_yaw guess;
          init_cx = o_x guess + cos yaw * fst cen - sin yaw * snd cen; init_cy = o_y guess + sin yaw * fst cen + cos yaw * snd cen
      in do {
        best1 \<leftarrow> stage1 cfg g yaw init_cx init_cy centered search;
        best2 \<leftarrow> stage2 cfg g yaw init_cx init_cy centered search best1;
        (pose, info) \<leftarrow> stage3 g centered cen best2;
        Some (best2, pose, info)
      })"

definition run_match ::
  "csm_config \<Rightarrow> icp_fallback option \<Rightarrow> csm_target \<Rightarrow> vec2 list \<Rightarrow> OdomData \<Rightarrow> (nat \<Rightarrow> search_schedule) \<Rightarrow> MatchResult option" where
  "run_match cfg fine_matcher target dst_pts guess search =
     (if tg_pts target = [] \<or> \<not> lg_valid (tg_grid target) \<or> length dst_pts < 10 then Some (no_match guess)
      else do {
        (best, (tx, ty, theta), info) \<leftarrow> best_pose cfg (tg_grid target) dst_pts guess search;
        let csm_converged = (score_threshold cfg \<le> c_score best);
        let own = \<lparr>m_dx = tx, m_dy = ty, m_dyaw = theta, m_converged = csm_converged, m_information = info,
           m_score = (if csm_converged then c_score best else 0)\<rparr>;
        Some (case fine_matcher of
            None \<Rightarrow> own
          | Some icp \<Rightarrow>
              if csm_converged then own
              else
                let fine_res = icp (tg_pts target) (tg_normals target) dst_pts \<lparr>o_stamp = o_stamp guess, o_x = tx, o_y = ty, o_yaw = theta\<rparr>
                in if m_converged fine_res then fine_res else own)
      })"

section \<open>The matcher\<close>

text \<open>Targets are numbered when they are made; 0 is the scratch target.\<close>

record csm_matcher =
  cm_config :: csm_config
  cm_icp :: "icp_fallback option"
  scratch_target :: csm_target
  reusable_targets :: "(int \<times> nat \<times> csm_target) list"
  active_target :: nat
  cm_made :: nat

definition MultiResCSMMatcher :: "icp_fallback option \<Rightarrow> csm_config \<Rightarrow> csm_matcher" where
  "MultiResCSMMatcher icp cfg = \<lparr>cm_config = cfg, cm_icp = icp, scratch_target = new_target cfg, reusable_targets = [], active_target = 0, cm_made = 0\<rparr>"

definition kMaxReusableTargets :: nat where "kMaxReusableTargets = 8"

definition csm_set_target :: "omp \<Rightarrow> vec2 list \<Rightarrow> vec2 list \<Rightarrow> csm_matcher \<Rightarrow> csm_matcher option" where
  "csm_set_target par pts normals m =
     map_option (\<lambda>t. m\<lparr>scratch_target := t, active_target := 0\<rparr>) (fill_target par (cm_config m) pts normals (scratch_target m))"

definition find_target :: "int \<Rightarrow> csm_matcher \<Rightarrow> (nat \<times> csm_target) option \<times> csm_matcher" where
  "find_target key m =
     (case filter (\<lambda>e. fst e = key) (reusable_targets m) of
        [] \<Rightarrow> (None, m)
      | e # _ \<Rightarrow> (Some (snd e), m\<lparr>reusable_targets := remove1 e (reusable_targets m) @ [e]\<rparr>))"

definition csm_try_use :: "int \<Rightarrow> csm_matcher \<Rightarrow> bool \<times> csm_matcher" where
  "csm_try_use key m =
     (case find_target key m of
        (None, m) \<Rightarrow> (False, m)
      | (Some (k, _), m) \<Rightarrow> (True, m\<lparr>active_target := k\<rparr>))"

definition csm_set_reusable :: "omp \<Rightarrow> int \<Rightarrow> vec2 list \<Rightarrow> vec2 list \<Rightarrow> csm_matcher \<Rightarrow> csm_matcher option" where
  "csm_set_reusable par key pts normals m =
     map_option (\<lambda>t.
       let cache = filter (\<lambda>e. fst e \<noteq> key) (reusable_targets m) @ [(key, Suc (cm_made m), t)]
       in m\<lparr>reusable_targets := drop (length cache - kMaxReusableTargets) cache, active_target := Suc (cm_made m), cm_made := Suc (cm_made m)\<rparr>)
       (fill_target par (cm_config m) pts normals (new_target (cm_config m)))"

definition csm_clear_reusable :: "csm_matcher \<Rightarrow> csm_matcher" where
  "csm_clear_reusable m = m\<lparr>active_target := 0, reusable_targets := []\<rparr>"

definition deref_target :: "csm_matcher \<Rightarrow> nat \<Rightarrow> csm_target option" where
  "deref_target m k = (if k = 0 then Some (scratch_target m) else map_option snd (List.find (\<lambda>e. fst e = k) (map snd (reusable_targets m))))"

definition csm_match_points :: "omp \<Rightarrow> vec2 list \<Rightarrow> OdomData \<Rightarrow> csm_matcher \<Rightarrow> MatchResult option" where
  "csm_match_points par dst_pts guess m = do {
     t \<leftarrow> deref_target m (active_target m);
     run_match (cm_config m) (cm_icp m) t dst_pts guess (omp_search par)
   }"

definition csm_match :: "omp \<Rightarrow> ScanData option \<Rightarrow> OdomData \<Rightarrow> csm_matcher \<Rightarrow> MatchResult option" where
  "csm_match par dst guess m = (case dst of None \<Rightarrow> Some (no_match guess) | Some scan \<Rightarrow> csm_match_points par (scan_to_points scan) guess m)"

fun find_targets :: "int list \<Rightarrow> csm_matcher \<Rightarrow> (nat \<times> csm_target) option list \<times> csm_matcher" where
  "find_targets [] m = ([], m)"
| "find_targets (key # keys) m = (let (t, m) = find_target key m; (ts, m) = find_targets keys m in (t # ts, m))"

definition csm_match_reusable :: "omp \<Rightarrow> ScanData option \<Rightarrow> (int \<times> OdomData) list \<Rightarrow> csm_matcher \<Rightarrow> (MatchResult list \<times> csm_matcher) option" where
  "csm_match_reusable par dst requests m =
     (case dst of
        None \<Rightarrow> Some (map (\<lambda>r. no_match (snd r)) requests, m)
      | Some scan \<Rightarrow>
          if requests = [] then Some ([], m)
          else
            let (targets, m) = find_targets (map fst requests) m
            in map_option (\<lambda>rs. (rs, m)) (those (map2 (\<lambda>t r.
                 case t of None \<Rightarrow> Some (no_match (snd r))
                 | Some (_, t) \<Rightarrow> run_match (cm_config m) (cm_icp m) t (scan_to_points scan) (snd r) (omp_search par)) targets requests)))"

end
