(* ===== verification/CsmRuns.thy ===== *)
theory CsmRuns
  imports CsmProps
begin

text \<open>
  The scan matcher as a whole: what the two searches and \<^verbatim>\<open>run_match\<close> return, for every distribution of the angles to threads, and
  the cache of targets over every sequence of operations.
\<close>

section \<open>The rasters searched\<close>

definition coarse_at :: "csm_config \<Rightarrow> lgrid \<Rightarrow> real \<Rightarrow> real \<Rightarrow> real \<Rightarrow> vec2 list \<Rightarrow> real list \<Rightarrow> nat \<Rightarrow> real \<Rightarrow> nat \<Rightarrow> nat \<Rightarrow> candidate" where
  "coarse_at cfg g yaw init_cx init_cy centered offsets a theta ix iy =
     (let cx = init_cx + offsets ! ix; cy = init_cy + offsets ! iy
      in \<lparr>c_score = moved_sum (lookup g) cx cy (csm_rotate theta centered) * (1 / real (length centered)) * angle_penalty_at cfg yaw theta *
            distance_penalty_at cfg (offsets ! ix * offsets ! ix + offsets ! iy * offsets ! iy),
          c_cx = cx, c_cy = cy, c_theta = theta, c_order = visit_order (length offsets) (length offsets) a ix iy, c_updated = False\<rparr>)"

definition fine_at :: "csm_config \<Rightarrow> lgrid \<Rightarrow> real \<Rightarrow> real \<Rightarrow> real \<Rightarrow> vec2 list \<Rightarrow> candidate \<Rightarrow> real list \<Rightarrow> nat \<Rightarrow> real \<Rightarrow> nat \<Rightarrow> nat \<Rightarrow> candidate" where
  "fine_at cfg g yaw init_cx init_cy centered best offsets a theta ix iy =
     (let cx = c_cx best + offsets ! ix; cy = c_cy best + offsets ! iy
      in \<lparr>c_score = moved_sum (lookup_bilinear g) cx cy (csm_rotate theta centered) * (1 / real (length centered)) * angle_penalty_at cfg yaw theta *
            distance_penalty_at cfg ((cx - init_cx) * (cx - init_cx) + (cy - init_cy) * (cy - init_cy)),
          c_cx = cx, c_cy = cy, c_theta = theta, c_order = visit_order (length offsets) (length offsets) a ix iy, c_updated = True\<rparr>)"

definition raster_list :: "nat \<Rightarrow> (nat \<Rightarrow> nat \<Rightarrow> candidate) \<Rightarrow> candidate list" where
  "raster_list n f = concat (map (\<lambda>ix. map (f ix) [0..<n]) [0..<n])"

lemma set_raster_list: "set (raster_list n f) = {f ix iy |ix iy. ix < n \<and> iy < n}"
  by (auto simp: raster_list_def) blast

lemma those_raster:
  assumes "\<And>ix iy. ix < n \<Longrightarrow> iy < n \<Longrightarrow> F ix iy = Some (f ix iy)"
  shows "those (concat (map (\<lambda>ix. map (\<lambda>iy. F ix iy) [0..<n]) [0..<n])) = Some (raster_list n f)"
proof -
  have "concat (map (\<lambda>ix. map (\<lambda>iy. F ix iy) [0..<n]) [0..<n]) = concat (map (\<lambda>ix. map (\<lambda>iy. Some (f ix iy)) [0..<n]) [0..<n])"
    using assms by (intro arg_cong [of _ _ concat] map_cong refl) simp_all
  also have "\<dots> = map Some (raster_list n f)" by (simp add: raster_list_def map_concat comp_def)
  finally show ?thesis by (simp add: those_Some)
qed

lemma coarse_candidates_spec:
  assumes "grid_ok g"
  shows "coarse_candidates cfg g yaw cx cy centered offsets a theta = Some (raster_list (length offsets) (coarse_at cfg g yaw cx cy centered offsets a theta))"
  unfolding coarse_candidates_def Let_def
  by (rule those_raster) (simp add: table_sum_spec [OF assms] coarse_at_def Let_def)

lemma fine_candidates_spec:
  assumes "grid_ok g"
  shows "fine_candidates cfg g yaw cx cy centered best offsets a theta = Some (raster_list (length offsets) (fine_at cfg g yaw cx cy centered best offsets a theta))"
  unfolding fine_candidates_def Let_def
  by (rule those_raster) (simp add: bilinear_sum_spec [OF assms] fine_at_def Let_def)

lemma visit_order_inj:
  assumes "visit_order n n a ix iy = visit_order n n b jx jy" and "ix < n" "iy < n" "jx < n" "jy < n"
  shows "a = b \<and> ix = jx \<and> iy = jy"
proof -
  have "(a * n + ix) * n + iy = (b * n + jx) * n + jy"
    using assms(1) unfolding visit_order_def by (metis of_nat_add of_nat_eq_iff of_nat_mult)
  then have "a * n + ix = b * n + jx" "iy = jy"
    using assms(3, 5) by (metis div_mult_self3 div_less add.commute add_0 less_nat_zero_code, metis mod_mult_self3 mod_less)
  then show ?thesis using assms(2, 4) by (metis div_mult_self3 div_less add.commute add_0 less_nat_zero_code mod_mult_self3 mod_less)
qed

text \<open>All candidates of a stage.\<close>

definition raster_set :: "nat \<Rightarrow> nat \<Rightarrow> (nat \<Rightarrow> nat \<Rightarrow> nat \<Rightarrow> candidate) \<Rightarrow> candidate set" where
  "raster_set m n f = {f a ix iy |a ix iy. a < m \<and> ix < n \<and> iy < n}"

lemma set_raster_lists: "set (concat (map (\<lambda>a. raster_list n (f a)) [0..<m])) = raster_set m n f"
  by (fastforce simp: set_raster_list raster_set_def)

lemma raster_set_inj:
  assumes "\<And>a ix iy. c_order (f a ix iy) = visit_order n n a ix iy"
  shows "inj_on c_order (raster_set m n f)"
proof (rule inj_onI)
  fix c d assume "c \<in> raster_set m n f" "d \<in> raster_set m n f" "c_order c = c_order d"
  then show "c = d" using visit_order_inj assms by (clarsimp simp: raster_set_def) metis
qed


definition config_ok :: "csm_config \<Rightarrow> bool" where
  "config_ok cfg \<longleftrightarrow> 0 \<le> linear_search_window cfg \<and> 0 < linear_step cfg \<and> 0 < angular_step_rad cfg"

definition coarse_offsets :: "csm_config \<Rightarrow> real list" where
  "coarse_offsets cfg = raster \<lceil>linear_search_window cfg / linear_step cfg\<rceil> (linear_step cfg)"

definition fine_offsets :: "csm_config \<Rightarrow> real list" where
  "fine_offsets cfg = raster (fine_steps (linear_step cfg) fine_linear_step) fine_linear_step"

definition fine_thetas :: "csm_config \<Rightarrow> real \<Rightarrow> real list" where
  "fine_thetas cfg theta =
     (let n = fine_steps (angular_step_rad cfg) fine_ang_step_rad in map (\<lambda>i. normalize_angle (theta + of_int i * fine_ang_step_rad)) [- n..n])"

definition coarse_set :: "csm_config \<Rightarrow> lgrid \<Rightarrow> real \<Rightarrow> real \<Rightarrow> real \<Rightarrow> vec2 list \<Rightarrow> candidate set" where
  "coarse_set cfg g yaw cx cy centered =
     raster_set (length (yaw_candidates cfg yaw)) (length (coarse_offsets cfg))
       (\<lambda>a. coarse_at cfg g yaw cx cy centered (coarse_offsets cfg) a (yaw_candidates cfg yaw ! a))"

definition fine_set :: "csm_config \<Rightarrow> lgrid \<Rightarrow> real \<Rightarrow> real \<Rightarrow> real \<Rightarrow> vec2 list \<Rightarrow> candidate \<Rightarrow> candidate set" where
  "fine_set cfg g yaw cx cy centered best =
     raster_set (length (fine_thetas cfg (c_theta best))) (length (fine_offsets cfg))
       (\<lambda>a. fine_at cfg g yaw cx cy centered best (fine_offsets cfg) a (fine_thetas cfg (c_theta best) ! a))"

lemma penalties_nonneg: "0 \<le> angle_penalty_at cfg yaw theta" "0 \<le> distance_penalty_at cfg d"
  by (auto simp: angle_penalty_at_def distance_penalty_at_def Let_def le_max_iff_disj)

lemma unique_angles_ne: "unique_angles xs = [] \<longleftrightarrow> xs = []"
  by (induction xs rule: unique_angles.induct) auto

lemma yaw_candidates_ne: "yaw_candidates cfg yaw \<noteq> []"
  by (simp add: yaw_candidates_def Let_def unique_angles_ne)

lemma coarse_offsets_ne: "config_ok cfg \<Longrightarrow> coarse_offsets cfg \<noteq> []"
  by (simp add: coarse_offsets_def raster_def config_ok_def) (smt (verit) divide_nonneg_pos zero_le_ceiling)

lemma coarse_set_nonneg:
  assumes "grid_ok g" and "c \<in> coarse_set cfg g yaw cx cy centered"
  shows "0 \<le> c_score c"
proof -
  have "0 \<le> moved_sum (lookup g) x y pts" for x y pts by (rule moved_sum_nonneg) (rule lookup_defined [OF assms(1)])
  then show ?thesis using assms(2)
    by (auto simp: coarse_set_def raster_set_def coarse_at_def Let_def intro!: divide_nonneg_nonneg mult_nonneg_nonneg penalties_nonneg)
qed

lemma coarse_set_ne: "config_ok cfg \<Longrightarrow> coarse_set cfg g yaw cx cy centered \<noteq> {}"
  using yaw_candidates_ne [of cfg yaw] coarse_offsets_ne [of cfg] by (force simp: coarse_set_def raster_set_def)

lemma coarse_set_inj: "inj_on c_order (coarse_set cfg g yaw cx cy centered)"
  unfolding coarse_set_def by (rule raster_set_inj) (simp add: coarse_at_def Let_def)

lemma fine_set_inj: "inj_on c_order (fine_set cfg g yaw cx cy centered best)"
  unfolding fine_set_def by (rule raster_set_inj) (simp add: fine_at_def Let_def)

lemma stage1_best:
  assumes "grid_ok g" and "config_ok cfg" and "search_ok search"
  shows "\<exists>r. stage1 cfg g yaw cx cy centered search = Some r \<and> best_of (coarse_set cfg g yaw cx cy centered) r"
proof -
  let ?thetas = "yaw_candidates cfg yaw" and ?offs = "coarse_offsets cfg"
  let ?cands = "map (\<lambda>a. raster_list (length ?offs) (coarse_at cfg g yaw cx cy centered ?offs a (?thetas ! a))) [0..<length ?thetas]"
  let ?start = "\<lparr>c_score = - 1, c_cx = cx, c_cy = cy, c_theta = yaw, c_order = int64_max, c_updated = False\<rparr>"
  let ?r = "fold (keep_better better1) (map (\<lambda>as. fold (keep_better better1) (concat (map ((!) ?cands) as)) ?start) (search (length ?thetas))) ?start"
  have "set (concat (search (length ?thetas))) = {..<length ?cands}" using assms(3) by (simp add: search_ok_def)
  note best = search1_best [OF this, of ?start]
  have S: "set (concat ?cands) = coarse_set cfg g yaw cx cy centered" unfolding coarse_set_def by (rule set_raster_lists)
  obtain c where "c \<in> coarse_set cfg g yaw cx cy centered" "0 \<le> c_score c"
    using coarse_set_ne [OF assms(2)] coarse_set_nonneg [OF assms(1)] by blast
  then have "?r \<noteq> ?start" using best unfolding S best_of_def by (auto simp: better1_def)
  then have "best_of (coarse_set cfg g yaw cx cy centered) ?r" using best unfolding S best_of_def by blast
  moreover have "stage1 cfg g yaw cx cy centered search = Some ?r"
    using those_map_Some [of "[0..<length ?thetas]" "\<lambda>a. coarse_candidates cfg g yaw cx cy centered ?offs a (?thetas ! a)"
       "\<lambda>a. raster_list (length ?offs) (coarse_at cfg g yaw cx cy centered ?offs a (?thetas ! a))"] coarse_candidates_spec [OF assms(1)]
    unfolding stage1_def Let_def coarse_offsets_def [symmetric] by simp
  ultimately show ?thesis by blast
qed

lemma stage2_best:
  assumes "grid_ok g" and "search_ok search" and "\<not> c_updated best"
  shows "\<exists>r. stage2 cfg g yaw cx cy centered search best = Some r \<and>
    (if \<exists>c \<in> fine_set cfg g yaw cx cy centered best. c_score best < c_score c then best_of (fine_set cfg g yaw cx cy centered best) r else r = best)"
proof -
  let ?thetas = "fine_thetas cfg (c_theta best)" and ?offs = "fine_offsets cfg"
  let ?cands = "map (\<lambda>a. raster_list (length ?offs) (fine_at cfg g yaw cx cy centered best ?offs a (?thetas ! a))) [0..<length ?thetas]"
  let ?start = "best\<lparr>c_order := int64_max, c_updated := False\<rparr>"
  let ?r = "snd (fold merge2 (map (\<lambda>as. fold (keep_better better2) (concat (map ((!) ?cands) as)) ?start) (search (length ?thetas))) (False, best))"
  have cov: "set (concat (search (length ?thetas))) = {..<length ?cands}" using assms(2) by (simp add: search_ok_def)
  have S: "set (concat ?cands) = fine_set cfg g yaw cx cy centered best" unfolding fine_set_def by (rule set_raster_lists)
  have up: "\<forall>c \<in> set (concat ?cands). c_updated c" unfolding S by (auto simp: fine_set_def raster_set_def fine_at_def Let_def)
  have "stage2 cfg g yaw cx cy centered search best = Some ?r"
    using those_map_Some [of "[0..<length ?thetas]" "\<lambda>a. fine_candidates cfg g yaw cx cy centered best ?offs a (?thetas ! a)"
       "\<lambda>a. raster_list (length ?offs) (fine_at cfg g yaw cx cy centered best ?offs a (?thetas ! a))"] fine_candidates_spec [OF assms(1)]
    unfolding stage2_def Let_def fine_offsets_def [symmetric] fine_thetas_def [unfolded Let_def, symmetric] by simp
  then show ?thesis using search2_best [OF cov _ assms(3) up, of ?start] unfolding S by (intro exI [of _ ?r]) simp
qed


section \<open>run_match\<close>

text \<open>C5. Both searches of the correlative scan matcher return the best candidate of their raster, scoring every pose by looking up each
  moved point in the grid, and the first one in search order among equals; the fine search replaces the coarse result
  only by a strictly better one.  This holds for every distribution of the angles to threads, and no search reads
  outside the grid.\<close>

theorem csm_finds_best:
  assumes "grid_ok g" and "config_ok cfg" and "search_ok search"
  shows "\<exists>b1 b2. stage1 cfg g yaw cx cy centered search = Some b1 \<and> best_of (coarse_set cfg g yaw cx cy centered) b1 \<and>
    stage2 cfg g yaw cx cy centered search b1 = Some b2 \<and>
    (if \<exists>c \<in> fine_set cfg g yaw cx cy centered b1. c_score b1 < c_score c then best_of (fine_set cfg g yaw cx cy centered b1) b2 else b2 = b1)"
proof -
  obtain b1 where b1: "stage1 cfg g yaw cx cy centered search = Some b1" "best_of (coarse_set cfg g yaw cx cy centered) b1"
    using stage1_best [OF assms] by blast
  then have "\<not> c_updated b1" by (auto simp: best_of_def coarse_set_def raster_set_def coarse_at_def Let_def)
  then show ?thesis using b1 stage2_best [OF assms(1, 3)] by blast
qed

lemma stage1_unique:
  assumes "grid_ok g" and "config_ok cfg" and "search_ok s" and "search_ok s'"
  shows "stage1 cfg g yaw cx cy centered s = stage1 cfg g yaw cx cy centered s'"
  using stage1_best [OF assms(1, 2, 3)] stage1_best [OF assms(1, 2, 4)] best_of_unique [OF _ _ coarse_set_inj] by metis

lemma stage2_unique:
  assumes "grid_ok g" and "search_ok s" and "search_ok s'" and "\<not> c_updated best"
  shows "stage2 cfg g yaw cx cy centered s best = stage2 cfg g yaw cx cy centered s' best"
  using stage2_best [OF assms(1, 2, 4), of cfg yaw cx cy centered] stage2_best [OF assms(1, 3, 4), of cfg yaw cx cy centered]
    best_of_unique [OF _ _ fine_set_inj] by metis

lemma eval_score_defined:
  assumes "grid_ok g"
  shows "\<exists>s. eval_score g centered cx cy theta = Some s"
proof -
  have "\<forall>v \<in> set (map (\<lambda>(x, y). lookup_bilinear g (cos theta * x - sin theta * y + cx) (sin theta * x + cos theta * y + cy)) centered). v \<noteq> None"
    using lookup_bilinear_defined [OF assms] by (force simp: split_beta)
  then show ?thesis unfolding eval_score_def by (simp add: sum_opt_Some)
qed

lemma stage3_defined:
  assumes "grid_ok g"
  shows "\<exists>r. stage3 g centered cen best = Some r"
  using eval_score_defined [OF assms, of centered "c_cx best - fine_linear_step" "c_cy best" "c_theta best"]
    eval_score_defined [OF assms, of centered "c_cx best + fine_linear_step" "c_cy best" "c_theta best"]
    eval_score_defined [OF assms, of centered "c_cx best" "c_cy best - fine_linear_step" "c_theta best"]
    eval_score_defined [OF assms, of centered "c_cx best" "c_cy best + fine_linear_step" "c_theta best"]
    eval_score_defined [OF assms, of centered "c_cx best" "c_cy best" "c_theta best - fine_ang_step_rad"]
    eval_score_defined [OF assms, of centered "c_cx best" "c_cy best" "c_theta best + fine_ang_step_rad"]
  by (auto simp: stage3_def simp del: split_paired_Ex split: prod.splits)

lemma stage1_not_updated: "grid_ok g \<Longrightarrow> config_ok cfg \<Longrightarrow> search_ok s \<Longrightarrow> stage1 cfg g yaw cx cy centered s = Some b \<Longrightarrow> \<not> c_updated b"
  using stage1_best [of g cfg s yaw cx cy centered]
  by (auto simp: best_of_def coarse_set_def raster_set_def coarse_at_def Let_def)

lemma best_pose_unique:
  assumes "grid_ok g" and "config_ok cfg" and "search_ok s" and "search_ok s'"
  shows "best_pose cfg g dst_pts guess s = best_pose cfg g dst_pts guess s' \<and> best_pose cfg g dst_pts guess s \<noteq> None"
proof -
  have eq: "best_pose cfg g dst_pts guess s = best_pose cfg g dst_pts guess s'"
    unfolding best_pose_def Let_def stage1_unique [OF assms]
    by (intro Option.bind_cong refl) (simp add: stage2_unique [OF assms(1, 3, 4) stage1_not_updated [OF assms(1, 2, 4)]])
  have "\<exists>b1 b2. stage1 cfg g yaw cx cy centered s = Some b1 \<and> stage2 cfg g yaw cx cy centered s b1 = Some b2" for yaw cx cy centered
    using stage1_best [OF assms(1-3), of yaw cx cy centered] stage1_not_updated [OF assms(1-3), of yaw cx cy centered]
      stage2_best [OF assms(1, 3), of _ cfg yaw cx cy centered] by metis
  then have "best_pose cfg g dst_pts guess s \<noteq> None"
    using stage3_defined [OF assms(1)] unfolding best_pose_def Let_def
    by (metis (no_types, lifting) Option.bind.bind_lunit case_prod_conv option.distinct(1) surj_pair)
  with eq show ?thesis by simp
qed

lemma run_match_unique:
  assumes "grid_ok (tg_grid t)" and "config_ok cfg" and "search_ok s" and "search_ok s'"
  shows "run_match cfg icp t dst_pts guess s = run_match cfg icp t dst_pts guess s'" "run_match cfg icp t dst_pts guess s \<noteq> None"
proof -
  obtain b p i where b: "best_pose cfg (tg_grid t) dst_pts guess s = Some (b, p, i)" "best_pose cfg (tg_grid t) dst_pts guess s' = Some (b, p, i)"
    using best_pose_unique [OF assms, of dst_pts guess] by (metis not_None_eq surj_pair)
  show "run_match cfg icp t dst_pts guess s = run_match cfg icp t dst_pts guess s'" by (simp add: run_match_def b)
  show "run_match cfg icp t dst_pts guess s \<noteq> None" by (simp add: run_match_def b Let_def split: prod.split)
qed

section \<open>Targets\<close>

definition omp_ok :: "omp \<Rightarrow> bool" where
  "omp_ok par \<longleftrightarrow> (\<forall>g n. draw_schedule_ok g n (omp_draw par g n)) \<and> search_ok (omp_search par)"

definition target_ok :: "csm_target \<Rightarrow> bool" where
  "target_ok t \<longleftrightarrow> lg_config_ok (tg_grid t) \<and> grid_ok (tg_grid t)"

lemma likelihood_nonneg: "0 \<le> likelihood g pts gy gx"
  unfolding likelihood_def by (rule Max_ge) auto

lemma lg_build_cells:
  assumes "lg_config_ok g0" and "0 \<le> margin" and "pts \<noteq> []" and "draw_schedule_ok (lg_frame pts margin g0) (length pts) sched"
  defines "f \<equiv> lg_frame pts margin g0"
  shows "lg_build pts margin sched g0 =
    Some (f\<lparr>lg_cells := map (\<lambda>k. likelihood f pts (int k div lg_width f) (int k mod lg_width f)) [0..<nat (lg_width f * lg_height f)]\<rparr>)"
proof -
  obtain g where g: "lg_build pts margin sched g0 = Some g" "framed pts g"
    "\<And>gy gx. 0 \<le> gy \<and> gy < lg_height g \<and> 0 \<le> gx \<and> gx < lg_width g \<Longrightarrow> lg_read g (gy * lg_width g + gx) = Some (likelihood g pts gy gx)"
    using grid_build_spec [OF assms(1-4)] by blast
  obtain cells where gc: "g = f\<lparr>lg_cells := cells\<rparr>" using g(1) assms(3) by (auto simp: lg_build_def f_def Let_def)
  have lik: "likelihood (f\<lparr>lg_cells := cells\<rparr>) = likelihood f" by (simp add: fun_eq_iff likelihood_def cell_value_def cell_dist_sq_def max_eval_dist_def)
  have wh: "0 < lg_width f" "0 < lg_height f" "length cells = nat (lg_width f * lg_height f)" using g(2) by (simp_all add: framed_def gc)
  have "cells ! k = likelihood f pts (int k div lg_width f) (int k mod lg_width f)" if k: "k < length cells" for k
  proof -
    have "int k < lg_width f * lg_height f" using k wh by simp
    have "int k div lg_width f < lg_height f"
    proof (rule ccontr)
      assume "\<not> int k div lg_width f < lg_height f"
      then have "lg_height f * lg_width f \<le> int k div lg_width f * lg_width f" using wh(1) by (intro mult_right_mono) auto
      also have "\<dots> \<le> int k" using div_mult_mod_eq [of "int k" "lg_width f"] pos_mod_sign [OF wh(1), of "int k"] by linarith
      finally show False using \<open>int k < lg_width f * lg_height f\<close> by (simp add: mult.commute)
    qed
    then have "lg_read g (int k div lg_width f * lg_width f + int k mod lg_width f) = Some (likelihood f pts (int k div lg_width f) (int k mod lg_width f))"
      using g(3) [of "int k div lg_width f" "int k mod lg_width f"] wh(1) by (simp add: lik gc pos_imp_zdiv_nonneg_iff)
    then show ?thesis using k by (simp add: lg_read_def gc)
  qed
  then have "cells = map (\<lambda>k. likelihood f pts (int k div lg_width f) (int k mod lg_width f)) [0..<nat (lg_width f * lg_height f)]"
    using wh(3) by (intro nth_equalityI) simp_all
  then show ?thesis using g(1) gc by simp
qed

lemma fill_target_unique:
  assumes "omp_ok par" and "omp_ok par'" and "lg_config_ok (tg_grid t)" and "config_ok cfg"
  shows "fill_target par cfg pts normals t = fill_target par' cfg pts normals t"
    "\<exists>t'. fill_target par cfg pts normals t = Some t' \<and> target_ok t'"
proof -
  have m: "0 \<le> linear_search_window cfg + 1" using assms(4) by (simp add: config_ok_def)
  let ?f = "lg_frame pts (linear_search_window cfg + 1) (tg_grid t)"
  show "fill_target par cfg pts normals t = fill_target par' cfg pts normals t"
    using assms(1, 2) lg_build_cells [OF assms(3) m, of pts]
    by (cases "pts = []") (simp_all add: fill_target_def omp_ok_def Let_def lg_build_def [of "[]"])
  show "\<exists>t'. fill_target par cfg pts normals t = Some t' \<and> target_ok t'"
  proof (cases "pts = []")
    case True
    then show ?thesis using assms(3) by (simp add: fill_target_def lg_build_def lg_clear_def target_ok_def grid_ok_def lg_config_ok_def)
  next
    case False
    have "lg_config_ok ?f" using lg_frame_framed(1) [OF assms(3) m False] by (simp add: framed_def)
    then show ?thesis using assms(1) lg_build_cells [OF assms(3) m False] likelihood_nonneg
      by (auto simp: fill_target_def omp_ok_def Let_def target_ok_def grid_ok_def lg_config_ok_def)
  qed
qed

section \<open>Sequences of operations\<close>

datatype csm_op =
    SetTarget "vec2 list" "vec2 list"
  | TryUse int
  | SetReusable int "vec2 list" "vec2 list"
  | ClearReusable
  | Match "ScanData option" OdomData
  | MatchPoints "vec2 list" OdomData
  | MatchReusable "ScanData option" "(int \<times> OdomData) list"

datatype csm_answer = Nothing | Used bool | Matched "MatchResult list"

fun csm_step :: "omp \<Rightarrow> csm_op \<Rightarrow> csm_matcher \<Rightarrow> (csm_answer \<times> csm_matcher) option" where
  "csm_step par (SetTarget pts normals) m = map_option (Pair Nothing) (csm_set_target par pts normals m)"
| "csm_step par (TryUse key) m = Some (let (b, m) = csm_try_use key m in (Used b, m))"
| "csm_step par (SetReusable key pts normals) m = map_option (Pair Nothing) (csm_set_reusable par key pts normals m)"
| "csm_step par ClearReusable m = Some (Nothing, csm_clear_reusable m)"
| "csm_step par (Match scan guess) m = map_option (\<lambda>r. (Matched [r], m)) (csm_match par scan guess m)"
| "csm_step par (MatchPoints pts guess) m = map_option (\<lambda>r. (Matched [r], m)) (csm_match_points par pts guess m)"
| "csm_step par (MatchReusable scan requests) m = map_option (\<lambda>(rs, m). (Matched rs, m)) (csm_match_reusable par scan requests m)"

fun csm_run :: "omp \<Rightarrow> csm_op list \<Rightarrow> csm_matcher \<Rightarrow> (csm_answer list \<times> csm_matcher) option" where
  "csm_run par [] m = Some ([], m)"
| "csm_run par (x # ops) m = do {
     (ans, m) \<leftarrow> csm_step par x m;
     (rest, m) \<leftarrow> csm_run par ops m;
     Some (ans # rest, m)
   }"

definition cache_ok :: "csm_matcher \<Rightarrow> bool" where
  "cache_ok m \<longleftrightarrow> length (reusable_targets m) \<le> kMaxReusableTargets \<and> distinct (map fst (reusable_targets m)) \<and>
     distinct (map (\<lambda>e. fst (snd e)) (reusable_targets m)) \<and> (\<forall>e \<in> set (reusable_targets m). 0 < fst (snd e) \<and> fst (snd e) \<le> cm_made m) \<and>
     (active_target m = 0 \<or> active_target m \<in> fst ` snd ` set (reusable_targets m))"

definition csm_inv :: "csm_config \<Rightarrow> csm_matcher \<Rightarrow> bool" where
  "csm_inv cfg m \<longleftrightarrow> cm_config m = cfg \<and> cache_ok m \<and> target_ok (scratch_target m) \<and> (\<forall>e \<in> set (reusable_targets m). target_ok (snd (snd e)))"

lemma find_target_inv:
  assumes "csm_inv cfg m"
  shows "csm_inv cfg (snd (find_target key m))"
    "find_target key m = (Some (k, t), m') \<Longrightarrow> target_ok t \<and> k \<in> fst ` snd ` set (reusable_targets m') \<and> csm_inv cfg m'"
proof -
  have inv: "csm_inv cfg (m\<lparr>reusable_targets := remove1 e (reusable_targets m) @ [e]\<rparr>)" if "e \<in> set (reusable_targets m)" for e
  proof -
    have d: "distinct (reusable_targets m)" using assms by (auto simp: csm_inv_def cache_ok_def distinct_map)
    have s: "set (remove1 e (reusable_targets m) @ [e]) = set (reusable_targets m)" using that d by (auto simp: set_remove1_eq)
    have "distinct (remove1 e (reusable_targets m) @ [e])" using d by (auto simp: set_remove1_eq)
    then have "distinct (map fst (remove1 e (reusable_targets m) @ [e]))" "distinct (map (\<lambda>e. fst (snd e)) (remove1 e (reusable_targets m) @ [e]))"
      using assms unfolding distinct_map s by (simp_all add: csm_inv_def cache_ok_def distinct_map)
    moreover have "length (remove1 e (reusable_targets m) @ [e]) = length (reusable_targets m)"
      using that by (simp add: length_remove1) (metis Suc_pred length_pos_if_in_set)
    ultimately show ?thesis using assms s unfolding csm_inv_def cache_ok_def by simp
  qed
  show "csm_inv cfg (snd (find_target key m))"
  proof (cases "filter (\<lambda>e. fst e = key) (reusable_targets m)")
    case Nil
    then show ?thesis using assms by (simp add: find_target_def)
  next
    case (Cons e es)
    then have "e \<in> set (reusable_targets m)" by (metis filter_is_subset list.set_intros(1) subset_iff)
    then show ?thesis using inv Cons by (simp add: find_target_def)
  qed
  show "find_target key m = (Some (k, t), m') \<Longrightarrow> target_ok t \<and> k \<in> fst ` snd ` set (reusable_targets m') \<and> csm_inv cfg m'"
  proof (cases "filter (\<lambda>e. fst e = key) (reusable_targets m)")
    case (Cons e es)
    assume f: "find_target key m = (Some (k, t), m')"
    have e: "e \<in> set (reusable_targets m)" using Cons by (metis filter_is_subset list.set_intros(1) subset_iff)
    have "snd e = (k, t)" "m' = m\<lparr>reusable_targets := remove1 e (reusable_targets m) @ [e]\<rparr>" using f Cons by (auto simp: find_target_def)
    then show ?thesis using e inv [OF e] assms by (auto simp: csm_inv_def)
  qed (simp add: find_target_def)
qed


lemma deref_active:
  assumes "csm_inv cfg m"
  shows "\<exists>t. deref_target m (active_target m) = Some t \<and> target_ok t"
proof (cases "active_target m = 0")
  case True
  then show ?thesis using assms by (simp add: deref_target_def csm_inv_def)
next
  case False
  then have "active_target m \<in> fst ` set (map snd (reusable_targets m))" using assms by (simp add: csm_inv_def cache_ok_def)
  then obtain e where e: "e \<in> set (map snd (reusable_targets m))" "fst e = active_target m" by (metis imageE)
  then have "List.find (\<lambda>e. fst e = active_target m) (map snd (reusable_targets m)) \<noteq> None" by (auto simp: find_None_iff)
  then obtain d where d: "List.find (\<lambda>e. fst e = active_target m) (map snd (reusable_targets m)) = Some d" by blast
  then have "d \<in> set (map snd (reusable_targets m))" by (auto simp: find_Some_iff)
  then show ?thesis using d False assms by (auto simp: deref_target_def csm_inv_def)
qed

lemma find_targets_inv:
  "csm_inv cfg m \<Longrightarrow> csm_inv cfg (snd (find_targets keys m)) \<and> (\<forall>k t. Some (k, t) \<in> set (fst (find_targets keys m)) \<longrightarrow> target_ok t)"
proof (induction keys arbitrary: m)
  case (Cons key keys)
  obtain r m1 where r: "find_target key m = (r, m1)" by (cases "find_target key m")
  then have m1: "csm_inv cfg m1" using find_target_inv(1) [OF Cons.prems, of key] by simp
  have "target_ok t" if "r = Some (k, t)" for k t using find_target_inv(2) [OF Cons.prems, of key k t m1] r that by simp
  then show ?case using Cons.IH [OF m1] r by (auto split: prod.splits)
qed simp

lemma set_reusable_inv:
  fixes key :: int
  assumes "csm_inv cfg m" and "target_ok t"
  defines "cache \<equiv> filter (\<lambda>e. fst e \<noteq> key) (reusable_targets m) @ [(key, Suc (cm_made m), t)]"
  shows "csm_inv cfg (m\<lparr>reusable_targets := drop (length cache - kMaxReusableTargets) cache, active_target := Suc (cm_made m), cm_made := Suc (cm_made m)\<rparr>)"
proof -
  let ?c = "drop (length cache - kMaxReusableTargets) cache"
  have m: "distinct (map fst (reusable_targets m))" "distinct (map (\<lambda>e. fst (snd e)) (reusable_targets m))"
    "\<forall>e \<in> set (reusable_targets m). 0 < fst (snd e) \<and> fst (snd e) \<le> cm_made m \<and> target_ok (snd (snd e))"
    using assms(1) by (auto simp: csm_inv_def cache_ok_def)
  have "distinct (map fst cache)" using m(1) by (auto simp: cache_def distinct_map_filter)
  then have d1: "distinct (map fst ?c)" by (metis distinct_drop drop_map)
  have "distinct (map (\<lambda>e. fst (snd e)) cache)" using m(2, 3) by (fastforce simp: cache_def distinct_map_filter)
  then have d2: "distinct (map (\<lambda>e. fst (snd e)) ?c)" by (metis distinct_drop drop_map)
  have "set cache \<subseteq> insert (key, Suc (cm_made m), t) (set (reusable_targets m))" by (auto simp: cache_def)
  then have sub: "set ?c \<subseteq> insert (key, Suc (cm_made m), t) (set (reusable_targets m))" by (meson order_trans set_drop_subset)
  have "last ?c = (key, Suc (cm_made m), t)" "?c \<noteq> []" by (simp_all add: cache_def kMaxReusableTargets_def last_drop)
  then have "(key, Suc (cm_made m), t) \<in> set ?c" by (metis last_in_set)
  then have act: "Suc (cm_made m) \<in> fst ` snd ` set ?c" by force
  have "\<forall>e \<in> set ?c. 0 < fst (snd e) \<and> fst (snd e) \<le> Suc (cm_made m) \<and> target_ok (snd (snd e))" using sub m(3) assms(2) by fastforce
  then show ?thesis using assms(1) d1 d2 act by (simp add: csm_inv_def cache_ok_def)
qed

lemma csm_step_ok:
  assumes "csm_inv cfg m" and "config_ok cfg" and "0 < grid_resolution cfg" and "omp_ok par" and "omp_ok par'"
  shows "csm_step par x m = csm_step par' x m \<and> (\<exists>ans m'. csm_step par x m = Some (ans, m') \<and> csm_inv cfg m')"
proof -
  have s: "search_ok (omp_search par)" "search_ok (omp_search par')" using assms(4, 5) by (auto simp: omp_ok_def)
  have cfg: "cm_config m = cfg" using assms(1) by (simp add: csm_inv_def)
  note fill = fill_target_unique [OF assms(4, 5) _ assms(2)]
  note match = run_match_unique [OF _ assms(2) s]
  have "csm_match_points par p guess m = csm_match_points par' p guess m \<and> csm_match_points par p guess m \<noteq> None" for p guess
    using deref_active [OF assms(1)] match by (auto simp: csm_match_points_def cfg target_ok_def)
  then have pts: "\<exists>r. csm_match_points par p guess m = Some r \<and> csm_match_points par' p guess m = Some r" for p guess
    by (metis not_None_eq)
  show ?thesis
  proof (cases x)
    case (SetTarget pts normals)
    have t: "lg_config_ok (tg_grid (scratch_target m))" using assms(1) by (simp add: csm_inv_def target_ok_def)
    obtain t' where "fill_target par cfg pts normals (scratch_target m) = Some t'" "target_ok t'" using fill(2) [OF t] by blast
    then show ?thesis using SetTarget fill(1) [OF t, of pts normals] assms(1) by (simp add: csm_set_target_def cfg csm_inv_def cache_ok_def)
  next
    case (TryUse key)
    obtain r m1 where r: "find_target key m = (r, m1)" by (cases "find_target key m")
    show ?thesis
    proof (cases r)
      case None
      then show ?thesis using TryUse r find_target_inv(1) [OF assms(1), of key] by (simp add: csm_try_use_def)
    next
      case (Some kt)
      obtain k t where kt: "kt = (k, t)" by (cases kt)
      have "csm_inv cfg (m1\<lparr>active_target := k\<rparr>)" using find_target_inv(2) [OF assms(1), of key k t m1] r Some kt by (simp add: csm_inv_def cache_ok_def)
      then show ?thesis using TryUse r Some kt by (simp add: csm_try_use_def)
    qed
  next
    case (SetReusable key pts normals)
    have t: "lg_config_ok (tg_grid (new_target cfg))" using assms(3) by (simp add: new_target_def new_lgrid_def lg_config_ok_def kGridSigmaRatio_def)
    obtain t' where "fill_target par cfg pts normals (new_target cfg) = Some t'" "target_ok t'" using fill(2) [OF t] by blast
    then show ?thesis using SetReusable fill(1) [OF t, of pts normals] set_reusable_inv [OF assms(1)]
      by (simp add: csm_set_reusable_def cfg Let_def)
  next
    case ClearReusable
    then show ?thesis using assms(1) by (simp add: csm_clear_reusable_def csm_inv_def cache_ok_def)
  next
    case (Match scan guess)
    show ?thesis
    proof (cases scan)
      case (Some sc)
      then show ?thesis using Match pts [of "scan_to_points sc" guess] assms(1) by (auto simp: csm_match_def)
    qed (use Match assms(1) in \<open>simp add: csm_match_def\<close>)
  next
    case (MatchPoints p guess)
    then show ?thesis using pts [of p guess] assms(1) by auto
  next
    case (MatchReusable scan requests)
    show ?thesis
    proof (cases "scan = None \<or> requests = []")
      case True
      then show ?thesis using MatchReusable assms(1) by (auto simp: csm_match_reusable_def split: option.splits)
    next
      case False
      then obtain sc where sc: "scan = Some sc" by auto
      obtain ts m1 where ts: "find_targets (map fst requests) m = (ts, m1)" by (cases "find_targets (map fst requests) m")
      then have m1: "csm_inv cfg m1" "\<forall>k t. Some (k, t) \<in> set ts \<longrightarrow> target_ok t" using find_targets_inv [OF assms(1), of "map fst requests"] by auto
      define F where "F = (\<lambda>(p :: omp) (t, r). case t of None \<Rightarrow> Some (no_match (snd r))
                 | Some (_ :: nat, t) \<Rightarrow> run_match (cm_config m1) (cm_icp m1) t (scan_to_points sc) (snd (r :: int \<times> OdomData)) (omp_search p))"
      have F: "F par e = F par' e \<and> F par e \<noteq> None" if "e \<in> set (zip ts requests)" for e
      proof -
        obtain t r where e: "e = (t, r)" by (cases e)
        then have "t \<in> set ts" using that by (auto dest: set_zip_leftD)
        then show ?thesis using m1 match e by (auto simp: F_def csm_inv_def target_ok_def split: option.splits)
      qed
      have eq: "map (F par) (zip ts requests) = map (F par') (zip ts requests)" using F by (intro map_cong) auto
      have "F par e = Some (the (F par e))" if "e \<in> set (zip ts requests)" for e using F [OF that] by (metis option.collapse)
      then have those: "those (map (F par) (zip ts requests)) = Some (map (\<lambda>e. the (F par e)) (zip ts requests))" by (rule those_map_Some)
      have step: "csm_step p x m = map_option (\<lambda>rs. (Matched rs, m1)) (those (map (F p) (zip ts requests)))" for p
        using MatchReusable sc False ts unfolding F_def by (simp add: csm_match_reusable_def option.map_comp comp_def split_def Let_def cong: option.case_cong)
      show ?thesis unfolding step eq [symmetric] those using m1(1) by simp
    qed
  qed
qed


section \<open>The search window\<close>

lemma raster_bound:
  assumes "v \<in> set (raster n step)" and "0 \<le> step"
  shows "\<bar>v\<bar> \<le> of_int n * step"
proof -
  from assms(1) have "v \<in> (\<lambda>i. of_int i * step) ` {- n..n}" by (simp add: raster_def)
  then obtain i where "v = of_int i * step" "i \<in> {- n..n}" by (rule imageE)
  then have "\<bar>v\<bar> = of_int \<bar>i\<bar> * step" "\<bar>i\<bar> \<le> n" using assms(2) by (auto simp: abs_mult)
  then show ?thesis using assms(2) by (simp add: mult_right_mono)
qed

lemma fit_peak_bound: "0 \<le> step \<Longrightarrow> \<bar>fst (fit_peak step a b c)\<bar> \<le> step"
  by (simp add: fit_peak_def Let_def)

definition search_reach :: "csm_config \<Rightarrow> real" where
  "search_reach cfg = of_int \<lceil>linear_search_window cfg / linear_step cfg\<rceil> * linear_step cfg +
     of_int (fine_steps (linear_step cfg) fine_linear_step) * fine_linear_step + fine_linear_step"

lemma stage2_reach:
  assumes "grid_ok g" and "config_ok cfg" and "search_ok s" and "stage1 cfg g yaw cx cy centered s = Some b1" and "stage2 cfg g yaw cx cy centered s b1 = Some b2"
  shows "\<bar>c_cx b2 - cx\<bar> \<le> search_reach cfg - fine_linear_step" "\<bar>c_cy b2 - cy\<bar> \<le> search_reach cfg - fine_linear_step"
proof -
  let ?n = "of_int \<lceil>linear_search_window cfg / linear_step cfg\<rceil> * linear_step cfg" and ?m = "of_int (fine_steps (linear_step cfg) fine_linear_step) * fine_linear_step"
  have step: "0 \<le> linear_step cfg" "0 \<le> fine_linear_step" "0 \<le> ?m" using assms(2) by (simp_all add: config_ok_def fine_linear_step_def fine_steps_def)
  have b1: "b1 \<in> coarse_set cfg g yaw cx cy centered" "\<not> c_updated b1"
    using stage1_best [OF assms(1-3), of yaw cx cy centered] assms(4) stage1_not_updated [OF assms(1-4)] by (auto simp: best_of_def)
  have c1: "\<bar>c_cx b1 - cx\<bar> \<le> ?n" "\<bar>c_cy b1 - cy\<bar> \<le> ?n"
    using b1(1) raster_bound [OF _ step(1)] by (auto simp: coarse_set_def raster_set_def coarse_at_def Let_def coarse_offsets_def)
  have "b2 = b1 \<or> b2 \<in> fine_set cfg g yaw cx cy centered b1"
    using stage2_best [OF assms(1, 3) b1(2), of cfg yaw cx cy centered] assms(5) by (auto simp: best_of_def split: if_splits)
  then have "\<bar>c_cx b2 - c_cx b1\<bar> \<le> ?m" "\<bar>c_cy b2 - c_cy b1\<bar> \<le> ?m"
    using step(3) raster_bound [OF _ step(2)] by (auto simp: fine_set_def raster_set_def fine_at_def Let_def fine_offsets_def)
  with c1 show "\<bar>c_cx b2 - cx\<bar> \<le> search_reach cfg - fine_linear_step" "\<bar>c_cy b2 - cy\<bar> \<le> search_reach cfg - fine_linear_step"
    by (auto simp: search_reach_def)
qed

lemma stage3_bounds:
  assumes "stage3 g centered cen b = Some ((tx, ty, theta), info)"
  shows "\<bar>tx + (cos theta * fst cen - sin theta * snd cen) - c_cx b\<bar> \<le> fine_linear_step"
    "\<bar>ty + (sin theta * fst cen + cos theta * snd cen) - c_cy b\<bar> \<le> fine_linear_step" "- pi < theta" "theta \<le> pi"
    "\<exists>ix iy it. info = ((ix, 0, 0), (0, iy, 0), (0, 0, it)) \<and> 20 \<le> ix \<and> ix \<le> 1000 \<and> 20 \<le> iy \<and> iy \<le> 1000 \<and> 50 \<le> it \<and> it \<le> 3000"
proof -
  have step: "0 \<le> fine_linear_step" by (simp add: fine_linear_step_def)
  have clamp: "lo \<le> hi \<Longrightarrow> lo \<le> clamp v lo hi \<and> clamp v lo hi \<le> hi" for v lo hi by (simp add: clamp_def)
  from assms obtain sxm sxp sym syp stm stp where e:
    "theta = normalize_angle (c_theta b + fst (fit_peak fine_ang_step_rad stm (c_score b) stp))"
    "tx = c_cx b + fst (fit_peak fine_linear_step sxm (c_score b) sxp) - (cos theta * fst cen - sin theta * snd cen)"
    "ty = c_cy b + fst (fit_peak fine_linear_step sym (c_score b) syp) - (sin theta * fst cen + cos theta * snd cen)"
    "info = csm_information (c_score b) (snd (fit_peak fine_linear_step sxm (c_score b) sxp)) (snd (fit_peak fine_linear_step sym (c_score b) syp))
       (snd (fit_peak fine_ang_step_rad stm (c_score b) stp))"
    by (fastforce simp: stage3_def bind_eq_Some_conv Let_def split_beta)
  show "\<bar>tx + (cos theta * fst cen - sin theta * snd cen) - c_cx b\<bar> \<le> fine_linear_step"
    "\<bar>ty + (sin theta * fst cen + cos theta * snd cen) - c_cy b\<bar> \<le> fine_linear_step"
    using fit_peak_bound [OF step] by (simp_all add: e(2, 3))
  show "- pi < theta" "theta \<le> pi" using normalize_angle_range by (simp_all add: e(1))
  show "\<exists>ix iy it. info = ((ix, 0, 0), (0, iy, 0), (0, 0, it)) \<and> 20 \<le> ix \<and> ix \<le> 1000 \<and> 20 \<le> iy \<and> iy \<le> 1000 \<and> 50 \<le> it \<and> it \<le> 3000"
    unfolding e(4) csm_information_def Let_def using clamp by simp
qed



section \<open>Witnesses\<close>

definition sequential :: omp where
  "sequential = \<lparr>omp_draw = (\<lambda>g n. concat (map (\<lambda>band. map (Pair band) [0..<n]) [0..num_bands g - 1])), omp_search = (\<lambda>n. [[0..<n]])\<rparr>"

definition two_threads :: omp where
  "two_threads = \<lparr>omp_draw = (\<lambda>g n. rev (concat (map (\<lambda>band. map (Pair band) [0..<n]) [0..num_bands g - 1]))),
     omp_search = (\<lambda>n. [filter even [0..<n], filter odd [0..<n]])\<rparr>"

lemma sequential_ok: "omp_ok sequential"
  by (auto simp: omp_ok_def sequential_def draw_schedule_ok_def search_ok_def)

lemma two_threads_ok: "omp_ok two_threads"
  by (auto simp: omp_ok_def two_threads_def draw_schedule_ok_def search_ok_def)

definition default_config :: csm_config where
  "default_config = csm_impl 0.4 15 0.02 0.5 0.03 0.1 True 0.5 1 0.5 0.9"

lemma default_config_ok: "config_ok default_config" "0 < grid_resolution default_config"
  by (auto simp: default_config_def csm_impl_def config_ok_def less_max_iff_disj)


definition one_cell :: csm_target where
  "one_cell = \<lparr>tg_pts = [(0, 0)], tg_normals = [], tg_grid = (new_lgrid 1 1)\<lparr>lg_width := 1, lg_height := 1, lg_cells := [1]\<rparr>\<rparr>"

lemma one_cell_ok: "grid_ok (tg_grid one_cell)" "tg_pts one_cell \<noteq> []" "lg_valid (tg_grid one_cell)"
  by (simp_all add: one_cell_def grid_ok_def lg_valid_def)

theorem csm_finds_best_witness:
  "\<exists>b1 b2. stage1 default_config (tg_grid one_cell) 0 0.5 0.5 [(0, 0)] (omp_search two_threads) = Some b1 \<and>
    best_of (coarse_set default_config (tg_grid one_cell) 0 0.5 0.5 [(0, 0)]) b1 \<and>
    stage2 default_config (tg_grid one_cell) 0 0.5 0.5 [(0, 0)] (omp_search two_threads) b1 = Some b2"
  using csm_finds_best [OF one_cell_ok(1) default_config_ok(1), of "omp_search two_threads" 0 "0.5" "0.5" "[(0, 0)]"] two_threads_ok
  by (auto simp: omp_ok_def)


end
