(* ===== verification/PlanarMatrix.thy ===== *)
theory PlanarMatrix
  imports Geometry
begin

text \<open>
  Two- and three-dimensional linear algebra for the scan matchers: sums, products with vectors, outer products, and
  when a symmetric matrix is positive.  A vector in three dimensions is a triple, as a pose is.
\<close>

type_synonym vec3 = "real \<times> real \<times> real"
type_synonym mat2 = "vec2 \<times> vec2"

section \<open>Operations\<close>

fun v3_dot :: "vec3 \<Rightarrow> vec3 \<Rightarrow> real" where
  "v3_dot (a, b, c) (x, y, z) = a * x + b * y + c * z"

fun v3_add :: "vec3 \<Rightarrow> vec3 \<Rightarrow> vec3" where
  "v3_add (a, b, c) (x, y, z) = (a + x, b + y, c + z)"

fun v3_scale :: "real \<Rightarrow> vec3 \<Rightarrow> vec3" where
  "v3_scale k (x, y, z) = (k * x, k * y, k * z)"

definition v3_neg :: "vec3 \<Rightarrow> vec3" where "v3_neg v = v3_scale (- 1) v"

definition v3_norm :: "vec3 \<Rightarrow> real" where "v3_norm v = sqrt (v3_dot v v)"

fun m3_add :: "mat3 \<Rightarrow> mat3 \<Rightarrow> mat3" where
  "m3_add (r1, r2, r3) (s1, s2, s3) = (v3_add r1 s1, v3_add r2 s2, v3_add r3 s3)"

fun m3_scale :: "real \<Rightarrow> mat3 \<Rightarrow> mat3" where
  "m3_scale k (r1, r2, r3) = (v3_scale k r1, v3_scale k r2, v3_scale k r3)"

fun m3_vec :: "mat3 \<Rightarrow> vec3 \<Rightarrow> vec3" where
  "m3_vec (r1, r2, r3) v = (v3_dot r1 v, v3_dot r2 v, v3_dot r3 v)"

fun outer3 :: "vec3 \<Rightarrow> vec3 \<Rightarrow> mat3" where
  "outer3 (a, b, c) v = (v3_scale a v, v3_scale b v, v3_scale c v)"

definition diagonal3 :: "vec3 \<Rightarrow> mat3" where
  "diagonal3 = (\<lambda>(a, b, c). ((a, 0, 0), (0, b, 0), (0, 0, c)))"

fun v2_dot :: "vec2 \<Rightarrow> vec2 \<Rightarrow> real" where
  "v2_dot (a, b) (x, y) = a * x + b * y"

fun m2_add :: "mat2 \<Rightarrow> mat2 \<Rightarrow> mat2" where
  "m2_add ((a, b), (c, d)) ((e, f), (g, h)) = ((a + e, b + f), (c + g, d + h))"

fun m2_scale :: "real \<Rightarrow> mat2 \<Rightarrow> mat2" where
  "m2_scale k ((a, b), (c, d)) = ((k * a, k * b), (k * c, k * d))"

fun m2_vec :: "mat2 \<Rightarrow> vec2 \<Rightarrow> vec2" where
  "m2_vec (r1, r2) v = (v2_dot r1 v, v2_dot r2 v)"

fun m2_mul :: "mat2 \<Rightarrow> mat2 \<Rightarrow> mat2" where
  "m2_mul ((a, b), (c, d)) ((e, f), (g, h)) = ((a * e + b * g, a * f + b * h), (c * e + d * g, c * f + d * h))"

fun m2_transpose :: "mat2 \<Rightarrow> mat2" where
  "m2_transpose ((a, b), (c, d)) = ((a, c), (b, d))"

fun outer2 :: "vec2 \<Rightarrow> vec2 \<Rightarrow> mat2" where
  "outer2 (a, b) (x, y) = ((a * x, a * y), (b * x, b * y))"

fun m2_det :: "mat2 \<Rightarrow> real" where
  "m2_det ((a, b), (c, d)) = a * d - b * c"

fun m2_inverse :: "mat2 \<Rightarrow> mat2" where
  "m2_inverse ((a, b), (c, d)) =
     (let det = a * d - b * c in ((d / det, - b / det), (- c / det, a / det)))"

section \<open>Positive matrices\<close>

fun sym3 :: "mat3 \<Rightarrow> bool" where
  "sym3 ((_, b, c), (d, _, f), (g, h, _)) \<longleftrightarrow> d = b \<and> g = c \<and> h = f"

fun sym2 :: "mat2 \<Rightarrow> bool" where
  "sym2 ((_, b), (c, _)) \<longleftrightarrow> c = b"

definition quad3 :: "mat3 \<Rightarrow> vec3 \<Rightarrow> real" where "quad3 A v = v3_dot v (m3_vec A v)"

definition quad2 :: "mat2 \<Rightarrow> vec2 \<Rightarrow> real" where "quad2 A v = v2_dot v (m2_vec A v)"

definition psd3 :: "mat3 \<Rightarrow> bool" where
  "psd3 A \<longleftrightarrow> sym3 A \<and> (\<forall>v. 0 \<le> quad3 A v)"

definition posdef3 :: "mat3 \<Rightarrow> bool" where
  "posdef3 A \<longleftrightarrow> sym3 A \<and> (\<forall>v. v \<noteq> (0, 0, 0) \<longrightarrow> 0 < quad3 A v)"

definition posdef2 :: "mat2 \<Rightarrow> bool" where
  "posdef2 A \<longleftrightarrow> sym2 A \<and> (\<forall>v. v \<noteq> (0, 0) \<longrightarrow> 0 < quad2 A v)"

lemma m3_add_assoc: "m3_add (m3_add A B) C = m3_add A (m3_add B C)"
  by (cases A; cases B; cases C) auto

lemma m3_add_commute: "m3_add A B = m3_add B A"
  by (cases A; cases B) auto

lemma v3_add_assoc: "v3_add (v3_add a b) c = v3_add a (v3_add b c)"
  by (cases a; cases b; cases c) auto

lemma v3_add_commute: "v3_add a b = v3_add b a"
  by (cases a; cases b) auto

lemma quad3_add [simp]: "quad3 (m3_add A B) v = quad3 A v + quad3 B v"
  by (cases A; cases B; cases v) (auto simp: quad3_def algebra_simps)

lemma quad3_scale [simp]: "quad3 (m3_scale k A) v = k * quad3 A v"
  by (cases A; cases v) (auto simp: quad3_def algebra_simps)

lemma quad3_outer [simp]: "quad3 (outer3 a a) v = (v3_dot a v)\<^sup>2"
  by (cases a; cases v) (auto simp: quad3_def algebra_simps power2_eq_square)

lemma quad3_diagonal [simp]: "quad3 (diagonal3 (a, b, c)) (x, y, z) = a * x\<^sup>2 + b * y\<^sup>2 + c * z\<^sup>2"
  by (simp add: quad3_def diagonal3_def algebra_simps power2_eq_square)

lemma sym3_add [simp]: "sym3 A \<Longrightarrow> sym3 B \<Longrightarrow> sym3 (m3_add A B)"
  by (cases A rule: sym3.cases; cases B rule: sym3.cases) simp

lemma sym3_scale [simp]: "sym3 A \<Longrightarrow> sym3 (m3_scale k A)"
  by (cases A rule: sym3.cases) simp

lemma sym3_outer [simp]: "sym3 (outer3 a a)"
  by (cases a) simp

lemma sym3_diagonal [simp]: "sym3 (diagonal3 d)"
  by (cases d) (simp add: diagonal3_def)

lemma psd3_add: "psd3 A \<Longrightarrow> psd3 B \<Longrightarrow> psd3 (m3_add A B)"
  by (simp add: psd3_def)

lemma psd3_outer: "0 \<le> w \<Longrightarrow> psd3 (m3_scale w (outer3 a a))"
  by (simp add: psd3_def)

lemma posdef3_damped:
  assumes "psd3 A" and "0 < e"
  shows "posdef3 (m3_add A (diagonal3 (e, e, e)))"
proof -
  have "0 < quad3 (diagonal3 (e, e, e)) v" if "v \<noteq> (0, 0, 0)" for v
  proof (cases v)
    case (fields x y z)
    then have "0 < x\<^sup>2 + y\<^sup>2 + z\<^sup>2" using that by (auto simp: add_pos_nonneg add_nonneg_pos)
    then have "0 < e * (x\<^sup>2 + y\<^sup>2 + z\<^sup>2)" using assms(2) by simp
    then show ?thesis using fields by (simp add: algebra_simps)
  qed
  then show ?thesis using assms(1) by (auto simp: psd3_def posdef3_def add_nonneg_pos)
qed

text \<open>The minimum of a quadratic function is where its gradient vanishes.\<close>

lemma quadratic_expand:
  assumes "sym3 A" and "m3_vec A u = v3_neg b"
  shows "quad3 A d + 2 * v3_dot b d = quad3 A u + 2 * v3_dot b u + quad3 A (v3_add d (v3_neg u))"
proof -
  obtain a11 a12 a13 a21 a22 a23 a31 a32 a33 where A: "A = ((a11, a12, a13), (a21, a22, a23), (a31, a32, a33))" by (cases A) auto
  obtain x y z where d: "d = (x, y, z)" by (cases d)
  obtain p q r where u: "u = (p, q, r)" by (cases u)
  have sym: "a21 = a12" "a31 = a13" "a32 = a23" using assms(1) by (simp_all add: A)
  have b: "b = (- (a11 * p + a12 * q + a13 * r), - (a12 * p + a22 * q + a23 * r), - (a13 * p + a23 * q + a33 * r))"
    using assms(2) unfolding A u sym by (cases b) (simp add: v3_neg_def)
  show ?thesis unfolding A b d u sym by (simp add: quad3_def v3_neg_def algebra_simps)
qed

lemma posdef2_iff:
  "posdef2 ((a, b), (c, d)) \<longleftrightarrow> c = b \<and> 0 < a \<and> b * b < a * d"
proof
  assume pos: "posdef2 ((a, b), (c, d))"
  then have c: "c = b" by (simp add: posdef2_def)
  have q: "0 < quad2 ((a, b), (b, d)) (x, y)" if "(x, y) \<noteq> (0, 0)" for x y
    using pos that unfolding c posdef2_def by blast
  have a: "0 < a" using q [of 1 0] by (simp add: quad2_def)
  have "0 < a * (a * d - b * b)" using q [of "- b" a] a by (simp add: quad2_def algebra_simps)
  then show "c = b \<and> 0 < a \<and> b * b < a * d" using a c by (simp add: zero_less_mult_iff)
next
  assume h: "c = b \<and> 0 < a \<and> b * b < a * d"
  have "0 < quad2 ((a, b), (b, d)) (x, y)" if "(x, y) \<noteq> (0, 0)" for x y
  proof -
    have e: "a * quad2 ((a, b), (b, d)) (x, y) = (a * x + b * y)\<^sup>2 + (a * d - b * b) * y\<^sup>2"
      by (simp add: quad2_def algebra_simps power2_eq_square)
    have "0 < (a * x + b * y)\<^sup>2 + (a * d - b * b) * y\<^sup>2"
    proof (cases "y = 0")
      case True
      then show ?thesis using that h by simp
    next
      case False
      then have "0 < (a * d - b * b) * y\<^sup>2" using h by simp
      then show ?thesis by (simp add: add_nonneg_pos)
    qed
    then show ?thesis using h by (simp add: e [symmetric] zero_less_mult_iff)
  qed
  then show "posdef2 ((a, b), (c, d))" using h by (auto simp: posdef2_def)
qed

lemma posdef2_inverse:
  assumes "posdef2 A"
  shows "posdef2 (m2_inverse A)" and "m2_mul A (m2_inverse A) = ((1, 0), (0, 1))"
proof -
  obtain a b c d where A: "A = ((a, b), (c, d))" by (cases A) auto
  have h: "c = b" "0 < a" "b * b < a * d" using assms by (auto simp: A posdef2_iff)
  have det: "0 < a * d - b * b" using h by simp
  have "0 < a * d" using h(3) by (smt (verit) zero_le_square)
  then have d: "0 < d" using h(2) by (simp add: zero_less_mult_iff)
  have "(b / (a * d - b * b)) * (b / (a * d - b * b)) < (d / (a * d - b * b)) * (a / (a * d - b * b))"
    using h(3) det by (simp add: divide_strict_right_mono mult.commute)
  then show "posdef2 (m2_inverse A)" using d det by (simp add: A h posdef2_iff Let_def)
  have "a * d - b * b \<noteq> 0" using det by simp
  then show "m2_mul A (m2_inverse A) = ((1, 0), (0, 1))" unfolding A h(1)
    by (simp add: Let_def diff_divide_distrib [symmetric] mult.commute)
qed

lemma quad2_nonneg: "posdef2 A \<Longrightarrow> 0 \<le> quad2 A v"
proof (cases "v = (0, 0)")
  case True
  then show ?thesis by (cases A rule: sym2.cases) (simp add: quad2_def)
next
  case False
  assume "posdef2 A"
  then have "0 < quad2 A v" using False unfolding posdef2_def by blast
  then show ?thesis by simp
qed

section \<open>Solving with a positive definite matrix\<close>

text \<open>The \<open>L D L\<^sup>T\<close> decomposition without pivoting.\<close>

fun ldlt3 :: "mat3 \<Rightarrow> vec3 \<Rightarrow> vec3" where
  "ldlt3 ((p, q, r), (_, s, t), (_, _, u)) (b1, b2, b3) =
     (let l21 = q / p; l31 = r / p; d2 = s - l21 * l21 * p; l32 = (t - l31 * l21 * p) / d2; d3 = u - l31 * l31 * p - l32 * l32 * d2;
          z2 = b2 - l21 * b1; z3 = b3 - l31 * b1 - l32 * z2;
          x3 = z3 / d3; x2 = z2 / d2 - l32 * x3; x1 = b1 / p - l21 * x2 - l31 * x3
      in (x1, x2, x3))"

lemma posdef3_quad: "posdef3 A \<Longrightarrow> v \<noteq> (0, 0, 0) \<Longrightarrow> 0 < quad3 A v"
  unfolding posdef3_def by blast

lemma ldlt3_solves:
  assumes "posdef3 A"
  shows "m3_vec A (ldlt3 A b) = b"
proof -
  obtain p q r q' s t r' t' u where A': "A = ((p, q, r), (q', s, t), (r', t', u))" by (cases A) auto
  then have A: "A = ((p, q, r), (q, s, t), (r, t, u))" using assms by (simp add: posdef3_def)
  obtain b1 b2 b3 where b: "b = (b1, b2, b3)" by (cases b)
  define l21 l31 where "l21 = q / p" and "l31 = r / p"
  define d2 where "d2 = s - l21 * l21 * p"
  define l32 where "l32 = (t - l31 * l21 * p) / d2"
  define d3 where "d3 = u - l31 * l31 * p - l32 * l32 * d2"
  have p: "0 < p" using posdef3_quad [OF assms, of "(1, 0, 0)"] by (simp add: A quad3_def)
  then have q: "q = l21 * p" and r: "r = l31 * p" by (simp_all add: l21_def l31_def)
  have s: "s = d2 + l21 * l21 * p" by (simp add: d2_def)
  have d2: "0 < d2" using posdef3_quad [OF assms, of "(- l21, 1, 0)"] by (simp add: A quad3_def q s algebra_simps)
  then have t: "t = l31 * l21 * p + l32 * d2" by (simp add: l32_def)
  have u: "u = d3 + l31 * l31 * p + l32 * l32 * d2" by (simp add: d3_def)
  have d3: "0 < d3" using posdef3_quad [OF assms, of "(l32 * l21 - l31, - l32, 1)"]
    by (simp add: A quad3_def q r s t u algebra_simps)
  define z2 z3 where "z2 = b2 - l21 * b1" and "z3 = b3 - l31 * b1 - l32 * z2"
  define x3 where "x3 = z3 / d3"
  define x2 where "x2 = z2 / d2 - l32 * x3"
  define x1 where "x1 = b1 / p - l21 * x2 - l31 * x3"
  have x: "ldlt3 A b = (x1, x2, x3)"
    by (simp only: A b ldlt3.simps Let_def x1_def x2_def x3_def z3_def z2_def d3_def l32_def d2_def l31_def l21_def)
  have e1: "p * (x1 + l21 * x2 + l31 * x3) = b1" using p by (simp add: x1_def)
  have e2: "d2 * (x2 + l32 * x3) = z2" using d2 by (simp add: x2_def)
  have e3: "d3 * x3 = z3" using d3 by (simp add: x3_def)
  have "p * x1 + q * x2 + r * x3 = b1" using e1 by (simp add: q r algebra_simps)
  moreover have "q * x1 + s * x2 + t * x3 = l21 * (p * (x1 + l21 * x2 + l31 * x3)) + d2 * (x2 + l32 * x3)"
    by (simp add: q s t algebra_simps)
  moreover have "r * x1 + t * x2 + u * x3 = l31 * (p * (x1 + l21 * x2 + l31 * x3)) + l32 * (d2 * (x2 + l32 * x3)) + d3 * x3"
    by (simp add: r t u algebra_simps)
  ultimately have "m3_vec A (x1, x2, x3) = b" unfolding A b e1 e2 e3 by (simp add: z2_def z3_def)
  then show ?thesis by (simp only: x)
qed

section \<open>Eigenvectors of a symmetric matrix\<close>

definition orthogonal2 :: "mat2 \<Rightarrow> bool" where
  "orthogonal2 V \<longleftrightarrow> m2_mul (m2_transpose V) V = ((1, 0), (0, 1)) \<and> m2_mul V (m2_transpose V) = ((1, 0), (0, 1))"

definition is_eigen2 :: "mat2 \<Rightarrow> vec2 \<times> mat2 \<Rightarrow> bool" where
  "is_eigen2 A = (\<lambda>((l0, l1), V). l0 \<le> l1 \<and> orthogonal2 V \<and> m2_mul A V = m2_mul V ((l0, 0), (0, l1)))"

fun eigen_closed_form :: "mat2 \<Rightarrow> vec2 \<times> mat2" where
  "eigen_closed_form ((a, b), (_, d)) =
     (if b = 0 then if a \<le> d then ((a, d), ((1, 0), (0, 1))) else ((d, a), ((0, 1), (1, 0)))
      else
        let m = (a + d) / 2; root = sqrt (((a - d) / 2)\<^sup>2 + b\<^sup>2); l0 = m - root; l1 = m + root; k = l0 - a; n = sqrt (b\<^sup>2 + k\<^sup>2)
        in ((l0, l1), ((b / n, - k / n), (k / n, b / n))))"

lemma eigen_closed_form_ok:
  assumes "sym2 A"
  shows "is_eigen2 A (eigen_closed_form A)"
proof -
  obtain a b d where A: "A = ((a, b), (b, d))" using assms by (cases A rule: sym2.cases) auto
  show ?thesis
  proof (cases "b = 0")
    case True
    then show ?thesis by (simp add: A is_eigen2_def orthogonal2_def)
  next
    case False
    define root where "root = sqrt (((a - d) / 2)\<^sup>2 + b\<^sup>2)"
    define l0 l1 where "l0 = (a + d) / 2 - root" and "l1 = (a + d) / 2 + root"
    define k where "k = l0 - a"
    define n where "n = sqrt (b\<^sup>2 + k\<^sup>2)"
    have e: "eigen_closed_form A = ((l0, l1), ((b / n, - k / n), (k / n, b / n)))"
      using False by (simp add: A Let_def root_def [symmetric] l0_def [symmetric] l1_def [symmetric] k_def [symmetric] n_def [symmetric])
    have sq: "root * root = ((a - d) / 2)\<^sup>2 + b\<^sup>2" by (simp add: root_def)
    have "0 < n" using False by (auto simp: n_def intro: add_pos_nonneg)
    have nn: "n * n = b\<^sup>2 + k\<^sup>2" by (simp add: n_def)
    have unit: "b / n * (b / n) + k / n * (k / n) = 1"
      using \<open>0 < n\<close> False by (simp add: add_divide_distrib [symmetric] nn [unfolded power2_eq_square] add_nonneg_eq_0_iff)
    have k2: "k * k = b * b + k * (d - a)"
      using sq by (simp add: k_def l0_def field_simps power2_eq_square)
    have row: "a * b + b * k = b * l0" "b * b + d * k = k * l0" using k2 by (simp_all add: k_def algebra_simps)
    have row': "a * (- k) + b * b = - k * l1" "b * (- k) + d * b = b * l1"
      using k2 by (simp_all add: k_def l0_def l1_def field_simps)
    have "l0 \<le> l1" by (simp add: l0_def l1_def root_def)
    moreover have "orthogonal2 ((b / n, - k / n), (k / n, b / n))" using unit
      by (simp add: orthogonal2_def algebra_simps)
    moreover have "m2_mul A ((b / n, - k / n), (k / n, b / n)) = m2_mul ((b / n, - k / n), (k / n, b / n)) ((l0, 0), (0, l1))"
      using row row' by (simp add: A add_divide_distrib [symmetric] diff_divide_distrib [symmetric])
    ultimately show ?thesis by (simp add: e is_eigen2_def)
  qed
qed

end
