(* ===== verification/PointSearch.thy ===== *)
theory PointSearch
  imports Geometry "HOL-Library.Multiset"
begin

text \<open>
  The nearest-neighbour search of nanoflann that the point matchers use, as an argument \<open>knn\<close>: the indices and the
  squared distances of the \<open>k\<close> points nearest to a query.  \<open>knn_ok\<close> is its documented behaviour.
\<close>

type_synonym knn_search = "vec2 list \<Rightarrow> vec2 \<Rightarrow> nat \<Rightarrow> (nat \<times> real) list"

definition knn_ok :: "knn_search \<Rightarrow> bool" where
  "knn_ok knn \<longleftrightarrow> (\<forall>pts q k.
     length (knn pts q k) = min k (length pts) \<and> distinct (map fst (knn pts q k)) \<and> sorted (map snd (knn pts q k)) \<and>
     (\<forall>(i, d) \<in> set (knn pts q k). i < length pts \<and> d = dist_sq q (pts ! i) \<and>
        (\<forall>j < length pts. j \<notin> fst ` set (knn pts q k) \<longrightarrow> d \<le> dist_sq q (pts ! j))))"

text \<open>Searching every point meets the contract.\<close>

definition linear_knn :: knn_search where
  "linear_knn pts q k = take k (sort_key snd (map (\<lambda>i. (i, dist_sq q (pts ! i))) [0..<length pts]))"

definition nearest_sq :: "vec2 list \<Rightarrow> vec2 \<Rightarrow> real" where
  "nearest_sq pts q = Min (dist_sq q ` set pts)"

lemma linear_knn_ok: "knn_ok linear_knn"
  unfolding knn_ok_def
proof (intro allI)
  fix pts q k
  define all where "all = sort_key snd (map (\<lambda>i. (i, dist_sq q (pts ! i))) [0..<length pts])"
  have r: "linear_knn pts q k = take k all" by (simp add: linear_knn_def all_def)
  have mem: "set all = {(i, dist_sq q (pts ! i)) | i. i < length pts}" by (auto simp: all_def)
  have len: "length all = length pts" by (simp add: all_def)
  have "mset (map fst all) = mset [0..<length pts]" by (simp add: all_def multiset.map_comp comp_def)
  then have dist: "distinct (map fst all)" by (metis distinct_upt mset_eq_imp_distinct_iff)
  have srt: "sorted (map snd all)" by (simp add: all_def)
  have far: "d \<le> dist_sq q (pts ! j)"
    if "(i, d) \<in> set (take k all)" "j < length pts" "j \<notin> fst ` set (take k all)" for i d j
  proof -
    have "(j, dist_sq q (pts ! j)) \<in> set all" using that(2) mem by auto
    moreover have "(j, dist_sq q (pts ! j)) \<notin> set (take k all)" using that(3) by force
    ultimately have "(j, dist_sq q (pts ! j)) \<in> set (drop k all)"
      by (metis append_take_drop_id Un_iff set_append)
    then have "dist_sq q (pts ! j) \<in> set (map snd (drop k all))" by force
    moreover have "d \<in> set (map snd (take k all))" using that(1) by force
    moreover have "sorted (map snd (take k all) @ map snd (drop k all))"
      using srt by (simp add: map_append [symmetric] del: map_append)
    ultimately show ?thesis unfolding sorted_append by blast
  qed
  have "sorted (map snd (take k all))" using srt by (simp add: take_map [symmetric] sorted_wrt_take)
  moreover have "distinct (map fst (take k all))" using dist by (simp add: take_map [symmetric])
  ultimately show "length (linear_knn pts q k) = min k (length pts) \<and> distinct (map fst (linear_knn pts q k)) \<and>
     sorted (map snd (linear_knn pts q k)) \<and>
     (\<forall>(i, d) \<in> set (linear_knn pts q k). i < length pts \<and> d = dist_sq q (pts ! i) \<and>
        (\<forall>j < length pts. j \<notin> fst ` set (linear_knn pts q k) \<longrightarrow> d \<le> dist_sq q (pts ! j)))"
    unfolding r using len mem far by (fastforce dest: in_set_takeD)
qed

lemma knn_one:
  assumes "knn_ok knn" and "pts \<noteq> []"
  obtains i where "knn pts q 1 = [(i, nearest_sq pts q)]" and "i < length pts" and "nearest_sq pts q = dist_sq q (pts ! i)"
proof -
  have ok: "length (knn pts q 1) = 1"
    "\<forall>(i, d) \<in> set (knn pts q 1). i < length pts \<and> d = dist_sq q (pts ! i) \<and>
       (\<forall>j < length pts. j \<notin> fst ` set (knn pts q 1) \<longrightarrow> d \<le> dist_sq q (pts ! j))"
    using assms spec [OF spec [OF spec [OF assms(1) [unfolded knn_ok_def], of pts], of q], of 1]
    by (auto simp: Suc_le_eq min_def)
  then obtain i d where res: "knn pts q 1 = [(i, d)]" by (auto simp: length_Suc_conv)
  have i: "i < length pts" and d: "d = dist_sq q (pts ! i)" and far: "\<forall>j < length pts. j \<noteq> i \<longrightarrow> d \<le> dist_sq q (pts ! j)"
    using ok(2) unfolding res by auto
  have "Min (dist_sq q ` set pts) = d"
  proof (rule Min_eqI)
    fix y assume "y \<in> dist_sq q ` set pts"
    then obtain j where "j < length pts" "y = dist_sq q (pts ! j)" by (auto simp: in_set_conv_nth)
    then show "d \<le> y" using far d by (cases "j = i") auto
  qed (use i d in auto)
  then show thesis using that [of i] res i d by (simp add: nearest_sq_def)
qed

lemma knn_none: "knn_ok knn \<Longrightarrow> knn [] q k = []"
  using spec [of _ "[]"] unfolding knn_ok_def by (metis length_0_conv list.size(3) min_0R)

lemma knn_length: "knn_ok knn \<Longrightarrow> length (knn pts q k) = min k (length pts)"
  unfolding knn_ok_def by blast

lemma knn_index: "knn_ok knn \<Longrightarrow> (i, d) \<in> set (knn pts q k) \<Longrightarrow> i < length pts"
  unfolding knn_ok_def by blast

text \<open>A scan of ten beams, for examples.\<close>

definition wall_scan :: ScanData where
  "wall_scan = \<lparr>scan_stamp = 0, ranges = replicate 10 (Fin 1), angle_min = 0, angle_increment = 0.1, range_min = 0.1, range_max = 5,
     lidar_x = 0, lidar_y = 0, lidar_yaw = 0, scan_duration = 0, angles = []\<rparr>"

definition origin_guess :: OdomData where
  "origin_guess = \<lparr>o_stamp = 0, o_x = 0, o_y = 0, o_yaw = 0\<rparr>"

lemma wall_scan_length: "length (valid_beams wall_scan) = 10"
  by (simp add: valid_beams_def beam_valid_def wall_scan_def upt_conv_Cons f_le_def)

end
