(* ===== verification/IcpMatcher.thy ===== *)
theory IcpMatcher
  imports PlanarMatrix PointSearch MultiResCsm
begin

text \<open>
  \<^verbatim>\<open>scan_matching/icp_matcher.cpp\<close>: point-to-line ICP.  In every iteration each scan point is paired with the nearest target
  point; the pairs give normal equations, to which a prior of the motion and a small damping are added; the solution
  moves the pose.  The points are shared out to threads that keep their own sums, which are then added.

  Arguments (\<open>icp_env\<close>): nanoflann's search, Eigen's LDLT solver and its solver for symmetric eigenproblems, and how OpenMP
  shares \<open>n\<close> points out to threads.  An index outside its vector is \<open>None\<close>.
\<close>

section \<open>The matcher\<close>

record icp_env =
  icp_knn :: knn_search
  ldlt_solve :: "mat3 \<Rightarrow> vec3 \<Rightarrow> vec3"
  sym_eigen :: "mat2 \<Rightarrow> (vec2 \<times> mat2) option"
  icp_threads :: "nat \<Rightarrow> nat list list"

record icp_matcher =
  max_iterations :: int
  tolerance_trans :: real
  tolerance_rot :: real
  max_correspondence_dist :: real
  robust_kernel :: string
  robust_kernel_scale :: real
  icp_yaw_multiplier :: real
  motion_prior_weight_x :: real
  motion_prior_weight_y :: real
  motion_prior_weight_yaw :: real
  icp_src_pts :: "vec2 list"
  icp_src_normals :: "vec2 list"
  icp_tree :: bool

definition ICPMatcher ::
  "int \<Rightarrow> real \<Rightarrow> real \<Rightarrow> string \<Rightarrow> real \<Rightarrow> real \<Rightarrow> real \<Rightarrow> real \<Rightarrow> real \<Rightarrow> real \<Rightarrow> real \<Rightarrow> icp_matcher" where
  "ICPMatcher iterations tolerance max_dist kernel_name kernel_scale yaw_multiplier prior_x prior_y prior_yaw tol_trans tol_rot =
     \<lparr>max_iterations = iterations, tolerance_trans = (if 0 < tol_trans then tol_trans else tolerance),
      tolerance_rot = (if 0 < tol_rot then tol_rot else tolerance), max_correspondence_dist = max_dist, robust_kernel = kernel_name,
      robust_kernel_scale = kernel_scale, icp_yaw_multiplier = yaw_multiplier, motion_prior_weight_x = prior_x,
      motion_prior_weight_y = prior_y, motion_prior_weight_yaw = prior_yaw, icp_src_pts = [], icp_src_normals = [], icp_tree = False\<rparr>"

definition icp_kMinCorrespondences :: nat where "icp_kMinCorrespondences = 10"
definition kNormalNeighbors :: nat where "kNormalNeighbors = 5"

definition apply_transform :: "vec2 list \<Rightarrow> real \<Rightarrow> real \<Rightarrow> real \<Rightarrow> vec2 list" where
  "apply_transform pts tx ty theta = map (\<lambda>(x, y). (cos theta * x - sin theta * y + tx, sin theta * x + cos theta * y + ty)) pts"

section \<open>Normals of the target\<close>

definition v2_normalized :: "vec2 \<Rightarrow> vec2" where
  "v2_normalized v = (let n = v2_dot v v in if 0 < n then (fst v / sqrt n, snd v / sqrt n) else v)"

definition neighbour_indices :: "knn_search \<Rightarrow> vec2 list \<Rightarrow> nat \<Rightarrow> vec2 \<Rightarrow> nat list" where
  "neighbour_indices knn pts k q = (let found = knn pts q k in map fst found @ replicate (k - length found) 0)"

definition sample_mean :: "vec2 list \<Rightarrow> vec2" where
  "sample_mean nb = (sum_list (map fst nb) / real (length nb), sum_list (map snd nb) / real (length nb))"

definition scatter :: "vec2 list \<Rightarrow> vec2 \<Rightarrow> mat2" where
  "scatter nb mean = fold (\<lambda>p. m2_add (outer2 (vsub p mean) (vsub p mean))) nb ((0, 0), (0, 0))"

definition estimate_normal :: "icp_env \<Rightarrow> vec2 list \<Rightarrow> nat \<Rightarrow> vec2 \<Rightarrow> vec2 option" where
  "estimate_normal env pts k q =
     (let indices = neighbour_indices (icp_knn env) pts k q
      in if \<forall>j \<in> set indices. j < length pts
         then
           let nb = map (\<lambda>j. pts ! j) indices; cov = m2_scale (1 / real (max (k - 1) 1)) (scatter nb (sample_mean nb))
           in Some (case sym_eigen env cov of
                Some (_, ((v00, _), (v10, _))) \<Rightarrow> v2_normalized (v00, v10)
              | None \<Rightarrow> (0, 1))
         else None)"

definition estimate_all_normals :: "icp_env \<Rightarrow> vec2 list \<Rightarrow> nat \<Rightarrow> vec2 list option" where
  "estimate_all_normals env pts k = those (map (estimate_normal env pts k) pts)"

definition icp_set_target_cloud :: "icp_env \<Rightarrow> vec2 list \<Rightarrow> icp_matcher \<Rightarrow> icp_matcher option" where
  "icp_set_target_cloud env src_pts m =
     (if kNormalNeighbors \<le> length src_pts
      then map_option (\<lambda>normals. m\<lparr>icp_src_pts := src_pts, icp_src_normals := normals, icp_tree := True\<rparr>)
             (estimate_all_normals env src_pts kNormalNeighbors)
      else Some (m\<lparr>icp_src_pts := src_pts, icp_src_normals := [], icp_tree := False\<rparr>))"

definition icp_set_target_cloud_with_normals :: "icp_env \<Rightarrow> vec2 list \<Rightarrow> vec2 list \<Rightarrow> icp_matcher \<Rightarrow> icp_matcher option" where
  "icp_set_target_cloud_with_normals env src_pts src_normals m =
     (if kNormalNeighbors \<le> length src_pts \<and> length src_pts = length src_normals
      then Some (m\<lparr>icp_src_pts := src_pts, icp_src_normals := src_normals, icp_tree := True\<rparr>)
      else icp_set_target_cloud env src_pts m)"

section \<open>One iteration\<close>

text \<open>The pair of a moved point: the nearest target point, if it is close, and its normal.\<close>

definition icp_pair :: "icp_env \<Rightarrow> icp_matcher \<Rightarrow> vec2 \<Rightarrow> (vec2 \<times> vec2) option option" where
  "icp_pair env m p =
     (case icp_knn env (icp_src_pts m) p 1 of
        [] \<Rightarrow> Some None
      | (ret_idx, out_dist_sq) # _ \<Rightarrow>
          if out_dist_sq < max_correspondence_dist m * max_correspondence_dist m
          then if ret_idx < length (icp_src_pts m) \<and> ret_idx < length (icp_src_normals m)
               then Some (Some (icp_src_pts m ! ret_idx, icp_src_normals m ! ret_idx)) else None
          else Some None)"

definition icp_residual :: "vec2 \<Rightarrow> vec2 \<times> vec2 \<Rightarrow> real" where
  "icp_residual p = (\<lambda>(q, n). fst n * (fst p - fst q) + snd n * (snd p - snd q))"

definition icp_jacobian :: "real \<Rightarrow> real \<Rightarrow> vec2 \<Rightarrow> vec2 \<times> vec2 \<Rightarrow> vec3" where
  "icp_jacobian tx ty p = (\<lambda>(q, n).
     let rpx = fst p - tx; rpy = snd p - ty in (fst n, snd n, - fst n * rpy + snd n * rpx))"

definition kernel_weight :: "icp_matcher \<Rightarrow> real \<Rightarrow> real" where
  "kernel_weight m r =
     (if robust_kernel m = ''huber'' then if robust_kernel_scale m < \<bar>r\<bar> then robust_kernel_scale m / \<bar>r\<bar> else 1
      else if robust_kernel m = ''cauchy'' then let s = r / robust_kernel_scale m in 1 / (1 + s * s)
      else 1)"

text \<open>The sums a thread keeps: \<^verbatim>\<open>H_local\<close>, \<^verbatim>\<open>b_local\<close>, \<^verbatim>\<open>count_local\<close>.\<close>

type_synonym normal_sums = "mat3 \<times> vec3 \<times> nat"

definition zero_sums :: normal_sums where "zero_sums = (zero_mat3, (0, 0, 0), 0)"

definition add_sums :: "normal_sums \<Rightarrow> normal_sums \<Rightarrow> normal_sums" where
  "add_sums = (\<lambda>(H, b, c) (H', b', c'). (m3_add H' H, v3_add b' b, c' + c))"

definition icp_term :: "icp_matcher \<Rightarrow> real \<Rightarrow> real \<Rightarrow> vec2 \<Rightarrow> (vec2 \<times> vec2) option \<Rightarrow> normal_sums" where
  "icp_term m tx ty p pair =
     (case pair of
        None \<Rightarrow> zero_sums
      | Some qn \<Rightarrow>
          let J = icp_jacobian tx ty p qn; r = icp_residual p qn; w = kernel_weight m r
          in (outer3 (v3_scale w J) J, v3_scale r (v3_scale w J), 1))"

definition thread_sums :: "(nat \<Rightarrow> normal_sums) \<Rightarrow> nat list list \<Rightarrow> normal_sums" where
  "thread_sums contrib threads =
     fold add_sums (map (\<lambda>is. fold add_sums (map contrib is) zero_sums) threads) zero_sums"

definition icp_linearise :: "icp_env \<Rightarrow> icp_matcher \<Rightarrow> vec2 list \<Rightarrow> real \<Rightarrow> real \<Rightarrow> normal_sums option" where
  "icp_linearise env m p_trans tx ty =
     map_option (\<lambda>pairs. thread_sums (\<lambda>i. icp_term m tx ty (p_trans ! i) (pairs ! i)) (icp_threads env (length p_trans)))
       (those (map (icp_pair env m) p_trans))"

definition W_motion :: "icp_matcher \<Rightarrow> mat3" where
  "W_motion m = diagonal3 (motion_prior_weight_x m, motion_prior_weight_y m, motion_prior_weight_yaw m)"

definition err_motion :: "OdomData \<Rightarrow> pose \<Rightarrow> vec3" where
  "err_motion guess = (\<lambda>(tx, ty, theta). (tx - o_x guess, ty - o_y guess, angle_diff theta (o_yaw guess)))"

definition icp_delta :: "icp_env \<Rightarrow> icp_matcher \<Rightarrow> OdomData \<Rightarrow> pose \<Rightarrow> mat3 \<Rightarrow> vec3 \<Rightarrow> vec3" where
  "icp_delta env m guess pose H b =
     (let H_reg = m3_add (m3_add H (W_motion m)) (diagonal3 (1 / 10 ^ 4, 1 / 10 ^ 4, 1 / 10 ^ 4));
          b_reg = v3_add b (m3_vec (W_motion m) (err_motion guess pose))
      in ldlt_solve env H_reg (v3_neg b_reg))"

datatype icp_outcome =
  TooFew pose
| Iterated bool pose mat3 nat

fun icp_iterate :: "icp_env \<Rightarrow> icp_matcher \<Rightarrow> vec2 list \<Rightarrow> OdomData \<Rightarrow> nat \<Rightarrow> pose \<Rightarrow> mat3 \<Rightarrow> nat \<Rightarrow> icp_outcome option" where
  "icp_iterate env m dst_pts guess 0 pose H valid_count = Some (Iterated False pose H valid_count)"
| "icp_iterate env m dst_pts guess (Suc k) (tx, ty, theta) H valid_count = do {
     (H, b, valid_count) \<leftarrow> icp_linearise env m (apply_transform dst_pts tx ty theta) tx ty;
     if valid_count < icp_kMinCorrespondences then Some (TooFew (tx, ty, theta))
     else
       let (dx, dy, dyaw) = icp_delta env m guess (tx, ty, theta) H b; pose = (tx + dx, ty + dy, theta + dyaw)
       in if hypot dx dy < tolerance_trans m \<and> \<bar>dyaw\<bar> < tolerance_rot m then Some (Iterated True pose H valid_count)
          else icp_iterate env m dst_pts guess k pose H valid_count
   }"

section \<open>Information and score\<close>

fun m3_trans_block :: "mat3 \<Rightarrow> mat2" where
  "m3_trans_block ((a, b, _), (c, d, _), _) = ((a, b), (c, d))"

fun m3_rot :: "mat3 \<Rightarrow> real" where
  "m3_rot (_, _, (_, _, r)) = r"

definition clamp_trans :: "icp_env \<Rightarrow> mat2 \<Rightarrow> mat2" where
  "clamp_trans env A =
     (case sym_eigen env A of
        Some ((l0, l1), V) \<Rightarrow>
          m2_mul (m2_mul V ((clamp l0 20 1000, 0), (0, clamp l1 20 1000))) (m2_transpose V)
      | None \<Rightarrow> (case A of ((a, b), (c, d)) \<Rightarrow> ((clamp a 20 1000, b), (c, clamp d 20 1000))))"

definition icp_information :: "icp_env \<Rightarrow> icp_matcher \<Rightarrow> mat3 \<Rightarrow> nat \<Rightarrow> mat3" where
  "icp_information env m H valid_count =
     (if 0 < valid_count then
        let norm_H = m3_scale 400 (m3_scale (1 / real valid_count) H);
            ((a, b), (c, d)) = clamp_trans env (m3_trans_block norm_H);
            rot_info = clamp (m3_rot norm_H) 20 5000 * icp_yaw_multiplier m
        in ((a, b, 0), (c, d, 0), (0, 0, rot_info))
      else zero_mat3)"

definition kernel_cost :: "icp_matcher \<Rightarrow> real \<Rightarrow> real" where
  "kernel_cost m r =
     (if robust_kernel m = ''huber'' then
        if \<bar>r\<bar> \<le> robust_kernel_scale m then 0.5 * r * r else robust_kernel_scale m * (\<bar>r\<bar> - 0.5 * robust_kernel_scale m)
      else if robust_kernel m = ''cauchy'' then
        let s = r / robust_kernel_scale m in 0.5 * robust_kernel_scale m * robust_kernel_scale m * ln (1 + s * s)
      else \<bar>r\<bar>)"

definition c_max :: "icp_matcher \<Rightarrow> real" where
  "c_max m = (if robust_kernel m = ''huber'' then robust_kernel_scale m * (max_correspondence_dist m - 0.5 * robust_kernel_scale m)
     else max_correspondence_dist m)"

definition cost_term :: "icp_matcher \<Rightarrow> vec2 \<Rightarrow> (vec2 \<times> vec2) option \<Rightarrow> real \<times> nat" where
  "cost_term m p pair = (case pair of None \<Rightarrow> (0, 0) | Some qn \<Rightarrow> (kernel_cost m (icp_residual p qn), 1))"

definition add_cost :: "real \<times> nat \<Rightarrow> real \<times> nat \<Rightarrow> real \<times> nat" where
  "add_cost = (\<lambda>(c, n) (c', n'). (c' + c, n' + n))"

definition icp_score :: "icp_env \<Rightarrow> icp_matcher \<Rightarrow> vec2 list \<Rightarrow> pose \<Rightarrow> real option" where
  "icp_score env m dst_pts = (\<lambda>(tx, ty, theta).
     let p_final = apply_transform dst_pts tx ty theta
     in map_option (\<lambda>pairs.
          let contrib = (\<lambda>i. cost_term m (p_final ! i) (pairs ! i));
              (cost_sum, valid_f) = fold add_cost (map (\<lambda>is. fold add_cost (map contrib is) (0, 0)) (icp_threads env (length p_final))) (0, 0);
              n_total = length dst_pts
          in if icp_kMinCorrespondences \<le> valid_f \<and> 0 < n_total
             then (cost_sum + real_of_int (int n_total - int valid_f) * c_max m) / real n_total else c_max m)
        (those (map (icp_pair env m) p_final)))"

definition icp_match_points :: "icp_env \<Rightarrow> vec2 list \<Rightarrow> OdomData \<Rightarrow> icp_matcher \<Rightarrow> MatchResult option" where
  "icp_match_points env dst_pts guess m =
     (if icp_src_pts m = [] \<or> \<not> icp_tree m \<or> icp_src_normals m = [] then Some (no_match guess)
      else if length dst_pts < icp_kMinCorrespondences then Some (no_match guess)
      else do {
        outcome \<leftarrow> icp_iterate env m dst_pts guess (nat (max_iterations m)) (o_x guess, o_y guess, o_yaw guess) zero_mat3 0;
        case outcome of
          TooFew (tx, ty, theta) \<Rightarrow>
            Some \<lparr>m_dx = tx, m_dy = ty, m_dyaw = theta, m_converged = False, m_information = zero_mat3, m_score = 0\<rparr>
        | Iterated converged (tx, ty, theta) H valid_count \<Rightarrow> do {
            score \<leftarrow> (if converged then icp_score env m dst_pts (tx, ty, theta) else Some 0);
            Some \<lparr>m_dx = tx, m_dy = ty, m_dyaw = theta, m_converged = converged, m_information = icp_information env m H valid_count, m_score = score\<rparr>
          }
      })"

definition icp_match :: "icp_env \<Rightarrow> ScanData option \<Rightarrow> OdomData \<Rightarrow> icp_matcher \<Rightarrow> MatchResult option" where
  "icp_match env dst guess m =
     (case dst of None \<Rightarrow> Some (no_match guess) | Some scan \<Rightarrow> icp_match_points env (scan_to_points scan) guess m)"

end
