(* ===== verification/NdtMatcher.thy ===== *)
theory NdtMatcher
  imports IcpMatcher "HOL-Library.AList"
begin

text \<open>
  \<^verbatim>\<open>scan_matching/ndt_matcher.cpp\<close>: the normal distributions transform.  For each cell size the target points are sorted into
  square cells, each with its mean and inverse covariance; a scan is moved by Newton steps, from the coarsest level to the
  finest.  Cells are found by a 64-bit key made of two 32-bit indices and
  kept as association lists; an index that does not fit 32 bits is \<open>None\<close>.  Eigen's
  LDLT solver is an argument.
\<close>

unbundle bit_operations_syntax

section \<open>The target\<close>

definition ndt_kMinCorrespondences :: nat where "ndt_kMinCorrespondences = 5"
definition kExponentCutoff :: real where "kExponentCutoff = - 3"

definition encode_cell_key :: "32 word \<Rightarrow> 32 word \<Rightarrow> 64 word" where
  "encode_cell_key cx cy = push_bit 32 (scast cx) OR (ucast cy AND 0xFFFFFFFF)"

record NdtCell =
  cell_mean :: vec2
  sigma_inv :: mat2

record PyramidLevel =
  cell_size :: real
  cells :: "(64 word \<times> NdtCell) list"

record ndt_matcher =
  ndt_max_iterations :: int
  ndt_tolerance :: real
  cell_sizes :: "real list"
  use_bilinear :: bool
  ndt_yaw_multiplier :: real
  ndt_src_pts :: "vec2 list"
  pyramids :: "PyramidLevel list"

definition NDTMatcher :: "int \<Rightarrow> real \<Rightarrow> real list \<Rightarrow> bool \<Rightarrow> real \<Rightarrow> ndt_matcher" where
  "NDTMatcher iterations tolerance sizes bilinear yaw_multiplier =
     \<lparr>ndt_max_iterations = iterations, ndt_tolerance = tolerance, cell_sizes = rev (sort sizes), use_bilinear = bilinear,
      ndt_yaw_multiplier = yaw_multiplier, ndt_src_pts = [], pyramids = []\<rparr>"

definition ndt_index :: "real \<Rightarrow> real \<Rightarrow> int option" where
  "ndt_index cs v = (if cs = 0 then None else to_int32 (of_int \<lfloor>v * (1 / cs)\<rfloor>))"

definition cell_key :: "real \<Rightarrow> vec2 \<Rightarrow> 64 word option" where
  "cell_key cs p = do {
     cx \<leftarrow> ndt_index cs (fst p);
     cy \<leftarrow> ndt_index cs (snd p);
     Some (encode_cell_key (word_of_int cx) (word_of_int cy))
   }"

definition add_to_cell :: "real \<Rightarrow> vec2 \<Rightarrow> (64 word \<times> vec2 list) list \<Rightarrow> (64 word \<times> vec2 list) list option" where
  "add_to_cell cs p cell_points =
     map_option (\<lambda>key. AList.update key ((case map_of cell_points key of None \<Rightarrow> [] | Some ps \<Rightarrow> ps) @ [p]) cell_points) (cell_key cs p)"

definition ndt_cov :: "vec2 list \<Rightarrow> mat2" where
  "ndt_cov pts = m2_add (m2_scale (1 / real (length pts - 1)) (scatter pts (sample_mean pts))) ((1 / 10 ^ 3, 0), (0, 1 / 10 ^ 3))"

definition ndt_cell :: "vec2 list \<Rightarrow> NdtCell" where
  "ndt_cell pts = \<lparr>cell_mean = sample_mean pts, sigma_inv = m2_inverse (ndt_cov pts)\<rparr>"

definition ndt_level :: "vec2 list \<Rightarrow> real \<Rightarrow> PyramidLevel option" where
  "ndt_level src_pts cs =
     map_option (\<lambda>cell_points. \<lparr>cell_size = cs,
         cells = map (\<lambda>(key, pts). (key, ndt_cell pts)) (filter (\<lambda>(key, pts). \<not> length pts < 3) cell_points)\<rparr>)
       (fold_opt (add_to_cell cs) src_pts [])"

definition ndt_set_target_cloud :: "vec2 list \<Rightarrow> ndt_matcher \<Rightarrow> ndt_matcher option" where
  "ndt_set_target_cloud src_pts m =
     map_option (\<lambda>levels. m\<lparr>ndt_src_pts := src_pts, pyramids := levels\<rparr>) (those (map (ndt_level src_pts) (cell_sizes m)))"

section \<open>Matching on one level\<close>

definition ndt_move :: "real \<times> real \<times> real \<Rightarrow> vec2 \<Rightarrow> vec2" where
  "ndt_move = (\<lambda>(tx, ty, theta) p.
     (cos theta * fst p - sin theta * snd p + tx, sin theta * fst p + cos theta * snd p + ty))"

text \<open>The cell of a moved point and the exponent of its likelihood there, if it is not cut off.\<close>

definition ndt_lookup :: "PyramidLevel \<Rightarrow> pose \<Rightarrow> vec2 \<Rightarrow> (NdtCell \<times> vec2 \<times> real) option option" where
  "ndt_lookup level pose p_orig =
     map_option (\<lambda>key. case map_of (cells level) key of
         None \<Rightarrow> None
       | Some cell \<Rightarrow>
           let d = vsub (ndt_move pose p_orig) (cell_mean cell); exponent = - 0.5 * v2_dot d (m2_vec (sigma_inv cell) d)
           in if exponent < kExponentCutoff then None else Some (cell, d, exponent))
       (cell_key (cell_size level) (ndt_move pose p_orig))"

definition dp_dtheta :: "real \<Rightarrow> vec2 \<Rightarrow> vec2" where
  "dp_dtheta theta p = (- sin theta * fst p - cos theta * snd p, cos theta * fst p - sin theta * snd p)"

text \<open>\<open>J\<^sup>T v\<close> and \<open>J\<^sup>T S J\<close> for the Jacobian \<open>J = (1 0 w\<^sub>x; 0 1 w\<^sub>y)\<close>.\<close>

fun jt_vec :: "vec2 \<Rightarrow> vec2 \<Rightarrow> vec3" where
  "jt_vec (wx, wy) (vx, vy) = (vx, vy, wx * vx + wy * vy)"

fun jt_mat_j :: "vec2 \<Rightarrow> mat2 \<Rightarrow> mat3" where
  "jt_mat_j (wx, wy) ((p, q), (r, s)) =
     ((p, q, p * wx + q * wy), (r, s, r * wx + s * wy),
      (wx * p + wy * r, wx * q + wy * s, wx * (p * wx + q * wy) + wy * (r * wx + s * wy)))"

type_synonym ndt_sums = "vec3 \<times> mat3 \<times> nat"

definition ndt_term :: "pose \<Rightarrow> vec2 \<Rightarrow> (NdtCell \<times> vec2 \<times> real) option \<Rightarrow> ndt_sums \<Rightarrow> ndt_sums" where
  "ndt_term pose p_orig found = (\<lambda>(g, H, n_valid).
     case found of
       None \<Rightarrow> (g, H, n_valid)
     | Some (cell, d, exponent) \<Rightarrow>
         let exp_val = exp exponent; w = dp_dtheta (snd (snd pose)) p_orig; sigma_d = m2_vec (sigma_inv cell) d
         in (v3_add g (v3_scale exp_val (jt_vec w sigma_d)), m3_add H (m3_scale exp_val (jt_mat_j w (sigma_inv cell))), n_valid + 1))"

definition ndt_linearise :: "PyramidLevel \<Rightarrow> vec2 list \<Rightarrow> pose \<Rightarrow> ndt_sums option" where
  "ndt_linearise level dst_pts pose =
     fold_opt (\<lambda>p_orig acc. map_option (\<lambda>found. ndt_term pose p_orig found acc) (ndt_lookup level pose p_orig))
       dst_pts ((0, 0, 0), zero_mat3, 0)"

type_synonym ldlt = "mat3 \<Rightarrow> vec3 \<Rightarrow> vec3"

definition ndt_delta :: "ldlt \<Rightarrow> mat3 \<Rightarrow> vec3 \<Rightarrow> vec3" where
  "ndt_delta ldlt H g = ldlt (m3_add H (diagonal3 (1 / 10 ^ 6, 1 / 10 ^ 6, 1 / 10 ^ 6))) (v3_neg g)"

fun ndt_iterate :: "ldlt \<Rightarrow> real \<Rightarrow> PyramidLevel \<Rightarrow> vec2 list \<Rightarrow> nat \<Rightarrow> pose \<Rightarrow> mat3 \<Rightarrow> nat \<Rightarrow> (bool \<times> pose \<times> mat3 \<times> nat) option" where
  "ndt_iterate ldlt tol level dst_pts 0 pose H_final n_final = Some (False, pose, H_final, n_final)"
| "ndt_iterate ldlt tol level dst_pts (Suc k) pose H_final n_final = do {
     (g, H, n_valid) \<leftarrow> ndt_linearise level dst_pts pose;
     if n_valid < ndt_kMinCorrespondences then Some (False, pose, H_final, n_final)
     else
       let delta = ndt_delta ldlt H g; pose = v3_add pose delta
       in if v3_norm delta < tol then Some (True, pose, H, n_valid)
          else ndt_iterate ldlt tol level dst_pts k pose H n_valid
   }"

definition ndt_information :: "real \<Rightarrow> mat3 \<Rightarrow> nat \<Rightarrow> mat3" where
  "ndt_information yaw_multiplier H_final n_final =
     (if 0 < n_final then
        let ((a, b, c), (d, e, f), (g, h, i)) = m3_add (m3_scale 400 (m3_scale (1 / real n_final) H_final)) (diagonal3 (1 / 10 ^ 4, 1 / 10 ^ 4, 1 / 10 ^ 4))
        in ((clamp a (- 1000) 1000, clamp b (- 1000) 1000, c), (clamp d (- 1000) 1000, clamp e (- 1000) 1000, f),
            (g, h, clamp i 0 5000 * yaw_multiplier))
      else zero_mat3)"

definition ndt_cost :: "(NdtCell \<times> vec2 \<times> real) option \<Rightarrow> real \<times> nat \<Rightarrow> real \<times> nat" where
  "ndt_cost found = (\<lambda>(score_sum, score_count).
     case found of None \<Rightarrow> (score_sum, score_count) | Some (_, _, exp_f) \<Rightarrow> (score_sum + - exp_f, score_count + 1))"

definition ndt_score :: "PyramidLevel \<Rightarrow> vec2 list \<Rightarrow> pose \<Rightarrow> real option" where
  "ndt_score level dst_pts pose =
     map_option (\<lambda>(score_sum, score_count).
         let c_max = - kExponentCutoff; n_total = length dst_pts
         in if ndt_kMinCorrespondences \<le> score_count \<and> 0 < n_total
            then (score_sum + real_of_int (int n_total - int score_count) * c_max) / real n_total else c_max)
       (fold_opt (\<lambda>p_orig acc. map_option (\<lambda>found. ndt_cost found acc) (ndt_lookup level pose p_orig)) dst_pts (0, 0))"

definition match_single_resolution :: "ldlt \<Rightarrow> ndt_matcher \<Rightarrow> vec2 list \<Rightarrow> pose \<Rightarrow> PyramidLevel \<Rightarrow> MatchResult option" where
  "match_single_resolution ldlt m dst_pts init level =
     (if cells level = [] \<or> length dst_pts < ndt_kMinCorrespondences
      then Some \<lparr>m_dx = fst init, m_dy = fst (snd init), m_dyaw = snd (snd init), m_converged = False, m_information = zero_mat3, m_score = 0\<rparr>
      else do {
        (converged, (tx, ty, theta), H_final, n_final) \<leftarrow>
          ndt_iterate ldlt (ndt_tolerance m) level dst_pts (nat (ndt_max_iterations m)) init zero_mat3 0;
        score \<leftarrow> (if converged then ndt_score level dst_pts (tx, ty, theta) else Some 0);
        Some \<lparr>m_dx = tx, m_dy = ty, m_dyaw = theta, m_converged = converged,
          m_information = ndt_information (ndt_yaw_multiplier m) H_final n_final, m_score = score\<rparr>
      })"

section \<open>Matching through the levels\<close>

fun ndt_levels :: "ldlt \<Rightarrow> ndt_matcher \<Rightarrow> vec2 list \<Rightarrow> bool \<Rightarrow> PyramidLevel list \<Rightarrow> MatchResult \<Rightarrow> MatchResult option" where
  "ndt_levels ldlt m dst_pts is_first [] last_res = Some last_res"
| "ndt_levels ldlt m dst_pts is_first (level # levels) last_res = do {
     res \<leftarrow> match_single_resolution ldlt m dst_pts (m_dx last_res, m_dy last_res, m_dyaw last_res) level;
     if \<not> m_converged res \<and> is_first then Some res else ndt_levels ldlt m dst_pts False levels res
   }"

definition ndt_match :: "ldlt \<Rightarrow> ScanData option \<Rightarrow> OdomData \<Rightarrow> ndt_matcher \<Rightarrow> MatchResult option" where
  "ndt_match ldlt dst guess m =
     (case dst of
        None \<Rightarrow> Some (no_match guess)
      | Some scan \<Rightarrow>
          if ndt_src_pts m = [] \<or> pyramids m = [] \<or> length (scan_to_points scan) < ndt_kMinCorrespondences then Some (no_match guess)
          else ndt_levels ldlt m (scan_to_points scan) True (pyramids m) (no_match guess))"

end
