(* ===== verification/NdtProps.thy ===== *)
theory NdtProps
  imports NdtMatcher
begin

text \<open>
  The normal distributions transform: what the cells of a level hold, that every step descends, and the bounds of the
  result.
\<close>

unbundle bit_operations_syntax

section \<open>Cells\<close>

lemma low_bits: "(0xFFFFFFFF :: 64 word) = mask 32"
  by (simp add: mask_eq_exp_minus_1)

lemma encode_low: "ucast (encode_cell_key cx cy) = cy"
  by (intro bit_word_eqI) (auto simp: encode_cell_key_def low_bits bit_simps)

lemma encode_high: "ucast (drop_bit 32 (encode_cell_key cx cy)) = cx"
  by (intro bit_word_eqI) (auto simp: encode_cell_key_def low_bits bit_simps)

lemma encode_cell_key_inj: "encode_cell_key cx cy = encode_cell_key cx' cy' \<longleftrightarrow> cx = cx' \<and> cy = cy'"
  by (metis encode_low encode_high)

lemma sint_word_of_int32: "- (2 ^ 31) \<le> k \<Longrightarrow> k < 2 ^ 31 \<Longrightarrow> sint (word_of_int k :: 32 word) = k"
  by (simp add: signed_of_int signed_take_bit_int_eq_self)

lemma word_of_int32_inj:
  assumes "- (2 ^ 31) \<le> i" and "i < 2 ^ 31" and "- (2 ^ 31) \<le> j" and "j < 2 ^ 31"
  shows "(word_of_int i :: 32 word) = word_of_int j \<longleftrightarrow> i = j"
  using sint_word_of_int32 [OF assms(1, 2)] sint_word_of_int32 [OF assms(3, 4)] by metis

lemma ndt_index_Some: "ndt_index cs v = Some k \<longleftrightarrow> cs \<noteq> 0 \<and> k = \<lfloor>v / cs\<rfloor> \<and> - (2 ^ 31) \<le> k \<and> k < 2 ^ 31"
  by (auto simp: ndt_index_def to_int32_def)

lemma cell_key_iff:
  assumes "- (2 ^ 31) \<le> cx" and "cx < 2 ^ 31" and "- (2 ^ 31) \<le> cy" and "cy < 2 ^ 31" and "cell_key cs p \<noteq> None"
  shows "cell_key cs p = Some (encode_cell_key (word_of_int cx) (word_of_int cy)) \<longleftrightarrow> \<lfloor>fst p / cs\<rfloor> = cx \<and> \<lfloor>snd p / cs\<rfloor> = cy"
proof -
  obtain i j where ij: "ndt_index cs (fst p) = Some i" "ndt_index cs (snd p) = Some j"
    using assms(5) by (auto simp: cell_key_def bind_eq_None_conv split: Option.bind_splits)
  then have "cell_key cs p = Some (encode_cell_key (word_of_int i) (word_of_int j))" by (simp add: cell_key_def)
  then show ?thesis using ij assms(1-4) by (auto simp: encode_cell_key_inj word_of_int32_inj ndt_index_Some)
qed

lemma bins_spec:
  assumes "fold_opt (add_to_cell cs) pts [] = Some bins"
  shows "distinct (map fst bins) \<and>
    map_of bins key = (let ps = filter (\<lambda>p. cell_key cs p = Some key) pts in if ps = [] then None else Some ps)"
  using assms
proof (induction pts arbitrary: bins key rule: rev_induct)
  case (snoc p pts)
  obtain b k where b: "fold_opt (add_to_cell cs) pts [] = Some b" and k: "cell_key cs p = Some k"
    and bins: "bins = AList.update k ((case map_of b k of None \<Rightarrow> [] | Some ps \<Rightarrow> ps) @ [p]) b"
    using snoc.prems unfolding fold_opt_append bind_eq_Some_conv fold_opt.simps
    by (auto simp: add_to_cell_def [of cs p] bind_eq_Some_conv)
  have IH: "distinct (map fst b)"
    "map_of b key = (let ps = filter (\<lambda>p. cell_key cs p = Some key) pts in if ps = [] then None else Some ps)" for key
    using snoc.IH [OF b] by auto
  have "map_of bins key = ((map_of b)(k \<mapsto> (case map_of b k of None \<Rightarrow> [] | Some ps \<Rightarrow> ps) @ [p])) key"
    unfolding bins by (simp add: update_conv')
  then show ?case using IH k by (auto simp: bins distinct_update Let_def)
qed simp

lemma map_of_kept:
  assumes "distinct (map fst bins)"
  shows "map_of (map (\<lambda>(key, pts). (key, f pts)) (filter (\<lambda>(key, pts). P pts) bins)) key =
    (case map_of bins key of None \<Rightarrow> None | Some pts \<Rightarrow> if P pts then Some (f pts) else None)"
  using assms
proof (induction bins)
  case (Cons b bins)
  obtain k ps where b: "b = (k, ps)" by (cases b)
  have "map_of bins k = None" using Cons.prems by (simp add: b map_of_eq_None_iff)
  then show ?case using Cons by (auto simp: b split: option.splits)
qed simp

text \<open>Two-dimensional quadratic forms.\<close>

lemma quad2_add [simp]: "quad2 (m2_add A B) v = quad2 A v + quad2 B v"
  by (cases A rule: sym2.cases; cases B rule: sym2.cases; cases v) (simp add: quad2_def algebra_simps)

lemma quad2_scale [simp]: "quad2 (m2_scale k A) v = k * quad2 A v"
  by (cases A rule: sym2.cases; cases v) (simp add: quad2_def algebra_simps)

lemma quad2_outer [simp]: "quad2 (outer2 a a) v = (v2_dot a v)\<^sup>2"
  by (cases a; cases v) (simp add: quad2_def algebra_simps power2_eq_square)

lemma sym2_add: "sym2 A \<Longrightarrow> sym2 B \<Longrightarrow> sym2 (m2_add A B)"
  by (cases A rule: sym2.cases; cases B rule: sym2.cases) simp

lemma scatter_psd: "sym2 (scatter nb c) \<and> 0 \<le> quad2 (scatter nb c) v"
proof -
  have "sym2 A \<and> 0 \<le> quad2 A v \<Longrightarrow> sym2 (fold (\<lambda>p. m2_add (outer2 (vsub p c) (vsub p c))) nb A) \<and>
    0 \<le> quad2 (fold (\<lambda>p. m2_add (outer2 (vsub p c) (vsub p c))) nb A) v" for A
  proof (induction nb arbitrary: A)
    case (Cons p nb)
    have "sym2 (outer2 (vsub p c) (vsub p c))" by (cases "vsub p c") simp
    then have "sym2 (m2_add (outer2 (vsub p c) (vsub p c)) A) \<and> 0 \<le> quad2 (m2_add (outer2 (vsub p c) (vsub p c)) A) v"
      using Cons.prems by (simp add: sym2_add)
    then show ?case using Cons.IH by simp
  qed simp
  from this [of "((0, 0), (0, 0))"] show ?thesis by (cases v) (simp add: scatter_def quad2_def)
qed

lemma ndt_cov_posdef: "posdef2 (ndt_cov pts)"
proof -
  let ?k = "1 / real (length pts - 1)"
  let ?E = "((1 / 10 ^ 3, 0), (0, 1 / 10 ^ 3)) :: mat2"
  have "sym2 (m2_scale ?k (scatter pts (sample_mean pts)))"
    using scatter_psd [of pts "sample_mean pts"] by (cases "scatter pts (sample_mean pts)" rule: sym2.cases) simp
  then have "sym2 (ndt_cov pts)" by (simp add: ndt_cov_def sym2_add)
  moreover have "0 < quad2 (ndt_cov pts) v" if "v \<noteq> (0, 0)" for v
  proof -
    have "0 < quad2 ?E v" using that by (cases v) (auto simp: quad2_def add_pos_nonneg add_nonneg_pos zero_less_mult_iff linorder_neq_iff)
    moreover have "0 \<le> ?k * quad2 (scatter pts (sample_mean pts)) v" using scatter_psd by simp
    ultimately show ?thesis by (simp add: ndt_cov_def)
  qed
  ultimately show ?thesis unfolding posdef2_def by blast
qed

lemma bins_defined:
  assumes "\<forall>p \<in> set pts. cell_key cs p \<noteq> None"
  shows "\<exists>bins. fold_opt (add_to_cell cs) pts b = Some bins"
  using assms by (induction pts arbitrary: b) (auto simp: add_to_cell_def)

text \<open>
  A level of the target holds, for every square cell with at least three target points, the mean of those
  points and the inverse of their sample covariance with \<open>10\<^sup>-\<^sup>3\<close> added to its diagonal, a positive definite matrix; the packed
  keys of different cells do not collide.
\<close>

theorem ndt_level_cells:
  assumes "\<forall>p \<in> set pts. cell_key cs p \<noteq> None"
  shows "\<exists>level. ndt_level pts cs = Some level \<and> cell_size level = cs \<and>
    (\<forall>cx cy. - (2 ^ 31) \<le> cx \<and> cx < 2 ^ 31 \<and> - (2 ^ 31) \<le> cy \<and> cy < 2 ^ 31 \<longrightarrow>
      (let ps = filter (\<lambda>p. \<lfloor>fst p / cs\<rfloor> = cx \<and> \<lfloor>snd p / cs\<rfloor> = cy) pts
       in if length ps < 3 then map_of (cells level) (encode_cell_key (word_of_int cx) (word_of_int cy)) = None
          else \<exists>c. map_of (cells level) (encode_cell_key (word_of_int cx) (word_of_int cy)) = Some c \<and>
            cell_mean c = sample_mean ps \<and> m2_mul (ndt_cov ps) (sigma_inv c) = ((1, 0), (0, 1)) \<and> posdef2 (sigma_inv c)))"
proof -
  obtain bins where bins: "fold_opt (add_to_cell cs) pts [] = Some bins" using bins_defined [OF assms] by blast
  define level where "level = \<lparr>cell_size = cs, cells = map (\<lambda>(key, pts). (key, ndt_cell pts)) (filter (\<lambda>(key, pts). \<not> length pts < 3) bins)\<rparr>"
  have level: "ndt_level pts cs = Some level" "cell_size level = cs" by (simp_all add: ndt_level_def bins level_def)
  have cell: "map_of (cells level) (encode_cell_key (word_of_int cx) (word_of_int cy)) =
      (if length (filter (\<lambda>p. \<lfloor>fst p / cs\<rfloor> = cx \<and> \<lfloor>snd p / cs\<rfloor> = cy) pts) < 3 then None
       else Some (ndt_cell (filter (\<lambda>p. \<lfloor>fst p / cs\<rfloor> = cx \<and> \<lfloor>snd p / cs\<rfloor> = cy) pts)))"
    if "- (2 ^ 31) \<le> cx" "cx < 2 ^ 31" "- (2 ^ 31) \<le> cy" "cy < 2 ^ 31" for cx cy
  proof -
    define key where "key = encode_cell_key (word_of_int cx) (word_of_int cy)"
    have "filter (\<lambda>p. cell_key cs p = Some key) pts = filter (\<lambda>p. \<lfloor>fst p / cs\<rfloor> = cx \<and> \<lfloor>snd p / cs\<rfloor> = cy) pts"
      unfolding key_def using assms cell_key_iff [OF that] by (intro filter_cong) auto
    then show ?thesis using bins_spec [OF bins, of key] map_of_kept [of bins ndt_cell "\<lambda>pts. \<not> length pts < 3" key]
      by (auto simp: key_def [symmetric] Let_def level_def)
  qed
  have inv: "cell_mean (ndt_cell ps) = sample_mean ps \<and> m2_mul (ndt_cov ps) (sigma_inv (ndt_cell ps)) = ((1, 0), (0, 1)) \<and> posdef2 (sigma_inv (ndt_cell ps))" for ps
    by (simp add: ndt_cell_def posdef2_inverse ndt_cov_posdef)
  show ?thesis
  proof (intro exI [of _ level] conjI level allI impI)
    fix cx cy :: int
    assume "- (2 ^ 31) \<le> cx \<and> cx < 2 ^ 31 \<and> - (2 ^ 31) \<le> cy \<and> cy < 2 ^ 31"
    then show "let ps = filter (\<lambda>p. \<lfloor>fst p / cs\<rfloor> = cx \<and> \<lfloor>snd p / cs\<rfloor> = cy) pts
       in if length ps < 3 then map_of (cells level) (encode_cell_key (word_of_int cx) (word_of_int cy)) = None
          else \<exists>c. map_of (cells level) (encode_cell_key (word_of_int cx) (word_of_int cy)) = Some c \<and>
            cell_mean c = sample_mean ps \<and> m2_mul (ndt_cov ps) (sigma_inv c) = ((1, 0), (0, 1)) \<and> posdef2 (sigma_inv c)"
      using cell [of cx cy] inv by (simp add: Let_def)
  qed
qed

section \<open>Steps descend\<close>

definition level_ok :: "PyramidLevel \<Rightarrow> bool" where
  "level_ok level \<longleftrightarrow> (\<forall>key c. map_of (cells level) key = Some c \<longrightarrow> posdef2 (sigma_inv c))"

definition ldlt_solves :: "ldlt \<Rightarrow> bool" where
  "ldlt_solves ldlt \<longleftrightarrow> (\<forall>A b. posdef3 A \<longrightarrow> m3_vec A (ldlt A b) = b)"

text \<open>The scan points in a cell at a pose, with their cells, and the likelihood of a pose against fixed cells.\<close>

definition ndt_matched :: "PyramidLevel \<Rightarrow> vec2 list \<Rightarrow> pose \<Rightarrow> (vec2 \<times> NdtCell) list" where
  "ndt_matched level dst_pts pose =
     concat (map (\<lambda>p. case ndt_lookup level pose p of Some (Some (c, _)) \<Rightarrow> [(p, c)] | _ \<Rightarrow> []) dst_pts)"

definition ndt_likelihood :: "(vec2 \<times> NdtCell) list \<Rightarrow> pose \<Rightarrow> real" where
  "ndt_likelihood matched pose =
     sum_list (map (\<lambda>(p, c). exp (- quad2 (sigma_inv c) (vsub (ndt_move pose p) (cell_mean c)) / 2)) matched)"

definition ndt_gradient :: "pose \<Rightarrow> vec2 \<times> NdtCell \<Rightarrow> vec3" where
  "ndt_gradient pose = (\<lambda>(p, c).
     let d = vsub (ndt_move pose p) (cell_mean c)
     in v3_scale (exp (- quad2 (sigma_inv c) d / 2)) (jt_vec (dp_dtheta (snd (snd pose)) p) (m2_vec (sigma_inv c) d)))"

definition ndt_hessian :: "pose \<Rightarrow> vec2 \<times> NdtCell \<Rightarrow> mat3" where
  "ndt_hessian pose = (\<lambda>(p, c).
     m3_scale (exp (- quad2 (sigma_inv c) (vsub (ndt_move pose p) (cell_mean c)) / 2)) (jt_mat_j (dp_dtheta (snd (snd pose)) p) (sigma_inv c)))"

lemma lookup_found:
  assumes "ndt_lookup level pose p = Some (Some (c, d, e))"
  shows "d = vsub (ndt_move pose p) (cell_mean c)" and "e = - quad2 (sigma_inv c) d / 2" and "- 3 \<le> e"
    and "\<exists>key. map_of (cells level) key = Some c"
  using assms by (auto simp: ndt_lookup_def quad2_def kExponentCutoff_def Let_def split: option.splits if_splits)

lemma linearise_fold:
  assumes "fold_opt (\<lambda>p_orig acc. map_option (\<lambda>found. ndt_term pose p_orig found acc) (ndt_lookup level pose p_orig)) dst_pts (g0, H0, n0) = Some (g, H, n)"
  shows "n = n0 + length (ndt_matched level dst_pts pose) \<and>
    v3_dot g v = v3_dot g0 v + sum_list (map (\<lambda>pc. v3_dot (ndt_gradient pose pc) v) (ndt_matched level dst_pts pose)) \<and>
    H = fold (\<lambda>pc H. m3_add H (ndt_hessian pose pc)) (ndt_matched level dst_pts pose) H0"
  using assms
proof (induction dst_pts arbitrary: g0 H0 n0)
  case (Cons p ps)
  obtain found where found: "ndt_lookup level pose p = Some found" using Cons.prems by (auto simp: bind_eq_Some_conv)
  show ?case
  proof (cases found)
    case None
    then have "fold_opt (\<lambda>p_orig acc. map_option (\<lambda>found. ndt_term pose p_orig found acc) (ndt_lookup level pose p_orig)) ps (g0, H0, n0) = Some (g, H, n)"
      using Cons.prems found by (simp add: ndt_term_def [of pose p])
    moreover have "ndt_matched level (p # ps) pose = ndt_matched level ps pose" by (simp add: ndt_matched_def found None)
    ultimately show ?thesis using Cons.IH by simp
  next
    case (Some cde)
    obtain c d e where cde: "cde = (c, d, e)" by (cases cde)
    have f: "ndt_lookup level pose p = Some (Some (c, d, e))" by (simp add: found Some cde)
    have "ndt_term pose p found (g0, H0, n0) = (v3_add g0 (ndt_gradient pose (p, c)), m3_add H0 (ndt_hessian pose (p, c)), n0 + 1)"
      using lookup_found(1, 2) [OF f] by (simp add: ndt_term_def ndt_gradient_def ndt_hessian_def Some cde Let_def)
    then have "fold_opt (\<lambda>p_orig acc. map_option (\<lambda>found. ndt_term pose p_orig found acc) (ndt_lookup level pose p_orig)) ps
        (v3_add g0 (ndt_gradient pose (p, c)), m3_add H0 (ndt_hessian pose (p, c)), n0 + 1) = Some (g, H, n)"
      using Cons.prems by (simp add: found)
    note IH = Cons.IH [OF this]
    have "ndt_matched level (p # ps) pose = (p, c) # ndt_matched level ps pose" by (simp add: ndt_matched_def f)
    moreover have "v3_dot (v3_add g0 (ndt_gradient pose (p, c))) v = v3_dot g0 v + v3_dot (ndt_gradient pose (p, c)) v"
      by (cases g0; cases "ndt_gradient pose (p, c)"; cases v) (simp add: algebra_simps)
    ultimately show ?thesis using IH by simp
  qed
qed (simp add: ndt_matched_def)

lemma jt_mat_j_psd:
  assumes "posdef2 S"
  shows "psd3 (jt_mat_j w S)"
proof -
  obtain p q s where S: "S = ((p, q), (q, s))" using assms by (cases S rule: sym2.cases) (auto simp: posdef2_def)
  obtain a b where w: "w = (a, b)" by (cases w)
  have "quad3 (jt_mat_j w S) (x, y, z) = quad2 S (x + a * z, y + b * z)" for x y z
    by (simp add: S w quad3_def quad2_def algebra_simps)
  then have "0 \<le> quad3 (jt_mat_j w S) v" for v using quad2_nonneg [OF assms] by (cases v) simp
  then show ?thesis by (simp add: psd3_def S w mult.commute)
qed

lemma psd3_scale: "psd3 A \<Longrightarrow> 0 \<le> k \<Longrightarrow> psd3 (m3_scale k A)"
  by (simp add: psd3_def)

lemma hessian_psd:
  assumes "psd3 H0" and "\<forall>(p, c) \<in> set matched. posdef2 (sigma_inv c)"
  shows "psd3 (fold (\<lambda>pc H. m3_add H (ndt_hessian pose pc)) matched H0)"
  using assms
proof (induction matched arbitrary: H0)
  case (Cons pc matched)
  have "psd3 (ndt_hessian pose pc)" using Cons.prems by (cases pc) (simp add: ndt_hessian_def psd3_scale jt_mat_j_psd)
  then show ?case using Cons by (simp add: psd3_add)
qed simp

lemma gauss_deriv:
  fixes X Y :: "real \<Rightarrow> real"
  assumes "(X has_real_derivative x') (at 0)" and "(Y has_real_derivative y') (at 0)"
  shows "((\<lambda>t. exp (- (X t * (a * X t + b * Y t) + Y t * (b * X t + s * Y t)) / 2)) has_real_derivative
    - (exp (- (X 0 * (a * X 0 + b * Y 0) + Y 0 * (b * X 0 + s * Y 0)) / 2) * ((a * X 0 + b * Y 0) * x' + (b * X 0 + s * Y 0) * y'))) (at 0)"
proof -
  have "((\<lambda>t. - (X t * (a * X t + b * Y t) + Y t * (b * X t + s * Y t)) / 2) has_real_derivative
    - ((a * X 0 + b * Y 0) * x' + (b * X 0 + s * Y 0) * y')) (at 0)"
    by (rule derivative_eq_intros assms refl)+ (simp_all add: field_simps)
  from DERIV_fun_exp [OF this] show ?thesis by (simp only: mult_minus_right)
qed

lemma likelihood_term_deriv:
  assumes "posdef2 (sigma_inv c)"
  shows "((\<lambda>t. exp (- quad2 (sigma_inv c) (vsub (ndt_move (v3_add pose (v3_scale t v)) p) (cell_mean c)) / 2)) has_real_derivative
    - v3_dot (ndt_gradient pose (p, c)) v) (at 0)"
proof -
  obtain a b s where S: "sigma_inv c = ((a, b), (b, s))" using assms by (cases "sigma_inv c" rule: sym2.cases) (auto simp: posdef2_def)
  obtain tx ty theta where pose: "pose = (tx, ty, theta)" by (cases pose)
  obtain u w om where v: "v = (u, w, om)" by (cases v)
  obtain x y where p: "p = (x, y)" by (cases p)
  obtain mx my where m: "cell_mean c = (mx, my)" by (cases "cell_mean c")
  define X where "X = (\<lambda>t. cos (theta + t * om) * x - sin (theta + t * om) * y + (tx + t * u) - mx)"
  define Y where "Y = (\<lambda>t. sin (theta + t * om) * x + cos (theta + t * om) * y + (ty + t * w) - my)"
  let ?x' = "u + om * (- sin theta * x - cos theta * y)" and ?y' = "w + om * (cos theta * x - sin theta * y)"
  have d: "(X has_real_derivative ?x') (at 0)" "(Y has_real_derivative ?y') (at 0)"
    unfolding X_def Y_def by (auto intro!: derivative_eq_intros simp: algebra_simps)
  have f: "quad2 (sigma_inv c) (vsub (ndt_move (v3_add pose (v3_scale t v)) p) (cell_mean c)) =
      X t * (a * X t + b * Y t) + Y t * (b * X t + s * Y t)" for t
    by (simp add: S pose v p m quad2_def vsub_def ndt_move_def X_def Y_def)
  have z: "vsub (ndt_move pose p) (cell_mean c) = (X 0, Y 0)" by (simp add: pose p m vsub_def ndt_move_def X_def Y_def)
  have "v3_dot (ndt_gradient pose (p, c)) v =
      exp (- (X 0 * (a * X 0 + b * Y 0) + Y 0 * (b * X 0 + s * Y 0)) / 2) * ((a * X 0 + b * Y 0) * ?x' + (b * X 0 + s * Y 0) * ?y')"
    unfolding ndt_gradient_def prod.case z Let_def by (simp add: S pose v p quad2_def dp_dtheta_def algebra_simps)
  then show ?thesis unfolding f using gauss_deriv [OF d, of a b s] by simp
qed

lemma likelihood_deriv:
  assumes "\<forall>(p, c) \<in> set matched. posdef2 (sigma_inv c)"
  shows "((\<lambda>t. ndt_likelihood matched (v3_add pose (v3_scale t v))) has_real_derivative
    - sum_list (map (\<lambda>pc. v3_dot (ndt_gradient pose pc) v) matched)) (at 0)"
  using assms
proof (induction matched)
  case (Cons pc matched)
  obtain p c where pc: "pc = (p, c)" by (cases pc)
  have "((\<lambda>t. exp (- quad2 (sigma_inv c) (vsub (ndt_move (v3_add pose (v3_scale t v)) p) (cell_mean c)) / 2) +
      ndt_likelihood matched (v3_add pose (v3_scale t v))) has_real_derivative
    - v3_dot (ndt_gradient pose (p, c)) v + - sum_list (map (\<lambda>pc. v3_dot (ndt_gradient pose pc) v) matched)) (at 0)"
    using Cons pc by (intro DERIV_add likelihood_term_deriv) auto
  then show ?case by (simp add: pc ndt_likelihood_def)
qed (simp add: ndt_likelihood_def)

lemma matched_cells:
  assumes "level_ok level"
  shows "\<forall>(p, c) \<in> set (ndt_matched level dst_pts pose). posdef2 (sigma_inv c)"
proof (clarify)
  fix p c assume "(p, c) \<in> set (ndt_matched level dst_pts pose)"
  then obtain d e where "ndt_lookup level pose p = Some (Some (c, d, e))"
    by (auto simp: ndt_matched_def split: option.splits dest: sym)
  then show "posdef2 (sigma_inv c)" using lookup_found(4) assms unfolding level_ok_def by blast
qed

text \<open>
  C11. The vector that an NDT iteration sums up is the gradient of the negative likelihood of the scan against
  the cells its points lie in, and the step taken is a direction of descent unless the gradient is zero.
\<close>

theorem ndt_step_descends:
  assumes "level_ok level" and "ldlt_solves ldlt" and "ndt_linearise level dst_pts pose = Some (g, H, n)"
  shows "n = length (ndt_matched level dst_pts pose) \<and>
    (\<forall>v. ((\<lambda>t. - ndt_likelihood (ndt_matched level dst_pts pose) (v3_add pose (v3_scale t v))) has_real_derivative v3_dot g v) (at 0)) \<and>
    (g \<noteq> (0, 0, 0) \<longrightarrow> v3_dot g (ndt_delta ldlt H g) < 0)"
proof -
  have lin: "n = length (ndt_matched level dst_pts pose)"
    "v3_dot g v = sum_list (map (\<lambda>pc. v3_dot (ndt_gradient pose pc) v) (ndt_matched level dst_pts pose))"
    "H = fold (\<lambda>pc H. m3_add H (ndt_hessian pose pc)) (ndt_matched level dst_pts pose) zero_mat3" for v
    using linearise_fold [OF assms(3) [unfolded ndt_linearise_def], of v] by (cases v; simp)+
  have deriv: "((\<lambda>t. - ndt_likelihood (ndt_matched level dst_pts pose) (v3_add pose (v3_scale t v))) has_real_derivative v3_dot g v) (at 0)" for v
    using DERIV_minus [OF likelihood_deriv [OF matched_cells [OF assms(1)]]] by (simp add: lin(2))
  have "psd3 zero_mat3" by (simp add: psd3_def zero_mat3_def quad3_def)
  then have "psd3 H" unfolding lin(3) by (rule hessian_psd [OF _ matched_cells [OF assms(1)]])
  then have A: "posdef3 (m3_add H (diagonal3 (1 / 10 ^ 6, 1 / 10 ^ 6, 1 / 10 ^ 6)))" (is "posdef3 ?A") by (rule posdef3_damped) simp
  let ?d = "ndt_delta ldlt H g"
  have sol: "m3_vec ?A ?d = v3_neg g" using assms(2) A unfolding ldlt_solves_def ndt_delta_def by blast
  have "v3_dot g ?d < 0" if "g \<noteq> (0, 0, 0)"
  proof -
    have "?d \<noteq> (0, 0, 0)"
    proof
      assume "?d = (0, 0, 0)"
      then have "v3_neg g = (0, 0, 0)" using sol by (cases ?A rule: sym3.cases) simp
      then show False using that by (cases g) (simp add: v3_neg_def)
    qed
    then have "0 < quad3 ?A ?d" by (rule posdef3_quad [OF A])
    moreover have "quad3 ?A ?d = - v3_dot g ?d" unfolding quad3_def sol by (cases g; cases ?d) (simp add: v3_neg_def algebra_simps)
    ultimately show ?thesis by simp
  qed
  then show ?thesis using lin(1) deriv by blast
qed

section \<open>The result\<close>

definition ndt_fits :: "PyramidLevel \<Rightarrow> vec2 list \<Rightarrow> pose \<Rightarrow> bool" where
  "ndt_fits level dst_pts pose \<longleftrightarrow> (\<forall>p \<in> set dst_pts. cell_key (cell_size level) (ndt_move pose p) \<noteq> None)"

text \<open>The poses at which cells are looked up: those of the iterations, and the last one for the score.\<close>

fun ndt_visited :: "ldlt \<Rightarrow> real \<Rightarrow> PyramidLevel \<Rightarrow> vec2 list \<Rightarrow> nat \<Rightarrow> pose \<Rightarrow> pose list" where
  "ndt_visited ldlt tol level dst_pts 0 pose = []"
| "ndt_visited ldlt tol level dst_pts (Suc k) pose = pose # (case ndt_linearise level dst_pts pose of
     None \<Rightarrow> []
   | Some (g, H, n_valid) \<Rightarrow>
       if n_valid < ndt_kMinCorrespondences then []
       else let delta = ndt_delta ldlt H g
         in if v3_norm delta < tol then [v3_add pose delta] else ndt_visited ldlt tol level dst_pts k (v3_add pose delta))"

lemma fold_opt_defined_iff:
  "fold_opt (\<lambda>x acc. map_option (\<lambda>y. h x y acc) (F x)) xs a \<noteq> None \<longleftrightarrow> (\<forall>x \<in> set xs. F x \<noteq> None)"
proof (induction xs arbitrary: a)
  case (Cons x xs)
  then show ?case by (cases "F x") (simp_all del: not_None_eq)
qed simp

lemma fits_lookup: "ndt_fits level dst_pts pose \<longleftrightarrow> (\<forall>p \<in> set dst_pts. ndt_lookup level pose p \<noteq> None)"
  by (simp add: ndt_fits_def ndt_lookup_def del: not_None_eq)

lemma linearise_defined_iff: "ndt_linearise level dst_pts pose \<noteq> None \<longleftrightarrow> ndt_fits level dst_pts pose"
  unfolding ndt_linearise_def fits_lookup by (rule fold_opt_defined_iff)

lemma score_defined_iff: "ndt_score level dst_pts pose \<noteq> None \<longleftrightarrow> ndt_fits level dst_pts pose"
  unfolding ndt_score_def fits_lookup
  using fold_opt_defined_iff [of "\<lambda>_. ndt_cost" "ndt_lookup level pose" dst_pts "(0, 0)"] by (simp del: not_None_eq)

lemma iterate_returns_iff:
  "(case ndt_iterate ldlt tol level dst_pts k pose H n of
      None \<Rightarrow> False
    | Some (conv, pose', H', n') \<Rightarrow> (conv \<longrightarrow> ndt_score level dst_pts pose' \<noteq> None)) \<longleftrightarrow>
   (\<forall>q \<in> set (ndt_visited ldlt tol level dst_pts k pose). ndt_fits level dst_pts q)"
proof (induction k arbitrary: pose H n)
  case (Suc k)
  show ?case
  proof (cases "ndt_linearise level dst_pts pose")
    case None
    then have "\<not> ndt_fits level dst_pts pose" using linearise_defined_iff by blast
    then show ?thesis by (simp add: None)
  next
    case (Some gHn)
    then have "ndt_fits level dst_pts pose" using linearise_defined_iff by blast
    then show ?thesis using Some Suc.IH score_defined_iff
      by (cases gHn) (simp add: Let_def del: not_None_eq)
  qed
qed simp

lemma cost_fold:
  assumes "level_ok level"
    and "fold_opt (\<lambda>p acc. map_option (\<lambda>found. ndt_cost found acc) (ndt_lookup level pose p)) dst_pts (s0, n0) = Some (s, n)"
  shows "\<exists>c k. s = s0 + c \<and> n = n0 + k \<and> 0 \<le> c \<and> c \<le> 3 * real k \<and> k \<le> length dst_pts"
  using assms(2)
proof (induction dst_pts arbitrary: s0 n0)
  case (Cons p ps)
  obtain found where found: "ndt_lookup level pose p = Some found" using Cons.prems by (auto simp: bind_eq_Some_conv)
  obtain c1 k1 where c1: "ndt_cost found (s0, n0) = (s0 + c1, n0 + k1)" "0 \<le> c1" "c1 \<le> 3 * real k1" "k1 \<le> 1"
  proof (cases found)
    case None
    then show thesis using that [of 0 0] by (simp add: ndt_cost_def)
  next
    case (Some cde)
    obtain c d e where cde: "cde = (c, d, e)" by (cases cde)
    have f: "ndt_lookup level pose p = Some (Some (c, d, e))" by (simp add: found Some cde)
    obtain key where "map_of (cells level) key = Some c" using lookup_found(4) [OF f] by blast
    then have "posdef2 (sigma_inv c)" using assms(1) unfolding level_ok_def by blast
    then have "e \<le> 0" using lookup_found(2) [OF f] quad2_nonneg by simp
    then show thesis using that [of "- e" 1] lookup_found(3) [OF f] by (simp add: ndt_cost_def Some cde)
  qed
  have "fold_opt (\<lambda>p acc. map_option (\<lambda>found. ndt_cost found acc) (ndt_lookup level pose p)) ps (s0 + c1, n0 + k1) = Some (s, n)"
    using Cons.prems by (simp add: found c1(1))
  then obtain c k where "s = s0 + c1 + c" "n = n0 + k1 + k" "0 \<le> c" "c \<le> 3 * real k" "k \<le> length ps" using Cons.IH by blast
  then show ?case using c1(2-4) by (intro exI [of _ "c1 + c"] exI [of _ "k1 + k"]) simp
qed simp

lemma ndt_score_bounds:
  assumes "level_ok level" and "ndt_score level dst_pts pose = Some s"
  shows "0 \<le> s \<and> s \<le> 3"
proof -
  obtain c n where f: "fold_opt (\<lambda>p acc. map_option (\<lambda>found. ndt_cost found acc) (ndt_lookup level pose p)) dst_pts (0, 0) = Some (c, n)"
    and s: "s = (if ndt_kMinCorrespondences \<le> n \<and> 0 < length dst_pts
      then (c + real_of_int (int (length dst_pts) - int n) * 3) / real (length dst_pts) else 3)"
    using assms(2) by (auto simp: ndt_score_def kExponentCutoff_def Let_def)
  have c: "0 \<le> c" "c \<le> 3 * real n" "n \<le> length dst_pts" using cost_fold [OF assms(1) f] by auto
  have "0 \<le> c + real_of_int (int (length dst_pts) - int n) * 3" "c + real_of_int (int (length dst_pts) - int n) * 3 \<le> 3 * real (length dst_pts)"
    using c by (auto simp: algebra_simps)
  then show ?thesis by (simp add: s pos_divide_le_eq)
qed

definition ndt_info_bounds :: "real \<Rightarrow> mat3 \<Rightarrow> bool" where
  "ndt_info_bounds factor = (\<lambda>((a, b, _), (c, d, _), (_, _, r)).
     \<bar>a\<bar> \<le> 1000 \<and> \<bar>b\<bar> \<le> 1000 \<and> \<bar>c\<bar> \<le> 1000 \<and> \<bar>d\<bar> \<le> 1000 \<and> 0 \<le> r \<and> r \<le> 5000 * factor)"

lemma clamp_between: "lo \<le> hi \<Longrightarrow> lo \<le> clamp v lo hi \<and> clamp v lo hi \<le> hi"
  by (auto simp: clamp_def)

lemma ndt_information_bounds:
  assumes "0 \<le> factor"
  shows "ndt_info_bounds factor (ndt_information factor H n)"
proof -
  have "\<bar>clamp v (- 1000) 1000\<bar> \<le> 1000" for v using clamp_between [of "- 1000" 1000 v] by (simp add: abs_le_iff)
  moreover have "0 \<le> clamp v 0 5000 * factor \<and> clamp v 0 5000 * factor \<le> 5000 * factor" for v
    using clamp_between [of 0 5000 v] assms by (simp add: mult_right_mono)
  ultimately show ?thesis using assms
    by (auto simp: ndt_info_bounds_def ndt_information_def zero_mat3_def Let_def split: prod.splits)
qed

lemma single_score:
  assumes "level_ok level" and "match_single_resolution ldlt m dst_pts init level = Some r"
  shows "0 \<le> m_score r \<and> m_score r \<le> 3"
  using assms(2) ndt_score_bounds [OF assms(1)]
  by (auto simp: match_single_resolution_def bind_eq_Some_conv split: if_splits)

lemma levels_score:
  assumes "ndt_levels ldlt m dst_pts first levels last_res = Some r" and "\<forall>level \<in> set levels. level_ok level"
    and "0 \<le> m_score last_res \<and> m_score last_res \<le> 3"
  shows "0 \<le> m_score r \<and> m_score r \<le> 3"
  using assms
proof (induction levels arbitrary: first last_res)
  case (Cons level levels)
  obtain res where res: "match_single_resolution ldlt m dst_pts (m_dx last_res, m_dy last_res, m_dyaw last_res) level = Some res"
    and rest: "(if \<not> m_converged res \<and> first then Some res else ndt_levels ldlt m dst_pts False levels res) = Some r"
    using Cons.prems(1) by (auto simp: bind_eq_Some_conv)
  have "0 \<le> m_score res \<and> m_score res \<le> 3" using single_score [OF _ res] Cons.prems(2) by simp
  then show ?case using Cons.IH [of False res] Cons.prems(2) rest by (auto split: if_splits)
qed simp

lemma ndt_match_score:
  assumes "ndt_match ldlt dst guess m = Some r" and "\<forall>level \<in> set (pyramids m). level_ok level"
  shows "0 \<le> m_score r \<and> m_score r \<le> 3"
  using assms levels_score [of ldlt m _ True "pyramids m" "no_match guess" r]
  by (auto simp: ndt_match_def no_match_def split: option.splits if_splits)

text \<open>
  Matching on one level returns exactly when the cell indices of the scan fit 32 bits at every pose it
  visits.  The score of a converged match is between 0 and 3, the entries of its information matrix for translation
  between -1000 and 1000, that for rotation between 0 and 5000 times the multiplier.
\<close>

theorem ndt_single_resolution:
  assumes "level_ok level" and "0 \<le> ndt_yaw_multiplier m" and "cells level \<noteq> []" and "5 \<le> length dst_pts"
  shows "(match_single_resolution ldlt m dst_pts init level \<noteq> None \<longleftrightarrow>
      (\<forall>q \<in> set (ndt_visited ldlt (ndt_tolerance m) level dst_pts (nat (ndt_max_iterations m)) init). ndt_fits level dst_pts q)) \<and>
    (\<forall>r. match_single_resolution ldlt m dst_pts init level = Some r \<longrightarrow>
      0 \<le> m_score r \<and> m_score r \<le> 3 \<and> ndt_info_bounds (ndt_yaw_multiplier m) (m_information r))"
proof (intro conjI allI impI)
  have m: "match_single_resolution ldlt m dst_pts init level = do {
      (converged, (tx, ty, theta), H_final, n_final) \<leftarrow>
        ndt_iterate ldlt (ndt_tolerance m) level dst_pts (nat (ndt_max_iterations m)) init zero_mat3 0;
      score \<leftarrow> (if converged then ndt_score level dst_pts (tx, ty, theta) else Some 0);
      Some \<lparr>m_dx = tx, m_dy = ty, m_dyaw = theta, m_converged = converged,
        m_information = ndt_information (ndt_yaw_multiplier m) H_final n_final, m_score = score\<rparr>
    }"
    using assms(3, 4) by (simp add: match_single_resolution_def ndt_kMinCorrespondences_def)
  show "match_single_resolution ldlt m dst_pts init level \<noteq> None \<longleftrightarrow>
      (\<forall>q \<in> set (ndt_visited ldlt (ndt_tolerance m) level dst_pts (nat (ndt_max_iterations m)) init). ndt_fits level dst_pts q)"
    unfolding m iterate_returns_iff [symmetric, where H = zero_mat3 and n = 0]
    by (auto split: option.splits Option.bind_splits if_splits)
  fix r assume "match_single_resolution ldlt m dst_pts init level = Some r"
  then show "0 \<le> m_score r" and "m_score r \<le> 3" and "ndt_info_bounds (ndt_yaw_multiplier m) (m_information r)"
    unfolding m using ndt_score_bounds [OF assms(1)] ndt_information_bounds [OF assms(2)]
    by (auto simp: bind_eq_Some_conv split: if_splits)
qed

section \<open>Examples\<close>

definition unit_level :: PyramidLevel where
  "unit_level = \<lparr>cell_size = 1, cells = [(encode_cell_key 0 0, \<lparr>cell_mean = (0.5, 0.5), sigma_inv = ((1, 0), (0, 1))\<rparr>)]\<rparr>"

definition cell_points :: "vec2 list" where
  "cell_points = [(0.6, 0.5), (0.5, 0.6), (0.4, 0.5), (0.5, 0.4), (0.5, 0.5)]"

lemma unit_level_ok: "level_ok unit_level"
  by (auto simp: level_ok_def unit_level_def posdef2_iff split: if_splits)

lemma cell_points_key: "p \<in> set cell_points \<Longrightarrow> cell_key 1 p = Some (encode_cell_key 0 0)"
  by (auto simp: cell_points_def cell_key_def ndt_index_def to_int32_def trunc_int_def)

lemma cell_points_fit: "ndt_fits unit_level cell_points (0, 0, 0)"
  using cell_points_key by (auto simp: ndt_fits_def unit_level_def ndt_move_def)

theorem ndt_level_cells_witness:
  "\<exists>level c. ndt_level cell_points 1 = Some level \<and> map_of (cells level) (encode_cell_key 0 0) = Some c \<and>
     cell_mean c = (0.5, 0.5) \<and> posdef2 (sigma_inv c)"
proof -
  have f: "filter (\<lambda>p. \<lfloor>fst p / 1\<rfloor> = 0 \<and> \<lfloor>snd p / 1\<rfloor> = 0) cell_points = cell_points" by (simp add: cell_points_def)
  have s: "sample_mean cell_points = (0.5, 0.5)" "\<not> length cell_points < 3" by (simp_all add: cell_points_def sample_mean_def)
  have "\<forall>p \<in> set cell_points. cell_key 1 p \<noteq> None" using cell_points_key by simp
  from ndt_level_cells [OF this] obtain level where level: "ndt_level cell_points 1 = Some level"
    and cell: "\<And>cx cy. - (2 ^ 31) \<le> cx \<and> cx < 2 ^ 31 \<and> - (2 ^ 31) \<le> cy \<and> cy < 2 ^ 31 \<longrightarrow>
      (let ps = filter (\<lambda>p. \<lfloor>fst p / 1\<rfloor> = cx \<and> \<lfloor>snd p / 1\<rfloor> = cy) cell_points
       in if length ps < 3 then map_of (cells level) (encode_cell_key (word_of_int cx) (word_of_int cy)) = None
          else \<exists>c. map_of (cells level) (encode_cell_key (word_of_int cx) (word_of_int cy)) = Some c \<and>
            cell_mean c = sample_mean ps \<and> m2_mul (ndt_cov ps) (sigma_inv c) = ((1, 0), (0, 1)) \<and> posdef2 (sigma_inv c))"
    by blast
  then show ?thesis using cell [of 0 0, unfolded f Let_def] s by auto
qed

theorem ndt_step_descends_witness:
  "\<exists>g H n. ndt_linearise unit_level cell_points (0, 0, 0) = Some (g, H, n) \<and>
     ((\<lambda>t. - ndt_likelihood (ndt_matched unit_level cell_points (0, 0, 0)) (v3_add (0, 0, 0) (v3_scale t (1, 0, 0)))) has_real_derivative
        v3_dot g (1, 0, 0)) (at 0) \<and> (g \<noteq> (0, 0, 0) \<longrightarrow> v3_dot g (ndt_delta ldlt3 H g) < 0)"
proof -
  obtain g H n where lin: "ndt_linearise unit_level cell_points (0, 0, 0) = Some (g, H, n)"
    using cell_points_fit linearise_defined_iff by (metis option.exhaust_sel surj_pair)
  have "ldlt_solves ldlt3" by (simp add: ldlt_solves_def ldlt3_solves del: split_paired_All)
  from ndt_step_descends [OF unit_level_ok this lin] lin show ?thesis by blast
qed

theorem ndt_single_resolution_witness:
  "\<exists>m r. m = NDTMatcher 0 0.001 [1] False 1 \<and> match_single_resolution ldlt3 m cell_points (0, 0, 0) unit_level = Some r \<and>
     0 \<le> m_score r \<and> ndt_info_bounds 1 (m_information r)"
proof -
  let ?m = "NDTMatcher 0 0.001 [1] False 1"
  have "level_ok unit_level" "0 \<le> ndt_yaw_multiplier ?m" "cells unit_level \<noteq> []" "5 \<le> length cell_points" "ndt_yaw_multiplier ?m = 1"
    by (rule unit_level_ok) (simp_all add: NDTMatcher_def unit_level_def cell_points_def)
  moreover have "ndt_visited ldlt3 (ndt_tolerance ?m) unit_level cell_points (nat (ndt_max_iterations ?m)) (0, 0, 0) = []"
    by (simp add: NDTMatcher_def)
  ultimately show ?thesis
    using ndt_single_resolution [of unit_level ?m cell_points ldlt3 "(0, 0, 0)"] by auto
qed

end
