(* ===== verification/IcpProps.thy ===== *)
theory IcpProps
  imports IcpMatcher
begin

text \<open>
  Point-to-line ICP: the sums do not depend on how points are shared out to threads, every step minimises the damped,
  weighted least-squares problem it stands for, and the result is bounded.
\<close>

section \<open>Sums over threads\<close>

locale thread_reduction =
  fixes add :: "'s \<Rightarrow> 's \<Rightarrow> 's" and zero :: 's
  assumes assoc: "add (add a b) c = add a (add b c)"
    and commute: "add a b = add b a"
    and neutral: "add a zero = a"
begin

lemma fold_from: "fold add xs a = add a (fold add xs zero)"
proof (induction xs arbitrary: a)
  case (Cons x xs)
  show ?case using Cons.IH [of "add x a"] Cons.IH [of "add x zero"] by (simp add: neutral) (metis assoc commute)
qed (simp add: neutral)

lemma fold_threads: "fold add (map (\<lambda>is. fold add (map t is) zero) threads) zero = fold add (map t (concat threads)) zero"
proof (induction threads)
  case (Cons ps threads)
  have "fold add (map t (concat (ps # threads))) zero = add (fold add (map t ps) zero) (fold add (map t (concat threads)) zero)"
    by (simp add: fold_from [of _ "fold add (map t ps) zero"])
  moreover have "fold add (map (\<lambda>is. fold add (map t is) zero) (ps # threads)) zero =
    add (fold add (map t ps) zero) (fold add (map (\<lambda>is. fold add (map t is) zero) threads) zero)"
    by (simp add: neutral fold_from [of _ "fold add (map t ps) zero"])
  ultimately show ?case using Cons.IH by simp
qed simp

lemma fold_perm: "mset xs = mset ys \<Longrightarrow> fold add xs = fold add ys"
  by (rule fold_multiset_equiv) (auto simp: fun_eq_iff, metis assoc commute)

theorem reduction_order:
  assumes "mset (concat threads) = mset [0..<n]"
  shows "fold add (map (\<lambda>is. fold add (map t is) zero) threads) zero = fold add (map t [0..<n]) zero"
  using fold_perm [of "map t (concat threads)" "map t [0..<n]"] assms by (simp add: fold_threads del: map_concat)

end

interpretation sums: thread_reduction add_sums zero_sums
proof
  show "add_sums (add_sums a b) c = add_sums a (add_sums b c)" for a b c
    by (cases a; cases b; cases c) (simp add: add_sums_def m3_add_assoc v3_add_assoc)
  show "add_sums a b = add_sums b a" for a b
    by (cases a; cases b) (simp add: add_sums_def m3_add_commute v3_add_commute)
  show "add_sums a zero_sums = a" for a
    by (cases a; cases "fst a"; cases "fst (snd a)") (auto simp: add_sums_def zero_sums_def zero_mat3_def)
qed

interpretation costs: thread_reduction add_cost "(0, 0)"
  by unfold_locales (auto simp: add_cost_def split: prod.splits)

text \<open>OpenMP gives every point to exactly one thread.\<close>

definition threads_ok :: "icp_env \<Rightarrow> bool" where
  "threads_ok env \<longleftrightarrow> (\<forall>n. mset (concat (icp_threads env n)) = mset [0..<n])"

lemma those_Some_conv: "those xs = Some ys \<longleftrightarrow> xs = map Some ys"
proof (induction xs arbitrary: ys)
  case (Cons x xs)
  then show ?case by (cases x; cases ys) auto
qed auto

lemma thread_sums_eq:
  "threads_ok env \<Longrightarrow> thread_sums contrib (icp_threads env n) = fold add_sums (map contrib [0..<n]) zero_sums"
  unfolding thread_sums_def by (rule sums.reduction_order) (simp add: threads_ok_def)

section \<open>What a step minimises\<close>

text \<open>The weighted rows of the least-squares problem: weight, Jacobian and residual of every pair.\<close>

definition icp_rows :: "icp_matcher \<Rightarrow> real \<Rightarrow> real \<Rightarrow> vec2 list \<Rightarrow> (vec2 \<times> vec2) option list \<Rightarrow> (real \<times> vec3 \<times> real) list" where
  "icp_rows m tx ty ps pairs = concat (map2 (\<lambda>p pair. case pair of None \<Rightarrow> []
     | Some qn \<Rightarrow> [(kernel_weight m (icp_residual p qn), icp_jacobian tx ty p qn, icp_residual p qn)]) ps pairs)"

definition rows_cost :: "(real \<times> vec3 \<times> real) list \<Rightarrow> vec3 \<Rightarrow> real" where
  "rows_cost rows d = sum_list (map (\<lambda>(w, J, r). w * (r + v3_dot J d)\<^sup>2) rows)"

definition icp_objective :: "icp_matcher \<Rightarrow> OdomData \<Rightarrow> pose \<Rightarrow> (real \<times> vec3 \<times> real) list \<Rightarrow> vec3 \<Rightarrow> real" where
  "icp_objective m guess pose rows d =
     rows_cost rows d + quad3 (W_motion m) (v3_add (err_motion guess pose) d) + (1 / 10 ^ 4) * v3_dot d d"

definition row_sums :: "real \<times> vec3 \<times> real \<Rightarrow> normal_sums" where
  "row_sums = (\<lambda>(w, J, r). (outer3 (v3_scale w J) J, v3_scale r (v3_scale w J), 1))"

definition kernel_ok :: "icp_matcher \<Rightarrow> bool" where
  "kernel_ok m \<longleftrightarrow> 0 < robust_kernel_scale m \<and> 0 < max_correspondence_dist m \<and>
     (robust_kernel m = ''huber'' \<longrightarrow> robust_kernel_scale m \<le> max_correspondence_dist m) \<and>
     (robust_kernel m = ''cauchy'' \<longrightarrow> max_correspondence_dist m \<le> 2)"

definition priors_ok :: "icp_matcher \<Rightarrow> bool" where
  "priors_ok m \<longleftrightarrow> 0 \<le> motion_prior_weight_x m \<and> 0 \<le> motion_prior_weight_y m \<and> 0 \<le> motion_prior_weight_yaw m"

text \<open>Eigen's LDLT solves systems with a positive definite matrix.\<close>

definition ldlt_ok :: "icp_env \<Rightarrow> bool" where
  "ldlt_ok env \<longleftrightarrow> (\<forall>A b. posdef3 A \<longrightarrow> m3_vec A (ldlt_solve env A b) = b)"

lemma kernel_weight_nonneg: "kernel_ok m \<Longrightarrow> 0 \<le> kernel_weight m r"
  by (auto simp: kernel_ok_def kernel_weight_def Let_def add_nonneg_nonneg)

lemma outer3_scale: "outer3 (v3_scale w J) J = m3_scale w (outer3 J J)"
  by (cases J) (simp add: mult.assoc)

lemma sums_of_rows:
  assumes "length ps = length pairs"
  shows "fold add_sums (map (\<lambda>i. icp_term m tx ty (ps ! i) (pairs ! i)) [0..<length ps]) a =
    fold add_sums (map row_sums (icp_rows m tx ty ps pairs)) a"
proof -
  have "map (\<lambda>i. icp_term m tx ty (ps ! i) (pairs ! i)) [0..<length ps] = map2 (icp_term m tx ty) ps pairs"
    using assms by (intro nth_equalityI) auto
  moreover have "fold add_sums (map2 (icp_term m tx ty) ps pairs) a = fold add_sums (map row_sums (icp_rows m tx ty ps pairs)) a"
    using assms
  proof (induction ps pairs arbitrary: a rule: list_induct2)
    case (Cons p ps pair pairs)
    have "add_sums zero_sums a = a" using sums.neutral sums.commute by metis
    then show ?case using Cons.IH
      by (cases pair) (simp_all add: icp_rows_def icp_term_def row_sums_def Let_def)
  qed (simp add: icp_rows_def)
  ultimately show ?thesis by simp
qed

lemma rows_expand:
  assumes "fold add_sums (map row_sums rows) (H0, b0, n0) = (H, b, n)"
  shows "quad3 H d = quad3 H0 d + sum_list (map (\<lambda>(w, J, r). w * (v3_dot J d)\<^sup>2) rows) \<and>
    v3_dot b d = v3_dot b0 d + sum_list (map (\<lambda>(w, J, r). w * r * v3_dot J d) rows) \<and> n = n0 + length rows \<and>
    (psd3 H0 \<longrightarrow> (\<forall>(w, J, r) \<in> set rows. 0 \<le> w) \<longrightarrow> psd3 H)"
  using assms
proof (induction rows arbitrary: H0 b0 n0)
  case (Cons row rows)
  obtain w J r where row: "row = (w, J, r)" by (cases row)
  let ?H1 = "m3_add H0 (m3_scale w (outer3 J J))" and ?b1 = "v3_add b0 (v3_scale r (v3_scale w J))"
  have "fold add_sums (map row_sums rows) (?H1, ?b1, n0 + 1) = (H, b, n)"
    using Cons.prems by (simp add: row row_sums_def add_sums_def outer3_scale)
  from Cons.IH [OF this] have IH: "quad3 H d = quad3 ?H1 d + sum_list (map (\<lambda>(w, J, r). w * (v3_dot J d)\<^sup>2) rows)"
    "v3_dot b d = v3_dot ?b1 d + sum_list (map (\<lambda>(w, J, r). w * r * v3_dot J d) rows)" "n = n0 + 1 + length rows"
    "psd3 ?H1 \<longrightarrow> (\<forall>(w, J, r) \<in> set rows. 0 \<le> w) \<longrightarrow> psd3 H" by blast+
  have "v3_dot ?b1 d = v3_dot b0 d + w * r * v3_dot J d" by (cases b0; cases J; cases d) (simp add: algebra_simps)
  moreover have "0 \<le> w \<Longrightarrow> psd3 H0 \<Longrightarrow> psd3 ?H1" by (intro psd3_add psd3_outer)
  ultimately show ?case using IH by (auto simp: row)
qed auto

lemma rows_cost_expand:
  "rows_cost rows d = sum_list (map (\<lambda>(w, J, r). w * (v3_dot J d)\<^sup>2) rows)
     + 2 * sum_list (map (\<lambda>(w, J, r). w * r * v3_dot J d) rows) + sum_list (map (\<lambda>(w, J, r). w * r\<^sup>2) rows)"
  unfolding rows_cost_def by (induction rows) (auto simp: power2_eq_square algebra_simps)

lemma row_weights: "kernel_ok m \<Longrightarrow> \<forall>(w, J, r) \<in> set (icp_rows m tx ty ps pairs). 0 \<le> w"
  by (auto simp: icp_rows_def kernel_weight_nonneg split: option.splits)

lemma linearise_spec:
  assumes "threads_ok env" and "icp_linearise env m ps tx ty = Some (H, b, n)" and "kernel_ok m"
  obtains pairs where "those (map (icp_pair env m) ps) = Some pairs"
    and "\<And>d. quad3 H d + 2 * v3_dot b d + sum_list (map (\<lambda>(w, J, r). w * r\<^sup>2) (icp_rows m tx ty ps pairs)) = rows_cost (icp_rows m tx ty ps pairs) d"
    and "n = length (icp_rows m tx ty ps pairs)" and "psd3 H"
proof -
  obtain pairs where p: "those (map (icp_pair env m) ps) = Some pairs"
    and t: "thread_sums (\<lambda>i. icp_term m tx ty (ps ! i) (pairs ! i)) (icp_threads env (length ps)) = (H, b, n)"
    using assms(2) by (auto simp: icp_linearise_def)
  have "length pairs = length ps" using p by (metis length_map those_Some_conv)
  then have f: "fold add_sums (map row_sums (icp_rows m tx ty ps pairs)) (zero_mat3, (0, 0, 0), 0) = (H, b, n)"
    using t sums_of_rows [of ps pairs m tx ty zero_sums] by (simp add: thread_sums_eq [OF assms(1)] zero_sums_def)
  have z: "quad3 zero_mat3 d = 0" "v3_dot (0, 0, 0) d = 0" "psd3 zero_mat3" for d
    by (cases d; simp add: quad3_def zero_mat3_def psd3_def)+
  show thesis
  proof (rule that [OF p])
    show "quad3 H d + 2 * v3_dot b d + sum_list (map (\<lambda>(w, J, r). w * r\<^sup>2) (icp_rows m tx ty ps pairs)) = rows_cost (icp_rows m tx ty ps pairs) d" for d
      using rows_expand [OF f, of d] z by (simp add: rows_cost_expand)
    show "n = length (icp_rows m tx ty ps pairs)" using rows_expand [OF f] by simp
    show "psd3 H" using rows_expand [OF f] z(3) row_weights [OF assms(3)] by blast
  qed
qed


section \<open>The result\<close>

text \<open>Eigen's solver for symmetric matrices, when it succeeds, and that it succeeds.\<close>

definition eigen_ok :: "icp_env \<Rightarrow> bool" where
  "eigen_ok env \<longleftrightarrow> (\<forall>A e. sym2 A \<longrightarrow> sym_eigen env A = Some e \<longrightarrow> is_eigen2 A e)"

definition eigen_converges :: "icp_env \<Rightarrow> bool" where
  "eigen_converges env \<longleftrightarrow> (\<forall>A. sym2 A \<longrightarrow> sym_eigen env A \<noteq> None)"

definition unit2 :: "vec2 \<Rightarrow> bool" where "unit2 v \<longleftrightarrow> v2_dot v v = 1"

definition icp_target_ok :: "icp_matcher \<Rightarrow> bool" where
  "icp_target_ok m \<longleftrightarrow> (icp_tree m \<longrightarrow> icp_src_pts m \<noteq> [] \<and> length (icp_src_normals m) = length (icp_src_pts m) \<and>
     list_all unit2 (icp_src_normals m))"

lemma scatter_sym: "sym2 (scatter nb c)"
proof -
  have "sym2 A \<Longrightarrow> sym2 (fold (\<lambda>p. m2_add (outer2 (vsub p c) (vsub p c))) nb A)" for A
  proof (induction nb arbitrary: A)
    case (Cons p nb)
    have "sym2 (m2_add (outer2 (vsub p c) (vsub p c)) A)" using Cons.prems
      by (cases A rule: sym2.cases; cases "vsub p c") simp
    then show ?case using Cons.IH by simp
  qed simp
  then show ?thesis by (simp add: scatter_def)
qed

lemma sym2_scale: "sym2 A \<Longrightarrow> sym2 (m2_scale k A)"
  by (cases A rule: sym2.cases) simp

lemma estimate_normal_unit:
  assumes "knn_ok (icp_knn env)" and "eigen_ok env" and "k \<le> length pts"
  shows "\<exists>n. estimate_normal env pts k q = Some n \<and> unit2 n"
proof -
  have found: "length (icp_knn env pts q k) = k" "\<forall>(i, d) \<in> set (icp_knn env pts q k). i < length pts"
    using assms(1, 3) by (auto simp: knn_length dest: knn_index)
  then have idx: "\<forall>j \<in> set (neighbour_indices (icp_knn env) pts k q). j < length pts"
    by (auto simp: neighbour_indices_def Let_def)
  define cov where "cov = (let nb = map (\<lambda>j. pts ! j) (neighbour_indices (icp_knn env) pts k q)
    in m2_scale (1 / real (max (k - 1) 1)) (scatter nb (sample_mean nb)))"
  have sym: "sym2 cov" by (simp add: cov_def Let_def sym2_scale scatter_sym)
  have est: "estimate_normal env pts k q = Some (case sym_eigen env cov of
      Some (_, ((v00, _), (v10, _))) \<Rightarrow> v2_normalized (v00, v10) | None \<Rightarrow> (0, 1))"
    using idx by (simp add: estimate_normal_def cov_def Let_def)
  show ?thesis
  proof (cases "sym_eigen env cov")
    case None
    then show ?thesis by (simp add: est unit2_def)
  next
    case (Some e)
    obtain l v00 v01 v10 v11 where e: "e = (l, ((v00, v01), (v10, v11)))" by (metis surj_pair)
    have "is_eigen2 cov e" using assms(2) sym Some unfolding eigen_ok_def by blast
    then have "v00 * v00 + v10 * v10 = 1" by (auto simp: is_eigen2_def orthogonal2_def e split: prod.splits)
    then show ?thesis by (simp add: est Some e unit2_def v2_normalized_def)
  qed
qed

lemma set_target_ok:
  assumes "knn_ok (icp_knn env)" and "eigen_ok env" and "list_all unit2 normals"
  shows "\<exists>m'. icp_set_target_cloud_with_normals env pts normals m = Some m' \<and> icp_target_ok m' \<and>
    (robust_kernel m', robust_kernel_scale m', max_correspondence_dist m', icp_yaw_multiplier m', max_iterations m') =
    (robust_kernel m, robust_kernel_scale m, max_correspondence_dist m, icp_yaw_multiplier m, max_iterations m)"
proof (cases "kNormalNeighbors \<le> length pts")
  case True
  have "\<forall>q. \<exists>n. estimate_normal env pts kNormalNeighbors q = Some n \<and> unit2 n"
    using estimate_normal_unit [OF assms(1, 2) True] by blast
  then obtain h where h: "\<And>q. estimate_normal env pts kNormalNeighbors q = Some (h q)" "\<And>q. unit2 (h q)" by metis
  have "map (estimate_normal env pts kNormalNeighbors) pts = map Some (map h pts)" by (simp add: h)
  then have "estimate_all_normals env pts kNormalNeighbors = Some (map h pts)"
    unfolding estimate_all_normals_def those_Some_conv .
  then show ?thesis using True assms(3) h(2)
    by (auto simp: icp_set_target_cloud_with_normals_def icp_set_target_cloud_def icp_target_ok_def kNormalNeighbors_def list_all_iff)
next
  case False
  then show ?thesis by (simp add: icp_set_target_cloud_with_normals_def icp_set_target_cloud_def icp_target_ok_def)
qed

lemma unit_residual:
  assumes "unit2 n"
  shows "(icp_residual p (q, n))\<^sup>2 \<le> dist_sq p q"
proof -
  obtain a b where n: "n = (a, b)" by (cases n)
  obtain x y where p: "p = (x, y)" by (cases p)
  obtain u v where q: "q = (u, v)" by (cases q)
  have one: "a * a + b * b = 1" using assms by (simp add: n unit2_def)
  have "(a * a + b * b) * ((x - u)\<^sup>2 + (y - v)\<^sup>2) - (a * (x - u) + b * (y - v))\<^sup>2 = (a * (y - v) - b * (x - u))\<^sup>2"
    by (simp add: power2_eq_square algebra_simps)
  then have "(x - u)\<^sup>2 + (y - v)\<^sup>2 = (a * (x - u) + b * (y - v))\<^sup>2 + (a * (y - v) - b * (x - u))\<^sup>2" by (simp add: one)
  then show ?thesis by (simp add: icp_residual_def n p q dist_sq_def)
qed

lemma pair_ok:
  assumes "knn_ok (icp_knn env)" and "icp_target_ok m" and "icp_tree m"
  shows "\<exists>pair. icp_pair env m p = Some pair \<and>
    (\<forall>qn. pair = Some qn \<longrightarrow> (icp_residual p qn)\<^sup>2 < max_correspondence_dist m * max_correspondence_dist m)"
proof -
  have t: "icp_src_pts m \<noteq> []" "length (icp_src_normals m) = length (icp_src_pts m)" "list_all unit2 (icp_src_normals m)"
    using assms(2, 3) by (auto simp: icp_target_ok_def)
  obtain i where i: "icp_knn env (icp_src_pts m) p 1 = [(i, nearest_sq (icp_src_pts m) p)]" "i < length (icp_src_pts m)"
    "nearest_sq (icp_src_pts m) p = dist_sq p (icp_src_pts m ! i)" using knn_one [OF assms(1) t(1)] .
  have "unit2 (icp_src_normals m ! i)" using t i(2) by (simp add: list_all_length)
  then have "(icp_residual p (icp_src_pts m ! i, icp_src_normals m ! i))\<^sup>2 \<le> nearest_sq (icp_src_pts m) p"
    using unit_residual i(3) by simp
  then show ?thesis using t(2) i(1, 2) by (auto simp: icp_pair_def simp del: split_paired_All)
qed

lemma kernel_cost_bounds:
  assumes "kernel_ok m" and "r\<^sup>2 < max_correspondence_dist m * max_correspondence_dist m"
  shows "0 \<le> kernel_cost m r" and "kernel_cost m r \<le> c_max m"
proof -
  let ?D = "max_correspondence_dist m" and ?s = "robust_kernel_scale m"
  have pos: "0 < ?s" "0 < ?D" using assms(1) by (auto simp: kernel_ok_def)
  have r: "\<bar>r\<bar> < ?D" by (rule power2_less_imp_less) (use assms(2) pos in \<open>simp_all add: power2_eq_square\<close>)
  have huber: "robust_kernel m = ''huber'' \<Longrightarrow> 0 \<le> kernel_cost m r \<and> kernel_cost m r \<le> c_max m"
  proof -
    assume h: "robust_kernel m = ''huber''"
    have sD: "?s \<le> ?D" using assms(1) h by (simp add: kernel_ok_def)
    show ?thesis
    proof (cases "\<bar>r\<bar> \<le> ?s")
      case True
      then have "r * r \<le> ?s * ?s" by (metis abs_ge_zero abs_mult_self_eq mult_mono' )
      moreover have "?s * ?s \<le> ?s * ?D" using sD pos by simp
      ultimately show ?thesis using True by (simp add: kernel_cost_def c_max_def h algebra_simps)
    next
      case False
      then have "0 \<le> ?s * (\<bar>r\<bar> - 0.5 * ?s)" "?s * (\<bar>r\<bar> - 0.5 * ?s) \<le> ?s * (?D - 0.5 * ?s)" using r pos by simp_all
      then show ?thesis using False by (simp add: kernel_cost_def c_max_def h)
    qed
  qed
  have cauchy: "robust_kernel m = ''cauchy'' \<Longrightarrow> 0 \<le> kernel_cost m r \<and> kernel_cost m r \<le> c_max m"
  proof -
    assume c: "robust_kernel m = ''cauchy''"
    let ?q = "r / ?s * (r / ?s)"
    have "0 \<le> ln (1 + ?q)" "ln (1 + ?q) \<le> ?q" by (simp_all add: ln_add_one_self_le_self)
    then have "?s * ?s * ln (1 + ?q) \<le> ?s * ?s * ?q" "0 \<le> ?s * ?s * ln (1 + ?q)"
      using pos(1) mult_left_mono [of "ln (1 + ?q)" ?q "?s * ?s"] mult_nonneg_nonneg [of "?s * ?s" "ln (1 + ?q)"] by (simp_all only: mult_nonneg_nonneg less_imp_le)
    moreover have "?s * ?s * ?q = r * r" using pos by simp
    moreover have "r * r < ?D * ?D" using assms(2) by (simp add: power2_eq_square)
    moreover have "?D * ?D \<le> 2 * ?D" using assms(1) c pos by (simp add: kernel_ok_def)
    ultimately show ?thesis by (simp add: kernel_cost_def c_max_def c Let_def)
  qed
  have "0 \<le> kernel_cost m r \<and> kernel_cost m r \<le> c_max m"
  proof (cases "robust_kernel m = ''huber'' \<or> robust_kernel m = ''cauchy''")
    case True
    then show ?thesis using huber cauchy by blast
  next
    case False
    then show ?thesis using r by (simp add: kernel_cost_def c_max_def)
  qed
  then show "0 \<le> kernel_cost m r" and "kernel_cost m r \<le> c_max m" by auto
qed

definition icp_env_ok :: "icp_env \<Rightarrow> bool" where
  "icp_env_ok env \<longleftrightarrow> threads_ok env \<and> knn_ok (icp_knn env) \<and> eigen_ok env \<and> eigen_converges env"

lemma pairs_ok:
  assumes "knn_ok (icp_knn env)" and "icp_target_ok m" and "icp_tree m"
  shows "\<exists>pairs. those (map (icp_pair env m) ps) = Some pairs \<and> length pairs = length ps \<and>
    (\<forall>i < length ps. \<forall>qn. pairs ! i = Some qn \<longrightarrow> (icp_residual (ps ! i) qn)\<^sup>2 < max_correspondence_dist m * max_correspondence_dist m)"
proof -
  obtain h where h: "\<And>p. icp_pair env m p = Some (h p)"
    "\<And>p qn. h p = Some qn \<Longrightarrow> (icp_residual p qn)\<^sup>2 < max_correspondence_dist m * max_correspondence_dist m"
    using pair_ok [OF assms] by metis
  have "map (icp_pair env m) ps = map Some (map h ps)" by (simp add: h(1))
  then have "those (map (icp_pair env m) ps) = Some (map h ps)" unfolding those_Some_conv .
  then show ?thesis using h(2) by (intro exI [of _ "map h ps"]) (simp del: split_paired_All)
qed

lemma iterate_ok:
  assumes "threads_ok env" and "knn_ok (icp_knn env)" and "icp_target_ok m" and "icp_tree m" and "kernel_ok m"
  shows "\<exists>out. icp_iterate env m dst_pts guess k pose H n = Some out \<and>
    (\<forall>pose' H' n'. out = Iterated True pose' H' n' \<longrightarrow> icp_kMinCorrespondences \<le> n' \<and> psd3 H')"
proof (induction k arbitrary: pose H n)
  case (Suc k)
  obtain tx ty theta where pose: "pose = (tx, ty, theta)" by (cases pose)
  obtain pairs where "those (map (icp_pair env m) (apply_transform dst_pts tx ty theta)) = Some pairs"
    using pairs_ok [OF assms(2, 3, 4)] by blast
  then obtain H1 b1 n1 where lin: "icp_linearise env m (apply_transform dst_pts tx ty theta) tx ty = Some (H1, b1, n1)"
    using prod_cases3 unfolding icp_linearise_def by (metis (no_types) option.simps(9))
  have psd: "psd3 H1" using linearise_spec [OF assms(1) lin assms(5)] by blast
  obtain dx dy dyaw where delta: "icp_delta env m guess (tx, ty, theta) H1 b1 = (dx, dy, dyaw)" by (cases "icp_delta env m guess (tx, ty, theta) H1 b1")
  show ?case
  proof (cases "n1 < icp_kMinCorrespondences \<or> \<not> (hypot dx dy < tolerance_trans m \<and> \<bar>dyaw\<bar> < tolerance_rot m)")
    case True
    then show ?thesis using Suc.IH by (auto simp: pose lin delta Let_def)
  next
    case False
    then show ?thesis using psd by (auto simp: pose lin delta Let_def)
  qed
qed simp

lemma clamp_in: "lo \<le> hi \<Longrightarrow> lo \<le> clamp v lo hi \<and> clamp v lo hi \<le> hi"
  by (auto simp: clamp_def)

lemma clamp_trans_bounds:
  assumes "eigen_ok env" and "eigen_converges env" and "sym2 A"
  shows "sym2 (clamp_trans env A) \<and> 20 * v2_dot v v \<le> quad2 (clamp_trans env A) v \<and> quad2 (clamp_trans env A) v \<le> 1000 * v2_dot v v"
proof -
  obtain e where e: "sym_eigen env A = Some e" using assms(2, 3) unfolding eigen_converges_def by blast
  then have "is_eigen2 A e" using assms(1, 3) unfolding eigen_ok_def by blast
  then obtain l0 l1 p q r s where e': "e = ((l0, l1), ((p, q), (r, s)))" and orth: "orthogonal2 ((p, q), (r, s))"
    by (auto simp: is_eigen2_def split: prod.splits)
  obtain x y where v: "v = (x, y)" by (cases v)
  define c0 c1 where "c0 = clamp l0 20 1000" and "c1 = clamp l1 20 1000"
  define u0 u1 where "u0 = p * x + r * y" and "u1 = q * x + s * y"
  have ct: "clamp_trans env A = ((c0 * p * p + c1 * q * q, c0 * p * r + c1 * q * s), (c0 * p * r + c1 * q * s, c0 * r * r + c1 * s * s))"
    by (simp add: clamp_trans_def e e' c0_def [symmetric] c1_def [symmetric] mult_ac)
  have one: "p * p + q * q = 1" "p * r + q * s = 0" "r * r + s * s = 1" using orth by (simp_all add: orthogonal2_def)
  have quad: "quad2 (clamp_trans env A) v = c0 * (u0 * u0) + c1 * (u1 * u1)"
    by (simp add: ct v quad2_def u0_def u1_def algebra_simps)
  have "u0 * u0 + u1 * u1 = (p * p + q * q) * (x * x) + 2 * (p * r + q * s) * (x * y) + (r * r + s * s) * (y * y)"
    by (simp add: u0_def u1_def algebra_simps)
  then have norm: "v2_dot v v = u0 * u0 + u1 * u1" by (simp add: v one)
  have "20 * (u0 * u0) \<le> c0 * (u0 * u0)" "c0 * (u0 * u0) \<le> 1000 * (u0 * u0)" "20 * (u1 * u1) \<le> c1 * (u1 * u1)" "c1 * (u1 * u1) \<le> 1000 * (u1 * u1)"
    using clamp_in [of 20 1000] by (auto simp: c0_def c1_def intro: mult_right_mono)
  then show ?thesis unfolding quad norm by (simp add: ct)
qed

lemma fold_cost_bounds:
  assumes "\<forall>(c, n) \<in> set xs. 0 \<le> c \<and> c \<le> real n * C"
  shows "\<exists>c n. fold add_cost xs (c0, n0) = (c0 + c, n0 + n) \<and> 0 \<le> c \<and> c \<le> real n * C \<and> n = sum_list (map snd xs)"
  using assms
proof (induction xs arbitrary: c0 n0)
  case (Cons x xs)
  obtain c1 n1 where x: "x = (c1, n1)" by (cases x)
  obtain c n where IH: "fold add_cost xs (c0 + c1, n0 + n1) = (c0 + c1 + c, n0 + n1 + n)" "0 \<le> c" "c \<le> real n * C" "n = sum_list (map snd xs)"
    using Cons.IH [of "c0 + c1" "n0 + n1"] Cons.prems by auto
  show ?case using IH Cons.prems
    by (intro exI [of _ "c1 + c"] exI [of _ "n1 + n"]) (auto simp: x add_cost_def algebra_simps)
qed simp

lemma score_bounds:
  assumes "threads_ok env" and "knn_ok (icp_knn env)" and "icp_target_ok m" and "icp_tree m" and "kernel_ok m"
  shows "\<exists>s. icp_score env m dst_pts pose = Some s \<and> 0 \<le> s \<and> s \<le> c_max m"
proof -
  obtain tx ty theta where pose: "pose = (tx, ty, theta)" by (cases pose)
  define ps where "ps = apply_transform dst_pts tx ty theta"
  have len: "length ps = length dst_pts" by (simp add: ps_def apply_transform_def)
  obtain pairs where p: "those (map (icp_pair env m) ps) = Some pairs" "length pairs = length ps"
    and res: "\<And>i qn. i < length ps \<Longrightarrow> pairs ! i = Some qn \<Longrightarrow> (icp_residual (ps ! i) qn)\<^sup>2 < max_correspondence_dist m * max_correspondence_dist m"
    using pairs_ok [OF assms(2, 3, 4)] by metis
  define t where "t = (\<lambda>i. cost_term m (ps ! i) (pairs ! i))"
  have "\<forall>(c, n) \<in> set (map t [0..<length ps]). 0 \<le> c \<and> c \<le> real n * c_max m"
    using kernel_cost_bounds [OF assms(5) res] by (auto simp: t_def cost_term_def split: option.splits)
  from fold_cost_bounds [OF this, of 0 0] obtain c n where f: "fold add_cost (map t [0..<length ps]) (0, 0) = (c, n)"
    "0 \<le> c" "c \<le> real n * c_max m" "n = sum_list (map snd (map t [0..<length ps]))" by auto
  have "sum_list (map snd (map t [0..<length ps])) \<le> sum_list (map (\<lambda>_. 1) [0..<length ps])"
    unfolding map_map by (rule sum_list_mono) (auto simp: t_def cost_term_def split: option.splits)
  then have n: "n \<le> length dst_pts" using f(4) len by (simp add: sum_list_triv)
  have C: "0 \<le> c_max m" using kernel_cost_bounds [OF assms(5), of 0] assms(5) by (fastforce simp: kernel_ok_def)
  have red: "fold add_cost (map (\<lambda>is. fold add_cost (map t is) (0, 0)) (icp_threads env (length ps))) (0, 0) = (c, n)"
    using costs.reduction_order [of "icp_threads env (length ps)" "length ps" t] assms(1) f(1) by (simp add: threads_ok_def)
  have "icp_score env m dst_pts pose = Some (if icp_kMinCorrespondences \<le> n \<and> 0 < length dst_pts
      then (c + real_of_int (int (length dst_pts) - int n) * c_max m) / real (length dst_pts) else c_max m)"
    using red p(1) by (simp add: icp_score_def pose Let_def ps_def [symmetric] t_def)
  moreover have "0 \<le> c + real_of_int (int (length dst_pts) - int n) * c_max m"
    using f(2) C n by (intro add_nonneg_nonneg mult_nonneg_nonneg) auto
  moreover have "c + real_of_int (int (length dst_pts) - int n) * c_max m \<le> c_max m * real (length dst_pts)"
    using f(3) by (simp add: algebra_simps)
  ultimately show ?thesis using C by (simp add: pos_divide_le_eq)
qed

lemma pair_threads: "icp_pair (env\<lparr>icp_threads := thr\<rparr>) m = icp_pair env m"
  by (simp add: icp_pair_def fun_eq_iff)

lemma linearise_threads:
  assumes "threads_ok env" and "threads_ok (env\<lparr>icp_threads := thr\<rparr>)"
  shows "icp_linearise (env\<lparr>icp_threads := thr\<rparr>) m ps tx ty = icp_linearise env m ps tx ty"
  using thread_sums_eq [OF assms(1)] thread_sums_eq [OF assms(2)]
  by (simp add: icp_linearise_def pair_threads)

lemma iterate_threads:
  assumes "threads_ok env" and "threads_ok (env\<lparr>icp_threads := thr\<rparr>)"
  shows "icp_iterate (env\<lparr>icp_threads := thr\<rparr>) m dst_pts guess k pose H n = icp_iterate env m dst_pts guess k pose H n"
proof (induction k arbitrary: pose H n)
  case (Suc k)
  obtain tx ty theta where pose: "pose = (tx, ty, theta)" by (cases pose)
  show ?case by (simp add: pose linearise_threads [OF assms] Suc.IH icp_delta_def cong: if_cong)
qed simp

lemma score_threads:
  assumes "threads_ok env" and "threads_ok (env\<lparr>icp_threads := thr\<rparr>)"
  shows "icp_score (env\<lparr>icp_threads := thr\<rparr>) m dst_pts pose = icp_score env m dst_pts pose"
proof -
  have "fold add_cost (map (\<lambda>is. fold add_cost (map t is) (0, 0)) (icp_threads (env\<lparr>icp_threads := thr\<rparr>) k)) (0, 0) =
    fold add_cost (map (\<lambda>is. fold add_cost (map t is) (0, 0)) (icp_threads env k)) (0, 0)" for t k
    using assms unfolding threads_ok_def by (metis costs.reduction_order)
  then show ?thesis by (simp only: icp_score_def pair_threads)
qed

lemma match_threads:
  assumes "threads_ok env" and "threads_ok (env\<lparr>icp_threads := thr\<rparr>)"
  shows "icp_match (env\<lparr>icp_threads := thr\<rparr>) dst guess m = icp_match env dst guess m"
proof -
  have "icp_information (env\<lparr>icp_threads := thr\<rparr>) = icp_information env" by (intro ext) (simp add: icp_information_def clamp_trans_def)
  then show ?thesis
    by (simp only: icp_match_def icp_match_points_def iterate_threads [OF assms] score_threads [OF assms])
qed

definition icp_bounds :: "icp_matcher \<Rightarrow> MatchResult \<Rightarrow> bool" where
  "icp_bounds m r \<longleftrightarrow> 0 \<le> m_score r \<and> m_score r \<le> c_max m \<and> sym2 (m3_trans_block (m_information r)) \<and>
     (\<forall>v. 20 * v2_dot v v \<le> quad2 (m3_trans_block (m_information r)) v \<and> quad2 (m3_trans_block (m_information r)) v \<le> 1000 * v2_dot v v) \<and>
     20 * icp_yaw_multiplier m \<le> m3_rot (m_information r) \<and> m3_rot (m_information r) \<le> 5000 * icp_yaw_multiplier m"

lemma information_bounds:
  assumes "eigen_ok env" and "eigen_converges env" and "psd3 H" and "0 < n" and "0 \<le> icp_yaw_multiplier m"
  shows "sym2 (m3_trans_block (icp_information env m H n)) \<and>
    (\<forall>v. 20 * v2_dot v v \<le> quad2 (m3_trans_block (icp_information env m H n)) v \<and>
       quad2 (m3_trans_block (icp_information env m H n)) v \<le> 1000 * v2_dot v v) \<and>
    20 * icp_yaw_multiplier m \<le> m3_rot (icp_information env m H n) \<and> m3_rot (icp_information env m H n) \<le> 5000 * icp_yaw_multiplier m"
proof -
  let ?N = "m3_scale 400 (m3_scale (1 / real n) H)"
  obtain a b c d where ct: "clamp_trans env (m3_trans_block ?N) = ((a, b), (c, d))" by (metis surj_pair)
  have "sym3 ?N" using assms(3) by (simp add: psd3_def)
  then have "sym2 (m3_trans_block ?N)" by (cases ?N rule: sym3.cases) simp
  from clamp_trans_bounds [OF assms(1, 2) this, unfolded ct]
  have bounds: "sym2 ((a, b), (c, d))" "\<forall>v. 20 * v2_dot v v \<le> quad2 ((a, b), (c, d)) v \<and> quad2 ((a, b), (c, d)) v \<le> 1000 * v2_dot v v"
    by blast+
  have "icp_information env m H n = ((a, b, 0), (c, d, 0), (0, 0, clamp (m3_rot ?N) 20 5000 * icp_yaw_multiplier m))"
    using assms(4) ct by (simp add: icp_information_def Let_def)
  moreover have "20 * icp_yaw_multiplier m \<le> clamp (m3_rot ?N) 20 5000 * icp_yaw_multiplier m"
    "clamp (m3_rot ?N) 20 5000 * icp_yaw_multiplier m \<le> 5000 * icp_yaw_multiplier m"
    using clamp_in [of 20 5000] assms(5) by (auto intro: mult_right_mono)
  ultimately show ?thesis using bounds by (simp only: m3_trans_block.simps m3_rot.simps simp_thms)
qed

lemma match_bounds:
  assumes "icp_env_ok env" and "kernel_ok m" and "0 \<le> icp_yaw_multiplier m" and "icp_target_ok m"
  shows "\<exists>r. icp_match env dst guess m = Some r \<and> (m_converged r \<longrightarrow> icp_bounds m r)"
proof (cases "dst = None \<or> icp_src_pts m = [] \<or> \<not> icp_tree m \<or> icp_src_normals m = [] \<or> length (scan_to_points (the dst)) < icp_kMinCorrespondences")
  case True
  then show ?thesis by (cases dst) (auto simp: icp_match_def icp_match_points_def no_match_def)
next
  case False
  then obtain scan where dst: "dst = Some scan" and tree: "icp_tree m" by auto
  have e: "threads_ok env" "knn_ok (icp_knn env)" "eigen_ok env" "eigen_converges env" using assms(1) by (auto simp: icp_env_ok_def)
  obtain out where out: "icp_iterate env m (scan_to_points scan) guess (nat (max_iterations m)) (o_x guess, o_y guess, o_yaw guess) zero_mat3 0 = Some out"
    and conv: "\<And>pose H n. out = Iterated True pose H n \<Longrightarrow> icp_kMinCorrespondences \<le> n \<and> psd3 H"
    using iterate_ok [OF e(1, 2) assms(4) tree assms(2)] by metis
  have m: "icp_match env dst guess m = (case out of
      TooFew (tx, ty, theta) \<Rightarrow> Some \<lparr>m_dx = tx, m_dy = ty, m_dyaw = theta, m_converged = False, m_information = zero_mat3, m_score = 0\<rparr>
    | Iterated converged (tx, ty, theta) H n \<Rightarrow> Option.bind (if converged then icp_score env m (scan_to_points scan) (tx, ty, theta) else Some 0)
        (\<lambda>score. Some \<lparr>m_dx = tx, m_dy = ty, m_dyaw = theta, m_converged = converged, m_information = icp_information env m H n, m_score = score\<rparr>))"
    using False out by (simp add: dst icp_match_def icp_match_points_def)
  show ?thesis
  proof (cases out)
    case (TooFew pose)
    then show ?thesis by (cases pose) (simp add: m)
  next
    case (Iterated converged pose H n)
    obtain tx ty theta where pose: "pose = (tx, ty, theta)" by (cases pose)
    show ?thesis
    proof (cases converged)
      case True
      obtain s where s: "icp_score env m (scan_to_points scan) pose = Some s" "0 \<le> s" "s \<le> c_max m"
        using score_bounds [OF e(1, 2) assms(4) tree assms(2)] by blast
      have "psd3 H" "0 < n" using conv Iterated True by (auto simp: icp_kMinCorrespondences_def)
      from information_bounds [OF e(3, 4) this assms(3)] show ?thesis using s
        by (simp add: m Iterated True pose icp_bounds_def del: split_paired_All)
    next
      case False
      then show ?thesis by (simp add: m Iterated pose)
    qed
  qed
qed


section \<open>An instance\<close>

definition plain_env :: icp_env where
  "plain_env = \<lparr>icp_knn = linear_knn, ldlt_solve = ldlt3, sym_eigen = (\<lambda>A. Some (eigen_closed_form A)), icp_threads = (\<lambda>n. [[0..<n]])\<rparr>"

lemma plain_env_ok: "icp_env_ok plain_env" "ldlt_ok plain_env"
  by (simp_all add: icp_env_ok_def ldlt_ok_def plain_env_def threads_ok_def eigen_ok_def eigen_converges_def linear_knn_ok eigen_closed_form_ok
      ldlt3_solves del: split_paired_All)

definition wall_matcher :: icp_matcher where
  "wall_matcher = (ICPMatcher 20 0.001 0.5 ''huber'' 0.1 1 10 500 100 (- 1) (- 1))
     \<lparr>icp_src_pts := [(0, 1)], icp_src_normals := [(0, 1)], icp_tree := True\<rparr>"



end
