(* ===== verification/ExhaustiveCsm.thy ===== *)
theory ExhaustiveCsm
  imports PointSearch MultiResCsm
begin

text \<open>
  \<^verbatim>\<open>scan_matching/csm_matcher.cpp\<close>: the exhaustive correlative matcher.  Every pose of a raster around the initial guess is
  scored by the distance of each scan point to the nearest target point; the best pose wins.  A conversion to \<^verbatim>\<open>int\<close> that
  does not fit and a vector of negative length are \<open>None\<close>.
\<close>

section \<open>Definitions\<close>

record xcsm =
  xc_linear_search_window :: real
  xc_angular_search_window :: real
  xc_linear_step :: real
  xc_angular_step :: real
  xc_yaw_information_multiplier :: real
  xc_src_pts :: "vec2 list"
  xc_tree :: "vec2 list option"

definition CSMMatcher :: "real \<Rightarrow> real \<Rightarrow> real \<Rightarrow> real \<Rightarrow> real \<Rightarrow> xcsm" where
  "CSMMatcher linear_window angular_window l_step a_step yaw_multiplier =
     \<lparr>xc_linear_search_window = linear_window, xc_angular_search_window = angular_window, xc_linear_step = l_step,
      xc_angular_step = a_step, xc_yaw_information_multiplier = yaw_multiplier, xc_src_pts = [], xc_tree = None\<rparr>"

definition xc_kMinCorrespondences :: nat where "xc_kMinCorrespondences = 10"

definition xc_set_target_cloud :: "vec2 list \<Rightarrow> xcsm \<Rightarrow> xcsm" where
  "xc_set_target_cloud src_pts m =
     m\<lparr>xc_src_pts := src_pts, xc_tree := (if xc_kMinCorrespondences \<le> length src_pts then Some src_pts else None)\<rparr>"

definition xc_steps :: "real \<Rightarrow> real \<Rightarrow> int option" where
  "xc_steps window step = (if step = 0 then None else to_int32 (window / step))"

definition xc_offsets :: "int \<Rightarrow> real \<Rightarrow> real list option" where
  "xc_offsets steps step =
     (if 0 \<le> steps \<and> 2 * steps + 1 < 2 ^ 31 then Some (map (\<lambda>i. of_int i * step) [- steps..steps]) else None)"

record xc_best =
  xb_score :: "real option"
  xb_tx :: real
  xb_ty :: real
  xb_theta :: real

text \<open>The number of scan points near the target and their score, at one pose.\<close>

definition xc_point :: "knn_search \<Rightarrow> xcsm \<Rightarrow> vec2 list \<Rightarrow> real \<Rightarrow> real \<Rightarrow> vec2 \<Rightarrow> nat \<times> real \<Rightarrow> nat \<times> real" where
  "xc_point knn m tree tx ty p = (\<lambda>(valid_count, score).
     let sigma_sq = (xc_linear_step m * 2) ^ 2; max_dist_sq = (xc_linear_step m * 3) ^ 2
     in case knn tree (fst p + tx, snd p + ty) 1 of
          [] \<Rightarrow> (valid_count, score)
        | (_, out_dist_sq) # _ \<Rightarrow>
            if out_dist_sq \<le> max_dist_sq then (valid_count + 1, score + exp (- 0.5 * out_dist_sq / sigma_sq))
            else (valid_count, score))"

definition xc_evaluate :: "knn_search \<Rightarrow> xcsm \<Rightarrow> vec2 list \<Rightarrow> vec2 list \<Rightarrow> real \<Rightarrow> real \<Rightarrow> nat \<times> real" where
  "xc_evaluate knn m tree rotated_dst tx ty = fold (xc_point knn m tree tx ty) rotated_dst (0, 0)"

definition xc_consider :: "nat \<times> real \<Rightarrow> real \<Rightarrow> real \<Rightarrow> real \<Rightarrow> xc_best \<Rightarrow> xc_best" where
  "xc_consider = (\<lambda>(valid_count, score) tx ty theta b.
     if xc_kMinCorrespondences \<le> valid_count \<and> (case xb_score b of None \<Rightarrow> True | Some best_score \<Rightarrow> best_score < score)
     then \<lparr>xb_score = Some score, xb_tx = tx, xb_ty = ty, xb_theta = theta\<rparr> else b)"

definition xc_search :: "knn_search \<Rightarrow> xcsm \<Rightarrow> vec2 list \<Rightarrow> vec2 list \<Rightarrow> OdomData \<Rightarrow> real list \<Rightarrow> real list \<Rightarrow> real list \<Rightarrow> xc_best" where
  "xc_search knn m tree dst_pts guess x_offsets y_offsets yaw_offsets =
     fold (\<lambda>dyaw. let theta = o_yaw guess + dyaw; rotated_dst = csm_rotate theta dst_pts
       in fold (\<lambda>dx. fold (\<lambda>dy. let tx = o_x guess + dx; ty = o_y guess + dy
            in xc_consider (xc_evaluate knn m tree rotated_dst tx ty) tx ty theta) y_offsets) x_offsets) yaw_offsets
       \<lparr>xb_score = None, xb_tx = o_x guess, xb_ty = o_y guess, xb_theta = o_yaw guess\<rparr>"

definition xc_result :: "xcsm \<Rightarrow> nat \<Rightarrow> xc_best \<Rightarrow> MatchResult" where
  "xc_result m n b =
     (case xb_score b of
        Some best_score \<Rightarrow>
          if 0 < best_score then
            let factor = (best_score / real n) * 100
            in \<lparr>m_dx = xb_tx b, m_dy = xb_ty b, m_dyaw = xb_theta b, m_converged = True,
                m_information = ((factor, 0, 0), (0, factor, 0), (0, 0, factor * xc_yaw_information_multiplier m)), m_score = best_score\<rparr>
          else \<lparr>m_dx = xb_tx b, m_dy = xb_ty b, m_dyaw = xb_theta b, m_converged = False, m_information = zero_mat3, m_score = 0\<rparr>
      | None \<Rightarrow> \<lparr>m_dx = xb_tx b, m_dy = xb_ty b, m_dyaw = xb_theta b, m_converged = False, m_information = zero_mat3, m_score = 0\<rparr>)"

definition xc_match :: "knn_search \<Rightarrow> ScanData option \<Rightarrow> OdomData \<Rightarrow> xcsm \<Rightarrow> MatchResult option" where
  "xc_match knn dst guess m =
     (case (xc_tree m, dst) of
        (Some tree, Some scan) \<Rightarrow>
          if xc_src_pts m = [] then Some (no_match guess)
          else
            let dst_pts = scan_to_points scan
            in if length dst_pts < xc_kMinCorrespondences then Some (no_match guess)
               else do {
                 x_steps \<leftarrow> xc_steps (xc_linear_search_window m) (xc_linear_step m);
                 y_steps \<leftarrow> xc_steps (xc_linear_search_window m) (xc_linear_step m);
                 yaw_steps \<leftarrow> xc_steps (xc_angular_search_window m) (xc_angular_step m);
                 x_offsets \<leftarrow> xc_offsets x_steps (xc_linear_step m);
                 y_offsets \<leftarrow> xc_offsets y_steps (xc_linear_step m);
                 yaw_offsets \<leftarrow> xc_offsets yaw_steps (xc_angular_step m);
                 Some (xc_result m (length dst_pts) (xc_search knn m tree dst_pts guess x_offsets y_offsets yaw_offsets))
               }
      | _ \<Rightarrow> Some (no_match guess))"

section \<open>The search finds the best pose\<close>

text \<open>
  The reference: the poses of the raster in the order of the loops, the scan points at a pose that lie near the target,
  and the sum of their Gaussian weights.
\<close>

definition raster_poses :: "xcsm \<Rightarrow> OdomData \<Rightarrow> pose list" where
  "raster_poses m guess =
     (let n = trunc_int (xc_linear_search_window m / xc_linear_step m); k = trunc_int (xc_angular_search_window m / xc_angular_step m)
      in concat (map (\<lambda>c. concat (map (\<lambda>a. map (\<lambda>b.
           (o_x guess + of_int a * xc_linear_step m, o_y guess + of_int b * xc_linear_step m, o_yaw guess + of_int c * xc_angular_step m))
           [- n..n]) [- n..n])) [- k..k]))"

definition near_points :: "xcsm \<Rightarrow> vec2 list \<Rightarrow> pose \<Rightarrow> vec2 list" where
  "near_points m dst_pts = (\<lambda>(tx, ty, theta).
     filter (\<lambda>q. nearest_sq (xc_src_pts m) q \<le> (3 * xc_linear_step m)\<^sup>2) (points_local_to_world dst_pts tx ty theta))"

definition pose_score :: "xcsm \<Rightarrow> vec2 list \<Rightarrow> pose \<Rightarrow> real" where
  "pose_score m dst_pts p =
     sum_list (map (\<lambda>q. exp (- nearest_sq (xc_src_pts m) q / (2 * (2 * xc_linear_step m)\<^sup>2))) (near_points m dst_pts p))"

definition eligible :: "xcsm \<Rightarrow> vec2 list \<Rightarrow> pose \<Rightarrow> bool" where
  "eligible m dst_pts p \<longleftrightarrow> 10 \<le> length (near_points m dst_pts p)"

lemma near_points_Cons:
  "near_points m (p # ps) (tx, ty, theta) =
     (let q = (cos theta * fst p - sin theta * snd p + tx, sin theta * fst p + cos theta * snd p + ty)
      in if nearest_sq (xc_src_pts m) q \<le> (3 * xc_linear_step m)\<^sup>2 then q # near_points m ps (tx, ty, theta) else near_points m ps (tx, ty, theta))"
  by (simp add: near_points_def points_local_to_world_def Let_def case_prod_beta)

lemma evaluate_spec:
  assumes "knn_ok knn" and "xc_src_pts m \<noteq> []"
  shows "xc_evaluate knn m (xc_src_pts m) (csm_rotate theta dst_pts) tx ty =
    (length (near_points m dst_pts (tx, ty, theta)), pose_score m dst_pts (tx, ty, theta))"
proof -
  have "fold (xc_point knn m (xc_src_pts m) tx ty) (csm_rotate theta dst_pts) (n, s) =
    (n + length (near_points m dst_pts (tx, ty, theta)), s + pose_score m dst_pts (tx, ty, theta))" for n s
  proof (induction dst_pts arbitrary: n s)
    case Nil
    show ?case by (simp add: csm_rotate_def near_points_def pose_score_def points_local_to_world_def)
  next
    case (Cons p dst_pts)
    obtain x y where p: "p = (x, y)" by (cases p)
    define q where "q = (cos theta * x - sin theta * y + tx, sin theta * x + cos theta * y + ty)"
    obtain i where i: "knn (xc_src_pts m) q 1 = [(i, nearest_sq (xc_src_pts m) q)]" using knn_one [OF assms] .
    have step: "xc_point knn m (xc_src_pts m) tx ty (cos theta * x - sin theta * y, sin theta * x + cos theta * y) (n, s) =
      (if nearest_sq (xc_src_pts m) q \<le> (3 * xc_linear_step m)\<^sup>2
       then (n + 1, s + exp (- nearest_sq (xc_src_pts m) q / (2 * (2 * xc_linear_step m)\<^sup>2))) else (n, s))"
      using i by (simp add: xc_point_def q_def Let_def mult.commute [of "xc_linear_step m"])
    have "csm_rotate theta (p # dst_pts) = (cos theta * x - sin theta * y, sin theta * x + cos theta * y) # csm_rotate theta dst_pts"
      by (simp add: csm_rotate_def p)
    moreover have "near_points m (p # dst_pts) (tx, ty, theta) =
      (if nearest_sq (xc_src_pts m) q \<le> (3 * xc_linear_step m)\<^sup>2 then q # near_points m dst_pts (tx, ty, theta) else near_points m dst_pts (tx, ty, theta))"
      by (simp add: near_points_Cons p q_def)
    ultimately show ?case by (simp add: step Cons.IH pose_score_def)
  qed
  from this [of 0 0] show ?thesis by (simp add: xc_evaluate_def)
qed

definition first_best :: "xcsm \<Rightarrow> vec2 list \<Rightarrow> pose list \<Rightarrow> nat \<Rightarrow> bool" where
  "first_best m dst_pts ps j \<longleftrightarrow> j < length ps \<and> eligible m dst_pts (ps ! j) \<and>
     (\<forall>i < length ps. eligible m dst_pts (ps ! i) \<longrightarrow> pose_score m dst_pts (ps ! i) \<le> pose_score m dst_pts (ps ! j)) \<and>
     (\<forall>i < j. eligible m dst_pts (ps ! i) \<longrightarrow> pose_score m dst_pts (ps ! i) < pose_score m dst_pts (ps ! j))"

definition take_candidate :: "xcsm \<Rightarrow> vec2 list \<Rightarrow> pose \<Rightarrow> xc_best \<Rightarrow> xc_best" where
  "take_candidate m dst_pts = (\<lambda>(tx, ty, theta) b.
     if eligible m dst_pts (tx, ty, theta) \<and> (case xb_score b of None \<Rightarrow> True | Some s \<Rightarrow> s < pose_score m dst_pts (tx, ty, theta))
     then \<lparr>xb_score = Some (pose_score m dst_pts (tx, ty, theta)), xb_tx = tx, xb_ty = ty, xb_theta = theta\<rparr> else b)"

definition best_is :: "xcsm \<Rightarrow> vec2 list \<Rightarrow> pose list \<Rightarrow> xc_best \<Rightarrow> xc_best \<Rightarrow> bool" where
  "best_is m dst_pts ps start b \<longleftrightarrow>
     (if \<exists>p \<in> set ps. eligible m dst_pts p
      then \<exists>j. first_best m dst_pts ps j \<and> (xb_tx b, xb_ty b, xb_theta b) = ps ! j \<and> xb_score b = Some (pose_score m dst_pts (ps ! j))
      else b = start)"

lemma first_best_snoc:
  assumes "first_best m dst_pts ps j"
  shows "first_best m dst_pts (ps @ [p])
    (if eligible m dst_pts p \<and> pose_score m dst_pts (ps ! j) < pose_score m dst_pts p then length ps else j)"
  using assms by (force simp: first_best_def nth_append less_Suc_eq)

lemma first_best_new:
  assumes "\<forall>p \<in> set ps. \<not> eligible m dst_pts p" and "eligible m dst_pts p"
  shows "first_best m dst_pts (ps @ [p]) (length ps)"
  using assms by (auto simp: first_best_def nth_append less_Suc_eq)

lemma fold_take_candidate:
  assumes "xb_score start = None"
  shows "best_is m dst_pts ps start (fold (take_candidate m dst_pts) ps start)"
proof (induction ps rule: rev_induct)
  case Nil
  show ?case by (simp add: best_is_def)
next
  case (snoc p ps)
  define b where "b = fold (take_candidate m dst_pts) ps start"
  obtain tx ty theta where p: "p = (tx, ty, theta)" by (cases p)
  have "best_is m dst_pts (ps @ [p]) start (take_candidate m dst_pts p b)"
  proof (cases "\<exists>q \<in> set ps. eligible m dst_pts q")
    case True
    then obtain j where j: "first_best m dst_pts ps j" "(xb_tx b, xb_ty b, xb_theta b) = ps ! j" "xb_score b = Some (pose_score m dst_pts (ps ! j))"
      using snoc by (auto simp: best_is_def b_def)
    then have len: "j < length ps" by (simp add: first_best_def)
    show ?thesis
    proof (cases "eligible m dst_pts p \<and> pose_score m dst_pts (ps ! j) < pose_score m dst_pts p")
      case True
      then show ?thesis using j first_best_snoc [OF j(1), of p]
        by (auto simp: best_is_def take_candidate_def p nth_append intro!: exI [of _ "length ps"])
    next
      case no: False
      then have "take_candidate m dst_pts p b = b" using j(3) by (auto simp: take_candidate_def p)
      moreover have "first_best m dst_pts (ps @ [p]) j" using no first_best_snoc [OF j(1), of p] by (simp split: if_splits)
      ultimately show ?thesis using True j len by (auto simp: best_is_def nth_append intro!: exI [of _ j])
    qed
  next
    case False
    then have "b = start" using snoc by (simp add: best_is_def b_def)
    then show ?thesis using False assms first_best_new [of ps m dst_pts p]
      by (force simp: best_is_def take_candidate_def p nth_append)
  qed
  then show ?case by (simp add: b_def)
qed

lemma fold_map_eq: "fold (\<lambda>x. f (g x)) xs = fold f (map g xs)"
  by (induction xs) (simp_all add: fun_eq_iff)

lemma fold_concat_eq: "fold (\<lambda>x. fold f (h x)) xs = fold f (concat (map h xs))"
  by (induction xs) (simp_all add: fun_eq_iff)

lemma search_spec:
  assumes "knn_ok knn" and "xc_src_pts m \<noteq> []"
  shows "xc_search knn m (xc_src_pts m) dst_pts guess xs ys yaws =
    fold (take_candidate m dst_pts)
      (concat (map (\<lambda>dyaw. concat (map (\<lambda>dx. map (\<lambda>dy. (o_x guess + dx, o_y guess + dy, o_yaw guess + dyaw)) ys) xs)) yaws))
      \<lparr>xb_score = None, xb_tx = o_x guess, xb_ty = o_y guess, xb_theta = o_yaw guess\<rparr>"
proof -
  have one: "xc_consider (xc_evaluate knn m (xc_src_pts m) (csm_rotate theta dst_pts) tx ty) tx ty theta = take_candidate m dst_pts (tx, ty, theta)"
    for tx ty theta
    by (simp add: evaluate_spec [OF assms] xc_consider_def take_candidate_def eligible_def xc_kMinCorrespondences_def fun_eq_iff)
  have inner: "fold (\<lambda>dy. take_candidate m dst_pts (tx, o_y guess + dy, theta)) ys =
    fold (take_candidate m dst_pts) (map (\<lambda>dy. (tx, o_y guess + dy, theta)) ys)" for tx theta
    by (rule fold_map_eq)
  show ?thesis by (simp only: xc_search_def Let_def one inner fold_concat_eq)
qed

definition raster_fits :: "xcsm \<Rightarrow> bool" where
  "raster_fits m \<longleftrightarrow> xc_linear_step m \<noteq> 0 \<and> xc_angular_step m \<noteq> 0 \<and>
     (let n = trunc_int (xc_linear_search_window m / xc_linear_step m) in 0 \<le> n \<and> 2 * n + 1 < 2 ^ 31) \<and>
     (let n = trunc_int (xc_angular_search_window m / xc_angular_step m) in 0 \<le> n \<and> 2 * n + 1 < 2 ^ 31)"

lemma pose_score_pos: "eligible m dst_pts p \<Longrightarrow> 0 < pose_score m dst_pts p"
proof -
  assume "eligible m dst_pts p"
  then obtain q qs where "near_points m dst_pts p = q # qs" by (cases "near_points m dst_pts p") (auto simp: eligible_def)
  then show ?thesis unfolding pose_score_def by (auto intro!: add_pos_nonneg sum_list_nonneg)
qed

lemma match_unfold:
  assumes "knn_ok knn" and "raster_fits m" and "10 \<le> length pts" and "10 \<le> length (scan_to_points scan)"
  shows "xc_match knn (Some scan) guess (xc_set_target_cloud pts m) =
    Some (xc_result m (length (scan_to_points scan)) (fold (take_candidate (xc_set_target_cloud pts m) (scan_to_points scan)) (raster_poses m guess)
      \<lparr>xb_score = None, xb_tx = o_x guess, xb_ty = o_y guess, xb_theta = o_yaw guess\<rparr>))"
proof -
  let ?m = "xc_set_target_cloud pts m"
  have f: "xc_tree ?m = Some (xc_src_pts ?m)" "xc_src_pts ?m \<noteq> []" "xc_linear_step ?m = xc_linear_step m" "xc_angular_step ?m = xc_angular_step m"
    "xc_linear_search_window ?m = xc_linear_search_window m" "xc_angular_search_window ?m = xc_angular_search_window m"
    "xc_yaw_information_multiplier ?m = xc_yaw_information_multiplier m"
    using assms(3) by (auto simp: xc_set_target_cloud_def xc_kMinCorrespondences_def)
  have len: "\<not> length (scan_to_points scan) < xc_kMinCorrespondences" using assms(4) by (simp add: xc_kMinCorrespondences_def)
  define n k where "n = trunc_int (xc_linear_search_window m / xc_linear_step m)" and "k = trunc_int (xc_angular_search_window m / xc_angular_step m)"
  have nk: "0 \<le> n" "2 * n + 1 < 2 ^ 31" "0 \<le> k" "2 * k + 1 < 2 ^ 31" "xc_linear_step m \<noteq> 0" "xc_angular_step m \<noteq> 0"
    using assms(2) by (auto simp: raster_fits_def Let_def n_def k_def)
  have s: "xc_steps (xc_linear_search_window m) (xc_linear_step m) = Some n" "xc_steps (xc_angular_search_window m) (xc_angular_step m) = Some k"
    using nk by (auto simp: xc_steps_def to_int32_def n_def k_def)
  have o: "xc_offsets n (xc_linear_step m) = Some (map (\<lambda>i. of_int i * xc_linear_step m) [- n..n])"
    "xc_offsets k (xc_angular_step m) = Some (map (\<lambda>i. of_int i * xc_angular_step m) [- k..k])"
    using nk by (auto simp: xc_offsets_def)
  have "xc_match knn (Some scan) guess ?m = Some (xc_result ?m (length (scan_to_points scan))
    (xc_search knn ?m (xc_src_pts ?m) (scan_to_points scan) guess (map (\<lambda>i. of_int i * xc_linear_step m) [- n..n])
      (map (\<lambda>i. of_int i * xc_linear_step m) [- n..n]) (map (\<lambda>i. of_int i * xc_angular_step m) [- k..k])))"
    using len by (simp add: xc_match_def f s o Let_def)
  moreover have "xc_result ?m = xc_result m" by (intro ext) (simp only: xc_result_def f(7))
  moreover have "xc_search knn ?m (xc_src_pts ?m) (scan_to_points scan) guess (map (\<lambda>i. of_int i * xc_linear_step m) [- n..n])
      (map (\<lambda>i. of_int i * xc_linear_step m) [- n..n]) (map (\<lambda>i. of_int i * xc_angular_step m) [- k..k]) = fold (take_candidate ?m (scan_to_points scan)) (raster_poses m guess)
      \<lparr>xb_score = None, xb_tx = o_x guess, xb_ty = o_y guess, xb_theta = o_yaw guess\<rparr>"
    by (simp add: search_spec [OF assms(1) f(2)] raster_poses_def Let_def n_def [symmetric] k_def [symmetric] comp_def)
  ultimately show ?thesis by simp
qed

text \<open>
  C12. The exhaustive matcher converges exactly when at some pose of its raster at least ten scan points lie
  within three steps of the target; the result is then the raster pose with the largest sum of Gaussian weights, the first
  among equals, with that sum as its score.  Otherwise the initial guess is returned, not converged.
\<close>

theorem exhaustive_match:
  assumes "knn_ok knn" and "raster_fits m" and "10 \<le> length pts" and "10 \<le> length (scan_to_points scan)"
  shows "\<exists>r. xc_match knn (Some scan) guess (xc_set_target_cloud pts m) = Some r \<and>
    (if \<exists>p \<in> set (raster_poses m guess). eligible (xc_set_target_cloud pts m) (scan_to_points scan) p
     then \<exists>j. first_best (xc_set_target_cloud pts m) (scan_to_points scan) (raster_poses m guess) j \<and> m_converged r \<and>
       (m_dx r, m_dy r, m_dyaw r) = raster_poses m guess ! j \<and>
       m_score r = pose_score (xc_set_target_cloud pts m) (scan_to_points scan) (raster_poses m guess ! j)
     else r = no_match guess)"
proof -
  let ?m = "xc_set_target_cloud pts m" and ?start = "\<lparr>xb_score = None, xb_tx = o_x guess, xb_ty = o_y guess, xb_theta = o_yaw guess\<rparr>"
  define b where "b = fold (take_candidate ?m (scan_to_points scan)) (raster_poses m guess) ?start"
  have b: "best_is ?m (scan_to_points scan) (raster_poses m guess) ?start b" unfolding b_def by (rule fold_take_candidate) simp
  have r: "xc_match knn (Some scan) guess ?m = Some (xc_result m (length (scan_to_points scan)) b)"
    unfolding b_def by (rule match_unfold [OF assms])
  show ?thesis
  proof (cases "\<exists>p \<in> set (raster_poses m guess). eligible ?m (scan_to_points scan) p")
    case True
    then obtain j where j: "first_best ?m (scan_to_points scan) (raster_poses m guess) j"
      "(xb_tx b, xb_ty b, xb_theta b) = raster_poses m guess ! j" "xb_score b = Some (pose_score ?m (scan_to_points scan) (raster_poses m guess ! j))"
      using b by (auto simp: best_is_def)
    have "0 < pose_score ?m (scan_to_points scan) (raster_poses m guess ! j)" using j(1) by (simp add: first_best_def pose_score_pos)
    then show ?thesis using True j r by (auto simp: xc_result_def Let_def)
  next
    case False
    then have "b = ?start" using b by (simp add: best_is_def)
    then show ?thesis using False r by (simp add: xc_result_def no_match_def)
  qed
qed

lemma nearest_self: "q \<in> set pts \<Longrightarrow> nearest_sq pts q = 0"
proof -
  assume q: "q \<in> set pts"
  have "dist_sq q p \<ge> 0" for p by (cases q; cases p) (simp add: dist_sq_def)
  moreover have "dist_sq q q = 0" by (cases q) (simp add: dist_sq_def)
  ultimately show ?thesis unfolding nearest_sq_def using q by (intro Min_eqI) (auto intro: image_eqI [of _ _ q])
qed

text \<open>A scan against its own points: the raster has one pose, and it is found with every point matched.\<close>

theorem exhaustive_match_witness:
  "\<exists>r. xc_match linear_knn (Some wall_scan) origin_guess (xc_set_target_cloud (scan_to_points wall_scan) (CSMMatcher 0 0 0.1 0.1 1)) = Some r \<and>
     m_converged r \<and> (m_dx r, m_dy r, m_dyaw r) = (0, 0, 0)"
proof -
  let ?m = "CSMMatcher 0 0 0.1 0.1 1" and ?pts = "scan_to_points wall_scan"
  have poses: "raster_poses ?m origin_guess = [(0, 0, 0)]"
    by (simp add: raster_poses_def CSMMatcher_def origin_guess_def trunc_int_def Let_def upto.simps)
  have "near_points (xc_set_target_cloud ?pts ?m) ?pts (0, 0, 0) = ?pts"
    by (simp add: near_points_def points_local_to_world_def nearest_self xc_set_target_cloud_def filter_id_conv case_prod_beta)
  then have e: "eligible (xc_set_target_cloud ?pts ?m) ?pts (0, 0, 0)" by (simp add: eligible_def wall_scan_length)
  have "raster_fits ?m" by (simp add: raster_fits_def CSMMatcher_def trunc_int_def)
  then show ?thesis
    using exhaustive_match [OF linear_knn_ok, of ?m ?pts wall_scan origin_guess] e
    by (auto simp: wall_scan_length poses first_best_def)
qed

end
