(* ===== verification/MatcherWrappers.thy ===== *)
theory MatcherWrappers
  imports NdtProps IcpProps ExhaustiveCsm
begin

text \<open>
  The matchers built from others: \<^verbatim>\<open>coarse_to_fine_matcher.hpp\<close>, \<^verbatim>\<open>multi_start_icp_matcher.hpp\<close> and
  \<^verbatim>\<open>multi_start_coarse_to_fine_matcher.hpp\<close>, and what every matcher promises its clients (\<^verbatim>\<open>ScanMatcherBase\<close>).  The loop over
  the grid of angles is a \<open>partial_function\<close>: not returning is \<open>None\<close>.
\<close>

section \<open>The interface\<close>

text \<open>
  Setting a target keeps a matcher usable; without a scan, or with an empty target, the initial guess comes back, not
  converged.
\<close>

locale scan_matcher =
  fixes set_target :: "vec2 list \<Rightarrow> 'm \<Rightarrow> 'm option"
    and match :: "ScanData option \<Rightarrow> OdomData \<Rightarrow> 'm \<Rightarrow> MatchResult option"
  assumes no_scan: "match None guess m = Some (no_match guess)"
    and no_target: "set_target [] m = Some m' \<Longrightarrow> match dst guess m' = Some (no_match guess)"
    and clears: "\<exists>m'. set_target [] m = Some m'"
begin

lemma cleared_never_converges: "\<exists>m'. set_target [] m = Some m' \<and> (\<forall>dst guess. \<exists>r. match dst guess m' = Some r \<and> \<not> m_converged r)"
  using clears [of m] no_target by (fastforce simp: no_match_def)

end

interpretation exhaustive: scan_matcher "\<lambda>pts m. Some (xc_set_target_cloud pts m)" "xc_match knn"
  by unfold_locales (auto simp: xc_match_def xc_set_target_cloud_def xc_kMinCorrespondences_def split: option.splits)

interpretation icp: scan_matcher "icp_set_target_cloud env" "icp_match env"
  by unfold_locales (auto simp: icp_match_def icp_match_points_def icp_set_target_cloud_def kNormalNeighbors_def split: option.splits)

interpretation ndt: scan_matcher ndt_set_target_cloud "ndt_match ldlt"
proof
  show "ndt_match ldlt None guess m = Some (no_match guess)" for guess m by (simp add: ndt_match_def)
  show "ndt_match ldlt dst guess m' = Some (no_match guess)" if "ndt_set_target_cloud [] m = Some m'" for dst guess m m'
    using that by (auto simp: ndt_match_def ndt_set_target_cloud_def split: option.splits)
  have "those (map (ndt_level []) cs) = Some (map (\<lambda>c. \<lparr>cell_size = c, cells = []\<rparr>) cs)" for cs
    unfolding those_Some_conv by (simp add: ndt_level_def)
  then show "\<exists>m'. ndt_set_target_cloud [] m = Some m'" for m by (simp add: ndt_set_target_cloud_def)
qed

section \<open>Coarse to fine\<close>

text \<open>Either matcher may be missing.\<close>

definition ctf_set_target_cloud ::
  "(vec2 list \<Rightarrow> 'c \<Rightarrow> 'c option) \<Rightarrow> (vec2 list \<Rightarrow> 'f \<Rightarrow> 'f option) \<Rightarrow> vec2 list \<Rightarrow> 'c option \<times> 'f option \<Rightarrow> ('c option \<times> 'f option) option" where
  "ctf_set_target_cloud c_set f_set src_pts = (\<lambda>(coarse_matcher, fine_matcher). do {
     coarse \<leftarrow> (case coarse_matcher of None \<Rightarrow> Some None | Some c \<Rightarrow> map_option Some (c_set src_pts c));
     fine \<leftarrow> (case fine_matcher of None \<Rightarrow> Some None | Some f \<Rightarrow> map_option Some (f_set src_pts f));
     Some (coarse, fine)
   })"

definition seed_from :: "OdomData \<Rightarrow> MatchResult \<Rightarrow> OdomData" where
  "seed_from guess res = (if m_converged res then guess\<lparr>o_x := m_dx res, o_y := m_dy res, o_yaw := m_dyaw res\<rparr> else guess)"

definition ctf_match ::
  "(ScanData option \<Rightarrow> OdomData \<Rightarrow> 'c \<Rightarrow> MatchResult option) \<Rightarrow> (ScanData option \<Rightarrow> OdomData \<Rightarrow> 'f \<Rightarrow> MatchResult option) \<Rightarrow>
     ScanData option \<Rightarrow> OdomData \<Rightarrow> 'c option \<times> 'f option \<Rightarrow> MatchResult option" where
  "ctf_match c_match f_match dst guess = (\<lambda>(coarse_matcher, fine_matcher).
     case (coarse_matcher, fine_matcher) of
       (None, None) \<Rightarrow> Some (no_match guess)
     | (None, Some f) \<Rightarrow> f_match dst guess f
     | (Some c, None) \<Rightarrow> c_match dst guess c
     | (Some c, Some f) \<Rightarrow> do {
         coarse_res \<leftarrow> c_match dst guess c;
         fine_res \<leftarrow> f_match dst (seed_from guess coarse_res) f;
         Some (if m_converged fine_res then fine_res else if m_converged coarse_res then coarse_res else fine_res)
       })"

text \<open>Two matchers make a matcher.\<close>

locale matcher_pair =
  coarse: scan_matcher c_set c_match + fine: scan_matcher f_set f_match
  for c_set :: "vec2 list \<Rightarrow> 'c \<Rightarrow> 'c option" and c_match and f_set :: "vec2 list \<Rightarrow> 'f \<Rightarrow> 'f option" and f_match

sublocale matcher_pair \<subseteq> pair: scan_matcher "ctf_set_target_cloud c_set f_set" "ctf_match c_match f_match"
proof
  show "ctf_match c_match f_match None guess m = Some (no_match guess)" for guess m
    by (auto simp: ctf_match_def coarse.no_scan fine.no_scan seed_from_def no_match_def split: prod.splits option.splits)
  show "ctf_match c_match f_match dst guess m' = Some (no_match guess)" if "ctf_set_target_cloud c_set f_set [] m = Some m'" for dst guess m m'
  proof -
    obtain c f where m': "m' = (c, f)" by (cases m')
    have "c_match dst guess x = Some (no_match guess)" if "c = Some x" for x
      using \<open>ctf_set_target_cloud c_set f_set [] m = Some m'\<close> that coarse.no_target
      by (auto simp: ctf_set_target_cloud_def m' bind_eq_Some_conv split: prod.splits option.splits)
    moreover have "f_match dst guess x = Some (no_match guess)" if "f = Some x" for x
      using \<open>ctf_set_target_cloud c_set f_set [] m = Some m'\<close> that fine.no_target
      by (auto simp: ctf_set_target_cloud_def m' bind_eq_Some_conv split: prod.splits option.splits)
    ultimately show ?thesis by (cases c; cases f) (simp_all add: ctf_match_def m' seed_from_def, simp add: no_match_def)
  qed
  show "\<exists>m'. ctf_set_target_cloud c_set f_set [] m = Some m'" for m
  proof -
    obtain c f where m: "m = (c, f)" by (cases m)
    have "\<exists>c'. (case c of None \<Rightarrow> Some None | Some c \<Rightarrow> map_option Some (c_set [] c)) = Some c'"
      using coarse.clears by (cases c) auto
    moreover have "\<exists>f'. (case f of None \<Rightarrow> Some None | Some f \<Rightarrow> map_option Some (f_set [] f)) = Some f'"
      using fine.clears by (cases f) auto
    ultimately show ?thesis by (auto simp: ctf_set_target_cloud_def m)
  qed
qed

interpretation ndt_icp: matcher_pair ndt_set_target_cloud "ndt_match ldlt" "icp_set_target_cloud env" "icp_match env"
  by unfold_locales

section \<open>Several starts\<close>

text \<open>The converged result with the least score, the first among equals.\<close>

definition keep_least :: "MatchResult \<Rightarrow> real \<times> MatchResult option \<Rightarrow> real \<times> MatchResult option" where
  "keep_least res = (\<lambda>(best_score, best_res).
     if m_converged res \<and> m_score res < best_score then (m_score res, Some res) else (best_score, best_res))"

definition least_result :: "MatchResult list \<Rightarrow> MatchResult option" where
  "least_result results = snd (fold keep_least results (dbl_max, None))"

record ms_icp =
  base_matcher :: "icp_matcher option"
  angle_offsets_rad :: "real list"
  enable_straight_hypothesis :: bool
  last_matched_dyaw :: real
  has_last_yaw :: bool

definition MultiStartICPMatcher :: "int \<Rightarrow> real \<Rightarrow> real \<Rightarrow> string \<Rightarrow> real \<Rightarrow> real \<Rightarrow> real list \<Rightarrow> bool \<Rightarrow> ms_icp" where
  "MultiStartICPMatcher iterations tolerance max_dist kernel_name kernel_scale yaw_multiplier offsets_deg straight =
     \<lparr>base_matcher = Some (ICPMatcher iterations tolerance max_dist kernel_name kernel_scale yaw_multiplier 10 500 100 (- 1) (- 1)),
      angle_offsets_rad = map (\<lambda>deg. deg * pi / 180) offsets_deg, enable_straight_hypothesis = straight, last_matched_dyaw = 0, has_last_yaw = False\<rparr>"

definition ms_set_target_cloud :: "icp_env \<Rightarrow> vec2 list \<Rightarrow> ms_icp \<Rightarrow> ms_icp option" where
  "ms_set_target_cloud env src_pts m =
     (case base_matcher m of
        None \<Rightarrow> None
      | Some base \<Rightarrow> map_option (\<lambda>b. m\<lparr>base_matcher := Some b\<rparr>) (icp_set_target_cloud env src_pts base))"

definition ms_hypotheses :: "OdomData \<Rightarrow> ms_icp \<Rightarrow> OdomData list" where
  "ms_hypotheses guess m =
     [guess] @ (if enable_straight_hypothesis m then [guess\<lparr>o_yaw := 0\<rparr>] else []) @
     (if has_last_yaw m then [guess\<lparr>o_yaw := last_matched_dyaw m\<rparr>] else []) @
     map (\<lambda>offset. guess\<lparr>o_yaw := normalize_angle (o_yaw guess + offset)\<rparr>) (angle_offsets_rad m)"

definition ms_match :: "icp_env \<Rightarrow> ScanData option \<Rightarrow> OdomData \<Rightarrow> ms_icp \<Rightarrow> (MatchResult \<times> ms_icp) option" where
  "ms_match env dst guess m =
     (case base_matcher m of
        None \<Rightarrow> Some (no_match guess, m)
      | Some base \<Rightarrow> do {
          results \<leftarrow> those (map (\<lambda>h. icp_match env dst h base) (ms_hypotheses guess m));
          case least_result results of
            Some best_res \<Rightarrow> Some (best_res, m\<lparr>last_matched_dyaw := m_dyaw best_res, has_last_yaw := True\<rparr>)
          | None \<Rightarrow> map_option (\<lambda>r. (r, m)) (icp_match env dst guess base)
        })"

text \<open>\<^verbatim>\<open>MultiStartCoarseToFineMatcher\<close>: ICP first, and only if that is poor the search over angles with NDT.\<close>

record ms_ctf =
  mc_coarse :: "ndt_matcher option"
  mc_fine :: "icp_matcher option"
  angular_search_window :: real
  mc_angular_step :: real
  mc_straight :: bool
  mc_const_vel :: bool
  mc_last_yaw :: real
  mc_has_last_yaw :: bool

definition MultiStartCoarseToFineMatcher :: "ndt_matcher option \<Rightarrow> icp_matcher option \<Rightarrow> real \<Rightarrow> real \<Rightarrow> bool \<Rightarrow> bool \<Rightarrow> ms_ctf" where
  "MultiStartCoarseToFineMatcher coarse fine window_deg step_deg straight const_vel =
     \<lparr>mc_coarse = coarse, mc_fine = fine, angular_search_window = window_deg * pi / 180,
      mc_angular_step = max (0.1 * pi / 180) (step_deg * pi / 180), mc_straight = straight, mc_const_vel = const_vel, mc_last_yaw = 0,
      mc_has_last_yaw = False\<rparr>"

definition mc_set_target_cloud :: "icp_env \<Rightarrow> vec2 list \<Rightarrow> ms_ctf \<Rightarrow> ms_ctf option" where
  "mc_set_target_cloud env src_pts m = do {
     coarse \<leftarrow> (case mc_coarse m of None \<Rightarrow> Some None | Some c \<Rightarrow> map_option Some (ndt_set_target_cloud src_pts c));
     fine \<leftarrow> (case mc_fine m of None \<Rightarrow> Some None | Some f \<Rightarrow> map_option Some (icp_set_target_cloud env src_pts f));
     Some (m\<lparr>mc_coarse := coarse, mc_fine := fine\<rparr>)
   }"

definition mc_set_target_cloud_with_normals :: "icp_env \<Rightarrow> vec2 list \<Rightarrow> vec2 list \<Rightarrow> ms_ctf \<Rightarrow> ms_ctf option" where
  "mc_set_target_cloud_with_normals env src_pts src_normals m = do {
     coarse \<leftarrow> (case mc_coarse m of None \<Rightarrow> Some None | Some c \<Rightarrow> map_option Some (ndt_set_target_cloud src_pts c));
     fine \<leftarrow> (case mc_fine m of None \<Rightarrow> Some None | Some f \<Rightarrow> map_option Some (icp_set_target_cloud_with_normals env src_pts src_normals f));
     Some (m\<lparr>mc_coarse := coarse, mc_fine := fine\<rparr>)
   }"

partial_function (option) angle_grid :: "real \<Rightarrow> real \<Rightarrow> real \<Rightarrow> real list option" where
  "angle_grid step limit offset =
     (if offset \<le> limit then Option.bind (angle_grid step limit (offset + step)) (\<lambda>rest. Some (offset # rest)) else Some [])"

definition mc_hypotheses :: "OdomData \<Rightarrow> ms_ctf \<Rightarrow> OdomData list option" where
  "mc_hypotheses guess m =
     map_option (\<lambda>offsets.
       [guess] @ (if mc_straight m then [guess\<lparr>o_yaw := 0\<rparr>] else []) @
       (if mc_const_vel m \<and> mc_has_last_yaw m then [guess\<lparr>o_yaw := mc_last_yaw m\<rparr>] else []) @
       map (\<lambda>offset. guess\<lparr>o_yaw := normalize_angle (o_yaw guess + offset)\<rparr>) (filter (\<lambda>offset. \<not> \<bar>offset\<bar> < 1 / 10 ^ 4) offsets))
     (angle_grid (mc_angular_step m) (angular_search_window m + 1 / 10 ^ 6) (- angular_search_window m))"

definition mc_remember :: "MatchResult \<Rightarrow> ms_ctf \<Rightarrow> MatchResult \<times> ms_ctf" where
  "mc_remember res m = (res, m\<lparr>mc_last_yaw := m_dyaw res, mc_has_last_yaw := True\<rparr>)"

definition mc_search :: "icp_env \<Rightarrow> ScanData option \<Rightarrow> OdomData \<Rightarrow> ndt_matcher \<Rightarrow> ms_ctf \<Rightarrow> (MatchResult \<times> ms_ctf) option" where
  "mc_search env dst guess coarse m = do {
     hypotheses \<leftarrow> mc_hypotheses guess m;
     results \<leftarrow> those (map (\<lambda>h. ndt_match (ldlt_solve env) dst h coarse) hypotheses);
     let best_coarse_res = least_result results;
     let fine_seed = (case best_coarse_res of None \<Rightarrow> guess | Some b \<Rightarrow> guess\<lparr>o_x := m_dx b, o_y := m_dy b, o_yaw := m_dyaw b\<rparr>);
     fine_res \<leftarrow> (case mc_fine m of None \<Rightarrow> Some None | Some f \<Rightarrow> map_option Some (icp_match env dst fine_seed f));
     Some (case fine_res of
         Some r \<Rightarrow> if m_converged r then mc_remember r m
           else (case best_coarse_res of Some b \<Rightarrow> mc_remember b m | None \<Rightarrow> (no_match guess, m))
       | None \<Rightarrow> (case best_coarse_res of Some b \<Rightarrow> mc_remember b m | None \<Rightarrow> (no_match guess, m)))
   }"

definition mc_match :: "icp_env \<Rightarrow> ScanData option \<Rightarrow> OdomData \<Rightarrow> ms_ctf \<Rightarrow> (MatchResult \<times> ms_ctf) option" where
  "mc_match env dst guess m =
     (case (mc_coarse m, mc_fine m) of
        (None, None) \<Rightarrow> Some (no_match guess, m)
      | (None, Some f) \<Rightarrow> map_option (\<lambda>r. (r, m)) (icp_match env dst guess f)
      | (Some c, None) \<Rightarrow> mc_search env dst guess c m
      | (Some c, Some f) \<Rightarrow> do {
          direct_res \<leftarrow> icp_match env dst guess f;
          if m_converged direct_res \<and> m_score direct_res < 0.15 then Some (mc_remember direct_res m)
          else mc_search env dst guess c m
        })"

section \<open>What several starts find\<close>

definition least_at :: "MatchResult list \<Rightarrow> nat \<Rightarrow> bool" where
  "least_at rs j \<longleftrightarrow> j < length rs \<and> m_converged (rs ! j) \<and>
     (\<forall>i < length rs. m_converged (rs ! i) \<longrightarrow> m_score (rs ! j) \<le> m_score (rs ! i)) \<and>
     (\<forall>i < j. m_converged (rs ! i) \<longrightarrow> m_score (rs ! j) < m_score (rs ! i))"

lemma fold_keep_least:
  assumes "\<forall>r \<in> set rs. m_converged r \<longrightarrow> m_score r < dbl_max"
  shows "if \<exists>r \<in> set rs. m_converged r then \<exists>j. least_at rs j \<and> fold keep_least rs (dbl_max, None) = (m_score (rs ! j), Some (rs ! j))
    else fold keep_least rs (dbl_max, None) = (dbl_max, None)"
  using assms
proof (induction rs rule: rev_induct)
  case (snoc r rs)
  define b where "b = fold keep_least rs (dbl_max, None)"
  have step: "fold keep_least (rs @ [r]) (dbl_max, None) = keep_least r b" by (simp add: b_def)
  show ?case
  proof (cases "\<exists>r \<in> set rs. m_converged r")
    case True
    then obtain j where j: "least_at rs j" "b = (m_score (rs ! j), Some (rs ! j))" using snoc by (auto simp: b_def)
    then have len: "j < length rs" by (simp add: least_at_def)
    show ?thesis
    proof (cases "m_converged r \<and> m_score r < m_score (rs ! j)")
      case better: True
      then have "least_at (rs @ [r]) (length rs)" using j(1) by (force simp: least_at_def nth_append less_Suc_eq)
      then show ?thesis using better True unfolding step j(2) by (auto simp: keep_least_def intro!: exI [of _ "length rs"])
    next
      case False
      then have "least_at (rs @ [r]) j" using j(1) by (force simp: least_at_def nth_append less_Suc_eq)
      moreover have "keep_least r b = b" using False by (auto simp: keep_least_def j(2))
      ultimately show ?thesis using True len unfolding step by (auto simp: j(2) nth_append intro!: exI [of _ j])
    qed
  next
    case False
    then have b: "b = (dbl_max, None)" using snoc by (simp add: b_def)
    show ?thesis
    proof (cases "m_converged r")
      case True
      then have "least_at (rs @ [r]) (length rs)" using False by (auto simp: least_at_def nth_append less_Suc_eq dest: nth_mem)
      then show ?thesis using True snoc.prems unfolding step b by (auto simp: keep_least_def intro!: exI [of _ "length rs"])
    next
      case not: False
      then show ?thesis using False unfolding step b by (simp add: keep_least_def)
    qed
  qed
qed simp

lemma least_result_spec:
  assumes "\<forall>r \<in> set rs. m_converged r \<longrightarrow> m_score r < dbl_max"
  shows "if \<exists>r \<in> set rs. m_converged r then \<exists>j. least_at rs j \<and> least_result rs = Some (rs ! j) else least_result rs = None"
  using fold_keep_least [OF assms] by (auto simp: least_result_def split: if_splits)

lemma those_defined:
  assumes "\<forall>x \<in> set xs. F x \<noteq> None"
  obtains ys where "those (map F xs) = Some ys" and "length ys = length xs" and "\<forall>i < length xs. F (xs ! i) = Some (ys ! i)"
proof -
  have "map F xs = map Some (map (\<lambda>x. the (F x)) xs)" using assms by auto
  then have "those (map F xs) = Some (map (\<lambda>x. the (F x)) xs)" unfolding those_Some_conv .
  then show thesis using that [of "map (\<lambda>x. the (F x)) xs"] assms by auto
qed

text \<open>
  C13. The multi-start matcher runs ICP from every hypothesis and returns the converged result with the least
  score, the first among equals, remembering its angle; when none converges it returns what ICP gives from the initial
  guess and remembers nothing.
\<close>

theorem multi_start_best:
  assumes "icp_env_ok env" and "base_matcher m = Some base" and "kernel_ok base" and "0 \<le> icp_yaw_multiplier base"
    and "icp_target_ok base" and "c_max base < dbl_max"
  shows "\<exists>rs r m'. ms_match env dst guess m = Some (r, m') \<and> length rs = length (ms_hypotheses guess m) \<and>
    (\<forall>i < length rs. icp_match env dst (ms_hypotheses guess m ! i) base = Some (rs ! i)) \<and>
    (if \<exists>x \<in> set rs. m_converged x
     then (\<exists>j. least_at rs j \<and> r = rs ! j) \<and> m' = m\<lparr>last_matched_dyaw := m_dyaw r, has_last_yaw := True\<rparr>
     else icp_match env dst guess base = Some r \<and> m' = m)"
proof -
  have ok: "\<exists>r. icp_match env dst h base = Some r \<and> (m_converged r \<longrightarrow> icp_bounds base r)" for h
    by (rule match_bounds [OF assms(1, 3, 4, 5)])
  have "\<forall>h \<in> set (ms_hypotheses guess m). icp_match env dst h base \<noteq> None" using ok by (metis option.distinct(1))
  then obtain rs where rs: "those (map (\<lambda>h. icp_match env dst h base) (ms_hypotheses guess m)) = Some rs"
    "length rs = length (ms_hypotheses guess m)" "\<forall>i < length (ms_hypotheses guess m). icp_match env dst (ms_hypotheses guess m ! i) base = Some (rs ! i)"
    by (rule those_defined)
  have "\<forall>r \<in> set rs. m_converged r \<longrightarrow> m_score r < dbl_max"
  proof (intro ballI impI)
    fix r assume "r \<in> set rs" "m_converged r"
    then obtain h where "icp_match env dst h base = Some r" using rs(2, 3) by (metis in_set_conv_nth)
    then have "icp_bounds base r" using ok [of h] \<open>m_converged r\<close> by auto
    then show "m_score r < dbl_max" using assms(6) by (simp add: icp_bounds_def)
  qed
  note least = least_result_spec [OF this]
  obtain r0 where r0: "icp_match env dst guess base = Some r0" using ok by blast
  show ?thesis
  proof (cases "\<exists>x \<in> set rs. m_converged x")
    case True
    then obtain j where "least_at rs j" "least_result rs = Some (rs ! j)" using least by auto
    then show ?thesis using True rs
      by (intro exI [of _ rs] exI [of _ "rs ! j"] exI [of _ "m\<lparr>last_matched_dyaw := m_dyaw (rs ! j), has_last_yaw := True\<rparr>"])
        (auto simp: ms_match_def assms(2))
  next
    case False
    then have "least_result rs = None" using least by simp
    then show ?thesis using False rs r0 by (intro exI [of _ rs] exI [of _ r0] exI [of _ m]) (auto simp: ms_match_def assms(2))
  qed
qed

section \<open>The search over angles\<close>

lemma angle_grid_returns:
  assumes "0 < step" and "(limit - offset) / step < real n"
  shows "\<exists>k. angle_grid step limit offset = Some (map (\<lambda>i. offset + real i * step) [0..<k])"
  using assms(2)
proof (induction n arbitrary: offset)
  case 0
  then have "\<not> offset \<le> limit" using assms(1) by (simp add: divide_less_0_iff)
  then show ?case by (intro exI [of _ 0]) (simp add: angle_grid.simps [of step limit offset])
next
  case (Suc n)
  show ?case
  proof (cases "offset \<le> limit")
    case True
    have "(limit - (offset + step)) / step < real n" using Suc.prems assms(1) by (simp add: field_simps)
    then obtain k where k: "angle_grid step limit (offset + step) = Some (map (\<lambda>i. offset + step + real i * step) [0..<k])"
      using Suc.IH by blast
    have "map (\<lambda>i. offset + real i * step) [0..<Suc k] = offset # map (\<lambda>i. offset + step + real i * step) [0..<k]"
      by (simp add: map_upt_Suc algebra_simps del: upt_Suc)
    then show ?thesis using True k by (intro exI [of _ "Suc k"]) (simp add: angle_grid.simps [of step limit offset] del: upt_Suc)
  next
    case False
    then show ?thesis by (intro exI [of _ 0]) (simp add: angle_grid.simps [of step limit offset])
  qed
qed

lemma hypotheses_return: "0 < mc_angular_step m \<Longrightarrow> \<exists>hs. mc_hypotheses guess m = Some hs"
  using angle_grid_returns [of "mc_angular_step m" "angular_search_window m + 1 / 10 ^ 6" "- angular_search_window m"]
    reals_Archimedean2 by (metis mc_hypotheses_def option.map(2))

lemma dbl_max_large: "3 < dbl_max"
proof -
  have "(2 :: real) ^ 3 \<le> 2 ^ 1023" by (rule power_increasing) simp_all
  moreover have "(1 :: real) \<le> 2 - 1 / 2 ^ 52" by simp
  ultimately have "1 * 2 ^ 3 \<le> dbl_max" unfolding dbl_max_def by (intro mult_mono) simp_all
  then show ?thesis by simp
qed

text \<open>
  The loop over the angles ends.  The fine-first matcher converges exactly when ICP converges from the
  initial guess or from the best pose NDT finds, or NDT converges from some hypothesis: a good direct match is
  never lost to the search.
\<close>

theorem fine_first_converges:
  assumes "icp_env_ok env" and "mc_fine m = Some f" and "mc_coarse m = Some c" and "kernel_ok f" and "0 \<le> icp_yaw_multiplier f"
    and "icp_target_ok f" and "\<forall>level \<in> set (pyramids c). level_ok level" and "0 < mc_angular_step m"
    and "\<forall>h. ndt_match (ldlt_solve env) dst h c \<noteq> None"
  shows "\<exists>hs rs direct r m'. mc_hypotheses guess m = Some hs \<and> those (map (\<lambda>h. ndt_match (ldlt_solve env) dst h c) hs) = Some rs \<and>
    icp_match env dst guess f = Some direct \<and> mc_match env dst guess m = Some (r, m') \<and>
    (m_converged r \<longleftrightarrow> m_converged direct \<or> (\<exists>x \<in> set rs. m_converged x)) \<and>
    m' = (if m_converged r then m\<lparr>mc_last_yaw := m_dyaw r, mc_has_last_yaw := True\<rparr> else m)"
proof -
  have ok: "\<exists>r. icp_match env dst h f = Some r" for h using match_bounds [OF assms(1, 4, 5, 6)] by blast
  obtain direct where d: "icp_match env dst guess f = Some direct" using ok by blast
  obtain hs where hs: "mc_hypotheses guess m = Some hs" using hypotheses_return [OF assms(8)] by blast
  obtain rs where rs: "those (map (\<lambda>h. ndt_match (ldlt_solve env) dst h c) hs) = Some rs" "length rs = length hs"
    "\<forall>i < length hs. ndt_match (ldlt_solve env) dst (hs ! i) c = Some (rs ! i)"
    using those_defined [of hs "\<lambda>h. ndt_match (ldlt_solve env) dst h c"] assms(9) by blast
  have "m_score r < dbl_max" if mem: "r \<in> set rs" for r
  proof -
    obtain i where "i < length hs" "r = rs ! i" using mem rs(2) by (auto simp: in_set_conv_nth)
    then have "ndt_match (ldlt_solve env) dst (hs ! i) c = Some r" using rs(3) by blast
    from ndt_match_score [OF this assms(7)] show ?thesis using dbl_max_large by simp
  qed
  then have "\<forall>r \<in> set rs. m_converged r \<longrightarrow> m_score r < dbl_max" by blast
  note least = least_result_spec [OF this]
  show ?thesis
  proof (cases "m_converged direct \<and> m_score direct < 0.15")
    case True
    then show ?thesis using hs rs(1) d by (auto simp: mc_match_def assms(2, 3) mc_remember_def)
  next
    case False
    then have m: "mc_match env dst guess m = mc_search env dst guess c m" using d by (auto simp: mc_match_def assms(2, 3))
    show ?thesis
    proof (cases "\<exists>x \<in> set rs. m_converged x")
      case True
      then obtain j where j: "least_at rs j" "least_result rs = Some (rs ! j)" using least by auto
      then have conv: "m_converged (rs ! j)" by (simp add: least_at_def)
      obtain fr where fr: "icp_match env dst (guess\<lparr>o_x := m_dx (rs ! j), o_y := m_dy (rs ! j), o_yaw := m_dyaw (rs ! j)\<rparr>) f = Some fr" using ok by blast
      show ?thesis using True hs rs(1) d j(2) fr conv by (auto simp: m mc_search_def assms(2) mc_remember_def)
    next
      case None: False
      then have "least_result rs = None" using least by simp
      then show ?thesis using None hs rs(1) d by (auto simp: m mc_search_def assms(2) mc_remember_def no_match_def)
    qed
  qed
qed

section \<open>Examples\<close>

definition starts :: ms_icp where
  "starts = (MultiStartICPMatcher 20 0.001 0.5 ''huber'' 0.1 1 [- 2, 2] True)\<lparr>base_matcher := Some wall_matcher\<rparr>"

definition fine_first :: ms_ctf where
  "fine_first = MultiStartCoarseToFineMatcher (Some (NDTMatcher 10 0.001 [2, 1] False 1)) (Some wall_matcher) 20 2.5 True True"

lemma wall_matcher_ok: "kernel_ok wall_matcher" "0 \<le> icp_yaw_multiplier wall_matcher" "icp_target_ok wall_matcher" "c_max wall_matcher < 3"
  by (simp_all add: wall_matcher_def ICPMatcher_def kernel_ok_def icp_target_ok_def unit2_def c_max_def)

theorem multi_start_best_witness:
  "\<exists>rs r m'. ms_match plain_env (Some wall_scan) origin_guess starts = Some (r, m') \<and> length rs = 4 \<and>
    (if \<exists>x \<in> set rs. m_converged x then \<exists>j. least_at rs j \<and> r = rs ! j else m' = starts)"
proof -
  have "base_matcher starts = Some wall_matcher" "c_max wall_matcher < dbl_max" "length (ms_hypotheses origin_guess starts) = 4"
    using wall_matcher_ok(4) dbl_max_large by (simp_all add: starts_def MultiStartICPMatcher_def ms_hypotheses_def)
  from multi_start_best [OF plain_env_ok(1) this(1) wall_matcher_ok(1-3) this(2), of "Some wall_scan" origin_guess] this(3)
  show ?thesis by (metis (no_types, lifting))
qed

theorem fine_first_converges_witness:
  "\<exists>hs (rs :: MatchResult list) direct r m'. mc_hypotheses origin_guess fine_first = Some hs \<and>
    those (map (\<lambda>h. ndt_match (ldlt_solve plain_env) (Some wall_scan) h (NDTMatcher 10 0.001 [2, 1] False 1)) hs) = Some rs \<and>
    icp_match plain_env (Some wall_scan) origin_guess wall_matcher = Some direct \<and>
    mc_match plain_env (Some wall_scan) origin_guess fine_first = Some (r, m') \<and>
    (m_converged r \<longleftrightarrow> m_converged direct \<or> (\<exists>x \<in> set rs. m_converged x))"
proof -
  have f: "mc_fine fine_first = Some wall_matcher" "mc_coarse fine_first = Some (NDTMatcher 10 0.001 [2, 1] False 1)" "0 < mc_angular_step fine_first"
    by (simp_all add: fine_first_def MultiStartCoarseToFineMatcher_def)
  have "\<forall>level \<in> set (pyramids (NDTMatcher 10 0.001 [2, 1] False 1)). level_ok level"
    "\<forall>h. ndt_match (ldlt_solve plain_env) (Some wall_scan) h (NDTMatcher 10 0.001 [2, 1] False 1) \<noteq> None"
    by (simp_all add: NDTMatcher_def ndt_match_def)
  from fine_first_converges [OF plain_env_ok(1) f(1, 2) wall_matcher_ok(1-3) this(1) f(3) this(2), of origin_guess]
  show ?thesis by blast
qed

end
