(* ===== verification/PathClearance.thy ===== *)
theory PathClearance
  imports Geometry "HOL-Library.Monad_Syntax"
begin

text \<open>
  \<^verbatim>\<open>mg_navigation/bt_plugins/path_clearance.cpp\<close>: whether the path controller could start without being stopped by its
  collision check, judged on the local costmap; with the parts of the vendored costmap it rests on
  (\<^verbatim>\<open>nav2_costmap_2d/src/costmap_2d.cpp\<close>, \<^verbatim>\<open>footprint_collision_checker.cpp\<close>, \<^verbatim>\<open>footprint.cpp\<close>).

  The cells on a line between two cells come from \<^verbatim>\<open>nav2_util::LineIterator\<close>, which is not part of the repository and is
  a parameter.  \<open>None\<close> stands for a call that does not return or reads outside an array.  Coordinates are reals; the
  cell numbers of positions beyond \<open>2 ^ 32\<close> cells are not converted to 32 bits.
\<close>

section \<open>The costmap\<close>

record Costmap2D =
  size_x :: nat
  size_y :: nat
  resolution :: real
  origin_x :: real
  origin_y :: real
  costs :: "u8 list"

definition NO_INFORMATION :: nat where "NO_INFORMATION = 255"
definition LETHAL_OBSTACLE :: nat where "LETHAL_OBSTACLE = 254"
definition FREE_SPACE :: nat where "FREE_SPACE = 0"

definition new_costmap :: "nat \<Rightarrow> nat \<Rightarrow> real \<Rightarrow> real \<Rightarrow> real \<Rightarrow> Costmap2D" where
  "new_costmap sx sy res ox oy =
     \<lparr>size_x = sx, size_y = sy, resolution = res, origin_x = ox, origin_y = oy, costs = replicate (sx * sy) 0\<rparr>"

definition resizeMap :: "nat \<Rightarrow> nat \<Rightarrow> real \<Rightarrow> real \<Rightarrow> real \<Rightarrow> Costmap2D \<Rightarrow> Costmap2D" where
  "resizeMap sx sy res ox oy m =
     m\<lparr>size_x := sx, size_y := sy, resolution := res, origin_x := ox, origin_y := oy, costs := replicate (sx * sy) 0\<rparr>"

definition getIndex :: "Costmap2D \<Rightarrow> nat \<Rightarrow> nat \<Rightarrow> nat" where
  "getIndex m mx my = my * size_x m + mx"

definition getCost :: "Costmap2D \<Rightarrow> nat \<Rightarrow> nat \<Rightarrow> nat option" where
  "getCost m mx my = (if getIndex m mx my < length (costs m) then Some (unat (costs m ! getIndex m mx my)) else None)"

definition worldToMap :: "Costmap2D \<Rightarrow> real \<Rightarrow> real \<Rightarrow> (nat \<times> nat) option" where
  "worldToMap m wx wy =
     (if wx < origin_x m \<or> wy < origin_y m then None
      else
        let mx = nat \<lfloor>(wx - origin_x m) / resolution m\<rfloor>; my = nat \<lfloor>(wy - origin_y m) / resolution m\<rfloor>
        in if mx < size_x m \<and> my < size_y m then Some (mx, my) else None)"

definition mapToWorld :: "Costmap2D \<Rightarrow> nat \<Rightarrow> nat \<Rightarrow> vec2" where
  "mapToWorld m mx my = (origin_x m + (real mx + 0.5) * resolution m, origin_y m + (real my + 0.5) * resolution m)"

section \<open>The cost under a footprint\<close>

type_synonym line_cells = "nat \<times> nat \<Rightarrow> nat \<times> nat \<Rightarrow> (nat \<times> nat) list"

fun lineCost_loop :: "Costmap2D \<Rightarrow> (nat \<times> nat) list \<Rightarrow> nat \<Rightarrow> nat option" where
  "lineCost_loop m [] line_cost = Some line_cost"
| "lineCost_loop m ((x, y) # cells) line_cost = do {
     point_cost \<leftarrow> getCost m x y;
     if point_cost = LETHAL_OBSTACLE then Some point_cost
     else lineCost_loop m cells (max line_cost point_cost)
   }"

definition lineCost :: "line_cells \<Rightarrow> Costmap2D \<Rightarrow> nat \<times> nat \<Rightarrow> nat \<times> nat \<Rightarrow> nat option" where
  "lineCost line m p0 p1 = lineCost_loop m (line p0 p1) 0"

fun footprint_edges :: "line_cells \<Rightarrow> Costmap2D \<Rightarrow> nat \<times> nat \<Rightarrow> nat \<times> nat \<Rightarrow> vec2 list \<Rightarrow> nat \<Rightarrow> nat option" where
  "footprint_edges line m start p0 [] footprint_cost = do {
     c \<leftarrow> lineCost line m start p0;
     Some (max c footprint_cost)
   }"
| "footprint_edges line m start p0 ((wx, wy) # rest) footprint_cost =
     (case worldToMap m wx wy of
        None \<Rightarrow> Some LETHAL_OBSTACLE
      | Some p1 \<Rightarrow> do {
          c \<leftarrow> lineCost line m p0 p1;
          let footprint_cost = max c footprint_cost;
          if footprint_cost = LETHAL_OBSTACLE then Some footprint_cost
          else footprint_edges line m start p1 rest footprint_cost
        })"

text \<open>A footprint of fewer than two points makes \<^verbatim>\<open>footprintCost\<close> read a missing point or an unset cell.\<close>

definition footprintCost :: "line_cells \<Rightarrow> Costmap2D \<Rightarrow> vec2 list \<Rightarrow> nat option" where
  "footprintCost line m footprint =
     (case footprint of
        [] \<Rightarrow> None
      | (wx, wy) # rest \<Rightarrow>
          (case worldToMap m wx wy of
             None \<Rightarrow> Some LETHAL_OBSTACLE
           | Some p0 \<Rightarrow> if rest = [] then None else footprint_edges line m p0 p0 rest 0))"

definition orient :: "real \<Rightarrow> real \<Rightarrow> real \<Rightarrow> vec2 list \<Rightarrow> vec2 list" where
  "orient x y theta footprint =
     map (\<lambda>(px, py). (x + (px * cos theta - py * sin theta), y + (px * sin theta + py * cos theta))) footprint"

definition footprintCostAtPose :: "line_cells \<Rightarrow> Costmap2D \<Rightarrow> real \<Rightarrow> real \<Rightarrow> real \<Rightarrow> vec2 list \<Rightarrow> nat option" where
  "footprintCostAtPose line m x y theta footprint = footprintCost line m (orient x y theta footprint)"

definition makeFootprintFromRadius :: "real \<Rightarrow> vec2 list" where
  "makeFootprintFromRadius radius =
     map (\<lambda>i. (cos (real i * 2 * pi / 16) * radius, sin (real i * 2 * pi / 16) * radius)) [0..<16]"

definition sign0 :: "real \<Rightarrow> real" where
  "sign0 x = (if x < 0 then - 1 else if 0 < x then 1 else 0)"

definition padFootprint :: "vec2 list \<Rightarrow> real \<Rightarrow> vec2 list" where
  "padFootprint footprint padding = map (\<lambda>(x, y). (x + sign0 x * padding, y + sign0 y * padding)) footprint"

section \<open>PathClearanceChecker\<close>

record PathClearanceParams =
  use_velocity_scaled_lookahead_dist :: bool
  lookahead_dist :: real
  min_lookahead_dist :: real
  max_lookahead_dist :: real
  use_rotate_to_heading :: bool
  rotate_to_heading_min_angle :: real
  max_robot_pose_search_dist :: real
  track_unknown_space :: bool
  margin :: real

record checker =
  ck_line :: line_cells
  ck_costmap :: Costmap2D
  ck_footprint :: "vec2 list"
  ck_params :: PathClearanceParams

definition kRotationStep :: real where "kRotationStep = 0.05"

definition pdist :: "pose \<Rightarrow> pose \<Rightarrow> real" where
  "pdist = (\<lambda>(ax, ay, _) (bx, by, _). hypot (ax - bx) (ay - by))"

definition inCollision :: "checker \<Rightarrow> pose \<Rightarrow> bool option" where
  "inCollision ck = (\<lambda>(x, y, theta).
     case worldToMap (ck_costmap ck) x y of
       None \<Rightarrow> Some False
     | Some _ \<Rightarrow> do {
         footprint_cost \<leftarrow> footprintCostAtPose (ck_line ck) (ck_costmap ck) x y theta (ck_footprint ck);
         Some (if footprint_cost = NO_INFORMATION \<and> track_unknown_space (ck_params ck) then False
               else LETHAL_OBSTACLE \<le> footprint_cost)
       })"

fun any_opt :: "('a \<Rightarrow> bool option) \<Rightarrow> 'a list \<Rightarrow> bool option" where
  "any_opt f [] = Some False"
| "any_opt f (x # xs) = do { b \<leftarrow> f x; if b then Some True else any_opt f xs }"

text \<open>The closest path point to the robot, among those within the search distance along the path.\<close>

fun closest_loop :: "real \<Rightarrow> pose \<Rightarrow> pose option \<Rightarrow> pose list \<Rightarrow> nat \<Rightarrow> real \<Rightarrow> nat \<Rightarrow> real option \<Rightarrow> nat" where
  "closest_loop limit robot prev [] i integrated closest best = closest"
| "closest_loop limit robot prev (p # path) i integrated closest best =
     (let integrated = (case prev of None \<Rightarrow> integrated | Some q \<Rightarrow> integrated + pdist q p)
      in if prev \<noteq> None \<and> limit < integrated then closest
         else
           let d = pdist p robot
           in if (case best of None \<Rightarrow> True | Some b \<Rightarrow> d < b)
              then closest_loop limit robot (Some p) path (Suc i) integrated i (Some d)
              else closest_loop limit robot (Some p) path (Suc i) integrated closest best)"

partial_function (option) segment_samples :: "real \<Rightarrow> pose \<Rightarrow> pose \<Rightarrow> real \<Rightarrow> real \<Rightarrow> real \<Rightarrow> pose list option" where
  "segment_samples step a b travelled len s =
     (let seg = pdist a b
      in if s < seg \<and> travelled + s \<le> len then do {
           rest \<leftarrow> segment_samples step a b travelled len (s + step);
           Some ((case (a, b) of ((ax, ay, _), (bx, by, _)) \<Rightarrow>
               (ax + (bx - ax) * s / seg, ay + (by - ay) * s / seg, atan2 (by - ay) (bx - ax))) # rest)
         }
         else Some [])"

fun resample_segments :: "real \<Rightarrow> real \<Rightarrow> pose list \<Rightarrow> real \<Rightarrow> (pose list \<times> real) option" where
  "resample_segments step len (a # b # path) travelled =
     (if travelled \<le> len then
        let seg = pdist a b
        in if seg < 1 / 10 ^ 6 then resample_segments step len (b # path) travelled
           else do {
             ps \<leftarrow> segment_samples step a b travelled len 0;
             (qs, t) \<leftarrow> resample_segments step len (b # path) (travelled + seg);
             Some (ps @ qs, t)
           }
      else Some ([], travelled))"
| "resample_segments step len path travelled = Some ([], travelled)"

definition path_end :: "pose list \<Rightarrow> pose" where
  "path_end path =
     (let (lx, ly, lt) = last path
      in if 2 \<le> length path then
           let prev = path ! (length path - 2)
           in if 1 / 10 ^ 6 < pdist prev (lx, ly, lt) then (lx, ly, atan2 (ly - fst (snd prev)) (lx - fst prev)) else (lx, ly, lt)
         else (lx, ly, lt))"

definition resamplePathAhead :: "checker \<Rightarrow> pose \<Rightarrow> pose list \<Rightarrow> real \<Rightarrow> pose list option" where
  "resamplePathAhead ck robot path len =
     (if path = [] then Some []
      else
        let closest = closest_loop (max_robot_pose_search_dist (ck_params ck)) robot None path 0 0 0 None
        in do {
             (ps, travelled) \<leftarrow> resample_segments (resolution (ck_costmap ck)) len (drop closest path) 0;
             Some (if travelled \<le> len \<or> ps = [] then ps @ [path_end path] else ps)
           })"

definition arc_step :: "real \<Rightarrow> real \<Rightarrow> pose \<Rightarrow> pose" where
  "arc_step step curvature = (\<lambda>(x, y, theta). (x + step * cos theta, y + step * sin theta, theta + step * curvature))"

partial_function (option) arc_loop :: "checker \<Rightarrow> real \<Rightarrow> pose \<Rightarrow> real \<Rightarrow> pose \<Rightarrow> bool option" where
  "arc_loop ck curvature robot carrot_dist pose =
     (let pose = arc_step (resolution (ck_costmap ck)) curvature pose
      in if carrot_dist < pdist pose robot then Some False
         else do {
           b \<leftarrow> inCollision ck pose;
           if b then Some True else arc_loop ck curvature robot carrot_dist pose
         })"

definition to_robot_frame :: "pose \<Rightarrow> pose \<Rightarrow> vec2" where
  "to_robot_frame = (\<lambda>(rx, ry, rt) (cx, cy, _).
     (cos rt * (cx - rx) + sin rt * (cy - ry), - sin rt * (cx - rx) + cos rt * (cy - ry)))"

definition isMotionToCarrotBlocked :: "checker \<Rightarrow> pose \<Rightarrow> pose \<Rightarrow> bool option" where
  "isMotionToCarrotBlocked ck robot carrot =
     (let (carrot_x, carrot_y) = to_robot_frame robot carrot;
          carrot_dist2 = carrot_x * carrot_x + carrot_y * carrot_y;
          carrot_dist = sqrt carrot_dist2;
          angle_to_carrot = atan2 carrot_y carrot_x;
          params = ck_params ck
      in if use_rotate_to_heading params \<and> rotate_to_heading_min_angle params < \<bar>angle_to_carrot\<bar> then
           let steps = nat \<lceil>\<bar>angle_to_carrot\<bar> / kRotationStep\<rceil>; (rx, ry, rt) = robot
           in any_opt (\<lambda>i. inCollision ck (rx, ry, rt + angle_to_carrot * real i / real steps)) [1..<Suc steps]
         else
           let curvature = (if 0.001 < carrot_dist2 then 2 * carrot_y / carrot_dist2 else 0)
           in arc_loop ck curvature robot carrot_dist robot)"

definition lookaheads :: "PathClearanceParams \<Rightarrow> real list" where
  "lookaheads params =
     (if use_velocity_scaled_lookahead_dist params then [min_lookahead_dist params, max_lookahead_dist params]
      else [lookahead_dist params])"

definition find_carrot :: "pose \<Rightarrow> pose list \<Rightarrow> real \<Rightarrow> pose" where
  "find_carrot robot ahead lookahead =
     (case find (\<lambda>p. lookahead \<le> pdist p robot) ahead of Some p \<Rightarrow> p | None \<Rightarrow> last ahead)"

definition isBlocked :: "checker \<Rightarrow> pose \<Rightarrow> pose list \<Rightarrow> bool option" where
  "isBlocked ck robot path = do {
     here \<leftarrow> inCollision ck robot;
     if here then Some True
     else
       let las = lookaheads (ck_params ck); band_length = foldl max (hd las) las + margin (ck_params ck)
       in do {
         ahead \<leftarrow> resamplePathAhead ck robot path band_length;
         if ahead = [] then Some True
         else do {
           on_path \<leftarrow> any_opt (inCollision ck) ahead;
           if on_path then Some True
           else any_opt (\<lambda>la. isMotionToCarrotBlocked ck robot (find_carrot robot ahead la)) las
         }
       }
   }"

end
