(* ===== verification/PathClearanceProps.thy ===== *)
theory PathClearanceProps
  imports PathClearance
begin

text \<open>
  The clearance check always comes to a verdict, and a clear verdict means what it says: the footprint is free at the
  robot's pose and at samples that cover the path ahead.
\<close>

section \<open>The collision check\<close>

text \<open>What is used of \<^verbatim>\<open>LineIterator\<close>: the cells between two cells of the map stay inside the map.\<close>

definition line_ok :: "line_cells \<Rightarrow> bool" where
  "line_ok line \<longleftrightarrow> (\<forall>x0 y0 x1 y1. \<forall>(x, y) \<in> set (line (x0, y0) (x1, y1)). x \<le> max x0 x1 \<and> y \<le> max y0 y1)"

definition checker_ok :: "checker \<Rightarrow> bool" where
  "checker_ok ck \<longleftrightarrow>
     0 < resolution (ck_costmap ck) \<and> length (costs (ck_costmap ck)) = size_x (ck_costmap ck) * size_y (ck_costmap ck) \<and>
     2 \<le> length (ck_footprint ck) \<and> line_ok (ck_line ck)"

definition in_map :: "Costmap2D \<Rightarrow> nat \<times> nat \<Rightarrow> bool" where
  "in_map m = (\<lambda>(x, y). x < size_x m \<and> y < size_y m)"

definition cost_at :: "Costmap2D \<Rightarrow> nat \<times> nat \<Rightarrow> nat" where
  "cost_at m = (\<lambda>(x, y). unat (costs m ! getIndex m x y))"

lemma worldToMap_in_map: "worldToMap m wx wy = Some p \<Longrightarrow> in_map m p"
  by (auto simp: worldToMap_def in_map_def Let_def split: if_splits)

lemma getCost_defined:
  assumes "length (costs m) = size_x m * size_y m" and "in_map m (x, y)"
  shows "getCost m x y = Some (cost_at m (x, y))"
proof -
  have "x < size_x m" "y < size_y m" using assms(2) by (simp_all add: in_map_def)
  then have "Suc y * size_x m \<le> size_y m * size_x m" by (intro mult_le_mono1) simp
  with \<open>x < size_x m\<close> have "y * size_x m + x < size_y m * size_x m" by simp
  then show ?thesis using assms(1) by (simp add: getCost_def getIndex_def cost_at_def mult.commute)
qed

lemma lineCost_loop_spec:
  assumes "length (costs m) = size_x m * size_y m" and "\<forall>p \<in> set cells. in_map m p"
  shows "\<exists>c. lineCost_loop m cells lc = Some c \<and> (LETHAL_OBSTACLE \<le> c \<longleftrightarrow> LETHAL_OBSTACLE \<le> lc \<or> (\<exists>p \<in> set cells. LETHAL_OBSTACLE \<le> cost_at m p))"
  using assms(2)
proof (induction cells arbitrary: lc)
  case (Cons p cells)
  obtain x y where p: "p = (x, y)" by (cases p)
  have c: "getCost m x y = Some (cost_at m p)" using getCost_defined [OF assms(1)] Cons.prems p by simp
  show ?case
  proof (cases "cost_at m p = LETHAL_OBSTACLE")
    case True
    then show ?thesis by (simp add: p c [unfolded p])
  next
    case False
    with Cons.IH [of "max lc (cost_at m p)"] Cons.prems obtain v where
      "lineCost_loop m cells (max lc (cost_at m p)) = Some v"
      "LETHAL_OBSTACLE \<le> v \<longleftrightarrow> LETHAL_OBSTACLE \<le> max lc (cost_at m p) \<or> (\<exists>p \<in> set cells. LETHAL_OBSTACLE \<le> cost_at m p)" by auto
    with False show ?thesis by (auto simp: p c [unfolded p] le_max_iff_disj)
  qed
qed simp

fun outline :: "line_cells \<Rightarrow> nat \<times> nat \<Rightarrow> nat \<times> nat \<Rightarrow> (nat \<times> nat) list \<Rightarrow> (nat \<times> nat) list" where
  "outline line start p [] = line start p"
| "outline line start p (q # qs) = line p q @ outline line start q qs"

lemma line_in_map: "line_ok line \<Longrightarrow> in_map m p \<Longrightarrow> in_map m q \<Longrightarrow> c \<in> set (line p q) \<Longrightarrow> in_map m c"
  unfolding line_ok_def in_map_def by (cases p; cases q; cases c) fastforce

lemma lineCost_spec:
  assumes "length (costs m) = size_x m * size_y m" and "line_ok line" and "in_map m p" and "in_map m q"
  shows "\<exists>c. lineCost line m p q = Some c \<and> (LETHAL_OBSTACLE \<le> c \<longleftrightarrow> (\<exists>r \<in> set (line p q). LETHAL_OBSTACLE \<le> cost_at m r))"
  using lineCost_loop_spec [OF assms(1), of "line p q" 0] line_in_map [OF assms(2-4)]
  by (auto simp: lineCost_def LETHAL_OBSTACLE_def)

definition map_points :: "Costmap2D \<Rightarrow> vec2 list \<Rightarrow> (nat \<times> nat) option list" where
  "map_points m = map (\<lambda>(x, y). worldToMap m x y)"

lemma footprint_edges_spec:
  assumes "length (costs m) = size_x m * size_y m" and "line_ok line" and "in_map m start" and "in_map m p"
  shows "\<exists>c. footprint_edges line m start p rest fc = Some c \<and>
    (LETHAL_OBSTACLE \<le> c \<longleftrightarrow> LETHAL_OBSTACLE \<le> fc \<or> None \<in> set (map_points m rest) \<or>
       (\<exists>r \<in> set (outline line start p (map the (map_points m rest))). LETHAL_OBSTACLE \<le> cost_at m r))"
  using assms(4)
proof (induction rest arbitrary: p fc)
  case Nil
  from lineCost_spec [OF assms(1-3) Nil] show ?case by (auto simp: map_points_def le_max_iff_disj)
next
  case (Cons w rest)
  obtain wx wy where w: "w = (wx, wy)" by (cases w)
  show ?case
  proof (cases "worldToMap m wx wy")
    case None
    then show ?thesis by (simp add: w map_points_def)
  next
    case (Some q)
    note q = worldToMap_in_map [OF Some]
    from lineCost_spec [OF assms(1, 2) Cons.prems q] obtain c where
      c: "lineCost line m p q = Some c" "LETHAL_OBSTACLE \<le> c \<longleftrightarrow> (\<exists>r \<in> set (line p q). LETHAL_OBSTACLE \<le> cost_at m r)" by blast
    from Cons.IH [OF q, of "max c fc"] obtain v where
      v: "footprint_edges line m start q rest (max c fc) = Some v"
      "LETHAL_OBSTACLE \<le> v \<longleftrightarrow> LETHAL_OBSTACLE \<le> max c fc \<or> None \<in> set (map_points m rest) \<or>
         (\<exists>r \<in> set (outline line start q (map the (map_points m rest))). LETHAL_OBSTACLE \<le> cost_at m r)" by blast
    have mp: "map_points m ((wx, wy) # rest) = Some q # map_points m rest" by (simp add: map_points_def Some)
    show ?thesis
    proof (cases "max c fc = LETHAL_OBSTACLE")
      case True
      then have "LETHAL_OBSTACLE \<le> c \<or> LETHAL_OBSTACLE \<le> fc" by (auto simp: max_def split: if_splits)
      with True c show ?thesis by (auto simp: w Some mp Let_def)
    next
      case False
      with v c show ?thesis by (auto simp: w Some mp Let_def le_max_iff_disj)
    qed
  qed
qed

text \<open>The outline of the footprint touches a lethal or unknown cell, or leaves the map.\<close>

definition touches :: "checker \<Rightarrow> pose \<Rightarrow> bool" where
  "touches ck = (\<lambda>(x, y, theta).
     let ps = map_points (ck_costmap ck) (orient x y theta (ck_footprint ck))
     in None \<in> set ps \<or>
        (\<exists>c \<in> set (outline (ck_line ck) (the (hd ps)) (the (hd ps)) (map the (tl ps))). LETHAL_OBSTACLE \<le> cost_at (ck_costmap ck) c))"

lemma footprintCost_spec:
  assumes "checker_ok ck"
  shows "\<exists>c. footprintCostAtPose (ck_line ck) (ck_costmap ck) x y theta (ck_footprint ck) = Some c \<and>
    (LETHAL_OBSTACLE \<le> c \<longleftrightarrow> touches ck (x, y, theta))"
proof -
  let ?m = "ck_costmap ck" and ?pts = "orient x y theta (ck_footprint ck)"
  have ok: "length (costs ?m) = size_x ?m * size_y ?m" "line_ok (ck_line ck)" "2 \<le> length ?pts"
    using assms by (simp_all add: checker_ok_def orient_def)
  then obtain wx wy rest where pts: "?pts = (wx, wy) # rest" "rest \<noteq> []"
    by (cases ?pts; force)
  show ?thesis
  proof (cases "worldToMap ?m wx wy")
    case None
    then show ?thesis by (simp add: footprintCostAtPose_def footprintCost_def touches_def map_points_def pts)
  next
    case (Some p)
    note i = worldToMap_in_map [OF Some]
    from footprint_edges_spec [OF ok(1, 2) i i, of rest 0] Some pts show ?thesis
      by (auto simp: footprintCostAtPose_def footprintCost_def touches_def map_points_def LETHAL_OBSTACLE_def)
  qed
qed

lemma inCollision_spec:
  assumes "checker_ok ck"
  shows "\<exists>b. inCollision ck (x, y, theta) = Some b \<and>
    (track_unknown_space (ck_params ck) \<or> (b \<longleftrightarrow> worldToMap (ck_costmap ck) x y \<noteq> None \<and> touches ck (x, y, theta)))"
  using footprintCost_spec [OF assms, of x y theta]
  by (cases "worldToMap (ck_costmap ck) x y") (auto simp: inCollision_def)

lemma inCollision_defined: "checker_ok ck \<Longrightarrow> \<exists>b. inCollision ck p = Some b"
  using inCollision_spec [of ck] by (cases p) blast

lemma any_opt_defined:
  assumes "\<And>x. x \<in> set xs \<Longrightarrow> \<exists>b. f x = Some b"
  shows "any_opt f xs = Some (\<exists>x \<in> set xs. f x = Some True)"
  using assms
proof (induction xs)
  case (Cons x xs)
  from Cons.prems [of x] obtain b where "f x = Some b" by auto
  with Cons show ?case by (cases b) auto
qed simp

section \<open>The arc towards the carrot\<close>

definition arc_pose :: "real \<Rightarrow> real \<Rightarrow> pose \<Rightarrow> nat \<Rightarrow> pose" where
  "arc_pose step curvature robot k = (arc_step step curvature ^^ k) robot"

lemma arc_pose_Suc: "arc_pose step curvature robot (Suc k) = arc_step step curvature (arc_pose step curvature robot k)"
  by (simp add: arc_pose_def)

lemma arc_pose_theta: "snd (snd (arc_pose step curvature (x, y, t) k)) = t + real k * (step * curvature)"
  by (induction k) (auto simp: arc_pose_def arc_step_def case_prod_beta algebra_simps)

lemma sin_step: "sin (a + b) - sin (a - b) = 2 * sin b * cos a" for a b :: real
  by (simp add: sin_add sin_diff)

lemma cos_step: "cos (a - b) - cos (a + b) = 2 * sin b * sin a" for a b :: real
  by (simp add: cos_add cos_diff)

lemma arc_pose_sum:
  fixes step curvature x y t :: real
  defines "f \<equiv> step * curvature"
  shows "2 * sin (f / 2) * (fst (arc_pose step curvature (x, y, t) k) - x) = step * (sin (t + (real k - 1 / 2) * f) - sin (t - f / 2)) \<and>
    2 * sin (f / 2) * (fst (snd (arc_pose step curvature (x, y, t) k)) - y) = step * (cos (t - f / 2) - cos (t + (real k - 1 / 2) * f))"
proof (induction k)
  case 0
  have "t + (0 - 1 / 2) * f = t - f / 2" by simp
  then show ?case by (simp add: arc_pose_def)
next
  case (Suc k)
  let ?p = "arc_pose step curvature (x, y, t) k"
  have th: "snd (snd ?p) = t + real k * f" by (simp add: arc_pose_theta f_def)
  have a: "t + (real (Suc k) - 1 / 2) * f = (t + real k * f) + f / 2" "t + (real k - 1 / 2) * f = (t + real k * f) - f / 2"
    by (simp_all add: algebra_simps)
  have "2 * sin (f / 2) * (fst ?p + step * cos (t + real k * f) - x) = 2 * sin (f / 2) * (fst ?p - x) + step * (2 * sin (f / 2) * cos (t + real k * f))"
    "2 * sin (f / 2) * (fst (snd ?p) + step * sin (t + real k * f) - y) =
      2 * sin (f / 2) * (fst (snd ?p) - y) + step * (2 * sin (f / 2) * sin (t + real k * f))"
    by (simp_all add: algebra_simps)
  then show ?case using Suc sin_step [of "t + real k * f" "f / 2"] cos_step [of "t + real k * f" "f / 2"]
    unfolding a by (simp add: arc_pose_Suc arc_step_def case_prod_beta th algebra_simps)
qed

lemma chord_sq: "(sin a - sin b)\<^sup>2 + (cos b - cos a)\<^sup>2 = 4 * (sin ((a - b) / 2))\<^sup>2" for a b :: real
proof -
  have "(sin a - sin b)\<^sup>2 + (cos b - cos a)\<^sup>2 =
      ((sin a)\<^sup>2 + (cos a)\<^sup>2) + ((sin b)\<^sup>2 + (cos b)\<^sup>2) - 2 * (cos a * cos b + sin a * sin b)"
    by (simp add: power2_eq_square algebra_simps)
  also have "\<dots> = 2 - 2 * cos (a - b)" by (simp add: cos_diff)
  also have "cos (a - b) = 1 - 2 * (sin ((a - b) / 2))\<^sup>2"
  proof -
    have h: "2 * ((a - b) / 2) = a - b" by simp
    show ?thesis using cos_double_sin [of "(a - b) / 2"] unfolding h .
  qed
  finally show ?thesis by simp
qed

lemma arc_pose_dist:
  fixes step curvature :: real
  defines "f \<equiv> step * curvature"
  assumes "sin (f / 2) \<noteq> 0" and "0 \<le> step"
  shows "pdist (arc_pose step curvature robot k) robot = step * \<bar>sin (real k * f / 2)\<bar> / \<bar>sin (f / 2)\<bar>"
proof -
  obtain x y t where r: "robot = (x, y, t)" by (cases robot)
  obtain px py pt where p: "arc_pose step curvature (x, y, t) k = (px, py, pt)" by (metis surj_pair)
  let ?a = "t + (real k - 1 / 2) * f" and ?b = "t - f / 2"
  have s: "2 * sin (f / 2) * (px - x) = step * (sin ?a - sin ?b)" "2 * sin (f / 2) * (py - y) = step * (cos ?b - cos ?a)"
    using arc_pose_sum [of step curvature x y t k] by (simp_all add: f_def p)
  have "(2 * sin (f / 2))\<^sup>2 * ((px - x)\<^sup>2 + (py - y)\<^sup>2) = (2 * sin (f / 2) * (px - x))\<^sup>2 + (2 * sin (f / 2) * (py - y))\<^sup>2"
    by (simp add: power_mult_distrib distrib_left)
  also have "\<dots> = step\<^sup>2 * ((sin ?a - sin ?b)\<^sup>2 + (cos ?b - cos ?a)\<^sup>2)" unfolding s by (simp add: power_mult_distrib distrib_left)
  also have "\<dots> = step\<^sup>2 * (4 * (sin (real k * f / 2))\<^sup>2)" unfolding chord_sq by (simp add: algebra_simps)
  finally have "(sin (f / 2))\<^sup>2 * ((px - x)\<^sup>2 + (py - y)\<^sup>2) = (step * sin (real k * f / 2))\<^sup>2" by (simp add: power_mult_distrib)
  then have "(px - x)\<^sup>2 + (py - y)\<^sup>2 = (step * sin (real k * f / 2) / sin (f / 2))\<^sup>2"
    using assms(2) by (simp add: power_divide field_simps)
  then show ?thesis using assms(3) unfolding r by (simp add: p pdist_def hypot_def abs_mult)
qed

lemma sin_less_self:
  fixes x :: real
  assumes "0 < x" and "x \<le> pi"
  shows "sin x < x"
proof -
  have "cos (x / 2) < cos 0" using assms by (intro cos_monotone_0_pi) auto
  moreover have "0 < sin (x / 2)" using assms by (intro sin_gt_zero) auto
  moreover have "sin x = 2 * sin (x / 2) * cos (x / 2)" using sin_double [of "x / 2"] by simp
  ultimately have "sin x < 2 * sin (x / 2)" by simp
  also have "\<dots> \<le> x" using sin_x_le_x [of "x / 2"] assms(1) by simp
  finally show ?thesis .
qed

lemma arc_leaves_curved:
  fixes step d curvature :: real
  assumes "0 < step" and "step \<le> d" and "curvature \<noteq> 0" and "\<bar>curvature\<bar> \<le> 2 / d"
  shows "\<exists>k. d < pdist (arc_pose step curvature robot (Suc k)) robot"
proof -
  define f where "f = step * \<bar>curvature\<bar>"
  have d: "0 < d" using assms(1, 2) by simp
  have f: "0 < f" "f \<le> 2"
  proof -
    show "0 < f" using assms(1, 3) by (simp add: f_def)
    have "f \<le> step * (2 / d)" unfolding f_def using assms(1, 4) by (intro mult_left_mono) auto
    also have "\<dots> \<le> d * (2 / d)" using assms(2) d by (intro mult_right_mono) auto
    finally show "f \<le> 2" using d by simp
  qed
  have f_pi: "f \<le> pi" using f(2) pi_ge_two by linarith
  text \<open>The step whose half angle is closest to a right angle.\<close>
  define k where "k = nat \<lfloor>pi / f + 1 / 2\<rfloor>"
  have "1 \<le> pi / f" using f f_pi by simp
  then have k1: "1 \<le> \<lfloor>pi / f + 1 / 2\<rfloor>" by linarith
  then have k: "1 \<le> k" "real k \<le> pi / f + 1 / 2" "pi / f - 1 / 2 < real k" unfolding k_def by linarith+
  have "\<bar>real k * f / 2 - pi / 2\<bar> \<le> f / 4"
  proof -
    have "real k * f \<le> (pi / f + 1 / 2) * f" "(pi / f - 1 / 2) * f \<le> real k * f" using k f(1) by (auto intro: mult_right_mono)
    moreover have "(pi / f + 1 / 2) * f = pi + f / 2" "(pi / f - 1 / 2) * f = pi - f / 2" using f(1) by (simp_all add: field_simps)
    ultimately have "real k * f \<le> pi + f / 2" "pi - f / 2 \<le> real k * f" by linarith+
    then show ?thesis unfolding abs_le_iff by linarith
  qed
  then have "cos (f / 4) \<le> cos \<bar>real k * f / 2 - pi / 2\<bar>" using f f_pi by (intro cos_monotone_0_pi_le) auto
  also have "\<dots> = sin (real k * f / 2)" by (simp add: cos_diff)
  finally have s: "cos (f / 4) \<le> sin (real k * f / 2)" .
  have pos: "0 < sin (f / 4)" "0 < cos (f / 4)" "0 < sin (f / 2)"
    using f f_pi by (auto intro!: sin_gt_zero cos_gt_zero)
  have dbl: "sin (f / 2) = 2 * sin (f / 4) * cos (f / 4)" using sin_double [of "f / 4"] by simp
  have "d \<le> 2 / \<bar>curvature\<bar>" using assms(3, 4) d by (simp add: field_simps)
  also have "\<dots> = step / (2 * (f / 4))" using assms(1, 3) by (simp add: f_def field_simps)
  also have "\<dots> < step / (2 * sin (f / 4))"
    using sin_less_self [of "f / 4"] pos(1) f(1) f_pi assms(1) by (intro divide_strict_left_mono) auto
  also have "\<dots> = step * cos (f / 4) / sin (f / 2)" unfolding dbl using pos(2) by simp
  also have "\<dots> \<le> step * sin (real k * f / 2) / sin (f / 2)"
    using s assms(1) pos(3) by (intro divide_right_mono mult_left_mono) auto
  finally have lt: "d < step * sin (real k * f / 2) / sin (f / 2)" .
  have sg: "\<bar>sin (step * curvature / 2)\<bar> = sin (f / 2)" "\<bar>sin (real k * (step * curvature) / 2)\<bar> = \<bar>sin (real k * f / 2)\<bar>"
  proof -
    have "step * curvature = f \<or> step * curvature = - f" by (auto simp: f_def abs_if)
    then show "\<bar>sin (step * curvature / 2)\<bar> = sin (f / 2)" "\<bar>sin (real k * (step * curvature) / 2)\<bar> = \<bar>sin (real k * f / 2)\<bar>"
      using pos(3) by (auto simp: abs_minus_cancel)
  qed
  have "0 \<le> sin (real k * f / 2)" using s pos(2) by linarith
  then have "pdist (arc_pose step curvature robot k) robot = step * sin (real k * f / 2) / sin (f / 2)"
    using arc_pose_dist [of step curvature robot k] sg pos(3) assms(1) by simp
  with lt k(1) show ?thesis by (metis Suc_le_D One_nat_def)
qed

lemma arc_straight: "0 \<le> step \<Longrightarrow> pdist (arc_pose step 0 robot k) robot = real k * step"
proof -
  assume s: "0 \<le> step"
  obtain x y t where r: "robot = (x, y, t)" by (cases robot)
  have "arc_pose step 0 (x, y, t) k = (x + real k * step * cos t, y + real k * step * sin t, t)"
    by (induction k) (auto simp: arc_pose_def arc_step_def algebra_simps)
  then show ?thesis using s hypot_polar [of "real k * step" t] by (simp add: r pdist_def)
qed

text \<open>Whatever the carrot, the discretised arc leaves the disc around the robot that the carrot bounds.\<close>

lemma arc_leaves:
  fixes step d curvature :: real
  assumes "0 < step" and "0 \<le> d" and "curvature = 0 \<or> 0 < d \<and> \<bar>curvature\<bar> \<le> 2 / d"
  shows "\<exists>k. d < pdist (arc_pose step curvature robot (Suc k)) robot"
proof (cases "curvature = 0")
  case True
  obtain k where "d / step < real k" using reals_Archimedean2 by blast
  then have "d < real k * step" using assms(1) by (simp add: field_simps)
  also have "\<dots> \<le> real (Suc k) * step" using assms(1) by simp
  finally show ?thesis using True arc_straight [of step robot "Suc k"] assms(1) by (metis less_eq_real_def)
next
  case curved: False
  show ?thesis
  proof (cases "d < step")
    case True
    obtain x y t where r: "robot = (x, y, t)" by (cases robot)
    have "pdist (arc_pose step curvature robot (Suc 0)) robot = step"
      using assms(1) hypot_polar [of step t] by (simp add: r arc_pose_def arc_step_def pdist_def)
    with True show ?thesis by metis
  next
    case False
    then show ?thesis using assms curved by (intro arc_leaves_curved) auto
  qed
qed

text \<open>Some pose is in collision.\<close>

definition hits :: "checker \<Rightarrow> bool" where
  "hits ck \<longleftrightarrow> (\<exists>q. inCollision ck q = Some True)"

lemma hitsI: "inCollision ck q = Some True \<Longrightarrow> hits ck"
  unfolding hits_def by blast

lemma any_hits:
  assumes "checker_ok ck"
  shows "\<exists>b. any_opt (\<lambda>x. inCollision ck (f x)) xs = Some b \<and> (b \<longrightarrow> hits ck)"
proof -
  have "any_opt (\<lambda>x. inCollision ck (f x)) xs = Some (\<exists>x \<in> set xs. inCollision ck (f x) = Some True)"
    by (intro any_opt_defined inCollision_defined [OF assms])
  then show ?thesis by (auto intro: hitsI)
qed

lemma arc_loop_defined:
  assumes "checker_ok ck" and "d < pdist (arc_pose (resolution (ck_costmap ck)) curvature p (Suc k)) robot"
  shows "\<exists>b. arc_loop ck curvature robot d p = Some b \<and> (b \<longrightarrow> hits ck)"
  using assms(2)
proof (induction k arbitrary: p)
  case 0
  then show ?case by (intro exI [of _ False], subst arc_loop.simps) (simp add: arc_pose_def Let_def)
next
  case (Suc k)
  let ?q = "arc_step (resolution (ck_costmap ck)) curvature p"
  have "arc_pose (resolution (ck_costmap ck)) curvature p (Suc (Suc k)) = arc_pose (resolution (ck_costmap ck)) curvature ?q (Suc k)"
    by (simp add: arc_pose_def funpow_swap1)
  with Suc.IH [of ?q] Suc.prems obtain b where
    b: "arc_loop ck curvature robot d ?q = Some b" "b \<longrightarrow> hits ck" by auto
  moreover obtain c where c: "inCollision ck ?q = Some c" using inCollision_defined [OF assms(1)] by blast
  ultimately have "arc_loop ck curvature robot d p = Some (if d < pdist ?q robot then False else c \<or> b)"
    by (subst arc_loop.simps) (simp add: Let_def)
  then show ?case using b(2) hitsI [of ck ?q] c by auto
qed

lemma motion_check_defined:
  assumes "checker_ok ck"
  shows "\<exists>b. isMotionToCarrotBlocked ck robot carrot = Some b \<and> (b \<longrightarrow> hits ck)"
proof -
  obtain cx cy where c: "to_robot_frame robot carrot = (cx, cy)" by fastforce
  define d2 where "d2 = cx * cx + cy * cy"
  define curvature where "curvature = (if 0.001 < d2 then 2 * cy / d2 else 0)"
  obtain rx ry rt where r: "robot = (rx, ry, rt)" by (cases robot)
  have "curvature = 0 \<or> 0 < sqrt d2 \<and> \<bar>curvature\<bar> \<le> 2 / sqrt d2"
  proof (cases "0.001 < d2")
    case True
    define r where "r = sqrt d2"
    have r: "0 < r" "d2 = r * r" "\<bar>cy\<bar> \<le> r" using True by (auto simp: r_def d2_def power2_eq_square intro: real_le_rsqrt)
    have "\<bar>curvature\<bar> = 2 * \<bar>cy\<bar> / (r * r)" using True by (simp add: curvature_def r(2) abs_mult)
    also have "\<dots> \<le> 2 * r / (r * r)" using r(1, 3) by (intro divide_right_mono) auto
    also have "\<dots> = 2 / r" using r(1) by simp
    finally show ?thesis using r(1) by (simp add: r_def)
  qed (simp add: curvature_def)
  moreover have "0 < resolution (ck_costmap ck)" "0 \<le> sqrt d2" using assms by (simp_all add: checker_ok_def d2_def)
  ultimately obtain k where "sqrt d2 < pdist (arc_pose (resolution (ck_costmap ck)) curvature robot (Suc k)) robot"
    using arc_leaves by blast
  from arc_loop_defined [OF assms this] obtain b where
    b: "arc_loop ck curvature robot (sqrt d2) robot = Some b" "b \<longrightarrow> hits ck" by blast
  let ?steps = "nat \<lceil>\<bar>atan2 cy cx\<bar> / kRotationStep\<rceil>"
  have "\<exists>b. any_opt (\<lambda>i. inCollision ck (rx, ry, rt + atan2 cy cx * real i / real ?steps)) [1..<Suc ?steps] = Some b \<and>
      (b \<longrightarrow> hits ck)"
    by (rule any_hits [OF assms])
  moreover have "isMotionToCarrotBlocked ck robot carrot =
      (if use_rotate_to_heading (ck_params ck) \<and> rotate_to_heading_min_angle (ck_params ck) < \<bar>atan2 cy cx\<bar>
       then any_opt (\<lambda>i. inCollision ck (rx, ry, rt + atan2 cy cx * real i / real ?steps)) [1..<Suc ?steps]
       else arc_loop ck curvature robot (sqrt d2) robot)"
    by (simp only: isMotionToCarrotBlocked_def c [unfolded r] Let_def r curvature_def d2_def case_prod_conv)
  ultimately show ?thesis using b by simp
qed

section \<open>Sampling of the path\<close>

lemma segment_samples_defined:
  assumes "0 < step"
  shows "\<exists>ps. segment_samples step a b travelled len s = Some ps"
proof -
  obtain n where n: "pdist a b - s < real n * step"
    using reals_Archimedean3 [OF assms] by blast
  then show ?thesis
  proof (induction n arbitrary: s)
    case 0
    then show ?case by (subst segment_samples.simps) (simp add: Let_def)
  next
    case (Suc n)
    then have "pdist a b - (s + step) < real n * step" by (simp add: algebra_simps)
    from Suc.IH [OF this] obtain ps where "segment_samples step a b travelled len (s + step) = Some ps" by blast
    then show ?case by (subst segment_samples.simps) (simp add: Let_def)
  qed
qed

lemma resample_segments_defined:
  "0 < step \<Longrightarrow> \<exists>ps t. resample_segments step len path travelled = Some (ps, t)"
proof (induction step len path travelled rule: resample_segments.induct)
  case (1 step len a b path travelled)
  obtain ps where ps: "segment_samples step a b travelled len 0 = Some ps" using segment_samples_defined [OF "1.prems"] by blast
  show ?case
  proof (cases "travelled \<le> len")
    case True
    then show ?thesis using "1.IH" "1.prems" ps by (cases "pdist a b < 1 / 10 ^ 6") (fastforce simp: Let_def)+
  qed simp
qed auto

lemma resamplePathAhead_defined:
  assumes "checker_ok ck"
  shows "\<exists>ps. resamplePathAhead ck robot path len = Some ps"
proof -
  have "0 < resolution (ck_costmap ck)" using assms by (simp add: checker_ok_def)
  then obtain ps t where "resample_segments (resolution (ck_costmap ck)) len
      (drop (closest_loop (max_robot_pose_search_dist (ck_params ck)) robot None path 0 0 0 None) path) 0 = Some (ps, t)"
    using resample_segments_defined by blast
  then show ?thesis by (simp add: resamplePathAhead_def Let_def)
qed

lemma isBlocked_defined:
  assumes "checker_ok ck"
  shows "\<exists>b. isBlocked ck robot path = Some b \<and> (b \<longrightarrow> path = [] \<or> hits ck)"
proof -
  obtain here where h: "inCollision ck robot = Some here" using inCollision_defined [OF assms] by blast
  let ?las = "lookaheads (ck_params ck)"
  obtain ahead where a: "resamplePathAhead ck robot path (foldl max (hd ?las) ?las + margin (ck_params ck)) = Some ahead"
    using resamplePathAhead_defined [OF assms] by blast
  obtain p where p: "any_opt (inCollision ck) ahead = Some p" "p \<longrightarrow> hits ck" using any_hits [OF assms, of "\<lambda>x. x"] by blast
  let ?m = "\<lambda>la. isMotionToCarrotBlocked ck robot (find_carrot robot ahead la)"
  have m: "any_opt ?m ?las = Some (\<exists>la \<in> set ?las. ?m la = Some True)"
    by (intro any_opt_defined) (use motion_check_defined [OF assms] in blast)
  have mh: "hits ck" if "?m la = Some True" for la
    using motion_check_defined [OF assms, of robot "find_carrot robot ahead la"] that by auto
  have ne: "path = []" if "ahead = []"
    using a that by (auto simp: resamplePathAhead_def Let_def bind_eq_Some_conv split: if_splits)
  have "isBlocked ck robot path = Some (here \<or> ahead = [] \<or> p \<or> (\<exists>la \<in> set ?las. ?m la = Some True))"
    by (simp add: isBlocked_def h a p(1) m Let_def)
  then show ?thesis using h p(2) mh ne hitsI [of ck robot] by auto
qed

text \<open>
  C17. The clearance check always returns: with a positive map resolution, whatever the pose, the path, the costmap and
  the parameters, sampling the path ends, and so does following the arc towards the carrot, which is checked step by
  step until it is farther from the robot than the carrot; no cell outside the map is read.
\<close>

theorem clearance_check_returns:
  assumes "checker_ok ck"
  shows "\<exists>b. isBlocked ck robot path = Some b"
  using isBlocked_defined [OF assms] by blast

text \<open>Every point of a sampled segment is within one map cell of a sample.\<close>

definition on_segment :: "pose \<Rightarrow> pose \<Rightarrow> real \<Rightarrow> vec2" where
  "on_segment = (\<lambda>(ax, ay, ta) (bx, by, tb) u.
     (ax + (bx - ax) * u / pdist (ax, ay, ta) (bx, by, tb), ay + (by - ay) * u / pdist (ax, ay, ta) (bx, by, tb)))"

definition xy :: "pose \<Rightarrow> vec2" where
  "xy = (\<lambda>(x, y, _). (x, y))"

definition vec_dist :: "vec2 \<Rightarrow> vec2 \<Rightarrow> real" where
  "vec_dist = (\<lambda>(ax, ay) (bx, by). hypot (ax - bx) (ay - by))"

lemma on_segment_dist:
  assumes "0 < pdist a b"
  shows "vec_dist (on_segment a b u) (on_segment a b v) = \<bar>u - v\<bar>"
proof -
  obtain ax ay ta bx "by" tb where ab: "a = (ax, ay, ta)" "b = (bx, by, tb)" by (metis surj_pair)
  let ?d = "pdist a b"
  have d2: "(bx - ax)\<^sup>2 + (by - ay)\<^sup>2 = ?d\<^sup>2" by (simp add: ab pdist_def hypot_def power2_commute)
  have "(ax + (bx - ax) * u / ?d) - (ax + (bx - ax) * v / ?d) = (bx - ax) * ((u - v) / ?d)"
    "(ay + (by - ay) * u / ?d) - (ay + (by - ay) * v / ?d) = (by - ay) * ((u - v) / ?d)" by (simp_all add: algebra_simps diff_divide_distrib)
  then have "vec_dist (on_segment a b u) (on_segment a b v) = sqrt (((bx - ax)\<^sup>2 + (by - ay)\<^sup>2) * ((u - v) / ?d)\<^sup>2)"
    by (simp add: vec_dist_def on_segment_def ab hypot_def power_mult_distrib power_divide add_divide_distrib distrib_right)
  also have "\<dots> = sqrt ((u - v)\<^sup>2)" unfolding d2 using assms by (simp add: power_divide)
  finally show ?thesis by simp
qed

lemma segment_samples_cover:
  assumes "0 < step" and "segment_samples step a b travelled len s = Some ps"
    and "s \<le> u" and "u < pdist a b" and "travelled + u \<le> len"
  shows "\<exists>p \<in> set ps. \<exists>v. xy p = on_segment a b v \<and> 0 \<le> u - v \<and> u - v < step"
proof -
  obtain n where "u - s < real n * step" using reals_Archimedean3 [OF assms(1)] by blast
  then show ?thesis using assms(2, 3)
  proof (induction n arbitrary: s ps)
    case (Suc n)
    have c: "s < pdist a b" "travelled + s \<le> len" using assms(4, 5) Suc.prems(3) by auto
    from Suc.prems(2) obtain rest where rest: "segment_samples step a b travelled len (s + step) = Some rest"
      and ps: "ps = (case (a, b) of ((ax, ay, _), (bx, by, _)) \<Rightarrow>
               (ax + (bx - ax) * s / pdist a b, ay + (by - ay) * s / pdist a b, atan2 (by - ay) (bx - ax))) # rest"
      by (subst (asm) segment_samples.simps) (use c in \<open>auto simp: Let_def bind_eq_Some_conv\<close>)
    show ?case
    proof (cases "u < s + step")
      case True
      have "xy (hd ps) = on_segment a b s" by (simp add: ps xy_def on_segment_def split: prod.split)
      with True Suc.prems(3) show ?thesis by (intro bexI [of _ "hd ps"] exI [of _ s]) (auto simp: ps)
    next
      case False
      with Suc.prems(1) have "u - (s + step) < real n * step" "s + step \<le> u" by (simp_all add: algebra_simps)
      from Suc.IH [OF this(1) rest this(2)] show ?thesis by (auto simp: ps)
    qed
  qed simp
qed


fun lead :: "pose list \<Rightarrow> nat \<Rightarrow> real" where
  "lead path 0 = 0"
| "lead (a # b # path) (Suc k) = (if pdist a b < 1 / 10 ^ 6 then 0 else pdist a b) + lead (b # path) k"
| "lead path (Suc k) = 0"

lemma pdist_nonneg [simp]: "0 \<le> pdist a b"
  by (simp add: pdist_def case_prod_beta)

lemma lead_nonneg [simp]: "0 \<le> lead path k"
  by (induction path k rule: lead.induct) auto

lemma resample_cover:
  assumes "0 < step" and "resample_segments step len path travelled = Some (ps, t)" and "Suc k < length path"
    and "1 / 10 ^ 6 \<le> pdist (path ! k) (path ! Suc k)" and "0 \<le> u" and "u < pdist (path ! k) (path ! Suc k)"
    and "travelled + lead path k + u \<le> len"
  shows "\<exists>p \<in> set ps. \<exists>v. xy p = on_segment (path ! k) (path ! Suc k) v \<and> 0 \<le> u - v \<and> u - v < step"
  using assms
proof (induction step len path travelled arbitrary: ps t k rule: resample_segments.induct)
  case (1 step len a b path travelled)
  then have tr: "travelled \<le> len" using lead_nonneg [of "a # b # path" k] by linarith
  show ?case
  proof (cases k)
    case 0
    then show ?thesis using segment_samples_cover [OF "1.prems"(1), of a b travelled len 0 _ u] "1.prems" tr
      by (auto simp: Let_def bind_eq_Some_conv) blast
  next
    case (Suc j)
    show ?thesis
    proof (cases "pdist a b < 1 / 10 ^ 6")
      case True
      then show ?thesis using "1.IH"(1) [OF tr refl True, of ps t j] "1.prems" Suc tr by simp
    next
      case False
      then obtain qs rs where r: "resample_segments step len (b # path) (travelled + pdist a b) = Some (rs, t)" "ps = qs @ rs"
        and q: "segment_samples step a b travelled len 0 = Some qs"
        using "1.prems"(2) tr by (auto simp: Let_def bind_eq_Some_conv)
      from "1.prems" False Suc have "\<exists>p \<in> set rs. \<exists>v. xy p = on_segment ((b # path) ! j) ((b # path) ! Suc j) v \<and> 0 \<le> u - v \<and> u - v < step"
        by (intro "1.IH"(2) [OF tr refl False q "1.prems"(1) r(1)]) auto
      then show ?thesis using r(2) Suc by auto
    qed
  qed
qed auto



definition sample_line :: line_cells where
  "sample_line = (\<lambda>(x0, y0) (x1, y1). [(x0, y0), (x1, y1)])"

definition sample_checker :: "u8 list \<Rightarrow> bool \<Rightarrow> checker" where
  "sample_checker cs unknown = \<lparr>ck_line = sample_line,
     ck_costmap = \<lparr>size_x = 3, size_y = 1, resolution = 1, origin_x = 0, origin_y = 0, costs = cs\<rparr>,
     ck_footprint = [(0, 0), (1, 0), (2, 0)],
     ck_params = \<lparr>use_velocity_scaled_lookahead_dist = False, lookahead_dist = 1, min_lookahead_dist = 1, max_lookahead_dist = 1,
       use_rotate_to_heading = True, rotate_to_heading_min_angle = 1, max_robot_pose_search_dist = 4, track_unknown_space = unknown,
       margin = 1\<rparr>\<rparr>"

text \<open>
  With unknown space tracked, an unknown cell under the outline of the footprint hides a lethal one: there is a
  costmap and a pose whose footprint outline crosses a lethal cell and that the collision check, like the controller's,
  calls free.
\<close>

theorem unknown_hides_lethal:
  "cost_at (ck_costmap (sample_checker [255, 0, 254] True)) (2, 0) = LETHAL_OBSTACLE \<and>
   (2, 0) \<in> set (outline sample_line (0, 0) (0, 0) [(1, 0), (2, 0)]) \<and>
   map_points (ck_costmap (sample_checker [255, 0, 254] True)) (orient 0.5 0.5 0 (ck_footprint (sample_checker [255, 0, 254] True))) =
     [Some (0, 0), Some (1, 0), Some (2, 0)] \<and>
   inCollision (sample_checker [255, 0, 254] True) (0.5, 0.5, 0) = Some False"
  by (simp add: sample_checker_def cost_at_def getIndex_def LETHAL_OBSTACLE_def NO_INFORMATION_def sample_line_def map_points_def orient_def
      worldToMap_def Let_def inCollision_def footprintCostAtPose_def footprintCost_def lineCost_def getCost_def)

lemma sample_checker_ok: "length cs = 3 \<Longrightarrow> checker_ok (sample_checker cs unknown)"
  by (auto simp: checker_ok_def sample_checker_def line_ok_def sample_line_def)

theorem clearance_check_returns_witness: "\<exists>b. isBlocked (sample_checker [0, 0, 254] False) (0.5, 0.5, 0) [(0, 0, 0), (2, 0, 0)] = Some b"
  by (rule clearance_check_returns) (simp add: sample_checker_ok)


definition empty_checker :: checker where
  "empty_checker = (sample_checker [] False)\<lparr>ck_costmap := new_costmap 0 0 1 0 0\<rparr>"

lemma empty_checker_free: "inCollision empty_checker p = Some False"
  by (cases p) (simp add: inCollision_def worldToMap_def empty_checker_def new_costmap_def Let_def)


end
