(* ===== verification/FootprintParser.thy ===== *)
theory FootprintParser
  imports PathClearance
begin

text \<open>
  The footprint parameter: \<^verbatim>\<open>parseVVF\<close> (\<^verbatim>\<open>nav2_costmap_2d/src/array_parser.cpp\<close>) and \<^verbatim>\<open>makeFootprintFromString\<close>
  (\<^verbatim>\<open>nav2_costmap_2d/src/footprint.cpp\<close>).  The string stream is the list of the characters not yet read; extracting a
  number skips white space and takes the longest prefix of the shape of a decimal literal, as \<^verbatim>\<open>operator>>\<close> does, and
  fails where the conversion does.  Numbers are reals, not rounded to \<^verbatim>\<open>float\<close>.
\<close>

section \<open>Reading a number\<close>

definition is_space :: "char \<Rightarrow> bool" where
  "is_space c \<longleftrightarrow> c \<in> {CHR '' '', CHR 0x09, CHR 0x0A, CHR 0x0B, CHR 0x0C, CHR 0x0D}"

definition is_digit :: "char \<Rightarrow> bool" where
  "is_digit c \<longleftrightarrow> 48 \<le> (of_char c :: nat) \<and> (of_char c :: nat) \<le> 57"

definition digits_value :: "string \<Rightarrow> nat" where
  "digits_value = foldl (\<lambda>n c. 10 * n + (of_char c - 48)) 0"

definition take_sign :: "string \<Rightarrow> bool \<times> string" where
  "take_sign s = (case s of c # r \<Rightarrow> if c = CHR ''-'' then (True, r) else if c = CHR ''+'' then (False, r) else (False, s) | [] \<Rightarrow> (False, s))"

definition take_digits :: "string \<Rightarrow> string \<times> string" where
  "take_digits s = (takeWhile is_digit s, dropWhile is_digit s)"

definition take_fraction :: "string \<Rightarrow> string \<times> string" where
  "take_fraction s = (case s of c # r \<Rightarrow> if c = CHR ''.'' then take_digits r else ([], s) | [] \<Rightarrow> ([], s))"

text \<open>The exponent of a mantissa; \<open>None\<close> for a marker with no digits.\<close>

definition take_exponent :: "string \<Rightarrow> int option \<times> string" where
  "take_exponent s = (case s of
     c # r \<Rightarrow>
       if c = CHR ''e'' \<or> c = CHR ''E'' then
         let (neg, r) = take_sign r; (ds, r) = take_digits r
         in (if ds = [] then None else Some ((if neg then - 1 else 1) * int (digits_value ds)), r)
       else (Some 0, s)
   | [] \<Rightarrow> (Some 0, s))"

definition float_limit :: real where "float_limit = 2 ^ 128 - 2 ^ 103"

definition extract_float :: "string \<Rightarrow> (real \<times> string) option" where
  "extract_float s =
     (let (neg, s) = take_sign (dropWhile is_space s); (ds, s) = take_digits s; (fs, s) = take_fraction s
      in if ds @ fs = [] then None
         else case take_exponent s of
             (None, _) \<Rightarrow> None
           | (Some e, s) \<Rightarrow>
               let v = (if neg then - 1 else 1) * real (digits_value (ds @ fs)) * 10 powi (e - int (length fs))
               in if float_limit \<le> \<bar>v\<bar> then None else Some (v, s))"

lemma length_take_sign: "length (snd (take_sign s)) \<le> length s"
  by (auto simp: take_sign_def split: list.splits)

lemma length_take_digits: "length (fst (take_digits s)) + length (snd (take_digits s)) = length s"
  by (simp add: take_digits_def flip: length_append)

lemma length_take_fraction: "length (fst (take_fraction s)) + length (snd (take_fraction s)) \<le> length s"
  using length_take_digits by (auto simp: take_fraction_def split: list.splits intro: le_SucI)

lemma length_take_exponent: "length (snd (take_exponent s)) \<le> length s"
proof (cases s)
  case (Cons c r)
  have "length (snd (take_digits (snd (take_sign r)))) \<le> length r"
    using length_take_digits [of "snd (take_sign r)"] length_take_sign [of r] by linarith
  then show ?thesis using Cons by (auto simp: take_exponent_def split: prod.splits)
qed (simp add: take_exponent_def)

lemma extract_float_shorter:
  assumes "extract_float s = Some (v, r)"
  shows "length r < length s"
proof -
  define s1 where "s1 = snd (take_sign (dropWhile is_space s))"
  define s2 where "s2 = snd (take_digits s1)"
  define s3 where "s3 = snd (take_fraction s2)"
  have "r = snd (take_exponent s3) \<and> fst (take_digits s1) @ fst (take_fraction s2) \<noteq> []"
    using assms by (auto simp: extract_float_def Let_def s1_def s2_def s3_def split: prod.splits option.splits if_splits)
  then have r: "r = snd (take_exponent s3)" "0 < length (fst (take_digits s1)) + length (fst (take_fraction s2))"
    by (simp_all flip: length_greater_0_conv)
  have "length s1 \<le> length s"
    using length_take_sign [of "dropWhile is_space s"] length_dropWhile_le [of is_space s] by (simp add: s1_def)
  moreover have "length (fst (take_digits s1)) + length s2 = length s1" "length (fst (take_fraction s2)) + length s3 \<le> length s2"
    using length_take_digits [of s1] length_take_fraction [of s2] by (simp_all add: s2_def s3_def)
  ultimately show ?thesis using r(2) length_take_exponent [of s3] unfolding r(1) by linarith
qed

section \<open>parseVVF\<close>

datatype vvf_error = DepthGreaterThan2 | MoreCloseThanOpen | NumberAtDepth char | Unterminated

text \<open>The loop over the stream.  A failed extraction ends it at depth 2, with the vector unterminated.\<close>

function parseVVF_loop :: "string \<Rightarrow> int \<Rightarrow> real list \<Rightarrow> real list list \<Rightarrow> vvf_error + real list list" where
  "parseVVF_loop [] depth current_vector result = (if depth \<noteq> 0 then Inl Unterminated else Inr result)"
| "parseVVF_loop (c # cs) depth current_vector result =
     (if c = CHR ''['' then
        if depth + 1 > 2 then Inl DepthGreaterThan2 else parseVVF_loop cs (depth + 1) [] result
      else if c = CHR '']'' then
        if depth - 1 < 0 then Inl MoreCloseThanOpen
        else parseVVF_loop cs (depth - 1) current_vector (if depth - 1 = 1 then result @ [current_vector] else result)
      else if c = CHR '','' \<or> c = CHR '' '' \<or> c = CHR 0x09 then parseVVF_loop cs depth current_vector result
      else if depth \<noteq> 2 then Inl (NumberAtDepth c)
      else case extract_float (c # cs) of
          None \<Rightarrow> Inl Unterminated
        | Some (v, rest) \<Rightarrow> parseVVF_loop rest depth (current_vector @ [v]) result)"
  by pat_completeness auto
termination
  by (relation "measure (\<lambda>(s, _). length s)") (auto dest: extract_float_shorter)

definition parseVVF :: "string \<Rightarrow> vvf_error + real list list" where
  "parseVVF input = parseVVF_loop input 0 [] []"

fun to_points :: "real list list \<Rightarrow> vec2 list option" where
  "to_points [] = Some []"
| "to_points (v # vs) = (case v of [x, y] \<Rightarrow> map_option ((#) (x, y)) (to_points vs) | _ \<Rightarrow> None)"

definition makeFootprintFromString :: "string \<Rightarrow> vec2 list option" where
  "makeFootprintFromString footprint_string =
     (case parseVVF footprint_string of
        Inl _ \<Rightarrow> None
      | Inr vvf \<Rightarrow> if length vvf < 3 then None else to_points vvf)"

lemma to_points_length: "to_points vvf = Some ps \<Longrightarrow> length ps = length vvf"
  by (induction vvf arbitrary: ps) (auto split: list.splits)

lemma makeFootprintFromString_length: "makeFootprintFromString s = Some fp \<Longrightarrow> 3 \<le> length fp"
  by (auto simp: makeFootprintFromString_def to_points_length split: sum.splits if_splits)

section \<open>The documented syntax is read back\<close>

text \<open>A decimal literal: sign, digits, digits after the point.  A footprint is written as \<^verbatim>\<open>[[x, y], [x, y], ...]\<close>.\<close>

type_synonym decimal = "bool \<times> string \<times> string"

definition decimal_ok :: "decimal \<Rightarrow> bool" where
  "decimal_ok = (\<lambda>(neg, ds, fs). ds \<noteq> [] \<and> list_all is_digit ds \<and> list_all is_digit fs \<and>
     real (digits_value (ds @ fs)) < float_limit * 10 ^ length fs)"

definition decimal_value :: "decimal \<Rightarrow> real" where
  "decimal_value = (\<lambda>(neg, ds, fs). (if neg then - 1 else 1) * real (digits_value (ds @ fs)) / 10 ^ length fs)"

definition write_decimal :: "decimal \<Rightarrow> string" where
  "write_decimal = (\<lambda>(neg, ds, fs). (if neg then ''-'' else []) @ ds @ (if fs = [] then [] else CHR ''.'' # fs))"

definition write_point :: "decimal \<times> decimal \<Rightarrow> string" where
  "write_point = (\<lambda>(x, y). ''['' @ write_decimal x @ '', '' @ write_decimal y @ '']'')"

fun write_points :: "(decimal \<times> decimal) list \<Rightarrow> string" where
  "write_points [] = []"
| "write_points [p] = write_point p"
| "write_points (p # ps) = write_point p @ '', '' @ write_points ps"

definition write_footprint :: "(decimal \<times> decimal) list \<Rightarrow> string" where
  "write_footprint ps = ''['' @ write_points ps @ '']''"

lemma take_digits_list_all:
  "list_all is_digit ds \<Longrightarrow> \<not> is_digit c \<Longrightarrow> take_digits (ds @ c # r) = (ds, c # r)"
  by (auto simp: take_digits_def takeWhile_append dropWhile_append list_all_iff)

lemma digit_chars [simp]:
  "\<not> is_digit CHR '',''" "\<not> is_digit CHR '']''" "\<not> is_digit CHR ''.''" "\<not> is_digit CHR ''[''" "\<not> is_digit CHR '' ''"
  "\<not> is_digit CHR ''-''" "\<not> is_digit CHR ''+''" "\<not> is_digit CHR 0x09"
  by (simp_all add: is_digit_def)

lemma digit_not_space: "is_digit c \<Longrightarrow> \<not> is_space c"
  by (auto simp: is_digit_def is_space_def)

lemma extract_decimal:
  assumes "decimal_ok d" and c: "c = CHR '','' \<or> c = CHR '']''"
  shows "extract_float (write_decimal d @ c # r) = Some (decimal_value d, c # r)"
proof -
  obtain neg ds fs where d: "d = (neg, ds, fs)" by (cases d)
  with assms(1) have ds: "ds \<noteq> []" "list_all is_digit ds" "list_all is_digit fs" "real (digits_value (ds @ fs)) < float_limit * 10 ^ length fs"
    by (auto simp: decimal_ok_def)
  then obtain e es where e: "ds = e # es" "is_digit e" by (cases ds) auto
  let ?tail = "ds @ (if fs = [] then [] else CHR ''.'' # fs) @ c # r"
  have sign: "take_sign (dropWhile is_space (write_decimal d @ c # r)) = (neg, ?tail)"
    using e digit_not_space [OF e(2)] by (auto simp: d write_decimal_def take_sign_def is_space_def)
  have nd: "\<not> is_digit c" using c by auto
  have digits: "take_digits ?tail = (ds, (if fs = [] then [] else CHR ''.'' # fs) @ c # r)"
    using ds(2) nd by (auto intro: take_digits_list_all)
  have frac: "take_fraction ((if fs = [] then [] else CHR ''.'' # fs) @ c # r) = (fs, c # r)"
    using take_digits_list_all [OF ds(3) nd] c by (auto simp: take_fraction_def)
  have expo: "take_exponent (c # r) = (Some 0, c # r)" using c by (auto simp: take_exponent_def)
  have val: "(if neg then - 1 else 1) * real (digits_value (ds @ fs)) * 10 powi (0 - int (length fs)) = decimal_value d"
    by (simp add: d decimal_value_def power_int_minus divide_inverse)
  have "\<bar>decimal_value d\<bar> < float_limit"
    using ds(4) by (simp add: d decimal_value_def abs_mult divide_less_eq)
  then show ?thesis
    using ds(1) val by (simp add: extract_float_def sign digits frac expo)
qed

lemma loop_decimal:
  assumes "decimal_ok d" and "c = CHR '','' \<or> c = CHR '']''"
  shows "parseVVF_loop (write_decimal d @ c # r) 2 cur res = parseVVF_loop (c # r) 2 (cur @ [decimal_value d]) res"
proof -
  obtain neg ds fs where d: "d = (neg, ds, fs)" by (cases d)
  with assms(1) obtain e es where e: "ds = e # es" "is_digit e" by (cases ds) (auto simp: decimal_ok_def)
  then obtain h hs where h: "write_decimal d @ c # r = h # hs" "h = CHR ''-'' \<or> is_digit h"
    by (cases neg) (auto simp: d write_decimal_def)
  have ne: "h \<noteq> CHR ''[''" "h \<noteq> CHR '']''" "h \<noteq> CHR '',''" "h \<noteq> CHR '' ''" "h \<noteq> CHR 0x09" using h(2) by auto
  have "parseVVF_loop (h # hs) 2 cur res = parseVVF_loop (c # r) 2 (cur @ [decimal_value d]) res"
    using extract_decimal [OF assms, of r] ne unfolding h(1) by simp
  then show ?thesis unfolding h(1) .
qed

lemma loop_point:
  assumes "decimal_ok (fst p)" and "decimal_ok (snd p)"
  shows "parseVVF_loop (write_point p @ r) 1 cur res =
    parseVVF_loop r 1 [decimal_value (fst p), decimal_value (snd p)] (res @ [[decimal_value (fst p), decimal_value (snd p)]])"
  using assms by (cases p) (simp add: write_point_def loop_decimal)

lemma loop_points:
  "list_all (\<lambda>p. decimal_ok (fst p) \<and> decimal_ok (snd p)) ps \<Longrightarrow> \<exists>cur'.
     parseVVF_loop (write_points ps @ r) 1 cur res = parseVVF_loop r 1 cur' (res @ map (\<lambda>p. [decimal_value (fst p), decimal_value (snd p)]) ps)"
proof (induction ps arbitrary: cur res rule: write_points.induct)
  case (3 p q ps)
  let ?v = "[decimal_value (fst p), decimal_value (snd p)]"
  have "\<exists>cur'. parseVVF_loop (write_points (q # ps) @ r) 1 ?v (res @ [?v]) =
      parseVVF_loop r 1 cur' ((res @ [?v]) @ map (\<lambda>p. [decimal_value (fst p), decimal_value (snd p)]) (q # ps))"
    using "3.prems" by (intro "3.IH") simp
  then show ?case using "3.prems" by (simp add: loop_point)
qed (auto simp: loop_point)

lemma to_points_pairs: "to_points (map (\<lambda>p. [f (fst p), f (snd p)]) ps) = Some (map (\<lambda>p. (f (fst p), f (snd p))) ps)"
  by (induction ps) auto

text \<open>C22. A footprint written in the documented syntax, at least three points of two decimal literals in the range of \<^verbatim>\<open>float\<close>, is read back
  as these points.\<close>

theorem footprint_roundtrip:
  assumes "3 \<le> length ps" and "list_all (\<lambda>p. decimal_ok (fst p) \<and> decimal_ok (snd p)) ps"
  shows "makeFootprintFromString (write_footprint ps) = Some (map (\<lambda>p. (decimal_value (fst p), decimal_value (snd p))) ps)"
proof -
  obtain cur where "parseVVF_loop (write_points ps @ '']'') 1 [] [] = parseVVF_loop '']'' 1 cur (map (\<lambda>p. [decimal_value (fst p), decimal_value (snd p)]) ps)"
    using loop_points [OF assms(2), of "'']''" "[]" "[]"] by auto
  then have "parseVVF (write_footprint ps) = Inr (map (\<lambda>p. [decimal_value (fst p), decimal_value (snd p)]) ps)"
    by (simp add: parseVVF_def write_footprint_def)
  then show ?thesis using assms(1) by (simp add: makeFootprintFromString_def to_points_pairs)
qed

theorem footprint_roundtrip_witness:
  "makeFootprintFromString ''[[1.5, 0], [-1, 2], [0, -0.25]]'' = Some [(1.5, 0), (- 1, 2), (0, - 0.25)]"
proof -
  let ?ps = "[((False, ''1'', ''5''), (False, ''0'', [])), ((True, ''1'', []), (False, ''2'', [])), ((False, ''0'', []), (True, ''0'', ''25''))]"
  have "write_footprint ?ps = ''[[1.5, 0], [-1, 2], [0, -0.25]]''"
    by (simp add: write_footprint_def write_point_def write_decimal_def)
  moreover have "list_all (\<lambda>p. decimal_ok (fst p) \<and> decimal_ok (snd p)) ?ps"
    by (simp add: decimal_ok_def is_digit_def digits_value_def float_limit_def)
  moreover have "map (\<lambda>p. (decimal_value (fst p), decimal_value (snd p))) ?ps = [(1.5, 0), (- 1, 2), (0, - 0.25)]"
    by (simp add: decimal_value_def digits_value_def)
  ultimately show ?thesis using footprint_roundtrip [of ?ps] by simp
qed

end
