(* ===== verification/PathMonitor.thy ===== *)
theory PathMonitor
  imports PathClearanceProps FootprintParser
begin

text \<open>
  The behaviour-tree conditions of \<^verbatim>\<open>mg_navigation\<close>: \<^verbatim>\<open>ClearanceTracker\<close> (\<^verbatim>\<open>path_clearance.cpp\<close>), \<^verbatim>\<open>PathClearanceMonitor\<close>
  (\<^verbatim>\<open>path_clearance_monitor.cpp\<close>), \<^verbatim>\<open>IsPathClear\<close> and \<^verbatim>\<open>IsPathBlocked\<close>.

  A tick is a function of what it meets: the time, the costmap messages and parameter answers that arrived, the path
  and the transforms.  Reading parameters of the wrong type throws, which is \<open>None\<close>, as is a dereferenced empty
  option.  The line iterator is a parameter.  Log messages are left out.
\<close>

section \<open>ClearanceTracker\<close>

record ClearanceTracker =
  seen_blocked :: bool
  clear_since :: "real option"
  clear_maps :: int
  last_counted_map :: "nat option"

definition new_tracker :: ClearanceTracker where
  "new_tracker = \<lparr>seen_blocked = False, clear_since = None, clear_maps = 0, last_counted_map = None\<rparr>"

definition invalidate :: "ClearanceTracker \<Rightarrow> ClearanceTracker" where
  "invalidate tr = tr\<lparr>clear_since := None, clear_maps := 0, last_counted_map := None\<rparr>"

definition tracker_reset :: "ClearanceTracker \<Rightarrow> ClearanceTracker" where
  "tracker_reset tr = invalidate (tr\<lparr>seen_blocked := False\<rparr>)"

definition observe :: "bool \<Rightarrow> nat \<Rightarrow> real \<Rightarrow> ClearanceTracker \<Rightarrow> ClearanceTracker" where
  "observe blocked map_seq now tr =
     (if blocked then invalidate (tr\<lparr>seen_blocked := True\<rparr>)
      else if \<not> seen_blocked tr then tr
      else
        let tr = (case clear_since tr of None \<Rightarrow> tr\<lparr>clear_since := Some now\<rparr> | Some _ \<Rightarrow> tr)
        in if last_counted_map tr \<noteq> Some map_seq
           then tr\<lparr>clear_maps := clear_maps tr + 1, last_counted_map := Some map_seq\<rparr> else tr)"

definition isClear :: "real \<Rightarrow> real \<Rightarrow> int \<Rightarrow> ClearanceTracker \<Rightarrow> bool" where
  "isClear now clear_duration min_clear_maps tr \<longleftrightarrow>
     seen_blocked tr \<and> (case clear_since tr of None \<Rightarrow> False | Some t \<Rightarrow> clear_duration \<le> now - t) \<and> min_clear_maps \<le> clear_maps tr"

section \<open>Paths\<close>

record path_msg =
  path_stamp :: real
  path_frame :: string
  path_poses :: "pose list"

record goal_msg =
  goal_frame :: string
  goal_pose :: pose

definition pathReachesGoal :: "path_msg \<Rightarrow> goal_msg \<Rightarrow> real \<Rightarrow> bool" where
  "pathReachesGoal path goal tolerance \<longleftrightarrow>
     path_poses path \<noteq> [] \<and> path_frame path = goal_frame goal \<and> pdist (last (path_poses path)) (goal_pose goal) \<le> tolerance"

definition selectPathForGoal :: "path_msg \<Rightarrow> path_msg \<Rightarrow> goal_msg \<Rightarrow> real \<Rightarrow> path_msg option" where
  "selectPathForGoal candidate current goal tolerance =
     (if pathReachesGoal candidate goal tolerance then Some candidate
      else if pathReachesGoal current goal tolerance then Some current
      else None)"

section \<open>PathClearanceMonitor\<close>

definition kCostmapTimeout :: real where "kCostmapTimeout = 2"
definition kReevaluatePeriod :: real where "kReevaluatePeriod = 0.1"
definition kRequestRetryPeriod :: real where "kRequestRetryPeriod = 1"

datatype param = NotSet | PBool bool | PDouble real | PString string

fun as_bool :: "param \<Rightarrow> bool option" where
  "as_bool (PBool b) = Some b" | "as_bool _ = None"

fun as_double :: "param \<Rightarrow> real option" where
  "as_double (PDouble x) = Some x" | "as_double _ = None"

fun as_string :: "param \<Rightarrow> string option" where
  "as_string (PString s) = Some s" | "as_string _ = None"

record costmap_msg =
  map_frame :: string
  map_size_x :: nat
  map_size_y :: nat
  map_resolution :: real
  map_origin_x :: real
  map_origin_y :: real
  map_data :: "u8 list"

datatype Status = kEvaluated | kUnchanged | kNoCostmap | kUnavailable

text \<open>What one tick meets.\<close>

record tick_input =
  ti_now :: real
  ti_costmaps :: "(costmap_msg \<times> real) list"
  ti_services_ready :: bool
  ti_controller_answer :: "param list option"
  ti_costmap_answer :: "param list option"
  ti_path :: path_msg
  ti_robot_pose :: "string \<Rightarrow> string \<Rightarrow> pose option"
  ti_transform :: "string \<Rightarrow> string \<Rightarrow> (pose \<Rightarrow> pose) option"

record monitor =
  mo_margin :: real
  mo_costmap_msg :: "costmap_msg option"
  costmap_seq :: nat
  costmap_received :: real
  mo_costmap :: "Costmap2D option"
  costmap_built_seq :: nat
  controller_future :: bool
  costmap_future :: bool
  parameters_requested :: bool
  last_request_attempt :: "real option"
  controller_params :: "PathClearanceParams option"
  use_collision_detection :: "bool option"
  mo_footprint :: "vec2 list option"
  mo_track_unknown :: "bool option"
  robot_base_frame :: string
  last_eval :: "real option"
  last_eval_seq :: nat
  last_eval_path :: path_msg
  last_blocked :: bool

definition no_path :: path_msg where
  "no_path = \<lparr>path_stamp = 0, path_frame = [], path_poses = []\<rparr>"

definition new_monitor :: "real \<Rightarrow> monitor" where
  "new_monitor mrg = \<lparr>mo_margin = mrg, mo_costmap_msg = None, costmap_seq = 0, costmap_received = 0, mo_costmap = None,
     costmap_built_seq = 0, controller_future = False, costmap_future = False, parameters_requested = False,
     last_request_attempt = None, controller_params = None, use_collision_detection = None, mo_footprint = None,
     mo_track_unknown = None, robot_base_frame = [], last_eval = None, last_eval_seq = 0, last_eval_path = no_path,
     last_blocked = False\<rparr>"

definition costmapCallback :: "costmap_msg \<times> real \<Rightarrow> monitor \<Rightarrow> monitor" where
  "costmapCallback = (\<lambda>(msg, now) mo. mo\<lparr>mo_costmap_msg := Some msg, costmap_seq := costmap_seq mo + 1, costmap_received := now\<rparr>)"

definition spinSome :: "tick_input \<Rightarrow> monitor \<Rightarrow> monitor" where
  "spinSome ti mo = fold costmapCallback (ti_costmaps ti) mo"

definition requestParameters :: "tick_input \<Rightarrow> monitor \<Rightarrow> monitor" where
  "requestParameters ti mo =
     (if parameters_requested mo \<or> controller_future mo \<or> costmap_future mo then mo
      else if (case last_request_attempt mo of None \<Rightarrow> False | Some t \<Rightarrow> ti_now ti - t < kRequestRetryPeriod) then mo
      else
        let mo = mo\<lparr>last_request_attempt := Some (ti_now ti)\<rparr>
        in if \<not> ti_services_ready ti then mo
           else mo\<lparr>controller_future := True, costmap_future := True, parameters_requested := True\<rparr>)"

definition refreshParameters :: "tick_input \<Rightarrow> monitor \<Rightarrow> monitor" where
  "refreshParameters ti mo = requestParameters ti (mo\<lparr>parameters_requested := False\<rparr>)"

definition applyControllerParameters :: "param list \<Rightarrow> monitor \<Rightarrow> (bool \<times> monitor) option" where
  "applyControllerParameters params mo =
     (if length params \<noteq> 8 then Some (False, mo)
      else if NotSet \<in> set params then Some (False, mo)
      else do {
        a \<leftarrow> as_bool (params ! 0);
        b \<leftarrow> as_double (params ! 1);
        c \<leftarrow> as_double (params ! 2);
        d \<leftarrow> as_double (params ! 3);
        e \<leftarrow> as_bool (params ! 4);
        f \<leftarrow> as_double (params ! 5);
        g \<leftarrow> as_double (params ! 6);
        let mo = mo\<lparr>controller_params := Some \<lparr>use_velocity_scaled_lookahead_dist = a, lookahead_dist = b,
              min_lookahead_dist = c, max_lookahead_dist = d, use_rotate_to_heading = e, rotate_to_heading_min_angle = f,
              max_robot_pose_search_dist = g,
              track_unknown_space = (case mo_track_unknown mo of None \<Rightarrow> False | Some u \<Rightarrow> u), margin = mo_margin mo\<rparr>\<rparr>;
        h \<leftarrow> as_bool (params ! 7);
        Some (True, mo\<lparr>use_collision_detection := Some h\<rparr>)
      })"

definition footprint_of :: "param \<Rightarrow> param \<Rightarrow> vec2 list option option" where
  "footprint_of footprint_param radius_param =
     (let str = (case footprint_param of PString s \<Rightarrow> s | _ \<Rightarrow> ''[]'')
      in if str \<noteq> [] \<and> str \<noteq> ''[]'' then Some (makeFootprintFromString str)
         else if radius_param = NotSet then Some None
         else map_option (\<lambda>r. Some (makeFootprintFromRadius r)) (as_double radius_param))"

definition applyCostmapParameters :: "param list \<Rightarrow> monitor \<Rightarrow> (bool \<times> monitor) option" where
  "applyCostmapParameters params mo =
     (if length params \<noteq> 5 then Some (False, mo)
      else if params ! 1 = NotSet \<or> params ! 3 = NotSet \<or> params ! 4 = NotSet then Some (False, mo)
      else do {
        fp \<leftarrow> footprint_of (params ! 0) (params ! 2);
        case fp of
          None \<Rightarrow> Some (False, mo)
        | Some footprint \<Rightarrow> do {
            padding \<leftarrow> as_double (params ! 1);
            let mo = mo\<lparr>mo_footprint := Some (padFootprint footprint padding)\<rparr>;
            unknown \<leftarrow> as_bool (params ! 3);
            let mo = mo\<lparr>mo_track_unknown := Some unknown\<rparr>;
            base \<leftarrow> as_string (params ! 4);
            let mo = mo\<lparr>robot_base_frame := base\<rparr>;
            Some (True, case controller_params mo of
                None \<Rightarrow> mo
              | Some cp \<Rightarrow> mo\<lparr>controller_params := Some (cp\<lparr>track_unknown_space := unknown\<rparr>)\<rparr>)
          }
      })"

definition take_controller_answer :: "tick_input \<Rightarrow> monitor \<Rightarrow> monitor option" where
  "take_controller_answer ti mo =
     (case ti_controller_answer ti of
        Some params \<Rightarrow>
          if controller_future mo then do {
            (ok, mo) \<leftarrow> applyControllerParameters params mo;
            Some ((if ok then mo else mo\<lparr>parameters_requested := False\<rparr>)\<lparr>controller_future := False\<rparr>)
          } else Some mo
      | None \<Rightarrow> Some mo)"

definition take_costmap_answer :: "tick_input \<Rightarrow> monitor \<Rightarrow> monitor option" where
  "take_costmap_answer ti mo =
     (case ti_costmap_answer ti of
        Some params \<Rightarrow>
          if costmap_future mo then do {
            (ok, mo) \<leftarrow> applyCostmapParameters params mo;
            Some ((if ok then mo else mo\<lparr>parameters_requested := False\<rparr>)\<lparr>costmap_future := False\<rparr>)
          } else Some mo
      | None \<Rightarrow> Some mo)"

definition pollParameters :: "tick_input \<Rightarrow> monitor \<Rightarrow> monitor option" where
  "pollParameters ti mo = do {
     let mo = (if parameters_requested mo then mo else requestParameters ti mo);
     mo \<leftarrow> take_controller_answer ti mo;
     take_costmap_answer ti mo
   }"

definition ready :: "monitor \<Rightarrow> bool" where
  "ready mo \<longleftrightarrow> controller_params mo \<noteq> None \<and> mo_footprint mo \<noteq> None"

definition useCollisionDetection :: "monitor \<Rightarrow> bool" where
  "useCollisionDetection mo = (case use_collision_detection mo of None \<Rightarrow> False | Some b \<Rightarrow> b)"

text \<open>\<^verbatim>\<open>pollParametersWithin\<close>: each further round is what arrives while waiting; the last round is the deadline.\<close>

fun poll_rounds :: "tick_input list \<Rightarrow> monitor \<Rightarrow> monitor option" where
  "poll_rounds [] mo = Some mo"
| "poll_rounds (ti # rounds) mo =
     (if \<not> ready mo \<and> (controller_future mo \<or> costmap_future mo)
      then do { mo \<leftarrow> pollParameters ti (spinSome ti mo); poll_rounds rounds mo }
      else Some mo)"

definition pollParametersWithin :: "tick_input \<Rightarrow> tick_input list \<Rightarrow> monitor \<Rightarrow> monitor option" where
  "pollParametersWithin ti rounds mo = do { mo \<leftarrow> pollParameters ti mo; poll_rounds rounds mo }"

text \<open>Copying more cells than the map has writes outside it.\<close>

definition updateCostmap :: "costmap_msg \<Rightarrow> monitor \<Rightarrow> monitor option" where
  "updateCostmap msg mo =
     (if costmap_built_seq mo = costmap_seq mo then Some mo
      else
        let m = (case mo_costmap mo of
              None \<Rightarrow> new_costmap (map_size_x msg) (map_size_y msg) (map_resolution msg) (map_origin_x msg) (map_origin_y msg)
            | Some m \<Rightarrow>
                if size_x m \<noteq> map_size_x msg \<or> size_y m \<noteq> map_size_y msg \<or> resolution m \<noteq> map_resolution msg \<or>
                   origin_x m \<noteq> map_origin_x msg \<or> origin_y m \<noteq> map_origin_y msg
                then resizeMap (map_size_x msg) (map_size_y msg) (map_resolution msg) (map_origin_x msg) (map_origin_y msg) m
                else m)
        in if length (costs m) < length (map_data msg) then None
           else Some (mo\<lparr>mo_costmap := Some (m\<lparr>costs := map_data msg @ drop (length (map_data msg)) (costs m)\<rparr>),
                        costmap_built_seq := costmap_seq mo\<rparr>))"

definition transformPath :: "tick_input \<Rightarrow> path_msg \<Rightarrow> string \<Rightarrow> pose list option" where
  "transformPath ti path frame = map_option (\<lambda>f. map f (path_poses path)) (ti_transform ti frame (path_frame path))"

definition resetEvaluation :: "monitor \<Rightarrow> monitor" where
  "resetEvaluation mo = mo\<lparr>last_eval := None, last_eval_path := no_path, last_blocked := False\<rparr>"

definition evaluate_path :: "line_cells \<Rightarrow> tick_input \<Rightarrow> costmap_msg \<Rightarrow> monitor \<Rightarrow> (Status \<times> monitor) option" where
  "evaluate_path line ti msg mo =
     (case ti_robot_pose ti (map_frame msg) (robot_base_frame mo) of
        None \<Rightarrow> Some (kUnavailable, mo)
      | Some robot \<Rightarrow>
          (case transformPath ti (ti_path ti) (map_frame msg) of
             None \<Rightarrow> Some (kUnavailable, mo)
           | Some path_2d \<Rightarrow> do {
               mo \<leftarrow> updateCostmap msg mo;
               m \<leftarrow> mo_costmap mo;
               footprint \<leftarrow> mo_footprint mo;
               params \<leftarrow> controller_params mo;
               blocked \<leftarrow> isBlocked \<lparr>ck_line = line, ck_costmap = m, ck_footprint = footprint, ck_params = params\<rparr> robot path_2d;
               Some (kEvaluated, mo\<lparr>last_blocked := blocked\<rparr>)
             }))"

definition evaluate :: "line_cells \<Rightarrow> tick_input \<Rightarrow> monitor \<Rightarrow> (Status \<times> monitor) option" where
  "evaluate line ti mo =
     (if path_poses (ti_path ti) = [] then Some (kUnavailable, mo)
      else case mo_costmap_msg mo of
        None \<Rightarrow> Some (kNoCostmap, mo)
      | Some msg \<Rightarrow>
          if kCostmapTimeout < ti_now ti - costmap_received mo then Some (kUnavailable, mo)
          else if costmap_seq mo = last_eval_seq mo \<and> ti_path ti = last_eval_path mo \<and>
             (case last_eval mo of None \<Rightarrow> False | Some t \<Rightarrow> ti_now ti - t < kReevaluatePeriod) then Some (kUnchanged, mo)
          else evaluate_path line ti msg
            (mo\<lparr>last_eval := Some (ti_now ti), last_eval_seq := costmap_seq mo, last_eval_path := ti_path ti\<rparr>))"

section \<open>The conditions\<close>

datatype NodeStatus = SUCCESS | FAILURE

definition kEpisodeGap :: real where "kEpisodeGap = 1"
definition kMinClearMaps :: int where "kMinClearMaps = 2"

record is_path_clear =
  pc_monitor :: monitor
  clear_duration :: real
  pc_tracker :: ClearanceTracker
  last_tick :: "real option"
  episode_start :: real

definition IsPathClearCondition :: "real \<Rightarrow> real \<Rightarrow> is_path_clear" where
  "IsPathClearCondition mrg duration = \<lparr>pc_monitor = new_monitor mrg, clear_duration = duration, pc_tracker = new_tracker,
     last_tick = None, episode_start = 0\<rparr>"

definition startEpisode :: "tick_input \<Rightarrow> is_path_clear \<Rightarrow> is_path_clear" where
  "startEpisode ti c =
     c\<lparr>pc_tracker := tracker_reset (pc_tracker c), episode_start := ti_now ti,
       pc_monitor := refreshParameters ti (resetEvaluation (pc_monitor c))\<rparr>"

definition clear_evaluate :: "line_cells \<Rightarrow> tick_input \<Rightarrow> is_path_clear \<Rightarrow> is_path_clear option" where
  "clear_evaluate line ti c = do {
     (status, mo) \<leftarrow> evaluate line ti (pc_monitor c);
     let c = c\<lparr>pc_monitor := mo\<rparr>;
     Some (case status of
         kUnavailable \<Rightarrow> c\<lparr>pc_tracker := invalidate (pc_tracker c)\<rparr>
       | kEvaluated \<Rightarrow>
           if last_blocked mo \<or> episode_start c \<le> costmap_received mo
           then c\<lparr>pc_tracker := observe (last_blocked mo) (costmap_seq mo) (ti_now ti) (pc_tracker c)\<rparr> else c
       | _ \<Rightarrow> c)
   }"

text \<open>The first half of \<^verbatim>\<open>tick\<close>: messages, the start of an episode, parameters.\<close>

definition episode_starts :: "tick_input \<Rightarrow> is_path_clear \<Rightarrow> bool" where
  "episode_starts ti c = (case last_tick c of None \<Rightarrow> True | Some t \<Rightarrow> kEpisodeGap < ti_now ti - t)"

definition clear_prepare :: "tick_input \<Rightarrow> is_path_clear \<Rightarrow> is_path_clear option" where
  "clear_prepare ti c = do {
     let c = c\<lparr>pc_monitor := spinSome ti (pc_monitor c)\<rparr>;
     let c = (if episode_starts ti c then startEpisode ti c else c);
     let c = c\<lparr>last_tick := Some (ti_now ti)\<rparr>;
     mo \<leftarrow> pollParameters ti (pc_monitor c);
     Some (c\<lparr>pc_monitor := mo\<rparr>)
   }"

definition clear_tick :: "line_cells \<Rightarrow> tick_input \<Rightarrow> is_path_clear \<Rightarrow> (NodeStatus \<times> is_path_clear) option" where
  "clear_tick line ti c = do {
     c \<leftarrow> clear_prepare ti c;
     if \<not> ready (pc_monitor c) then Some (FAILURE, c)
     else if \<not> useCollisionDetection (pc_monitor c) then Some (FAILURE, c)
     else do {
       c \<leftarrow> clear_evaluate line ti c;
       Some (if isClear (ti_now ti) (clear_duration c) kMinClearMaps (pc_tracker c) then SUCCESS else FAILURE, c)
     }
   }"

record is_path_blocked =
  pb_monitor :: monitor
  pb_blocked :: bool

definition IsPathBlockedCondition :: "real \<Rightarrow> is_path_blocked" where
  "IsPathBlockedCondition mrg = \<lparr>pb_monitor = new_monitor mrg, pb_blocked = False\<rparr>"

definition blocked_tick ::
  "line_cells \<Rightarrow> tick_input \<Rightarrow> tick_input list \<Rightarrow> is_path_blocked \<Rightarrow> (NodeStatus \<times> is_path_blocked) option" where
  "blocked_tick line ti rounds c = do {
     mo \<leftarrow> pollParametersWithin ti rounds (spinSome ti (pb_monitor c));
     let c = c\<lparr>pb_monitor := mo\<rparr>;
     if \<not> ready mo \<or> \<not> useCollisionDetection mo then Some (FAILURE, c)
     else do {
       (status, mo) \<leftarrow> evaluate line ti mo;
       let b = (case status of kEvaluated \<Rightarrow> last_blocked mo | kUnchanged \<Rightarrow> pb_blocked c | _ \<Rightarrow> False);
       Some (if b then SUCCESS else FAILURE, c\<lparr>pb_monitor := mo, pb_blocked := b\<rparr>)
     }
   }"

section \<open>CommitPath\<close>

text \<open>\<^verbatim>\<open>CommitPathAction::tick\<close> with the ports \<^verbatim>\<open>candidate\<close>, \<^verbatim>\<open>goal\<close> and \<^verbatim>\<open>goal_tolerance\<close> and the path before; a path port that was never
  written reads as the empty path.  The result is the status and the path port afterwards.\<close>

definition commit_tick :: "goal_msg option \<Rightarrow> real option \<Rightarrow> path_msg option \<Rightarrow> path_msg option \<Rightarrow> NodeStatus \<times> path_msg option" where
  "commit_tick goal tolerance candidate path =
     (case goal of
        None \<Rightarrow> (FAILURE, path)
      | Some goal \<Rightarrow>
          let goal_tolerance = (case tolerance of None \<Rightarrow> 0.6 | Some t \<Rightarrow> t);
              candidate = (case candidate of None \<Rightarrow> no_path | Some p \<Rightarrow> p);
              current = (case path of None \<Rightarrow> no_path | Some p \<Rightarrow> p)
          in case selectPathForGoal candidate current goal goal_tolerance of
               Some p \<Rightarrow> (SUCCESS, Some p)
             | None \<Rightarrow> (FAILURE, Some no_path))"

end
