(* ===== verification/PathMonitorProps.thy ===== *)
theory PathMonitorProps
  imports PathMonitor
begin

text \<open>
  What the conditions of \<^verbatim>\<open>PathMonitor\<close> promise.  The clearance tracker is related to the history of what it was told: the
  specification reads the history, the code keeps four fields.  The ticks of \<^verbatim>\<open>IsPathClear\<close> then succeed exactly when the
  history of their evaluations says that the path was blocked in this episode and has been clear since long enough, on
  enough different costmaps.
\<close>

section \<open>The tracker and the history it was told\<close>

datatype track_event = Reset | Invalidate | Observe bool nat real

fun track :: "track_event \<Rightarrow> ClearanceTracker \<Rightarrow> ClearanceTracker" where
  "track Reset tr = tracker_reset tr"
| "track Invalidate tr = invalidate tr"
| "track (Observe blocked map_seq now) tr = observe blocked map_seq now tr"

definition tracker_after :: "track_event list \<Rightarrow> ClearanceTracker" where
  "tracker_after h = fold track h new_tracker"

fun is_block :: "track_event \<Rightarrow> bool" where
  "is_block (Observe b _ _) = b" | "is_block _ = False"

fun is_free :: "track_event \<Rightarrow> bool" where
  "is_free (Observe b _ _) = (\<not> b)" | "is_free _ = False"

fun sight :: "track_event \<Rightarrow> nat \<times> real" where
  "sight (Observe _ q t) = (q, t)" | "sight _ = (0, 0)"

text \<open>The path was seen blocked since the last reset; the sightings of the clear path since anything else happened.\<close>

definition blocked_in_episode :: "track_event list \<Rightarrow> bool" where
  "blocked_in_episode h = list_ex is_block (takeWhile (\<lambda>e. e \<noteq> Reset) (rev h))"

definition clear_run :: "track_event list \<Rightarrow> (nat \<times> real) list" where
  "clear_run h = map sight (rev (takeWhile is_free (rev h)))"

definition maps_seen :: "(nat \<times> real) list \<Rightarrow> nat" where
  "maps_seen run = length (remdups_adj (map fst run))"

definition confirmed_clear :: "real \<Rightarrow> real \<Rightarrow> int \<Rightarrow> track_event list \<Rightarrow> bool" where
  "confirmed_clear now duration min_maps h \<longleftrightarrow>
     blocked_in_episode h \<and> clear_run h \<noteq> [] \<and> duration \<le> now - snd (hd (clear_run h)) \<and> min_maps \<le> int (maps_seen (clear_run h))"

lemma tracker_after_snoc: "tracker_after (h @ [e]) = track e (tracker_after h)"
  by (simp add: tracker_after_def)

lemma blocked_in_episode_simps [simp]:
  "\<not> blocked_in_episode []"
  "\<not> blocked_in_episode (h @ [Reset])"
  "blocked_in_episode (h @ [Invalidate]) = blocked_in_episode h"
  "blocked_in_episode (h @ [Observe b q t]) = (b \<or> blocked_in_episode h)"
  by (simp_all add: blocked_in_episode_def)

lemma clear_run_simps [simp]:
  "clear_run [] = []"
  "clear_run (h @ [Reset]) = []"
  "clear_run (h @ [Invalidate]) = []"
  "clear_run (h @ [Observe True q t]) = []"
  "clear_run (h @ [Observe False q t]) = clear_run h @ [(q, t)]"
  by (simp_all add: clear_run_def)

lemma length_remdups_adj_snoc:
  "length (remdups_adj (xs @ [q])) = length (remdups_adj xs) + (if xs \<noteq> [] \<and> last xs = q then 0 else 1)"
  by (induction xs rule: remdups_adj.induct) auto

lemma maps_seen_simps [simp]:
  "maps_seen [] = 0"
  "maps_seen (r @ [(q, t)]) = maps_seen r + (if r \<noteq> [] \<and> fst (last r) = q then 0 else 1)"
  by (cases "r = []"; simp add: maps_seen_def length_remdups_adj_snoc last_map)+

text \<open>The abstraction: the four fields as the history determines them.\<close>

definition tracker_of :: "track_event list \<Rightarrow> ClearanceTracker" where
  "tracker_of h =
     (if blocked_in_episode h \<and> clear_run h \<noteq> []
      then \<lparr>seen_blocked = True, clear_since = Some (snd (hd (clear_run h))), clear_maps = int (maps_seen (clear_run h)),
            last_counted_map = Some (fst (last (clear_run h)))\<rparr>
      else \<lparr>seen_blocked = blocked_in_episode h, clear_since = None, clear_maps = 0, last_counted_map = None\<rparr>)"

lemma track_refines: "track e (tracker_of h) = tracker_of (h @ [e])"
proof (cases e)
  case Reset
  then show ?thesis by (simp add: tracker_of_def tracker_reset_def invalidate_def)
next
  case Invalidate
  then show ?thesis by (simp add: tracker_of_def invalidate_def)
next
  case (Observe b q t)
  then show ?thesis
    by (cases b) (auto simp: tracker_of_def observe_def invalidate_def Let_def hd_append)
qed

lemma tracker_refines_history: "tracker_after h = tracker_of h"
proof (induction h rule: rev_induct)
  case Nil
  show ?case by (simp add: tracker_after_def new_tracker_def tracker_of_def)
qed (simp add: tracker_after_snoc track_refines)

lemma isClear_tracker_of: "isClear now duration min_maps (tracker_of h) = confirmed_clear now duration min_maps h"
  by (auto simp: isClear_def tracker_of_def confirmed_clear_def)

text \<open>Whatever sequence of resets, invalidations and observations a clearance tracker has gone through, it reports clear exactly
  when the history does: the path was seen blocked since the last reset, nothing but clear observations came after that
  and after the last invalidation, the first of these is at least the clear duration ago, and they saw at least the
  required number of different consecutive costmaps.\<close>

theorem tracker_confirms:
  "isClear now duration min_maps (tracker_after h) = confirmed_clear now duration min_maps h"
  by (simp add: tracker_refines_history isClear_tracker_of)

section \<open>IsPathClear over a sequence of ticks\<close>

text \<open>What a tick tells the tracker: a reset when an episode starts, then what the evaluation of the path gave.\<close>

definition can_judge :: "monitor \<Rightarrow> bool" where
  "can_judge mo \<longleftrightarrow> ready mo \<and> useCollisionDetection mo"

definition verdict_events :: "real \<Rightarrow> real \<Rightarrow> Status \<times> monitor \<Rightarrow> track_event list" where
  "verdict_events now start = (\<lambda>(status, mo).
     if status = kUnavailable then [Invalidate]
     else if status = kEvaluated \<and> (last_blocked mo \<or> start \<le> costmap_received mo)
          then [Observe (last_blocked mo) (costmap_seq mo) now]
     else [])"

definition tick_events :: "line_cells \<Rightarrow> tick_input \<Rightarrow> is_path_clear \<Rightarrow> track_event list" where
  "tick_events line ti c =
     (if episode_starts ti c then [Reset] else []) @
     (case clear_prepare ti c of
        None \<Rightarrow> []
      | Some c1 \<Rightarrow>
          if can_judge (pc_monitor c1)
          then case evaluate line ti (pc_monitor c1) of
                 None \<Rightarrow> [] | Some sm \<Rightarrow> verdict_events (ti_now ti) (episode_start c1) sm
          else [])"

text \<open>A sequence of ticks of a condition.\<close>

fun run_ticks :: "('i \<Rightarrow> 's \<Rightarrow> (NodeStatus \<times> 's) option) \<Rightarrow> 'i list \<Rightarrow> 's \<Rightarrow> (NodeStatus list \<times> 's) option" where
  "run_ticks tick [] c = Some ([], c)"
| "run_ticks tick (i # is) c = do {
     (st, c) \<leftarrow> tick i c;
     (sts, c) \<leftarrow> run_ticks tick is c;
     Some (st # sts, c)
   }"

fun run_events :: "line_cells \<Rightarrow> tick_input list \<Rightarrow> is_path_clear \<Rightarrow> track_event list" where
  "run_events line [] c = []"
| "run_events line (ti # tis) c =
     tick_events line ti c @ (case clear_tick line ti c of None \<Rightarrow> [] | Some (_, c1) \<Rightarrow> run_events line tis c1)"

lemma clear_prepare_fields:
  assumes "clear_prepare ti c = Some c1"
  shows "pc_tracker c1 = fold track (if episode_starts ti c then [Reset] else []) (pc_tracker c) \<and> clear_duration c1 = clear_duration c"
proof -
  have "episode_starts ti (c\<lparr>pc_monitor := mo\<rparr>) = episode_starts ti c" for mo
    by (simp add: episode_starts_def)
  then show ?thesis using assms
    by (auto simp: clear_prepare_def Let_def startEpisode_def bind_eq_Some_conv)
qed

lemma clear_evaluate_spec:
  "clear_evaluate line ti c =
     (case evaluate line ti (pc_monitor c) of
        None \<Rightarrow> None
      | Some sm \<Rightarrow> Some (c\<lparr>pc_monitor := snd sm, pc_tracker := fold track (verdict_events (ti_now ti) (episode_start c) sm) (pc_tracker c)\<rparr>))"
  by (auto simp: clear_evaluate_def verdict_events_def Let_def split: option.splits Status.splits prod.splits)

lemma evaluate_params:
  assumes "evaluate line ti mo = Some (st, mo')"
  shows "controller_params mo' = controller_params mo \<and> mo_footprint mo' = mo_footprint mo \<and>
    use_collision_detection mo' = use_collision_detection mo"
proof -
  have upd: "updateCostmap msg mo = Some mo' \<Longrightarrow> controller_params mo' = controller_params mo \<and> mo_footprint mo' = mo_footprint mo \<and>
    use_collision_detection mo' = use_collision_detection mo" for msg mo mo'
    by (auto simp: updateCostmap_def Let_def split: if_splits)
  show ?thesis using assms
    by (auto simp: evaluate_def evaluate_path_def bind_eq_Some_conv dest!: upd split: if_splits option.splits)
qed

lemma can_judge_evaluate: "evaluate line ti mo = Some sm \<Longrightarrow> can_judge (snd sm) = can_judge mo"
  by (cases sm) (simp add: can_judge_def ready_def useCollisionDetection_def evaluate_params)

lemma clear_tick_spec:
  assumes "clear_tick line ti c = Some (st, c')"
  shows "pc_tracker c' = fold track (tick_events line ti c) (pc_tracker c)" "clear_duration c' = clear_duration c"
    "st = SUCCESS \<longleftrightarrow> can_judge (pc_monitor c') \<and> isClear (ti_now ti) (clear_duration c) kMinClearMaps (pc_tracker c')"
proof -
  from assms obtain c1 where c1: "clear_prepare ti c = Some c1"
    by (auto simp: clear_tick_def bind_eq_Some_conv)
  note prep = clear_prepare_fields [OF c1]
  have "pc_tracker c' = fold track (tick_events line ti c) (pc_tracker c) \<and> clear_duration c' = clear_duration c \<and>
    (st = SUCCESS \<longleftrightarrow> can_judge (pc_monitor c') \<and> isClear (ti_now ti) (clear_duration c) kMinClearMaps (pc_tracker c'))"
  proof (cases "can_judge (pc_monitor c1)")
    case False
    then have "st = FAILURE \<and> c' = c1" using assms c1 by (auto simp: clear_tick_def can_judge_def split: if_splits)
    with False c1 prep show ?thesis by (simp add: tick_events_def)
  next
    case True
    then obtain sm where sm: "evaluate line ti (pc_monitor c1) = Some sm"
      using assms c1 by (auto simp: clear_tick_def can_judge_def clear_evaluate_spec bind_eq_Some_conv split: option.splits if_splits)
    with True can_judge_evaluate [OF sm] assms c1 prep show ?thesis
      by (auto simp: clear_tick_def clear_evaluate_spec tick_events_def can_judge_def split: if_splits)
  qed
  then show "pc_tracker c' = fold track (tick_events line ti c) (pc_tracker c)" "clear_duration c' = clear_duration c"
    "st = SUCCESS \<longleftrightarrow> can_judge (pc_monitor c') \<and> isClear (ti_now ti) (clear_duration c) kMinClearMaps (pc_tracker c')"
    by blast+
qed

lemma clear_ticks_tracker:
  "run_ticks (clear_tick line) tis c = Some (sts, c') \<Longrightarrow>
     pc_tracker c' = fold track (run_events line tis c) (pc_tracker c) \<and> clear_duration c' = clear_duration c"
  by (induction tis arbitrary: c sts)
    (auto simp: bind_eq_Some_conv clear_tick_spec split: prod.splits)

lemma clear_ticks_append:
  "run_ticks (clear_tick line) (tis @ [ti]) c = Some (sts, c2) \<Longrightarrow>
     \<exists>sts1 c1 st. run_ticks (clear_tick line) tis c = Some (sts1, c1) \<and> clear_tick line ti c1 = Some (st, c2) \<and> sts = sts1 @ [st] \<and>
       run_events line (tis @ [ti]) c = run_events line tis c @ tick_events line ti c1"
proof (induction tis arbitrary: c sts)
  case Nil
  then show ?case by (auto simp: bind_eq_Some_conv)
next
  case (Cons t tis)
  then obtain st c1 sts1 where t: "clear_tick line t c = Some (st, c1)" "run_ticks (clear_tick line) (tis @ [ti]) c1 = Some (sts1, c2)" "sts = st # sts1"
    by (auto simp: bind_eq_Some_conv)
  from Cons.IH [OF t(2)] t(1,3) show ?case by fastforce
qed

end
