(* ===== verification/PathMonitorRuns.thy ===== *)
theory PathMonitorRuns
  imports PathMonitorProps
begin

text \<open>
  The states a \<^verbatim>\<open>PathClearanceMonitor\<close> can reach, whichever condition owns it: the costmap it keeps between evaluations is
  the one of the latest message, so that a verdict is the verdict on that message; with answers of the declared types no
  tick throws.
\<close>

section \<open>Reachable monitors\<close>

definition msg_ok :: "costmap_msg \<Rightarrow> bool" where
  "msg_ok msg \<longleftrightarrow> 0 < map_resolution msg \<and> length (map_data msg) = map_size_x msg * map_size_y msg"

definition costmap_of :: "costmap_msg \<Rightarrow> Costmap2D" where
  "costmap_of msg = \<lparr>size_x = map_size_x msg, size_y = map_size_y msg, resolution = map_resolution msg, origin_x = map_origin_x msg,
     origin_y = map_origin_y msg, costs = map_data msg\<rparr>"

inductive reachable_monitor :: "line_cells \<Rightarrow> real \<Rightarrow> monitor \<Rightarrow> bool" for line mrg where
  start: "reachable_monitor line mrg (new_monitor mrg)"
| arrive: "reachable_monitor line mrg mo \<Longrightarrow> msg_ok msg \<Longrightarrow> reachable_monitor line mrg (costmapCallback (msg, now) mo)"
| refresh: "reachable_monitor line mrg mo \<Longrightarrow> reachable_monitor line mrg (refreshParameters ti mo)"
| poll: "reachable_monitor line mrg mo \<Longrightarrow> pollParameters ti mo = Some mo' \<Longrightarrow> reachable_monitor line mrg mo'"
| forget: "reachable_monitor line mrg mo \<Longrightarrow> reachable_monitor line mrg (resetEvaluation mo)"
| judge: "reachable_monitor line mrg mo \<Longrightarrow> evaluate line ti mo = Some (st, mo') \<Longrightarrow> reachable_monitor line mrg mo'"

definition mo_inv :: "monitor \<Rightarrow> bool" where
  "mo_inv mo \<longleftrightarrow> pred_option msg_ok (mo_costmap_msg mo) \<and> costmap_built_seq mo \<le> costmap_seq mo \<and>
     (costmap_built_seq mo = costmap_seq mo \<longrightarrow> mo_costmap mo = map_option costmap_of (mo_costmap_msg mo)) \<and>
     pred_option (\<lambda>m. length (costs m) = size_x m * size_y m) (mo_costmap mo) \<and> pred_option (\<lambda>fp. 2 \<le> length fp) (mo_footprint mo)"

text \<open>What the invariant reads of a monitor.\<close>

definition same_maps :: "monitor \<Rightarrow> monitor \<Rightarrow> bool" where
  "same_maps mo mo' \<longleftrightarrow> mo_costmap_msg mo' = mo_costmap_msg mo \<and> costmap_seq mo' = costmap_seq mo \<and>
     costmap_built_seq mo' = costmap_built_seq mo \<and> mo_costmap mo' = mo_costmap mo"

lemma mo_inv_same:
  "mo_inv mo \<Longrightarrow> same_maps mo mo' \<Longrightarrow> mo_footprint mo' = mo_footprint mo \<or> pred_option (\<lambda>fp. 2 \<le> length fp) (mo_footprint mo') \<Longrightarrow> mo_inv mo'"
  by (auto simp: mo_inv_def same_maps_def)

lemma mo_inv_new [simp]: "mo_inv (new_monitor mrg)"
  by (simp add: mo_inv_def new_monitor_def)

lemma mo_inv_callback: "mo_inv mo \<Longrightarrow> msg_ok msg \<Longrightarrow> mo_inv (costmapCallback (msg, now) mo)"
  by (auto simp: mo_inv_def costmapCallback_def)

lemma requestParameters_same: "same_maps mo (requestParameters ti mo) \<and> mo_footprint (requestParameters ti mo) = mo_footprint mo"
  by (auto simp: requestParameters_def same_maps_def Let_def)

lemma mo_inv_request: "mo_inv mo \<Longrightarrow> mo_inv (requestParameters ti mo)"
  using requestParameters_same mo_inv_same by blast

lemma mo_inv_refresh: "mo_inv mo \<Longrightarrow> mo_inv (refreshParameters ti mo)"
  unfolding refreshParameters_def by (rule mo_inv_request) (simp add: mo_inv_def)

lemma mo_inv_reset: "mo_inv mo \<Longrightarrow> mo_inv (resetEvaluation mo)"
  by (rule mo_inv_same) (auto simp: resetEvaluation_def same_maps_def)

lemma footprint_of_length: "footprint_of fp r = Some (Some f) \<Longrightarrow> 2 \<le> length f"
  by (auto simp: footprint_of_def Let_def makeFootprintFromRadius_def dest: makeFootprintFromString_length split: if_splits param.splits)

lemma applyController_same:
  "pred_option (\<lambda>(ok, mo'). same_maps mo mo' \<and> mo_footprint mo' = mo_footprint mo) (applyControllerParameters params mo)"
  by (simp add: applyControllerParameters_def same_maps_def Let_def split: Option.bind_split)

lemma applyCostmap_same:
  "pred_option (\<lambda>(ok, mo'). same_maps mo mo' \<and> (mo_footprint mo' = mo_footprint mo \<or> pred_option (\<lambda>fp. 2 \<le> length fp) (mo_footprint mo')))
     (applyCostmapParameters params mo)"
  by (simp add: applyCostmapParameters_def same_maps_def Let_def padFootprint_def footprint_of_length split: Option.bind_split option.split)

lemma controller_answer_same:
  "pred_option (\<lambda>mo'. same_maps mo mo' \<and> mo_footprint mo' = mo_footprint mo) (take_controller_answer ti mo)"
  using applyController_same [of mo]
  by (simp add: take_controller_answer_def same_maps_def split_beta pred_option_def split: Option.bind_split option.split)

lemma costmap_answer_same:
  "pred_option (\<lambda>mo'. same_maps mo mo' \<and> (mo_footprint mo' = mo_footprint mo \<or> pred_option (\<lambda>fp. 2 \<le> length fp) (mo_footprint mo')))
     (take_costmap_answer ti mo)"
  using applyCostmap_same [of mo]
  by (simp add: take_costmap_answer_def same_maps_def split_beta pred_option_def split: Option.bind_split option.split)

lemma mo_inv_poll:
  assumes "mo_inv mo" and "pollParameters ti mo = Some mo'"
  shows "mo_inv mo'"
proof -
  let ?mo = "if parameters_requested mo then mo else requestParameters ti mo"
  from assms(2) obtain mo1 where m: "take_controller_answer ti ?mo = Some mo1" "take_costmap_answer ti mo1 = Some mo'"
    by (auto simp: pollParameters_def Let_def bind_eq_Some_conv)
  have "mo_inv ?mo" using assms(1) by (simp add: mo_inv_request)
  then have "mo_inv mo1" using controller_answer_same [of ?mo ti] m(1) mo_inv_same by auto
  then show ?thesis using costmap_answer_same [of mo1 ti] m(2) mo_inv_same by auto
qed

lemma updateCostmap_spec:
  assumes "mo_inv mo" and "mo_costmap_msg mo = Some msg"
  shows "updateCostmap msg mo = Some (mo\<lparr>mo_costmap := Some (costmap_of msg), costmap_built_seq := costmap_seq mo\<rparr>)"
proof -
  have len: "length (map_data msg) = map_size_x msg * map_size_y msg" using assms by (simp add: mo_inv_def msg_ok_def)
  show ?thesis
  proof (cases "costmap_built_seq mo = costmap_seq mo")
    case True
    then have "mo_costmap mo = Some (costmap_of msg)" using assms by (simp add: mo_inv_def)
    with True show ?thesis by (simp add: updateCostmap_def)
  next
    case False
    show ?thesis
    proof (cases "mo_costmap mo")
      case None
      with False show ?thesis by (simp add: updateCostmap_def new_costmap_def costmap_of_def len)
    next
      case (Some m)
      then have "length (costs m) = size_x m * size_y m" using assms(1) by (simp add: mo_inv_def)
      with False Some show ?thesis
        by (cases m) (auto simp: updateCostmap_def resizeMap_def costmap_of_def len Let_def)
    qed
  qed
qed

lemma evaluate_path_spec:
  assumes "mo_inv mo" and "mo_costmap_msg mo = Some msg"
  shows "evaluate_path line ti msg mo =
    (case (ti_robot_pose ti (map_frame msg) (robot_base_frame mo), transformPath ti (ti_path ti) (map_frame msg)) of
       (Some robot, Some path) \<Rightarrow>
         (case (mo_footprint mo, controller_params mo) of
            (Some fp, Some params) \<Rightarrow>
              map_option (\<lambda>b. (kEvaluated, mo\<lparr>mo_costmap := Some (costmap_of msg), costmap_built_seq := costmap_seq mo, last_blocked := b\<rparr>))
                (isBlocked \<lparr>ck_line = line, ck_costmap = costmap_of msg, ck_footprint = fp, ck_params = params\<rparr> robot path)
          | _ \<Rightarrow> None)
     | _ \<Rightarrow> Some (kUnavailable, mo))"
  by (simp add: evaluate_path_def updateCostmap_spec [OF assms] map_conv_bind_option split: option.split Option.bind_split)

lemma mo_inv_evaluated:
  "mo_inv mo \<Longrightarrow> mo_costmap_msg mo = Some msg \<Longrightarrow>
     mo_inv (mo\<lparr>mo_costmap := Some (costmap_of msg), costmap_built_seq := costmap_seq mo, last_blocked := b\<rparr>)"
  by (simp add: mo_inv_def costmap_of_def msg_ok_def)

lemma evaluate_path_mo_inv:
  assumes "mo_inv mo" and "mo_costmap_msg mo = Some msg"
  shows "pred_option (\<lambda>sm. mo_inv (snd sm)) (evaluate_path line ti msg mo)"
  using assms mo_inv_evaluated [OF assms] by (auto simp: evaluate_path_spec [OF assms] pred_option_def option.set_map split: option.split)

lemma mo_inv_last_eval: "mo_inv (mo\<lparr>last_eval := a, last_eval_seq := b, last_eval_path := c\<rparr>) = mo_inv mo"
  by (simp add: mo_inv_def)

lemma evaluate_mo_inv:
  assumes "mo_inv mo"
  shows "pred_option (\<lambda>sm. mo_inv (snd sm)) (evaluate line ti mo)"
  using assms by (simp add: evaluate_def evaluate_path_mo_inv mo_inv_last_eval split: option.split)

lemma reachable_mo_inv: "reachable_monitor line mrg mo \<Longrightarrow> mo_inv mo"
proof (induction rule: reachable_monitor.induct)
  case (judge mo ti st mo')
  then show ?case using evaluate_mo_inv [of mo line ti] by simp
qed (auto intro: mo_inv_callback mo_inv_refresh mo_inv_poll mo_inv_reset)

text \<open>C18. In every state a path clearance monitor can reach, a verdict is the verdict on the latest costmap message, which is at most two
  seconds old, at the current robot pose and with the footprint and the parameters last received; the costmap kept
  between evaluations is never an older one or a mixture.\<close>

theorem verdict_on_latest_costmap:
  assumes "reachable_monitor line mrg mo" and "evaluate line ti mo = Some (kEvaluated, mo')"
  shows "\<exists>msg robot path fp params. mo_costmap_msg mo = Some msg \<and> ti_now ti - costmap_received mo \<le> kCostmapTimeout \<and>
    ti_robot_pose ti (map_frame msg) (robot_base_frame mo) = Some robot \<and> transformPath ti (ti_path ti) (map_frame msg) = Some path \<and>
    mo_footprint mo = Some fp \<and> controller_params mo = Some params \<and>
    isBlocked \<lparr>ck_line = line, ck_costmap = costmap_of msg, ck_footprint = fp, ck_params = params\<rparr> robot path = Some (last_blocked mo')"
proof -
  note inv = reachable_mo_inv [OF assms(1)]
  let ?mo = "mo\<lparr>last_eval := Some (ti_now ti), last_eval_seq := costmap_seq mo, last_eval_path := ti_path ti\<rparr>"
  from assms(2) obtain msg where m: "mo_costmap_msg mo = Some msg" "ti_now ti - costmap_received mo \<le> kCostmapTimeout"
    "evaluate_path line ti msg ?mo = Some (kEvaluated, mo')"
    by (auto simp: evaluate_def split: if_splits option.splits)
  have "mo_inv ?mo" "mo_costmap_msg ?mo = Some msg" using inv m(1) by (simp_all add: mo_inv_last_eval)
  from m(3) [unfolded evaluate_path_spec [OF this]] m(1, 2) show ?thesis
    by (auto split: option.splits)
qed

section \<open>No tick throws\<close>

definition controller_typed :: "param list \<Rightarrow> bool" where
  "controller_typed params \<longleftrightarrow> (length params = 8 \<and> NotSet \<notin> set params \<longrightarrow>
     list_all (\<lambda>i. as_bool (params ! i) \<noteq> None) [0, 4, 7] \<and> list_all (\<lambda>i. as_double (params ! i) \<noteq> None) [1, 2, 3, 5, 6])"

definition costmap_typed :: "param list \<Rightarrow> bool" where
  "costmap_typed params \<longleftrightarrow> (length params = 5 \<longrightarrow>
     (params ! 1 \<noteq> NotSet \<longrightarrow> as_double (params ! 1) \<noteq> None) \<and> (params ! 2 \<noteq> NotSet \<longrightarrow> as_double (params ! 2) \<noteq> None) \<and>
     (params ! 3 \<noteq> NotSet \<longrightarrow> as_bool (params ! 3) \<noteq> None) \<and> (params ! 4 \<noteq> NotSet \<longrightarrow> as_string (params ! 4) \<noteq> None))"

definition tick_ok :: "tick_input \<Rightarrow> bool" where
  "tick_ok ti \<longleftrightarrow> list_all (\<lambda>(msg, now). msg_ok msg) (ti_costmaps ti) \<and> pred_option controller_typed (ti_controller_answer ti) \<and>
     pred_option costmap_typed (ti_costmap_answer ti)"

lemma mo_inv_spin: "tick_ok ti \<Longrightarrow> mo_inv mo \<Longrightarrow> mo_inv (spinSome ti mo)"
proof -
  have "list_all (\<lambda>(msg, now). msg_ok msg) ms \<Longrightarrow> mo_inv mo \<Longrightarrow> mo_inv (fold costmapCallback ms mo)" for ms
    by (induction ms arbitrary: mo) (auto simp: mo_inv_callback)
  then show "tick_ok ti \<Longrightarrow> mo_inv mo \<Longrightarrow> mo_inv (spinSome ti mo)" by (simp add: tick_ok_def spinSome_def)
qed

lemma applyController_returns: "controller_typed params \<Longrightarrow> applyControllerParameters params mo \<noteq> None"
  by (auto simp: applyControllerParameters_def controller_typed_def Let_def)

lemma footprint_of_returns: "(r \<noteq> NotSet \<longrightarrow> as_double r \<noteq> None) \<Longrightarrow> footprint_of fp r \<noteq> None"
  by (auto simp: footprint_of_def Let_def)

lemma applyCostmap_returns:
  assumes "costmap_typed params"
  shows "applyCostmapParameters params mo \<noteq> None"
proof
  assume "applyCostmapParameters params mo = None"
  then show False using assms footprint_of_returns [of "params ! 2" "params ! 0"]
    by (auto simp: applyCostmapParameters_def costmap_typed_def Let_def Option.bind_eq_None_conv split: option.splits if_splits)
qed

lemma answers_return: "tick_ok ti \<Longrightarrow> take_controller_answer ti mo \<noteq> None" "tick_ok ti \<Longrightarrow> take_costmap_answer ti mo \<noteq> None"
  using applyController_returns [of _ mo] applyCostmap_returns [of _ mo]
  by (auto simp: tick_ok_def take_controller_answer_def take_costmap_answer_def Option.bind_eq_None_conv split_beta simp del: not_None_eq split: option.splits)
    (metis option.exhaust surj_pair)+

lemma pollParameters_returns:
  assumes "tick_ok ti" and "mo_inv mo"
  shows "\<exists>mo'. pollParameters ti mo = Some mo' \<and> mo_inv mo'"
proof -
  have "pollParameters ti mo \<noteq> None" using answers_return [OF assms(1)] by (simp add: pollParameters_def Let_def Option.bind_eq_None_conv del: not_None_eq)
  then show ?thesis using mo_inv_poll [OF assms(2)] by blast
qed

lemma evaluate_returns:
  assumes "line_ok line" and "mo_inv mo" and "ready mo"
  shows "\<exists>st mo'. evaluate line ti mo = Some (st, mo') \<and> mo_inv mo'"
proof -
  let ?mo = "mo\<lparr>last_eval := Some (ti_now ti), last_eval_seq := costmap_seq mo, last_eval_path := ti_path ti\<rparr>"
  have path: "evaluate_path line ti msg ?mo \<noteq> None" if msg: "mo_costmap_msg mo = Some msg" for msg
  proof -
    have mo: "mo_inv ?mo" "mo_costmap_msg ?mo = Some msg" using assms(2) msg by (simp_all add: mo_inv_last_eval)
    obtain fp params where fp: "mo_footprint mo = Some fp" "controller_params mo = Some params" using assms(3) by (auto simp: ready_def)
    have "checker_ok \<lparr>ck_line = line, ck_costmap = costmap_of msg, ck_footprint = fp, ck_params = params\<rparr>"
      using assms(1, 2) msg fp(1) by (simp add: checker_ok_def mo_inv_def msg_ok_def costmap_of_def)
    from isBlocked_defined [OF this] have
      "isBlocked \<lparr>ck_line = line, ck_costmap = costmap_of msg, ck_footprint = fp, ck_params = params\<rparr> robot ps \<noteq> None" for robot ps
      by (metis option.distinct(1))
    then show ?thesis by (simp add: evaluate_path_spec [OF mo] fp del: not_None_eq split: option.split)
  qed
  have "evaluate line ti mo \<noteq> None"
    by (auto simp: evaluate_def path simp del: not_None_eq split: option.split)
  then show ?thesis using evaluate_mo_inv [OF assms(2), of line ti] by (cases "evaluate line ti mo") auto
qed

text \<open>The contract of a condition that owns a monitor, and what it gives for a sequence of ticks.\<close>

locale path_condition =
  fixes tick :: "line_cells \<Rightarrow> 'i \<Rightarrow> 's \<Rightarrow> (NodeStatus \<times> 's) option"
    and monitor_of :: "'s \<Rightarrow> monitor"
    and input_ok :: "'i \<Rightarrow> bool"
  assumes tick_returns: "line_ok line \<Longrightarrow> input_ok i \<Longrightarrow> mo_inv (monitor_of c) \<Longrightarrow>
    \<exists>st c'. tick line i c = Some (st, c') \<and> mo_inv (monitor_of c')"
begin

lemma ticks_return:
  "line_ok line \<Longrightarrow> list_all input_ok is \<Longrightarrow> mo_inv (monitor_of c) \<Longrightarrow>
     \<exists>sts c'. run_ticks (tick line) is c = Some (sts, c') \<and> length sts = length is \<and> mo_inv (monitor_of c')"
proof (induction "is" arbitrary: c)
  case (Cons i "is")
  then obtain st c1 where "tick line i c = Some (st, c1)" "mo_inv (monitor_of c1)" using tick_returns by fastforce
  then show ?case using Cons.IH [of c1] Cons.prems by auto
qed simp

end

lemma clear_prepare_returns:
  assumes "tick_ok ti" and "mo_inv (pc_monitor c)"
  shows "\<exists>c1. clear_prepare ti c = Some c1 \<and> mo_inv (pc_monitor c1)"
proof -
  let ?c = "c\<lparr>pc_monitor := spinSome ti (pc_monitor c)\<rparr>"
  have spin: "mo_inv (spinSome ti (pc_monitor c))" using assms by (rule mo_inv_spin)
  let ?c1 = "if episode_starts ti ?c then startEpisode ti ?c else ?c"
  have "mo_inv (pc_monitor ?c1)"
    using spin by (simp add: startEpisode_def mo_inv_refresh mo_inv_reset)
  from pollParameters_returns [OF assms(1) this] obtain mo where "pollParameters ti (pc_monitor ?c1) = Some mo" "mo_inv mo" by blast
  then show ?thesis by (simp add: clear_prepare_def Let_def)
qed

lemma clear_tick_returns:
  assumes "line_ok line" and "tick_ok ti" and "mo_inv (pc_monitor c)"
  shows "\<exists>st c'. clear_tick line ti c = Some (st, c') \<and> mo_inv (pc_monitor c')"
proof -
  obtain c1 where c1: "clear_prepare ti c = Some c1" "mo_inv (pc_monitor c1)" using clear_prepare_returns [OF assms(2, 3)] by blast
  show ?thesis
  proof (cases "ready (pc_monitor c1) \<and> useCollisionDetection (pc_monitor c1)")
    case True
    then obtain st mo where "evaluate line ti (pc_monitor c1) = Some (st, mo)" "mo_inv mo"
      using evaluate_returns [OF assms(1) c1(2)] by blast
    with True c1(1) show ?thesis by (simp add: clear_tick_def clear_evaluate_spec)
  qed (use c1 in \<open>auto simp: clear_tick_def\<close>)
qed

interpretation clear: path_condition clear_tick pc_monitor tick_ok
  by unfold_locales (rule clear_tick_returns)

lemma poll_rounds_return:
  "list_all tick_ok rounds \<Longrightarrow> mo_inv mo \<Longrightarrow> \<exists>mo'. poll_rounds rounds mo = Some mo' \<and> mo_inv mo'"
proof (induction rounds arbitrary: mo)
  case (Cons ti rounds)
  then obtain mo1 where "pollParameters ti (spinSome ti mo) = Some mo1" "mo_inv mo1"
    using pollParameters_returns [of ti "spinSome ti mo"] mo_inv_spin [of ti mo] by auto
  then show ?case using Cons.IH [of mo1] Cons.prems by simp
qed simp

lemma blocked_tick_returns:
  assumes "line_ok line" and "tick_ok ti" and "list_all tick_ok rounds" and "mo_inv (pb_monitor c)"
  shows "\<exists>st c'. blocked_tick line ti rounds c = Some (st, c') \<and> mo_inv (pb_monitor c')"
proof -
  obtain mo1 where "pollParameters ti (spinSome ti (pb_monitor c)) = Some mo1" "mo_inv mo1"
    using pollParameters_returns [OF assms(2) mo_inv_spin [OF assms(2, 4)]] by blast
  with poll_rounds_return [OF assms(3)] obtain mo where
    mo: "pollParametersWithin ti rounds (spinSome ti (pb_monitor c)) = Some mo" "mo_inv mo"
    by (force simp: pollParametersWithin_def)
  show ?thesis
  proof (cases "ready mo \<and> useCollisionDetection mo")
    case True
    then obtain st mo' where "evaluate line ti mo = Some (st, mo')" "mo_inv mo'" using evaluate_returns [OF assms(1) mo(2)] by blast
    with True mo(1) show ?thesis by (simp add: blocked_tick_def Let_def)
  qed (use mo in \<open>auto simp: blocked_tick_def\<close>)
qed

interpretation blocked: path_condition "\<lambda>line (ti, rounds). blocked_tick line ti rounds" pb_monitor "\<lambda>(ti, rounds). tick_ok ti \<and> list_all tick_ok rounds"
  by unfold_locales (auto intro: blocked_tick_returns)

text \<open>C19. Every tick of both conditions returns a status, whatever arrives when and however often: as long as costmap messages hold as many
  cells as they say and the answers of the parameter services have the declared types or are not set, no tick throws,
  dereferences an empty optional, writes outside the costmap or loops.\<close>

theorem condition_ticks_return:
  assumes "line_ok line" and "list_all tick_ok tis" and "list_all (\<lambda>(ti, rounds). tick_ok ti \<and> list_all tick_ok rounds) inputs"
  shows "(\<exists>sts c. run_ticks (clear_tick line) tis (IsPathClearCondition mrg duration) = Some (sts, c) \<and> length sts = length tis) \<and>
    (\<exists>sts c. run_ticks (\<lambda>(ti, rounds). blocked_tick line ti rounds) inputs (IsPathBlockedCondition mrg) = Some (sts, c) \<and> length sts = length inputs)"
  using clear.ticks_return [OF assms(1, 2), of "IsPathClearCondition mrg duration"]
    blocked.ticks_return [OF assms(1, 3), of "IsPathBlockedCondition mrg"]
  by (auto simp: IsPathClearCondition_def IsPathBlockedCondition_def)

section \<open>A sample run\<close>

definition sample_map :: "nat \<Rightarrow> u8 list \<Rightarrow> costmap_msg" where
  "sample_map n cells = \<lparr>map_frame = ''odom'', map_size_x = n, map_size_y = n, map_resolution = 1, map_origin_x = 0, map_origin_y = 0, map_data = cells\<rparr>"

definition sample_tick :: "real \<Rightarrow> costmap_msg \<Rightarrow> tick_input" where
  "sample_tick now msg = \<lparr>ti_now = now, ti_costmaps = [(msg, now)], ti_services_ready = True,
     ti_controller_answer = Some [PBool False, PDouble 1, PDouble 1, PDouble 1, PBool True, PDouble 1, PDouble 4, PBool True],
     ti_costmap_answer = Some [PString ''[[0, 0], [1, 0], [0, 1]]'', PDouble 0, NotSet, PBool False, PString ''base''],
     ti_path = \<lparr>path_stamp = 0, path_frame = ''odom'', path_poses = [(0.5, 0.5, 0), (2.5, 0.5, 0)]\<rparr>,
     ti_robot_pose = (\<lambda>_ _. Some (0.5, 0.5, 0)), ti_transform = (\<lambda>_ _. Some (\<lambda>p. p))\<rparr>"

abbreviation sample_ticks :: "tick_input list" where
  "sample_ticks \<equiv> [sample_tick 0 (sample_map 1 [0]), sample_tick (1 / 2) (sample_map 0 [])]"

definition sample_params :: PathClearanceParams where
  "sample_params = \<lparr>use_velocity_scaled_lookahead_dist = False, lookahead_dist = 1, min_lookahead_dist = 1, max_lookahead_dist = 1,
     use_rotate_to_heading = True, rotate_to_heading_min_angle = 1, max_robot_pose_search_dist = 4, track_unknown_space = False, margin = 1\<rparr>"

lemma sample_footprint: "makeFootprintFromString ''[[0, 0], [1, 0], [0, 1]]'' = Some [(0, 0), (1, 0), (0, 1)]"
  by (simp add: makeFootprintFromString_def parseVVF_def extract_float_def take_sign_def take_digits_def take_fraction_def take_exponent_def
      is_space_def is_digit_def digits_value_def float_limit_def)

lemma sample_line_ok: "line_ok sample_line"
  by (auto simp: line_ok_def sample_line_def)

lemma sample_tick_ok: "msg_ok msg \<Longrightarrow> tick_ok (sample_tick now msg)"
  by (simp add: tick_ok_def sample_tick_def controller_typed_def costmap_typed_def del: not_None_eq)

lemma isBlocked_no_map:
  assumes "checker_ok ck" and "size_x (ck_costmap ck) = 0" and "path \<noteq> []"
  shows "isBlocked ck robot path = Some False"
proof -
  have "\<not> hits ck" using assms(2) by (auto simp: hits_def inCollision_def worldToMap_def Let_def)
  then show ?thesis using isBlocked_defined [OF assms(1), of robot path] assms(3) by auto
qed

lemma sample_blocked:
  "isBlocked \<lparr>ck_line = sample_line, ck_costmap = costmap_of (sample_map (Suc 0) [0]), ck_footprint = [(0, 0), (1, 0), (0, 1)], ck_params = params\<rparr> (1 / 2, 1 / 2, 0) path = Some True"
  by (simp add: isBlocked_def inCollision_def worldToMap_def costmap_of_def sample_map_def footprintCostAtPose_def orient_def footprintCost_def
      lineCost_def sample_line_def getCost_def getIndex_def Let_def LETHAL_OBSTACLE_def NO_INFORMATION_def)

lemma sample_clear:
  "path \<noteq> [] \<Longrightarrow> isBlocked \<lparr>ck_line = sample_line, ck_costmap = costmap_of (sample_map 0 []), ck_footprint = [(0, 0), (1, 0), (0, 1)], ck_params = params\<rparr> robot path = Some False"
  by (intro isBlocked_no_map) (simp_all add: checker_ok_def costmap_of_def sample_map_def sample_line_ok)

lemma sample_poll:
  "pollParameters (sample_tick now msg) (mo\<lparr>parameters_requested := True, controller_future := True, costmap_future := True\<rparr>) =
     Some (mo\<lparr>parameters_requested := True, controller_future := False, costmap_future := False, controller_params := Some (sample_params\<lparr>margin := mo_margin mo\<rparr>),
      use_collision_detection := Some True, mo_footprint := Some [(0, 0), (1, 0), (0, 1)], mo_track_unknown := Some False, robot_base_frame := ''base''\<rparr>)"
  by (simp add: sample_tick_def pollParameters_def take_controller_answer_def take_costmap_answer_def applyControllerParameters_def applyCostmapParameters_def
     footprint_of_def sample_footprint padFootprint_def sign0_def sample_params_def Let_def)


lemma poll_idle:
  "parameters_requested mo \<Longrightarrow> \<not> controller_future mo \<Longrightarrow> \<not> costmap_future mo \<Longrightarrow> pollParameters ti mo = Some mo"
  by (simp add: pollParameters_def take_controller_answer_def take_costmap_answer_def Let_def split: option.split)

definition sample_state :: "nat \<Rightarrow> real \<Rightarrow> bool \<Rightarrow> costmap_msg \<Rightarrow> ClearanceTracker \<Rightarrow> is_path_clear" where
  "sample_state n now blocked msg tr = \<lparr>pc_monitor = \<lparr>mo_margin = 1, mo_costmap_msg = Some msg, costmap_seq = n, costmap_received = now,
     mo_costmap = Some (costmap_of msg), costmap_built_seq = n, controller_future = False, costmap_future = False, parameters_requested = True,
     last_request_attempt = Some 0, controller_params = Some sample_params, use_collision_detection = Some True,
     mo_footprint = Some [(0, 0), (1, 0), (0, 1)], mo_track_unknown = Some False, robot_base_frame = ''base'', last_eval = Some now,
     last_eval_seq = n, last_eval_path = ti_path (sample_tick now msg), last_blocked = blocked\<rparr>,
     clear_duration = 1 / 2, pc_tracker = tr, last_tick = Some now, episode_start = 0\<rparr>"

lemmas sample_defs = clear_tick_def clear_prepare_def IsPathClearCondition_def new_monitor_def spinSome_def costmapCallback_def
  episode_starts_def startEpisode_def resetEvaluation_def refreshParameters_def requestParameters_def sample_tick_def sample_state_def
  pollParameters_def take_controller_answer_def take_costmap_answer_def applyControllerParameters_def applyCostmapParameters_def
  footprint_of_def sample_footprint padFootprint_def sign0_def sample_params_def Let_def tracker_reset_def invalidate_def
  ready_def useCollisionDetection_def clear_evaluate_def evaluate_def evaluate_path_def transformPath_def updateCostmap_def
  new_costmap_def resizeMap_def costmap_of_def sample_map_def kCostmapTimeout_def kEpisodeGap_def

lemmas sample_verdicts = sample_blocked [unfolded costmap_of_def sample_map_def, simplified]
  sample_clear [unfolded costmap_of_def sample_map_def, simplified]

lemma first_tick:
  "clear_tick sample_line (sample_tick 0 (sample_map 1 [0])) (IsPathClearCondition 1 (1 / 2)) =
     Some (FAILURE, sample_state 1 0 True (sample_map 1 [0]) (new_tracker\<lparr>seen_blocked := True\<rparr>))"
  by (simp add: sample_defs sample_verdicts observe_def isClear_def new_tracker_def)

lemma later_tick:
  assumes "now' - now \<le> 1" and "0 \<le> now'" and "msg = sample_map 1 [0] \<or> msg = sample_map 0 []"
  shows "clear_tick sample_line (sample_tick now' (sample_map 0 [])) (sample_state n now b msg tr) =
     Some (if isClear now' (1 / 2) 2 (observe False (Suc n) now' tr) then SUCCESS else FAILURE,
       sample_state (Suc n) now' False (sample_map 0 []) (observe False (Suc n) now' tr))"
  using assms by (auto simp: sample_defs sample_verdicts kMinClearMaps_def)

text \<open>C15. \<^verbatim>\<open>IsPathClear\<close> succeeds at the last of any sequence of ticks exactly when it can judge (parameters known, collision detection
  on) and the evaluations of the ticks, an episode ending at every gap of more than a second, confirm it: the path was
  blocked in this episode, every evaluation after that or after the last failed one found it clear, the first of them at
  least \<^verbatim>\<open>clear_duration\<close> ago and on at least two costmaps.\<close>

theorem clear_success_iff:
  assumes "run_ticks (clear_tick line) (tis @ [ti]) (IsPathClearCondition mrg duration) = Some (sts, c)"
  shows "last sts = SUCCESS \<longleftrightarrow> can_judge (pc_monitor c) \<and>
    confirmed_clear (ti_now ti) duration 2 (run_events line (tis @ [ti]) (IsPathClearCondition mrg duration))"
proof -
  let ?c0 = "IsPathClearCondition mrg duration"
  obtain sts1 c1 st where t: "run_ticks (clear_tick line) tis ?c0 = Some (sts1, c1)" "clear_tick line ti c1 = Some (st, c)" "sts = sts1 @ [st]"
    using clear_ticks_append [OF assms] by blast
  have "pc_tracker c = fold track (run_events line (tis @ [ti]) ?c0) (pc_tracker ?c0)"
    using clear_ticks_tracker [OF assms] by blast
  then have "pc_tracker c = tracker_after (run_events line (tis @ [ti]) ?c0)"
    by (simp add: tracker_after_def IsPathClearCondition_def)
  moreover have "clear_duration c1 = duration"
    using clear_ticks_tracker [OF t(1)] by (simp add: IsPathClearCondition_def)
  ultimately show ?thesis
    using clear_tick_spec(3) [OF t(2)] t(3) by (simp add: kMinClearMaps_def tracker_refines_history isClear_tracker_of)
qed

theorem clear_success_iff_witness:
  "\<exists>sts c. run_ticks (clear_tick sample_line) (sample_ticks @ [sample_tick 1 (sample_map 0 [])]) (IsPathClearCondition 1 (1 / 2)) = Some (sts, c) \<and>
     last sts = SUCCESS \<and> confirmed_clear 1 (1 / 2) 2 (run_events sample_line (sample_ticks @ [sample_tick 1 (sample_map 0 [])]) (IsPathClearCondition 1 (1 / 2)))"
proof -
  obtain c where run: "run_ticks (clear_tick sample_line) (sample_ticks @ [sample_tick 1 (sample_map 0 [])]) (IsPathClearCondition 1 (1 / 2)) =
     Some ([FAILURE, FAILURE, SUCCESS], c)"
    by (simp add: first_tick later_tick observe_def isClear_def new_tracker_def invalidate_def del: One_nat_def)
  have "ti_now (sample_tick 1 (sample_map 0 [])) = 1" by (simp add: sample_tick_def)
  with clear_success_iff [OF run] run show ?thesis by simp
qed

theorem verdict_on_latest_costmap_witness:
  "\<exists>mo mo'. reachable_monitor sample_line 1 mo \<and> mo_costmap_msg mo = Some (sample_map 1 [0]) \<and>
     evaluate sample_line (sample_tick 0 (sample_map 1 [0])) mo = Some (kEvaluated, mo') \<and>
     (\<exists>robot path fp params. isBlocked \<lparr>ck_line = sample_line, ck_costmap = costmap_of (sample_map 1 [0]), ck_footprint = fp, ck_params = params\<rparr>
        robot path = Some (last_blocked mo'))"
proof -
  let ?ti = "sample_tick 0 (sample_map 1 [0])"
  let ?mo = "refreshParameters ?ti (costmapCallback (sample_map 1 [0], 0) (new_monitor 1))"
  have "msg_ok (sample_map 1 [0])" by (simp add: msg_ok_def sample_map_def)
  then have r: "reachable_monitor sample_line 1 ?mo" by (intro reachable_monitor.intros)
  obtain mo where mo: "pollParameters ?ti ?mo = Some mo" by (simp add: sample_defs)
  have msg: "mo_costmap_msg mo = Some (sample_map 1 [0])" using mo by (auto simp: sample_defs)
  obtain mo' where ev: "evaluate sample_line ?ti mo = Some (kEvaluated, mo')"
    using mo by (auto simp: sample_defs sample_verdicts)
  from reachable_monitor.poll [OF r mo] verdict_on_latest_costmap [OF _ ev] msg ev show ?thesis by fastforce
qed

theorem condition_ticks_return_witness:
  "(\<exists>sts c. run_ticks (clear_tick sample_line) sample_ticks (IsPathClearCondition 1 2) = Some (sts, c) \<and> length sts = 2) \<and>
   (\<exists>sts c. run_ticks (\<lambda>(ti, rounds). blocked_tick sample_line ti rounds) [(sample_tick 0 (sample_map 1 [0]), sample_ticks)] (IsPathBlockedCondition 1) =
      Some (sts, c) \<and> length sts = 1)"
proof -
  have "msg_ok (sample_map 1 [0])" "msg_ok (sample_map 0 [])" by (simp_all add: msg_ok_def sample_map_def)
  then have ok: "list_all tick_ok sample_ticks" "list_all (\<lambda>(ti, rounds). tick_ok ti \<and> list_all tick_ok rounds) [(sample_tick 0 (sample_map 1 [0]), sample_ticks)]"
    by (simp_all add: sample_tick_ok)
  show ?thesis using condition_ticks_return [OF sample_line_ok ok, of 1 2] by (simp add: numeral_2_eq_2)
qed

end
