(* ===== verification/WaypointNavigator.thy ===== *)
theory WaypointNavigator
  imports Prelude
begin

text \<open>
  \<^verbatim>\<open>mg_navigation/src/waypoint_navigator.cpp\<close>: the action server that sends the poses of a \<^verbatim>\<open>FollowWaypoints\<close> request one by one
  to \<^verbatim>\<open>NavigateToPose\<close>.

  A turn of the loop of \<^verbatim>\<open>followWaypoints\<close> is a function of what it meets: whether the node runs, a cancel or a preempting
  request, the result of the task at the waypoint, and the callbacks of the action client that the executor runs at the
  end of the turn.  Goals are numbered in the order they are sent, which stands for their ids.  Waiting for a goal handle
  that only the same executor could deliver, using a handle that is null and indexing past the poses are faults.
  The poses sent, the tasks run and the feedback are recorded.  The index is a natural number: it is below the number of
  poses, which a message counts in 32 bits.  Log messages and the rate of the loop are left out.
\<close>

section \<open>State\<close>

datatype ActionStatus = UNKNOWN | PROCESSING | FAILED | SUCCEEDED

datatype ResultCode = CodeUnknown | CodeSucceeded | CodeCanceled | CodeAborted

text \<open>\<^verbatim>\<open>future_goal_handle_\<close>: no shared state yet, not answered yet, a null handle, or the handle of a goal.\<close>

datatype goal_handle = NoState | Pending nat | NullHandle nat | Handle nat

datatype client_event = Response nat bool | Result nat ResultCode

datatype fault = NoFuture | WaitsForever | NullDereference | BadIndex

datatype outcome = SucceededCurrent "nat list" | TerminatedCurrent "nat list" | TerminatedAll | Stopped

record 'p navigator =
  stop_on_failure :: bool
  loop_rate :: int
  current_goal_status :: ActionStatus
  failed_ids :: "nat list"
  goal_future :: goal_handle
  sent :: "'p list"
  tasks :: "('p \<times> nat) list"
  feedbacks :: "nat list"

record 'p follow =
  goal :: "'p list"
  goal_index :: nat
  new_goal :: bool

record 'p loop_input =
  li_ok :: bool
  li_cancel :: "client_event list option"
  li_preempt :: "'p list option"
  li_task :: bool
  li_events :: "client_event list"

datatype 'p turn = Next "'p navigator" "'p follow" | Done outcome "'p navigator" | Fault fault

definition new_navigator :: "bool \<Rightarrow> int \<Rightarrow> 'p navigator" where
  "new_navigator stop rate = \<lparr>stop_on_failure = stop, loop_rate = rate, current_goal_status = UNKNOWN, failed_ids = [],
     goal_future = NoState, sent = [], tasks = [], feedbacks = []\<rparr>"

section \<open>Callbacks\<close>

definition resultCallback :: "nat \<Rightarrow> ResultCode \<Rightarrow> 'p navigator \<Rightarrow> fault + 'p navigator" where
  "resultCallback goal_id code nav =
     (case goal_future nav of
        NoState \<Rightarrow> Inl NoFuture
      | Pending _ \<Rightarrow> Inl WaitsForever
      | NullHandle _ \<Rightarrow> Inl NullDereference
      | Handle current \<Rightarrow>
          if goal_id \<noteq> current then Inr nav
          else Inr (nav\<lparr>current_goal_status :=
             (case code of CodeSucceeded \<Rightarrow> SUCCEEDED | CodeAborted \<Rightarrow> FAILED | CodeCanceled \<Rightarrow> FAILED | CodeUnknown \<Rightarrow> UNKNOWN)\<rparr>))"

text \<open>The response to a goal resolves its future, which is the current one only for the last goal sent.\<close>

definition resolve :: "nat \<Rightarrow> bool \<Rightarrow> goal_handle \<Rightarrow> goal_handle" where
  "resolve k accepted h = (if h = Pending k then if accepted then Handle k else NullHandle k else h)"

definition goalResponseCallback :: "bool \<Rightarrow> 'p navigator \<Rightarrow> 'p navigator" where
  "goalResponseCallback accepted nav = (if \<not> accepted then nav\<lparr>current_goal_status := FAILED\<rparr> else nav)"

fun spin_some :: "client_event list \<Rightarrow> 'p navigator \<Rightarrow> fault + 'p navigator" where
  "spin_some [] nav = Inr nav"
| "spin_some (Response k accepted # evs) nav =
     spin_some evs (goalResponseCallback accepted (nav\<lparr>goal_future := resolve k accepted (goal_future nav)\<rparr>))"
| "spin_some (Result k code # evs) nav =
     (case resultCallback k code nav of Inl f \<Rightarrow> Inl f | Inr nav \<Rightarrow> spin_some evs nav)"

datatype parameter = IntParam string int | BoolParam string bool | OtherParam string

fun set_parameter :: "parameter \<Rightarrow> 'p navigator \<Rightarrow> 'p navigator" where
  "set_parameter (IntParam name v) nav = (if name = ''loop_rate'' then nav\<lparr>loop_rate := v\<rparr> else nav)"
| "set_parameter (BoolParam name v) nav = (if name = ''stop_on_failure'' then nav\<lparr>stop_on_failure := v\<rparr> else nav)"
| "set_parameter (OtherParam name) nav = nav"

definition dynamicParametersCallback :: "parameter list \<Rightarrow> 'p navigator \<Rightarrow> bool \<times> 'p navigator" where
  "dynamicParametersCallback parameters nav = (True, fold set_parameter parameters nav)"

section \<open>followWaypoints\<close>

definition accept_preempt :: "'p loop_input \<Rightarrow> 'p follow \<Rightarrow> 'p follow" where
  "accept_preempt li fw = (case li_preempt li of None \<Rightarrow> fw | Some poses \<Rightarrow> \<lparr>goal = poses, goal_index = 0, new_goal = True\<rparr>)"

definition send_goal :: "'p navigator \<Rightarrow> 'p follow \<Rightarrow> (fault + 'p navigator \<times> 'p follow)" where
  "send_goal nav fw =
     (if \<not> new_goal fw then Inr (nav, fw)
      else if length (goal fw) \<le> goal_index fw then Inl BadIndex
      else Inr (nav\<lparr>sent := sent nav @ [goal fw ! goal_index fw], goal_future := Pending (length (sent nav)), current_goal_status := PROCESSING\<rparr>,
                fw\<lparr>new_goal := False\<rparr>))"

text \<open>The failure and the success of a waypoint: \<open>Inl\<close> when the action ends.\<close>

definition settle :: "bool \<Rightarrow> 'p navigator \<Rightarrow> 'p follow \<Rightarrow> (outcome \<times> 'p navigator) + 'p navigator" where
  "settle task_ok nav fw =
     (if current_goal_status nav = FAILED then
        let nav = nav\<lparr>failed_ids := failed_ids nav @ [goal_index fw]\<rparr>
        in if stop_on_failure nav then Inl (TerminatedCurrent (failed_ids nav), nav\<lparr>failed_ids := []\<rparr>) else Inr nav
      else if current_goal_status nav = SUCCEEDED then
        let nav = nav\<lparr>tasks := tasks nav @ [(goal fw ! goal_index fw, goal_index fw)]\<rparr>
        in if \<not> task_ok \<and> stop_on_failure nav then
             let nav = nav\<lparr>failed_ids := failed_ids nav @ [goal_index fw]\<rparr>
             in Inl (TerminatedCurrent (failed_ids nav), nav\<lparr>failed_ids := []\<rparr>)
           else Inr nav
      else Inr nav)"

definition advance :: "'p navigator \<Rightarrow> 'p follow \<Rightarrow> (outcome \<times> 'p navigator) + 'p follow" where
  "advance nav fw =
     (if current_goal_status nav \<noteq> PROCESSING \<and> current_goal_status nav \<noteq> UNKNOWN then
        let fw = fw\<lparr>goal_index := goal_index fw + 1, new_goal := True\<rparr>
        in if length (goal fw) \<le> goal_index fw then Inl (SucceededCurrent (failed_ids nav), nav\<lparr>failed_ids := []\<rparr>) else Inr fw
      else Inr fw)"

definition turn :: "'p loop_input \<Rightarrow> 'p navigator \<Rightarrow> 'p follow \<Rightarrow> 'p turn" where
  "turn li nav fw =
     (if \<not> li_ok li then Done Stopped nav
      else case li_cancel li of
        Some evs \<Rightarrow> (case spin_some evs nav of Inl f \<Rightarrow> Fault f | Inr nav \<Rightarrow> Done TerminatedAll nav)
      | None \<Rightarrow>
          (case send_goal nav (accept_preempt li fw) of
             Inl f \<Rightarrow> Fault f
           | Inr (nav, fw) \<Rightarrow>
               let nav = nav\<lparr>feedbacks := feedbacks nav @ [goal_index fw]\<rparr>
               in (case settle (li_task li) nav fw of
                     Inl (out, nav) \<Rightarrow> Done out nav
                   | Inr nav \<Rightarrow>
                       (case advance nav fw of
                          Inl (out, nav) \<Rightarrow> Done out nav
                        | Inr fw \<Rightarrow> (case spin_some (li_events li) nav of Inl f \<Rightarrow> Fault f | Inr nav \<Rightarrow> Next nav fw)))))"

fun follow_loop :: "'p loop_input list \<Rightarrow> 'p navigator \<Rightarrow> 'p follow \<Rightarrow> 'p turn" where
  "follow_loop [] nav fw = Next nav fw"
| "follow_loop (li # lis) nav fw = (case turn li nav fw of Next nav fw \<Rightarrow> follow_loop lis nav fw | t \<Rightarrow> t)"

text \<open>\<^verbatim>\<open>followWaypoints\<close> up to the turns given; \<open>active\<close> is whether the server is active.\<close>

definition followWaypoints :: "bool \<Rightarrow> 'p list \<Rightarrow> 'p loop_input list \<Rightarrow> 'p navigator \<Rightarrow> 'p turn" where
  "followWaypoints active poses lis nav =
     (if \<not> active then Done Stopped nav
      else if poses = [] then Done (SucceededCurrent []) nav
      else follow_loop lis nav \<lparr>goal = poses, goal_index = 0, new_goal = True\<rparr>)"

end
