(* ===== verification/WaypointProps.thy ===== *)
theory WaypointProps
  imports WaypointNavigator
begin

text \<open>
  What a \<^verbatim>\<open>FollowWaypoints\<close> request gets: every pose is sent once and in order, the waypoints reported missed are those whose task
  was not run, after whatever an earlier request left in the list; indexing stays in range unless a preempting request is
  empty; and two runs of callbacks that the code does not survive.
\<close>

section \<open>Callbacks touch only the status and the handle\<close>

definition same_books :: "'p navigator \<Rightarrow> 'p navigator \<Rightarrow> bool" where
  "same_books nav nav' \<longleftrightarrow> stop_on_failure nav' = stop_on_failure nav \<and> failed_ids nav' = failed_ids nav \<and> sent nav' = sent nav \<and>
     tasks nav' = tasks nav \<and> feedbacks nav' = feedbacks nav"

lemma spin_some_same: "spin_some evs nav = Inr nav' \<Longrightarrow> same_books nav nav'"
  by (induction evs nav rule: spin_some.induct)
    (auto simp: same_books_def goalResponseCallback_def resultCallback_def split: if_splits sum.splits goal_handle.splits)

section \<open>A request without preemption\<close>

text \<open>The indices below \<open>k\<close> that are not among those missed, as the tasks run there.\<close>

definition tasks_of :: "'p list \<Rightarrow> nat list \<Rightarrow> nat \<Rightarrow> ('p \<times> nat) list" where
  "tasks_of poses missed k = map (\<lambda>i. (poses ! i, i)) (filter (\<lambda>i. i \<notin> set missed) [0..<k])"

definition below :: "nat list \<Rightarrow> nat \<Rightarrow> bool" where
  "below own k \<longleftrightarrow> sorted_wrt (<) own \<and> set own \<subseteq> {..<k}"

lemma below_simps: "below [] k" "below own k \<Longrightarrow> below (own @ [k]) (Suc k)" "below own k \<Longrightarrow> below own (Suc k)"
  by (auto simp: below_def sorted_wrt_append less_Suc_eq)

definition follow_inv :: "'p navigator \<Rightarrow> 'p list \<Rightarrow> nat list \<Rightarrow> 'p navigator \<Rightarrow> 'p follow \<Rightarrow> bool" where
  "follow_inv nav0 poses own nav fw \<longleftrightarrow>
     goal fw = poses \<and> goal_index fw < length poses \<and> stop_on_failure nav = stop_on_failure nav0 \<and>
     failed_ids nav = failed_ids nav0 @ own \<and> below own (goal_index fw) \<and>
     sent nav = sent nav0 @ take (if new_goal fw then goal_index fw else Suc (goal_index fw)) poses \<and>
     tasks nav = tasks nav0 @ tasks_of poses own (goal_index fw) \<and> (stop_on_failure nav0 \<longrightarrow> own = [])"

lemma tasks_of_Suc: "tasks_of poses missed (Suc k) = tasks_of poses missed k @ (if k \<in> set missed then [] else [(poses ! k, k)])"
  by (simp add: tasks_of_def)

lemma tasks_of_snoc: "tasks_of poses (missed @ [k]) (Suc k) = tasks_of poses missed k"
proof -
  have "filter (\<lambda>i. i \<notin> set (missed @ [k])) [0..<k] = filter (\<lambda>i. i \<notin> set missed) [0..<k]" by (rule filter_cong) auto
  then show ?thesis by (simp add: tasks_of_def)
qed

text \<open>What a finished request promises.\<close>

definition served :: "'p navigator \<Rightarrow> 'p list \<Rightarrow> outcome \<Rightarrow> 'p navigator \<Rightarrow> bool" where
  "served nav0 poses out nav \<longleftrightarrow>
     (case out of
        SucceededCurrent missed \<Rightarrow> failed_ids nav = [] \<and> sent nav = sent nav0 @ poses \<and>
          (\<exists>own. missed = failed_ids nav0 @ own \<and> below own (length poses) \<and>
             tasks nav = tasks nav0 @ tasks_of poses own (length poses) \<and> (stop_on_failure nav0 \<longrightarrow> own = []))
      | TerminatedCurrent missed \<Rightarrow> failed_ids nav = [] \<and> stop_on_failure nav0 \<and>
          (\<exists>k < length poses. missed = failed_ids nav0 @ [k] \<and> sent nav = sent nav0 @ take (Suc k) poses \<and>
             (tasks nav = tasks nav0 @ tasks_of poses [] k \<or> tasks nav = tasks nav0 @ tasks_of poses [] (Suc k)))
      | _ \<Rightarrow> True)"

lemma send_inv:
  assumes "follow_inv nav0 poses own nav fw"
  shows "\<exists>nav1 fw1. send_goal nav fw = Inr (nav1, fw1) \<and> follow_inv nav0 poses own nav1 fw1 \<and> \<not> new_goal fw1"
  using assms by (auto simp: send_goal_def follow_inv_def take_Suc_conv_app_nth)

lemma follow_inv_same:
  "follow_inv nav0 poses own nav fw \<Longrightarrow> same_books nav nav' \<Longrightarrow> follow_inv nav0 poses own nav' fw"
  by (simp add: follow_inv_def same_books_def)

lemma settle_advance:
  assumes "follow_inv nav0 poses own nav fw" and "\<not> new_goal fw"
  shows "case settle task nav fw of
      Inl (out, nav1) \<Rightarrow> served nav0 poses out nav1
    | Inr nav1 \<Rightarrow> (case advance nav1 fw of
          Inl (out, nav2) \<Rightarrow> served nav0 poses out nav2
        | Inr fw1 \<Rightarrow> \<exists>own1. follow_inv nav0 poses own1 nav1 fw1)"
proof -
  have inv: "goal fw = poses" "goal_index fw < length poses" "stop_on_failure nav = stop_on_failure nav0"
     "failed_ids nav = failed_ids nav0 @ own" "below own (goal_index fw)"
     "sent nav = sent nav0 @ take (Suc (goal_index fw)) poses"
     "tasks nav = tasks nav0 @ tasks_of poses own (goal_index fw)" "stop_on_failure nav0 \<longrightarrow> own = []"
    using assms by (simp_all add: follow_inv_def)
  have notin: "goal_index fw \<notin> set own" using inv(5) by (auto simp: below_def)
  consider (failed) "current_goal_status nav = FAILED" | (succeeded) "current_goal_status nav = SUCCEEDED"
    | (other) "current_goal_status nav = PROCESSING \<or> current_goal_status nav = UNKNOWN"
    by (cases "current_goal_status nav") auto
  then show ?thesis
  proof cases
    case failed
    show ?thesis
    proof (cases "stop_on_failure nav0")
      case True
      with failed inv show ?thesis by (auto simp: settle_def served_def)
    next
      case False
      have "\<exists>own1. follow_inv nav0 poses own1 (nav\<lparr>failed_ids := failed_ids nav @ [goal_index fw]\<rparr>) (fw\<lparr>goal_index := Suc (goal_index fw), new_goal := True\<rparr>)"
        if "Suc (goal_index fw) < length poses"
        using that False inv below_simps(2) [OF inv(5)] tasks_of_snoc [of poses own "goal_index fw"]
        by (intro exI [of _ "own @ [goal_index fw]"]) (simp add: follow_inv_def)
      moreover have "served nav0 poses (SucceededCurrent (failed_ids nav @ [goal_index fw])) (nav\<lparr>failed_ids := []\<rparr>)"
        if "Suc (goal_index fw) = length poses"
        using that False inv below_simps(2) [OF inv(5)] tasks_of_snoc [of poses own "goal_index fw"]
        by (auto simp: served_def intro!: exI [of _ "own @ [goal_index fw]"])
      ultimately show ?thesis using failed False inv by (auto simp: settle_def advance_def not_le not_less le_Suc_eq)
    qed
  next
    case succeeded
    let ?nav = "nav\<lparr>tasks := tasks nav @ [(goal fw ! goal_index fw, goal_index fw)]\<rparr>"
    have t: "tasks ?nav = tasks nav0 @ tasks_of poses own (Suc (goal_index fw))" using inv notin by (simp add: tasks_of_Suc)
    show ?thesis
    proof (cases "\<not> task \<and> stop_on_failure nav0")
      case True
      with succeeded inv t show ?thesis by (auto simp: settle_def served_def)
    next
      case False
      have "\<exists>own1. follow_inv nav0 poses own1 ?nav (fw\<lparr>goal_index := Suc (goal_index fw), new_goal := True\<rparr>)"
        if "Suc (goal_index fw) < length poses"
        using that inv t below_simps(3) [OF inv(5)] by (intro exI [of _ own]) (simp add: follow_inv_def)
      moreover have "served nav0 poses (SucceededCurrent (failed_ids nav)) (?nav\<lparr>failed_ids := []\<rparr>)"
        if "Suc (goal_index fw) = length poses"
        using that inv t below_simps(3) [OF inv(5)] by (auto simp: served_def)
      ultimately show ?thesis using succeeded False inv by (auto simp: settle_def advance_def not_le not_less le_Suc_eq)
    qed
  next
    case other
    then show ?thesis using assms(1) by (auto simp: settle_def advance_def)
  qed
qed


lemma turn_served:
  assumes "follow_inv nav0 poses own nav fw" and "li_preempt li = None"
  shows "case turn li nav fw of
      Next nav1 fw1 \<Rightarrow> \<exists>own1. follow_inv nav0 poses own1 nav1 fw1 | Done out nav1 \<Rightarrow> served nav0 poses out nav1 | Fault _ \<Rightarrow> True"
proof (cases "li_ok li \<and> li_cancel li = None")
  case True
  obtain nav1 fw1 where s: "send_goal nav fw = Inr (nav1, fw1)" "follow_inv nav0 poses own nav1 fw1" "\<not> new_goal fw1"
    using send_inv [OF assms(1)] by blast
  let ?nav = "nav1\<lparr>feedbacks := feedbacks nav1 @ [goal_index fw1]\<rparr>"
  have "follow_inv nav0 poses own ?nav fw1" using s(2) by (simp add: follow_inv_def)
  from settle_advance [OF this s(3), of "li_task li"] True s(1) assms(2) show ?thesis
    by (auto simp: turn_def accept_preempt_def Let_def split: sum.splits)
      (metis spin_some_same follow_inv_same)
next
  case False
  then show ?thesis by (auto simp: turn_def served_def split: option.splits sum.splits)
qed


section \<open>Indices and faults\<close>

lemma spin_some_index: "spin_some evs nav \<noteq> Inl BadIndex"
  by (induction evs nav rule: spin_some.induct) (auto simp: resultCallback_def split: sum.splits goal_handle.splits if_splits)

lemma send_goal_index:
  assumes "goal_index fw < length (goal fw)"
  obtains nav1 fw1 where "send_goal nav fw = Inr (nav1, fw1)" "goal_index fw1 < length (goal fw1)"
  using assms by (cases "new_goal fw") (auto simp: send_goal_def)

lemma advance_index: "goal_index fw < length (goal fw) \<Longrightarrow> advance nav fw = Inr fw1 \<Longrightarrow> goal_index fw1 < length (goal fw1)"
  by (auto simp: advance_def Let_def split: if_splits)

lemma turn_index:
  assumes "goal_index fw < length (goal fw)" and "li_preempt li \<noteq> Some []"
  shows "case turn li nav fw of Next nav1 fw1 \<Rightarrow> goal_index fw1 < length (goal fw1) | Done _ _ \<Rightarrow> True | Fault f \<Rightarrow> f \<noteq> BadIndex"
proof -
  have "goal_index (accept_preempt li fw) < length (goal (accept_preempt li fw))"
    using assms by (auto simp: accept_preempt_def split: option.splits)
  from send_goal_index [OF this] obtain nav1 fw1 where
    s: "send_goal nav (accept_preempt li fw) = Inr (nav1, fw1)" "goal_index fw1 < length (goal fw1)" by blast
  show ?thesis using spin_some_index advance_index [OF s(2)]
    by (auto simp: turn_def s(1) Let_def split: option.split sum.split)
qed


definition plain_turn :: "bool \<Rightarrow> client_event list \<Rightarrow> 'p loop_input" where
  "plain_turn task evs = \<lparr>li_ok = True, li_cancel = None, li_preempt = None, li_task = task, li_events = evs\<rparr>"

lemmas run_defs = followWaypoints_def turn_def plain_turn_def new_navigator_def accept_preempt_def send_goal_def settle_def advance_def
  goalResponseCallback_def resultCallback_def resolve_def



text \<open>Three ways the action server goes wrong.  A preempting request without poses, which as a first request would succeed at once,
  is indexed at its first pose.  The result of the goal before, arriving while the answer to the preempting goal is
  outstanding, makes the callback wait for the answer that only the same executor could deliver.  The failures of a
  canceled request are reported as missed waypoints of the next one, here a request for one waypoint that was reached.\<close>

theorem waypoint_faults:
  "followWaypoints True [p] [plain_turn True [Response 0 True], (plain_turn True [])\<lparr>li_preempt := Some []\<rparr>] (new_navigator False 20) = Fault BadIndex \<and>
   followWaypoints True [p] [plain_turn True [Response 0 True], (plain_turn True [Result 0 CodeSucceeded])\<lparr>li_preempt := Some [q]\<rparr>]
     (new_navigator False 20) = Fault WaitsForever \<and>
   (\<exists>nav nav'. followWaypoints True [p, q] [plain_turn True [Response 0 True, Result 0 CodeAborted], plain_turn True [],
        (plain_turn True [])\<lparr>li_cancel := Some []\<rparr>] (new_navigator False 20) = Done TerminatedAll nav \<and>
     followWaypoints True [q] [plain_turn True [Response 1 True, Result 1 CodeSucceeded], plain_turn True []] nav = Done (SucceededCurrent [0]) nav')"
  by (simp add: run_defs)

end
