(* ===== verification/Spec2Isabelle.thy ===== *)
theory Spec2Isabelle
  imports EventFormat NavBridgeProps ReoptimizeProps SlamNodeProps MotorDriver WheelOdometry ObstacleDetector SensorInput MapRenderers PoseGraphRuns OrchestratorProps CsmRuns MatcherWrappers PathMonitorRuns WaypointProps
begin

text \<open>
  Verification of the MetroGlide robot software: the C++ of the drivers (\<^verbatim>\<open>mg_drivers\<close>, \<^verbatim>\<open>mg_utils\<close>), of the SLAM
  system with GNSS (\<^verbatim>\<open>slam_gnss_2d\<close>) and of the navigation (\<^verbatim>\<open>mg_navigation\<close>, with the parts of \<^verbatim>\<open>nav2_pkg\<close> it calls).

  \<^bold>\<open>The program.\<close>  The robot drives a serial motor board and reads wheel odometry over serial ports; an obstacle
  detector turns depth points into obstacle clusters; events are logged as structured lines.  The SLAM system receives
  laser scans, odometry and GNSS positions, forms synchronised frames, corrects scans for motion, builds a pose graph
  by matching scans, closes loops, hands the graph to an incremental optimizer and draws occupancy maps.  The
  navigation tells from the local costmap whether the path ahead is blocked (conditions of a behaviour tree) and serves
  lists of waypoints through an action.

  \<^bold>\<open>Theories, in dependency order, with the sources they model.\<close>

  \<^item> \<open>Prelude\<close>: bytes and words, C++ integer conversions, folds of operations that may fail, list lemmas.
  \<^item> \<open>FloatVal\<close>: a sensor value is a real, an infinity or NaN, with the comparisons of IEEE arithmetic.
  \<^item> \<open>EventFormat\<close>: \<^verbatim>\<open>mg_utils/event_format.hpp\<close>.  Every line that \<^verbatim>\<open>FormatEvent\<close> writes is read back to the same keys
    and values by a reader of the documented format, and is one line.
  \<^item> \<open>SerialComm\<close>: \<^verbatim>\<open>serial_communicator2.cpp\<close>.  The port as a state, each operation a function of what the operating
    system answers; the log of system calls shows which descriptors are used.  Checksums and integer encoding.
  \<^item> \<open>SerialDriver\<close>: \<^verbatim>\<open>serial_device.cpp\<close>, \<^verbatim>\<open>serial_driver_node.cpp\<close>.  Error counting, recovery, connection reports; the
    device interface is a locale.
  \<^item> \<open>MotorDriver\<close>, \<open>WheelOdometry\<close>: the two devices and their nodes as step functions on callbacks; properties over every
    sequence of callbacks by induction.
  \<^item> \<open>ObstacleDetector\<close>: \<^verbatim>\<open>obstacle_detector.cpp\<close>.  Cropping, grid accumulation, judging, clustering, extraction; the search
    for a component is proved to find exactly the connected component.
  \<^item> \<open>Geometry\<close>: \<^verbatim>\<open>core/data_types.hpp\<close>, \<^verbatim>\<open>core/geometry.cpp\<close>.  Poses, angles, scan points and normals.
  \<^item> \<open>SensorInput\<close>: \<^verbatim>\<open>input/time_series\<close>, \<^verbatim>\<open>input/ros2/ros_adapter.cpp\<close>, \<^verbatim>\<open>core/deskew.cpp\<close>, \<^verbatim>\<open>core/sensor_synchronizer.cpp\<close>.
  \<^item> \<open>GridMap\<close>, \<open>MapCounting\<close>, \<open>MapRenderers\<close>: \<^verbatim>\<open>map_manager/\<close>.  Drawing of scans into grids by both renderers, the parallel
    redraw as an arbitrary interleaving of thread steps, the noise filter; the renderer interface is a locale with both
    renderers as instances.
  \<^item> \<open>ScanReference\<close>: \<^verbatim>\<open>scan_matching/reference_provider/\<close>.  The points a scan is matched against.
  \<^item> \<open>PoseGraph\<close>: \<^verbatim>\<open>pose_graph/\<close>.  The odometry-only, scan-matching and loop-closure builders with all their state.
  \<^item> \<open>PoseGraphProps\<close>: the builder interface \<^verbatim>\<open>PoseGraphBuilderBase\<close> as the locale \<open>pose_graph_builder\<close>, interpreted for the
    odometry-only builder and for the loop-closure builder.
  \<^item> \<open>PoseGraphRuns\<close>: the shape of the graph over every sequence of operations, the gates of near links and loop edges,
    fusion with the odometry.
  \<^item> \<open>Gnss\<close>: \<^verbatim>\<open>gnss/\<close>.  The anchor of the map and the quality rules of the navigation bridge.
  \<^item> \<open>NavBridge\<close>, \<open>NavBridgeProps\<close>: \<^verbatim>\<open>nodes/slam_gnss_nav_bridge_node.cpp\<close>.  The node that turns fixes into positions on the map as
    steps on its callbacks; its messages and its adoption events over every sequence of callbacks.
  \<^item> \<open>Optimizer\<close>: \<^verbatim>\<open>optimizer/isam2_optimizer.cpp\<close>.  The bookkeeping around GTSAM and the contract of GTSAM.
  \<^item> \<open>Orchestrator\<close>: \<^verbatim>\<open>core/graph_orchestrator.cpp\<close>.  \<^verbatim>\<open>process_frame\<close> and \<^verbatim>\<open>finalize\<close> with every step.
  \<^item> \<open>OrchestratorProps\<close>: inside the locale \<open>pose_graph_builder\<close>, the invariant of the orchestrator over every sequence of
    frames; then instantiated for the loop-closure builder.
  \<^item> \<open>SlamNode\<close>: \<^verbatim>\<open>core/slam_node_base.cpp\<close>, \<^verbatim>\<open>nodes/slam_offline_node.cpp\<close>, \<^verbatim>\<open>ros/slam_visualizer.cpp\<close>, \<^verbatim>\<open>ros/tf_broadcaster.cpp\<close>.  The
    callbacks around the orchestrator, each with what it publishes.  \<open>SlamDisplay\<close>: the broadcast transform, and which nodes
    a renderer has drawn.  \<open>SlamNodeProps\<close>: inside the locale \<open>pose_graph_builder\<close>, the invariant of the node over every
    sequence of callbacks and its shutdown; then instantiated for the loop-closure builder.
  \<^item> \<open>BatchOptimizer\<close>: \<^verbatim>\<open>optimizer/gtsam_optimizer.cpp\<close>.  \<open>ReoptimizeTools\<close>, \<open>Reoptimize\<close>, \<open>ReoptimizeProps\<close>: \<^verbatim>\<open>tools/\<close> and
    \<^verbatim>\<open>nodes/reoptimize_node.cpp\<close>.  The offline tool reads a saved graph, matches its edges again, searches loops and optimizes
    twice; it returns on every saved graph and keeps its nodes and edges.
  \<^item> \<open>PoseGraphFile\<close>: \<^verbatim>\<open>core/slam_data_saver.cpp\<close>, \<^verbatim>\<open>tools/reoptimize_io.cpp\<close>.  A saved graph is read back.  \<open>MapSave\<close>: the save
    services, the graph service and message (\<^verbatim>\<open>ros/\<close>), the preview and the anchor publisher (\<^verbatim>\<open>nodes/\<close>).  The preview agrees with
    the service, the saved transform with the navigation bridge.

  \<^item> \<open>LikelihoodGrid\<close>, \<open>MultiResCsm\<close>: \<^verbatim>\<open>scan_matching/multi_res_csm_matcher.cpp\<close>.  The likelihood grid of a target, the coarse and the
    fine search, the parabola fit, the cache of targets.  \<open>CsmProps\<close>, \<open>CsmRuns\<close>: both searches find the best candidate of
    their raster whatever the distribution over threads; runs of a matcher do not depend on the OpenMP runtime.
  \<^item> \<open>PlanarMatrix\<close>, \<open>PointSearch\<close>: small matrices, when they are positive, a solver and an eigensolver that meet the contracts
    of Eigen's; the contract of nanoflann's search.
  \<^item> \<open>ExhaustiveCsm\<close>: \<^verbatim>\<open>csm_matcher.cpp\<close>.  The exhaustive search finds the best pose of its raster.
  \<^item> \<open>IcpMatcher\<close>, \<open>IcpProps\<close>: \<^verbatim>\<open>icp_matcher.cpp\<close>.  Each step minimises its least-squares problem; sums over threads are a locale.
  \<^item> \<open>NdtMatcher\<close>, \<open>NdtProps\<close>: \<^verbatim>\<open>ndt_matcher.cpp\<close>.  The cells of a level; each step descends; bounds of the result.
  \<^item> \<open>MatcherWrappers\<close>: the coarse-to-fine and multi-start matchers.  What every matcher promises is the locale \<open>scan_matcher\<close>; two
    matchers make a matcher (\<open>matcher_pair\<close>).
  \<^item> \<open>FootprintParser\<close>, \<open>PathClearance\<close>: the footprint syntax (\<^verbatim>\<open>array_parser.cpp\<close>, \<^verbatim>\<open>footprint.cpp\<close>), the costmap operations
    (\<^verbatim>\<open>costmap_2d.cpp\<close>, \<^verbatim>\<open>footprint_collision_checker.cpp\<close>) and \<^verbatim>\<open>path_clearance.cpp\<close>.  \<open>PathClearanceProps\<close>: the check returns, reads no
    cell outside the map, and what its verdicts mean.
  \<^item> \<open>PathMonitor\<close>: \<^verbatim>\<open>path_clearance_monitor.cpp\<close> and the tree nodes \<^verbatim>\<open>IsPathClear\<close>, \<^verbatim>\<open>IsPathBlocked\<close>, \<^verbatim>\<open>CommitPath\<close>.  \<open>PathMonitorProps\<close>:
    the tracker refines a specification on the list of evaluations.  \<open>PathMonitorRuns\<close>: reachable monitors; the locale
    \<open>path_condition\<close> with both conditions as instances.
  \<^item> \<open>WaypointNavigator\<close>, \<open>WaypointProps\<close>: \<^verbatim>\<open>waypoint_navigator.cpp\<close> as a machine over action callbacks and its traces.

  \<^bold>\<open>How code becomes definitions.\<close>  Classes are records, methods functions that return the changed record, enums
  datatypes.  Integers that may wrap are words or integers with the conversion written out; \<^verbatim>\<open>double\<close> is a real, or a
  \<open>FloatVal\<close> where the code has to cope with NaN and infinities, so rounding is not part of the model.  An exception or
  an access that C++ leaves undefined is \<open>None\<close>; log messages, timing statistics and mutexes are left out, except where
  a log line is the subject.  Loops are structural recursion or folds; the loops over candidate batches and grid
  components have measures; the loops along a path are \<open>partial_function\<close> with values in \<open>option\<close> and are proved to return.

  \<^bold>\<open>Parameters.\<close>  Code outside the repository is an argument: the operating system's answers on a serial port, GTSAM
  (\<open>gtsam_api\<close>, with \<open>gtsam_keys\<close> and \<open>gtsam_accepts\<close> as its documented contract), GeographicLib's projection, nanoflann's
  radius search (\<open>search_ok\<close>), GTSAM's batch solver (\<open>batch_ok\<close>), the JSON library (\<open>json_ok\<close>), Eigen's decompositions, the OpenMP runtime's assignment
  of iterations to threads (\<open>omp_ok\<close>), the answers of parameter services and of the action client.  \<^verbatim>\<open>nav2_util\<close>'s line
  iterator is an argument with the contract \<open>line_ok\<close>.  For the pose graph the scan matchers are behind their interface \<open>matcher_api\<close> and no
  assumption is made about what they answer.

  \<^bold>\<open>Not modelled.\<close>  The bag reader and the configuration loader of the SLAM system, which read files and parameters into the
  records the model starts from; the wiring of publishers and subscriptions at the start of a node, with their queues; the
  texts of JSON and YAML files; the transitions of the waypoint navigator's life cycle; the rest of the vendored
  \<^verbatim>\<open>nav2_pkg\<close> and \<^verbatim>\<open>geometry2_pkg\<close>, of which only what the components above call is modelled; depth post-processing, which calls
  librealsense and PCL; Python and web user-interface code.
\<close>

end
